(* ===== verification/Prelude.thy ===== *)
theory Prelude
  imports Complex_Main "HOL-Library.Char_ord"
begin

text \<open>
  The shared prelude of the development: the vocabulary of the Python standard
  library that several components use (text operations, rounding, slices,
  insertion-ordered dictionaries, bounded deques), the named collections that
  the component theories extend, and the generic lemmas their proofs share.

  Conventions. Text is \<^typ>\<open>string\<close> (ASCII). Python's floating-point and
  \<^verbatim>\<open>decimal.Decimal\<close> quantities are rational numbers: comparisons and the
  branches they decide are exact, binary rounding of sums and quotients is not
  modelled, explicit \<^verbatim>\<open>round\<close> calls are (\<open>py_round\<close>). Python integers are
  \<^typ>\<open>int\<close>, clock readings (\<^verbatim>\<open>time.time()\<close>) are rationals in seconds and are
  arguments of every operation that reads the clock.
\<close>

section \<open>Collections\<close>

named_theorems cb_simps \<open>unfoldings of the circuit-breaker operations\<close>
named_theorems store_simps \<open>unfoldings of the in-memory store operations\<close>
named_theorems frame_simps \<open>fields an operation leaves alone\<close>

type_synonym secs = rat
type_synonym price = rat

section \<open>Text\<close>

definition upper_char :: "char \<Rightarrow> char" where
  "upper_char c = (if CHR ''a'' \<le> c \<and> c \<le> CHR ''z''
     then char_of ((of_char c :: nat) - 32) else c)"

definition lower_char :: "char \<Rightarrow> char" where
  "lower_char c = (if CHR ''A'' \<le> c \<and> c \<le> CHR ''Z''
     then char_of ((of_char c :: nat) + 32) else c)"

definition upper :: "string \<Rightarrow> string" where
  "upper s = map upper_char s"

definition lower :: "string \<Rightarrow> string" where
  "lower s = map lower_char s"

definition is_space :: "char \<Rightarrow> bool" where
  "is_space c \<longleftrightarrow> (let n = (of_char c :: nat) in (9 \<le> n \<and> n \<le> 13) \<or> (28 \<le> n \<and> n \<le> 32))"

definition strip :: "string \<Rightarrow> string" where
  "strip s = rev (dropWhile is_space (rev (dropWhile is_space s)))"

fun starts_with :: "string \<Rightarrow> string \<Rightarrow> bool" where
  "starts_with s [] = True"
| "starts_with [] (p # ps) = False"
| "starts_with (c # cs) (p # ps) = (c = p \<and> starts_with cs ps)"

fun contains_text :: "string \<Rightarrow> string \<Rightarrow> bool" where
  "contains_text [] p = (p = [])"
| "contains_text (c # cs) p = (starts_with (c # cs) p \<or> contains_text cs p)"

text \<open>\<^verbatim>\<open>s.split(",")\<close>: always at least one piece.\<close>

fun split_on :: "char \<Rightarrow> string \<Rightarrow> string list" where
  "split_on d [] = [[]]"
| "split_on d (c # cs) =
     (if c = d then [] # split_on d cs
      else (case split_on d cs of [] \<Rightarrow> [[c]] | p # ps \<Rightarrow> (c # p) # ps))"

lemma upper_char_upper_char [simp]: "upper_char (upper_char c) = upper_char c"
proof -
  have *: "CHR ''a'' \<le> c \<and> c \<le> CHR ''z'' \<longleftrightarrow> 97 \<le> (of_char c :: nat) \<and> (of_char c :: nat) \<le> 122" for c
    by (simp add: less_eq_char_def)
  have lt: "(of_char c :: nat) < 256" by simp
  show ?thesis
    unfolding upper_char_def * using lt by auto
qed

lemma upper_upper [simp]: "upper (upper s) = upper s"
  by (simp add: upper_def)

lemma length_upper [simp]: "length (upper s) = length s"
  by (simp add: upper_def)

lemma upper_append: "upper (s @ t) = upper s @ upper t"
  by (simp add: upper_def)

lemma dropWhile_id: "(xs \<noteq> [] \<Longrightarrow> \<not> P (hd xs)) \<Longrightarrow> dropWhile P xs = xs"
  by (cases xs) auto

lemma strip_strip [simp]: "strip (strip s) = strip s"
proof -
  define t where "t = dropWhile is_space s"
  define u where "u = dropWhile is_space (rev t)"
  have hd_u: "u \<noteq> [] \<Longrightarrow> \<not> is_space (hd u)"
    unfolding u_def using hd_dropWhile by blast
  have hd_t: "t \<noteq> [] \<Longrightarrow> \<not> is_space (hd t)"
    unfolding t_def using hd_dropWhile by blast
  have suf: "rev t = takeWhile is_space (rev t) @ u"
    unfolding u_def by simp
  then have t: "t = rev u @ rev (takeWhile is_space (rev t))"
    by (metis rev_append rev_rev_ident)
  have "rev u \<noteq> [] \<Longrightarrow> \<not> is_space (hd (rev u))"
    using hd_t t by (metis append_is_Nil_conv hd_append2)
  then have "dropWhile is_space (rev u) = rev u" by (rule dropWhile_id)
  then show ?thesis
    unfolding strip_def t_def[symmetric] u_def[symmetric]
    using dropWhile_id[of u is_space] hd_u by simp
qed

lemma split_on_nonempty [simp]: "split_on d s \<noteq> []"
  by (induction s) (auto split: list.splits)

section \<open>Truthiness, rounding and slices\<close>

text \<open>\<^verbatim>\<open>x or d\<close> for an optional number: \<^verbatim>\<open>None\<close> and zero both select the default.\<close>

definition or_default :: "'a::zero option \<Rightarrow> 'a \<Rightarrow> 'a" where
  "or_default x d = (case x of None \<Rightarrow> d | Some v \<Rightarrow> if v = 0 then d else v)"

text \<open>\<^verbatim>\<open>int(x)\<close> truncates towards zero.\<close>

definition py_trunc :: "rat \<Rightarrow> int" where
  "py_trunc x = (if x < 0 then \<lceil>x\<rceil> else \<lfloor>x\<rfloor>)"

text \<open>\<^verbatim>\<open>round\<close>: to the nearest integer, ties to the even one; then \<^verbatim>\<open>round(x, n)\<close>.\<close>

definition round_half_even :: "rat \<Rightarrow> int" where
  "round_half_even x =
     (let f = \<lfloor>x\<rfloor>; r = x - of_int f
      in if r < 1 / 2 then f else if 1 / 2 < r then f + 1 else if even f then f else f + 1)"

definition py_round :: "nat \<Rightarrow> rat \<Rightarrow> rat" where
  "py_round n x = of_int (round_half_even (x * 10 ^ n)) / 10 ^ n"

text \<open>\<^verbatim>\<open>xs[-n:]\<close>: the last \<open>n\<close> elements, and the whole list for \<open>n = 0\<close> (\<^verbatim>\<open>-0\<close> is \<^verbatim>\<open>0\<close>).\<close>

definition last_n :: "nat \<Rightarrow> 'a list \<Rightarrow> 'a list" where
  "last_n n xs = (if n = 0 then xs else drop (length xs - n) xs)"

text \<open>A \<^verbatim>\<open>deque(maxlen=m)\<close> drops from the left when an append exceeds its length.\<close>

definition deque_append :: "nat \<Rightarrow> 'a list \<Rightarrow> 'a \<Rightarrow> 'a list" where
  "deque_append m xs x = (let ys = xs @ [x] in drop (length ys - m) ys)"

lemma length_deque_append:
  "length xs \<le> m \<Longrightarrow> length (deque_append m xs x) = min m (length xs + 1)"
  by (auto simp: deque_append_def)

lemma deque_append_room: "length xs < m \<Longrightarrow> deque_append m xs x = xs @ [x]"
  by (simp add: deque_append_def)

lemma deque_append_full:
  "length xs = m \<Longrightarrow> 0 < m \<Longrightarrow> deque_append m xs x = tl xs @ [x]"
  by (cases xs) (auto simp: deque_append_def)

lemma last_deque_append: "0 < m \<Longrightarrow> last (deque_append m xs x) = x"
  by (simp add: deque_append_def)

lemma set_deque_append: "set (deque_append m xs x) \<subseteq> insert x (set xs)"
  using set_drop_subset by (fastforce simp: deque_append_def Let_def)

lemma set_last_n: "set (last_n n xs) \<subseteq> set xs"
  by (auto simp: last_n_def dest: in_set_dropD)

lemma last_last_n: "xs \<noteq> [] \<Longrightarrow> last (last_n n xs) = last xs"
  by (cases "n = 0") (auto simp: last_n_def last_drop)

lemma length_last_n: "0 < n \<Longrightarrow> length (last_n n xs) = min n (length xs)"
  by (auto simp: last_n_def)

lemma last_n_all: "length xs \<le> n \<Longrightarrow> last_n n xs = xs"
  by (simp add: last_n_def)

lemma last_n_suffix: "\<exists>ys. xs = ys @ last_n n xs"
  by (auto simp: last_n_def intro: exI[of _ "take (length xs - n) xs"] append_take_drop_id[symmetric])

lemma sorted_wrt_last_n: "sorted_wrt R xs \<Longrightarrow> sorted_wrt R (last_n n xs)"
  using last_n_suffix[of xs n] by (metis sorted_wrt_append)

lemma distinct_last_n: "distinct xs \<Longrightarrow> distinct (last_n n xs)"
  using last_n_suffix[of xs n] by (metis distinct_append)

lemma round_half_even_int [simp]: "round_half_even (of_int k) = k"
  by (simp add: round_half_even_def)

lemma round_half_even_near: "\<bar>of_int (round_half_even x) - x\<bar> \<le> 1 / 2"
proof -
  have near: "\<bar>(if x - f < 1 / 2 then f else if 1 / 2 < x - f then f + 1 else if P then f else f + 1) - x\<bar>
      \<le> 1 / 2" if "f \<le> x" "x < f + 1" for f :: rat and P
    using that by (auto simp: abs_if)
  have "of_int (round_half_even x) = (if x - of_int \<lfloor>x\<rfloor> < 1 / 2 then of_int \<lfloor>x\<rfloor>
      else if 1 / 2 < x - of_int \<lfloor>x\<rfloor> then of_int \<lfloor>x\<rfloor> + 1
      else if even \<lfloor>x\<rfloor> then of_int \<lfloor>x\<rfloor> else of_int \<lfloor>x\<rfloor> + (1::rat))"
    by (simp add: round_half_even_def Let_def)
  moreover have "of_int \<lfloor>x\<rfloor> \<le> x" "x < of_int \<lfloor>x\<rfloor> + 1" by linarith+
  ultimately show ?thesis using near[of "of_int \<lfloor>x\<rfloor>" "even \<lfloor>x\<rfloor>"] by (simp only:)
qed

lemma round_half_even_mono: assumes "x \<le> y" shows "round_half_even x \<le> round_half_even y"
proof (cases "\<lfloor>x\<rfloor> = \<lfloor>y\<rfloor>")
  case True
  with assms show ?thesis by (auto simp: round_half_even_def Let_def)
next
  case False
  with assms have "\<lfloor>x\<rfloor> + 1 \<le> \<lfloor>y\<rfloor>"
    using floor_mono[OF assms] by linarith
  moreover have "round_half_even x \<le> \<lfloor>x\<rfloor> + 1" "\<lfloor>y\<rfloor> \<le> round_half_even y"
    by (auto simp: round_half_even_def Let_def)
  ultimately show ?thesis by linarith
qed

lemma py_round_mono: "x \<le> y \<Longrightarrow> py_round n x \<le> py_round n y"
  by (auto simp: py_round_def intro!: divide_right_mono round_half_even_mono mult_right_mono)

lemma py_round_near: "\<bar>py_round n x - x\<bar> \<le> 1 / (2 * 10 ^ n)"
proof -
  have "py_round n x - x = (of_int (round_half_even (x * 10 ^ n)) - x * 10 ^ n) / 10 ^ n"
    by (simp add: py_round_def field_simps)
  then have "\<bar>py_round n x - x\<bar> = \<bar>of_int (round_half_even (x * 10 ^ n)) - x * 10 ^ n\<bar> / 10 ^ n"
    by (simp add: abs_divide)
  also have "\<dots> \<le> (1 / 2) / 10 ^ n"
    by (intro divide_right_mono round_half_even_near) simp
  finally show ?thesis by (simp add: field_simps)
qed

lemma py_round_zero [simp]: "py_round n 0 = 0"
  by (simp add: py_round_def round_half_even_def)

lemma py_round_nonneg: "0 \<le> x \<Longrightarrow> 0 \<le> py_round n x"
  using py_round_mono[of 0 x n] by simp

lemma py_trunc_nonneg: "0 \<le> x \<Longrightarrow> 0 \<le> py_trunc x"
  by (simp add: py_trunc_def)

lemma py_trunc_int [simp]: "py_trunc (of_int k) = k"
  by (simp add: py_trunc_def)

section \<open>Numerals\<close>

definition is_digit :: "char \<Rightarrow> bool" where
  "is_digit c \<longleftrightarrow> CHR ''0'' \<le> c \<and> c \<le> CHR ''9''"

fun digits_val :: "int \<Rightarrow> string \<Rightarrow> int option" where
  "digits_val acc [] = Some acc"
| "digits_val acc (c # cs) = (if is_digit c then digits_val (acc * 10 + (of_char c - 48)) cs else None)"

text \<open>\<^verbatim>\<open>int(text)\<close>; \<open>None\<close> is the \<^verbatim>\<open>ValueError\<close>. Underscores in numerals are not accepted.\<close>

definition parse_int :: "string \<Rightarrow> int option" where
  "parse_int s = (case strip s of [] \<Rightarrow> None
     | c # cs \<Rightarrow> if c = CHR ''-'' then (if cs = [] then None else map_option uminus (digits_val 0 cs))
                 else if c = CHR ''+'' then (if cs = [] then None else digits_val 0 cs)
                 else digits_val 0 (c # cs))"

text \<open>\<^verbatim>\<open>Decimal(text)\<close> and \<^verbatim>\<open>float(text)\<close> for finite numerals; \<open>None\<close> is the exception.
  The spellings of infinities and NaN are refused too.\<close>

definition split_sign :: "string \<Rightarrow> int \<times> string" where
  "split_sign s = (case s of [] \<Rightarrow> (1, [])
     | c # cs \<Rightarrow> if c = CHR ''-'' then (- 1, cs) else if c = CHR ''+'' then (1, cs) else (1, s))"

definition parse_exponent :: "string \<Rightarrow> int option" where
  "parse_exponent s = (case s of [] \<Rightarrow> Some 0
     | e # es \<Rightarrow> if e \<noteq> CHR ''e'' \<and> e \<noteq> CHR ''E'' then None
         else (let (g, ds) = split_sign es in if ds = [] then None else map_option (\<lambda>n. g * n) (digits_val 0 ds)))"

definition parse_decimal :: "string \<Rightarrow> rat option" where
  "parse_decimal s =
     (let (g, u) = split_sign (strip s); ip = takeWhile is_digit u; r = dropWhile is_digit u;
          (fp, r2) = (case r of [] \<Rightarrow> ([], []) | c # cs \<Rightarrow>
             if c = CHR ''.'' then (takeWhile is_digit cs, dropWhile is_digit cs) else ([], r))
      in if ip @ fp = [] then None
         else case (digits_val 0 (ip @ fp), parse_exponent r2) of
                (Some n, Some e) \<Rightarrow> Some (of_int (g * n) / 10 ^ length fp *
                   (if 0 \<le> e then 10 ^ nat e else 1 / 10 ^ nat (- e)))
              | _ \<Rightarrow> None)"

section \<open>Dictionaries\<close>

text \<open>
  An insertion-ordered dictionary is an association list with distinct keys:
  storing under an existing key keeps its place.
\<close>

fun dput :: "'k \<Rightarrow> 'v \<Rightarrow> ('k \<times> 'v) list \<Rightarrow> ('k \<times> 'v) list" where
  "dput k v [] = [(k, v)]"
| "dput k v ((k', v') # d) = (if k = k' then (k, v) # d else (k', v') # dput k v d)"

definition ddel :: "'k \<Rightarrow> ('k \<times> 'v) list \<Rightarrow> ('k \<times> 'v) list" where
  "ddel k d = filter (\<lambda>e. fst e \<noteq> k) d"

lemma map_of_dput [simp]: "map_of (dput k v d) = (map_of d)(k \<mapsto> v)"
  by (induction k v d rule: dput.induct) (auto simp: fun_eq_iff)

lemma keys_dput: "map fst (dput k v d) = (if k \<in> fst ` set d then map fst d else map fst d @ [k])"
  by (induction k v d rule: dput.induct) auto

lemma fst_set_dput [simp]: "fst ` set (dput k v d) = insert k (fst ` set d)"
  by (induction k v d rule: dput.induct) auto

lemma distinct_dput: "distinct (map fst d) \<Longrightarrow> distinct (map fst (dput k v d))"
  by (auto simp: keys_dput)

lemma map_of_ddel [simp]: "map_of (ddel k d) = (map_of d)(k := None)"
  by (induction d) (auto simp: ddel_def fun_eq_iff)

lemma distinct_ddel: "distinct (map fst d) \<Longrightarrow> distinct (map fst (ddel k d))"
  by (auto simp: ddel_def distinct_map_filter)

lemma map_of_ddel_other: "k' \<noteq> k \<Longrightarrow> map_of (ddel k d) k' = map_of d k'"
  by simp

lemma ddel_id: "k \<notin> fst ` set d \<Longrightarrow> ddel k d = d"
  unfolding ddel_def by (rule filter_True) force

lemma sum_list_ddel:
  fixes f :: "'k \<times> 'v \<Rightarrow> int"
  assumes "distinct (map fst d)" "map_of d k = Some v"
  shows "sum_list (map f (ddel k d)) = sum_list (map f d) - f (k, v)"
  using assms
proof (induction d)
  case Nil
  then show ?case by simp
next
  case (Cons e d)
  show ?case
  proof (cases "fst e = k")
    case True
    with Cons.prems have "ddel k (e # d) = d" "e = (k, v)"
      by (auto simp: ddel_def image_iff intro!: filter_True split: prod.splits if_splits)
    then show ?thesis by simp
  next
    case False
    with Cons have "sum_list (map f (ddel k d)) = sum_list (map f d) - f (k, v)"
      by (auto split: prod.splits if_splits)
    with False show ?thesis by (simp add: ddel_def)
  qed
qed

lemma map_of_rev_distinct: "distinct (map fst xs) \<Longrightarrow> map_of (rev xs) = map_of xs"
  by (subst map_of_inject_set) (simp_all add: rev_map[symmetric])

lemma dput_fresh: "k \<notin> fst ` set d \<Longrightarrow> dput k v d = d @ [(k, v)]"
  by (induction k v d rule: dput.induct) auto

text \<open>\<^verbatim>\<open>sorted(xs, key=f)\<close> and \<^verbatim>\<open>xs.sort(key=f)\<close> are stable: the library's \<^const>\<open>sort_key\<close>.
  \<^verbatim>\<open>min(xs, key=f)\<close> is the first minimal element.\<close>

fun min_key :: "('a \<Rightarrow> 'b::linorder) \<Rightarrow> 'a \<Rightarrow> 'a list \<Rightarrow> 'a" where
  "min_key f x [] = x"
| "min_key f x (y # ys) = (if f y < f x then min_key f y ys else min_key f x ys)"

lemma min_key_in: "min_key f x xs \<in> insert x (set xs)"
  by (induction f x xs rule: min_key.induct) auto

lemma min_key_least: "y \<in> insert x (set xs) \<Longrightarrow> f (min_key f x xs) \<le> f y"
proof (induction f x xs arbitrary: y rule: min_key.induct)
  case (1 f x)
  then show ?case by simp
next
  case (2 f x z zs)
  show ?case
  proof (cases "f z < f x")
    case True
    with 2(1)[of z] 2(1)[of y] 2(3) show ?thesis by (cases "y = x") auto
  next
    case False
    with 2(2)[of x] 2(2)[of y] 2(3) show ?thesis by (cases "y = z") auto
  qed
qed

end
