(* ===== verification/Providers.thy ===== *)
theory Providers
  imports Prelude
begin

text \<open>
  \<^verbatim>\<open>src/providers/base.py\<close>: the provider base class. The class-level metadata, the
  connection flag and the request metrics are the record \<open>provider\<close>; what a concrete
  provider does on the network (connecting, fetching) is supplied by the environment of
  the operations that call it. \<^verbatim>\<open>_source_match\<close> of \<^verbatim>\<open>src/engine/failover.py\<close>, which reads
  only this metadata, is here too.
\<close>

record provider =
  p_name :: string
  p_tier :: int
  p_priority :: int
  p_delayed :: bool
  p_exchange :: string
  p_connected :: bool
  p_error_count :: int
  p_total_requests :: int
  p_total_latency_ms :: rat

definition new_provider :: "string \<Rightarrow> int \<Rightarrow> int \<Rightarrow> bool \<Rightarrow> string \<Rightarrow> provider" where
  "new_provider n t pr dl ex = \<lparr>p_name = n, p_tier = t, p_priority = pr, p_delayed = dl,
     p_exchange = ex, p_connected = False, p_error_count = 0, p_total_requests = 0,
     p_total_latency_ms = 0\<rparr>"

definition error_rate :: "provider \<Rightarrow> rat" where
  "error_rate p = (if p_total_requests p = 0 then 0
     else of_int (p_error_count p) / of_int (p_total_requests p))"

definition avg_latency_ms :: "provider \<Rightarrow> rat" where
  "avg_latency_ms p = (if p_total_requests p = 0 then 0
     else p_total_latency_ms p / of_int (p_total_requests p))"

definition metric_success :: "rat \<Rightarrow> provider \<Rightarrow> provider" where
  "metric_success ms p = p\<lparr>p_total_requests := p_total_requests p + 1,
     p_total_latency_ms := p_total_latency_ms p + ms\<rparr>"

definition metric_error :: "provider \<Rightarrow> provider" where
  "metric_error p = p\<lparr>p_total_requests := p_total_requests p + 1,
     p_error_count := p_error_count p + 1\<rparr>"

text \<open>The providers that the serving layer registers (name, tier, priority, delayed, venue).\<close>

definition groww_meta :: provider where
  "groww_meta = new_provider ''groww'' 1 5 False ''NSE''"
definition nse_live_meta :: provider where
  "nse_live_meta = new_provider ''nse_live'' 1 10 False ''NSE''"
definition nse_scraper_meta :: provider where
  "nse_scraper_meta = new_provider ''nse_scraper'' 1 10 False ''NSE''"
definition bse_scraper_meta :: provider where
  "bse_scraper_meta = new_provider ''bse_scraper'' 1 11 False ''BSE''"
definition bse_live_meta :: provider where
  "bse_live_meta = new_provider ''bse_live'' 1 13 False ''BSE''"
definition nse_archive_meta :: provider where
  "nse_archive_meta = new_provider ''nse_archive'' 1 20 False ''NSE''"
definition bse_archive_meta :: provider where
  "bse_archive_meta = new_provider ''bse_archive'' 1 25 False ''BSE''"
definition yahoo_meta :: provider where
  "yahoo_meta = new_provider ''yahoo_finance'' 3 40 True ''BOTH''"

lemmas provider_metas = groww_meta_def nse_live_meta_def nse_scraper_meta_def bse_scraper_meta_def
  bse_live_meta_def nse_archive_meta_def bse_archive_meta_def yahoo_meta_def

definition source_match :: "provider \<Rightarrow> string \<Rightarrow> bool" where
  "source_match p source =
     (let s = lower source; n = lower (p_name p)
      in if s = n then True
         else if s = ''nse'' \<or> s = ''bse'' then starts_with n s
         else if s = ''yahoo'' \<or> s = ''yfinance'' then contains_text n ''yahoo''
         else False)"

definition metrics_inv :: "provider \<Rightarrow> bool" where
  "metrics_inv p \<longleftrightarrow> 0 \<le> p_error_count p \<and> p_error_count p \<le> p_total_requests p \<and> 0 \<le> p_total_latency_ms p"

lemma metrics_inv_new [simp]: "metrics_inv (new_provider n t pr dl ex)"
  by (simp add: metrics_inv_def new_provider_def)

lemma metrics_inv_success [intro]: "metrics_inv p \<Longrightarrow> 0 \<le> ms \<Longrightarrow> metrics_inv (metric_success ms p)"
  by (simp add: metrics_inv_def metric_success_def)

lemma metrics_inv_error [intro]: "metrics_inv p \<Longrightarrow> metrics_inv (metric_error p)"
  by (simp add: metrics_inv_def metric_error_def)

lemma metrics_bounds:
  "metrics_inv p \<Longrightarrow> 0 \<le> error_rate p \<and> error_rate p \<le> 1 \<and> 0 \<le> avg_latency_ms p"
  by (auto simp: metrics_inv_def error_rate_def avg_latency_ms_def divide_simps)

lemma metric_frame [frame_simps]:
  "p_name (metric_success ms p) = p_name p" "p_name (metric_error p) = p_name p"
  by (simp_all add: metric_success_def metric_error_def)

end
