(* ===== verification/CircuitBreaker.thy ===== *)
theory CircuitBreaker
  imports Prelude
begin

text \<open>
  \<^verbatim>\<open>src/engine/circuit_breaker.py\<close>: the per-provider circuit breaker. The
  object's fields are the record \<open>breaker\<close>; the \<^verbatim>\<open>state\<close> property, which moves an
  expired OPEN breaker to HALF_OPEN when it is read, is \<open>poll_state\<close>; every
  method is a function of the breaker and of the clock readings it takes. The
  awaited call in \<^verbatim>\<open>execute\<close> is an outcome supplied by the environment: a result,
  an \<^verbatim>\<open>Exception\<close>, or a cancellation (a \<^verbatim>\<open>BaseException\<close>, which the handler's
  \<^verbatim>\<open>except Exception\<close> does not see).

  Because the call is awaited, executions of several coroutines interleave: the
  admission half of \<^verbatim>\<open>execute\<close> and its completion half are separate steps of the
  relation \<open>cb_step\<close>. The invariant \<open>cb_inv\<close> is proved for every reachable state.
  The locale \<open>call_gate\<close> is the contract that the failover controller relies on.
\<close>

section \<open>State and operations\<close>

datatype circuit_state = CLOSED | OPEN | HALF_OPEN

record breaker =
  cb_name :: string
  failure_threshold :: int
  recovery_timeout :: secs
  half_open_max :: int
  cstate :: circuit_state
  failure_count :: int
  success_count :: int
  last_failure_time :: secs
  half_open_calls :: int

record cb_settings =
  cb_failure_threshold :: int
  cb_recovery_timeout_seconds :: int
  cb_half_open_max_calls :: int

text \<open>The shipped defaults of \<^verbatim>\<open>Settings\<close>.\<close>

definition default_cb_settings :: cb_settings where
  "default_cb_settings = \<lparr>cb_failure_threshold = 5, cb_recovery_timeout_seconds = 30,
     cb_half_open_max_calls = 3\<rparr>"

definition new_breaker ::
  "cb_settings \<Rightarrow> string \<Rightarrow> int option \<Rightarrow> rat option \<Rightarrow> int option \<Rightarrow> breaker" where
  "new_breaker cfg name ft rt hm =
     \<lparr>cb_name = name,
      failure_threshold = or_default ft (cb_failure_threshold cfg),
      recovery_timeout = or_default rt (of_int (cb_recovery_timeout_seconds cfg)),
      half_open_max = or_default hm (cb_half_open_max_calls cfg),
      cstate = CLOSED, failure_count = 0, success_count = 0,
      last_failure_time = 0, half_open_calls = 0\<rparr>"

definition poll_state :: "secs \<Rightarrow> breaker \<Rightarrow> breaker" where
  "poll_state now b =
     (if cstate b = OPEN \<and> now - last_failure_time b > recovery_timeout b
      then b\<lparr>cstate := HALF_OPEN, half_open_calls := 0\<rparr> else b)"

definition is_closed :: "secs \<Rightarrow> breaker \<Rightarrow> bool \<times> breaker" where
  "is_closed now b = (let b' = poll_state now b in (cstate b' = CLOSED, b'))"

definition is_open :: "secs \<Rightarrow> breaker \<Rightarrow> bool \<times> breaker" where
  "is_open now b = (let b' = poll_state now b in (cstate b' = OPEN, b'))"

definition record_success :: "breaker \<Rightarrow> breaker" where
  "record_success b =
     (case cstate b of
        HALF_OPEN \<Rightarrow>
          (let b1 = b\<lparr>success_count := success_count b + 1\<rparr>
           in if success_count b1 \<ge> half_open_max b1
              then b1\<lparr>cstate := CLOSED, failure_count := 0, success_count := 0\<rparr>
              else b1)
      | CLOSED \<Rightarrow> b\<lparr>failure_count := max 0 (failure_count b - 1)\<rparr>
      | OPEN \<Rightarrow> b)"

definition record_failure :: "secs \<Rightarrow> breaker \<Rightarrow> breaker" where
  "record_failure now b =
     (let b1 = b\<lparr>failure_count := failure_count b + 1, last_failure_time := now\<rparr>
      in case cstate b1 of
           HALF_OPEN \<Rightarrow> b1\<lparr>cstate := OPEN\<rparr>
         | CLOSED \<Rightarrow> (if failure_count b1 \<ge> failure_threshold b1 then b1\<lparr>cstate := OPEN\<rparr> else b1)
         | OPEN \<Rightarrow> b1)"

definition can_execute :: "secs \<Rightarrow> breaker \<Rightarrow> bool \<times> breaker" where
  "can_execute now b =
     (let b' = poll_state now b
      in (case cstate b' of
            CLOSED \<Rightarrow> True
          | HALF_OPEN \<Rightarrow> half_open_calls b' < half_open_max b'
          | OPEN \<Rightarrow> False, b'))"

definition reset_breaker :: "breaker \<Rightarrow> breaker" where
  "reset_breaker b = b\<lparr>cstate := CLOSED, failure_count := 0, success_count := 0, half_open_calls := 0\<rparr>"

text \<open>
  \<^verbatim>\<open>execute\<close>. The admission half reads the clock in \<^verbatim>\<open>can_execute\<close> (\<open>t0\<close>) and again in
  the second read of \<^verbatim>\<open>state\<close> (\<open>t1\<close>); the completion half reads it at \<open>t2\<close> in
  \<^verbatim>\<open>record_failure\<close>.
\<close>

datatype ('r, 'e) outcome = Returned 'r | Raised 'e | Cancelled

datatype 'e exec_error = CircuitOpenError string | CallError 'e | CallCancelled

definition begin_call :: "secs \<Rightarrow> secs \<Rightarrow> breaker \<Rightarrow> bool \<times> breaker" where
  "begin_call t0 t1 b =
     (case can_execute t0 b of
        (False, b1) \<Rightarrow> (False, b1)
      | (True, b1) \<Rightarrow>
          (let b2 = poll_state t1 b1
           in (True, if cstate b2 = HALF_OPEN
                     then b2\<lparr>half_open_calls := half_open_calls b2 + 1\<rparr> else b2)))"

fun end_call :: "secs \<Rightarrow> ('r, 'e) outcome \<Rightarrow> breaker \<Rightarrow> ('e exec_error + 'r) \<times> breaker" where
  "end_call t (Returned r) b = (Inr r, record_success b)"
| "end_call t (Raised e) b = (Inl (CallError e), record_failure t b)"
| "end_call t Cancelled b = (Inl CallCancelled, b)"

definition execute ::
  "secs \<Rightarrow> secs \<Rightarrow> secs \<Rightarrow> ('r, 'e) outcome \<Rightarrow> breaker \<Rightarrow> ('e exec_error + 'r) \<times> breaker" where
  "execute t0 t1 t2 oc b =
     (case begin_call t0 t1 b of
        (False, b1) \<Rightarrow> (Inl (CircuitOpenError (cb_name b1)), b1)
      | (True, b1) \<Rightarrow> end_call t2 oc b1)"

record cb_status =
  st_name :: string
  st_state :: circuit_state
  st_failure_count :: int
  st_last_failure :: secs
  st_threshold :: int
  st_recovery_timeout :: secs

definition to_dict :: "secs \<Rightarrow> breaker \<Rightarrow> cb_status \<times> breaker" where
  "to_dict now b =
     (let b' = poll_state now b
      in (\<lparr>st_name = cb_name b', st_state = cstate b', st_failure_count = failure_count b',
           st_last_failure = last_failure_time b', st_threshold = failure_threshold b',
           st_recovery_timeout = recovery_timeout b'\<rparr>, b'))"


section \<open>Invariant\<close>

definition cb_config :: "breaker \<Rightarrow> bool" where
  "cb_config b \<longleftrightarrow> 0 < failure_threshold b \<and> 0 < half_open_max b \<and> 0 \<le> recovery_timeout b"

definition cb_inv :: "breaker \<Rightarrow> bool" where
  "cb_inv b \<longleftrightarrow> cb_config b \<and> 0 \<le> failure_count b \<and>
     0 \<le> success_count b \<and> success_count b < half_open_max b \<and>
     0 \<le> half_open_calls b \<and> half_open_calls b \<le> half_open_max b \<and>
     (cstate b = CLOSED \<longrightarrow> failure_count b < failure_threshold b)"

lemmas cb_ops [cb_simps] =
  poll_state_def record_success_def record_failure_def reset_breaker_def
  can_execute_def begin_call_def

lemmas cb_inv_defs = cb_inv_def cb_config_def

text \<open>The configuration and the name are never written after construction.\<close>

lemma poll_state_frame [frame_simps]:
  "failure_threshold (poll_state t b) = failure_threshold b"
  "half_open_max (poll_state t b) = half_open_max b"
  "recovery_timeout (poll_state t b) = recovery_timeout b"
  "cb_name (poll_state t b) = cb_name b"
  "failure_count (poll_state t b) = failure_count b"
  "success_count (poll_state t b) = success_count b"
  "last_failure_time (poll_state t b) = last_failure_time b"
  by (auto simp: cb_simps)

lemma record_frame [frame_simps]:
  "cb_name (record_success b) = cb_name b" "cb_name (record_failure t b) = cb_name b"
  "failure_threshold (record_success b) = failure_threshold b"
  "failure_threshold (record_failure t b) = failure_threshold b"
  "half_open_max (record_success b) = half_open_max b"
  "half_open_max (record_failure t b) = half_open_max b"
  "recovery_timeout (record_success b) = recovery_timeout b"
  "recovery_timeout (record_failure t b) = recovery_timeout b"
  "last_failure_time (record_success b) = last_failure_time b"
  "half_open_calls (record_success b) = half_open_calls b"
  "half_open_calls (record_failure t b) = half_open_calls b"
  by (auto simp: cb_simps Let_def split: circuit_state.splits)

lemma new_breaker_inv:
  assumes "0 < cb_failure_threshold cfg" "0 < cb_half_open_max_calls cfg"
    "0 \<le> cb_recovery_timeout_seconds cfg"
    "\<And>n. ft = Some n \<Longrightarrow> 0 \<le> n" "\<And>n. hm = Some n \<Longrightarrow> 0 \<le> n" "\<And>r. rt = Some r \<Longrightarrow> 0 \<le> r"
  shows "cb_inv (new_breaker cfg name ft rt hm)"
  using assms
  by (auto simp: new_breaker_def cb_inv_defs or_default_def split: option.splits)

lemma poll_state_inv [intro]: "cb_inv b \<Longrightarrow> cb_inv (poll_state t b)"
  by (auto simp: cb_inv_defs cb_simps)

lemma record_success_inv [intro]: "cb_inv b \<Longrightarrow> cb_inv (record_success b)"
  by (auto simp: cb_inv_defs cb_simps Let_def split: circuit_state.splits)

lemma record_failure_inv [intro]: "cb_inv b \<Longrightarrow> cb_inv (record_failure t b)"
  by (auto simp: cb_inv_defs cb_simps Let_def split: circuit_state.splits)

lemma reset_breaker_inv [intro]: "cb_inv b \<Longrightarrow> cb_inv (reset_breaker b)"
  by (auto simp: cb_inv_defs cb_simps)

lemma can_execute_inv: "cb_inv b \<Longrightarrow> cb_inv (snd (can_execute t b))"
  by (auto simp: can_execute_def Let_def)

lemma can_execute_snd [simp]: "snd (can_execute t b) = poll_state t b"
  by (simp add: can_execute_def Let_def)

lemma can_execute_poll: "can_execute t b = (ok, b') \<Longrightarrow> b' = poll_state t b"
  by (simp add: can_execute_def Let_def)

lemma can_execute_True_iff:
  "fst (can_execute t b) \<longleftrightarrow> cstate (poll_state t b) = CLOSED \<or>
     (cstate (poll_state t b) = HALF_OPEN \<and>
      half_open_calls (poll_state t b) < half_open_max b)"
  by (auto simp: can_execute_def Let_def frame_simps split: circuit_state.splits)

text \<open>An admitted breaker is not OPEN, so the second read of the clock cannot move it.\<close>

lemma poll_poll_admitted: "fst (can_execute t b) \<Longrightarrow> poll_state t1 (poll_state t b) = poll_state t b"
  by (auto simp: can_execute_True_iff poll_state_def)

lemma begin_call_eq:
  "begin_call t0 t1 b =
     (if fst (can_execute t0 b)
      then (True, let b1 = poll_state t0 b in
              if cstate b1 = HALF_OPEN then b1\<lparr>half_open_calls := half_open_calls b1 + 1\<rparr> else b1)
      else (False, poll_state t0 b))"
proof (cases "fst (can_execute t0 b)")
  case True
  then have "can_execute t0 b = (True, poll_state t0 b)" by (simp add: prod_eq_iff)
  with True poll_poll_admitted[OF True, of t1] show ?thesis by (simp add: begin_call_def Let_def)
next
  case False
  then have "can_execute t0 b = (False, poll_state t0 b)" by (simp add: prod_eq_iff)
  with False show ?thesis by (simp add: begin_call_def)
qed

lemma begin_call_inv: "cb_inv b \<Longrightarrow> begin_call t0 t1 b = (ok, b') \<Longrightarrow> cb_inv b'"
  using poll_state_inv[of b t0] unfolding begin_call_eq
  by (auto simp: Let_def can_execute_True_iff cb_inv_defs frame_simps split: if_splits)

lemma end_call_inv: "cb_inv b \<Longrightarrow> cb_inv (snd (end_call t oc b))"
  by (cases oc) auto

lemma execute_inv: "cb_inv b \<Longrightarrow> cb_inv (snd (execute t0 t1 t2 oc b))"
  by (auto simp: execute_def split: prod.splits bool.splits dest: begin_call_inv intro: end_call_inv)

lemma execute_name: "cb_name (snd (execute t0 t1 t2 oc b)) = cb_name b"
  by (cases oc) (auto simp: execute_def begin_call_eq Let_def frame_simps split: prod.splits bool.splits)

lemma execute_rejected:
  "\<not> fst (can_execute t0 b) \<Longrightarrow>
     execute t0 t1 t2 oc b = (Inl (CircuitOpenError (cb_name b)), poll_state t0 b)"
  by (simp add: execute_def begin_call_eq frame_simps)

lemma execute_admitted_result:
  "fst (can_execute t0 b) \<Longrightarrow>
     fst (execute t0 t1 t2 oc b) =
       (case oc of Returned r \<Rightarrow> Inr r | Raised e \<Rightarrow> Inl (CallError e) | Cancelled \<Rightarrow> Inl CallCancelled)"
  by (cases oc) (simp_all add: execute_def begin_call_eq)

section \<open>The contract of a call gate\<close>

text \<open>
  What a controller may rely on when it guards calls: asking never breaks the gate's
  invariant, a refused call is not run, an admitted call returns what the call
  returned, and completions keep the invariant.
\<close>

locale call_gate =
  fixes ask :: "secs \<Rightarrow> 'b \<Rightarrow> bool \<times> 'b"
    and run :: "secs \<Rightarrow> secs \<Rightarrow> secs \<Rightarrow> ('r, 'e) outcome \<Rightarrow> 'b \<Rightarrow> ('e exec_error + 'r) \<times> 'b"
    and fail :: "secs \<Rightarrow> 'b \<Rightarrow> 'b"
    and ginv :: "'b \<Rightarrow> bool"
    and gname :: "'b \<Rightarrow> string"
  assumes ask_inv: "ginv b \<Longrightarrow> ginv (snd (ask t b))"
    and run_inv: "ginv b \<Longrightarrow> ginv (snd (run t0 t1 t2 oc b))"
    and fail_inv: "ginv b \<Longrightarrow> ginv (fail t b)"
    and refused: "\<not> fst (ask t0 b) \<Longrightarrow> fst (run t0 t1 t2 oc b) = Inl (CircuitOpenError (gname b))"
    and admitted: "fst (ask t0 b) \<Longrightarrow> fst (run t0 t1 t2 oc b) =
      (case oc of Returned r \<Rightarrow> Inr r | Raised e \<Rightarrow> Inl (CallError e) | Cancelled \<Rightarrow> Inl CallCancelled)"
begin

text \<open>The pattern of the failover cascade: ask, perhaps fail to connect, run, perhaps record again.\<close>

lemma ask_fail_inv: "ginv b \<Longrightarrow> ginv (fail t (snd (ask t' b)))"
  by (intro fail_inv ask_inv)

lemma ask_run_inv: "ginv b \<Longrightarrow> ginv (snd (run t0 t1 t2 oc (snd (ask t b))))"
  by (intro run_inv ask_inv)

lemma ask_run_fail_inv: "ginv b \<Longrightarrow> ginv (fail t' (snd (run t0 t1 t2 oc (snd (ask t b)))))"
  by (intro fail_inv ask_run_inv)

lemma result_admitted:
  "fst (run t0 t1 t2 oc b) = Inr r \<Longrightarrow> fst (ask t0 b) \<and> oc = Returned r"
  using refused[of t0 b t1 t2 oc] admitted[of t0 b t1 t2 oc]
  by (cases "fst (ask t0 b)"; cases oc) auto

end

interpretation gate: call_gate can_execute execute record_failure cb_inv cb_name
  by unfold_locales
    (auto intro: can_execute_inv execute_inv simp: execute_rejected execute_admitted_result)


section \<open>Interleaved executions\<close>

text \<open>
  \<open>cb_inflight\<close> counts the coroutines between the two halves of \<^verbatim>\<open>execute\<close>,
  \<open>cb_pending\<close> those that passed \<^verbatim>\<open>can_execute\<close> in the failover controller and may
  still call \<^verbatim>\<open>record_failure\<close> on their own (a failed connect, or the extra call in
  its \<^verbatim>\<open>except Exception\<close> handler). The clock never goes back.
\<close>

record cb_sys =
  cb_now :: secs
  cb_inflight :: nat
  cb_pending :: nat
  cb_breaker :: breaker

datatype cb_event =
  EvAdmit | EvReject | EvSuccess | EvFailure | EvCancel | EvGate | EvDrop | EvExtFail | EvRead | EvReset

inductive cb_step :: "cb_sys \<Rightarrow> cb_event \<Rightarrow> cb_sys \<Rightarrow> bool" where
  admit: "cb_now s \<le> t0 \<Longrightarrow> t0 \<le> t1 \<Longrightarrow> begin_call t0 t1 (cb_breaker s) = (True, b) \<Longrightarrow>
    cb_step s EvAdmit (s\<lparr>cb_now := t1, cb_inflight := cb_inflight s + 1, cb_breaker := b\<rparr>)"
| reject: "cb_now s \<le> t \<Longrightarrow> begin_call t t1 (cb_breaker s) = (False, b) \<Longrightarrow>
    cb_step s EvReject (s\<lparr>cb_now := t, cb_breaker := b\<rparr>)"
| success: "cb_now s \<le> t \<Longrightarrow> cb_inflight s = Suc n \<Longrightarrow>
    cb_step s EvSuccess (s\<lparr>cb_now := t, cb_inflight := n, cb_breaker := record_success (cb_breaker s)\<rparr>)"
| failure: "cb_now s \<le> t \<Longrightarrow> cb_inflight s = Suc n \<Longrightarrow>
    cb_step s EvFailure (s\<lparr>cb_now := t, cb_inflight := n, cb_pending := cb_pending s + 1,
      cb_breaker := record_failure t (cb_breaker s)\<rparr>)"
| cancel: "cb_now s \<le> t \<Longrightarrow> cb_inflight s = Suc n \<Longrightarrow>
    cb_step s EvCancel (s\<lparr>cb_now := t, cb_inflight := n\<rparr>)"
| gate: "cb_now s \<le> t \<Longrightarrow> can_execute t (cb_breaker s) = (ok, b) \<Longrightarrow>
    cb_step s EvGate (s\<lparr>cb_now := t, cb_pending := cb_pending s + (if ok then 1 else 0), cb_breaker := b\<rparr>)"
| dropped: "cb_pending s = Suc n \<Longrightarrow> cb_step s EvDrop (s\<lparr>cb_pending := n\<rparr>)"
| ext_fail: "cb_now s \<le> t \<Longrightarrow> cb_pending s = Suc n \<Longrightarrow>
    cb_step s EvExtFail (s\<lparr>cb_now := t, cb_pending := n, cb_breaker := record_failure t (cb_breaker s)\<rparr>)"
| read_state: "cb_now s \<le> t \<Longrightarrow> cb_step s EvRead (s\<lparr>cb_now := t, cb_breaker := poll_state t (cb_breaker s)\<rparr>)"
| reset: "cb_step s EvReset (s\<lparr>cb_breaker := reset_breaker (cb_breaker s)\<rparr>)"

inductive_cases cb_step_admitE: "cb_step s EvAdmit s'"

inductive_simps cb_step_gate_iff: "cb_step s EvGate s'"

definition cb_start :: "breaker \<Rightarrow> cb_sys" where
  "cb_start b = \<lparr>cb_now = 0, cb_inflight = 0, cb_pending = 0, cb_breaker = b\<rparr>"

inductive cb_reach :: "breaker \<Rightarrow> cb_sys \<Rightarrow> bool" for b0 where
  start: "cb_reach b0 (cb_start b0)"
| step: "cb_reach b0 s \<Longrightarrow> cb_step s e s' \<Longrightarrow> cb_reach b0 s'"

lemma cb_step_inv: "cb_step s e s' \<Longrightarrow> cb_inv (cb_breaker s) \<Longrightarrow> cb_inv (cb_breaker s')"
  by (induction rule: cb_step.induct)
    (auto intro: begin_call_inv dest: can_execute_poll)

lemma cb_reach_inv: "cb_reach b0 s \<Longrightarrow> cb_inv b0 \<Longrightarrow> cb_inv (cb_breaker s)"
  by (induction rule: cb_reach.induct) (auto simp: cb_start_def intro: cb_step_inv)

lemma cb_step_time: "cb_step s e s' \<Longrightarrow> cb_now s \<le> cb_now s'"
  by (induction rule: cb_step.induct) auto

text \<open>A trace lists the events with the states they lead to.\<close>

fun cb_trace :: "cb_sys \<Rightarrow> (cb_event \<times> cb_sys) list \<Rightarrow> bool" where
  "cb_trace s [] = True"
| "cb_trace s ((e, s') # tr) = (cb_step s e s' \<and> cb_trace s' tr)"

definition cb_final :: "cb_sys \<Rightarrow> (cb_event \<times> cb_sys) list \<Rightarrow> cb_sys" where
  "cb_final s tr = (if tr = [] then s else snd (last tr))"

lemma cb_final_Cons [simp]: "cb_final s ((e, s') # tr) = cb_final s' tr"
  by (simp add: cb_final_def)

text \<open>
  While the breaker stays HALF_OPEN, every admission takes one of the trial slots and
  nothing gives one back.
\<close>

lemma half_open_step:
  "cb_step s e s' \<Longrightarrow> cstate (cb_breaker s) = HALF_OPEN \<Longrightarrow> cstate (cb_breaker s') = HALF_OPEN \<Longrightarrow>
   half_open_calls (cb_breaker s') = half_open_calls (cb_breaker s) + (if e = EvAdmit then 1 else 0)"
  by (induction rule: cb_step.induct)
    (auto simp: begin_call_eq poll_state_def Let_def frame_simps reset_breaker_def
      dest: can_execute_poll split: if_splits)

lemma half_open_trace:
  assumes "cb_trace s tr" "cstate (cb_breaker s) = HALF_OPEN"
    "list_all (\<lambda>(e, s'). cstate (cb_breaker s') = HALF_OPEN) tr"
  shows "half_open_calls (cb_breaker (cb_final s tr)) =
     half_open_calls (cb_breaker s) + int (length (filter (\<lambda>(e, _). e = EvAdmit) tr))"
  using assms
proof (induction tr arbitrary: s)
  case Nil
  then show ?case by (simp add: cb_final_def)
next
  case (Cons x tr)
  obtain e s' where x: "x = (e, s')" by (cases x)
  with Cons.prems have st: "cb_step s e s'" and ho: "cstate (cb_breaker s') = HALF_OPEN" by auto
  from Cons.IH[of s'] Cons.prems x
  have "half_open_calls (cb_breaker (cb_final s' tr)) =
     half_open_calls (cb_breaker s') + int (length (filter (\<lambda>(e, _). e = EvAdmit) tr))" by simp
  with half_open_step[OF st _ ho] Cons.prems x show ?case by auto
qed

lemma cb_trace_inv: "cb_trace s tr \<Longrightarrow> cb_inv (cb_breaker s) \<Longrightarrow> cb_inv (cb_breaker (cb_final s tr))"
  by (induction s tr rule: cb_trace.induct) (auto simp: cb_final_def dest: cb_step_inv)

text \<open>OPEN lasts: until the timeout has passed since the last failure nothing is admitted.\<close>

lemma open_blocks:
  "cstate b = OPEN \<Longrightarrow> t \<le> last_failure_time b + recovery_timeout b \<Longrightarrow>
     begin_call t t1 b = (False, b) \<and> \<not> fst (can_execute t b)"
  by (auto simp: begin_call_eq can_execute_True_iff poll_state_def)

lemma open_step:
  assumes "cb_step s e s'" "cstate (cb_breaker s) = OPEN" "e \<noteq> EvReset"
    "cb_now s' \<le> last_failure_time (cb_breaker s) + recovery_timeout (cb_breaker s)"
    "last_failure_time (cb_breaker s) \<le> cb_now s"
  shows "cstate (cb_breaker s') = OPEN \<and> e \<noteq> EvAdmit \<and>
     last_failure_time (cb_breaker s) \<le> last_failure_time (cb_breaker s') \<and>
     last_failure_time (cb_breaker s') \<le> cb_now s' \<and>
     recovery_timeout (cb_breaker s') = recovery_timeout (cb_breaker s)"
  using assms
proof (induction rule: cb_step.induct)
  case (admit s t0 t1 b)
  then show ?case using open_blocks[of "cb_breaker s" t0 t1] by simp
next
  case (reject s t t1 b)
  then show ?case using open_blocks[of "cb_breaker s" t t1] by simp
next
  case (gate s t ok b)
  then have "b = poll_state t (cb_breaker s)" by (simp add: can_execute_poll)
  with gate show ?case by (auto simp: poll_state_def)
qed (auto simp: cb_simps Let_def)

lemma open_trace:
  assumes "cb_trace s tr" "cstate (cb_breaker s) = OPEN" "list_all (\<lambda>(e, _). e \<noteq> EvReset) tr"
    "cb_now (cb_final s tr) \<le> last_failure_time (cb_breaker s) + recovery_timeout (cb_breaker s)"
    "last_failure_time (cb_breaker s) \<le> cb_now s"
  shows "list_all (\<lambda>(e, s'). e \<noteq> EvAdmit \<and> cstate (cb_breaker s') = OPEN) tr"
  using assms
proof (induction tr arbitrary: s)
  case Nil
  then show ?case by simp
next
  case (Cons x tr)
  obtain e s' where x: "x = (e, s')" by (cases x)
  have mono: "cb_trace s' tr \<Longrightarrow> cb_now s' \<le> cb_now (cb_final s' tr)" for s'
    by (induction s' tr rule: cb_trace.induct) (auto simp: cb_final_def dest: cb_step_time order_trans)
  from Cons.prems x mono[of s'] have "cb_now s' \<le> last_failure_time (cb_breaker s) + recovery_timeout (cb_breaker s)"
    by auto
  with Cons.prems x have s': "cstate (cb_breaker s') = OPEN \<and> e \<noteq> EvAdmit \<and>
     last_failure_time (cb_breaker s) \<le> last_failure_time (cb_breaker s') \<and>
     last_failure_time (cb_breaker s') \<le> cb_now s' \<and>
     recovery_timeout (cb_breaker s') = recovery_timeout (cb_breaker s)"
    by (intro open_step) auto
  with Cons.IH[of s'] Cons.prems x show ?case by auto
qed

section \<open>Leaked trial slots\<close>

text \<open>
  All slots taken, nobody left to complete: no step other than the manual reset leaves
  this state.
\<close>

definition wedged :: "cb_sys \<Rightarrow> bool" where
  "wedged s \<longleftrightarrow> cstate (cb_breaker s) = HALF_OPEN \<and>
     half_open_max (cb_breaker s) \<le> half_open_calls (cb_breaker s) \<and>
     cb_inflight s = 0 \<and> cb_pending s = 0"

lemma wedged_step:
  "cb_step s e s' \<Longrightarrow> wedged s \<Longrightarrow> e \<noteq> EvReset \<Longrightarrow> wedged s' \<and> e \<noteq> EvAdmit"
proof (induction rule: cb_step.induct)
  case (gate s t ok b)
  then have "b = poll_state t (cb_breaker s)" "ok = fst (can_execute t (cb_breaker s))"
    by (auto simp: can_execute_poll)
  with gate show ?case by (auto simp: wedged_def can_execute_True_iff poll_state_def)
qed (auto simp: wedged_def begin_call_eq can_execute_True_iff poll_state_def)

lemma wedged_trace:
  "cb_trace s tr \<Longrightarrow> wedged s \<Longrightarrow> list_all (\<lambda>(e, _). e \<noteq> EvReset) tr \<Longrightarrow>
     list_all (\<lambda>(e, s'). e \<noteq> EvAdmit \<and> wedged s') tr"
  by (induction s tr rule: cb_trace.induct) (auto dest: wedged_step)

section \<open>Sequential behaviour\<close>

fun fails :: "secs list \<Rightarrow> breaker \<Rightarrow> breaker" where
  "fails [] b = b"
| "fails (t # ts) b = fails ts (record_failure t b)"

fun successes :: "nat \<Rightarrow> breaker \<Rightarrow> breaker" where
  "successes 0 b = b"
| "successes (Suc n) b = successes n (record_success b)"

lemma fails_closed_state:
  assumes "cstate b = CLOSED" "failure_count b < failure_threshold b"
  shows "cstate (fails ts b) =
    (if failure_count b + int (length ts) < failure_threshold b then CLOSED else OPEN)"
proof -
  have open_stays: "cstate b = OPEN \<Longrightarrow> cstate (fails ts b) = OPEN" for b ts
    by (induction ts arbitrary: b) (auto simp: record_failure_def Let_def)
  show ?thesis using assms
  proof (induction ts arbitrary: b)
    case Nil
    then show ?case by simp
  next
    case (Cons t ts)
    show ?case
    proof (cases "failure_count b + 1 < failure_threshold b")
      case True
      with Cons show ?thesis by (simp add: record_failure_def Let_def)
    next
      case False
      with Cons.prems have "cstate (record_failure t b) = OPEN" by (simp add: record_failure_def Let_def)
      with False show ?thesis by (simp add: open_stays)
    qed
  qed
qed

lemma successes_half_open:
  assumes "cstate b = HALF_OPEN" "success_count b + int n < half_open_max b"
  shows "successes n b = b\<lparr>success_count := success_count b + int n\<rparr>"
  using assms
proof (induction n arbitrary: b)
  case 0
  then show ?case by simp
next
  case (Suc n)
  then have "record_success b = b\<lparr>success_count := success_count b + 1\<rparr>"
    by (simp add: record_success_def Let_def)
  with Suc show ?case by (simp add: algebra_simps)
qed

lemma successes_Suc: "successes (Suc n) b = record_success (successes n b)"
  by (induction n arbitrary: b) auto

lemma successes_close:
  assumes "cstate b = HALF_OPEN" "success_count b + int (Suc n) = half_open_max b"
  shows "cstate (successes (Suc n) b) = CLOSED \<and> failure_count (successes (Suc n) b) = 0 \<and>
    success_count (successes (Suc n) b) = 0"
  using assms by (simp only: successes_Suc) (auto simp: successes_half_open record_success_def Let_def)


section \<open>Properties\<close>

text \<open>C3: A breaker built from positive settings satisfies the breaker invariant in every
  state that interleaved executions, external failure reports, polls and resets can reach:
  counters stay within their thresholds, the trial slots never exceed the maximum, and a
  CLOSED breaker has fewer failures than the threshold.\<close>
theorem cb_reachable_inv:
  assumes "0 < cb_failure_threshold cfg" "0 < cb_half_open_max_calls cfg"
    "0 \<le> cb_recovery_timeout_seconds cfg"
    and "cb_reach (new_breaker cfg name None None None) s"
  shows "cb_inv (cb_breaker s)"
  using assms by (intro cb_reach_inv[OF assms(4)] new_breaker_inv) auto

text \<open>A concrete run: one failure opens a threshold-one breaker, the next trial is cancelled.\<close>

definition demo_settings :: cb_settings where
  "demo_settings = \<lparr>cb_failure_threshold = 1, cb_recovery_timeout_seconds = 1,
     cb_half_open_max_calls = 1\<rparr>"

definition demo_breaker :: breaker where
  "demo_breaker = new_breaker demo_settings ''p'' None None None"

definition demo_sys :: "secs \<Rightarrow> nat \<Rightarrow> nat \<Rightarrow> circuit_state \<Rightarrow> int \<Rightarrow> cb_sys" where
  "demo_sys t infl calls st fc =
     \<lparr>cb_now = t, cb_inflight = infl, cb_pending = 0,
      cb_breaker = demo_breaker\<lparr>cstate := st, failure_count := fc, half_open_calls := int calls\<rparr>\<rparr>"

lemmas demo_simps = demo_sys_def demo_breaker_def demo_settings_def new_breaker_def or_default_def cb_start_def

lemma demo_admit: "cb_step (demo_sys 0 0 0 CLOSED 0) EvAdmit (demo_sys 0 1 0 CLOSED 0)"
  by (rule cb_step.admit[of _ 0 0 _, THEN back_subst[of "cb_step _ EvAdmit"]])
    (auto simp: demo_simps begin_call_eq can_execute_True_iff poll_state_def)

lemma demo_failure:
  "cb_step (demo_sys 0 1 0 CLOSED 0) EvFailure ((demo_sys 0 0 0 OPEN 1)\<lparr>cb_pending := 1\<rparr>)"
  by (rule cb_step.failure[of _ 0 0, THEN back_subst[of "cb_step _ EvFailure"]])
    (auto simp: demo_simps record_failure_def)

lemma demo_drop: "cb_step ((demo_sys 0 0 0 OPEN 1)\<lparr>cb_pending := 1\<rparr>) EvDrop (demo_sys 0 0 0 OPEN 1)"
  by (rule cb_step.dropped[of _ 0, THEN back_subst[of "cb_step _ EvDrop"]])
    (auto simp: demo_simps)

lemma demo_trial: "cb_step (demo_sys 0 0 0 OPEN 1) EvAdmit (demo_sys 2 1 1 HALF_OPEN 1)"
  by (rule cb_step.admit[of _ 2 2 _, THEN back_subst[of "cb_step _ EvAdmit"]])
    (auto simp: demo_simps begin_call_eq can_execute_True_iff poll_state_def)

lemma demo_cancel: "cb_step (demo_sys 2 1 1 HALF_OPEN 1) EvCancel (demo_sys 2 0 1 HALF_OPEN 1)"
  by (rule cb_step.cancel[of _ 2 0, THEN back_subst[of "cb_step _ EvCancel"]])
    (auto simp: demo_simps)

lemma demo_reach: "cb_reach demo_breaker (demo_sys 2 0 1 HALF_OPEN 1)"
proof -
  have "cb_start demo_breaker = demo_sys 0 0 0 CLOSED 0" by (simp add: demo_simps)
  then have "cb_reach demo_breaker (demo_sys 0 0 0 CLOSED 0)"
    using cb_reach.start[of demo_breaker] by simp
  from cb_reach.step[OF cb_reach.step[OF cb_reach.step[OF cb_reach.step[OF
      cb_reach.step[OF this demo_admit] demo_failure] demo_drop] demo_trial] demo_cancel]
  show ?thesis .
qed

theorem cb_reachable_inv_witness:
  "cb_inv (cb_breaker (demo_sys 2 0 1 HALF_OPEN 1))"
  using cb_reachable_inv[of demo_settings "''p''" "demo_sys 2 0 1 HALF_OPEN 1"] demo_reach
  by (simp add: demo_settings_def demo_breaker_def)

text \<open>C4: An OPEN breaker admits no call, and stays OPEN, as long as the clock has not passed
  the recovery timeout since its last failure, whatever the interleaving of executions and
  failure reports (the manual reset excepted).\<close>
theorem cb_open_until_timeout:
  assumes "cb_trace s tr" "cstate (cb_breaker s) = OPEN" "list_all (\<lambda>(e, _). e \<noteq> EvReset) tr"
    and "last_failure_time (cb_breaker s) \<le> cb_now s"
    and "cb_now (cb_final s tr) \<le> last_failure_time (cb_breaker s) + recovery_timeout (cb_breaker s)"
  shows "list_all (\<lambda>(e, s'). e \<noteq> EvAdmit \<and> cstate (cb_breaker s') = OPEN) tr"
  using assms by (intro open_trace) auto

lemma demo_open_read: "cb_step (demo_sys 0 0 0 OPEN 1) EvRead (demo_sys 1 0 0 OPEN 1)"
  by (rule cb_step.read_state[of _ 1, THEN back_subst[of "cb_step _ EvRead"]])
    (auto simp: demo_simps poll_state_def)

theorem cb_open_until_timeout_witness:
  "list_all (\<lambda>(e, s'). e \<noteq> EvAdmit \<and> cstate (cb_breaker s') = OPEN) [(EvRead, demo_sys 1 0 0 OPEN 1)]"
  by (rule cb_open_until_timeout[of "demo_sys 0 0 0 OPEN 1"])
    (auto simp: demo_open_read cb_final_def, auto simp: demo_simps)

text \<open>Over any stretch of interleaved steps during which the breaker stays HALF_OPEN, the
  calls admitted plus the trial slots already taken never exceed the configured maximum.\<close>
theorem cb_half_open_trials:
  assumes "cb_trace s tr" "cb_inv (cb_breaker s)" "cstate (cb_breaker s) = HALF_OPEN"
    and "list_all (\<lambda>(e, s'). cstate (cb_breaker s') = HALF_OPEN) tr"
  shows "half_open_calls (cb_breaker s) + int (length (filter (\<lambda>(e, _). e = EvAdmit) tr))
     \<le> half_open_max (cb_breaker (cb_final s tr))"
  using half_open_trace[OF assms(1,3,4)] cb_trace_inv[OF assms(1,2)] by (simp add: cb_inv_def)

lemma demo_half_open_inv: "cb_inv (cb_breaker (demo_sys 2 0 0 HALF_OPEN 1))"
  by (simp add: demo_simps cb_inv_defs)

lemma demo_half_open_admit: "cb_step (demo_sys 2 0 0 HALF_OPEN 1) EvAdmit (demo_sys 2 1 1 HALF_OPEN 1)"
  by (rule cb_step.admit[of _ 2 2 _, THEN back_subst[of "cb_step _ EvAdmit"]])
    (auto simp: demo_simps begin_call_eq can_execute_True_iff poll_state_def)

theorem cb_half_open_trials_witness:
  "half_open_calls (cb_breaker (demo_sys 2 0 0 HALF_OPEN 1)) + 1 \<le> (1::int)"
  using cb_half_open_trials[of "demo_sys 2 0 0 HALF_OPEN 1" "[(EvAdmit, demo_sys 2 1 1 HALF_OPEN 1)]"]
    demo_half_open_admit demo_half_open_inv
  by (simp add: demo_simps cb_final_def)

text \<open>Failures reported to a fresh breaker leave it CLOSED exactly while there are fewer of
  them than the threshold; the threshold-th opens it.\<close>
theorem cb_opens_at_threshold:
  assumes "0 < cb_failure_threshold cfg"
  shows "cstate (fails ts (new_breaker cfg name None rt hm)) =
    (if int (length ts) < cb_failure_threshold cfg then CLOSED else OPEN)"
  using fails_closed_state[of "new_breaker cfg name None rt hm" ts] assms
  by (simp add: new_breaker_def or_default_def)

theorem cb_opens_at_threshold_witness:
  "cstate (fails [1, 2, 3, 4] (new_breaker default_cb_settings ''nse'' None None None)) = CLOSED \<and>
   cstate (fails [1, 2, 3, 4, 5] (new_breaker default_cb_settings ''nse'' None None None)) = OPEN"
  using cb_opens_at_threshold[of default_cb_settings "[1, 2, 3, 4]" "''nse''" None None]
    cb_opens_at_threshold[of default_cb_settings "[1, 2, 3, 4, 5]" "''nse''" None None]
  by (simp add: default_cb_settings_def)

text \<open>The success counter survives a failed recovery: when a HALF_OPEN breaker with \<open>k\<close>
  successes fails, reopens, and is polled after the timeout, only the maximum minus \<open>k\<close>
  further successes close it.\<close>
theorem cb_success_count_carries_over:
  assumes "cstate b = HALF_OPEN" "0 \<le> success_count b"
    and "success_count b + int (Suc n) = half_open_max b" "t' - t > recovery_timeout b"
  shows "cstate (record_failure t b) = OPEN \<and>
    cstate (poll_state t' (record_failure t b)) = HALF_OPEN \<and>
    cstate (successes n (poll_state t' (record_failure t b))) = HALF_OPEN \<and>
    cstate (successes (Suc n) (poll_state t' (record_failure t b))) = CLOSED"
proof -
  let ?b = "poll_state t' (record_failure t b)"
  have b: "cstate ?b = HALF_OPEN" "success_count ?b = success_count b" "half_open_max ?b = half_open_max b"
    "cstate (record_failure t b) = OPEN"
    using assms by (auto simp: poll_state_def record_failure_def Let_def)
  with successes_half_open[of ?b n] successes_close[of ?b n] assms(3) show ?thesis by auto
qed

theorem cb_success_count_carries_over_witness:
  "cstate (successes (Suc 0) (poll_state 100 (record_failure 50
     ((new_breaker default_cb_settings ''p'' None None None)\<lparr>cstate := HALF_OPEN, success_count := 2\<rparr>)))) = CLOSED"
  using cb_success_count_carries_over[of
      "(new_breaker default_cb_settings ''p'' None None None)\<lparr>cstate := HALF_OPEN, success_count := 2\<rparr>" 0 100 50]
  by (simp add: new_breaker_def default_cb_settings_def or_default_def)

text \<open>C39: Once every trial slot of a HALF_OPEN breaker has been taken by executions that ended
  without a verdict (cancelled calls), no interleaving without a manual reset ever admits a
  call again; the witness reaches such a state.\<close>
theorem cb_wedge_permanent:
  assumes "wedged s" "cb_trace s tr" "list_all (\<lambda>(e, _). e \<noteq> EvReset) tr"
  shows "list_all (\<lambda>(e, s'). e \<noteq> EvAdmit \<and> wedged s') tr"
  using assms by (intro wedged_trace)

theorem cb_wedge_permanent_witness:
  "cb_reach demo_breaker (demo_sys 2 0 1 HALF_OPEN 1) \<and> wedged (demo_sys 2 0 1 HALF_OPEN 1) \<and>
   wedged (demo_sys 1000 0 1 HALF_OPEN 1)"
proof -
  have w: "wedged (demo_sys 2 0 1 HALF_OPEN 1)" by (simp add: wedged_def demo_simps)
  have "cb_step (demo_sys 2 0 1 HALF_OPEN 1) EvRead (demo_sys 1000 0 1 HALF_OPEN 1)"
    by (rule cb_step.read_state[of _ 1000, THEN back_subst[of "cb_step _ EvRead"]])
      (auto simp: demo_simps poll_state_def)
  with cb_wedge_permanent[OF w, of "[(EvRead, demo_sys 1000 0 1 HALF_OPEN 1)]"] w demo_reach
  show ?thesis by simp
qed

end
