(* ===== verification/Calendar.thy ===== *)
theory Calendar
  imports Prelude
begin

text \<open>
  \<^verbatim>\<open>src/config/holidays.py\<close> and \<^verbatim>\<open>src/utils/ist_clock.py\<close>: the exchange calendar and
  the session clock. \<^verbatim>\<open>datetime.date\<close> is the record \<open>date\<close> (year, month, day) with
  Python's day arithmetic: \<open>next_day\<close> and \<open>prev_day\<close> for \<open>\<plusminus> timedelta(days=1)\<close>,
  which raise \<^verbatim>\<open>OverflowError\<close> beyond the years 1 to 9999 (\<open>None\<close>), and \<open>weekday\<close>
  from the proleptic ordinal. A \<^verbatim>\<open>datetime\<close> is a date, a time of day in microseconds
  and an optional UTC offset in minutes; IST is the fixed offset +330.

  The \<^verbatim>\<open>while\<close> loops of \<^verbatim>\<open>get_next_trading_day\<close> and \<^verbatim>\<open>get_previous_trading_day\<close> are
  partial functions whose outer option is \<open>None\<close> when the loop does not return; that
  they return within seven iterations is a theorem.
\<close>

section \<open>Dates\<close>

record date =
  year :: int
  month :: int
  day :: int

definition mk_date :: "int \<Rightarrow> int \<Rightarrow> int \<Rightarrow> date" where
  "mk_date y m d = \<lparr>year = y, month = m, day = d\<rparr>"

definition leap :: "int \<Rightarrow> bool" where
  "leap y \<longleftrightarrow> y mod 4 = 0 \<and> (y mod 100 \<noteq> 0 \<or> y mod 400 = 0)"

definition month_len :: "int \<Rightarrow> int \<Rightarrow> int" where
  "month_len y m = (if m = 2 then (if leap y then 29 else 28)
     else if m = 4 \<or> m = 6 \<or> m = 9 \<or> m = 11 then 30 else 31)"

definition valid_date :: "date \<Rightarrow> bool" where
  "valid_date d \<longleftrightarrow> 1 \<le> year d \<and> year d \<le> 9999 \<and> 1 \<le> month d \<and> month d \<le> 12 \<and>
     1 \<le> day d \<and> day d \<le> month_len (year d) (month d)"

definition days_before_year :: "int \<Rightarrow> int" where
  "days_before_year y = (let p = y - 1 in p * 365 + p div 4 - p div 100 + p div 400)"

definition days_before_month :: "int \<Rightarrow> int \<Rightarrow> int" where
  "days_before_month y m =
     (if m \<le> 1 then 0 else if m = 2 then 31 else if m = 3 then 59 else if m = 4 then 90
      else if m = 5 then 120 else if m = 6 then 151 else if m = 7 then 181 else if m = 8 then 212
      else if m = 9 then 243 else if m = 10 then 273 else if m = 11 then 304 else 334)
     + (if 2 < m \<and> leap y then 1 else 0)"

definition toordinal :: "date \<Rightarrow> int" where
  "toordinal d = days_before_year (year d) + days_before_month (year d) (month d) + day d"

text \<open>Monday is 0.\<close>

definition weekday :: "date \<Rightarrow> int" where
  "weekday d = (toordinal d + 6) mod 7"

definition next_day :: "date \<Rightarrow> date option" where
  "next_day d =
     (if day d < month_len (year d) (month d) then Some (d\<lparr>day := day d + 1\<rparr>)
      else if month d < 12 then Some (d\<lparr>month := month d + 1, day := 1\<rparr>)
      else if year d < 9999 then Some (mk_date (year d + 1) 1 1) else None)"

definition prev_day :: "date \<Rightarrow> date option" where
  "prev_day d =
     (if 1 < day d then Some (d\<lparr>day := day d - 1\<rparr>)
      else if 1 < month d then Some (d\<lparr>month := month d - 1, day := month_len (year d) (month d - 1)\<rparr>)
      else if 1 < year d then Some (mk_date (year d - 1) 12 31) else None)"

lemma leap_div: "(y::int) div 4 - y div 100 + y div 400 - ((y - 1) div 4 - (y - 1) div 100 + (y - 1) div 400)
    = (if leap y then 1 else 0)"
proof -
  have step: "y div k - (y - 1) div k = (if y mod k = 0 then 1 else 0)" if k: "1 < k" for k :: int
  proof -
    have y: "y = k * (y div k) + y mod k" and r: "0 \<le> y mod k" "y mod k < k" using k by auto
    have shift: "(k * q + r) div k = q + r div k" for q r :: int using k by simp
    show ?thesis
    proof (cases "y mod k = 0")
      case True
      have "k * (y div k - 1) = k * (y div k) - k" by (simp add: algebra_simps)
      with y True have "y - 1 = k * (y div k - 1) + (k - 1)" by linarith
      then have "(y - 1) div k = (k * (y div k - 1) + (k - 1)) div k" by (rule arg_cong)
      also have "\<dots> = y div k - 1" using shift[of "y div k - 1" "k - 1"] k by simp
      finally show ?thesis using True by simp
    next
      case False
      from y have "y - 1 = k * (y div k) + (y mod k - 1)" by linarith
      then have "(y - 1) div k = (k * (y div k) + (y mod k - 1)) div k" by (rule arg_cong)
      also have "\<dots> = y div k + (y mod k - 1) div k" by (rule shift)
      also have "(y mod k - 1) div k = 0" using r False by (intro div_pos_pos_trivial) auto
      finally show ?thesis using False by simp
    qed
  qed
  have "y div 4 - y div 100 + y div 400 - ((y - 1) div 4 - (y - 1) div 100 + (y - 1) div 400) =
      (y div 4 - (y - 1) div 4) - (y div 100 - (y - 1) div 100) + (y div 400 - (y - 1) div 400)"
    by linarith
  also have "\<dots> = (if y mod 4 = 0 then 1 else 0) - (if y mod 100 = 0 then 1 else 0)
      + (if y mod 400 = 0 then 1 else 0)"
    by (simp only: step[of 4, simplified] step[of 100, simplified] step[of 400, simplified])
  also have "\<dots> = (if leap y then 1 else 0)"
  proof -
    have "y mod 400 = 0 \<Longrightarrow> y mod 100 = 0" "y mod 100 = 0 \<Longrightarrow> y mod 4 = 0"
      using dvd_trans[of 100 400 y] dvd_trans[of 4 100 y] by (simp_all add: mod_eq_0_iff_dvd)
    then show ?thesis
      unfolding leap_def by (cases "y mod 4 = 0"; cases "y mod 100 = 0"; cases "y mod 400 = 0") simp_all
  qed
  finally show ?thesis .
qed

lemma days_before_year_Suc: "days_before_year (y + 1) = days_before_year y + (if leap y then 366 else 365)"
  using leap_div[of y] by (cases "leap y") (simp_all add: days_before_year_def Let_def)

lemma days_before_month_Suc:
  "1 \<le> m \<Longrightarrow> m \<le> 11 \<Longrightarrow> days_before_month y (m + 1) = days_before_month y m + month_len y m"
proof -
  assume "1 \<le> m" "m \<le> 11"
  then have "m = 1 \<or> m = 2 \<or> m = 3 \<or> m = 4 \<or> m = 5 \<or> m = 6 \<or> m = 7 \<or> m = 8 \<or> m = 9 \<or> m = 10 \<or> m = 11"
    by presburger
  then consider "m = 1" | "m = 2" | "m = 3" | "m = 4" | "m = 5" | "m = 6" | "m = 7" | "m = 8"
    | "m = 9" | "m = 10" | "m = 11" by blast
  then show ?thesis by cases (simp_all add: days_before_month_def month_len_def)
qed

lemma month_len_pos: "28 \<le> month_len y m" "month_len y m \<le> 31"
  by (auto simp: month_len_def)

lemma next_day_valid:
  assumes "valid_date d" "next_day d = Some d'"
  shows "valid_date d' \<and> toordinal d' = toordinal d + 1"
proof (cases "day d < month_len (year d) (month d)")
  case True
  with assms show ?thesis by (auto simp: next_day_def valid_date_def toordinal_def)
next
  case False
  show ?thesis
  proof (cases "month d < 12")
    case True
    with assms False month_len_pos(1)[of "year d" "month d + 1"] days_before_month_Suc[of "month d" "year d"]
    show ?thesis by (auto simp: next_day_def valid_date_def toordinal_def)
  next
    case m: False
    with assms False have "month d = 12" "day d = 31" "year d < 9999" "d' = mk_date (year d + 1) 1 1"
      by (auto simp: next_day_def valid_date_def month_len_def split: if_splits)
    with assms show ?thesis
      by (auto simp: valid_date_def toordinal_def mk_date_def days_before_year_Suc
          days_before_month_def month_len_def)
  qed
qed

lemma prev_day_valid:
  assumes "valid_date d" "prev_day d = Some d'"
  shows "valid_date d' \<and> toordinal d' = toordinal d - 1 \<and> next_day d' = Some d"
proof (cases "1 < day d")
  case True
  with assms show ?thesis by (auto simp: prev_day_def next_day_def valid_date_def toordinal_def)
next
  case False
  show ?thesis
  proof (cases "1 < month d")
    case True
    with assms False month_len_pos(1)[of "year d" "month d - 1"] days_before_month_Suc[of "month d - 1" "year d"]
    show ?thesis by (auto simp: prev_day_def next_day_def valid_date_def toordinal_def)
  next
    case m: False
    with assms False have "month d = 1" "day d = 1" "1 < year d" "d' = mk_date (year d - 1) 12 31"
      by (auto simp: prev_day_def valid_date_def split: if_splits)
    with assms days_before_year_Suc[of "year d - 1"] show ?thesis
      by (auto simp: valid_date_def toordinal_def mk_date_def next_day_def
          days_before_month_def month_len_def)
  qed
qed

lemma next_day_exists: "valid_date d \<Longrightarrow> year d < 9999 \<Longrightarrow> \<exists>d'. next_day d = Some d' \<and> year d' \<le> year d + 1"
  by (auto simp: next_day_def mk_date_def)

lemma prev_day_exists: "valid_date d \<Longrightarrow> 1 < year d \<Longrightarrow> \<exists>d'. prev_day d = Some d' \<and> year d - 1 \<le> year d'"
  by (auto simp: prev_day_def mk_date_def)

lemma weekday_next: "valid_date d \<Longrightarrow> next_day d = Some d' \<Longrightarrow> weekday d' = (weekday d + 1) mod 7"
  using next_day_valid[of d d'] by (simp add: weekday_def mod_add_left_eq add.assoc)

lemma weekday_range: "0 \<le> weekday d" "weekday d < 7"
  by (auto simp: weekday_def)

section \<open>Holidays\<close>

type_synonym holiday = "int \<times> int \<times> string"

definition holidays_2025 :: "holiday list" where
  "holidays_2025 = [
    (2, 26, ''Mahashivratri''), (3, 14, ''Holi''), (3, 31, ''Id-Ul-Fitr (Ramadan Eid)''),
    (4, 10, ''Shri Mahavir Jayanti''), (4, 14, ''Dr. Baba Saheb Ambedkar Jayanti''),
    (4, 18, ''Good Friday''), (5, 1, ''Maharashtra Day''), (8, 15, ''Independence Day''),
    (8, 27, ''Ganesh Chaturthi''), (10, 2, ''Mahatma Gandhi Jayanti / Dussehra''),
    (10, 21, ''Diwali Laxmi Pujan''), (10, 22, ''Diwali-Balipratipada''),
    (11, 5, ''Prakash Gurpurb Sri Guru Nanak Dev''), (12, 25, ''Christmas'')]"

definition holidays_2026 :: "holiday list" where
  "holidays_2026 = [
    (1, 26, ''Republic Day''), (3, 3, ''Holi''), (3, 26, ''Shri Ram Navami''),
    (3, 31, ''Shri Mahavir Jayanti''), (4, 3, ''Good Friday''),
    (4, 14, ''Dr. Baba Saheb Ambedkar Jayanti''), (5, 1, ''Maharashtra Day''),
    (5, 28, ''Bakri Id''), (6, 26, ''Muharram''), (9, 14, ''Ganesh Chaturthi''),
    (10, 2, ''Mahatma Gandhi Jayanti''), (10, 20, ''Dussehra''),
    (11, 10, ''Diwali-Balipratipada''), (11, 24, ''Prakash Gurpurb Sri Guru Nanak Dev''),
    (12, 25, ''Christmas'')]"

definition holidays_2027 :: "holiday list" where
  "holidays_2027 = [
    (1, 26, ''Republic Day''), (3, 22, ''Holi''), (4, 2, ''Good Friday''),
    (4, 14, ''Dr. Baba Saheb Ambedkar Jayanti''), (5, 1, ''Maharashtra Day''),
    (8, 15, ''Independence Day''), (10, 2, ''Mahatma Gandhi Jayanti''), (12, 25, ''Christmas'')]"

definition holidays_2028 :: "holiday list" where
  "holidays_2028 = [
    (1, 26, ''Republic Day''), (3, 10, ''Holi''),
    (4, 14, ''Dr. Baba Saheb Ambedkar Jayanti / Good Friday''), (5, 1, ''Maharashtra Day''),
    (8, 15, ''Independence Day''), (10, 2, ''Mahatma Gandhi Jayanti''), (12, 25, ''Christmas'')]"

definition holidays_2029 :: "holiday list" where
  "holidays_2029 = [
    (1, 26, ''Republic Day''), (3, 1, ''Holi''), (3, 30, ''Good Friday''),
    (4, 14, ''Dr. Baba Saheb Ambedkar Jayanti''), (5, 1, ''Maharashtra Day''),
    (8, 15, ''Independence Day''), (10, 2, ''Mahatma Gandhi Jayanti''), (12, 25, ''Christmas'')]"

definition holidays_2030 :: "holiday list" where
  "holidays_2030 = [
    (1, 26, ''Republic Day''), (3, 20, ''Holi''), (4, 14, ''Dr. Baba Saheb Ambedkar Jayanti''),
    (4, 19, ''Good Friday''), (5, 1, ''Maharashtra Day''), (8, 15, ''Independence Day''),
    (10, 2, ''Mahatma Gandhi Jayanti''), (12, 25, ''Christmas'')]"

definition all_holidays :: "int \<rightharpoonup> holiday list" where
  "all_holidays = [2025 \<mapsto> holidays_2025, 2026 \<mapsto> holidays_2026, 2027 \<mapsto> holidays_2027,
     2028 \<mapsto> holidays_2028, 2029 \<mapsto> holidays_2029, 2030 \<mapsto> holidays_2030]"

definition raw_holidays :: "int \<Rightarrow> holiday list" where
  "raw_holidays y = (case all_holidays y of None \<Rightarrow> [] | Some hs \<Rightarrow> hs)"

definition get_holiday_dates :: "int \<Rightarrow> date set" where
  "get_holiday_dates y = set (map (\<lambda>(m, d, _). mk_date y m d) (raw_holidays y))"

definition get_holiday_name :: "date \<Rightarrow> string option" where
  "get_holiday_name dt =
     map_option (\<lambda>(m, d, n). n) (find (\<lambda>(m, d, n). month dt = m \<and> day dt = d) (raw_holidays (year dt)))"

definition is_trading_holiday :: "date \<Rightarrow> bool" where
  "is_trading_holiday dt \<longleftrightarrow> dt \<in> get_holiday_dates (year dt)"

definition closed_day :: "date \<Rightarrow> bool" where
  "closed_day d \<longleftrightarrow> 5 \<le> weekday d \<or> is_trading_holiday d"

datatype date_error = OverflowError

partial_function (option) skip_closed :: "(date \<Rightarrow> date option) \<Rightarrow> date \<Rightarrow> (date_error + date) option" where
  "skip_closed stp c =
     (if closed_day c then (case stp c of None \<Rightarrow> Some (Inl OverflowError) | Some c' \<Rightarrow> skip_closed stp c')
      else Some (Inr c))"

declare skip_closed.simps [code]

definition get_next_trading_day :: "date \<Rightarrow> (date_error + date) option" where
  "get_next_trading_day d =
     (case next_day d of None \<Rightarrow> Some (Inl OverflowError) | Some c \<Rightarrow> skip_closed next_day c)"

definition get_previous_trading_day :: "date \<Rightarrow> (date_error + date) option" where
  "get_previous_trading_day d =
     (case prev_day d of None \<Rightarrow> Some (Inl OverflowError) | Some c \<Rightarrow> skip_closed prev_day c)"


section \<open>The trading-day search\<close>

text \<open>No three consecutive dates are all holidays: a check of the tables, date by date.\<close>

definition year_dates :: "int \<Rightarrow> date list" where
  "year_dates y = map (\<lambda>(m, d, _). mk_date y m d) (raw_holidays y)"

definition triple_free :: "int \<Rightarrow> bool" where
  "triple_free y \<longleftrightarrow> list_all (\<lambda>d. case next_day d of None \<Rightarrow> True | Some d1 \<Rightarrow>
     (case next_day d1 of None \<Rightarrow> True | Some d2 \<Rightarrow> \<not> (is_trading_holiday d1 \<and> is_trading_holiday d2)))
     (year_dates y)"

lemmas holiday_tables = holidays_2025_def holidays_2026_def holidays_2027_def holidays_2028_def
  holidays_2029_def holidays_2030_def

lemmas holiday_lookup = is_trading_holiday_def get_holiday_dates_def raw_holidays_def all_holidays_def

lemma raw_holidays_years:
  "y \<noteq> 2025 \<Longrightarrow> y \<noteq> 2026 \<Longrightarrow> y \<noteq> 2027 \<Longrightarrow> y \<noteq> 2028 \<Longrightarrow> y \<noteq> 2029 \<Longrightarrow> y \<noteq> 2030 \<Longrightarrow> raw_holidays y = []"
  by (simp add: raw_holidays_def all_holidays_def)

lemma triple_free_2025: "triple_free 2025"
  by (simp add: triple_free_def year_dates_def holiday_lookup holiday_tables
      next_day_def month_len_def leap_def mk_date_def)
lemma triple_free_2026: "triple_free 2026"
  by (simp add: triple_free_def year_dates_def holiday_lookup holiday_tables
      next_day_def month_len_def leap_def mk_date_def)
lemma triple_free_2027: "triple_free 2027"
  by (simp add: triple_free_def year_dates_def holiday_lookup holiday_tables
      next_day_def month_len_def leap_def mk_date_def)
lemma triple_free_2028: "triple_free 2028"
  by (simp add: triple_free_def year_dates_def holiday_lookup holiday_tables
      next_day_def month_len_def leap_def mk_date_def)
lemma triple_free_2029: "triple_free 2029"
  by (simp add: triple_free_def year_dates_def holiday_lookup holiday_tables
      next_day_def month_len_def leap_def mk_date_def)
lemma triple_free_2030: "triple_free 2030"
  by (simp add: triple_free_def year_dates_def holiday_lookup holiday_tables
      next_day_def month_len_def leap_def mk_date_def)

lemma triple_free: "triple_free y"
proof (cases "y \<in> {2025, 2026, 2027, 2028, 2029, 2030}")
  case True
  with triple_free_2025 triple_free_2026 triple_free_2027 triple_free_2028 triple_free_2029 triple_free_2030
  show ?thesis by auto
next
  case False
  then have "raw_holidays y = []" by (intro raw_holidays_years) auto
  then show ?thesis by (simp add: triple_free_def year_dates_def)
qed

lemma no_three_holidays:
  assumes "next_day d = Some d1" "next_day d1 = Some d2"
  shows "\<not> (is_trading_holiday d \<and> is_trading_holiday d1 \<and> is_trading_holiday d2)"
proof
  assume h: "is_trading_holiday d \<and> is_trading_holiday d1 \<and> is_trading_holiday d2"
  then have "d \<in> set (year_dates (year d))"
    by (simp add: is_trading_holiday_def get_holiday_dates_def year_dates_def)
  with triple_free[of "year d"] assms h show False by (auto simp: triple_free_def list_all_iff)
qed

text \<open>Seven consecutive days hold three consecutive weekdays.\<close>

fun day_chain :: "date list \<Rightarrow> bool" where
  "day_chain (d # d' # ds) = (valid_date d \<and> next_day d = Some d' \<and> day_chain (d' # ds))"
| "day_chain ds = True"

lemma weekday_later:
  "valid_date d \<Longrightarrow> next_day d = Some d' \<Longrightarrow> weekday d = (w + i) mod 7 \<Longrightarrow> weekday d' = (w + (i + 1)) mod 7"
  by (simp add: weekday_next mod_simps add.assoc)

lemma week_has_trading_day:
  assumes "day_chain [a, b, c, d, e, f, g, h]"
  shows "\<not> (closed_day a \<and> closed_day b \<and> closed_day c \<and> closed_day d \<and> closed_day e \<and> closed_day f \<and> closed_day g)"
proof -
  let ?w = "weekday a"
  have v: "valid_date a" "valid_date b" "valid_date c" "valid_date d" "valid_date e" "valid_date f"
    "next_day a = Some b" "next_day b = Some c" "next_day c = Some d" "next_day d = Some e"
    "next_day e = Some f" "next_day f = Some g" "next_day g = Some h"
    using assms by simp_all
  have b: "weekday b = (?w + 1) mod 7" by (rule weekday_next[OF v(1,7)])
  have c: "weekday c = (?w + 2) mod 7" using weekday_later[OF v(2,8) b] by simp
  have d: "weekday d = (?w + 3) mod 7" using weekday_later[OF v(3,9) c] by simp
  have e: "weekday e = (?w + 4) mod 7" using weekday_later[OF v(4,10) d] by simp
  have f: "weekday f = (?w + 5) mod 7" using weekday_later[OF v(5,11) e] by simp
  have g: "weekday g = (?w + 6) mod 7" using weekday_later[OF v(6,12) f] by simp
  note wk = b c d e f g
  have hol: "\<not> (is_trading_holiday a \<and> is_trading_holiday b \<and> is_trading_holiday c)"
    "\<not> (is_trading_holiday b \<and> is_trading_holiday c \<and> is_trading_holiday d)"
    "\<not> (is_trading_holiday c \<and> is_trading_holiday d \<and> is_trading_holiday e)"
    "\<not> (is_trading_holiday d \<and> is_trading_holiday e \<and> is_trading_holiday f)"
    "\<not> (is_trading_holiday e \<and> is_trading_holiday f \<and> is_trading_holiday g)"
    using no_three_holidays[OF v(7,8)] no_three_holidays[OF v(8,9)] no_three_holidays[OF v(9,10)]
      no_three_holidays[OF v(10,11)] no_three_holidays[OF v(11,12)] by simp_all
  have "?w = 0 \<or> ?w = 1 \<or> ?w = 2 \<or> ?w = 3 \<or> ?w = 4 \<or> ?w = 5 \<or> ?w = 6"
    using weekday_range[of a] by linarith
  then consider "?w = 0" | "?w = 1" | "?w = 2" | "?w = 3" | "?w = 4" | "?w = 5" | "?w = 6" by blast
  then show ?thesis
    using hol unfolding closed_day_def wk by cases (simp_all, blast+)
qed

text \<open>The search returns: seven candidates suffice.\<close>

lemma skip_open: "\<not> closed_day c \<Longrightarrow> skip_closed stp c = Some (Inr c)"
  by (subst skip_closed.simps) simp

lemma skip_step: "closed_day c \<Longrightarrow> stp c = Some c' \<Longrightarrow> skip_closed stp c = skip_closed stp c'"
  by (subst skip_closed.simps) simp

text \<open>\<open>first_open\<close>: the reference search with a bound, used to state what the loop finds.\<close>

fun first_open :: "date list \<Rightarrow> date option" where
  "first_open [] = None"
| "first_open (d # ds) = (if closed_day d then first_open ds else Some d)"

fun stp_chain :: "(date \<Rightarrow> date option) \<Rightarrow> date list \<Rightarrow> bool" where
  "stp_chain stp (d # d' # ds) = (stp d = Some d' \<and> stp_chain stp (d' # ds))"
| "stp_chain stp ds = True"

lemma skip_closed_first_open:
  "stp_chain stp (c # ds) \<Longrightarrow> first_open (c # ds) = Some r \<Longrightarrow> skip_closed stp c = Some (Inr r)"
proof (induction ds arbitrary: c)
  case Nil
  then show ?case by (simp add: skip_open split: if_splits)
next
  case (Cons d ds)
  then show ?case by (cases "closed_day c") (auto simp: skip_open skip_step)
qed

lemma first_open_Some: "\<exists>d \<in> set ds. \<not> closed_day d \<Longrightarrow> \<exists>r. first_open ds = Some r"
  by (induction ds) auto

lemma first_open_split:
  "first_open ds = Some r \<Longrightarrow> \<exists>pre post. ds = pre @ r # post \<and> \<not> closed_day r \<and> list_all closed_day pre"
proof (induction ds)
  case Nil
  then show ?case by simp
next
  case (Cons d ds)
  show ?case
  proof (cases "closed_day d")
    case True
    with Cons obtain pre post where "ds = pre @ r # post \<and> \<not> closed_day r \<and> list_all closed_day pre" by auto
    with True show ?thesis by (intro exI[of _ "d # pre"] exI[of _ post]) auto
  next
    case False
    with Cons.prems show ?thesis by (intro exI[of _ "[]"] exI[of _ ds]) auto
  qed
qed

lemma next_chain_exists:
  assumes "valid_date d" "year d < 9990"
  shows "\<exists>b c d3 e f g h. day_chain [d, b, c, d3, e, f, g, h] \<and> valid_date h \<and>
     stp_chain next_day [d, b, c, d3, e, f, g, h] \<and> year h \<le> year d + 7"
proof -
  have nxt: "\<exists>x'. next_day x = Some x' \<and> valid_date x' \<and> year x' \<le> year x + 1"
    if "valid_date x" "year x < 9999" for x
    using next_day_exists[OF that] next_day_valid[OF that(1)] by blast
  obtain b where b: "next_day d = Some b" "valid_date b" "year b \<le> year d + 1"
    using nxt[of d] assms by auto
  obtain c where c: "next_day b = Some c" "valid_date c" "year c \<le> year d + 2"
    using nxt[of b] assms b by fastforce
  obtain d3 where d3: "next_day c = Some d3" "valid_date d3" "year d3 \<le> year d + 3"
    using nxt[of c] assms c by fastforce
  obtain e where e: "next_day d3 = Some e" "valid_date e" "year e \<le> year d + 4"
    using nxt[of d3] assms d3 by fastforce
  obtain f where f: "next_day e = Some f" "valid_date f" "year f \<le> year d + 5"
    using nxt[of e] assms e by fastforce
  obtain g where g: "next_day f = Some g" "valid_date g" "year g \<le> year d + 6"
    using nxt[of f] assms f by fastforce
  obtain h where h: "next_day g = Some h" "valid_date h" "year h \<le> year d + 7"
    using nxt[of g] assms g by fastforce
  have "day_chain [d, b, c, d3, e, f, g, h]" "stp_chain next_day [d, b, c, d3, e, f, g, h]"
    using assms b c d3 e f g h by auto
  with h show ?thesis by blast
qed

lemma chain_ordinals:
  "day_chain (d # ds) \<Longrightarrow> i < length ds \<Longrightarrow> toordinal ((d # ds) ! i) = toordinal d + int i"
proof (induction ds arbitrary: d i)
  case Nil
  then show ?case by simp
next
  case (Cons d' ds)
  then show ?case using next_day_valid[of d d']
    by (cases i) auto
qed


lemma prev_chain_exists:
  assumes "valid_date d" "10 < year d"
  shows "\<exists>b c d3 e f g h. day_chain [h, g, f, e, d3, c, b, d] \<and> valid_date h \<and>
     stp_chain prev_day [d, b, c, d3, e, f, g, h]"
proof -
  have prv: "\<exists>x'. prev_day x = Some x' \<and> valid_date x' \<and> year x - 1 \<le> year x' \<and> next_day x' = Some x"
    if "valid_date x" "1 < year x" for x
    using prev_day_exists[OF that] prev_day_valid[OF that(1)] by blast
  obtain b where b: "prev_day d = Some b" "valid_date b" "year d - 1 \<le> year b" "next_day b = Some d"
    using prv[of d] assms by auto
  obtain c where c: "prev_day b = Some c" "valid_date c" "year d - 2 \<le> year c" "next_day c = Some b"
    using prv[of b] assms b by fastforce
  obtain d3 where d3: "prev_day c = Some d3" "valid_date d3" "year d - 3 \<le> year d3" "next_day d3 = Some c"
    using prv[of c] assms c by fastforce
  obtain e where e: "prev_day d3 = Some e" "valid_date e" "year d - 4 \<le> year e" "next_day e = Some d3"
    using prv[of d3] assms d3 by fastforce
  obtain f where f: "prev_day e = Some f" "valid_date f" "year d - 5 \<le> year f" "next_day f = Some e"
    using prv[of e] assms e by fastforce
  obtain g where g: "prev_day f = Some g" "valid_date g" "year d - 6 \<le> year g" "next_day g = Some f"
    using prv[of f] assms f by fastforce
  obtain h where h: "prev_day g = Some h" "valid_date h" "next_day h = Some g"
    using prv[of g] assms g by fastforce
  have "day_chain [h, g, f, e, d3, c, b, d]" "stp_chain prev_day [d, b, c, d3, e, f, g, h]"
    using assms b c d3 e f g h by auto
  with h show ?thesis by blast
qed

lemma stp_chain_append: "stp_chain stp (xs @ y # ys) \<Longrightarrow> stp_chain stp (xs @ [y])"
  by (induction xs rule: stp_chain.induct) (auto split: list.splits)

lemma search_result:
  assumes chain: "stp_chain stp (d # ds)" and len: "length ds = 7" and ex: "\<exists>x \<in> set ds. \<not> closed_day x"
  shows "\<exists>skipped r. (case stp d of None \<Rightarrow> Some (Inl OverflowError) | Some c \<Rightarrow> skip_closed stp c) = Some (Inr r) \<and>
    \<not> closed_day r \<and> stp_chain stp (d # skipped @ [r]) \<and> list_all closed_day skipped \<and> length skipped \<le> 6"
proof -
  obtain c ds' where ds: "ds = c # ds'" using len by (cases ds) auto
  obtain r where r: "first_open ds = Some r" using first_open_Some[OF ex] by blast
  obtain pre post where split: "ds = pre @ r # post" "\<not> closed_day r" "list_all closed_day pre"
    using first_open_split[OF r] by blast
  from chain ds have "stp d = Some c" "stp_chain stp (c # ds')" by auto
  moreover from this r ds have "skip_closed stp c = Some (Inr r)" by (intro skip_closed_first_open) auto
  moreover have "stp_chain stp (d # pre @ [r])"
    using stp_chain_append[of stp "d # pre" r post] chain split(1) by simp
  moreover have "length pre \<le> 6" using len split(1) by simp
  ultimately show ?thesis using split by (intro exI[of _ pre] exI[of _ r]) simp
qed

lemma search_after:
  assumes "valid_date d" "year d < 9989"
  shows "\<exists>skipped r. get_next_trading_day d = Some (Inr r) \<and> \<not> closed_day r \<and>
    stp_chain next_day (d # skipped @ [r]) \<and> list_all closed_day skipped \<and> length skipped \<le> 6"
proof -
  obtain a where a: "next_day d = Some a" "valid_date a" "year a \<le> year d + 1"
    using next_day_exists[of d] next_day_valid[of d] assms by fastforce
  then obtain b c d3 e f g h where ch: "day_chain [a, b, c, d3, e, f, g, h]"
    "stp_chain next_day [a, b, c, d3, e, f, g, h]"
    using next_chain_exists[of a] assms by fastforce
  have "stp_chain next_day (d # [a, b, c, d3, e, f, g])" using a ch(2) by simp
  moreover have "\<exists>x \<in> set [a, b, c, d3, e, f, g]. \<not> closed_day x"
    using week_has_trading_day[OF ch(1)] by auto
  ultimately show ?thesis unfolding get_next_trading_day_def by (intro search_result[where ds = "[a, b, c, d3, e, f, g]"]) simp_all
qed

text \<open>C32: For every date up to the year 9989 the loop of \<^verbatim>\<open>get_next_trading_day\<close> returns, after
  skipping at most six dates, all of them weekends or holidays, the first later date that is
  neither.\<close>
theorem next_trading_day_returns:
  assumes "valid_date d" "year d < 9989"
  shows "\<exists>skipped r. get_next_trading_day d = Some (Inr r) \<and> \<not> closed_day r \<and>
    stp_chain next_day (d # skipped @ [r]) \<and> list_all closed_day skipped \<and> length skipped \<le> 6"
  using assms by (rule search_after)

theorem next_trading_day_returns_witness:
  "\<exists>skipped r. get_next_trading_day (mk_date 2025 10 20) = Some (Inr r) \<and> \<not> closed_day r \<and>
    stp_chain next_day (mk_date 2025 10 20 # skipped @ [r]) \<and> list_all closed_day skipped \<and>
    length skipped \<le> 6"
  by (rule next_trading_day_returns) (simp_all add: mk_date_def valid_date_def month_len_def)

lemma search_before:
  assumes "valid_date d" "11 < year d"
  shows "\<exists>skipped r. get_previous_trading_day d = Some (Inr r) \<and> \<not> closed_day r \<and>
    stp_chain prev_day (d # skipped @ [r]) \<and> list_all closed_day skipped \<and> length skipped \<le> 6"
proof -
  obtain a where a: "prev_day d = Some a" "valid_date a" "year d - 1 \<le> year a"
    using prev_day_exists[of d] prev_day_valid[of d] assms by fastforce
  then obtain b c d3 e f g h where ch: "day_chain [h, g, f, e, d3, c, b, a]"
    "stp_chain prev_day [a, b, c, d3, e, f, g, h]"
    using prev_chain_exists[of a] assms by fastforce
  obtain z where "next_day a = Some z" using a prev_day_valid[of d a] assms by auto
  with ch(1) a have "day_chain [g, f, e, d3, c, b, a, z]" by simp
  then have "\<exists>x \<in> set [a, b, c, d3, e, f, g]. \<not> closed_day x"
    using week_has_trading_day[of g f e d3 c b a z] by auto
  moreover have "stp_chain prev_day (d # [a, b, c, d3, e, f, g])" using a ch(2) by simp
  ultimately show ?thesis unfolding get_previous_trading_day_def by (intro search_result[where ds = "[a, b, c, d3, e, f, g]"]) simp_all
qed

text \<open>For every date after the year 10 the loop of \<^verbatim>\<open>get_previous_trading_day\<close> returns the
  most recent earlier date that is neither a weekend nor a holiday, skipping at most six.\<close>
theorem previous_trading_day_returns:
  assumes "valid_date d" "11 < year d"
  shows "\<exists>skipped r. get_previous_trading_day d = Some (Inr r) \<and> \<not> closed_day r \<and>
    stp_chain prev_day (d # skipped @ [r]) \<and> list_all closed_day skipped \<and> length skipped \<le> 6"
  using assms by (rule search_before)

theorem previous_trading_day_returns_witness:
  "\<exists>skipped r. get_previous_trading_day (mk_date 2025 10 23) = Some (Inr r) \<and> \<not> closed_day r \<and>
    stp_chain prev_day (mk_date 2025 10 23 # skipped @ [r]) \<and> list_all closed_day skipped \<and>
    length skipped \<le> 6"
  by (rule previous_trading_day_returns) (simp_all add: mk_date_def valid_date_def month_len_def)

end
