(* ===== verification/Clock.thy ===== *)
theory Clock
  imports Calendar
begin

text \<open>
  \<^verbatim>\<open>src/utils/ist_clock.py\<close>: market sessions and the market-state dictionary. A
  function that reads the wall clock takes the reading (an IST datetime) as an argument;
  an optional \<^verbatim>\<open>dt\<close> argument is an \<^typ>\<open>'a option\<close>. Conversions that would leave the
  years 1 to 9999 give \<open>Inl OverflowError\<close>.
\<close>

record datetime =
  dt_date :: date
  dt_us :: int
  dt_tz :: "int option"

definition us_of :: "int \<Rightarrow> int \<Rightarrow> int" where
  "us_of h m = (h * 60 + m) * 60000000"

definition day_us :: int where
  "day_us = us_of 24 0"

definition ist_offset :: int where
  "ist_offset = 330"

datatype session = PRE_OPEN | CONTINUOUS_TRADING | POST_CLOSE | AFTER_MARKET_CLOSE
  | SESSION_CLOSED | HOLIDAY | WEEKEND

text \<open>\<^verbatim>\<open>d + timedelta(days=n)\<close>.\<close>

definition add_days :: "int \<Rightarrow> date \<Rightarrow> date option" where
  "add_days n d =
     (if 0 \<le> n then ((\<lambda>x. Option.bind x next_day) ^^ nat n) (Some d)
      else ((\<lambda>x. Option.bind x prev_day) ^^ nat (- n)) (Some d))"

text \<open>\<^verbatim>\<open>replace(tzinfo=IST)\<close> for a naive value, \<^verbatim>\<open>astimezone(IST)\<close> otherwise.\<close>

definition to_ist :: "datetime \<Rightarrow> date_error + datetime" where
  "to_ist t =
     (case dt_tz t of
        None \<Rightarrow> Inr (t\<lparr>dt_tz := Some ist_offset\<rparr>)
      | Some off \<Rightarrow>
          (let u = dt_us t + us_of 0 (ist_offset - off)
           in case add_days (u div day_us) (dt_date t) of
                None \<Rightarrow> Inl OverflowError
              | Some d \<Rightarrow> Inr \<lparr>dt_date = d, dt_us = u mod day_us, dt_tz = Some ist_offset\<rparr>))"

definition pre_open_start :: int where "pre_open_start = us_of 9 0"
definition market_open :: int where "market_open = us_of 9 15"
definition market_close :: int where "market_close = us_of 15 30"
definition post_close_end :: int where "post_close_end = us_of 15 40"
definition amc_end :: int where "amc_end = us_of 16 0"

lemmas session_bounds = pre_open_start_def market_open_def market_close_def post_close_end_def
  amc_end_def us_of_def day_us_def

text \<open>The body of \<^verbatim>\<open>get_market_session\<close> on the converted date and time.\<close>

definition session_at :: "date \<Rightarrow> int \<Rightarrow> session" where
  "session_at d u =
     (if 5 \<le> weekday d then WEEKEND
      else if is_trading_holiday d then HOLIDAY
      else if u < pre_open_start then SESSION_CLOSED
      else if pre_open_start \<le> u \<and> u < market_open then PRE_OPEN
      else if market_open \<le> u \<and> u < market_close then CONTINUOUS_TRADING
      else if market_close \<le> u \<and> u < post_close_end then POST_CLOSE
      else if post_close_end \<le> u \<and> u < amc_end then AFTER_MARKET_CLOSE
      else SESSION_CLOSED)"

definition get_market_session :: "datetime \<Rightarrow> datetime option \<Rightarrow> date_error + session" where
  "get_market_session now dt =
     (case dt of
        None \<Rightarrow> Inr (session_at (dt_date now) (dt_us now))
      | Some t \<Rightarrow> (case to_ist t of Inl e \<Rightarrow> Inl e | Inr t' \<Rightarrow> Inr (session_at (dt_date t') (dt_us t'))))"

definition open_session :: "session \<Rightarrow> bool" where
  "open_session s \<longleftrightarrow> s \<in> {PRE_OPEN, CONTINUOUS_TRADING, POST_CLOSE}"

definition is_market_open :: "datetime \<Rightarrow> datetime option \<Rightarrow> date_error + bool" where
  "is_market_open now dt =
     (case get_market_session now dt of Inl e \<Rightarrow> Inl e
      | Inr s \<Rightarrow> Inr (open_session s))"

definition is_trading_hours :: "datetime \<Rightarrow> datetime option \<Rightarrow> date_error + bool" where
  "is_trading_hours now dt =
     (case get_market_session now dt of Inl e \<Rightarrow> Inl e | Inr s \<Rightarrow> Inr (s = CONTINUOUS_TRADING))"

definition should_scrape :: "datetime \<Rightarrow> datetime option \<Rightarrow> date_error + bool" where
  "should_scrape now dt = is_market_open now dt"

definition ist_at :: "date \<Rightarrow> int \<Rightarrow> datetime" where
  "ist_at d u = \<lparr>dt_date = d, dt_us = u, dt_tz = Some ist_offset\<rparr>"

text \<open>The outer option is \<open>None\<close> when the trading-day loop does not return.\<close>

definition get_next_market_open :: "datetime \<Rightarrow> datetime option \<Rightarrow> (date_error + datetime) option" where
  "get_next_market_open now dto =
     (let dt = (case dto of None \<Rightarrow> now | Some t \<Rightarrow> t); d = dt_date dt
      in if dt_us dt < market_open \<and> weekday d < 5 \<and> \<not> is_trading_holiday d
         then Some (Inr (ist_at d market_open))
         else map_option (map_sum id (\<lambda>n. ist_at n market_open)) (get_next_trading_day d))"

definition get_market_close_today :: "datetime \<Rightarrow> datetime" where
  "get_market_close_today now = ist_at (dt_date now) market_close"

record market_state =
  ms_status :: string
  ms_session :: session
  ms_exchange_time :: datetime
  ms_next_open :: "datetime option"
  ms_next_close :: "datetime option"
  ms_is_holiday :: bool
  ms_holiday_name :: "string option"

fun status_map :: "session \<Rightarrow> string" where
  "status_map PRE_OPEN = ''PRE_OPEN''"
| "status_map CONTINUOUS_TRADING = ''OPEN''"
| "status_map POST_CLOSE = ''POST_CLOSE''"
| "status_map _ = ''CLOSED''"

definition get_market_state_dict :: "datetime \<Rightarrow> datetime option \<Rightarrow> (date_error + market_state) option" where
  "get_market_state_dict now dto =
     (let dt = (case dto of None \<Rightarrow> now | Some t \<Rightarrow> t)
      in case get_market_session now (Some dt) of
           Inl e \<Rightarrow> Some (Inl e)
         | Inr s \<Rightarrow>
             (let opn = open_session s;
                  st = (\<lambda>no. \<lparr>ms_status = status_map s, ms_session = s, ms_exchange_time = dt,
                    ms_next_open = no,
                    ms_next_close = (if opn then Some (get_market_close_today now) else None),
                    ms_is_holiday = (s = HOLIDAY), ms_holiday_name = get_holiday_name (dt_date dt)\<rparr>)
              in if opn then Some (Inr (st None))
                 else map_option (map_sum id (\<lambda>o1. st (Some o1))) (get_next_market_open now (Some dt))))"

section \<open>Properties\<close>

definition ist_datetime :: "datetime \<Rightarrow> bool" where
  "ist_datetime t \<longleftrightarrow> dt_tz t = Some ist_offset \<and> valid_date (dt_date t) \<and> 0 \<le> dt_us t \<and> dt_us t < day_us"

lemma to_ist_ist: "ist_datetime t \<Longrightarrow> to_ist t = Inr t"
  by (auto simp: to_ist_def ist_datetime_def us_of_def add_days_def Let_def)

lemma session_open_iff:
  "open_session (session_at d u) \<longleftrightarrow>
     \<not> closed_day d \<and> pre_open_start \<le> u \<and> u < post_close_end"
  by (auto simp: open_session_def session_at_def closed_day_def session_bounds)

lemma session_trading_iff:
  "session_at d u = CONTINUOUS_TRADING \<longleftrightarrow> \<not> closed_day d \<and> market_open \<le> u \<and> u < market_close"
  by (auto simp: session_at_def closed_day_def session_bounds)

text \<open>C31: On IST datetimes the market counts as open exactly on days that are neither weekend nor
  holiday between 09:00 and 15:40, and as in continuous trading exactly between 09:15 and
  15:30 of such days.\<close>
theorem market_open_iff:
  assumes "ist_datetime t"
  shows "is_market_open now (Some t) =
      Inr (\<not> closed_day (dt_date t) \<and> us_of 9 0 \<le> dt_us t \<and> dt_us t < us_of 15 40) \<and>
    is_trading_hours now (Some t) =
      Inr (\<not> closed_day (dt_date t) \<and> us_of 9 15 \<le> dt_us t \<and> dt_us t < us_of 15 30)"
  unfolding is_market_open_def is_trading_hours_def get_market_session_def option.case sum.case
    to_ist_ist[OF assms] session_open_iff session_trading_iff
  by (simp add: pre_open_start_def post_close_end_def market_open_def market_close_def)

theorem market_open_iff_witness:
  "is_market_open (ist_at (mk_date 2026 1 1) 0) (Some (ist_at (mk_date 2026 1 26) (us_of 10 0))) = Inr False \<and>
   is_trading_hours (ist_at (mk_date 2026 1 1) 0) (Some (ist_at (mk_date 2026 1 27) (us_of 10 0))) = Inr True"
proof -
  have h: "ist_datetime (ist_at (mk_date 2026 1 26) (us_of 10 0))" "ist_datetime (ist_at (mk_date 2026 1 27) (us_of 10 0))"
    by (simp_all add: ist_datetime_def ist_at_def valid_date_def month_len_def mk_date_def session_bounds)
  have c: "closed_day (mk_date 2026 1 26)" "\<not> closed_day (mk_date 2026 1 27)"
    by (simp_all add: closed_day_def weekday_def toordinal_def days_before_year_def days_before_month_def
        mk_date_def holiday_lookup holiday_tables Let_def)
  show ?thesis
    using market_open_iff[OF h(1), of "ist_at (mk_date 2026 1 1) 0"]
      market_open_iff[OF h(2), of "ist_at (mk_date 2026 1 1) 0"] c
    by (simp add: ist_at_def us_of_def)
qed

definition before :: "datetime \<Rightarrow> datetime \<Rightarrow> bool" where
  "before s t \<longleftrightarrow> toordinal (dt_date s) < toordinal (dt_date t) \<or>
     (toordinal (dt_date s) = toordinal (dt_date t) \<and> dt_us s < dt_us t)"

lemma stp_chain_next_ordinal:
  "valid_date d \<Longrightarrow> stp_chain next_day (d # ds @ [r]) \<Longrightarrow> toordinal d < toordinal r \<and> valid_date r"
proof (induction ds arbitrary: d)
  case Nil
  then show ?case using next_day_valid[of d r] by simp
next
  case (Cons x ds)
  then show ?case using next_day_valid[of d x] by fastforce
qed

lemma next_open_cases:
  assumes "ist_datetime t" "year (dt_date t) < 9989"
  obtains (today) "dt_us t < market_open" "\<not> closed_day (dt_date t)"
      "get_next_market_open now (Some t) = Some (Inr (ist_at (dt_date t) market_open))"
  | (later) r where "get_next_market_open now (Some t) = Some (Inr (ist_at r market_open))"
      "\<not> closed_day r" "toordinal (dt_date t) < toordinal r"
proof (cases "dt_us t < market_open \<and> weekday (dt_date t) < 5 \<and> \<not> is_trading_holiday (dt_date t)")
  case True
  then show ?thesis by (intro today) (auto simp: get_next_market_open_def Let_def closed_day_def)
next
  case False
  from assms have v: "valid_date (dt_date t)" by (simp add: ist_datetime_def)
  obtain ds r where r: "get_next_trading_day (dt_date t) = Some (Inr r)" "\<not> closed_day r"
    "stp_chain next_day (dt_date t # ds @ [r])"
    using search_after[OF v assms(2)] by blast
  with False stp_chain_next_ordinal[OF v r(3)] show ?thesis
    by (intro later[of r]) (auto simp: get_next_market_open_def Let_def)
qed

text \<open>For an IST datetime, \<^verbatim>\<open>get_next_market_open\<close> returns 09:15 IST of a trading day,
  strictly later than the given time.\<close>
theorem next_market_open_future:
  assumes "ist_datetime t" "year (dt_date t) < 9989"
  shows "\<exists>r. get_next_market_open now (Some t) = Some (Inr (ist_at r (us_of 9 15))) \<and>
    \<not> closed_day r \<and> before t (ist_at r (us_of 9 15))"
  by (rule next_open_cases[OF assms, of now])
    (auto simp: before_def ist_at_def market_open_def)

theorem next_market_open_future_witness:
  "\<exists>r. get_next_market_open (ist_at (mk_date 2026 1 1) 0) (Some (ist_at (mk_date 2026 1 23) (us_of 16 0)))
      = Some (Inr (ist_at r (us_of 9 15))) \<and>
    \<not> closed_day r \<and> before (ist_at (mk_date 2026 1 23) (us_of 16 0)) (ist_at r (us_of 9 15))"
  by (rule next_market_open_future)
    (simp_all add: ist_datetime_def ist_at_def valid_date_def month_len_def mk_date_def session_bounds)

text \<open>For every IST datetime the market-state dictionary is produced; its status agrees with
  the session, it announces the next close exactly when the market is open and the next open
  exactly when it is not.\<close>
theorem market_state_consistent:
  assumes "ist_datetime t" "year (dt_date t) < 9989"
  shows "\<exists>m. get_market_state_dict now (Some t) = Some (Inr m) \<and>
    ms_session m = session_at (dt_date t) (dt_us t) \<and>
    (ms_status m = ''OPEN'' \<longleftrightarrow> ms_session m = CONTINUOUS_TRADING) \<and>
    (ms_next_open m = None \<longleftrightarrow> \<not> closed_day (dt_date t) \<and> us_of 9 0 \<le> dt_us t \<and> dt_us t < us_of 15 40) \<and>
    (ms_next_close m = None \<longleftrightarrow> ms_next_open m \<noteq> None)"
proof -
  let ?s = "session_at (dt_date t) (dt_us t)"
  have opn: "open_session ?s \<longleftrightarrow>
     \<not> closed_day (dt_date t) \<and> us_of 9 0 \<le> dt_us t \<and> dt_us t < us_of 15 40"
    using session_open_iff by (simp only: pre_open_start_def post_close_end_def)
  have st: "status_map ?s = ''OPEN'' \<longleftrightarrow> ?s = CONTINUOUS_TRADING" by (cases ?s) auto
  obtain x where "get_next_market_open now (Some t) = Some (Inr x)"
    using next_open_cases[OF assms, of now] by metis
  with opn st show ?thesis
    unfolding get_market_state_dict_def get_market_session_def option.case to_ist_ist[OF assms(1)] sum.case Let_def
    by (cases "open_session ?s") simp_all
qed

theorem market_state_consistent_witness:
  "\<exists>m. get_market_state_dict (ist_at (mk_date 2026 1 1) 0) (Some (ist_at (mk_date 2026 1 27) (us_of 10 0))) = Some (Inr m) \<and>
    ms_session m = session_at (mk_date 2026 1 27) (us_of 10 0)"
proof -
  have "ist_datetime (ist_at (mk_date 2026 1 27) (us_of 10 0))"
    by (simp add: ist_datetime_def ist_at_def valid_date_def month_len_def mk_date_def session_bounds)
  from market_state_consistent[OF this, of "ist_at (mk_date 2026 1 1) 0"] show ?thesis
    by (auto simp: ist_at_def mk_date_def)
qed

text \<open>\<^verbatim>\<open>get_next_market_open\<close> does not convert an aware datetime to IST before it compares:
  for Monday 2025-01-06 05:00 UTC, 10:30 in Mumbai and inside the session, it returns 09:15 IST
  of the same day, which has passed.\<close>
theorem next_market_open_utc_past:
  "get_next_market_open now (Some \<lparr>dt_date = mk_date 2025 1 6, dt_us = us_of 5 0, dt_tz = Some 0\<rparr>)
     = Some (Inr (ist_at (mk_date 2025 1 6) (us_of 9 15))) \<and>
   to_ist \<lparr>dt_date = mk_date 2025 1 6, dt_us = us_of 5 0, dt_tz = Some 0\<rparr>
     = Inr (ist_at (mk_date 2025 1 6) (us_of 10 30)) \<and>
   before (ist_at (mk_date 2025 1 6) (us_of 9 15)) (ist_at (mk_date 2025 1 6) (us_of 10 30))"
proof -
  have w: "weekday (mk_date 2025 1 6) = 0"
    by (simp add: weekday_def toordinal_def days_before_year_def days_before_month_def mk_date_def)
  have h: "\<not> is_trading_holiday (mk_date 2025 1 6)"
    by (simp add: holiday_lookup holiday_tables mk_date_def)
  from w h show ?thesis
    by (simp add: get_next_market_open_def to_ist_def ist_offset_def add_days_def before_def ist_at_def
        market_open_def us_of_def day_us_def)
qed

end
