(* ===== verification/Models.thy ===== *)
theory Models
  imports Clock
begin

text \<open>
  \<^verbatim>\<open>src/models/tick.py\<close>, \<^verbatim>\<open>market_depth.py\<close> and \<^verbatim>\<open>ohlcv.py\<close>: the canonical tick, the order book
  and the candle models. A model class is a record; its declared field constraints are the
  predicates \<open>depth_ok\<close>, \<open>tick_ok\<close>, \<open>candle_ok\<close> and \<open>eod_ok\<close>; construction with the field
  validators is \<open>make_tick\<close>, which is \<open>None\<close> when validation fails. Decimal quotients are
  exact rationals.
\<close>

section \<open>Order book\<close>

record depth_level =
  lv_price :: price
  lv_quantity :: int
  lv_orders :: int

record market_depth =
  md_buy :: "depth_level list"
  md_sell :: "depth_level list"
  md_total_buy :: int
  md_total_sell :: int

definition level_ok :: "depth_level \<Rightarrow> bool" where
  "level_ok l \<longleftrightarrow> 0 \<le> lv_quantity l \<and> 0 \<le> lv_orders l"

definition depth_ok :: "market_depth \<Rightarrow> bool" where
  "depth_ok d \<longleftrightarrow> length (md_buy d) \<le> 20 \<and> length (md_sell d) \<le> 20 \<and>
     list_all level_ok (md_buy d) \<and> list_all level_ok (md_sell d) \<and>
     0 \<le> md_total_buy d \<and> 0 \<le> md_total_sell d"

definition imbalance_ratio :: "market_depth \<Rightarrow> rat" where
  "imbalance_ratio d =
     (let total = md_total_buy d + md_total_sell d
      in if total = 0 then 0
         else py_round 4 (of_int (md_total_buy d - md_total_sell d) / of_int total))"

definition spread :: "market_depth \<Rightarrow> price option" where
  "spread d = (case (md_buy d, md_sell d) of
       (b # _, s # _) \<Rightarrow> Some (lv_price s - lv_price b) | _ \<Rightarrow> None)"

section \<open>Ticks\<close>

record tick =
  tk_symbol :: string
  tk_isin :: "string option"
  tk_exchange :: string
  tk_series :: "string option"
  tk_ltp :: price
  tk_open :: price
  tk_high :: price
  tk_low :: price
  tk_close :: price
  tk_change :: price
  tk_pct_change :: rat
  tk_volume :: int
  tk_value :: "price option"
  tk_vwap :: "price option"
  tk_upper_circuit :: "price option"
  tk_lower_circuit :: "price option"
  tk_total_buy_qty :: "int option"
  tk_total_sell_qty :: "int option"
  tk_open_interest :: "int option"
  tk_week_52_high :: "price option"
  tk_week_52_low :: "price option"
  tk_depth :: "market_depth option"
  tk_timestamp :: datetime
  tk_source :: string
  tk_latency_ms :: rat

definition isin_ok :: "string \<Rightarrow> bool" where
  "isin_ok s \<longleftrightarrow> length s = 12 \<and> take 3 s = ''INE'' \<and>
     list_all (\<lambda>c. (CHR ''A'' \<le> c \<and> c \<le> CHR ''Z'') \<or> (CHR ''0'' \<le> c \<and> c \<le> CHR ''9'')) (drop 3 s)"

definition opt_ge0 :: "'a::{zero, ord} option \<Rightarrow> bool" where
  "opt_ge0 x \<longleftrightarrow> (case x of None \<Rightarrow> True | Some v \<Rightarrow> 0 \<le> v)"

definition tick_ok :: "tick \<Rightarrow> bool" where
  "tick_ok t \<longleftrightarrow>
     1 \<le> length (tk_symbol t) \<and> length (tk_symbol t) \<le> 30 \<and>
     (case tk_isin t of None \<Rightarrow> True | Some s \<Rightarrow> isin_ok s) \<and>
     (tk_exchange t = ''NSE'' \<or> tk_exchange t = ''BSE'') \<and>
     0 \<le> tk_ltp t \<and> 0 \<le> tk_open t \<and> 0 \<le> tk_high t \<and> 0 \<le> tk_low t \<and> 0 \<le> tk_close t \<and>
     0 \<le> tk_volume t \<and> opt_ge0 (tk_value t) \<and> opt_ge0 (tk_vwap t) \<and>
     opt_ge0 (tk_upper_circuit t) \<and> opt_ge0 (tk_lower_circuit t) \<and>
     opt_ge0 (tk_total_buy_qty t) \<and> opt_ge0 (tk_total_sell_qty t) \<and> opt_ge0 (tk_open_interest t) \<and>
     opt_ge0 (tk_week_52_high t) \<and> opt_ge0 (tk_week_52_low t) \<and>
     (case tk_depth t of None \<Rightarrow> True | Some d \<Rightarrow> depth_ok d) \<and> 0 \<le> tk_latency_ms t"

definition normalize_symbol :: "string \<Rightarrow> string" where
  "normalize_symbol v = upper (strip v)"

text \<open>
  The \<^verbatim>\<open>change\<close> argument may be absent (the default 0, which the validator does not see),
  \<^verbatim>\<open>None\<close> (computed) or a value. \<open>raw\<close> carries the other arguments; its \<open>tk_change\<close> is not read.
\<close>

definition compute_change :: "tick \<Rightarrow> price option option \<Rightarrow> price" where
  "compute_change t v = (case v of None \<Rightarrow> 0 | Some (Some x) \<Rightarrow> x | Some None \<Rightarrow> tk_ltp t - tk_close t)"

definition make_tick :: "tick \<Rightarrow> price option option \<Rightarrow> tick option" where
  "make_tick raw change =
     (let t = raw\<lparr>tk_symbol := normalize_symbol (tk_symbol raw), tk_change := compute_change raw change\<rparr>
      in if tick_ok t then Some t else None)"

record compact_tick =
  ct_symbol :: string
  ct_exchange :: string
  ct_ltp :: price
  ct_volume :: int
  ct_timestamp :: datetime
  ct_source :: string

section \<open>Depth analytics\<close>

definition weighted_avg :: "depth_level list \<Rightarrow> price option" where
  "weighted_avg levels =
     (if levels = [] then None
      else let total = sum_list (map lv_quantity levels)
           in if total = 0 then None
              else Some (sum_list (map (\<lambda>l. lv_price l * of_int (lv_quantity l)) levels) / of_int total))"

record full_depth =
  fd_symbol :: string
  fd_exchange :: string
  fd_depth :: market_depth
  fd_timestamp :: datetime
  fd_spread :: "price option"
  fd_spread_pct :: "rat option"
  fd_mid_price :: "price option"
  fd_imbalance_ratio :: rat
  fd_weighted_bid :: "price option"
  fd_weighted_ask :: "price option"

definition from_market_depth :: "string \<Rightarrow> string \<Rightarrow> market_depth \<Rightarrow> datetime \<Rightarrow> full_depth" where
  "from_market_depth symbol exchange depth ts =
     (let spr = spread depth;
          mid = (case (md_buy depth, md_sell depth) of
                   (b # _, s # _) \<Rightarrow> Some ((lv_price b + lv_price s) / 2) | _ \<Rightarrow> None);
          pct = (case (mid, spr) of
                   (Some m, Some x) \<Rightarrow> if m > 0 then Some (x / m * 100) else None | _ \<Rightarrow> None)
      in \<lparr>fd_symbol = symbol, fd_exchange = exchange, fd_depth = depth, fd_timestamp = ts,
          fd_spread = spr, fd_spread_pct = pct, fd_mid_price = mid,
          fd_imbalance_ratio = imbalance_ratio depth,
          fd_weighted_bid = weighted_avg (md_buy depth), fd_weighted_ask = weighted_avg (md_sell depth)\<rparr>)"

section \<open>Candles\<close>

record candle =
  cd_timestamp :: datetime
  cd_symbol :: string
  cd_exchange :: string
  cd_open :: price
  cd_high :: price
  cd_low :: price
  cd_close :: price
  cd_volume :: int
  cd_value :: "price option"
  cd_vwap :: "price option"

definition candle_ok :: "candle \<Rightarrow> bool" where
  "candle_ok c \<longleftrightarrow> (cd_exchange c = ''NSE'' \<or> cd_exchange c = ''BSE'') \<and> 0 \<le> cd_open c \<and> 0 \<le> cd_high c \<and>
     0 \<le> cd_low c \<and> 0 \<le> cd_close c \<and> 0 \<le> cd_volume c \<and> opt_ge0 (cd_value c) \<and> opt_ge0 (cd_vwap c)"

definition body_size :: "candle \<Rightarrow> price" where
  "body_size c = \<bar>cd_close c - cd_open c\<bar>"

definition range_size :: "candle \<Rightarrow> price" where
  "range_size c = cd_high c - cd_low c"

definition is_bullish :: "candle \<Rightarrow> bool" where
  "is_bullish c \<longleftrightarrow> cd_close c \<ge> cd_open c"

record eod_data =
  eod_date :: string
  eod_symbol :: string
  eod_exchange :: string
  eod_open :: price
  eod_high :: price
  eod_low :: price
  eod_close :: price
  eod_vwap :: "price option"
  eod_volume :: int
  eod_value :: "price option"
  eod_delivery_qty :: "int option"
  eod_delivery_pct :: "rat option"
  eod_trades :: "int option"

definition iso_shape :: "string \<Rightarrow> bool" where
  "iso_shape s \<longleftrightarrow> length s = 10 \<and> s ! 4 = CHR ''-'' \<and> s ! 7 = CHR ''-'' \<and>
     list_all (\<lambda>i. is_digit (s ! i)) [0, 1, 2, 3, 5, 6, 8, 9]"

definition eod_ok :: "eod_data \<Rightarrow> bool" where
  "eod_ok e \<longleftrightarrow> iso_shape (eod_date e) \<and> (eod_exchange e = ''NSE'' \<or> eod_exchange e = ''BSE'') \<and>
     0 \<le> eod_open e \<and> 0 \<le> eod_high e \<and> 0 \<le> eod_low e \<and> 0 \<le> eod_close e \<and> opt_ge0 (eod_vwap e) \<and>
     0 \<le> eod_volume e \<and> opt_ge0 (eod_value e) \<and> opt_ge0 (eod_delivery_qty e) \<and>
     (case eod_delivery_pct e of None \<Rightarrow> True | Some p \<Rightarrow> 0 \<le> p \<and> p \<le> 100) \<and> opt_ge0 (eod_trades e)"

datatype interval = I1m | I5m | I15m | I30m | I1h | I4h | I1d | I1w | I1mo

fun timescale_bucket :: "interval \<Rightarrow> string" where
  "timescale_bucket I1m = ''1 minute''"
| "timescale_bucket I5m = ''5 minutes''"
| "timescale_bucket I15m = ''15 minutes''"
| "timescale_bucket I30m = ''30 minutes''"
| "timescale_bucket I1h = ''1 hour''"
| "timescale_bucket I4h = ''4 hours''"
| "timescale_bucket I1d = ''1 day''"
| "timescale_bucket I1w = ''1 week''"
| "timescale_bucket I1mo = ''1 month''"

section \<open>Lemmas\<close>

lemma normalize_symbol_upper: "upper (normalize_symbol s) = normalize_symbol s"
  by (simp add: normalize_symbol_def)

lemma is_space_upper_char [simp]: "is_space (upper_char c) = is_space c"
proof -
  have low: "CHR ''a'' \<le> c \<and> c \<le> CHR ''z'' \<longleftrightarrow> 97 \<le> (of_char c :: nat) \<and> (of_char c :: nat) \<le> 122"
    by (simp add: less_eq_char_def)
  have "(of_char c :: nat) < 256" by simp
  then show ?thesis unfolding upper_char_def is_space_def low by (auto simp: Let_def)
qed

lemma dropWhile_upper: "dropWhile is_space (upper s) = upper (dropWhile is_space s)"
  by (induction s) (simp_all add: upper_def)

lemma rev_upper: "rev (upper s) = upper (rev s)"
  by (simp add: upper_def rev_map)

lemma strip_upper: "strip (upper s) = upper (strip s)"
  by (simp add: strip_def dropWhile_upper rev_upper)

lemma normalize_symbol_idem [simp]: "normalize_symbol (normalize_symbol s) = normalize_symbol s"
  by (simp add: normalize_symbol_def strip_upper)

lemma make_tick_ok: "make_tick raw ch = Some t \<Longrightarrow> tick_ok t \<and> normalize_symbol (tk_symbol t) = tk_symbol t"
  by (auto simp: make_tick_def Let_def split: if_splits)

lemma make_tick_stable: "make_tick raw ch = Some t \<Longrightarrow> make_tick t (Some (Some (tk_change t))) = Some t"
proof -
  assume t: "make_tick raw ch = Some t"
  from make_tick_ok[OF t] have "t\<lparr>tk_symbol := normalize_symbol (tk_symbol t), tk_change := tk_change t\<rparr> = t"
    by simp
  with make_tick_ok[OF t] show ?thesis by (simp only: make_tick_def Let_def compute_change_def option.case if_True)
qed

lemma quotient_in_unit:
  fixes a b :: int
  assumes "0 \<le> a" "0 \<le> b" "a + b \<noteq> 0"
  shows "\<bar>of_int (a - b) / of_int (a + b)\<bar> \<le> (1::rat)"
proof -
  have "0 < a + b" using assms by linarith
  then have "(0::rat) < of_int (a + b)" by (simp only: of_int_0_less_iff)
  moreover have "\<bar>of_int (a - b)\<bar> \<le> (of_int (a + b) :: rat)"
    using assms by (simp add: abs_le_iff)
  ultimately show ?thesis by (simp add: abs_divide)
qed

lemma py_round_unit: "\<bar>x\<bar> \<le> 1 \<Longrightarrow> \<bar>py_round n x\<bar> \<le> 1"
proof -
  assume x: "\<bar>x\<bar> \<le> 1"
  have one: "py_round n 1 = 1" "py_round n (- 1) = - 1"
    using round_half_even_int[of "10 ^ n"] round_half_even_int[of "- (10 ^ n)"]
    by (simp_all add: py_round_def)
  from x py_round_mono[of x 1 n] py_round_mono[of "- 1" x n] one show ?thesis
    by (simp add: abs_le_iff)
qed

lemma imbalance_unit: "0 \<le> md_total_buy d \<Longrightarrow> 0 \<le> md_total_sell d \<Longrightarrow> \<bar>imbalance_ratio d\<bar> \<le> 1"
  using quotient_in_unit[of "md_total_buy d" "md_total_sell d"]
  by (auto simp: imbalance_ratio_def Let_def intro: py_round_unit)

lemma weighted_sum_bounds:
  assumes "list_all level_ok ls" "\<And>l. l \<in> set ls \<Longrightarrow> lo \<le> lv_price l \<and> lv_price l \<le> hi"
  shows "lo * of_int (sum_list (map lv_quantity ls)) \<le> sum_list (map (\<lambda>l. lv_price l * of_int (lv_quantity l)) ls) \<and>
    sum_list (map (\<lambda>l. lv_price l * of_int (lv_quantity l)) ls) \<le> hi * of_int (sum_list (map lv_quantity ls))"
  using assms
proof (induction ls)
  case (Cons l ls)
  from Cons.prems have "(0::rat) \<le> of_int (lv_quantity l)" "lo \<le> lv_price l" "lv_price l \<le> hi"
    by (simp_all add: level_ok_def)
  then have "lo * of_int (lv_quantity l) \<le> lv_price l * of_int (lv_quantity l)"
    "lv_price l * of_int (lv_quantity l) \<le> hi * of_int (lv_quantity l)"
    by (simp_all add: mult_right_mono)
  with Cons show ?case by (simp add: distrib_left add_mono)
qed simp

lemma quantity_sum_nonneg: "list_all level_ok ls \<Longrightarrow> 0 \<le> sum_list (map lv_quantity ls)"
  by (induction ls) (auto simp: level_ok_def)

lemma weighted_avg_between:
  assumes "weighted_avg ls = Some w" "list_all level_ok ls"
    and "\<And>l. l \<in> set ls \<Longrightarrow> lo \<le> lv_price l \<and> lv_price l \<le> hi"
  shows "lo \<le> w \<and> w \<le> hi"
proof -
  let ?q = "sum_list (map lv_quantity ls)"
  let ?s = "sum_list (map (\<lambda>l. lv_price l * of_int (lv_quantity l)) ls)"
  from assms(1) have w: "?q \<noteq> 0" "w = ?s / of_int ?q"
    by (auto simp: weighted_avg_def Let_def split: if_splits)
  with quantity_sum_nonneg[OF assms(2)] have "0 < ?q" by linarith
  then have pos: "(0::rat) < of_int ?q" by (simp only: of_int_0_less_iff)
  from weighted_sum_bounds[OF assms(2,3)] have "lo * of_int ?q \<le> ?s" "?s \<le> hi * of_int ?q" by blast+
  with pos show ?thesis by (simp only: w(2) pos_le_divide_eq pos_divide_le_eq)
qed

lemma candle_sizes:
  assumes "cd_low c \<le> cd_open c" "cd_open c \<le> cd_high c" "cd_low c \<le> cd_close c" "cd_close c \<le> cd_high c"
  shows "0 \<le> body_size c \<and> body_size c \<le> range_size c"
  using assms by (auto simp: body_size_def range_size_def)

lemma timescale_bucket_inj: "inj timescale_bucket"
proof (rule injI)
  fix i j assume "timescale_bucket i = timescale_bucket j"
  then show "i = j" by (cases i; cases j) simp_all
qed

text \<open>The order-book analytics of a valid depth: the imbalance is within one, and each weighted
  average lies between the lowest and the highest price of its side.\<close>
theorem depth_analytics_bounds:
  assumes "depth_ok d"
    and "\<And>l. l \<in> set (md_buy d) \<union> set (md_sell d) \<Longrightarrow> lo \<le> lv_price l \<and> lv_price l \<le> hi"
  shows "\<bar>fd_imbalance_ratio (from_market_depth s x d ts)\<bar> \<le> 1 \<and>
    (case fd_weighted_bid (from_market_depth s x d ts) of None \<Rightarrow> True | Some w \<Rightarrow> lo \<le> w \<and> w \<le> hi) \<and>
    (case fd_weighted_ask (from_market_depth s x d ts) of None \<Rightarrow> True | Some w \<Rightarrow> lo \<le> w \<and> w \<le> hi)"
proof -
  from assms(1) have ok: "list_all level_ok (md_buy d)" "list_all level_ok (md_sell d)"
    "0 \<le> md_total_buy d" "0 \<le> md_total_sell d"
    by (simp_all add: depth_ok_def)
  have "lo \<le> w \<and> w \<le> hi" if "weighted_avg (md_buy d) = Some w \<or> weighted_avg (md_sell d) = Some w" for w
    using that weighted_avg_between[OF _ ok(1), of w lo hi] weighted_avg_between[OF _ ok(2), of w lo hi]
      assms(2) by blast
  with imbalance_unit[OF ok(3,4)] show ?thesis
    by (auto simp: from_market_depth_def Let_def split: option.splits)
qed

definition demo_depth :: market_depth where
  "demo_depth = \<lparr>md_buy = [\<lparr>lv_price = 100, lv_quantity = 30, lv_orders = 2\<rparr>, \<lparr>lv_price = 99, lv_quantity = 10, lv_orders = 1\<rparr>],
     md_sell = [\<lparr>lv_price = 101, lv_quantity = 5, lv_orders = 1\<rparr>], md_total_buy = 40, md_total_sell = 5\<rparr>"

theorem depth_analytics_bounds_witness:
  "\<bar>fd_imbalance_ratio (from_market_depth ''X'' ''NSE'' demo_depth (ist_at (mk_date 2025 1 1) 0))\<bar> \<le> 1 \<and>
   weighted_avg (md_buy demo_depth) = Some (3990 / 40)"
proof -
  have "depth_ok demo_depth" by (simp add: demo_depth_def depth_ok_def level_ok_def)
  moreover have "99 \<le> lv_price l \<and> lv_price l \<le> 101"
    if "l \<in> set (md_buy demo_depth) \<union> set (md_sell demo_depth)" for l
    using that by (auto simp: demo_depth_def)
  ultimately show ?thesis
    using depth_analytics_bounds[of demo_depth 99 101 "''X''" "''NSE''" "ist_at (mk_date 2025 1 1) 0"]
    by (simp add: demo_depth_def weighted_avg_def)
qed

end
