(* ===== verification/Failover.thy ===== *)
theory Failover
  imports Providers CircuitBreaker Models "HOL-Library.Product_Lexorder" "HOL-Library.List_Lexorder"
begin

text \<open>
  \<^verbatim>\<open>src/engine/failover.py\<close>: the failover controller. Its three fields are the record
  \<open>controller\<close>; \<open>fetch_quote\<close> is the cascade over the providers in priority order.
  Everything a provider does while it is tried once (its connect result, the outcome of
  the awaited fetch, the clock readings around them) is an \<open>attempt\<close>, supplied by the
  environment as a function of the provider's name: a cascade tries each provider at
  most once. The cascade runs without interference from other coroutines; interleaving
  at one breaker is the subject of the circuit-breaker theory. The contract of \<open>fetch_quote\<close> is stated over its
  inputs (\<open>candidate\<close>, \<open>lets_through\<close>, \<open>reached\<close>, \<open>first_answer\<close>, \<open>breaker_after\<close>), not over the loop.
\<close>

section \<open>Controller state\<close>

record controller =
  providers :: "provider list"
  breakers :: "string \<rightharpoonup> breaker"
  enabled :: "string \<rightharpoonup> bool"

definition new_controller :: controller where
  "new_controller = \<lparr>providers = [], breakers = Map.empty, enabled = Map.empty\<rparr>"

definition provider_rank :: "provider \<Rightarrow> int" where
  "provider_rank p = (if p_priority p = 0 then p_tier p * 10 else p_priority p)"

definition provider_key :: "provider \<Rightarrow> int \<times> string" where
  "provider_key p = (provider_rank p, p_name p)"

definition register_provider :: "cb_settings \<Rightarrow> provider \<Rightarrow> controller \<Rightarrow> controller" where
  "register_provider cfg p c =
     c\<lparr>providers := sort_key provider_key (providers c @ [p]),
       breakers := (breakers c)(p_name p \<mapsto> new_breaker cfg (p_name p) None None None),
       enabled := (case enabled c (p_name p) of None \<Rightarrow> (enabled c)(p_name p \<mapsto> True) | Some _ \<Rightarrow> enabled c)\<rparr>"

definition is_enabled :: "string \<Rightarrow> controller \<Rightarrow> bool" where
  "is_enabled n c = (case enabled c n of None \<Rightarrow> True | Some v \<Rightarrow> v)"

definition selected :: "string \<Rightarrow> provider \<Rightarrow> bool" where
  "selected n p \<longleftrightarrow> p_name p = n \<or> source_match p n"

definition set_enabled :: "string \<Rightarrow> bool \<Rightarrow> controller \<Rightarrow> bool \<times> controller" where
  "set_enabled n v c =
     (let hits = filter (selected n) (providers c)
      in (hits \<noteq> [], c\<lparr>enabled := foldl (\<lambda>e p. e(p_name p \<mapsto> v)) (enabled c) hits\<rparr>))"

section \<open>The cascade\<close>

record query =
  q_source :: "string option"
  q_exclude_delayed :: bool
  q_exchange :: "string option"

definition truthy :: "string option \<Rightarrow> bool" where
  "truthy s \<longleftrightarrow> (case s of None \<Rightarrow> False | Some t \<Rightarrow> t \<noteq> [])"

definition forced :: "query \<Rightarrow> bool" where
  "forced q \<longleftrightarrow> truthy (q_source q) \<and> q_source q \<noteq> Some ''auto''"

datatype call_exn = ProviderError string | OtherError string

record 'q attempt =
  at_check :: secs
  at_connect :: "string option"
  at_connect_fail :: secs
  at_begin :: secs
  at_begin2 :: secs
  at_end :: secs
  at_outcome :: "('q, call_exn) outcome"
  at_fail2 :: secs
  at_connected :: bool
  at_metrics :: "rat option list"

definition set_breaker :: "string \<Rightarrow> breaker \<Rightarrow> controller \<Rightarrow> controller" where
  "set_breaker n b c = c\<lparr>breakers := (breakers c)(n \<mapsto> b)\<rparr>"

text \<open>What trying provider \<open>n\<close> leaves on its object: the connection flag and the request
  metrics that the provider's own code recorded.\<close>

definition record_metric :: "provider \<Rightarrow> rat option \<Rightarrow> provider" where
  "record_metric p e = (case e of Some ms \<Rightarrow> metric_success ms p | None \<Rightarrow> metric_error p)"

definition touch_provider :: "string \<Rightarrow> 'q attempt \<Rightarrow> controller \<Rightarrow> controller" where
  "touch_provider n a c =
     c\<lparr>providers := map (\<lambda>p. if p_name p = n
        then foldl record_metric p (at_metrics a)\<lparr>p_connected := at_connected a\<rparr> else p) (providers c)\<rparr>"

text \<open>The \<^verbatim>\<open>continue\<close> guards before the breaker is asked.\<close>

definition admissible :: "query \<Rightarrow> controller \<Rightarrow> provider \<Rightarrow> bool" where
  "admissible q c p \<longleftrightarrow>
     is_enabled (p_name p) c \<and>
     \<not> (truthy (q_exchange q) \<and> Some (p_exchange p) \<noteq> q_exchange q) \<and>
     \<not> (forced q \<and> \<not> source_match p (the (q_source q))) \<and>
     \<not> (q_exclude_delayed q \<and> p_delayed p \<and> \<not> forced q)"

datatype 'q visit = Skipped | Failed string | Got 'q | Aborted | MissingBreaker

text \<open>One iteration of the loop body.\<close>

definition visit_provider :: "query \<Rightarrow> 'q attempt \<Rightarrow> provider \<Rightarrow> controller \<Rightarrow> 'q visit \<times> controller" where
  "visit_provider q a p c =
     (case breakers c (p_name p) of
        None \<Rightarrow> (MissingBreaker, c)
      | Some b \<Rightarrow>
          if \<not> admissible q c p then (Skipped, c)
          else
            (let (ok, b1) = can_execute (at_check a) b; c1 = set_breaker (p_name p) b1 c
             in if \<not> ok then (Skipped, c1)
                else if \<not> p_connected p \<and> at_connect a \<noteq> None
                then (Skipped, set_breaker (p_name p) (record_failure (at_connect_fail a) b1) c1)
                else
                  (let c2 = touch_provider (p_name p) a c1;
                       (r, b2) = execute (at_begin a) (at_begin2 a) (at_end a) (at_outcome a) b1;
                       c3 = set_breaker (p_name p) b2 c2
                   in case r of
                        Inr t \<Rightarrow> (Got t, c3)
                      | Inl (CircuitOpenError _) \<Rightarrow> (Skipped, c3)
                      | Inl (CallError (ProviderError e)) \<Rightarrow> (Failed (p_name p @ '': '' @ e), c3)
                      | Inl (CallError (OtherError e)) \<Rightarrow>
                          (Failed (p_name p @ '': '' @ e),
                           set_breaker (p_name p) (record_failure (at_fail2 a) b2) c3)
                      | Inl CallCancelled \<Rightarrow> (Aborted, c3))))"

datatype fetch_error = AllProvidersFailed "string list" | FetchCancelled | BreakerKeyError string

fun cascade :: "query \<Rightarrow> (string \<Rightarrow> 'q attempt) \<Rightarrow> provider list \<Rightarrow> string list \<Rightarrow> controller \<Rightarrow>
    (fetch_error + 'q) \<times> controller" where
  "cascade q env [] errs c = (Inl (AllProvidersFailed errs), c)"
| "cascade q env (p # ps) errs c =
     (case visit_provider q (env (p_name p)) p c of
        (Got t, c') \<Rightarrow> (Inr t, c')
      | (Skipped, c') \<Rightarrow> cascade q env ps errs c'
      | (Failed e, c') \<Rightarrow> cascade q env ps (errs @ [e]) c'
      | (Aborted, c') \<Rightarrow> (Inl FetchCancelled, c')
      | (MissingBreaker, c') \<Rightarrow> (Inl (BreakerKeyError (p_name p)), c'))"

definition fetch_quote :: "query \<Rightarrow> (string \<Rightarrow> 'q attempt) \<Rightarrow> controller \<Rightarrow> (fetch_error + 'q) \<times> controller" where
  "fetch_quote q env c = cascade q env (providers c) [] c"

definition any_query :: query where
  "any_query = \<lparr>q_source = None, q_exclude_delayed = False, q_exchange = None\<rparr>"

section \<open>Bulk fetch\<close>

text \<open>
  Per-symbol fallbacks thread the controller; a cancellation stops them. \<open>envs\<close> gives the
  environment of the cascade for each symbol.
\<close>

fun fetch_each :: "(string \<Rightarrow> string \<Rightarrow> 'q attempt) \<Rightarrow> string list \<Rightarrow> 'q list \<Rightarrow> controller \<Rightarrow>
    (fetch_error + 'q list) \<times> controller" where
  "fetch_each envs [] acc c = (Inr acc, c)"
| "fetch_each envs (s # ss) acc c =
     (case fetch_quote any_query (envs s) c of
        (Inr t, c') \<Rightarrow> fetch_each envs ss (acc @ [t]) c'
      | (Inl (AllProvidersFailed _), c') \<Rightarrow> fetch_each envs ss acc c'
      | (Inl e, c') \<Rightarrow> (Inl e, c'))"

fun bulk_loop :: "('q \<Rightarrow> string) \<Rightarrow> (string \<Rightarrow> 'q list attempt) \<Rightarrow> (string \<Rightarrow> string \<Rightarrow> 'q attempt) \<Rightarrow>
    string list \<Rightarrow> provider list \<Rightarrow> controller \<Rightarrow> (fetch_error + 'q list) \<times> controller" where
  "bulk_loop tsym benv envs symbols [] c = fetch_each envs symbols [] c"
| "bulk_loop tsym benv envs symbols (p # ps) c =
     (case breakers c (p_name p) of
        None \<Rightarrow> (Inl (BreakerKeyError (p_name p)), c)
      | Some b \<Rightarrow>
          (let a = benv (p_name p); (ok, b1) = can_execute (at_check a) b;
               c1 = set_breaker (p_name p) b1 c
           in if \<not> ok \<or> \<not> p_connected p then bulk_loop tsym benv envs symbols ps c1
              else
                (let (r, b2) = execute (at_begin a) (at_begin2 a) (at_end a) (at_outcome a) b1;
                     c2 = set_breaker (p_name p) b2 (touch_provider (p_name p) a c1)
                 in case r of
                      Inr ticks \<Rightarrow>
                        if ticks = [] then bulk_loop tsym benv envs symbols ps c2
                        else fetch_each envs (filter (\<lambda>s. s \<notin> set (map tsym ticks)) symbols) ticks c2
                    | Inl CallCancelled \<Rightarrow> (Inl FetchCancelled, c2)
                    | Inl _ \<Rightarrow> bulk_loop tsym benv envs symbols ps c2)))"

definition fetch_bulk :: "('q \<Rightarrow> string) \<Rightarrow> (string \<Rightarrow> 'q list attempt) \<Rightarrow> (string \<Rightarrow> string \<Rightarrow> 'q attempt) \<Rightarrow>
    string list \<Rightarrow> controller \<Rightarrow> (fetch_error + 'q list) \<times> controller" where
  "fetch_bulk tsym benv envs symbols c = bulk_loop tsym benv envs symbols (providers c) c"

section \<open>Status and lifecycle\<close>

text \<open>\<^verbatim>\<open>connect_all\<close> / \<^verbatim>\<open>disconnect_all\<close>: \<open>res n\<close> is the error text of provider \<open>n\<close>, if any;
  a failing provider keeps its flag.\<close>

definition connect_all :: "(string \<Rightarrow> string option) \<Rightarrow> controller \<Rightarrow> controller" where
  "connect_all res c = c\<lparr>providers := map (\<lambda>p. if res (p_name p) = None then p\<lparr>p_connected := True\<rparr> else p) (providers c)\<rparr>"

definition disconnect_all :: "(string \<Rightarrow> string option) \<Rightarrow> controller \<Rightarrow> controller" where
  "disconnect_all res c = c\<lparr>providers := map (\<lambda>p. if res (p_name p) = None then p\<lparr>p_connected := False\<rparr> else p) (providers c)\<rparr>"

record provider_status =
  ps_name :: string
  ps_exchange :: string
  ps_tier :: int
  ps_priority :: int
  ps_enabled :: bool
  ps_circuit_state :: circuit_state
  ps_avg_latency_ms :: rat
  ps_error_rate :: rat
  ps_connected :: bool

fun list_status_loop :: "secs \<Rightarrow> provider list \<Rightarrow> controller \<Rightarrow> (string + provider_status list) \<times> controller" where
  "list_status_loop now [] c = (Inr [], c)"
| "list_status_loop now (p # ps) c =
     (case breakers c (p_name p) of
        None \<Rightarrow> (Inl (p_name p), c)
      | Some b \<Rightarrow>
          (let b' = poll_state now b; c' = set_breaker (p_name p) b' c;
               s = \<lparr>ps_name = p_name p, ps_exchange = p_exchange p, ps_tier = p_tier p,
                    ps_priority = provider_rank p, ps_enabled = is_enabled (p_name p) c,
                    ps_circuit_state = cstate b', ps_avg_latency_ms = py_round 1 (avg_latency_ms p),
                    ps_error_rate = py_round 1 (error_rate p * 100), ps_connected = p_connected p\<rparr>
           in case list_status_loop now ps c' of (Inl e, c2) \<Rightarrow> (Inl e, c2) | (Inr ss, c2) \<Rightarrow> (Inr (s # ss), c2)))"

definition list_status :: "secs \<Rightarrow> controller \<Rightarrow> (string + provider_status list) \<times> controller" where
  "list_status now c = list_status_loop now (providers c) c"

text \<open>\<^verbatim>\<open>health_check_all\<close>: the probe of each provider answers, or raises.\<close>

datatype health = Healthy bool | HealthRaised string

record health_status =
  hs_tier :: int
  hs_status :: string
  hs_circuit_state :: circuit_state
  hs_metrics :: "(rat \<times> rat) option"
  hs_error :: "string option"

definition health_entry :: "secs \<Rightarrow> health \<Rightarrow> provider \<Rightarrow> breaker \<Rightarrow> health_status" where
  "health_entry now h p b =
     (case h of
        Healthy v \<Rightarrow> \<lparr>hs_tier = p_tier p, hs_status = (if v then ''HEALTHY'' else ''DOWN''),
          hs_circuit_state = cstate (poll_state now b),
          hs_metrics = Some (py_round 1 (avg_latency_ms p), py_round 1 (error_rate p * 100)), hs_error = None\<rparr>
      | HealthRaised e \<Rightarrow> \<lparr>hs_tier = p_tier p, hs_status = ''DOWN'',
          hs_circuit_state = cstate (poll_state now b), hs_metrics = None, hs_error = Some e\<rparr>)"

fun health_loop :: "(string \<Rightarrow> secs \<times> health) \<Rightarrow> provider list \<Rightarrow> (string \<times> health_status) list \<Rightarrow> controller \<Rightarrow>
    (string + (string \<times> health_status) list) \<times> controller" where
  "health_loop env [] acc c = (Inr acc, c)"
| "health_loop env (p # ps) acc c =
     (case breakers c (p_name p) of
        None \<Rightarrow> (Inl (p_name p), c)
      | Some b \<Rightarrow>
          (let (now, h) = env (p_name p)
           in health_loop env ps (dput (p_name p) (health_entry now h p b) acc)
                (set_breaker (p_name p) (poll_state now b) c)))"

definition health_check_all :: "(string \<Rightarrow> secs \<times> health) \<Rightarrow> controller \<Rightarrow>
    (string + (string \<times> health_status) list) \<times> controller" where
  "health_check_all env c = health_loop env (providers c) [] c"

text \<open>\<^verbatim>\<open>test_provider\<close> bypasses the gates: each target is tried directly.\<close>

datatype 'q test_outcome = TestOk 'q | TestError string

record 'q test_row =
  tr_name :: string
  tr_delayed :: bool
  tr_latency_ms :: rat
  tr_outcome :: "'q test_outcome"

definition test_one :: "'q attempt \<Rightarrow> provider \<Rightarrow> 'q test_row option" where
  "test_one a p =
     (let row = (\<lambda>oc. Some \<lparr>tr_name = p_name p, tr_delayed = p_delayed p,
        tr_latency_ms = py_round 1 ((at_end a - at_begin a) * 1000), tr_outcome = oc\<rparr>)
      in case (if p_connected p then None else at_connect a) of
           Some e \<Rightarrow> row (TestError (take 140 e))
         | None \<Rightarrow> (case at_outcome a of
               Returned t \<Rightarrow> row (TestOk t)
             | Raised (ProviderError e) \<Rightarrow> row (TestError (take 140 e))
             | Raised (OtherError e) \<Rightarrow> row (TestError (take 140 e))
             | Cancelled \<Rightarrow> None))"

fun test_loop :: "(string \<Rightarrow> 'q attempt) \<Rightarrow> provider list \<Rightarrow> 'q test_row list \<Rightarrow> controller \<Rightarrow>
    'q test_row list option \<times> controller" where
  "test_loop env [] acc c = (Some acc, c)"
| "test_loop env (p # ps) acc c =
     (let a = env (p_name p); c' = touch_provider (p_name p) a c
      in case test_one a p of None \<Rightarrow> (None, c') | Some r \<Rightarrow> test_loop env ps (acc @ [r]) c')"

definition row_ok :: "'q test_row \<Rightarrow> bool" where
  "row_ok r \<longleftrightarrow> (case tr_outcome r of TestOk _ \<Rightarrow> True | TestError _ \<Rightarrow> False)"

datatype 'q test_report = NoSuchSource | TestCancelled | TestReport bool "'q test_row list"

definition test_provider :: "string \<Rightarrow> (string \<Rightarrow> 'q attempt) \<Rightarrow> controller \<Rightarrow>
    'q test_report \<times> controller" where
  "test_provider n env c =
     (let targets = filter (selected n) (providers c)
      in if targets = [] then (NoSuchSource, c)
         else case test_loop env targets [] c of
                (None, c') \<Rightarrow> (TestCancelled, c')
              | (Some rows, c') \<Rightarrow> (TestReport (list_ex row_ok rows) rows, c'))"

section \<open>Invariant\<close>

definition ctl_inv :: "controller \<Rightarrow> bool" where
  "ctl_inv c \<longleftrightarrow> sorted (map provider_key (providers c)) \<and>
     (\<forall>p\<in>set (providers c). \<exists>b. breakers c (p_name p) = Some b) \<and>
     (\<forall>n b. breakers c n = Some b \<longrightarrow> cb_inv b)"

definition cfg_ok :: "cb_settings \<Rightarrow> bool" where
  "cfg_ok cfg \<longleftrightarrow> 0 < cb_failure_threshold cfg \<and> 0 < cb_half_open_max_calls cfg \<and>
     0 \<le> cb_recovery_timeout_seconds cfg"

lemma foldl_record_metric_frame [simp]:
  "p_name (foldl record_metric p es) = p_name p"
  "p_tier (foldl record_metric p es) = p_tier p"
  "p_priority (foldl record_metric p es) = p_priority p"
  "p_delayed (foldl record_metric p es) = p_delayed p"
  "p_exchange (foldl record_metric p es) = p_exchange p"
  by (induction es arbitrary: p)
    (simp_all add: record_metric_def metric_success_def metric_error_def split: option.splits)

lemma set_breaker_sel [simp]:
  "providers (set_breaker n b c) = providers c" "enabled (set_breaker n b c) = enabled c"
  "breakers (set_breaker n b c) = (breakers c)(n \<mapsto> b)"
  by (simp_all add: set_breaker_def)

lemma touch_provider_sel [simp]:
  "breakers (touch_provider n a c) = breakers c" "enabled (touch_provider n a c) = enabled c"
  by (simp_all add: touch_provider_def)

lemma touch_provider_keys [simp]:
  "map p_name (providers (touch_provider n a c)) = map p_name (providers c)"
  "map provider_key (providers (touch_provider n a c)) = map provider_key (providers c)"
  by (auto simp: touch_provider_def provider_key_def provider_rank_def)

lemma ctl_inv_names:
  "ctl_inv c \<longleftrightarrow> sorted (map provider_key (providers c)) \<and>
     set (map p_name (providers c)) \<subseteq> dom (breakers c) \<and> (\<forall>b\<in>ran (breakers c). cb_inv b)"
  by (auto simp: ctl_inv_def ran_def dom_def)

lemma ctl_inv_new [simp]: "ctl_inv new_controller"
  by (simp add: ctl_inv_def new_controller_def)

lemma ctl_inv_set_breaker [intro]: "ctl_inv c \<Longrightarrow> cb_inv b \<Longrightarrow> ctl_inv (set_breaker n b c)"
  by (auto simp: ctl_inv_def)

lemma ctl_inv_touch [intro]: "ctl_inv c \<Longrightarrow> ctl_inv (touch_provider n a c)"
  unfolding ctl_inv_names touch_provider_keys touch_provider_sel by simp

lemma ctl_inv_register:
  assumes "cfg_ok cfg" "ctl_inv c" shows "ctl_inv (register_provider cfg p c)"
proof -
  have "cb_inv (new_breaker cfg (p_name p) None None None)"
    using assms(1) by (auto simp: cfg_ok_def intro: new_breaker_inv)
  with assms(2) show ?thesis
    by (auto simp: ctl_inv_def register_provider_def)
qed

lemma ctl_inv_enabled [simp]: "ctl_inv (c\<lparr>enabled := e\<rparr>) = ctl_inv c"
  by (simp add: ctl_inv_def)

lemma ctl_inv_breaker: "ctl_inv c \<Longrightarrow> breakers c n = Some b \<Longrightarrow> cb_inv b"
  by (auto simp: ctl_inv_def)

lemma visit_eq:
  assumes "breakers c (p_name p) = Some b" "can_execute (at_check a) b = (ok, b1)"
    and "execute (at_begin a) (at_begin2 a) (at_end a) (at_outcome a) b1 = (r, b2)"
  shows "visit_provider q a p c =
    (let n = p_name p; c1 = set_breaker n b1 c; c3 = set_breaker n b2 (touch_provider n a c1)
     in if \<not> admissible q c p then (Skipped, c)
        else if \<not> ok then (Skipped, c1)
        else if \<not> p_connected p \<and> at_connect a \<noteq> None
        then (Skipped, set_breaker n (record_failure (at_connect_fail a) b1) c1)
        else (case r of Inr t \<Rightarrow> (Got t, c3)
              | Inl (CircuitOpenError _) \<Rightarrow> (Skipped, c3)
              | Inl (CallError (ProviderError e)) \<Rightarrow> (Failed (n @ '': '' @ e), c3)
              | Inl (CallError (OtherError e)) \<Rightarrow>
                  (Failed (n @ '': '' @ e), set_breaker n (record_failure (at_fail2 a) b2) c3)
              | Inl CallCancelled \<Rightarrow> (Aborted, c3)))"
  using assms by (simp add: visit_provider_def Let_def)

lemma visit_missing: "breakers c (p_name p) = None \<Longrightarrow> visit_provider q a p c = (MissingBreaker, c)"
  by (simp add: visit_provider_def)

text \<open>What a visit can do to the controller.\<close>

lemma visit_snd:
  assumes "breakers c (p_name p) = Some b" "cb_inv b"
  shows "snd (visit_provider q a p c) = c \<or>
    (\<exists>b'. cb_inv b' \<and> (snd (visit_provider q a p c) = set_breaker (p_name p) b' c \<or>
       snd (visit_provider q a p c) = set_breaker (p_name p) b' (touch_provider (p_name p) a c)))"
proof -
  obtain ok b1 where ask: "can_execute (at_check a) b = (ok, b1)" by fastforce
  obtain r b2 where run: "execute (at_begin a) (at_begin2 a) (at_end a) (at_outcome a) b1 = (r, b2)" by fastforce
  have inv: "cb_inv b1" "cb_inv b2" "cb_inv (record_failure t b1)" "cb_inv (record_failure t b2)" for t
    using gate.ask_inv[OF assms(2), of "at_check a"]
      gate.ask_run_inv[OF assms(2), of "at_begin a" "at_begin2 a" "at_end a" "at_outcome a" "at_check a"]
      gate.ask_fail_inv[OF assms(2), of _ "at_check a"]
      gate.ask_run_fail_inv[OF assms(2), of _ "at_begin a" "at_begin2 a" "at_end a" "at_outcome a" "at_check a"]
    unfolding ask snd_conv run by blast+
  have upd: "set_breaker n y (set_breaker n x c') = set_breaker n y c'"
    "set_breaker n y (set_breaker n z (touch_provider n a (set_breaker n x c))) =
       set_breaker n y (touch_provider n a c)"
    "set_breaker n y (touch_provider n a (set_breaker n x c)) =
       set_breaker n y (touch_provider n a c)" for n x y z c'
    by (simp_all add: set_breaker_def touch_provider_def)
  show ?thesis
    unfolding visit_eq[OF assms(1) ask run] Let_def upd
    by (auto split: sum.split exec_error.split call_exn.split intro: inv)
qed

lemma visit_inv:
  assumes "ctl_inv c" shows "ctl_inv (snd (visit_provider q a p c))"
proof (cases "breakers c (p_name p)")
  case None
  with assms show ?thesis by (simp add: visit_missing)
next
  case (Some b)
  with assms have b: "cb_inv b" by (rule ctl_inv_breaker)
  from visit_snd[OF Some b, of q a] show ?thesis
    using assms by (elim disjE exE conjE) (simp_all add: ctl_inv_set_breaker ctl_inv_touch)
qed

lemma visit_names:
  assumes "ctl_inv c"
  shows "map p_name (providers (snd (visit_provider q a p c))) = map p_name (providers c)"
    and "enabled (snd (visit_provider q a p c)) = enabled c"
    and "n \<noteq> p_name p \<Longrightarrow> breakers (snd (visit_provider q a p c)) n = breakers c n"
proof (atomize(full), cases "breakers c (p_name p)")
  case None
  then show "map p_name (providers (snd (visit_provider q a p c))) = map p_name (providers c) \<and>
    enabled (snd (visit_provider q a p c)) = enabled c \<and>
    (n \<noteq> p_name p \<longrightarrow> breakers (snd (visit_provider q a p c)) n = breakers c n)"
    by (simp add: visit_missing)
next
  case (Some b)
  with assms have b: "cb_inv b" by (rule ctl_inv_breaker)
  from visit_snd[OF Some b, of q a]
  show "map p_name (providers (snd (visit_provider q a p c))) = map p_name (providers c) \<and>
    enabled (snd (visit_provider q a p c)) = enabled c \<and>
    (n \<noteq> p_name p \<longrightarrow> breakers (snd (visit_provider q a p c)) n = breakers c n)"
    by (elim disjE exE conjE) simp_all
qed

lemma cascade_inv: "ctl_inv c \<Longrightarrow> ctl_inv (snd (cascade q env ps errs c))"
proof (induction q env ps errs c rule: cascade.induct)
  case (2 q env p ps errs c)
  obtain v c' where v: "visit_provider q (env (p_name p)) p c = (v, c')" by fastforce
  with visit_inv[OF 2(3), of q "env (p_name p)" p] have c': "ctl_inv c'" by simp
  with 2(1)[OF v[symmetric]] 2(2)[OF v[symmetric]] v show ?case by (cases v) auto
qed simp

lemma fetch_quote_inv: "ctl_inv c \<Longrightarrow> ctl_inv (snd (fetch_quote q env c))"
  by (simp add: fetch_quote_def cascade_inv)

lemma fetch_each_inv: "ctl_inv c \<Longrightarrow> ctl_inv (snd (fetch_each envs ss acc c))"
proof (induction ss arbitrary: acc c)
  case (Cons s ss)
  from fetch_quote_inv[OF Cons.prems, of any_query "envs s"]
  show ?case by (auto split: prod.splits sum.splits fetch_error.splits intro: Cons.IH)
qed simp

lemma bulk_loop_inv: "ctl_inv c \<Longrightarrow> ctl_inv (snd (bulk_loop tsym benv envs symbols ps c))"
proof (induction ps arbitrary: c)
  case Nil
  then show ?case by (simp add: fetch_each_inv)
next
  case (Cons p ps)
  show ?case
  proof (cases "breakers c (p_name p)")
    case None
    with Cons.prems show ?thesis by simp
  next
    case (Some b)
    with Cons.prems have b: "cb_inv b" by (rule ctl_inv_breaker)
    let ?a = "benv (p_name p)"
    obtain ok b1 where ask: "can_execute (at_check ?a) b = (ok, b1)" by fastforce
    obtain r b2 where run: "execute (at_begin ?a) (at_begin2 ?a) (at_end ?a) (at_outcome ?a) b1 = (r, b2)"
      by fastforce
    have "cb_inv b1" "cb_inv b2"
      using gate.ask_inv[OF b, of "at_check ?a"]
        gate.ask_run_inv[OF b, of "at_begin ?a" "at_begin2 ?a" "at_end ?a" "at_outcome ?a" "at_check ?a"]
      unfolding ask snd_conv run by blast+
    with Cons.prems have "ctl_inv (set_breaker n b1 c)" "ctl_inv (set_breaker n b2 (touch_provider n ?a (set_breaker n b1 c)))" for n
      by blast+
    then show ?thesis
      by (auto simp: Some ask run Let_def split: sum.split exec_error.split intro: Cons.IH fetch_each_inv)
  qed
qed

lemma ctl_inv_poll: "ctl_inv c \<Longrightarrow> breakers c n = Some b \<Longrightarrow> ctl_inv (set_breaker m (poll_state t b) c)"
  by (blast dest: ctl_inv_breaker)

lemma list_status_inv: "ctl_inv c \<Longrightarrow> ctl_inv (snd (list_status_loop now ps c))"
proof (induction ps arbitrary: c)
  case (Cons p ps)
  show ?case
  proof (cases "breakers c (p_name p)")
    case (Some b)
    from Cons.IH[OF ctl_inv_poll[OF Cons.prems Some, of "p_name p" now]] show ?thesis
      by (auto simp: Some Let_def split: prod.splits sum.splits)
  qed (simp add: Cons.prems)
qed simp

lemma health_loop_inv: "ctl_inv c \<Longrightarrow> ctl_inv (snd (health_loop env ps acc c))"
proof (induction ps arbitrary: c acc)
  case (Cons p ps)
  show ?case
  proof (cases "breakers c (p_name p)")
    case (Some b)
    show ?thesis
      using Cons.IH[OF ctl_inv_poll[OF Cons.prems Some, of "p_name p"]]
      by (cases "env (p_name p)") (simp add: Some)
  qed (simp add: Cons.prems)
qed simp

lemma test_loop_inv: "ctl_inv c \<Longrightarrow> ctl_inv (snd (test_loop env ps acc c))"
  by (induction ps arbitrary: c acc) (auto simp: Let_def split: option.splits)

lemma map_flag_keys:
  "map provider_key (map (\<lambda>p. if P p then p\<lparr>p_connected := v\<rparr> else p) ps) = map provider_key ps"
  "map p_name (map (\<lambda>p. if P p then p\<lparr>p_connected := v\<rparr> else p) ps) = map p_name ps"
  by (auto simp: provider_key_def provider_rank_def)

lemma connect_all_inv: "ctl_inv c \<Longrightarrow> ctl_inv (connect_all res c) \<and> ctl_inv (disconnect_all res c)"
  by (simp add: ctl_inv_names connect_all_def disconnect_all_def map_flag_keys del: map_map)

text \<open>Every controller the serving layer can build.\<close>

inductive ctl_reach :: "cb_settings \<Rightarrow> controller \<Rightarrow> bool" for cfg where
  start: "ctl_reach cfg new_controller"
| register: "ctl_reach cfg c \<Longrightarrow> ctl_reach cfg (register_provider cfg p c)"
| toggle: "ctl_reach cfg c \<Longrightarrow> ctl_reach cfg (snd (set_enabled n v c))"
| quote: "ctl_reach cfg c \<Longrightarrow> ctl_reach cfg (snd (fetch_quote q (env :: string \<Rightarrow> tick attempt) c))"
| bulk: "ctl_reach cfg c \<Longrightarrow> ctl_reach cfg (snd (fetch_bulk (tk_symbol :: tick \<Rightarrow> string) benv envs symbols c))"
| test: "ctl_reach cfg c \<Longrightarrow> ctl_reach cfg (snd (test_provider n (tenv :: string \<Rightarrow> tick attempt) c))"
| status: "ctl_reach cfg c \<Longrightarrow> ctl_reach cfg (snd (list_status now c))"
| probe: "ctl_reach cfg c \<Longrightarrow> ctl_reach cfg (snd (health_check_all henv c))"
| connect: "ctl_reach cfg c \<Longrightarrow> ctl_reach cfg (connect_all res c)"
| disconnect: "ctl_reach cfg c \<Longrightarrow> ctl_reach cfg (disconnect_all res c)"

lemma reach_inv:
  assumes "ctl_reach cfg c" "cfg_ok cfg" shows "ctl_inv c"
  using assms(1)
proof induction
  case (register c p)
  with assms(2) show ?case by (simp add: ctl_inv_register)
next
  case (bulk c benv envs symbols)
  then show ?case by (simp add: fetch_bulk_def bulk_loop_inv)
next
  case (test c n env)
  with test_loop_inv[of c env "filter (selected n) (providers c)" "[]"] show ?case
    by (auto simp: test_provider_def Let_def split: prod.splits option.splits)
qed (simp_all add: set_enabled_def Let_def fetch_quote_inv list_status_def list_status_inv
  health_check_all_def health_loop_inv connect_all_inv)

section \<open>What a cascade returns\<close>

text \<open>
  The fold of the visits, over the controller as it is when the call starts: each
  provider's visit there has a verdict, the first provider whose verdict is final decides,
  and the errors gathered before it are reported when there is none.
\<close>

definition verdict :: "query \<Rightarrow> (string \<Rightarrow> 'q attempt) \<Rightarrow> controller \<Rightarrow> provider \<Rightarrow> 'q visit" where
  "verdict q env c p = fst (visit_provider q (env (p_name p)) p c)"

fun declined :: "'q visit \<Rightarrow> bool" where
  "declined Skipped = True"
| "declined (Failed _) = True"
| "declined _ = False"

fun fail_text :: "'q visit \<Rightarrow> string list" where
  "fail_text (Failed e) = [e]"
| "fail_text _ = []"

fun final_result :: "string \<Rightarrow> 'q visit \<Rightarrow> fetch_error + 'q" where
  "final_result n (Got t) = Inr t"
| "final_result n Aborted = Inl FetchCancelled"
| "final_result n MissingBreaker = Inl (BreakerKeyError n)"
| "final_result n _ = Inl (AllProvidersFailed [])"

definition cascade_spec :: "query \<Rightarrow> (string \<Rightarrow> 'q attempt) \<Rightarrow> controller \<Rightarrow> provider list \<Rightarrow>
    string list \<Rightarrow> fetch_error + 'q" where
  "cascade_spec q env c ps errs =
     (case dropWhile (\<lambda>p. declined (verdict q env c p)) ps of
        [] \<Rightarrow> Inl (AllProvidersFailed (errs @ concat (map (\<lambda>p. fail_text (verdict q env c p)) ps)))
      | p # _ \<Rightarrow> final_result (p_name p) (verdict q env c p))"

text \<open>A visit of another provider does not change a verdict.\<close>

lemma admissible_enabled: "enabled c' = enabled c \<Longrightarrow> admissible q c' p = admissible q c p"
  by (simp add: admissible_def is_enabled_def)

lemma verdict_cong:
  assumes "breakers c' (p_name p) = breakers c (p_name p)" "enabled c' = enabled c"
  shows "verdict q env c' p = verdict q env c p"
proof (cases "breakers c (p_name p)")
  case None
  with assms show ?thesis by (simp add: verdict_def visit_missing)
next
  case (Some b)
  let ?a = "env (p_name p)"
  obtain ok b1 where ask: "can_execute (at_check ?a) b = (ok, b1)" by fastforce
  obtain r b2 where run: "execute (at_begin ?a) (at_begin2 ?a) (at_end ?a) (at_outcome ?a) b1 = (r, b2)"
    by fastforce
  have b': "breakers c' (p_name p) = Some b" using assms Some by simp
  show ?thesis
    unfolding verdict_def visit_eq[OF Some ask run] visit_eq[OF b' ask run] Let_def
      admissible_enabled[OF assms(2)]
    by (auto split: sum.split exec_error.split call_exn.split)
qed

lemma cascade_spec_Cons:
  "cascade_spec q env c (p # ps) errs =
     (if declined (verdict q env c p) then cascade_spec q env c ps (errs @ fail_text (verdict q env c p))
      else final_result (p_name p) (verdict q env c p))"
  by (cases "dropWhile (\<lambda>p. declined (verdict q env c p)) ps")
    (simp_all add: cascade_spec_def del: dropWhile_eq_Nil_conv)

lemma cascade_spec_cong:
  assumes same: "\<And>p. p \<in> set ps \<Longrightarrow> verdict q env c' p = verdict q env c p"
  shows "cascade_spec q env c' ps errs = cascade_spec q env c ps errs"
proof -
  have dw: "dropWhile (\<lambda>p. declined (verdict q env c' p)) ps = dropWhile (\<lambda>p. declined (verdict q env c p)) ps"
    by (rule dropWhile_cong) (simp_all add: same)
  have ft: "map (\<lambda>p. fail_text (verdict q env c' p)) ps = map (\<lambda>p. fail_text (verdict q env c p)) ps"
    by (rule map_cong) (simp_all add: same)
  have hd: "verdict q env c' p = verdict q env c p"
    if "dropWhile (\<lambda>p. declined (verdict q env c p)) ps = p # r" for p r
    using that by (intro same) (metis list.set_intros(1) set_dropWhileD)
  show ?thesis
  proof (cases "dropWhile (\<lambda>p. declined (verdict q env c p)) ps")
    case Nil
    then show ?thesis by (simp only: cascade_spec_def dw ft list.case)
  next
    case (Cons p r)
    with hd[OF Cons] show ?thesis by (simp only: cascade_spec_def dw list.case)
  qed
qed

lemma cascade_result:
  assumes "ctl_inv c" "distinct (map p_name ps)"
  shows "fst (cascade q env ps errs c) = cascade_spec q env c ps errs"
  using assms
proof (induction ps arbitrary: errs c)
  case Nil
  then show ?case by (simp add: cascade_spec_def)
next
  case (Cons p ps)
  obtain v c' where v: "visit_provider q (env (p_name p)) p c = (v, c')" by fastforce
  then have vd: "verdict q env c p = v" by (simp add: verdict_def)
  have names: "map p_name (providers c') = map p_name (providers c)" "enabled c' = enabled c"
    "n \<noteq> p_name p \<Longrightarrow> breakers c' n = breakers c n" for n
    using visit_names[OF Cons.prems(1), where q = q and a = "env (p_name p)" and p = p] v by simp_all
  have c': "ctl_inv c'" using visit_inv[OF Cons.prems(1), of q "env (p_name p)" p] v by simp
  have same: "verdict q env c' p' = verdict q env c p'" if "p' \<in> set ps" for p'
  proof (rule verdict_cong)
    have "p_name p' \<noteq> p_name p" using that Cons.prems(2) by (auto simp: image_iff)
    with names(3)[of "p_name p'"] show "breakers c' (p_name p') = breakers c (p_name p')" by simp
  qed (use names(2) in simp)
  have spec: "cascade_spec q env c' ps errs' = cascade_spec q env c ps errs'" for errs'
    by (rule cascade_spec_cong) (rule same)
  show ?case
    using Cons.IH[OF c'] Cons.prems(2) vd
    by (cases v) (simp_all add: v spec cascade_spec_Cons)
qed

lemma verdict_Got:
  assumes "verdict q env c p = Got t"
  shows "admissible q c p \<and> at_outcome (env (p_name p)) = Returned t \<and>
    (\<exists>b. breakers c (p_name p) = Some b \<and> fst (can_execute (at_check (env (p_name p))) b))"
proof (cases "breakers c (p_name p)")
  case None
  with assms show ?thesis by (simp add: verdict_def visit_missing)
next
  case (Some b)
  let ?a = "env (p_name p)"
  obtain ok b1 where ask: "can_execute (at_check ?a) b = (ok, b1)" by fastforce
  obtain r b2 where run: "execute (at_begin ?a) (at_begin2 ?a) (at_end ?a) (at_outcome ?a) b1 = (r, b2)"
    by fastforce
  from assms have "admissible q c p \<and> ok \<and> r = Inr t"
    unfolding verdict_def visit_eq[OF Some ask run] Let_def
    by (auto split: if_splits sum.splits exec_error.splits call_exn.splits)
  with gate.result_admitted[of "at_begin ?a" "at_begin2 ?a" "at_end ?a" "at_outcome ?a" b1 t] ask run Some
  show ?thesis by simp
qed

lemma cascade_spec_Got:
  assumes "cascade_spec q env c ps errs = Inr t"
  shows "\<exists>xs p ys. ps = xs @ p # ys \<and> (\<forall>x\<in>set xs. declined (verdict q env c x)) \<and> verdict q env c p = Got t"
proof (cases "dropWhile (\<lambda>p. declined (verdict q env c p)) ps")
  case Nil
  with assms show ?thesis by (simp add: cascade_spec_def)
next
  case (Cons p ys)
  with assms have "final_result (p_name p) (verdict q env c p) = Inr t" by (simp add: cascade_spec_def)
  then have "verdict q env c p = Got t" by (cases "verdict q env c p") auto
  moreover have "ps = takeWhile (\<lambda>p. declined (verdict q env c p)) ps @ p # ys"
    by (metis Cons takeWhile_dropWhile_id)
  ultimately show ?thesis by (metis set_takeWhileD)
qed

lemma cascade_untouched:
  assumes "ctl_inv c" "\<And>p. p \<in> set ps \<Longrightarrow> p_name p = n \<Longrightarrow> \<not> admissible q c p"
  shows "breakers (snd (cascade q env ps errs c)) n = breakers c n"
  using assms
proof (induction ps arbitrary: errs c)
  case (Cons p ps)
  let ?a = "env (p_name p)"
  obtain v c' where v: "visit_provider q ?a p c = (v, c')" by fastforce
  have frame: "enabled c' = enabled c" "m \<noteq> p_name p \<Longrightarrow> breakers c' m = breakers c m" for m
    using visit_names[OF Cons.prems(1), where q = q and a = ?a and p = p] v by simp_all
  have c': "ctl_inv c'" using visit_inv[OF Cons.prems(1), of q ?a p] v by simp
  have same: "breakers c' n = breakers c n"
  proof (cases "n = p_name p")
    case True
    with Cons.prems(2)[of p] have "\<not> admissible q c p" by simp
    then have "snd (visit_provider q ?a p c) = c"
      by (simp add: visit_provider_def split: option.splits)
    with v show ?thesis by simp
  qed (rule frame(2))
  have "breakers (snd (cascade q env ps errs' c')) n = breakers c' n" for errs'
    by (rule Cons.IH[OF c']) (use Cons.prems(2) admissible_enabled[OF frame(1), of q] in auto)
  with v same show ?case by (cases v) simp_all
qed simp

text \<open>
  What \<^verbatim>\<open>fetch_quote\<close> promises, stated over the call's inputs and not over the loop: which
  providers may be asked, when a stored breaker lets a call through, what the answers of the
  providers that are reached add up to, and what each breaker has recorded afterwards.
\<close>

definition candidate :: "query \<Rightarrow> controller \<Rightarrow> provider \<Rightarrow> bool" where
  "candidate q c p \<longleftrightarrow>
     enabled c (p_name p) \<noteq> Some False \<and>
     q_exchange q \<in> {None, Some [], Some (p_exchange p)} \<and>
     (if q_source q \<in> {None, Some [], Some ''auto''}
      then q_exclude_delayed q \<longrightarrow> \<not> p_delayed p
      else source_match p (the (q_source q)))"

definition lets_through :: "secs \<Rightarrow> breaker \<Rightarrow> bool" where
  "lets_through now b \<longleftrightarrow>
     cstate b = CLOSED \<or>
     cstate b = HALF_OPEN \<and> half_open_calls b < half_open_max b \<or>
     cstate b = OPEN \<and> recovery_timeout b < now - last_failure_time b \<and> 0 < half_open_max b"

definition reached :: "query \<Rightarrow> (string \<Rightarrow> 'q attempt) \<Rightarrow> controller \<Rightarrow> provider \<Rightarrow> bool" where
  "reached q env c p \<longleftrightarrow>
     candidate q c p \<and> lets_through (at_check (env (p_name p))) (the (breakers c (p_name p))) \<and>
     (p_connected p \<or> at_connect (env (p_name p)) = None)"

fun exn_text :: "call_exn \<Rightarrow> string" where
  "exn_text (ProviderError e) = e"
| "exn_text (OtherError e) = e"

fun settles :: "('q, call_exn) outcome \<Rightarrow> bool" where
  "settles (Raised _) = False"
| "settles _ = True"

text \<open>The first answer that is not an exception is the call's; exceptions of either kind
  only add a line to the report.\<close>

fun first_answer :: "(string \<times> ('q, call_exn) outcome) list \<Rightarrow> string list \<Rightarrow> fetch_error + 'q" where
  "first_answer [] errs = Inl (AllProvidersFailed errs)"
| "first_answer ((n, Raised e) # xs) errs = first_answer xs (errs @ [n @ '': '' @ exn_text e])"
| "first_answer ((n, Returned t) # xs) errs = Inr t"
| "first_answer ((n, Cancelled) # xs) errs = Inl FetchCancelled"

definition answers :: "query \<Rightarrow> (string \<Rightarrow> 'q attempt) \<Rightarrow> controller \<Rightarrow> provider list \<Rightarrow>
    (string \<times> ('q, call_exn) outcome) list" where
  "answers q env c ps = map (\<lambda>p. (p_name p, at_outcome (env (p_name p)))) (filter (reached q env c) ps)"

text \<open>The providers the call looks at: up to the one whose answer settles it.\<close>

fun looked_at :: "query \<Rightarrow> (string \<Rightarrow> 'q attempt) \<Rightarrow> controller \<Rightarrow> provider list \<Rightarrow> provider list" where
  "looked_at q env c [] = []"
| "looked_at q env c (p # ps) =
     p # (if reached q env c p \<and> settles (at_outcome (env (p_name p))) then [] else looked_at q env c ps)"

text \<open>What the breaker of a provider that was looked at has recorded: nothing when the provider
  is no candidate, the passing of the timeout when the breaker refuses, one failure for a
  failed connection or a \<^verbatim>\<open>ProviderError\<close>, two for any other exception, none for a cancelled
  call.\<close>

definition trial :: "breaker \<Rightarrow> breaker" where
  "trial b = (if cstate b = HALF_OPEN then b\<lparr>half_open_calls := half_open_calls b + 1\<rparr> else b)"

definition breaker_after :: "query \<Rightarrow> 'q attempt \<Rightarrow> controller \<Rightarrow> provider \<Rightarrow> breaker \<Rightarrow> breaker" where
  "breaker_after q a c p b =
     (let b1 = poll_state (at_check a) b
      in if \<not> candidate q c p then b
         else if \<not> lets_through (at_check a) b then b1
         else if \<not> p_connected p \<and> at_connect a \<noteq> None then record_failure (at_connect_fail a) b1
         else (case at_outcome a of
             Returned t \<Rightarrow> record_success (trial b1)
           | Raised (ProviderError e) \<Rightarrow> record_failure (at_end a) (trial b1)
           | Raised (OtherError e) \<Rightarrow> record_failure (at_fail2 a) (record_failure (at_end a) (trial b1))
           | Cancelled \<Rightarrow> trial b1))"

lemma candidate_iff: "candidate q c p \<longleftrightarrow> admissible q c p"
  by (cases "q_exchange q"; cases "q_source q"; cases "enabled c (p_name p)")
    (auto simp: candidate_def admissible_def is_enabled_def forced_def truthy_def)

lemma lets_through_iff: "lets_through t b \<longleftrightarrow> fst (can_execute t b)"
  by (cases "cstate b") (auto simp: lets_through_def can_execute_True_iff poll_state_def)

lemma execute_admitted:
  assumes "fst (can_execute t b)"
  shows "execute t0 t1 t2 oc (poll_state t b) = end_call t2 oc (trial (poll_state t b))"
proof -
  from assms have "fst (can_execute t0 (poll_state t b))"
    by (auto simp: can_execute_True_iff poll_poll_admitted[OF assms] frame_simps)
  with poll_poll_admitted[OF assms, of t0] show ?thesis
    by (simp add: execute_def begin_call_eq trial_def Let_def)
qed

text \<open>What one visit comes to under the contract, and what it records.\<close>

definition visit_contract :: "query \<Rightarrow> (string \<Rightarrow> 'q attempt) \<Rightarrow> controller \<Rightarrow> provider \<Rightarrow> 'q visit" where
  "visit_contract q env c p =
     (if \<not> reached q env c p then Skipped
      else case at_outcome (env (p_name p)) of
          Returned t \<Rightarrow> Got t
        | Raised e \<Rightarrow> Failed (p_name p @ '': '' @ exn_text e)
        | Cancelled \<Rightarrow> Aborted)"

lemma visit_keeps_contract:
  assumes b: "breakers c (p_name p) = Some b"
  shows "fst (visit_provider q (env (p_name p)) p c) = visit_contract q env c p"
    and "breakers (snd (visit_provider q (env (p_name p)) p c)) (p_name p) =
      Some (breaker_after q (env (p_name p)) c p b)"
proof -
  let ?a = "env (p_name p)"
  obtain e b2 where run: "execute (at_begin ?a) (at_begin2 ?a) (at_end ?a) (at_outcome ?a)
      (poll_state (at_check ?a) b) = (e, b2)" by fastforce
  have ask: "can_execute (at_check ?a) b = (lets_through (at_check ?a) b, poll_state (at_check ?a) b)"
    by (simp add: prod_eq_iff lets_through_iff)
  have run': "lets_through (at_check ?a) b \<Longrightarrow>
      end_call (at_end ?a) (at_outcome ?a) (trial (poll_state (at_check ?a) b)) = (e, b2)"
    unfolding lets_through_iff using run by (simp only: execute_admitted)
  note v = visit_eq[OF b ask run, of q, folded candidate_iff]
  show "fst (visit_provider q ?a p c) = visit_contract q env c p"
    using run' by (cases "at_outcome ?a")
      (auto simp: v visit_contract_def reached_def b Let_def split: call_exn.splits)
  show "breakers (snd (visit_provider q ?a p c)) (p_name p) = Some (breaker_after q ?a c p b)"
    using run' by (cases "at_outcome ?a")
      (auto simp: v breaker_after_def b Let_def set_breaker_def touch_provider_def split: call_exn.splits)
qed

lemma contract_cong:
  assumes "enabled c' = enabled c" "breakers c' (p_name p) = breakers c (p_name p)"
  shows "reached q env c' p = reached q env c p"
  using assms by (simp add: reached_def candidate_def)

lemma breaker_after_cong: "enabled c' = enabled c \<Longrightarrow> breaker_after q a c' p = breaker_after q a c p"
  by (rule ext) (simp add: breaker_after_def candidate_def)

lemma answers_cong:
  "(\<And>p. p \<in> set ps \<Longrightarrow> reached q env c' p = reached q env c p) \<Longrightarrow> answers q env c' ps = answers q env c ps"
  by (simp add: answers_def cong: filter_cong)

lemma looked_at_cong:
  "(\<And>p. p \<in> set ps \<Longrightarrow> reached q env c' p = reached q env c p) \<Longrightarrow> looked_at q env c' ps = looked_at q env c ps"
  by (induction ps) simp_all

lemma looked_at_sub: "p \<in> set (looked_at q env c ps) \<Longrightarrow> p \<in> set ps"
  by (induction ps) (auto split: if_splits)

lemma cascade_keeps_contract:
  assumes "ctl_inv c" "distinct (map p_name ps)" "\<And>p. p \<in> set ps \<Longrightarrow> breakers c (p_name p) \<noteq> None"
  shows "fst (cascade q env ps errs c) = first_answer (answers q env c ps) errs \<and>
    (\<forall>p\<in>set ps. breakers (snd (cascade q env ps errs c)) (p_name p) =
      (if p \<in> set (looked_at q env c ps)
       then map_option (breaker_after q (env (p_name p)) c p) (breakers c (p_name p))
       else breakers c (p_name p))) \<and>
    (\<forall>n. n \<notin> p_name ` set ps \<longrightarrow> breakers (snd (cascade q env ps errs c)) n = breakers c n)"
  using assms
proof (induction ps arbitrary: errs c)
  case Nil
  then show ?case by (simp add: answers_def)
next
  case (Cons x ps)
  let ?e = "env (p_name x)"
  obtain b where b: "breakers c (p_name x) = Some b" using Cons.prems(3) by fastforce
  obtain v c' where v: "visit_provider q ?e x c = (v, c')" by fastforce
  have frame: "enabled c' = enabled c" "m \<noteq> p_name x \<Longrightarrow> breakers c' m = breakers c m" for m
    using visit_names[OF Cons.prems(1), where q = q and a = ?e and p = x] v by simp_all
  have c': "ctl_inv c'" using visit_inv[OF Cons.prems(1), of q ?e x] v by simp
  have vis: "v = visit_contract q env c x" "breakers c' (p_name x) = Some (breaker_after q ?e c x b)"
    using visit_keeps_contract[OF b, of q env] v by simp_all
  have other: "p_name p' \<noteq> p_name x" if "p' \<in> set ps" for p'
    using that Cons.prems(2) by (auto simp: image_iff)
  have fresh: "p_name x \<notin> p_name ` set ps" using other unfolding image_iff by metis
  have same: "reached q env c' p' = reached q env c p'" if "p' \<in> set ps" for p'
    using frame other[OF that] by (intro contract_cong) simp_all
  have old: "breakers c' (p_name p') = breakers c (p_name p')" if "p' \<in> set ps" for p'
    using frame(2) other[OF that] by simp
  have here: "breakers c' (p_name p') = (if p' = x then Some (breaker_after q ?e c x b) else breakers c (p_name p'))"
    if "p' \<in> set (x # ps)" for p' using that vis(2) old by auto
  have IH: "fst (cascade q env ps errs' c') = first_answer (answers q env c ps) errs' \<and>
    (\<forall>p\<in>set ps. breakers (snd (cascade q env ps errs' c')) (p_name p) =
      (if p \<in> set (looked_at q env c ps)
       then map_option (breaker_after q (env (p_name p)) c p) (breakers c (p_name p))
       else breakers c (p_name p))) \<and>
    (\<forall>n. n \<notin> p_name ` set ps \<longrightarrow> breakers (snd (cascade q env ps errs' c')) n = breakers c' n)" for errs'
    using Cons.IH[OF c', of errs'] Cons.prems old
    by (simp add: answers_cong[OF same] looked_at_cong[OF same] breaker_after_cong[OF frame(1)])
  have xps: "x \<notin> set ps" using fresh by auto
  have "snd (cascade q env (x # ps) errs c) =
      (if reached q env c x \<and> settles (at_outcome ?e) then c' else snd (cascade q env ps (errs @ fail_text v) c'))"
    "fst (cascade q env (x # ps) errs c) = first_answer (answers q env c (x # ps)) errs"
    using IH by (auto simp: v vis(1) visit_contract_def answers_def split: outcome.split)
  with IH[of "errs @ fail_text v"] show ?case
    using vis(2) frame(2) fresh xps b here by (auto simp: looked_at_sub dest: other)
qed

lemma execute_closed_raise:
  assumes "cstate b = CLOSED"
  shows "execute t0 t1 t2 (Raised e) b = (Inl (CallError e), record_failure t2 b)"
  using assms by (simp add: execute_def begin_call_eq can_execute_True_iff poll_state_def Let_def)

section \<open>Properties\<close>

text \<open>In every controller that registration, toggling, fetching, testing, probing and
  (dis)connecting can produce from a valid configuration, the providers are in priority
  order, each has a circuit breaker, and every breaker satisfies its invariant.\<close>
theorem controller_reachable_inv:
  assumes "ctl_reach cfg c" "cfg_ok cfg"
  shows "sorted (map provider_key (providers c)) \<and>
    (\<forall>p\<in>set (providers c). \<exists>b. breakers c (p_name p) = Some b) \<and>
    (\<forall>n b. breakers c n = Some b \<longrightarrow> cb_inv b)"
  using reach_inv[OF assms] by (simp add: ctl_inv_def)

definition demo_ctl :: controller where
  "demo_ctl = register_provider default_cb_settings groww_meta
     (register_provider default_cb_settings yahoo_meta new_controller)"

lemma demo_ctl_eq:
  "providers demo_ctl = [groww_meta, yahoo_meta]"
  "breakers demo_ctl = [''yahoo_finance'' \<mapsto> new_breaker default_cb_settings ''yahoo_finance'' None None None,
     ''groww'' \<mapsto> new_breaker default_cb_settings ''groww'' None None None]"
  "enabled demo_ctl = [''yahoo_finance'' \<mapsto> True, ''groww'' \<mapsto> True]"
  by (simp_all add: demo_ctl_def register_provider_def new_controller_def provider_metas
      new_provider_def provider_key_def provider_rank_def)

lemma demo_ctl_reach: "ctl_reach default_cb_settings demo_ctl"
  unfolding demo_ctl_def by (intro ctl_reach.intros)

lemma demo_ctl_inv: "ctl_inv demo_ctl"
  by (rule reach_inv[OF demo_ctl_reach]) (simp add: cfg_ok_def default_cb_settings_def)

theorem controller_reachable_inv_witness:
  "map p_name (providers demo_ctl) = [''groww'', ''yahoo_finance''] \<and>
   sorted (map provider_key (providers demo_ctl))"
  using controller_reachable_inv[OF demo_ctl_reach]
  by (simp add: cfg_ok_def default_cb_settings_def demo_ctl_eq provider_metas new_provider_def)

text \<open>C2: \<^verbatim>\<open>fetch_quote\<close> keeps its contract, which names no step of the loop. Reached are, in priority
  order, the providers that are enabled, on the requested venue, of the requested source or
  else not delayed when the query excludes delayed feeds, whose breaker lets the call through,
  and that are connected or can be. The first of them whose fetch does not raise settles the
  call; every exception, a \<^verbatim>\<open>ProviderError\<close> or not, only adds its line to the report of an overall
  failure. The breakers of the providers up to that one have recorded what happened to them
  (two failures for an exception that is no \<^verbatim>\<open>ProviderError\<close>), all others are untouched.\<close>
theorem fetch_quote_refines:
  assumes "ctl_inv c" "distinct (map p_name (providers c))"
  shows "fst (fetch_quote q env c) = first_answer (answers q env c (providers c)) [] \<and>
    (\<forall>p\<in>set (providers c). breakers (snd (fetch_quote q env c)) (p_name p) =
      (if p \<in> set (looked_at q env c (providers c))
       then map_option (breaker_after q (env (p_name p)) c p) (breakers c (p_name p))
       else breakers c (p_name p)))"
  unfolding fetch_quote_def
  using cascade_keeps_contract[OF assms, of q env "[]"] assms(1) by (auto simp: ctl_inv_def)

definition demo_attempt :: "bool \<Rightarrow> ('q, call_exn) outcome \<Rightarrow> 'q attempt" where
  "demo_attempt conn oc = \<lparr>at_check = 1, at_connect = None, at_connect_fail = 2, at_begin = 3, at_begin2 = 3,
     at_end = 4, at_outcome = oc, at_fail2 = 5, at_connected = conn, at_metrics = []\<rparr>"

definition demo_env :: "string \<Rightarrow> string attempt" where
  "demo_env n = demo_attempt True
     (if n = ''groww'' then Raised (ProviderError ''blocked'') else Returned ''tick'')"

definition live_query :: query where
  "live_query = \<lparr>q_source = None, q_exclude_delayed = True, q_exchange = None\<rparr>"

lemmas demo_fetch_simps = demo_env_def demo_attempt_def live_query_def any_query_def verdict_def
  visit_provider_def admissible_def is_enabled_def forced_def truthy_def demo_ctl_eq provider_metas
  new_provider_def new_breaker_def default_cb_settings_def or_default_def can_execute_def poll_state_def
  execute_def begin_call_def cascade_spec_def

definition broken_env :: "string \<Rightarrow> string attempt" where
  "broken_env n = demo_attempt True
     (if n = ''groww'' then Raised (OtherError ''KeyError'') else Returned ''tick'')"

definition failures :: "string \<Rightarrow> controller \<Rightarrow> int option" where
  "failures n c = map_option failure_count (breakers c n)"

theorem fetch_quote_refines_witness:
  "fst (fetch_quote any_query broken_env demo_ctl) = Inr ''tick'' \<and>
   failures ''groww'' (snd (fetch_quote any_query broken_env demo_ctl)) = Some 2 \<and>
   fst (fetch_quote live_query demo_env demo_ctl) = Inl (AllProvidersFailed [''groww: blocked'']) \<and>
   failures ''groww'' (snd (fetch_quote live_query demo_env demo_ctl)) = Some 1"
proof -
  have d: "distinct (map p_name (providers demo_ctl))"
    by (simp add: demo_ctl_eq provider_metas new_provider_def)
  note all = fetch_quote_refines[OF demo_ctl_inv d]
  have "breakers (snd (fetch_quote q env demo_ctl)) ''groww'' =
      map_option (breaker_after q (env ''groww'') demo_ctl groww_meta) (breakers demo_ctl ''groww'')"
    for q and env :: "string \<Rightarrow> string attempt"
    using all[of q env] by (simp add: demo_ctl_eq provider_metas new_provider_def)
  then show ?thesis
    unfolding all[THEN conjunct1]
    by (simp add: demo_fetch_simps broken_env_def failures_def answers_def reached_def candidate_def
        lets_through_def breaker_after_def trial_def record_failure_def)
qed

text \<open>A tick returned for a live query comes from the first provider that did not decline: it is
  enabled, on the requested venue, not a delayed feed unless that source was forced, its
  circuit breaker admitted the call, and the tick is what its fetch returned.\<close>
theorem fetch_quote_source:
  assumes "ctl_inv c" "distinct (map p_name (providers c))" "fst (fetch_quote q env c) = Inr t"
  shows "\<exists>xs p ys b. providers c = xs @ p # ys \<and> (\<forall>x\<in>set xs. declined (verdict q env c x)) \<and>
    at_outcome (env (p_name p)) = Returned t \<and> is_enabled (p_name p) c \<and>
    (q_exclude_delayed q \<and> \<not> forced q \<longrightarrow> \<not> p_delayed p) \<and>
    (truthy (q_exchange q) \<longrightarrow> q_exchange q = Some (p_exchange p)) \<and>
    (forced q \<longrightarrow> source_match p (the (q_source q))) \<and>
    breakers c (p_name p) = Some b \<and> fst (can_execute (at_check (env (p_name p))) b)"
proof -
  have spec: "cascade_spec q env c (providers c) [] = Inr t"
    using cascade_result[OF assms(1,2), of q env "[]"] assms(3) by (simp add: fetch_quote_def)
  obtain xs p ys where p: "providers c = xs @ p # ys" "\<forall>x\<in>set xs. declined (verdict q env c x)"
    "verdict q env c p = Got t"
    using cascade_spec_Got[OF spec] by blast
  with verdict_Got[OF p(3)] show ?thesis by (fastforce simp: admissible_def)
qed

theorem fetch_quote_source_witness:
  "\<exists>p. p \<in> set (providers demo_ctl) \<and> is_enabled (p_name p) demo_ctl \<and>
     at_outcome (demo_env (p_name p)) = Returned ''tick''"
proof -
  have d: "distinct (map p_name (providers demo_ctl))"
    by (simp add: demo_ctl_eq provider_metas new_provider_def)
  have "fst (fetch_quote any_query demo_env demo_ctl) = Inr ''tick''"
    by (simp add: fetch_quote_def demo_fetch_simps)
  from fetch_quote_source[OF demo_ctl_inv d this] show ?thesis by auto
qed

text \<open>A provider that the query skips (disabled, off-venue, not the forced source, or delayed)
  keeps its circuit breaker untouched, whatever the others do.\<close>
theorem fetch_quote_frame:
  assumes "ctl_inv c" "\<And>p. p \<in> set (providers c) \<Longrightarrow> p_name p = n \<Longrightarrow> \<not> admissible q c p"
  shows "breakers (snd (fetch_quote q env c)) n = breakers c n"
  unfolding fetch_quote_def using assms by (rule cascade_untouched)

theorem fetch_quote_frame_witness:
  "breakers (snd (fetch_quote live_query demo_env demo_ctl)) ''yahoo_finance'' = breakers demo_ctl ''yahoo_finance''"
  by (rule fetch_quote_frame[OF demo_ctl_inv]) (auto simp: demo_fetch_simps)

text \<open>An exception other than \<^verbatim>\<open>ProviderError\<close> is counted twice by the provider's breaker (once in
  \<^verbatim>\<open>execute\<close>, once in the controller's handler), while a \<^verbatim>\<open>ProviderError\<close> counts once.\<close>
theorem other_error_counts_twice:
  assumes "breakers c (p_name p) = Some b" "cstate b = CLOSED" "admissible q c p"
    and "p_connected p \<or> at_connect a = None" "at_outcome a = Raised (if other then OtherError e else ProviderError e)"
  shows "\<exists>b'. breakers (snd (visit_provider q a p c)) (p_name p) = Some b' \<and>
    failure_count b' = failure_count b + (if other then 2 else 1) \<and>
    (cstate b' = CLOSED \<longleftrightarrow> failure_count b' < failure_threshold b)"
proof -
  have ask: "can_execute (at_check a) b = (True, b)"
    using assms(2) by (simp add: can_execute_def poll_state_def)
  have run: "execute (at_begin a) (at_begin2 a) (at_end a) (at_outcome a) b =
      (Inl (CallError (if other then OtherError e else ProviderError e)), record_failure (at_end a) b)"
    unfolding assms(5) by (rule execute_closed_raise[OF assms(2)])
  show ?thesis
    unfolding visit_eq[OF assms(1) ask run] Let_def using assms(2-4)
    by (auto simp: record_failure_def Let_def split: circuit_state.splits)
qed

theorem other_error_counts_twice_witness:
  "\<exists>b'. breakers (snd (visit_provider any_query (demo_attempt True (Raised (OtherError ''timeout''))) groww_meta demo_ctl))
       ''groww'' = Some b' \<and> failure_count b' = 2"
  using other_error_counts_twice[of demo_ctl groww_meta "new_breaker default_cb_settings ''groww'' None None None"
      any_query "demo_attempt True (Raised (OtherError ''timeout''))" True "''timeout''"]
  by (simp add: demo_fetch_simps)

text \<open>\<^verbatim>\<open>fetch_bulk\<close> does not consult the runtime toggles: when the first provider's breaker admits and its bulk
  call covers every symbol, its ticks are returned, disabled or not.\<close>
theorem fetch_bulk_ignores_toggle:
  assumes "providers c = p # ps" "breakers c (p_name p) = Some b" "cstate b = CLOSED" "p_connected p"
    and "at_outcome (benv (p_name p)) = Returned ticks" "ticks \<noteq> []" "set symbols \<subseteq> tsym ` set ticks"
  shows "fst (fetch_bulk tsym benv envs symbols (snd (set_enabled (p_name p) False c))) = Inr ticks \<and>
    \<not> is_enabled (p_name p) (snd (set_enabled (p_name p) False c))"
proof -
  let ?a = "benv (p_name p)" and ?c = "snd (set_enabled (p_name p) False c)"
  have c: "providers ?c = p # ps" "breakers ?c (p_name p) = Some b"
    using assms(1,2) by (simp_all add: set_enabled_def Let_def)
  have ask: "can_execute (at_check ?a) b = (True, b)"
    using assms(3) by (simp add: can_execute_def poll_state_def)
  obtain b2 where run: "execute (at_begin ?a) (at_begin2 ?a) (at_end ?a) (at_outcome ?a) b = (Inr ticks, b2)"
    using gate.admitted[of "at_begin ?a" b "at_begin2 ?a" "at_end ?a" "at_outcome ?a"] assms(3,5)
    by (cases "execute (at_begin ?a) (at_begin2 ?a) (at_end ?a) (at_outcome ?a) b")
      (simp add: can_execute_True_iff poll_state_def)
  have "filter (\<lambda>s. s \<notin> set (map tsym ticks)) symbols = []"
    using assms(7) by (auto simp: filter_empty_conv)
  then have "fst (bulk_loop tsym benv envs symbols (p # ps) ?c) = Inr ticks"
    using assms(4,6) by (simp add: c ask run Let_def)
  moreover have "foldl (\<lambda>e p. e(p_name p \<mapsto> False)) e xs n = Some False"
    if "e n = Some False" for e n and xs :: "provider list"
    using that by (induction xs arbitrary: e) auto
  then have "\<not> is_enabled (p_name p) ?c"
    using assms(1) by (simp add: set_enabled_def Let_def selected_def is_enabled_def)
  ultimately show ?thesis by (simp add: fetch_bulk_def c)
qed

definition demo_bulk_ctl :: controller where
  "demo_bulk_ctl = connect_all (\<lambda>_. None) demo_ctl"

theorem fetch_bulk_ignores_toggle_witness:
  "fst (fetch_bulk id (\<lambda>_. demo_attempt True (Returned [''TCS''])) (\<lambda>_. demo_env) [''TCS'']
      (snd (set_enabled ''groww'' False demo_bulk_ctl))) = Inr [''TCS'']"
  using fetch_bulk_ignores_toggle[of demo_bulk_ctl "groww_meta\<lparr>p_connected := True\<rparr>" "[yahoo_meta\<lparr>p_connected := True\<rparr>]"
      "new_breaker default_cb_settings ''groww'' None None None" "\<lambda>_. demo_attempt True (Returned [''TCS''])"
      "[''TCS'']" "[''TCS'']" id "\<lambda>_. demo_env"]
  by (simp add: demo_bulk_ctl_def connect_all_def demo_ctl_eq provider_metas new_provider_def
      new_breaker_def demo_attempt_def)

end
