(* ===== verification/PyDict.thy ===== *)
theory PyDict
  imports Prelude
begin

text \<open>
  The untyped data the adapter endpoints handle: a JSON value is the datatype \<open>val\<close>, a JSON object
  an insertion-ordered association list. \<open>dget\<close> is \<^verbatim>\<open>d.get(k)\<close> (a missing key and a null both
  read as \<open>VNone\<close>), \<open>truthy_val\<close> is Python's truth value, \<open>to_float\<close> is the adapter's \<^verbatim>\<open>_f\<close>. The
  floats are rational, so infinities and NaN do not occur.
\<close>

datatype val =
    VNone
  | VBool bool
  | VInt int
  | VNum rat
  | VStr string
  | VList "val list"
  | VDict "(string \<times> val) list"

type_synonym dict = "(string \<times> val) list"

definition dget :: "dict \<Rightarrow> string \<Rightarrow> val" where
  "dget d k = (case map_of d k of None \<Rightarrow> VNone | Some v \<Rightarrow> v)"

fun truthy_val :: "val \<Rightarrow> bool" where
  "truthy_val VNone = False"
| "truthy_val (VBool b) = b"
| "truthy_val (VInt n) = (n \<noteq> 0)"
| "truthy_val (VNum x) = (x \<noteq> 0)"
| "truthy_val (VStr s) = (s \<noteq> [])"
| "truthy_val (VList xs) = (xs \<noteq> [])"
| "truthy_val (VDict d) = (d \<noteq> [])"

definition val_or :: "val \<Rightarrow> val \<Rightarrow> val" where
  "val_or v w = (if truthy_val v then v else w)"

fun to_float :: "val \<Rightarrow> rat option" where
  "to_float (VNum x) = Some x"
| "to_float (VInt n) = Some (of_int n)"
| "to_float (VBool b) = Some (if b then 1 else 0)"
| "to_float (VStr s) = parse_decimal s"
| "to_float VNone = None"
| "to_float (VList xs) = None"
| "to_float (VDict d) = None"

fun vnum :: "rat option \<Rightarrow> val" where
  "vnum None = VNone"
| "vnum (Some x) = VNum x"

fun vint :: "int option \<Rightarrow> val" where
  "vint None = VNone"
| "vint (Some n) = VInt n"

fun vstr :: "string option \<Rightarrow> val" where
  "vstr None = VNone"
| "vstr (Some s) = VStr s"

text \<open>\<^verbatim>\<open>str(v)\<close>. Documents carry identifiers as text or integers; the digits of a float and the texts of
  arrays and objects are not modelled and read as empty.\<close>

fun nat_digits :: "nat \<Rightarrow> string" where
  "nat_digits n = (if n < 10 then [char_of (48 + n)] else nat_digits (n div 10) @ [char_of (48 + n mod 10)])"

declare nat_digits.simps [simp del]

definition int_digits :: "int \<Rightarrow> string" where
  "int_digits k = (if k < 0 then CHR ''-'' # nat_digits (nat (- k)) else nat_digits (nat k))"

fun str_of :: "val \<Rightarrow> string" where
  "str_of (VStr s) = s"
| "str_of VNone = ''None''"
| "str_of (VBool b) = (if b then ''True'' else ''False'')"
| "str_of (VInt n) = int_digits n"
| "str_of (VNum x) = []"
| "str_of (VList xs) = []"
| "str_of (VDict d) = []"

text \<open>\<^verbatim>\<open>str(d.get(k, ""))\<close>: the default serves only a missing key.\<close>

definition str_field_of :: "dict \<Rightarrow> string \<Rightarrow> string" where
  "str_field_of d k = (case map_of d k of None \<Rightarrow> [] | Some v \<Rightarrow> str_of v)"

text \<open>The elements of \<^verbatim>\<open>(v or [])\<close>.\<close>

fun list_val :: "val \<Rightarrow> val list" where
  "list_val (VList xs) = xs"
| "list_val v = []"

text \<open>\<^verbatim>\<open>(v or {})\<close> before another \<^verbatim>\<open>.get\<close>.\<close>

fun sub_dict :: "val \<Rightarrow> dict" where
  "sub_dict (VDict d) = d"
| "sub_dict v = []"

fun str_val :: "val \<Rightarrow> string option" where
  "str_val (VStr s) = Some s"
| "str_val v = None"

lemma dget_Nil [simp]: "dget [] k = VNone"
  by (simp add: dget_def)

lemma dget_Cons [simp]: "dget ((k', v) # d) k = (if k = k' then v else dget d k)"
  by (simp add: dget_def)

lemma dget_dput [simp]: "dget (dput k v d) k' = (if k' = k then v else dget d k')"
  by (simp add: dget_def)

lemma dget_ddel [simp]: "dget (ddel k d) k' = (if k' = k then VNone else dget d k')"
  by (simp add: dget_def)

lemma to_float_vnum [simp]: "to_float (vnum x) = x"
  by (cases x) simp_all

lemma vnum_inject [simp]: "vnum x = vnum y \<longleftrightarrow> x = y"
  by (cases x; cases y) simp_all

lemma vnum_None [simp]: "vnum x = VNone \<longleftrightarrow> x = None"
  by (cases x) simp_all

lemma vint_None [simp]: "vint x = VNone \<longleftrightarrow> x = None"
  by (cases x) simp_all

lemma vstr_None [simp]: "vstr x = VNone \<longleftrightarrow> x = None"
  by (cases x) simp_all

lemma val_or_idem [simp]: "val_or v v = v"
  by (simp add: val_or_def)

end
