(* ===== verification/Feeds.thy ===== *)
theory Feeds
  imports Failover PyDict
begin

text \<open>
  The live quote providers: \<^verbatim>\<open>src/providers/groww.py\<close>, \<^verbatim>\<open>nse_live.py\<close> (Moneycontrol, both venues),
  \<^verbatim>\<open>bse_scraper.py\<close>, \<^verbatim>\<open>nse_scraper.py\<close> and \<^verbatim>\<open>yahoo_finance.py\<close>. A reply of a site is the datatype \<open>http\<close>: no
  reply, or a status with a body that does not look like JSON, does not parse, or is a value. A fetch returns
  the tick or the exception, together with the request metrics it records (\<open>Some ms\<close> a success, \<open>None\<close> an error),
  the form in which the failover controller takes an attempt. Message texts are abbreviated.
\<close>

section \<open>Replies and numbers\<close>

datatype body = NotJson | BadJson | Json val
datatype http = NoReply | Http int body

type_synonym fetched = "(call_exn + tick) \<times> rat option list"

text \<open>The \<^verbatim>\<open>_dec\<close> of the providers: commas and blanks dropped, and 0 for whatever \<^verbatim>\<open>Decimal\<close> refuses.\<close>

fun dec_value :: "val \<Rightarrow> rat" where
  "dec_value (VInt n) = of_int n"
| "dec_value (VNum x) = x"
| "dec_value (VStr s) =
     (case parse_decimal (strip (filter (\<lambda>c. c \<noteq> CHR '','') s)) of None \<Rightarrow> 0 | Some x \<Rightarrow> x)"
| "dec_value v = 0"

definition dec_get :: "dict \<Rightarrow> string \<Rightarrow> rat" where
  "dec_get d k = dec_value (dget d k)"

text \<open>\<^verbatim>\<open>g(x) or d\<close> and \<^verbatim>\<open>g(x) or None\<close> on decimals.\<close>

definition dec_or :: "rat \<Rightarrow> rat \<Rightarrow> rat" where
  "dec_or x d = (if x = 0 then d else x)"

definition dec_opt :: "rat \<Rightarrow> rat option" where
  "dec_opt x = (if x = 0 then None else Some x)"

definition pos_opt :: "rat \<Rightarrow> rat option" where
  "pos_opt x = (if 0 < x then Some x else None)"

definition pos_or :: "rat \<Rightarrow> rat \<Rightarrow> rat" where
  "pos_or x d = (if 0 < x then x else d)"

text \<open>\<^verbatim>\<open>int(v)\<close> of a JSON value.\<close>

fun to_int :: "val \<Rightarrow> int option" where
  "to_int (VInt n) = Some n"
| "to_int (VNum x) = Some (py_trunc x)"
| "to_int (VBool b) = Some (if b then 1 else 0)"
| "to_int (VStr s) = parse_int s"
| "to_int v = None"

text \<open>\<^verbatim>\<open>v or {}\<close> on which \<^verbatim>\<open>.get\<close> is called; \<^verbatim>\<open>d.get(k, {})\<close> likewise, without the \<^verbatim>\<open>or\<close>. \<open>None\<close> is the
  \<^verbatim>\<open>AttributeError\<close>.\<close>

definition as_obj :: "val \<Rightarrow> dict option" where
  "as_obj v = (case v of VDict d \<Rightarrow> Some d | _ \<Rightarrow> if truthy_val v then None else Some [])"

definition need_obj :: "dict \<Rightarrow> string \<Rightarrow> dict option" where
  "need_obj d k = (case map_of d k of None \<Rightarrow> Some [] | Some (VDict x) \<Rightarrow> Some x | Some _ \<Rightarrow> None)"

text \<open>A field of type \<^verbatim>\<open>str | None\<close>; the outer \<open>None\<close> is a value that the model refuses.\<close>

fun opt_str :: "val \<Rightarrow> string option option" where
  "opt_str VNone = Some None"
| "opt_str (VStr s) = Some (Some s)"
| "opt_str v = None"

definition feed_tick :: "string \<Rightarrow> string \<Rightarrow> string option \<Rightarrow> rat \<Rightarrow> rat \<Rightarrow> rat \<Rightarrow> rat \<Rightarrow> rat \<Rightarrow> int \<Rightarrow> datetime \<Rightarrow> string \<Rightarrow> rat \<Rightarrow> tick" where
  "feed_tick sm exch series ltp op hi lo cl vol now src lat =
     \<lparr>tk_symbol = sm, tk_isin = None, tk_exchange = exch, tk_series = series, tk_ltp = ltp, tk_open = op, tk_high = hi,
      tk_low = lo, tk_close = cl, tk_change = 0, tk_pct_change = 0, tk_volume = vol, tk_value = None, tk_vwap = None,
      tk_upper_circuit = None, tk_lower_circuit = None, tk_total_buy_qty = None, tk_total_sell_qty = None,
      tk_open_interest = None, tk_week_52_high = None, tk_week_52_low = None, tk_depth = None, tk_timestamp = now,
      tk_source = src, tk_latency_ms = lat\<rparr>"

text \<open>Building the model; the \<^verbatim>\<open>ValidationError\<close> is an exception like any other.\<close>

definition validated :: "tick \<Rightarrow> rat \<Rightarrow> call_exn + tick" where
  "validated raw change = (case make_tick raw (Some (Some change)) of None \<Rightarrow> Inl (OtherError ''validation'') | Some t \<Rightarrow> Inr t)"

text \<open>The \<^verbatim>\<open>except\<close> clauses around a fetch: a \<^verbatim>\<open>ProviderError\<close> passes as it is, anything else is counted and wrapped.\<close>

definition settle :: "rat \<Rightarrow> call_exn + tick \<Rightarrow> fetched" where
  "settle lat r =
     (case r of Inr t \<Rightarrow> (Inr t, [Some lat])
      | Inl (ProviderError e) \<Rightarrow> (Inl (ProviderError e), [])
      | Inl (OtherError e) \<Rightarrow> (Inl (ProviderError e), [None]))"

section \<open>Groww\<close>

definition groww_parse :: "dict \<Rightarrow> string \<Rightarrow> rat \<Rightarrow> datetime \<Rightarrow> call_exn + tick" where
  "groww_parse d sm lat now =
     (let g = dec_get d; ltp0 = g ''ltp''; prev = g ''close''
      in if ltp0 \<le> 0 \<and> prev \<le> 0 then Inl (ProviderError ''empty Groww payload'')
         else (let ltp = (if ltp0 \<le> 0 then prev else ltp0);
                   cnt = (\<lambda>k. if dget d k = VNone then None else Some (py_trunc (g k)))
               in validated (feed_tick sm ''NSE'' (Some ''EQ'') ltp (dec_or (g ''open'') ltp) (dec_or (g ''high'') ltp)
                    (dec_or (g ''low'') ltp) prev (py_trunc (g ''volume'')) now ''groww'' lat
                    \<lparr>tk_pct_change := g ''dayChangePerc'', tk_upper_circuit := dec_opt (g ''highPriceRange''),
                     tk_lower_circuit := dec_opt (g ''lowPriceRange''), tk_week_52_high := dec_opt (g ''yearHighPrice''),
                     tk_week_52_low := dec_opt (g ''yearLowPrice''), tk_total_buy_qty := cnt ''totalBuyQty'',
                     tk_total_sell_qty := cnt ''totalSellQty'',
                     tk_open_interest := (if truthy_val (dget d ''openInterest'') then Some (py_trunc (g ''openInterest'')) else None)\<rparr>)
                    (g ''dayChange'')))"

definition groww_fetch :: "http \<Rightarrow> string \<Rightarrow> rat \<Rightarrow> datetime \<Rightarrow> fetched" where
  "groww_fetch r sm lat now =
     (case r of NoReply \<Rightarrow> settle lat (Inl (OtherError ''failed''))
      | Http status b \<Rightarrow>
          if status \<noteq> 200 \<or> b = NotJson then (Inl (ProviderError ''HTTP''), [None])
          else (case b of Json v \<Rightarrow>
                  (case as_obj v of None \<Rightarrow> settle lat (Inl (OtherError ''failed''))
                   | Some d \<Rightarrow> settle lat (groww_parse d (upper sm) lat now))
                | _ \<Rightarrow> settle lat (Inl (OtherError ''failed''))))"

definition groww_health :: "http \<Rightarrow> bool" where
  "groww_health r =
     (case r of Http status (Json v) \<Rightarrow> status = 200 \<and>
        (case as_obj v of None \<Rightarrow> False
         | Some d \<Rightarrow> (case to_float (case map_of d ''ltp'' of None \<Rightarrow> VInt 0 | Some x \<Rightarrow> x) of None \<Rightarrow> False | Some x \<Rightarrow> 0 < x))
      | _ \<Rightarrow> False)"

text \<open>\<^verbatim>\<open>fetch_bulk\<close> keeps what succeeded; the quotes are listed in the order of the symbols.\<close>

definition bulk_ticks :: "(string \<Rightarrow> fetched) \<Rightarrow> string list \<Rightarrow> tick list" where
  "bulk_ticks fetch syms = List.map_filter (\<lambda>s. case fst (fetch s) of Inr t \<Rightarrow> Some t | Inl _ \<Rightarrow> None) syms"

section \<open>Moneycontrol\<close>

definition sc_seed :: "(string \<times> string) list" where
  "sc_seed = [(''RELIANCE'', ''RI''), (''TCS'', ''TCS''), (''INFY'', ''IT''), (''HDFCBANK'', ''HDF01''),
     (''ICICIBANK'', ''ICI02''), (''SBIN'', ''SBI''), (''HINDUNILVR'', ''HL''), (''ITC'', ''ITC''),
     (''BHARTIARTL'', ''BA08''), (''KOTAKBANK'', ''KMF''), (''LT'', ''LT''), (''AXISBANK'', ''AB16''),
     (''BAJFINANCE'', ''BAF''), (''MARUTI'', ''MU01''), (''ASIANPAINT'', ''API''), (''HCLTECH'', ''HCL02''),
     (''SUNPHARMA'', ''SPI''), (''TITAN'', ''TI01''), (''WIPRO'', ''W''), (''ULTRACEMCO'', ''UTC01''),
     (''TATASTEEL'', ''TIS''), (''APOLLOTYRE'', ''AT''), (''IRCTC'', ''IRC''), (''ETERNAL'', ''Z01'')]"

text \<open>The first suggestion with an identifier; a row of another shape ends the search with an exception. \<open>rows\<close> is the
  list in the cleaned suggestion text.\<close>

fun first_sc :: "val list \<Rightarrow> string option" where
  "first_sc [] = None"
| "first_sc (VDict d # rows) =
     (case (val_or (dget d ''sc_id'') (VStr []), val_or (dget d ''link_src'') (VStr [])) of
        (VStr s, VStr _) \<Rightarrow> if strip s \<noteq> [] then Some (strip s) else first_sc rows
      | _ \<Rightarrow> None)"
| "first_sc (_ # rows) = None"

type_synonym sc_cache = "string \<rightharpoonup> string"

definition sc_resolve :: "val list \<Rightarrow> string \<Rightarrow> sc_cache \<Rightarrow> string option \<times> sc_cache" where
  "sc_resolve rows sm cache =
     (let s = upper sm
      in case cache s of Some c \<Rightarrow> (Some c, cache)
         | None \<Rightarrow> (case first_sc rows of None \<Rightarrow> (None, cache) | Some c \<Rightarrow> (Some c, cache(s \<mapsto> c))))"

definition mc_exchange :: "bool \<Rightarrow> string" where
  "mc_exchange bse = (if bse then ''BSE'' else ''NSE'')"

definition mc_name :: "bool \<Rightarrow> string" where
  "mc_name bse = (if bse then ''bse_live'' else ''nse_live'')"

definition mc_parse :: "bool \<Rightarrow> dict \<Rightarrow> string \<Rightarrow> rat \<Rightarrow> datetime \<Rightarrow> call_exn + tick" where
  "mc_parse bse d sm lat now =
     (let g = dec_get d; ltp = g ''pricecurrent''; prev = g ''priceprevclose''
      in if ltp \<le> 0 then Inl (ProviderError ''empty MC payload'')
         else validated (feed_tick (upper sm) (mc_exchange bse) (Some ''EQ'') ltp (dec_or (g ''OPN'') ltp) (dec_or (g ''HP'') ltp)
                (dec_or (g ''LP'') ltp) prev (py_trunc (g ''VOL'')) now (mc_name bse) lat
                \<lparr>tk_pct_change := g ''pricepercentchange'', tk_vwap := dec_opt (g ''VWAP''), tk_week_52_high := dec_opt (g ''52H''),
                 tk_week_52_low := dec_opt (g ''52L'')\<rparr>) (g ''pricechange''))"

definition mc_fetch :: "bool \<Rightarrow> val list \<Rightarrow> (string \<Rightarrow> http) \<Rightarrow> string \<Rightarrow> rat \<Rightarrow> datetime \<Rightarrow> sc_cache \<Rightarrow> fetched \<times> sc_cache" where
  "mc_fetch bse rows reply sm lat now cache =
     (let (sc, cache') = sc_resolve rows sm cache
      in (case sc of
            None \<Rightarrow> (Inl (ProviderError ''no Moneycontrol code''), [None])
          | Some [] \<Rightarrow> (Inl (ProviderError ''no Moneycontrol code''), [None])
          | Some code \<Rightarrow>
              (case reply code of NoReply \<Rightarrow> settle lat (Inl (OtherError ''failed''))
               | Http status b \<Rightarrow>
                   if status \<noteq> 200 \<or> b = NotJson then (Inl (ProviderError ''HTTP''), [None])
                   else (case b of Json v \<Rightarrow>
                           (case Option.bind (as_obj v) (\<lambda>o1. need_obj o1 ''data'') of
                              None \<Rightarrow> settle lat (Inl (OtherError ''failed''))
                            | Some d \<Rightarrow> settle lat (mc_parse bse d sm lat now))
                         | _ \<Rightarrow> settle lat (Inl (OtherError ''failed'')))), cache'))"

section \<open>The BSE site\<close>

definition bse_scrip_codes :: "(string \<times> string) list" where
  "bse_scrip_codes = [(''RELIANCE'', ''500325''), (''TCS'', ''532540''), (''INFY'', ''500209''), (''HDFCBANK'', ''500180''),
     (''ICICIBANK'', ''532174''), (''SBIN'', ''500112''), (''HINDUNILVR'', ''500696''), (''ITC'', ''500875''),
     (''BHARTIARTL'', ''532454''), (''KOTAKBANK'', ''500247''), (''LT'', ''500510''), (''AXISBANK'', ''532215''),
     (''BAJFINANCE'', ''500034''), (''MARUTI'', ''532500''), (''ASIANPAINT'', ''500820''), (''HCLTECH'', ''532281''),
     (''SUNPHARMA'', ''524715''), (''TITAN'', ''500114''), (''WIPRO'', ''507685''), (''ULTRACEMCO'', ''532538''),
     (''NESTLEIND'', ''500790''), (''TATAMOTORS'', ''500570''), (''TATASTEEL'', ''500470''), (''POWERGRID'', ''532898''),
     (''NTPC'', ''532555''), (''ONGC'', ''500312''), (''COALINDIA'', ''533278''), (''JSWSTEEL'', ''500228''),
     (''ADANIENT'', ''512599''), (''ADANIPORTS'', ''532921''), (''ADANIENTERP'', ''512599'')]"

text \<open>\<open>master\<close> is \<^verbatim>\<open>code_for\<close> of the loaded master (\<open>None\<close> also when loading raised).\<close>

definition bse_resolve :: "(string \<Rightarrow> string option) \<Rightarrow> string \<Rightarrow> sc_cache \<Rightarrow> string option \<times> sc_cache" where
  "bse_resolve master sm cache =
     (let s = upper sm
      in case cache s of Some c \<Rightarrow> (Some c, cache)
         | None \<Rightarrow> (case master s of Some (c # cs) \<Rightarrow> (Some (c # cs), cache(s \<mapsto> c # cs)) | _ \<Rightarrow> (None, cache)))"

definition bse_parse_fields :: "dict \<Rightarrow> dict \<Rightarrow> string \<Rightarrow> rat \<Rightarrow> datetime \<Rightarrow> call_exn + tick" where
  "bse_parse_fields h c sm lat now =
     (let f = dget h; g = dget c;
          ltp = dec_value (val_or (g ''LTP'') (val_or (f ''LTP'') (g ''Ltp'')));
          prev = dec_value (val_or (f ''PrevClose'') (f ''Prevclose''));
          change0 = dec_value (val_or (g ''Chg'') (f ''Change''));
          pct0 = dec_value (val_or (g ''PcChg'') (f ''PChange''));
          vol = py_trunc (dec_value (val_or (f ''Volume'') (f ''TotalTradedQty'')));
          wk_high = dec_value (val_or (f ''Week52High'') (f ''WeekHigh''));
          wk_low = dec_value (val_or (f ''Week52Low'') (f ''WeekLow''));
          base = pos_or ltp prev
      in if ltp \<le> 0 \<and> prev \<le> 0 then Inl (OtherError ''empty BSE payload'')
         else (let change = (if change0 = 0 \<and> prev > 0 then ltp - prev else change0);
                   pct = (if pct0 = 0 \<and> prev > 0 then py_round 2 (change / prev * 100) else pct0)
               in case opt_str (val_or (f ''ISIN'') VNone) of
                    None \<Rightarrow> Inl (OtherError ''validation'')
                  | Some isin \<Rightarrow>
                      validated (feed_tick sm ''BSE'' (Some ''EQ'') base (pos_or (dec_get h ''Open'') base) (pos_or (dec_get h ''High'') base)
                        (pos_or (dec_get h ''Low'') base) prev vol now ''bse_scraper'' lat
                        \<lparr>tk_isin := isin, tk_pct_change := pct, tk_week_52_high := pos_opt wk_high, tk_week_52_low := pos_opt wk_low\<rparr>) change))"

text \<open>\<^verbatim>\<open>_parse\<close>: every exception becomes a \<^verbatim>\<open>ProviderSchemaError\<close>.\<close>

definition schema_error :: "call_exn + tick \<Rightarrow> call_exn + tick" where
  "schema_error r = (case r of Inr t \<Rightarrow> Inr t | Inl _ \<Rightarrow> Inl (ProviderError ''schema''))"

definition bse_parse :: "dict \<Rightarrow> string \<Rightarrow> rat \<Rightarrow> datetime \<Rightarrow> call_exn + tick" where
  "bse_parse data sm lat now =
     schema_error
       (case (case map_of data ''Header'' of None \<Rightarrow> Some data | Some v \<Rightarrow> as_obj v) of
          None \<Rightarrow> Inl (OtherError ''schema'')
        | Some h \<Rightarrow> (case as_obj (dget h ''CurrRate'') of None \<Rightarrow> Inl (OtherError ''schema'')
                     | Some c \<Rightarrow> bse_parse_fields h c sm lat now))"

definition bse_fetch :: "(string \<Rightarrow> string option) \<Rightarrow> (string \<Rightarrow> http) \<Rightarrow> string \<Rightarrow> rat \<Rightarrow> datetime \<Rightarrow> sc_cache \<Rightarrow> fetched \<times> sc_cache" where
  "bse_fetch master reply sm lat now cache =
     (let (code, cache') = bse_resolve master sm cache
      in (case code of None \<Rightarrow> (Inl (ProviderError ''no BSE scrip code''), [None])
          | Some c \<Rightarrow>
              (case reply c of NoReply \<Rightarrow> settle lat (Inl (OtherError ''failed''))
               | Http status b \<Rightarrow>
                   if status \<noteq> 200 then (Inl (ProviderError (if status = 403 then ''blocked'' else ''HTTP'')), [None])
                   else (case b of Json (VDict d) \<Rightarrow> settle lat (bse_parse d sm lat now)
                         | Json v \<Rightarrow> settle lat (Inl (ProviderError ''schema''))
                         | _ \<Rightarrow> settle lat (Inl (OtherError ''failed'')))), cache'))"

section \<open>The NSE site\<close>

definition nse_level :: "val \<Rightarrow> depth_level option" where
  "nse_level v =
     (case v of
        VDict d \<Rightarrow>
          (case (to_int (val_or (dget d ''quantity'') (VInt 0)), to_int (val_or (dget d ''number'') (VInt 0))) of
             (Some q, Some n) \<Rightarrow>
               (let l = \<lparr>lv_price = dec_get d ''price'', lv_quantity = q, lv_orders = n\<rparr> in if level_ok l then Some l else None)
           | _ \<Rightarrow> None)
      | _ \<Rightarrow> None)"

text \<open>The first five rows of a side, without the ones that do not parse; \<open>None\<close> is the exception of slicing.\<close>

definition nse_side :: "val \<Rightarrow> depth_level list option" where
  "nse_side v = (case v of VList xs \<Rightarrow> Some (List.map_filter nse_level (take 5 xs)) | VStr s \<Rightarrow> Some [] | _ \<Rightarrow> None)"

definition side_of :: "dict \<Rightarrow> string \<Rightarrow> val" where
  "side_of d k = (case map_of d k of None \<Rightarrow> VList [] | Some v \<Rightarrow> v)"

text \<open>\<^verbatim>\<open>_parse_market_depth\<close>; the outer \<open>None\<close> is an exception.\<close>

definition nse_depth :: "val \<Rightarrow> market_depth option option" where
  "nse_depth v =
     (if \<not> truthy_val v then Some None
      else (case v of
          VDict d \<Rightarrow>
            (let bids = side_of d ''bid''; asks = side_of d ''ask''
             in if \<not> truthy_val bids \<and> \<not> truthy_val asks then Some None
                else (case (nse_side bids, nse_side asks, to_int (val_or (dget d ''totalBuyQuantity'') (VInt 0)),
                            to_int (val_or (dget d ''totalSellQuantity'') (VInt 0))) of
                    (Some b, Some a, Some tb, Some ts) \<Rightarrow>
                      (let md = \<lparr>md_buy = b, md_sell = a, md_total_buy = tb, md_total_sell = ts\<rparr>
                       in if depth_ok md then Some (Some md) else None)
                  | _ \<Rightarrow> None))
        | _ \<Rightarrow> None))"

definition nse_parse :: "dict \<Rightarrow> string \<Rightarrow> rat \<Rightarrow> datetime \<Rightarrow> call_exn + tick" where
  "nse_parse data sm lat now =
     schema_error
       (case (need_obj data ''info'', need_obj data ''priceInfo'', need_obj data ''securityInfo'') of
          (Some info, Some pr, Some sec) \<Rightarrow>
            (case (nse_depth (case map_of data ''marketDeptOrderBook'' of None \<Rightarrow> VDict [] | Some v \<Rightarrow> v),
                   need_obj pr ''intraDayHighLow'', need_obj pr ''weekHighLow'',
                   to_int (val_or (dget sec ''tradedVolume'') (VInt 0)), opt_str (dget info ''isin''),
                   (case map_of info ''series'' of None \<Rightarrow> Some (Some ''EQ'') | Some v \<Rightarrow> opt_str v)) of
               (Some depth, Some hl, Some wk, Some vol, Some isin, Some series) \<Rightarrow>
                 (let g = dec_get pr; ltp = g ''lastPrice''
                  in validated (feed_tick sm ''NSE'' series ltp (g ''open'') (pos_or (dec_get hl ''max'') ltp)
                       (pos_or (dec_get hl ''min'') ltp) (g ''previousClose'') vol now ''nse_scraper'' lat
                       \<lparr>tk_isin := isin, tk_pct_change := g ''pChange'', tk_vwap := Some (g ''vwap''),
                        tk_upper_circuit := Some (g ''upperCP''), tk_lower_circuit := Some (g ''lowerCP''),
                        tk_value := Some (dec_get sec ''totalTradedValue''), tk_week_52_high := Some (dec_get wk ''max''),
                        tk_week_52_low := Some (dec_get wk ''min''), tk_depth := depth\<rparr>) (g ''change''))
             | _ \<Rightarrow> Inl (OtherError ''schema''))
        | _ \<Rightarrow> Inl (OtherError ''schema''))"

section \<open>Yahoo\<close>

text \<open>\<^verbatim>\<open>Decimal(str(v))\<close>, which raises on what is no number.\<close>

fun dec_strict :: "val \<Rightarrow> rat option" where
  "dec_strict (VInt n) = Some (of_int n)"
| "dec_strict (VNum x) = Some x"
| "dec_strict (VStr s) = parse_decimal s"
| "dec_strict v = None"

definition yahoo_suffix :: "string \<Rightarrow> string" where
  "yahoo_suffix sm = (if CHR ''.'' \<in> set sm then sm else sm @ ''.NS'')"

text \<open>\<^verbatim>\<open>_fetch_sync\<close>: the ticker's \<^verbatim>\<open>info\<close>, or the fields of \<^verbatim>\<open>fast_info\<close> (\<open>fi\<close>) under their names there.\<close>

definition yahoo_info :: "dict \<Rightarrow> (string \<Rightarrow> val option) \<Rightarrow> dict" where
  "yahoo_info info fi =
     (if info = [] \<or> dget info ''regularMarketPrice'' = VNone
      then (let a = (\<lambda>k dflt. case fi k of None \<Rightarrow> dflt | Some v \<Rightarrow> v)
            in [(''regularMarketPrice'', a ''last_price'' (VInt 0)), (''regularMarketOpen'', a ''open'' (VInt 0)),
                (''regularMarketDayHigh'', a ''day_high'' (VInt 0)), (''regularMarketDayLow'', a ''day_low'' (VInt 0)),
                (''regularMarketPreviousClose'', a ''previous_close'' (VInt 0)), (''regularMarketVolume'', a ''last_volume'' (VInt 0)),
                (''fiftyTwoWeekHigh'', a ''year_high'' VNone), (''fiftyTwoWeekLow'', a ''year_low'' VNone),
                (''marketCap'', a ''market_cap'' VNone)])
      else info)"

definition yahoo_parse :: "dict \<Rightarrow> string \<Rightarrow> rat \<Rightarrow> datetime \<Rightarrow> call_exn + tick" where
  "yahoo_parse info sm lat now =
     (let n = (\<lambda>k. dec_strict (val_or (dget info k) (VInt 0)));
          w = (\<lambda>k. if truthy_val (dget info k) then map_option Some (dec_strict (dget info k)) else Some None)
      in case (n ''regularMarketPrice'', n ''regularMarketOpen'', n ''regularMarketDayHigh'', n ''regularMarketDayLow'',
               n ''regularMarketPreviousClose'', to_int (val_or (dget info ''regularMarketVolume'') (VInt 0)),
               w ''fiftyTwoWeekHigh'', w ''fiftyTwoWeekLow'') of
           (Some ltp, Some op, Some hi, Some lo, Some cl, Some vol, Some wh, Some wl) \<Rightarrow>
             (let change = (if cl > 0 then ltp - cl else 0); pct = (if cl > 0 then change / cl * 100 else 0)
              in validated (feed_tick sm ''NSE'' None ltp (pos_or op ltp) (pos_or hi ltp) (pos_or lo ltp) cl vol now ''yahoo_finance'' lat
                   \<lparr>tk_pct_change := py_round 2 pct, tk_week_52_high := wh, tk_week_52_low := wl\<rparr>) change)
         | _ \<Rightarrow> Inl (OtherError ''Decimal''))"

text \<open>\<open>info\<close> is \<open>None\<close> when the client raised.\<close>

definition yahoo_fetch :: "dict option \<Rightarrow> string \<Rightarrow> rat \<Rightarrow> datetime \<Rightarrow> fetched" where
  "yahoo_fetch info sm lat now =
     (case (case info of None \<Rightarrow> Inl (OtherError ''failed'') | Some i \<Rightarrow> yahoo_parse i sm lat now) of
        Inr t \<Rightarrow> (Inr t, [Some lat])
      | Inl e \<Rightarrow> (Inl (ProviderError ''failed''), [None]))"

text \<open>\<open>data\<close> is the map of the batch client, with the suffixed symbols, or \<open>None\<close> when it raised; no metric is recorded.\<close>

definition yahoo_bulk :: "(string \<Rightarrow> dict option) option \<Rightarrow> string list \<Rightarrow> rat \<Rightarrow> datetime \<Rightarrow> tick list" where
  "yahoo_bulk data syms lat now =
     (case data of None \<Rightarrow> []
      | Some f \<Rightarrow> List.map_filter (\<lambda>s. case f (yahoo_suffix s) of None \<Rightarrow> None | Some [] \<Rightarrow> None
                  | Some i \<Rightarrow> (case yahoo_parse i s lat now of Inr t \<Rightarrow> Some t | Inl _ \<Rightarrow> None)) syms)"

section \<open>What a feed may return\<close>

lemma validated_ok:
  assumes "validated raw ch = Inr t"
  shows "tick_ok t \<and> t = raw\<lparr>tk_symbol := normalize_symbol (tk_symbol raw), tk_change := ch\<rparr>"
proof -
  from assms have t: "make_tick raw (Some (Some ch)) = Some t" by (simp add: validated_def split: option.splits)
  then have "raw\<lparr>tk_symbol := normalize_symbol (tk_symbol raw), tk_change := ch\<rparr> = t"
    by (simp only: make_tick_def Let_def compute_change_def option.case split: if_split_asm) simp_all
  with make_tick_ok[OF t] show ?thesis by blast
qed

lemma feed_tick_sel [simp]:
  "tk_exchange (feed_tick sm exch series ltp op hi lo cl vol now src lat) = exch"
  "tk_source (feed_tick sm exch series ltp op hi lo cl vol now src lat) = src"
  "tk_ltp (feed_tick sm exch series ltp op hi lo cl vol now src lat) = ltp"
  "tk_symbol (feed_tick sm exch series ltp op hi lo cl vol now src lat) = sm"
  "tk_close (feed_tick sm exch series ltp op hi lo cl vol now src lat) = cl"
  by (simp_all add: feed_tick_def)

lemma schema_error_Inr [simp]: "schema_error r = Inr t \<longleftrightarrow> r = Inr t"
  by (simp add: schema_error_def split: sum.split)

lemma settle_Inr: "fst (settle lat r) = Inr t \<longleftrightarrow> r = Inr t"
  by (auto simp: settle_def split: sum.split call_exn.split)

text \<open>A tick in the shape that the rest of the server relies on: it passed the model's validation, and carries the venue
  and the name of its feed and the symbol asked for.\<close>

definition feed_ok :: "string \<Rightarrow> string \<Rightarrow> string \<Rightarrow> tick \<Rightarrow> bool" where
  "feed_ok exch src sm t \<longleftrightarrow> tick_ok t \<and> tk_exchange t = exch \<and> tk_source t = src \<and> tk_symbol t = normalize_symbol sm"

text \<open>The instant of the examples.\<close>

definition demo_instant :: datetime where
  "demo_instant = \<lparr>dt_date = mk_date 2026 1 5, dt_us = us_of 10 0, dt_tz = Some ist_offset\<rparr>"

lemma normalize_symbol_upper_in [simp]: "normalize_symbol (upper sm) = normalize_symbol sm"
  by (simp add: normalize_symbol_def strip_upper)

lemma groww_parse_ok: "groww_parse d sm lat now = Inr t \<Longrightarrow> feed_ok ''NSE'' ''groww'' sm t \<and> 0 < tk_ltp t"
  by (auto simp: groww_parse_def Let_def feed_ok_def split: if_splits dest!: validated_ok)

lemma mc_parse_ok: "mc_parse bse d sm lat now = Inr t \<Longrightarrow> feed_ok (mc_exchange bse) (mc_name bse) sm t \<and> 0 < tk_ltp t"
  by (auto simp: mc_parse_def Let_def feed_ok_def split: if_splits dest!: validated_ok)

lemma bse_fields_ok: "bse_parse_fields h c sm lat now = Inr t \<Longrightarrow> feed_ok ''BSE'' ''bse_scraper'' sm t \<and> 0 < tk_ltp t"
proof -
  assume r: "bse_parse_fields h c sm lat now = Inr t"
  define ltp where "ltp = dec_value (val_or (dget c ''LTP'') (val_or (dget h ''LTP'') (dget c ''Ltp'')))"
  define prev where "prev = dec_value (val_or (dget h ''PrevClose'') (dget h ''Prevclose''))"
  note def = bse_parse_fields_def[of h c sm lat now, unfolded Let_def, folded ltp_def prev_def]
  from r def have pos: "\<not> (ltp \<le> 0 \<and> prev \<le> 0)" by (metis Inl_Inr_False)
  then have base: "0 < pos_or ltp prev" by (auto simp: pos_or_def)
  obtain isin where isin: "opt_str (val_or (dget h ''ISIN'') VNone) = Some isin"
    using r pos unfolding def by (cases "opt_str (val_or (dget h ''ISIN'') VNone)") simp_all
  show ?thesis
    using r pos base unfolding def by (simp only: isin if_False option.case) (drule validated_ok, elim conjE, simp add: feed_ok_def)
qed

lemma bse_parse_ok: "bse_parse data sm lat now = Inr t \<Longrightarrow> feed_ok ''BSE'' ''bse_scraper'' sm t \<and> 0 < tk_ltp t"
  by (auto simp: bse_parse_def split: option.splits dest: bse_fields_ok)

lemma nse_parse_ok: "nse_parse data sm lat now = Inr t \<Longrightarrow> feed_ok ''NSE'' ''nse_scraper'' sm t"
  by (auto simp: nse_parse_def Let_def feed_ok_def split: option.splits dest!: validated_ok)

lemma yahoo_parse_ok: "yahoo_parse info sm lat now = Inr t \<Longrightarrow> feed_ok ''NSE'' ''yahoo_finance'' sm t"
  by (auto simp: yahoo_parse_def Let_def feed_ok_def split: option.splits dest!: validated_ok)

lemma groww_fetch_ok: "fst (groww_fetch r sm lat now) = Inr t \<Longrightarrow> feed_ok ''NSE'' ''groww'' sm t \<and> 0 < tk_ltp t"
  by (auto simp: groww_fetch_def settle_Inr split: http.splits body.splits option.splits if_splits dest: groww_parse_ok)
    (auto simp: feed_ok_def dest: groww_parse_ok)

lemma mc_fetch_ok:
  assumes "fst (fst (mc_fetch bse rows reply sm lat now cache)) = Inr t"
  shows "feed_ok (mc_exchange bse) (mc_name bse) sm t \<and> 0 < tk_ltp t"
  using assms
  by (auto simp: mc_fetch_def settle_Inr split: prod.splits http.splits body.splits option.splits list.splits if_splits dest: mc_parse_ok)

lemma bse_fetch_ok:
  assumes "fst (fst (bse_fetch master reply sm lat now cache)) = Inr t"
  shows "feed_ok ''BSE'' ''bse_scraper'' sm t \<and> 0 < tk_ltp t"
  using assms
  by (auto simp: bse_fetch_def settle_Inr split: prod.splits http.splits body.splits val.splits option.splits if_splits dest: bse_parse_ok)

lemma yahoo_fetch_ok: "fst (yahoo_fetch info sm lat now) = Inr t \<Longrightarrow> feed_ok ''NSE'' ''yahoo_finance'' sm t"
  by (auto simp: yahoo_fetch_def split: sum.splits option.splits dest: yahoo_parse_ok)

text \<open>The NSE site's parser has no such guard: from a document without prices it builds a valid tick at price 0.\<close>

lemma nse_empty_document: "\<exists>t. nse_parse [] ''TCS'' 0 now = Inr t \<and> tk_ltp t = 0"
proof -
  have "normalize_symbol ''TCS'' = ''TCS''" by code_simp
  then show ?thesis
    by (simp add: nse_parse_def need_obj_def nse_depth_def val_or_def Let_def validated_def make_tick_def feed_tick_def tick_ok_def
        opt_ge0_def compute_change_def pos_or_def dec_get_def schema_error_def)
qed

text \<open>Yahoo's ticks name the NSE whatever the suffix asked for.\<close>

lemma yahoo_bo_is_nse: "yahoo_suffix ''TCS.BO'' = ''TCS.BO''" "yahoo_parse info ''TCS.BO'' lat now = Inr t \<Longrightarrow> tk_exchange t = ''NSE''"
  by (simp_all add: yahoo_suffix_def) (auto dest: yahoo_parse_ok simp: feed_ok_def)

text \<open>The suggestion of Moneycontrol is taken without comparing its ticker.\<close>

lemma first_sc_unchecked:
  assumes "dget d ''sc_id'' = VStr s" "strip s \<noteq> []" "dget d ''link_src'' = VStr u"
  shows "first_sc (VDict d # rows) = Some (strip s)"
  using assms by (cases "s = []"; cases "u = []") (auto simp: val_or_def strip_def)

end
