(* ===== verification/IsoTime.thy ===== *)
theory IsoTime
  imports Clock
begin

text \<open>
  The part of Python's \<^verbatim>\<open>datetime\<close> library that turns instants into ISO text and back, which
  every candle and quote of the service goes through: \<^verbatim>\<open>datetime.fromordinal\<close> (the
  400/100/4/1-year decomposition), \<^verbatim>\<open>isoformat()\<close>, \<^verbatim>\<open>fromisoformat()\<close> for the extended
  calendar form \<^verbatim>\<open>YYYY-MM-DD[THH:MM[:SS[.f]][Z|+HH:MM]]\<close>, \<^verbatim>\<open>timestamp()\<close> of an aware value and
  \<^verbatim>\<open>fromtimestamp(t, tz)\<close> with a fixed offset. Instants are integers in microseconds.

  Proved: the day arithmetic is exact and text and instants round trip.
\<close>

section \<open>Dates from ordinals\<close>

fun find_month :: "int \<Rightarrow> int \<Rightarrow> nat \<Rightarrow> int \<times> int" where
  "find_month y n 0 = (1, n + 1)"
| "find_month y n (Suc m) =
     (if days_before_month y (int m + 2) \<le> n then (int m + 2, n - days_before_month y (int m + 2) + 1)
      else find_month y n m)"

definition fromordinal :: "int \<Rightarrow> date" where
  "fromordinal ord =
     (let n = ord - 1; n400 = n div 146097; r400 = n mod 146097;
          n100 = r400 div 36524; r100 = r400 mod 36524;
          n4 = r100 div 1461; r4 = r100 mod 1461;
          n1 = r4 div 365; r1 = r4 mod 365;
          y = n400 * 400 + n100 * 100 + n4 * 4 + n1 + 1
      in if n1 = 4 \<or> n100 = 4 then mk_date (y - 1) 12 31
         else case find_month y r1 11 of (m, d) \<Rightarrow> mk_date y m d)"

lemma find_month_ordinal:
  "find_month y n k = (m, d) \<Longrightarrow> days_before_month y m + d = n + 1"
proof (induction k)
  case (Suc k)
  then show ?case by (auto split: if_splits)
qed (simp add: days_before_month_def)

text \<open>The year part: in a year of the decomposition the days before it are the days counted.\<close>

lemma days_before_parts:
  assumes "0 \<le> b" "b \<le> 3" "0 \<le> c" "c \<le> 24" "0 \<le> e" "e \<le> 3"
  shows "days_before_year (a * 400 + b * 100 + c * 4 + e + 1) = a * 146097 + b * 36524 + c * 1461 + e * 365"
proof -
  let ?p = "a * 400 + b * 100 + c * 4 + e"
  have quot: "k * q + r = p \<Longrightarrow> 0 \<le> r \<Longrightarrow> r < k \<Longrightarrow> p div k = q" for k q r p :: int by auto
  have "?p div 4 = a * 100 + b * 25 + c" by (rule quot[of _ _ e]) (use assms in simp)+
  moreover have "?p div 100 = a * 4 + b" by (rule quot[of _ _ "c * 4 + e"]) (use assms in simp)+
  moreover have "?p div 400 = a" by (rule quot[of _ _ "b * 100 + c * 4 + e"]) (use assms in simp)+
  ultimately show ?thesis by (simp add: days_before_year_def Let_def)
qed

lemma fromordinal_toordinal: "toordinal (fromordinal ord) = ord"
proof -
  define n where "n = ord - 1"
  define a where "a = n div 146097"
  define r400 where "r400 = n mod 146097"
  define b where "b = r400 div 36524"
  define r100 where "r100 = r400 mod 36524"
  define c where "c = r100 div 1461"
  define r4 where "r4 = r100 mod 1461"
  define e where "e = r4 div 365"
  define r1 where "r1 = r4 mod 365"
  define y where "y = a * 400 + b * 100 + c * 4 + e + 1"
  have n: "n = a * 146097 + r400" and r400: "0 \<le> r400" "r400 < 146097" by (simp_all add: a_def r400_def)
  have b: "r400 = b * 36524 + r100" and r100: "0 \<le> r100" "r100 < 36524" by (simp_all add: b_def r100_def)
  have c: "r100 = c * 1461 + r4" and r4: "0 \<le> r4" "r4 < 1461" by (simp_all add: c_def r4_def)
  have e: "r4 = e * 365 + r1" and r1: "0 \<le> r1" "r1 < 365" by (simp_all add: e_def r1_def)
  have bb: "0 \<le> b" "b \<le> 4" using b r400 r100 by linarith+
  have cb: "0 \<le> c" "c \<le> 24" using c r100 r4 by linarith+
  have eb: "0 \<le> e" "e \<le> 4" using e r4 r1 by linarith+
  have from_eq: "fromordinal ord = (if e = 4 \<or> b = 4 then mk_date (y - 1) 12 31
      else case find_month y r1 11 of (m, d) \<Rightarrow> mk_date y m d)"
    by (simp only: fromordinal_def Let_def n_def[symmetric] a_def[symmetric] r400_def[symmetric] b_def[symmetric]
        r100_def[symmetric] c_def[symmetric] r4_def[symmetric] e_def[symmetric] r1_def[symmetric] y_def[symmetric])
  have ord: "ord = n + 1" by (simp add: n_def)
  show ?thesis
  proof (cases "e = 4 \<or> b = 4")
    case True
    have "days_before_year y = n + 1"
    proof (cases "b = 4")
      case True
      then have "c = 0" "r4 = 0" using b c r400 r100 r4 cb by linarith+
      then have "e = 0" "r1 = 0" using e r1 eb by linarith+
      with True \<open>c = 0\<close> have "y = (a + 1) * 400 + 0 * 100 + 0 * 4 + 0 + 1" by (simp add: y_def)
      then have "days_before_year y = (a + 1) * 146097" using days_before_parts[of 0 0 0 "a + 1"] by simp
      with True show ?thesis using n b c e \<open>c = 0\<close> \<open>e = 0\<close> \<open>r1 = 0\<close> by simp
    next
      case False
      with True have e4: "e = 4" and "b \<le> 3" using bb by auto
      with e r4 r1 have r1: "r1 = 0" by linarith
      show ?thesis
      proof (cases "c = 24")
        case True
        then have "r4 < 1460" using c r100 by linarith
        with e e4 r1 show ?thesis by simp
      next
        case False
        with e4 have "y = a * 400 + b * 100 + (c + 1) * 4 + 0 + 1" "c + 1 \<le> 24" using cb by (simp_all add: y_def)
        with days_before_parts[of b "c + 1" 0 a] bb \<open>b \<le> 3\<close> cb
        have "days_before_year y = a * 146097 + b * 36524 + (c + 1) * 1461" by simp
        with n b c e e4 r1 show ?thesis by simp
      qed
    qed
    moreover have "toordinal (mk_date (y - 1) 12 31) = days_before_year y"
      using days_before_year_Suc[of "y - 1"]
      by (cases "leap (y - 1)") (simp_all add: toordinal_def mk_date_def days_before_month_def)
    ultimately show ?thesis using True ord from_eq by simp
  next
    case False
    then have lt: "b \<le> 3" "e \<le> 3" using bb eb by auto
    obtain m d where md: "find_month y r1 11 = (m, d)" by fastforce
    have "toordinal (mk_date y m d) = days_before_year y + (r1 + 1)"
      using find_month_ordinal[OF md] by (simp add: toordinal_def mk_date_def)
    also have "days_before_year y = a * 146097 + b * 36524 + c * 1461 + e * 365"
      unfolding y_def using lt bb cb eb by (intro days_before_parts) auto
    finally show ?thesis using False md from_eq ord n b c e by simp
  qed
qed

section \<open>Decimal fields\<close>

fun pad :: "nat \<Rightarrow> int \<Rightarrow> string" where
  "pad 0 k = []"
| "pad (Suc n) k = pad n (k div 10) @ [char_of (nat (48 + k mod 10))]"

lemma length_pad [simp]: "length (pad n k) = n"
  by (induction n k rule: pad.induct) auto

declare pad.simps [simp del]

lemma digit_of_char:
  assumes "0 \<le> d" "d < 10"
  shows "is_digit (char_of (nat (48 + d)))" "of_char (char_of (nat (48 + d))) = 48 + (d::int)"
proof -
  have "d = 0 \<or> d = 1 \<or> d = 2 \<or> d = 3 \<or> d = 4 \<or> d = 5 \<or> d = 6 \<or> d = 7 \<or> d = 8 \<or> d = 9"
    using assms by presburger
  then show "is_digit (char_of (nat (48 + d)))" "of_char (char_of (nat (48 + d))) = 48 + d"
    by (auto simp: is_digit_def less_eq_char_def of_nat_of_char[of "char_of _", where 'a = int, symmetric])
qed

lemma pad_digits: "c \<in> set (pad n k) \<Longrightarrow> is_digit c"
  by (induction n k rule: pad.induct) (auto simp: pad.simps intro!: digit_of_char)

lemma digits_val_append:
  "digits_val acc (xs @ ys) = Option.bind (digits_val acc xs) (\<lambda>a. digits_val a ys)"
  by (induction acc xs rule: digits_val.induct) auto

lemma digits_val_pad:
  "0 \<le> k \<Longrightarrow> k < 10 ^ n \<Longrightarrow> digits_val acc (pad n k) = Some (acc * 10 ^ n + k)"
proof (induction n k arbitrary: acc rule: pad.induct)
  case (2 n k)
  have "k div 10 < 10 ^ n" using 2(3) by (simp add: div_less_iff_less_mult mult.commute) 
  then have "digits_val acc (pad n (k div 10)) = Some (acc * 10 ^ n + k div 10)"
    using 2 by simp
  then show ?case by (simp add: pad.simps digits_val_append digit_of_char algebra_simps)
qed (simp add: pad.simps)

section \<open>Text form\<close>

definition offset_text :: "int option \<Rightarrow> string" where
  "offset_text z = (case z of None \<Rightarrow> []
     | Some k \<Rightarrow> (if k < 0 then CHR ''-'' else CHR ''+'') # pad 2 (\<bar>k\<bar> div 60) @ '':'' @ pad 2 (\<bar>k\<bar> mod 60))"

definition date_text :: "date \<Rightarrow> string" where
  "date_text d = pad 4 (year d) @ ''-'' @ pad 2 (month d) @ ''-'' @ pad 2 (day d)"

definition clock_text :: "int \<Rightarrow> string" where
  "clock_text u =
     (let s = u div 1000000; f = u mod 1000000
      in pad 2 (s div 3600) @ '':'' @ pad 2 (s div 60 mod 60) @ '':'' @ pad 2 (s mod 60) @
         (if f = 0 then [] else ''.'' @ pad 6 f))"

definition isoformat :: "datetime \<Rightarrow> string" where
  "isoformat t = date_text (dt_date t) @ ''T'' @ clock_text (dt_us t) @ offset_text (dt_tz t)"

definition parse_date :: "string \<Rightarrow> date option" where
  "parse_date s =
     (if length s = 10 \<and> s ! 4 = CHR ''-'' \<and> s ! 7 = CHR ''-''
      then (case (digits_val 0 (take 4 s), digits_val 0 (take 2 (drop 5 s)), digits_val 0 (drop 8 s)) of
              (Some y, Some m, Some d) \<Rightarrow> if valid_date (mk_date y m d) then Some (mk_date y m d) else None
            | _ \<Rightarrow> None)
      else None)"

definition parse_fraction :: "string \<Rightarrow> int option" where
  "parse_fraction s =
     (case s of [] \<Rightarrow> Some 0
      | c # f \<Rightarrow> if c = CHR ''.'' \<and> f \<noteq> [] \<and> list_all is_digit f
          then digits_val 0 (take 6 (f @ ''000000'')) else None)"

definition parse_clock :: "string \<Rightarrow> int option" where
  "parse_clock s =
     (if 5 \<le> length s \<and> s ! 2 = CHR '':''
      then (case (digits_val 0 (take 2 s), digits_val 0 (take 2 (drop 3 s))) of
              (Some h, Some m) \<Rightarrow>
                 (case (if length s = 5 then Some (0, 0)
                        else if 8 \<le> length s \<and> s ! 5 = CHR '':''
                        then (case (digits_val 0 (take 2 (drop 6 s)), parse_fraction (drop 8 s)) of
                                (Some sec, Some f) \<Rightarrow> Some (sec, f) | _ \<Rightarrow> None)
                        else None) of
                    None \<Rightarrow> None
                  | Some (sec, f) \<Rightarrow> if h < 24 \<and> m < 60 \<and> sec < 60
                      then Some (((h * 60 + m) * 60 + sec) * 1000000 + f) else None)
            | _ \<Rightarrow> None)
      else None)"

definition parse_offset :: "string \<Rightarrow> int option option" where
  "parse_offset s =
     (if s = [] then Some None
      else if s = ''Z'' then Some (Some 0)
      else if length s = 6 \<and> (s ! 0 = CHR ''+'' \<or> s ! 0 = CHR ''-'') \<and> s ! 3 = CHR '':''
      then (case (digits_val 0 (take 2 (drop 1 s)), digits_val 0 (drop 4 s)) of
              (Some h, Some m) \<Rightarrow> if h < 24 \<and> m < 60
                 then Some (Some ((if s ! 0 = CHR ''-'' then -1 else 1) * (h * 60 + m))) else None
            | _ \<Rightarrow> None)
      else None)"

definition in_clock :: "char \<Rightarrow> bool" where
  "in_clock c \<longleftrightarrow> is_digit c \<or> c = CHR '':'' \<or> c = CHR ''.''"

definition fromisoformat :: "string \<Rightarrow> datetime option" where
  "fromisoformat s =
     (case parse_date (take 10 s) of
        None \<Rightarrow> None
      | Some d \<Rightarrow>
          if length s \<le> 10 then Some \<lparr>dt_date = d, dt_us = 0, dt_tz = None\<rparr>
          else (case (parse_clock (takeWhile in_clock (drop 11 s)), parse_offset (dropWhile in_clock (drop 11 s))) of
                  (Some u, Some z) \<Rightarrow> Some \<lparr>dt_date = d, dt_us = u, dt_tz = z\<rparr> | _ \<Rightarrow> None))"

definition datetime_ok :: "datetime \<Rightarrow> bool" where
  "datetime_ok t \<longleftrightarrow> valid_date (dt_date t) \<and> 0 \<le> dt_us t \<and> dt_us t < day_us \<and>
     (case dt_tz t of None \<Rightarrow> True | Some k \<Rightarrow> \<bar>k\<bar> < 1440)"

lemma parse_date_text: assumes "valid_date d" shows "parse_date (date_text d) = Some d"
proof -
  have "month_len (year d) (month d) \<le> 31" by (rule month_len_pos)
  with assms have b: "0 \<le> year d" "year d < 10 ^ 4" "0 \<le> month d" "month d < 10 ^ 2" "0 \<le> day d" "day d < 10 ^ 2"
    by (auto simp: valid_date_def)
  have nth: "date_text d ! 4 = CHR ''-''" "date_text d ! 7 = CHR ''-''"
    by (simp_all add: date_text_def nth_append)
  have parts: "take 4 (date_text d) = pad 4 (year d)" "take 2 (drop 5 (date_text d)) = pad 2 (month d)"
    "drop 8 (date_text d) = pad 2 (day d)"
    by (simp_all add: date_text_def)
  have len: "length (date_text d) = 10" by (simp add: date_text_def)
  have "mk_date (year d) (month d) (day d) = d" by (simp add: mk_date_def)
  then show ?thesis
    using assms by (simp add: parse_date_def nth parts len digits_val_pad[OF b(1,2)] digits_val_pad[OF b(3,4)] digits_val_pad[OF b(5,6)])
qed

lemma length_date_text [simp]: "length (date_text d) = 10"
  by (simp add: date_text_def)

lemma fraction_text: assumes "0 < f" "f < 10 ^ 6" shows "parse_fraction (CHR ''.'' # pad 6 f) = Some f"
proof -
  have "pad 6 f \<noteq> []" by (metis length_pad list.size(3) zero_neq_numeral)
  moreover have "list_all is_digit (pad 6 f)" using pad_digits by (auto simp: list_all_iff)
  moreover have "digits_val 0 (pad 6 f) = Some f" using assms by (subst digits_val_pad) auto
  ultimately show ?thesis by (simp add: parse_fraction_def)
qed

lemma parse_clock_parts:
  assumes "0 \<le> h" "h < 24" "0 \<le> m" "m < 60" "0 \<le> x" "x < 60" "parse_fraction fr = Some f"
  shows "parse_clock (pad 2 h @ '':'' @ pad 2 m @ '':'' @ pad 2 x @ fr) = Some (((h * 60 + m) * 60 + x) * 1000000 + f)"
proof -
  define t where "t = pad 2 h @ '':'' @ pad 2 m @ '':'' @ pad 2 x @ fr"
  have parts: "take 2 t = pad 2 h" "t ! 2 = CHR '':''" "take 2 (drop 3 t) = pad 2 m"
     "t ! 5 = CHR '':''" "take 2 (drop 6 t) = pad 2 x" "drop 8 t = fr"
    by (simp_all add: t_def nth_append)
  have len: "5 \<le> length t" "length t \<noteq> 5" "8 \<le> length t" by (simp_all add: t_def)
  have v: "digits_val 0 (pad 2 k) = Some k" if "0 \<le> k" "k < 60" for k
    using that by (subst digits_val_pad) auto
  have h: "h < 60" using assms(2) by simp
  show ?thesis unfolding t_def[symmetric] parse_clock_def parts(1,3,5,6) assms(7)
    by (simp only: len parts(2,4) v[OF assms(1) h] v[OF assms(3,4)] v[OF assms(5,6)] assms simp_thms if_True if_False option.case prod.case)
qed

lemma clock_text_clock: assumes "0 \<le> u" "u < day_us" shows "parse_clock (clock_text u) = Some u"
proof -
  define s where "s = u div 1000000"
  define f where "f = u mod 1000000"
  have u: "u = s * 1000000 + f" and f: "0 \<le> f" "f < 1000000" by (simp_all add: s_def f_def)
  have s: "0 \<le> s" "s < 86400" using assms u f by (auto simp: day_us_def us_of_def)
  have "s div 60 div 60 = s div 3600" using s(1) by (simp add: zdiv_zmult2_eq[symmetric])
  then have sum: "(s div 3600 * 60 + s div 60 mod 60) * 60 + s mod 60 = s" by (metis div_mult_mod_eq)
  have b: "0 \<le> s div 3600" "s div 3600 < 24" "0 \<le> s div 60 mod 60" "s div 60 mod 60 < 60" "0 \<le> s mod 60" "s mod 60 < 60"
    using s by auto
  have "parse_fraction (if f = 0 then [] else ''.'' @ pad 6 f) = Some f"
    using f fraction_text[of f] by (cases "f = 0") (simp_all add: parse_fraction_def)
  from parse_clock_parts[OF b this] show ?thesis
    unfolding sum u[symmetric] clock_text_def Let_def s_def[symmetric] f_def[symmetric] .
qed

lemma offset_text_offset: assumes "case z of None \<Rightarrow> True | Some k \<Rightarrow> \<bar>k\<bar> < 1440"
  shows "parse_offset (offset_text z) = Some z"
proof (cases z)
  case None
  then show ?thesis by (simp add: offset_text_def parse_offset_def)
next
  case (Some k)
  define a where "a = \<bar>k\<bar>"
  have a: "0 \<le> a div 60" "a div 60 < 24" "0 \<le> a mod 60" "a mod 60 < 60" using assms Some by (auto simp: a_def)
  define sg where "sg = (if k < 0 then CHR ''-'' else CHR ''+'')"
  have t: "offset_text z = sg # pad 2 (a div 60) @ '':'' @ pad 2 (a mod 60)"
    by (simp add: offset_text_def Some a_def sg_def)
  have parts: "take 2 (drop 1 (offset_text z)) = pad 2 (a div 60)" "drop 4 (offset_text z) = pad 2 (a mod 60)"
      "offset_text z ! 3 = CHR '':''" "length (offset_text z) = 6" "offset_text z ! 0 = sg"
    by (simp_all add: t nth_append)
  have ne: "offset_text z \<noteq> []" "offset_text z \<noteq> ''Z''" by (simp_all add: t sg_def)
  have "a div 60 * 60 + a mod 60 = a" by simp
  then show ?thesis
    using a parts ne Some by (auto simp: parse_offset_def digits_val_pad sg_def a_def)
qed

lemma in_clock_text: "c \<in> set (clock_text u) \<Longrightarrow> in_clock c"
  using pad_digits by (auto simp: clock_text_def Let_def in_clock_def split: if_splits)

lemma offset_not_clock: "offset_text z = [] \<or> \<not> in_clock (hd (offset_text z))"
  by (auto simp: offset_text_def in_clock_def is_digit_def less_eq_char_def split: option.split)

lemma split_clock:
  "takeWhile in_clock (clock_text u @ offset_text z) = clock_text u"
  "dropWhile in_clock (clock_text u @ offset_text z) = offset_text z"
proof -
  have *: "takeWhile in_clock (offset_text z) = []" "dropWhile in_clock (offset_text z) = offset_text z"
    using offset_not_clock[of z] by (cases "offset_text z"; simp)+
  show "takeWhile in_clock (clock_text u @ offset_text z) = clock_text u"
    using in_clock_text * by (simp add: takeWhile_append2)
  show "dropWhile in_clock (clock_text u @ offset_text z) = offset_text z"
    using in_clock_text * by (simp add: dropWhile_append2)
qed

text \<open>The text round trip.\<close>

lemma fromisoformat_isoformat: assumes "datetime_ok t" shows "fromisoformat (isoformat t) = Some t"
proof -
  have d: "take 10 (isoformat t) = date_text (dt_date t)" "drop 11 (isoformat t) = clock_text (dt_us t) @ offset_text (dt_tz t)"
    by (simp_all add: isoformat_def)
  have len: "\<not> length (isoformat t) \<le> 10" by (simp add: isoformat_def)
  show ?thesis
    using assms unfolding fromisoformat_def d datetime_ok_def
    by (simp add: len parse_date_text clock_text_clock offset_text_offset split_clock)
qed

section \<open>Instants\<close>

definition epoch_ordinal :: int where
  "epoch_ordinal = 719163"

definition timestamp_us :: "datetime \<Rightarrow> int option" where
  "timestamp_us t = map_option (\<lambda>off. (toordinal (dt_date t) - epoch_ordinal) * day_us + dt_us t - us_of 0 off) (dt_tz t)"

definition fromtimestamp_us :: "int \<Rightarrow> int \<Rightarrow> datetime" where
  "fromtimestamp_us off u =
     (let l = u + us_of 0 off
      in \<lparr>dt_date = fromordinal (l div day_us + epoch_ordinal), dt_us = l mod day_us, dt_tz = Some off\<rparr>)"

lemma timestamp_fromtimestamp: "timestamp_us (fromtimestamp_us off u) = Some u"
  by (simp add: timestamp_us_def fromtimestamp_us_def Let_def fromordinal_toordinal)

end
