(* ===== verification/Candles.thy ===== *)
theory Candles
  imports Prelude
begin

text \<open>
  The bucketing that \<^verbatim>\<open>src/engine/live_candles.py\<close>, \<^verbatim>\<open>src/engine/intraday_builder.py\<close> and the
  roll-up query of \<^verbatim>\<open>src/db/queries.py\<close> share. A bucket table is the insertion-ordered
  dictionary \<^verbatim>\<open>buckets\<close> (its keys in order are the code's separate \<^verbatim>\<open>order\<close> list); adding a point
  is \<open>bucket_add\<close>. \<open>group_cell\<close> is what a bucket should hold: first, highest, lowest and last
  price of its points and the sum of their volumes; \<open>bucket_points_spec\<close> shows that it does.
  An instant is its epoch second; its ISO text in the Indian time zone stands for it one to one.
\<close>

section \<open>Cells and buckets\<close>

record cell =
  c_open :: price
  c_high :: price
  c_low :: price
  c_close :: price
  c_vol :: rat

record bar =
  b_time :: secs
  b_open :: price
  b_high :: price
  b_low :: price
  b_close :: price
  b_volume :: int

type_synonym point = "int \<times> price \<times> rat"

definition new_cell :: "price \<Rightarrow> cell" where
  "new_cell p = \<lparr>c_open = p, c_high = p, c_low = p, c_close = p, c_vol = 0\<rparr>"

definition touch_cell :: "price \<Rightarrow> rat \<Rightarrow> cell \<Rightarrow> cell" where
  "touch_cell p v c = c\<lparr>c_high := max (c_high c) p, c_low := min (c_low c) p, c_close := p, c_vol := c_vol c + v\<rparr>"

definition bucket_add :: "point \<Rightarrow> (int \<times> cell) list \<Rightarrow> (int \<times> cell) list" where
  "bucket_add pt d = (case pt of (i, p, v) \<Rightarrow>
     dput i (touch_cell p v (case map_of d i of None \<Rightarrow> new_cell p | Some c \<Rightarrow> c)) d)"

definition bucket_points :: "point list \<Rightarrow> (int \<times> cell) list" where
  "bucket_points pts = foldl (\<lambda>d pt. bucket_add pt d) [] pts"

definition cell_bar :: "rat \<Rightarrow> int \<times> cell \<Rightarrow> bar" where
  "cell_bar seconds e = (case e of (i, c) \<Rightarrow>
     \<lparr>b_time = of_int i * seconds, b_open = py_round 2 (c_open c), b_high = py_round 2 (c_high c),
      b_low = py_round 2 (c_low c), b_close = py_round 2 (c_close c), b_volume = py_trunc (c_vol c)\<rparr>)"

section \<open>What a bucket holds\<close>

definition cell_ok :: "cell \<Rightarrow> bool" where
  "cell_ok c \<longleftrightarrow> c_low c \<le> c_open c \<and> c_open c \<le> c_high c \<and> c_low c \<le> c_close c \<and> c_close c \<le> c_high c \<and> 0 \<le> c_vol c"

definition bar_ok :: "bar \<Rightarrow> bool" where
  "bar_ok b \<longleftrightarrow> b_low b \<le> b_open b \<and> b_open b \<le> b_high b \<and> b_low b \<le> b_close b \<and> b_close b \<le> b_high b \<and> 0 \<le> b_volume b"

fun group_fold :: "cell \<Rightarrow> (price \<times> rat) list \<Rightarrow> cell" where
  "group_fold c [] = c"
| "group_fold c ((p, v) # ps) = group_fold (touch_cell p v c) ps"

fun group_cell :: "(price \<times> rat) list \<Rightarrow> cell option" where
  "group_cell [] = None"
| "group_cell ((p, v) # ps) = Some (group_fold (new_cell p) ((p, v) # ps))"

definition group_of :: "int \<Rightarrow> point list \<Rightarrow> (price \<times> rat) list" where
  "group_of i pts = map snd (filter (\<lambda>pt. fst pt = i) pts)"

lemma group_fold_append [simp]: "group_fold c (xs @ ys) = group_fold (group_fold c xs) ys"
  by (induction c xs rule: group_fold.induct) auto

lemma group_cell_snoc:
  "group_cell (xs @ [(p, v)]) = Some (touch_cell p v (case group_cell xs of None \<Rightarrow> new_cell p | Some c \<Rightarrow> c))"
  by (cases xs rule: group_cell.cases) auto

text \<open>The refinement of the loop: each bucket holds the cell of its group.\<close>

lemma bucket_points_snoc: "bucket_points (pts @ [pt]) = bucket_add pt (bucket_points pts)"
  by (simp add: bucket_points_def)

lemma bucket_points_spec: "map_of (bucket_points pts) i = group_cell (group_of i pts)"
proof (induction pts rule: rev_induct)
  case Nil
  then show ?case by (simp add: bucket_points_def group_of_def)
next
  case (snoc pt pts)
  obtain j p v where pt: "pt = (j, p, v)" by (metis prod_cases3)
  show ?case
    using snoc by (auto simp: bucket_points_snoc bucket_add_def pt group_of_def group_cell_snoc)
qed

lemma bucket_points_distinct: "distinct (map fst (bucket_points pts))"
  by (induction pts rule: rev_induct)
    (auto simp: bucket_points_snoc bucket_points_def[of "[]"] bucket_add_def intro!: distinct_dput split: prod.split)

lemma bucket_points_keys: "fst ` set (bucket_points pts) = fst ` set pts"
proof (induction pts rule: rev_induct)
  case Nil
  then show ?case by (simp add: bucket_points_def)
next
  case (snoc pt pts)
  obtain j p v where pt: "pt = (j, p, v)" by (metis prod_cases3)
  from snoc show ?case by (simp add: bucket_points_snoc bucket_add_def pt)
qed

lemma keys_dput_sorted:
  assumes "sorted_wrt (<) (map fst d)" "\<forall>k\<in>fst ` set d. k \<le> i"
  shows "sorted_wrt (<) (map fst (dput (i::int) c d))"
  using assms by (auto simp: keys_dput sorted_wrt_append order.strict_iff_order)

text \<open>Points in chronological order give buckets in increasing order.\<close>

lemma bucket_points_sorted:
  "sorted (map fst pts) \<Longrightarrow> sorted_wrt (<) (map fst (bucket_points pts))"
proof (induction pts rule: rev_induct)
  case Nil
  then show ?case by (simp add: bucket_points_def)
next
  case (snoc pt pts)
  obtain j p v where pt: "pt = (j, p, v)" by (metis prod_cases3)
  have "sorted_wrt (<) (map fst (bucket_points pts))" "\<forall>k\<in>fst ` set (bucket_points pts). k \<le> j"
    using snoc unfolding bucket_points_keys by (auto simp: sorted_append pt)
  then show ?case by (simp add: bucket_points_snoc bucket_add_def pt keys_dput_sorted)
qed

text \<open>The cell of a group by definition: its first, highest, lowest and last price, and the sum of
  its volumes.\<close>

lemma group_cell_eq:
  assumes "group_cell ps = Some c"
  shows "c = \<lparr>c_open = fst (hd ps), c_high = Max (fst ` set ps), c_low = Min (fst ` set ps),
    c_close = fst (last ps), c_vol = sum_list (map snd ps)\<rparr>"
  using assms
proof (induction ps arbitrary: c rule: rev_induct)
  case (snoc x ps)
  obtain p v where x: "x = (p, v)" by fastforce
  show ?case
  proof (cases "ps = []")
    case True
    with snoc.prems x show ?thesis by (auto simp: new_cell_def touch_cell_def)
  next
    case False
    then obtain d where d: "group_cell ps = Some d" by (cases ps rule: group_cell.cases) auto
    have "Max (insert p (fst ` set ps)) = max p (Max (fst ` set ps))"
      "Min (insert p (fst ` set ps)) = min p (Min (fst ` set ps))"
      using False by (simp_all add: Max_insert Min_insert)
    with snoc.IH[OF d] snoc.prems d False show ?thesis
      by (simp add: x group_cell_snoc touch_cell_def max.commute min.commute)
  qed
qed simp

text \<open>The keys in the order of their first occurrence.\<close>

definition first_seen :: "'a list \<Rightarrow> 'a list" where
  "first_seen xs = rev (remdups (rev xs))"

lemma first_seen_snoc: "first_seen (xs @ [x]) = (if x \<in> set xs then first_seen xs else first_seen xs @ [x])"
  by (simp add: first_seen_def)

lemma bucket_points_order: "map fst (bucket_points pts) = first_seen (map fst pts)"
proof (induction pts rule: rev_induct)
  case Nil
  then show ?case by (simp add: bucket_points_def first_seen_def)
next
  case (snoc pt pts)
  obtain i p v where pt: "pt = (i, p, v)" by (metis prod_cases3)
  from snoc show ?case
    by (simp add: pt bucket_points_snoc bucket_add_def keys_dput first_seen_snoc bucket_points_keys)
qed

section \<open>Shape and conservation\<close>

lemma touch_cell_ok: "cell_ok c \<Longrightarrow> 0 \<le> v \<Longrightarrow> cell_ok (touch_cell p v c)"
  by (auto simp: cell_ok_def touch_cell_def)

lemma new_cell_ok: "cell_ok (new_cell p)"
  by (simp add: cell_ok_def new_cell_def)

lemma group_fold_ok: "cell_ok c \<Longrightarrow> \<forall>(p, v)\<in>set ps. 0 \<le> v \<Longrightarrow> cell_ok (group_fold c ps)"
  by (induction c ps rule: group_fold.induct) (auto intro: touch_cell_ok)

lemma group_cell_ok: "\<forall>(p, v)\<in>set ps. 0 \<le> v \<Longrightarrow> group_cell ps = Some c \<Longrightarrow> cell_ok c"
  using group_fold_ok[OF new_cell_ok] by (cases ps rule: group_cell.cases) (auto simp del: group_fold.simps)

lemma bucket_cells_ok:
  assumes "\<forall>(i, p, v)\<in>set pts. 0 \<le> v" "(i, c) \<in> set (bucket_points pts)"
  shows "cell_ok c"
proof -
  have "group_cell (group_of i pts) = Some c"
    using assms(2) bucket_points_distinct[of pts] bucket_points_spec[of pts i] by simp
  moreover have "\<forall>(p, v)\<in>set (group_of i pts). 0 \<le> v"
    using assms(1) by (fastforce simp: group_of_def)
  ultimately show ?thesis by (rule group_cell_ok[rotated])
qed

lemma cell_bar_ok: "cell_ok c \<Longrightarrow> bar_ok (cell_bar s (i, c))"
  by (simp add: cell_ok_def bar_ok_def cell_bar_def py_round_mono py_trunc_nonneg)

lemma group_fold_vol: "c_vol (group_fold c ps) = c_vol c + sum_list (map snd ps)"
  by (induction c ps rule: group_fold.induct) (auto simp: touch_cell_def)

lemma group_cell_vol: "group_cell ps = Some c \<Longrightarrow> c_vol c = sum_list (map snd ps)"
  by (cases ps rule: group_cell.cases) (auto simp: group_fold_vol new_cell_def touch_cell_def)

lemma sum_dput:
  fixes f :: "'v \<Rightarrow> rat"
  assumes "distinct (map fst d)"
  shows "sum_list (map (\<lambda>e. f (snd e)) (dput k x d)) =
    sum_list (map (\<lambda>e. f (snd e)) d) + f x - (case map_of d k of None \<Rightarrow> 0 | Some y \<Rightarrow> f y)"
  using assms
proof (induction k x d rule: dput.induct)
  case (2 k v k' v' d)
  show ?case
  proof (cases "k = k'")
    case False
    with 2 show ?thesis by simp
  qed simp
qed simp

text \<open>No volume is lost or invented by the bucketing.\<close>

lemma bucket_points_volume:
  "sum_list (map (\<lambda>e. c_vol (snd e)) (bucket_points pts)) = sum_list (map (\<lambda>(i, p, v). v) pts)"
proof (induction pts rule: rev_induct)
  case Nil
  then show ?case by (simp add: bucket_points_def)
next
  case (snoc pt pts)
  obtain j p v where pt: "pt = (j, p, v)" by (metis prod_cases3)
  show ?case
    using snoc sum_dput[OF bucket_points_distinct, of c_vol j _ pts]
    by (cases "map_of (bucket_points pts) j")
      (simp_all add: bucket_points_snoc bucket_add_def pt touch_cell_def new_cell_def)
qed

section \<open>Coarser buckets\<close>

text \<open>Rolling up the cells of consecutive groups gives the cell of their concatenation.\<close>

definition merge_cell :: "cell \<Rightarrow> cell \<Rightarrow> cell" where
  "merge_cell a b = \<lparr>c_open = c_open a, c_high = max (c_high a) (c_high b), c_low = min (c_low a) (c_low b),
     c_close = c_close b, c_vol = c_vol a + c_vol b\<rparr>"

fun merge_cells :: "cell list \<Rightarrow> cell option" where
  "merge_cells [] = None"
| "merge_cells (c # cs) = Some (foldl merge_cell c cs)"

lemma merge_group_fold:
  "group_fold (merge_cell a (new_cell p)) ps = merge_cell a (group_fold (new_cell p) ps)"
proof -
  have "group_fold (merge_cell a c) ps = merge_cell a (group_fold c ps)" for c
  proof (induction c ps rule: group_fold.induct)
    case (2 c p v ps)
    have "touch_cell p v (merge_cell a c) = merge_cell a (touch_cell p v c)"
      by (simp add: touch_cell_def merge_cell_def max.assoc min.assoc)
    with 2 show ?case by simp
  qed simp
  then show ?thesis .
qed

lemma group_cell_append:
  "xs \<noteq> [] \<Longrightarrow> ys \<noteq> [] \<Longrightarrow> group_cell xs = Some a \<Longrightarrow> group_cell ys = Some b \<Longrightarrow>
     group_cell (xs @ ys) = Some (merge_cell a b)"
proof -
  assume ne: "xs \<noteq> []" "ys \<noteq> []" and ab: "group_cell xs = Some a" "group_cell ys = Some b"
  obtain p v xs' where xs: "xs = (p, v) # xs'" using ne by (metis list.exhaust prod.exhaust)
  obtain q w ys' where ys: "ys = (q, w) # ys'" using ne by (metis list.exhaust prod.exhaust)
  have a: "a = group_fold (new_cell p) ((p, v) # xs')" using ab(1) xs by simp
  have "touch_cell q w a = touch_cell q w (merge_cell a (new_cell q))"
    by (simp add: touch_cell_def merge_cell_def new_cell_def max.assoc min.assoc)
  then have "group_fold a ys = group_fold (merge_cell a (new_cell q)) ys"
    by (simp add: ys)
  also have "\<dots> = merge_cell a (group_fold (new_cell q) ys)" by (rule merge_group_fold)
  also have "group_fold (new_cell q) ys = b" using ab(2) ys by simp
  finally show ?thesis by (simp add: xs a)
qed

lemma group_cell_Some: "xs \<noteq> [] \<Longrightarrow> \<exists>c. group_cell xs = Some c"
  by (cases xs rule: group_cell.cases) auto

lemma merge_cells_concat:
  assumes "\<forall>g\<in>set gs. g \<noteq> []"
  shows "merge_cells (map (\<lambda>g. the (group_cell g)) gs) = group_cell (concat gs)"
proof (cases gs)
  case (Cons g hs)
  have "Some (foldl merge_cell c (map (\<lambda>g. the (group_cell g)) hs)) = group_cell (xs @ concat hs)"
    if "xs \<noteq> []" "group_cell xs = Some c" "\<forall>g\<in>set hs. g \<noteq> []" for xs c hs
    using that
  proof (induction hs arbitrary: xs c)
    case (Cons h hs)
    then obtain b where b: "group_cell h = Some b" using group_cell_Some[of h] by auto
    then have "group_cell (xs @ h) = Some (merge_cell c b)"
      using Cons.prems by (intro group_cell_append) auto
    with Cons.IH[of "xs @ h"] Cons.prems b show ?case by simp
  qed simp
  moreover obtain c where "group_cell g = Some c" using assms Cons group_cell_Some[of g] by auto
  ultimately show ?thesis using assms Cons by simp
qed simp

text \<open>A chronological list splits into the groups of its buckets, in order.\<close>

lemma sorted_groups:
  assumes "sorted (map fst pts)" "sorted_wrt (<) ks" "fst ` set pts \<subseteq> set ks"
  shows "concat (map (\<lambda>i. group_of i pts) ks) = map snd pts"
  using assms
proof (induction ks arbitrary: pts)
  case Nil
  then show ?case by simp
next
  case (Cons k ks)
  let ?a = "takeWhile (\<lambda>pt. fst pt = k) pts" and ?b = "dropWhile (\<lambda>pt. fst pt = k) pts"
  have split: "filter P pts = filter P ?a @ filter P ?b" for P
    by (subst filter_append[symmetric]) (simp only: takeWhile_dropWhile_id)
  have "sorted (map fst (?a @ ?b))" using Cons.prems(1) by simp
  then have srt: "sorted (map fst ?b)" unfolding map_append sorted_append by blast
  have gt: "fst pt \<noteq> k" if "pt \<in> set ?b" for pt
  proof (cases ?b)
    case (Cons b bs)
    then have "fst b \<noteq> k" using hd_dropWhile[of "\<lambda>pt. fst pt = k" pts] by simp
    moreover have "b \<in> set pts" using Cons set_dropWhileD[of b "\<lambda>pt. fst pt = k" pts] by simp
    then have "fst b \<in> set (k # ks)" using \<open>fst ` set pts \<subseteq> set (k # ks)\<close> by blast
    then have "k \<le> fst b" using \<open>sorted_wrt (<) (k # ks)\<close> by auto
    moreover have "fst b \<le> fst pt" using srt that Cons by auto
    ultimately show ?thesis by linarith
  next
    case Nil
    with that show ?thesis by (simp only: list.set empty_iff)
  qed
  have "filter (\<lambda>pt. fst pt = k) ?a = ?a" by (rule filter_True) (blast dest: set_takeWhileD)
  moreover have "filter (\<lambda>pt. fst pt = k) ?b = []" by (rule filter_False, rule ballI, rule gt)
  ultimately have gk: "group_of k pts = map snd ?a"
    unfolding group_of_def split[of "\<lambda>pt. fst pt = k"] by simp
  have rest: "group_of i pts = group_of i ?b" if "i \<in> set ks" for i
  proof -
    have "i \<noteq> k" using Cons.prems(2) that by auto
    then have "filter (\<lambda>pt. fst pt = i) ?a = []" by (intro filter_False) (blast dest: set_takeWhileD)
    then show ?thesis unfolding group_of_def split[of "\<lambda>pt. fst pt = i"] by simp
  qed
  have "fst pt \<in> set ks" if "pt \<in> set ?b" for pt
  proof -
    have "pt \<in> set pts" using that by (rule set_dropWhileD)
    then have "fst pt \<in> set (k # ks)" using Cons.prems(3) by blast
    with gt[OF that] show ?thesis by simp
  qed
  then have "fst ` set ?b \<subseteq> set ks" by blast
  with Cons.IH[OF srt] Cons.prems(2) have "concat (map (\<lambda>i. group_of i ?b) ks) = map snd ?b" by simp
  moreover have "map (\<lambda>i. group_of i pts) ks = map (\<lambda>i. group_of i ?b) ks" by (rule map_cong[OF refl rest])
  ultimately have "concat (map (\<lambda>i. group_of i pts) (k # ks)) = map snd ?a @ map snd ?b"
    by (simp only: list.map concat.simps gk)
  also have "\<dots> = map snd pts" by (simp only: map_append[symmetric] takeWhile_dropWhile_id)
  finally show ?case .
qed

end
