(* ===== verification/CorpActions.thy ===== *)
theory CorpActions
  imports Candles
begin

text \<open>
  \<^verbatim>\<open>src/engine/corp_actions.py\<close>: detection of splits and bonuses in a daily series and the
  back-adjustment of the bars before them. A candle dictionary is the record \<open>scandle\<close> (a
  missing or null entry is \<open>None\<close>); its instant is the ISO text the code carries. The in-place
  double loop of \<^verbatim>\<open>adjust_for_splits\<close> is \<open>adjust_loop\<close> over the list of bars.
\<close>

record scandle =
  sc_ts :: string
  sc_open :: "price option"
  sc_high :: "price option"
  sc_low :: "price option"
  sc_close :: "price option"
  sc_vwap :: "price option"
  sc_volume :: "rat option"
  sc_oi :: "int option"

record split_event =
  ev_index :: nat
  ev_factor :: rat
  ev_date :: string

definition split_factors :: "rat list" where
  "split_factors = [2, 5 / 2, 3, 4, 5, 6, 10]"

definition price_tol :: rat where "price_tol = 6 / 100"
definition vol_tol :: rat where "vol_tol = 45 / 100"

definition num :: "rat option \<Rightarrow> rat" where
  "num v = (case v of None \<Rightarrow> 0 | Some x \<Rightarrow> x)"

definition nearest_factor :: "rat \<Rightarrow> rat option" where
  "nearest_factor ratio =
     (if ratio < 14 / 10 then None else find (\<lambda>f. \<bar>ratio - f\<bar> / f \<le> price_tol) split_factors)"

definition volume_confirms :: "rat \<Rightarrow> rat \<Rightarrow> rat \<Rightarrow> bool" where
  "volume_confirms prev cur f \<longleftrightarrow>
     (if prev > 0 \<and> cur > 0 then \<bar>cur / prev - f\<bar> / f \<le> max vol_tol (9 / 10) else True)"

definition split_at :: "scandle \<Rightarrow> scandle \<Rightarrow> rat option" where
  "split_at prev cur =
     (let prev_close = num (sc_close prev);
          cur_open = (if num (sc_open cur) \<noteq> 0 then num (sc_open cur) else num (sc_close cur))
      in if prev_close \<le> 0 \<or> cur_open \<le> 0 then None
         else case nearest_factor (prev_close / cur_open) of
                None \<Rightarrow> None
              | Some f \<Rightarrow> if volume_confirms (num (sc_volume prev)) (num (sc_volume cur)) f then Some f else None)"

definition detect_split_events :: "scandle list \<Rightarrow> split_event list" where
  "detect_split_events cs =
     List.map_filter (\<lambda>i. map_option (\<lambda>f. \<lparr>ev_index = i, ev_factor = f, ev_date = sc_ts (cs ! i)\<rparr>)
       (split_at (cs ! (i - 1)) (cs ! i))) [1..<length cs]"

definition adjust_bar :: "rat \<Rightarrow> scandle \<Rightarrow> scandle" where
  "adjust_bar f c =
     (let p = map_option (\<lambda>x. py_round 4 (x / f))
      in c\<lparr>sc_open := p (sc_open c), sc_high := p (sc_high c), sc_low := p (sc_low c), sc_close := p (sc_close c),
           sc_vwap := p (sc_vwap c), sc_volume := map_option (\<lambda>v. of_int (py_trunc (v * f))) (sc_volume c)\<rparr>)"

fun adjust_before :: "nat \<Rightarrow> rat \<Rightarrow> scandle list \<Rightarrow> scandle list" where
  "adjust_before 0 f cs = cs"
| "adjust_before (Suc i) f [] = []"
| "adjust_before (Suc i) f (c # cs) = adjust_bar f c # adjust_before i f cs"

fun adjust_loop :: "split_event list \<Rightarrow> scandle list \<Rightarrow> scandle list" where
  "adjust_loop [] cs = cs"
| "adjust_loop (e # es) cs = adjust_loop es (adjust_before (ev_index e) (ev_factor e) cs)"

text \<open>\<^verbatim>\<open>sorted(events, key=index, reverse=True)\<close>; the indices are distinct.\<close>

definition adjust_for_splits :: "scandle list \<Rightarrow> scandle list \<times> split_event list" where
  "adjust_for_splits cs =
     (if length cs < 3 then (cs, [])
      else let events = detect_split_events cs
           in if events = [] then (cs, [])
              else (adjust_loop (rev (sort_key ev_index events)) cs, events))"

section \<open>Lemmas\<close>

lemma adjust_before_nth:
  "j < length cs \<Longrightarrow> adjust_before i f cs ! j = (if j < i then adjust_bar f (cs ! j) else cs ! j)"
  by (induction i f cs arbitrary: j rule: adjust_before.induct) (auto simp: nth_Cons')

lemma length_adjust_before [simp]: "length (adjust_before i f cs) = length cs"
  by (induction i f cs rule: adjust_before.induct) auto

lemma length_adjust_loop [simp]: "length (adjust_loop es cs) = length cs"
  by (induction es cs rule: adjust_loop.induct) auto

lemma adjust_loop_nth:
  "j < length cs \<Longrightarrow> adjust_loop es cs ! j =
     foldl (\<lambda>c e. adjust_bar (ev_factor e) c) (cs ! j) (filter (\<lambda>e. j < ev_index e) es)"
  by (induction es cs rule: adjust_loop.induct) (auto simp: adjust_before_nth)

lemma event_of:
  "e \<in> set (detect_split_events cs) \<Longrightarrow>
     0 < ev_index e \<and> ev_index e < length cs \<and> split_at (cs ! (ev_index e - 1)) (cs ! ev_index e) = Some (ev_factor e)"
  by (auto simp: detect_split_events_def map_filter_def)

lemma nearest_factor_in: "nearest_factor r = Some f \<Longrightarrow> f \<in> set split_factors \<and> \<bar>r - f\<bar> / f \<le> price_tol"
  by (auto simp: nearest_factor_def find_Some_iff split: if_splits)

lemma split_at_in: "split_at a b = Some f \<Longrightarrow> f \<in> set split_factors"
  by (auto simp: split_at_def Let_def split: option.splits if_splits dest: nearest_factor_in)

lemma split_factor_bounds: "f \<in> set split_factors \<Longrightarrow> 2 \<le> f \<and> f \<le> 10"
  by (auto simp: split_factors_def)

lemma events_sorted: "sorted_wrt (<) (map ev_index (detect_split_events cs))"
proof -
  let ?g = "\<lambda>i. map_option (\<lambda>f. \<lparr>ev_index = i, ev_factor = f, ev_date = sc_ts (cs ! i)\<rparr>)
       (split_at (cs ! (i - 1)) (cs ! i))"
  have "sorted_wrt (<) (map ev_index (List.map_filter ?g xs))" if "sorted_wrt (<) xs" for xs
    using that
  proof (induction xs)
    case (Cons x xs)
    have "ev_index e \<in> set xs" if "e \<in> set (List.map_filter ?g xs)" for e
      using that by (auto simp: map_filter_def)
    with Cons show ?case by (auto simp: List.map_filter_simps split: option.split)
  qed (simp add: List.map_filter_simps)
  then show ?thesis by (simp add: detect_split_events_def strict_sorted_iff)
qed

lemma events_rev: "rev (sort_key ev_index (detect_split_events cs)) = rev (detect_split_events cs)"
proof -
  have "sorted (map ev_index (detect_split_events cs))"
    using events_sorted[of cs] by (simp add: strict_sorted_iff)
  then show ?thesis by (simp add: sort_key_id_if_sorted)
qed

lemma adjust_fold_close:
  "sc_close (foldl (\<lambda>c e. adjust_bar (ev_factor e) c) c es) =
     map_option (\<lambda>x. foldl (\<lambda>x e. py_round 4 (x / ev_factor e)) x es) (sc_close c)"
  by (induction es arbitrary: c) (simp_all add: adjust_bar_def Let_def option.map_comp comp_def option.map_id[unfolded id_def])

text \<open>Rounding after every division does not add up: each division at least halves the error made so far.\<close>

lemma rounded_division:
  assumes "\<bar>x - y\<bar> \<le> 1 / 10000" "2 \<le> f"
  shows "\<bar>py_round 4 (x / f) - y / f\<bar> \<le> 1 / 10000"
proof -
  have "\<bar>x / f - y / f\<bar> = \<bar>x - y\<bar> / f" using assms(2) by (simp add: diff_divide_distrib[symmetric] abs_divide)
  also have "\<dots> \<le> (1 / 10000) / 2" using assms by (intro frac_le) simp_all
  finally have "\<bar>x / f - y / f\<bar> \<le> 1 / 20000" by simp
  moreover have "\<bar>py_round 4 (x / f) - x / f\<bar> \<le> 1 / 20000" using py_round_near[of 4 "x / f"] by simp
  ultimately show ?thesis by linarith
qed

lemma rounded_divisions:
  assumes "\<bar>x - y\<bar> \<le> 1 / 10000" "list_all (\<lambda>e. 2 \<le> ev_factor e) es"
  shows "\<bar>foldl (\<lambda>x e. py_round 4 (x / ev_factor e)) x es - y / prod_list (map ev_factor es)\<bar> \<le> 1 / 10000"
  using assms
proof (induction es arbitrary: x y)
  case (Cons e es)
  then have "\<bar>py_round 4 (x / ev_factor e) - y / ev_factor e\<bar> \<le> 1 / 10000" by (intro rounded_division) simp_all
  from Cons.IH[OF this] Cons.prems(2) show ?case by (simp add: divide_divide_eq_left)
qed simp

text \<open>C13: Back-adjustment is per bar: the bar at position \<open>j\<close> is scaled once by the factor of every split detected
  after it, latest first, and by no other; the number of bars is kept, and from the last split on
  the series is unchanged. Its close is the original one divided by the product of those factors, to a ten-thousandth:
  the rounding after every step does not add up. Every factor is one of the listed ones, between 2 and 10.\<close>
theorem splits_scale_earlier_bars:
  assumes "3 \<le> length cs"
  shows "length (fst (adjust_for_splits cs)) = length cs \<and>
    (\<forall>j < length cs. fst (adjust_for_splits cs) ! j =
       foldl (\<lambda>c e. adjust_bar (ev_factor e) c) (cs ! j)
         (rev (filter (\<lambda>e. j < ev_index e) (detect_split_events cs)))) \<and>
    (\<forall>j < length cs. \<forall>p. sc_close (cs ! j) = Some p \<longrightarrow>
       (\<exists>q. sc_close (fst (adjust_for_splits cs) ! j) = Some q \<and>
          \<bar>q - p / prod_list (map ev_factor (filter (\<lambda>e. j < ev_index e) (detect_split_events cs)))\<bar> \<le> 1 / 10000)) \<and>
    (\<forall>e\<in>set (detect_split_events cs). ev_factor e \<in> set split_factors \<and> 2 \<le> ev_factor e \<and> ev_factor e \<le> 10)"
proof -
  have f: "ev_factor e \<in> set split_factors \<and> 2 \<le> ev_factor e \<and> ev_factor e \<le> 10"
    if "e \<in> set (detect_split_events cs)" for e
    using event_of[OF that] split_at_in split_factor_bounds by blast
  have nth: "fst (adjust_for_splits cs) ! j = foldl (\<lambda>c e. adjust_bar (ev_factor e) c) (cs ! j)
      (rev (filter (\<lambda>e. j < ev_index e) (detect_split_events cs)))" if "j < length cs" for j
    using assms that by (simp add: adjust_for_splits_def Let_def events_rev adjust_loop_nth rev_filter)
  have "\<exists>q. sc_close (fst (adjust_for_splits cs) ! j) = Some q \<and>
      \<bar>q - p / prod_list (map ev_factor (filter (\<lambda>e. j < ev_index e) (detect_split_events cs)))\<bar> \<le> 1 / 10000"
    if "j < length cs" "sc_close (cs ! j) = Some p" for j p
  proof -
    let ?es = "rev (filter (\<lambda>e. j < ev_index e) (detect_split_events cs))"
    have "list_all (\<lambda>e. 2 \<le> ev_factor e) ?es" using f by (simp add: list_all_iff)
    from rounded_divisions[OF _ this, of p p] show ?thesis
      using that by (simp add: nth adjust_fold_close rev_map[symmetric] prod_list.rev)
  qed
  moreover have "length (fst (adjust_for_splits cs)) = length cs"
    by (simp add: adjust_for_splits_def Let_def)
  ultimately show ?thesis using f nth by blast
qed

definition flat :: "string \<Rightarrow> rat \<Rightarrow> rat \<Rightarrow> scandle" where
  "flat t p v = \<lparr>sc_ts = t, sc_open = Some p, sc_high = Some p, sc_low = Some p, sc_close = Some p, sc_vwap = None,
     sc_volume = Some v, sc_oi = None\<rparr>"

theorem splits_scale_earlier_bars_witness:
  "length (fst (adjust_for_splits [flat ''1'' 100 10, flat ''2'' 100 10, flat ''3'' 50 20])) = 3"
  using splits_scale_earlier_bars[of "[flat ''1'' 100 10, flat ''2'' 100 10, flat ''3'' 50 20]"] by simp

text \<open>The volume check accepts any jump within 90 percent of the factor, not 45: a halving of the price on a
  volume that fell by three quarters is taken for a split.\<close>

lemma crash_taken_for_split:
  "split_at (flat ''1'' 100 1000) (flat ''2'' 50 250) = Some 2 \<and> \<not> \<bar>250 / 1000 - 2\<bar> / 2 \<le> vol_tol"
  by (simp add: split_at_def flat_def num_def nearest_factor_def split_factors_def price_tol_def
      volume_confirms_def vol_tol_def)

end
