(* ===== verification/SbQuotes.thy ===== *)
theory SbQuotes
  imports Models PyDict IsoTime CorpActions "HOL-Library.List_Lexorder" "HOL-Library.Multiset"
begin

text \<open>
  The quote and candle shapes of \<^verbatim>\<open>src/api/endpoints/superbrain.py\<close>: the index guard, the interval
  tables, \<^verbatim>\<open>_latest_session_only\<close>, \<^verbatim>\<open>_quality\<close>, \<^verbatim>\<open>_freshness\<close>, \<^verbatim>\<open>_sb_quote\<close>, \<^verbatim>\<open>_sb_quote_from_tt\<close>,
  \<^verbatim>\<open>_enrich_meta\<close> and \<^verbatim>\<open>_norm_candles\<close>. A quote is a JSON object (\<^typ>\<open>dict\<close>), so that a key that is
  dropped differs from a null. \<^verbatim>\<open>is_market_open()\<close> and \<^verbatim>\<open>now_ist()\<close> are arguments; the
  \<^verbatim>\<open>_META_CACHE\<close> is a map from symbols to objects.
\<close>

text \<open>A point of an intraday curve, with its instant as ISO text.\<close>

record curve_point =
  cp_ts :: string
  cp_price :: "price option"
  cp_volume :: "rat option"

section \<open>Tables\<close>

definition index_symbols :: "string list" where
  "index_symbols = [''NIFTY'', ''NIFTY50'', ''NIFTY 50'', ''BANKNIFTY'', ''NIFTYBANK'', ''NIFTY BANK'',
     ''FINNIFTY'', ''MIDCPNIFTY'', ''SENSEX'', ''BANKEX'', ''NIFTYIT'', ''NIFTYNXT50'']"

text \<open>Whether \<^verbatim>\<open>_reject_index\<close> raises its 400.\<close>

definition reject_index :: "string \<Rightarrow> bool" where
  "reject_index sm \<longleftrightarrow> upper sm \<in> set index_symbols"

definition range_limit :: "(string \<times> nat) list" where
  "range_limit = [(''1mo'', 25), (''3mo'', 70), (''6mo'', 130), (''1y'', 260),
     (''2y'', 520), (''3y'', 780), (''5y'', 1300), (''max'', 2500)]"

definition interval_map :: "(string \<times> string) list" where
  "interval_map = [(''day'', ''1d''), (''1d'', ''1d''), (''week'', ''1w''), (''1w'', ''1w''),
     (''30minute'', ''30m''), (''30m'', ''30m''), (''15minute'', ''15m''), (''15m'', ''15m''),
     (''5minute'', ''5m''), (''5m'', ''5m''), (''1minute'', ''1m''), (''1m'', ''1m'')]"

definition interval_max_days :: "(string \<times> int) list" where
  "interval_max_days = [(''1m'', 6), (''5m'', 59), (''15m'', 59), (''30m'', 59),
     (''1d'', 365 * 10), (''1w'', 365 * 20)]"

definition seconds_intervals :: "(string \<times> rat) list" where
  "seconds_intervals = [(''250ms'', 1 / 4), (''500ms'', 1 / 2), (''1second'', 1), (''1s'', 1),
     (''5second'', 5), (''5s'', 5), (''10second'', 10), (''10s'', 10),
     (''15second'', 15), (''15s'', 15), (''30second'', 30), (''30s'', 30)]"

definition latest_session_only :: "('a \<Rightarrow> string) \<Rightarrow> 'a list \<Rightarrow> 'a list" where
  "latest_session_only ts xs =
     (if xs = [] then xs else filter (\<lambda>c. take 10 (ts c) = take 10 (ts (last xs))) xs)"

section \<open>Quality and freshness\<close>

definition sb_quality :: "bool \<Rightarrow> string \<Rightarrow> string" where
  "sb_quality is_open source =
     (let s = lower source
      in if contains_text s ''yahoo'' then ''DELAYED''
         else if contains_text s ''archive'' then ''END_OF_DAY''
         else if is_open then ''REAL_TIME'' else ''LAST_CLOSE'')"

text \<open>\<^verbatim>\<open>s.replace("Z", "+00:00")\<close>.\<close>

definition replace_z :: "string \<Rightarrow> string" where
  "replace_z s = concat (map (\<lambda>c. if c = CHR ''Z'' then ''+00:00'' else [c]) s)"

text \<open>\<^verbatim>\<open>now - t\<close> for an aware \<^verbatim>\<open>now\<close>: a naive \<^verbatim>\<open>t\<close> raises the \<^verbatim>\<open>TypeError\<close> that is swallowed.\<close>

definition lag_seconds :: "datetime \<Rightarrow> string \<Rightarrow> rat option" where
  "lag_seconds now asof =
     (case fromisoformat (replace_z asof) of
        None \<Rightarrow> None
      | Some t \<Rightarrow> (case (timestamp_us now, timestamp_us t) of
            (Some a, Some b) \<Rightarrow> Some (py_round 1 (of_int (a - b) / 1000000)) | _ \<Rightarrow> None))"

definition freshness :: "datetime \<Rightarrow> string option \<Rightarrow> dict" where
  "freshness now asof =
     (''fetchedAt'', VStr (isoformat now)) #
     (case asof of
        Some (c # cs) \<Rightarrow> (''asOf'', VStr (c # cs)) #
          (case lag_seconds now (c # cs) of None \<Rightarrow> [] | Some l \<Rightarrow> [(''feedLagSec'', VNum l)])
      | _ \<Rightarrow> [(''asOf'', VStr (isoformat now)), (''feedLagSec'', VNum 0)])"

section \<open>Quotes\<close>

type_synonym meta_cache = "string \<rightharpoonup> dict"

definition meta_of :: "meta_cache \<Rightarrow> string \<Rightarrow> dict" where
  "meta_of mc sm = (case mc sm of None \<Rightarrow> [] | Some m \<Rightarrow> m)"

definition optional_quote_fields :: "string list" where
  "optional_quote_fields = [''upperCircuit'', ''lowerCircuit'', ''week52High'', ''week52Low'',
     ''totalBuyQty'', ''totalSellQty'', ''openInterest'', ''vwap'', ''isin'', ''sector'']"

definition raw_quote :: "meta_cache \<Rightarrow> bool \<Rightarrow> datetime \<Rightarrow> tick \<Rightarrow> dict" where
  "raw_quote mc is_open now t =
     (let meta = meta_of mc (tk_symbol t); quality = sb_quality is_open (tk_source t)
      in [(''symbol'', VStr (tk_symbol t)),
          (''companyName'', val_or (dget meta ''name'') (VStr (tk_symbol t))),
          (''sector'', dget meta ''sector''),
          (''price'', VNum (tk_ltp t)), (''change'', VNum (tk_change t)), (''changePct'', VNum (tk_pct_change t)),
          (''open'', VNum (tk_open t)), (''high'', VNum (tk_high t)), (''low'', VNum (tk_low t)),
          (''volume'', VInt (tk_volume t)), (''previousClose'', VNum (tk_close t)),
          (''upperCircuit'', vnum (tk_upper_circuit t)), (''lowerCircuit'', vnum (tk_lower_circuit t)),
          (''week52High'', vnum (tk_week_52_high t)), (''week52Low'', vnum (tk_week_52_low t)),
          (''totalBuyQty'', vint (tk_total_buy_qty t)), (''totalSellQty'', vint (tk_total_sell_qty t)),
          (''openInterest'', vint (tk_open_interest t)),
          (''vwap'', val_or (vnum (tk_vwap t)) (dget meta ''vwap'')),
          (''isin'', val_or (vstr (tk_isin t)) (dget meta ''isin'')),
          (''source'', VStr (tk_source t)), (''dataQuality'', VStr quality),
          (''live'', VBool (quality = ''REAL_TIME'')),
          (''feedLatencyMs'', VNum (py_round 1 (tk_latency_ms t)))]
         @ freshness now (Some (isoformat (tk_timestamp t))))"

text \<open>\<^verbatim>\<open>min(x for x in (w, lo, px) if x is not None)\<close>, the first component being present.\<close>

definition clamp_low :: "dict \<Rightarrow> dict" where
  "clamp_low q =
     (case to_float (dget q ''week52Low'') of
        None \<Rightarrow> q
      | Some w \<Rightarrow> dput ''week52Low''
          (VNum (foldl min w (List.map_filter id [to_float (dget q ''low''), to_float (dget q ''price'')]))) q)"

definition clamp_high :: "dict \<Rightarrow> dict" where
  "clamp_high q =
     (case to_float (dget q ''week52High'') of
        None \<Rightarrow> q
      | Some w \<Rightarrow> dput ''week52High''
          (VNum (foldl max w (List.map_filter id [to_float (dget q ''high''), to_float (dget q ''price'')]))) q)"

definition blank_val :: "val \<Rightarrow> bool" where
  "blank_val v = (case v of VNone \<Rightarrow> True | VStr s \<Rightarrow> strip s = [] | _ \<Rightarrow> False)"

definition drop_blank :: "dict \<Rightarrow> string \<Rightarrow> dict" where
  "drop_blank q k = (if blank_val (dget q k) then ddel k q else q)"

definition sb_quote :: "meta_cache \<Rightarrow> bool \<Rightarrow> datetime \<Rightarrow> tick \<Rightarrow> dict" where
  "sb_quote mc is_open now t =
     foldl drop_blank (clamp_high (clamp_low (raw_quote mc is_open now t))) optional_quote_fields"

definition sb_quote_from_tt :: "meta_cache \<Rightarrow> bool \<Rightarrow> datetime \<Rightarrow> string \<Rightarrow> dict \<Rightarrow> dict" where
  "sb_quote_from_tt mc is_open now sm row =
     (let meta = meta_of mc sm;
          price = to_float (dget row ''price''); prev = to_float (dget row ''close'');
          change = to_float (dget row ''change'');
          pct = (case (change, prev) of
                   (Some c, Some p) \<Rightarrow> if p = 0 then None else Some (py_round 2 (c / p * 100)) | _ \<Rightarrow> None);
          quality = (if is_open then ''REAL_TIME'' else ''LAST_CLOSE'');
          q = [(''symbol'', VStr sm), (''companyName'', val_or (dget meta ''name'') (VStr sm)),
               (''sector'', dget meta ''sector''), (''price'', vnum price), (''change'', vnum change),
               (''changePct'', vnum pct), (''high'', vnum (to_float (dget row ''high''))),
               (''low'', vnum (to_float (dget row ''low''))),
               (''volume'', VInt (case to_float (dget row ''volume'') of None \<Rightarrow> 0 | Some v \<Rightarrow> py_trunc v)),
               (''previousClose'', vnum prev), (''source'', VStr ''tickertape_realtime_nse''),
               (''dataQuality'', VStr quality), (''live'', VBool (quality = ''REAL_TIME''))]
              @ freshness now (str_val (dget row ''date''))
      in if dget q ''sector'' = VNone then ddel ''sector'' q else q)"

text \<open>
  \<^verbatim>\<open>_enrich_meta\<close>: \<open>resolved\<close> and \<open>details\<close> are the outcomes of the two upstream calls (\<open>None\<close> for a failure too),
  \<open>isin\<close> the master's answer.
\<close>

definition enrich_meta :: "string \<Rightarrow> dict option \<Rightarrow> string option \<Rightarrow> dict option \<Rightarrow> meta_cache \<Rightarrow> meta_cache" where
  "enrich_meta sm resolved isin details mc =
     (if mc sm \<noteq> None then mc
      else
        let r = (case resolved of None \<Rightarrow> [] | Some r \<Rightarrow> r)
        in if truthy_val (dget r ''sector'')
           then mc(sm \<mapsto> [(''name'', dget r ''name''), (''sector'', dget r ''sector''), (''isin'', vstr isin)])
           else case details of
             Some (e # d) \<Rightarrow>
               (let det = e # d; fund = sub_dict (dget det ''fundamentals'')
                in mc(sm \<mapsto> [(''name'', dget det ''name''), (''sector'', dget fund ''sector''),
                      (''isin'', val_or (vstr isin) (dget fund ''isin'')),
                      (''vwap'', vnum (to_float (dget (sub_dict (dget det ''price'')) ''vwap'')))]))
           | _ \<Rightarrow> (if truthy_val (vstr isin) then mc(sm \<mapsto> [(''isin'', vstr isin)]) else mc))"

section \<open>Candles\<close>

record hrow =
  hr_timestamp :: "string option"
  hr_bucket :: "string option"
  hr_date :: "string option"
  hr_open :: val
  hr_high :: val
  hr_low :: val
  hr_close :: val
  hr_volume :: val

fun text_or :: "string option \<Rightarrow> string \<Rightarrow> string" where
  "text_or None d = d"
| "text_or (Some s) d = (if s = [] then d else s)"

definition norm_row :: "hrow \<Rightarrow> scandle" where
  "norm_row c =
     \<lparr>sc_ts = text_or (hr_timestamp c) (text_or (hr_bucket c) (text_or (hr_date c) [])),
      sc_open = to_float (hr_open c), sc_high = to_float (hr_high c), sc_low = to_float (hr_low c),
      sc_close = to_float (hr_close c), sc_vwap = None,
      sc_volume = Some (of_int (case to_float (hr_volume c) of None \<Rightarrow> 0 | Some v \<Rightarrow> py_trunc v)), sc_oi = None\<rparr>"

definition norm_candles :: "hrow list \<Rightarrow> scandle list" where
  "norm_candles rows = sort_key sc_ts (filter (\<lambda>c. sc_close c \<noteq> None) (map norm_row rows))"

section \<open>Lemmas\<close>

lemma dget_append: "dget (xs @ ys) k = (if k \<in> fst ` set xs then dget xs k else dget ys k)"
proof (cases "k \<in> fst ` set xs")
  case True
  then have "map_of xs k \<noteq> None" by (simp add: map_of_eq_None_iff)
  with True show ?thesis by (auto simp: dget_def map_add_def)
next
  case False
  then have "map_of xs k = None" by (simp add: map_of_eq_None_iff)
  with False show ?thesis by (simp add: dget_def map_add_def split: option.split)
qed

lemma dget_drop_blank: "dget (drop_blank q k) k' = (if k' = k \<and> blank_val (dget q k) then VNone else dget q k')"
  by (simp add: drop_blank_def)

lemma blank_VNone [simp]: "blank_val VNone"
  by (simp add: blank_val_def)

lemma dget_drop_all:
  "dget (foldl drop_blank q ks) k = (if k \<in> set ks \<and> blank_val (dget q k) then VNone else dget q k)"
proof (induction ks arbitrary: q)
  case (Cons x ks)
  have "blank_val (dget (drop_blank q x) k) = blank_val (dget q k)"
    by (cases "k = x \<and> blank_val (dget q x)") (auto simp: dget_drop_blank)
  with Cons[of "drop_blank q x"] show ?case by (auto simp: dget_drop_blank)
qed simp

lemma keys_drop_blank: "fst ` set (drop_blank q k) \<subseteq> fst ` set q"
  by (auto simp: drop_blank_def ddel_def)

lemma keys_drop_all: "fst ` set (foldl drop_blank q ks) \<subseteq> fst ` set q"
proof (induction ks arbitrary: q)
  case (Cons k ks)
  from Cons[of "drop_blank q k"] keys_drop_blank[of q k] show ?case by auto
qed simp

lemma dropped_key:
  "k \<in> set ks \<Longrightarrow> blank_val (dget q k) \<Longrightarrow> k \<notin> fst ` set (foldl drop_blank q ks)"
proof (induction ks arbitrary: q)
  case (Cons x ks)
  show ?case
  proof (cases "k = x")
    case True
    with Cons.prems have "k \<notin> fst ` set (drop_blank q x)" by (auto simp: drop_blank_def ddel_def)
    with keys_drop_all[of "drop_blank q x" ks] show ?thesis by auto
  next
    case False
    with Cons show ?thesis by (simp add: dget_drop_blank)
  qed
qed simp

lemma kept_key:
  "\<not> blank_val (dget q k) \<Longrightarrow> dget (foldl drop_blank q ks) k = dget q k"
  by (simp add: dget_drop_all)

lemma blank_vnum [simp]: "blank_val (vnum x) = (x = None)"
  by (cases x) (simp_all add: blank_val_def)

lemma blank_VNum [simp]: "\<not> blank_val (VNum x)"
  by (simp add: blank_val_def)

lemma raw_quote_fields:
  "dget (raw_quote mc is_open now t) ''price'' = VNum (tk_ltp t)"
  "dget (raw_quote mc is_open now t) ''low'' = VNum (tk_low t)"
  "dget (raw_quote mc is_open now t) ''high'' = VNum (tk_high t)"
  "dget (raw_quote mc is_open now t) ''open'' = VNum (tk_open t)"
  "dget (raw_quote mc is_open now t) ''previousClose'' = VNum (tk_close t)"
  "dget (raw_quote mc is_open now t) ''symbol'' = VStr (tk_symbol t)"
  "dget (raw_quote mc is_open now t) ''source'' = VStr (tk_source t)"
  "dget (raw_quote mc is_open now t) ''dataQuality'' = VStr (sb_quality is_open (tk_source t))"
  "dget (raw_quote mc is_open now t) ''week52Low'' = vnum (tk_week_52_low t)"
  "dget (raw_quote mc is_open now t) ''week52High'' = vnum (tk_week_52_high t)"
  by (simp_all add: raw_quote_def Let_def dget_append)

lemma dget_clamp_low:
  "dget (clamp_low (raw_quote mc is_open now t)) k =
     (if k = ''week52Low'' then vnum (map_option (\<lambda>w. min (min w (tk_low t)) (tk_ltp t)) (tk_week_52_low t))
      else dget (raw_quote mc is_open now t) k)"
  by (cases "tk_week_52_low t") (auto simp: clamp_low_def raw_quote_fields List.map_filter_simps)

lemma dget_clamped:
  "dget (clamp_high (clamp_low (raw_quote mc is_open now t))) k =
     (if k = ''week52High'' then vnum (map_option (\<lambda>w. max (max w (tk_high t)) (tk_ltp t)) (tk_week_52_high t))
      else if k = ''week52Low'' then vnum (map_option (\<lambda>w. min (min w (tk_low t)) (tk_ltp t)) (tk_week_52_low t))
      else dget (raw_quote mc is_open now t) k)"
  by (cases "tk_week_52_high t")
    (auto simp: clamp_high_def dget_clamp_low raw_quote_fields List.map_filter_simps)

lemma sb_quote_get:
  "dget (sb_quote mc is_open now t) k =
     (let v = dget (clamp_high (clamp_low (raw_quote mc is_open now t))) k
      in if k \<in> set optional_quote_fields \<and> blank_val v then VNone else v)"
  by (simp add: sb_quote_def dget_drop_all Let_def)

lemma sb_quote_source: "dget (sb_quote mc is_open now t) ''source'' = VStr (tk_source t)"
  by (simp add: sb_quote_get dget_clamped raw_quote_fields optional_quote_fields_def)

lemma sb_quote_symbol: "dget (sb_quote mc is_open now t) ''symbol'' = VStr (tk_symbol t)"
  by (simp add: sb_quote_get dget_clamped raw_quote_fields optional_quote_fields_def)

lemma sb_quote_open: "dget (sb_quote mc is_open now t) ''open'' = VNum (tk_open t)"
  by (simp add: sb_quote_get dget_clamped raw_quote_fields optional_quote_fields_def)

text \<open>C38: The quote of a tick is consistent and free of blank optional fields: the price, the day's range and
  the source are the tick's; a 52-week bound is present exactly when the tick has one, and then the
  interval it bounds contains the price and the day's low or high; every optional key that is present has
  a value that is neither null nor blank; and the quality is \<^verbatim>\<open>REAL_TIME\<close> exactly in an open market for a
  source that is neither the delayed nor an archive feed.\<close>
theorem sb_quote_consistent:
  "dget (sb_quote mc is_open now t) ''price'' = VNum (tk_ltp t) \<and>
   dget (sb_quote mc is_open now t) ''source'' = VStr (tk_source t) \<and>
   dget (sb_quote mc is_open now t) ''week52Low'' = vnum (map_option (\<lambda>w. Min {w, tk_low t, tk_ltp t}) (tk_week_52_low t)) \<and>
   dget (sb_quote mc is_open now t) ''week52High'' = vnum (map_option (\<lambda>w. Max {w, tk_high t, tk_ltp t}) (tk_week_52_high t)) \<and>
   (\<forall>k\<in>set optional_quote_fields. k \<in> fst ` set (sb_quote mc is_open now t) \<longrightarrow>
      \<not> blank_val (dget (sb_quote mc is_open now t) k)) \<and>
   (dget (sb_quote mc is_open now t) ''dataQuality'' = VStr ''REAL_TIME'' \<longleftrightarrow>
      is_open \<and> \<not> contains_text (lower (tk_source t)) ''yahoo'' \<and> \<not> contains_text (lower (tk_source t)) ''archive'')"
proof -
  have blank: "k \<notin> fst ` set (sb_quote mc is_open now t)"
    if "k \<in> set optional_quote_fields" "blank_val (dget (sb_quote mc is_open now t) k)" for k
  proof (cases "blank_val (dget (clamp_high (clamp_low (raw_quote mc is_open now t))) k)")
    case True
    with that(1) show ?thesis unfolding sb_quote_def by (intro dropped_key)
  next
    case False
    with that show ?thesis by (simp add: sb_quote_get Let_def)
  qed
  have m: "Min {a, b, c} = min (min a b) c" "Max {a, b, c} = max (max a b) c" for a b c :: rat
    by (simp_all add: min.assoc max.assoc)
  have quality: "dget (sb_quote mc is_open now t) ''dataQuality'' = VStr (sb_quality is_open (tk_source t))"
    by (simp add: sb_quote_get dget_clamped raw_quote_fields optional_quote_fields_def)
  have bounds: "dget (sb_quote mc is_open now t) ''week52Low'' = vnum (map_option (\<lambda>w. min (min w (tk_low t)) (tk_ltp t)) (tk_week_52_low t))"
    "dget (sb_quote mc is_open now t) ''week52High'' = vnum (map_option (\<lambda>w. max (max w (tk_high t)) (tk_ltp t)) (tk_week_52_high t))"
    by (auto simp: sb_quote_get dget_clamped Let_def)
  have "dget (sb_quote mc is_open now t) ''price'' = VNum (tk_ltp t)"
    by (simp add: sb_quote_get dget_clamped raw_quote_fields optional_quote_fields_def)
  moreover have "\<forall>k\<in>set optional_quote_fields. k \<in> fst ` set (sb_quote mc is_open now t) \<longrightarrow>
      \<not> blank_val (dget (sb_quote mc is_open now t) k)" using blank by blast
  ultimately show ?thesis
    by (simp add: sb_quote_source bounds m quality sb_quality_def Let_def del: Min_insert Max_insert)
qed

definition demo_stamp :: datetime where
  "demo_stamp = ist_at (mk_date 2026 6 12) market_open"

definition demo_sb_tick :: tick where
  "demo_sb_tick = \<lparr>tk_symbol = ''TCS'', tk_isin = None, tk_exchange = ''NSE'', tk_series = None, tk_ltp = 90, tk_open = 100,
     tk_high = 101, tk_low = 89, tk_close = 100, tk_change = -10, tk_pct_change = -10, tk_volume = 5, tk_value = None,
     tk_vwap = None, tk_upper_circuit = None, tk_lower_circuit = None, tk_total_buy_qty = None,
     tk_total_sell_qty = None, tk_open_interest = None, tk_week_52_high = None, tk_week_52_low = Some 95,
     tk_depth = None, tk_timestamp = demo_stamp, tk_source = ''groww'', tk_latency_ms = 0\<rparr>"

theorem sb_quote_consistent_witness:
  "dget (sb_quote Map.empty True demo_stamp demo_sb_tick) ''week52Low'' = VNum 89 \<and>
   dget (sb_quote Map.empty True demo_stamp demo_sb_tick) ''week52High'' = VNone"
  using sb_quote_consistent[of Map.empty True demo_stamp demo_sb_tick] by (simp add: demo_sb_tick_def)

text \<open>The candles handed out are in time order and complete: \<^verbatim>\<open>_norm_candles\<close> sorts by the time stamp,
  keeps every row whose close is a number exactly once, drops the others, and keeps the given order of
  rows with equal stamps.\<close>
theorem norm_candles_ordered:
  "sorted (map sc_ts (norm_candles rows)) \<and>
   mset (norm_candles rows) = mset (filter (\<lambda>c. sc_close c \<noteq> None) (map norm_row rows)) \<and>
   (\<forall>c\<in>set (norm_candles rows). sc_close c \<noteq> None) \<and>
   (\<forall>s. filter (\<lambda>c. sc_ts c = s) (norm_candles rows) =
        filter (\<lambda>c. sc_ts c = s \<and> sc_close c \<noteq> None) (map norm_row rows))"
proof -
  have "filter (\<lambda>c. sc_ts c = s) (norm_candles rows) =
        filter (\<lambda>c. sc_ts c = s \<and> sc_close c \<noteq> None) (map norm_row rows)" for s
  proof -
    have "filter (\<lambda>c. sc_ts c = s) (sort_key sc_ts xs) = filter (\<lambda>c. sc_ts c = s) xs" for xs :: "scandle list"
      using sort_key_stable[of sc_ts s xs] by (simp add: eq_commute)
    then show ?thesis by (simp add: norm_candles_def conj_commute)
  qed
  then show ?thesis by (auto simp: norm_candles_def)
qed

definition demo_row :: "string \<Rightarrow> val \<Rightarrow> hrow" where
  "demo_row b v = \<lparr>hr_timestamp = None, hr_bucket = Some b, hr_date = None, hr_open = v, hr_high = v, hr_low = v,
     hr_close = v, hr_volume = VInt 1\<rparr>"

theorem norm_candles_ordered_witness:
  "list_all (\<lambda>c. sc_close c \<noteq> None) (norm_candles [demo_row ''b'' (VNum 1), demo_row ''a'' VNone])"
  using norm_candles_ordered[of "[demo_row ''b'' (VNum 1), demo_row ''a'' VNone]"] by (simp add: list_all_iff)

end
