(* ===== verification/BseSite.thy ===== *)
theory BseSite
  imports Feeds SbQuotes
begin

text \<open>
  The session of \<^verbatim>\<open>src/providers/bse_scraper.py\<close>, and the panels of the exchange sites: order book, intraday curve and details of \<^verbatim>\<open>src/providers/bse_scraper.py\<close>, and the
  details of \<^verbatim>\<open>src/providers/nse_live.py\<close>. Replies are as in the feeds; \<open>loads\<close> is the JSON parser that the curve's embedded
  text goes through (\<open>None\<close> an exception). A decimal that is sent out as text stands as its number. In the results
  the outer \<open>None\<close> is an exception, the inner one the function's \<^verbatim>\<open>None\<close>.
\<close>

section \<open>The session\<close>

text \<open>Whether a session object is there, the connected flag, and when the home page was last fetched. \<open>iv\<close> is
  \<^verbatim>\<open>session_refresh_interval_seconds\<close>, \<open>ok\<close> tells whether the fetch of the home page works.\<close>

record bse_sess =
  bb_session :: bool
  bb_connected :: bool
  bb_warmed :: secs

definition new_bse_sess :: bse_sess where
  "new_bse_sess = \<lparr>bb_session = False, bb_connected = False, bb_warmed = 0\<rparr>"

definition bse_warmup :: "secs \<Rightarrow> secs \<Rightarrow> bool \<Rightarrow> bse_sess \<Rightarrow> bse_sess" where
  "bse_warmup iv now ok s = (if now - bb_warmed s < iv then s else if ok then s\<lparr>bb_warmed := now\<rparr> else s)"

definition bse_connect :: "secs \<Rightarrow> secs \<Rightarrow> bool \<Rightarrow> bse_sess \<Rightarrow> bse_sess" where
  "bse_connect iv now ok s =
     (if bb_connected s then s else (bse_warmup iv now ok (s\<lparr>bb_session := True\<rparr>))\<lparr>bb_connected := True\<rparr>)"

definition bse_disconnect :: "bse_sess \<Rightarrow> bse_sess" where
  "bse_disconnect s = s\<lparr>bb_session := False, bb_connected := False\<rparr>"

definition bse_ready :: "secs \<Rightarrow> secs \<Rightarrow> bool \<Rightarrow> secs \<Rightarrow> bool \<Rightarrow> bse_sess \<Rightarrow> bse_sess" where
  "bse_ready iv now ok now2 ok2 s = bse_warmup iv now2 ok2 (bse_connect iv now ok s)"

definition bse_health :: "http \<Rightarrow> bse_sess \<Rightarrow> bool" where
  "bse_health reply s \<longleftrightarrow> bb_connected s \<and> (case reply of Http status b \<Rightarrow> status = 200 | NoReply \<Rightarrow> False)"

definition bse_headers :: "string \<Rightarrow> (string \<times> string) list \<Rightarrow> (string \<times> string) list" where
  "bse_headers base h = dput ''Referer'' (base @ ''/'') (dput ''Origin'' base h)"

text \<open>A request always goes out on a session, and one whose home page was fetched within the interval unless that failed.\<close>

lemma bse_ready_session:
  assumes "bb_connected s \<longrightarrow> bb_session s"
  shows "bb_session (bse_ready iv now ok now2 ok2 s) \<and> bb_connected (bse_ready iv now ok now2 ok2 s) \<and>
    (ok2 \<and> 0 < iv \<longrightarrow> now2 - bb_warmed (bse_ready iv now ok now2 ok2 s) < iv)"
  using assms by (simp add: bse_ready_def bse_connect_def bse_warmup_def)

text \<open>A reconnect within the interval makes a new session whose cookies are never fetched, since the stamp of the old one stands.\<close>

lemma reconnect_skips_warmup:
  assumes "bb_connected s" "now - bb_warmed s < iv"
  shows "bb_warmed (bse_connect iv now ok (bse_disconnect s)) = bb_warmed s \<and> bb_session (bse_connect iv now ok (bse_disconnect s))"
  using assms by (simp add: bse_connect_def bse_disconnect_def bse_warmup_def)

section \<open>The order book\<close>

definition json_reply :: "http \<Rightarrow> val option" where
  "json_reply r = (case r of Http status (Json v) \<Rightarrow> if status = 200 then Some v else None | _ \<Rightarrow> None)"

definition book_level :: "dict \<Rightarrow> string \<Rightarrow> nat \<Rightarrow> val list" where
  "book_level d side i =
     (let p = dget d (side @ ''Price'' @ nat_digits i); q = dget d (side @ ''Qty'' @ nat_digits i)
      in if truthy_val p then [VDict [(''price'', VNum (dec_value p)), (''quantity'', VInt (py_trunc (dec_value q)))]] else [])"

definition bse_book :: "dict \<Rightarrow> dict" where
  "bse_book d =
     [(''buy'', VList (concat (map (book_level d ''B'') [1..<6]))), (''sell'', VList (concat (map (book_level d ''S'') [1..<6]))),
      (''total_buy_quantity'', VInt (py_trunc (dec_get d ''TotalBQty''))),
      (''total_sell_quantity'', VInt (py_trunc (dec_get d ''TotalSQty''))), (''updated_at'', dget d ''dttm'')]"

definition bse_fetch_depth :: "string option \<Rightarrow> (string \<Rightarrow> http) \<Rightarrow> dict option option" where
  "bse_fetch_depth code reply =
     (case code of None \<Rightarrow> Some None
      | Some c \<Rightarrow> (case json_reply (reply c) of None \<Rightarrow> Some None
                   | Some (VDict d) \<Rightarrow> Some (Some (bse_book d)) | Some v \<Rightarrow> None))"

section \<open>The curve\<close>

definition month_names :: "string list" where
  "month_names = [''jan'', ''feb'', ''mar'', ''apr'', ''may'', ''jun'', ''jul'', ''aug'', ''sep'', ''oct'', ''nov'', ''dec'']"

definition day_names :: "string list" where
  "day_names = [''mon'', ''tue'', ''wed'', ''thu'', ''fri'', ''sat'', ''sun'']"

definition index_in :: "string list \<Rightarrow> string \<Rightarrow> nat option" where
  "index_in ns s = (let i = length (takeWhile (\<lambda>n. n \<noteq> s) ns) in if i < length ns then Some i else None)"

definition small :: "string \<Rightarrow> nat \<Rightarrow> nat \<Rightarrow> int \<Rightarrow> int option" where
  "small s lo hi mx =
     (if lo \<le> length s \<and> length s \<le> hi then (case digits_val 0 s of None \<Rightarrow> None | Some n \<Rightarrow> if n \<le> mx then Some n else None)
      else None)"

text \<open>\<^verbatim>\<open>datetime.strptime(s, "%a %b %d %Y %H:%M:%S")\<close>, as IST: blanks separate the fields and do not surround them.\<close>

definition parse_dttm :: "string \<Rightarrow> datetime option" where
  "parse_dttm s =
     (if s = [] \<or> is_space (hd s) \<or> is_space (last s) then None
      else (case filter (\<lambda>w. w \<noteq> []) (split_on (CHR '' '') s) of
          [a, b, d, y, t] \<Rightarrow>
            (case (index_in day_names (lower a), index_in month_names (lower b), small d 1 2 31, small y 4 4 9999, split_on (CHR '':'') t) of
               (Some _, Some m, Some dd, Some yy, [h, mi, sec]) \<Rightarrow>
                 (case (small h 1 2 23, small mi 1 2 59, small sec 1 2 59) of
                    (Some hh, Some mm, Some ss) \<Rightarrow>
                      (let dt = mk_date yy (int m + 1) dd
                       in if valid_date dt then Some \<lparr>dt_date = dt, dt_us = us_of hh mm + ss * 1000000, dt_tz = Some ist_offset\<rparr> else None)
                  | _ \<Rightarrow> None)
             | _ \<Rightarrow> None)
        | _ \<Rightarrow> None))"

fun graph_points :: "val list \<Rightarrow> curve_point list option" where
  "graph_points [] = Some []"
| "graph_points (VDict p # ps) =
     (let dttm = dget p ''dttm''; x = dec_get p ''vale1''
      in if \<not> truthy_val dttm \<or> x \<le> 0 then graph_points ps
         else (case dttm of
             VStr s \<Rightarrow>
               (case parse_dttm s of
                  None \<Rightarrow> graph_points ps
                | Some t \<Rightarrow> map_option ((#) \<lparr>cp_ts = isoformat t, cp_price = Some x,
                     cp_volume = Some (of_int (py_trunc (dec_get p ''vole'')))\<rparr>) (graph_points ps))
           | _ \<Rightarrow> None))"
| "graph_points (_ # ps) = None"

definition graph_rows :: "(string \<Rightarrow> val option) \<Rightarrow> val \<Rightarrow> val list option" where
  "graph_rows loads raw =
     (case (case raw of VStr s \<Rightarrow> loads s | v \<Rightarrow> Some (val_or v (VList []))) of
        Some (VList xs) \<Rightarrow> Some xs | _ \<Rightarrow> None)"

definition bse_intraday_graph :: "(string \<Rightarrow> val option) \<Rightarrow> string option \<Rightarrow> (string \<Rightarrow> http) \<Rightarrow> curve_point list option option" where
  "bse_intraday_graph loads code reply =
     (case code of None \<Rightarrow> Some None
      | Some c \<Rightarrow>
          (case json_reply (reply c) of None \<Rightarrow> Some None
           | Some (VDict d) \<Rightarrow>
               (case Option.bind (graph_rows loads (dget d ''Data'')) graph_points of
                  None \<Rightarrow> None | Some ps \<Rightarrow> Some (Some (sort_key cp_ts ps)))
           | Some v \<Rightarrow> None))"

section \<open>Details\<close>

definition pick_fields :: "dict \<Rightarrow> (string \<times> string) list \<Rightarrow> dict" where
  "pick_fields d ks = map (\<lambda>(k, src). (k, dget d src)) ks"

text \<open>The four documents and the book, each of them an object.\<close>

definition bse_details :: "string \<Rightarrow> string \<Rightarrow> dict \<Rightarrow> dict \<Rightarrow> dict \<Rightarrow> dict \<Rightarrow> val \<Rightarrow> dict option" where
  "bse_details sm code hdr com hl trd book =
     (let h = sub_dict (dget hdr ''Header''); c = sub_dict (dget hdr ''CurrRate''); n = sub_dict (dget hdr ''Cmpname'');
          ltp = val_or (dget c ''LTP'') (dget h ''LTP'')
      in if \<not> truthy_val ltp then None
         else Some [(''symbol'', VStr (upper sm)), (''name'', val_or (dget n ''FullN'') (VStr sm)), (''exchange'', VStr ''BSE''),
           (''scrip_code'', VStr code), (''source'', VStr ''bse_scraper''), (''as_on'', dget h ''Ason''),
           (''price'', VDict ([(''ltp'', ltp), (''change'', dget c ''Chg''), (''pct_change'', dget c ''PcChg'')] @
              pick_fields h [(''open'', ''Open''), (''high'', ''High''), (''low'', ''Low''), (''prev_close'', ''PrevClose'')] @
              pick_fields trd [(''vwap'', ''WAP'')])),
           (''range'', VDict [(''week_52_high'', val_or (dget hl ''Fifty2WkHigh_unadj'') (dget hl ''Fifty2WkHigh_adj'')),
              (''week_52_low'', val_or (dget hl ''Fifty2WkLow_unadj'') (dget hl ''Fifty2WkLow_adj'')),
              (''month_high_low'', dget hl ''MonthHighLow''), (''week_high_low'', dget hl ''WeekHighLow''),
              (''price_band'', dget trd ''CktLimit''), (''circuit_filter'', dget hl ''CktFilter'')]),
           (''traded'', VDict (pick_fields trd [(''ttq_lakh'', ''TTQ''), (''turnover_cr'', ''Turnover''),
              (''two_wk_avg_qty_lakh'', ''TwoWkAvgQty''), (''mcap_full_cr'', ''MktCapFull''), (''mcap_ff_cr'', ''MktCapFF'')])),
           (''fundamentals'', VDict (pick_fields com [(''isin'', ''ISIN''), (''face_value'', ''FaceVal''), (''group'', ''Group''),
              (''index'', ''Index'')] @ [(''category'', dget n ''Category''), (''sector'', dget com ''Sector''),
              (''industry'', val_or (dget com ''Industry'') (dget com ''IndustryNew''))] @
              pick_fields com [(''eps'', ''EPS''), (''pe'', ''PE''), (''pb'', ''PB''), (''roe'', ''ROE''), (''ceps'', ''CEPS'')])),
           (''market_depth'', book)])"

text \<open>The details of the Moneycontrol relay, on the \<^verbatim>\<open>data\<close> object of a 200 reply.\<close>

definition mc_details :: "bool \<Rightarrow> string \<Rightarrow> dict \<Rightarrow> dict option" where
  "mc_details bse sm d =
     (if \<not> truthy_val (dget d ''pricecurrent'') then None
      else Some [(''symbol'', VStr (upper sm)), (''name'', val_or (dget d ''company'') (VStr sm)), (''exchange'', VStr (mc_exchange bse)),
        (''source'', VStr (mc_name bse)), (''last_updated'', dget d ''lastupd''), (''market_state'', dget d ''market_state''),
        (''session'', dget d ''sessionId''),
        (''price'', VDict (pick_fields d [(''ltp'', ''pricecurrent''), (''change'', ''pricechange''), (''pct_change'', ''pricepercentchange''),
           (''open'', ''OPN''), (''high'', ''HP''), (''low'', ''LP''), (''prev_close'', ''priceprevclose''), (''vwap'', ''AVGP''),
           (''upper_band'', ''upper_circuit_limit''), (''lower_band'', ''lower_circuit_limit'')])),
        (''range'', VDict (pick_fields d [(''week_52_high'', ''52H''), (''week_52_high_date'', ''52HDate''), (''week_52_low'', ''52L''),
           (''week_52_low_date'', ''52LDate''), (''lifetime_high'', ''LTH''), (''lifetime_high_date'', ''LTHDate''),
           (''lifetime_low'', ''LTL''), (''lifetime_low_date'', ''LTLDate'')])),
        (''moving_averages'', VDict (pick_fields d [(''5d'', ''5DayAvg''), (''30d'', ''30DayAvg''), (''50d'', ''50DayAvg''),
           (''150d'', ''150DayAvg''), (''200d'', ''200DayAvg'')])),
        (''bid_ask'', VDict (pick_fields d [(''bid'', ''BIDP''), (''bid_qty'', ''BIDQ''), (''ask'', ''OFFERP''), (''ask_qty'', ''OFFERQ''),
           (''total_buy_qty'', ''tot_buy_qty''), (''total_sell_qty'', ''tot_sell_qty'')])),
        (''traded'', VDict (pick_fields d [(''volume'', ''VOL''), (''mcap_cr'', ''MKTCAP''), (''lot_size'', ''MKT_LOT''),
           (''delivery_pct'', ''DELV''), (''avg_delivery_20d_pct'', ''AvgDelVolPer_20day''), (''avg_volume_20d'', ''DVolAvg20'')])),
        (''fundamentals'', VDict (pick_fields d [(''isin'', ''isinid''), (''face_value'', ''FV''), (''eps_ttm'', ''sc_ttm_cons''),
           (''pe'', ''sc_mapindex''), (''industry_pe'', ''IND_PE''), (''book_value'', ''BV''), (''book_value_cons'', ''BVCONS''),
           (''ceps'', ''CEPS''), (''div_yield'', ''DY''), (''dividend'', ''DIVPR''), (''sector'', ''main_sector''),
           (''subsector'', ''newSubsector''), (''nse_id'', ''NSEID''), (''bse_id'', ''BSEID'')])),
        (''returns_pct'', VDict (pick_fields d [(''1W'', ''cl1wPerChange''), (''1M'', ''cl1mPerChange''), (''3M'', ''cl3mPerChange''),
           (''6M'', ''cl6mPerChange''), (''YTD'', ''clYtdPerChange''), (''1Y'', ''cl1yPerChange''), (''2Y'', ''cl2yPerChange''),
           (''3Y'', ''cl3yPerChange''), (''5Y'', ''cl5yPerChange''), (''7Y'', ''cl7yPerChange'')]))])"

section \<open>The curve's order\<close>

text \<open>A point as the candle builder needs it: a positive price and a stamp that is an IST time of a real day.\<close>

definition point_ok :: "curve_point \<Rightarrow> bool" where
  "point_ok p \<longleftrightarrow> (\<exists>t. cp_ts p = isoformat t \<and> datetime_ok t \<and> dt_tz t = Some ist_offset) \<and>
     (\<exists>x. cp_price p = Some x \<and> 0 < x) \<and> cp_volume p \<noteq> None"

lemma digits_val_nonneg: "digits_val a s = Some n \<Longrightarrow> 0 \<le> a \<Longrightarrow> 0 \<le> n"
proof (induction a s rule: digits_val.induct)
  case (2 acc c cs)
  have "(0::int) \<le> of_char c - 48" if "is_digit c"
  proof -
    from that have "(48::int) \<le> int (of_char c)" by (simp add: is_digit_def less_eq_char_def)
    then show ?thesis by (simp only: of_nat_of_char)
  qed
  with 2 show ?case by (simp split: if_splits)
qed simp

lemma small_range: "small s lo hi mx = Some n \<Longrightarrow> 0 \<le> n \<and> n \<le> mx"
  by (auto simp: small_def dest: digits_val_nonneg split: if_splits option.splits)

lemma parse_dttm_ok:
  assumes "parse_dttm s = Some t"
  shows "datetime_ok t \<and> dt_tz t = Some ist_offset"
proof -
  from assms obtain dt hh mm ss h mi sec where t: "t = \<lparr>dt_date = dt, dt_us = us_of hh mm + ss * 1000000, dt_tz = Some ist_offset\<rparr>"
    "valid_date dt" "small h 1 2 23 = Some hh" "small mi 1 2 59 = Some mm" "small sec 1 2 59 = Some ss"
    by (auto simp: parse_dttm_def Let_def split: if_splits list.splits option.splits)
  from t(3-5) small_range have "0 \<le> hh" "hh \<le> 23" "0 \<le> mm" "mm \<le> 59" "0 \<le> ss" "ss \<le> 59" by blast+
  with t(1,2) show ?thesis by (simp add: datetime_ok_def us_of_def day_us_def ist_offset_def)
qed

lemma point_ok_parsed:
  "parse_dttm s = Some t \<Longrightarrow> 0 < x \<Longrightarrow> point_ok \<lparr>cp_ts = isoformat t, cp_price = Some x, cp_volume = Some y\<rparr>"
  using parse_dttm_ok by (auto simp: point_ok_def)

lemma graph_points_ok: "graph_points ps = Some qs \<Longrightarrow> list_all point_ok qs"
proof (induction ps arbitrary: qs rule: graph_points.induct)
  case (2 p ps)
  then show ?case
    by (auto simp: Let_def not_le intro: point_ok_parsed split: if_splits val.splits option.splits)
qed simp_all

text \<open>C37: The BSE curve reaches the candle builder in order: the points are sorted by their stamps, each stamp is an IST time
  that the ISO reader takes back, and each point has a positive price.\<close>

theorem bse_curve_sorted:
  assumes "bse_intraday_graph loads code reply = Some (Some ps)"
  shows "sorted (map cp_ts ps) \<and> list_all (\<lambda>p. (\<exists>t. fromisoformat (cp_ts p) = Some t \<and> dt_tz t = Some ist_offset) \<and>
    (\<exists>x. cp_price p = Some x \<and> 0 < x)) ps"
proof -
  from assms obtain qs xs where q: "ps = sort_key cp_ts qs" "graph_points xs = Some qs"
    by (auto simp: bse_intraday_graph_def bind_eq_Some_conv split: option.splits val.splits)
  from graph_points_ok[OF q(2)] have "list_all point_ok ps" by (auto simp: q(1) list_all_iff)
  then show ?thesis
    by (auto simp: q(1) list_all_iff point_ok_def fromisoformat_isoformat)
qed

definition demo_graph :: "string \<Rightarrow> http" where
  "demo_graph c = Http 200 (Json (VDict [(''Data'', VList
     [VDict [(''dttm'', VStr ''Mon Jan 05 2026 09:16:00''), (''vale1'', VStr ''101.5''), (''vole'', VInt 7)],
      VDict [(''dttm'', VStr ''Mon Jan 05 2026 09:15:00''), (''vale1'', VStr ''100''), (''vole'', VInt 5)],
      VDict [(''dttm'', VStr ''soon''), (''vale1'', VInt 9), (''vole'', VInt 5)]])]))"

theorem bse_curve_sorted_witness:
  "\<exists>ps. bse_intraday_graph (\<lambda>_. None) (Some ''500325'') demo_graph = Some (Some ps) \<and> length ps = 2 \<and> sorted (map cp_ts ps)"
proof -
  have p: "parse_dttm ''Mon Jan 05 2026 09:16:00'' \<noteq> None" "parse_dttm ''Mon Jan 05 2026 09:15:00'' \<noteq> None"
    "parse_dttm ''soon'' = None" by code_simp+
  have d: "dec_value (VStr ''101.5'') = 203 / 2" "dec_value (VStr ''100'') = 100" by code_simp+
  obtain ps where r: "bse_intraday_graph (\<lambda>_. None) (Some ''500325'') demo_graph = Some (Some ps)" "length ps = 2"
    using p by (auto simp: bse_intraday_graph_def demo_graph_def json_reply_def graph_rows_def val_or_def dec_get_def d Let_def
        simp del: dec_value.simps(3))
  with bse_curve_sorted[OF r(1)] show ?thesis by blast
qed

text \<open>The two readers of one header document look for the current rate at different places: with the rate beside the header, the
  details show it while the quote falls back to the previous close.\<close>

lemma current_rate_missed:
  "let doc = [(''Header'', VDict [(''PrevClose'', VInt 100)]), (''CurrRate'', VDict [(''LTP'', VInt 110)])]
   in (\<exists>t. bse_parse doc ''TCS'' 0 now = Inr t \<and> tk_ltp t = 100) \<and>
      (\<exists>d. bse_details ''TCS'' ''532540'' doc [] [] [] VNone = Some d \<and> dget (sub_dict (dget d ''price'')) ''ltp'' = VInt 110)"
proof -
  have "normalize_symbol ''TCS'' = ''TCS''" by code_simp
  then show ?thesis
    by (simp add: bse_parse_def bse_parse_fields_def as_obj_def val_or_def Let_def validated_def make_tick_def feed_tick_def tick_ok_def
        opt_ge0_def compute_change_def pos_or_def pos_opt_def dec_get_def py_trunc_def bse_details_def pick_fields_def)
qed

end
