(* ===== verification/MemoryStore.thy ===== *)
theory MemoryStore
  imports Models
begin

text \<open>
  \<^verbatim>\<open>src/cache/memory_store.py\<close>: the in-process stand-in for Redis. The store's dictionaries
  are the record \<open>store\<close>; a pub/sub object is identified by a number, with its channel set
  and its queue kept in the store. A stored hash value is text produced by \<^verbatim>\<open>str\<close>; the
  datatype \<open>field\<close> keeps what was printed, so reading it back as a number is the identity.
  A pipeline is the list of buffered calls, executed one after the other, each reading the
  clock for itself. Published messages have any type.

  The locale \<open>hash_cache\<close> is the contract of the hash operations that the ticker cache uses.
\<close>

section \<open>State\<close>

datatype field = Txt string | DecTxt rat | IntTxt int | FloatTxt rat | TimeTxt datetime

type_synonym fields = "(string \<times> field) list"

datatype kv_val = KText string | KInt int

type_synonym msg_id = "int \<times> int"

record 'm pubsub =
  ps_channels :: "string list"
  ps_queue :: "(string \<times> 'm) list"

record 'm store =
  st_kv :: "string \<rightharpoonup> kv_val"
  st_hashes :: "string \<rightharpoonup> fields"
  st_expiry :: "string \<rightharpoonup> secs"
  st_streams :: "string \<rightharpoonup> (msg_id \<times> fields) list"
  st_stream_seq :: "string \<Rightarrow> int"
  st_subscribers :: "string \<Rightarrow> nat list"
  st_groups :: "string \<Rightarrow> string \<rightharpoonup> nat"
  st_pubsubs :: "'m pubsub list"

definition stream_maxlen :: nat where
  "stream_maxlen = 100000"

definition empty_store :: "'m store" where
  "empty_store = \<lparr>st_kv = Map.empty, st_hashes = Map.empty, st_expiry = Map.empty, st_streams = Map.empty,
     st_stream_seq = (\<lambda>_. 0), st_subscribers = (\<lambda>_. []), st_groups = (\<lambda>_. Map.empty), st_pubsubs = []\<rparr>"

section \<open>Expiry and strings\<close>

definition expired :: "secs \<Rightarrow> string \<Rightarrow> 'm store \<Rightarrow> bool \<times> 'm store" where
  "expired now k s =
     (case st_expiry s k of
        Some e \<Rightarrow> if now \<ge> e
          then (True, s\<lparr>st_kv := (st_kv s)(k := None), st_hashes := (st_hashes s)(k := None),
                        st_expiry := (st_expiry s)(k := None)\<rparr>)
          else (False, s)
      | None \<Rightarrow> (False, s))"

definition kv_get :: "secs \<Rightarrow> string \<Rightarrow> 'm store \<Rightarrow> kv_val option \<times> 'm store" where
  "kv_get now k s = (case expired now k s of (True, s') \<Rightarrow> (None, s') | (False, s') \<Rightarrow> (st_kv s' k, s'))"

definition kv_set :: "secs \<Rightarrow> string \<Rightarrow> kv_val \<Rightarrow> int option \<Rightarrow> 'm store \<Rightarrow> 'm store" where
  "kv_set now k v ex s =
     s\<lparr>st_kv := (st_kv s)(k \<mapsto> v),
       st_expiry := (case ex of None \<Rightarrow> (st_expiry s)(k := None)
         | Some n \<Rightarrow> if n = 0 then (st_expiry s)(k := None) else (st_expiry s)(k \<mapsto> now + of_int n))\<rparr>"

datatype store_error = ValueError

definition kv_incr :: "secs \<Rightarrow> string \<Rightarrow> 'm store \<Rightarrow> (store_error + int) \<times> 'm store" where
  "kv_incr now k s =
     (let s1 = (case expired now k s of (True, s') \<Rightarrow> s'\<lparr>st_kv := (st_kv s')(k \<mapsto> KInt 0)\<rparr> | (False, s') \<Rightarrow> s');
          current = (case st_kv s1 k of None \<Rightarrow> Some 0 | Some (KInt n) \<Rightarrow> Some n | Some (KText t) \<Rightarrow> parse_int t)
      in case current of
           None \<Rightarrow> (Inl ValueError, s1)
         | Some n \<Rightarrow> (Inr (n + 1), s1\<lparr>st_kv := (st_kv s1)(k \<mapsto> KInt (n + 1))\<rparr>))"

definition expire :: "secs \<Rightarrow> string \<Rightarrow> int \<Rightarrow> 'm store \<Rightarrow> bool \<times> 'm store" where
  "expire now k ttl s =
     (if st_kv s k \<noteq> None \<or> st_hashes s k \<noteq> None
      then (True, s\<lparr>st_expiry := (st_expiry s)(k \<mapsto> now + of_int ttl)\<rparr>) else (False, s))"

section \<open>Hashes\<close>

definition update_fields :: "fields \<Rightarrow> fields \<Rightarrow> fields" where
  "update_fields h items = foldl (\<lambda>h (k, v). dput k v h) h items"

definition raw_hash :: "string \<Rightarrow> 'm store \<Rightarrow> fields" where
  "raw_hash k s = (case st_hashes s k of None \<Rightarrow> [] | Some h \<Rightarrow> h)"

definition hset :: "string \<Rightarrow> fields \<Rightarrow> 'm store \<Rightarrow> nat \<times> 'm store" where
  "hset k items s =
     (length items, s\<lparr>st_hashes := (st_hashes s)(k \<mapsto> update_fields (raw_hash k s) items)\<rparr>)"

definition hgetall :: "secs \<Rightarrow> string \<Rightarrow> 'm store \<Rightarrow> fields \<times> 'm store" where
  "hgetall now k s = (case expired now k s of (True, s') \<Rightarrow> ([], s') | (False, s') \<Rightarrow> (raw_hash k s', s'))"

section \<open>Streams\<close>

definition stream_buf :: "string \<Rightarrow> 'm store \<Rightarrow> (msg_id \<times> fields) list" where
  "stream_buf k s = (case st_streams s k of None \<Rightarrow> [] | Some b \<Rightarrow> b)"

definition xadd :: "secs \<Rightarrow> string \<Rightarrow> fields \<Rightarrow> 'm store \<Rightarrow> msg_id \<times> 'm store" where
  "xadd now k fs s =
     (let n = st_stream_seq s k + 1; mid = (py_trunc (now * 1000), n)
      in (mid, s\<lparr>st_stream_seq := (st_stream_seq s)(k := n),
                 st_streams := (st_streams s)(k \<mapsto> deque_append stream_maxlen (stream_buf k s) (mid, fs))\<rparr>))"

definition xgroup_create :: "string \<Rightarrow> string \<Rightarrow> 'm store \<Rightarrow> bool \<times> 'm store" where
  "xgroup_create k g s =
     (True, s\<lparr>st_streams := (st_streams s)(k \<mapsto> stream_buf k s),
              st_groups := (st_groups s)(k := (st_groups s k)(g \<mapsto> 0))\<rparr>)"

definition group_pos :: "string \<Rightarrow> string \<Rightarrow> 'm store \<Rightarrow> nat" where
  "group_pos k g s = (case st_groups s k g of None \<Rightarrow> 0 | Some n \<Rightarrow> n)"

definition read_stream :: "string \<Rightarrow> nat \<Rightarrow> string \<Rightarrow> 'm store \<Rightarrow> (msg_id \<times> fields) list \<times> 'm store" where
  "read_stream g count k s =
     (let last = group_pos k g s; new = take count (drop last (stream_buf k s))
      in (new, if new = [] then s
               else s\<lparr>st_groups := (st_groups s)(k := (st_groups s k)(g \<mapsto> last + length new))\<rparr>))"

fun xreadgroup :: "string \<Rightarrow> nat \<Rightarrow> string list \<Rightarrow> 'm store \<Rightarrow>
    (string \<times> (msg_id \<times> fields) list) list \<times> 'm store" where
  "xreadgroup g count [] s = ([], s)"
| "xreadgroup g count (k # ks) s =
     (case read_stream g count k s of
        (new, s1) \<Rightarrow> (case xreadgroup g count ks s1 of
           (out, s2) \<Rightarrow> ((if new = [] then out else (k, new) # out), s2)))"

definition xack :: "msg_id list \<Rightarrow> nat" where
  "xack ids = length ids"

section \<open>Pub/sub\<close>

definition pubsub_open :: "'m store \<Rightarrow> nat \<times> 'm store" where
  "pubsub_open s = (length (st_pubsubs s), s\<lparr>st_pubsubs := st_pubsubs s @ [\<lparr>ps_channels = [], ps_queue = []\<rparr>]\<rparr>)"

definition set_add :: "'a \<Rightarrow> 'a list \<Rightarrow> 'a list" where
  "set_add x xs = (if x \<in> set xs then xs else xs @ [x])"

definition upd_pubsub :: "nat \<Rightarrow> ('m pubsub \<Rightarrow> 'm pubsub) \<Rightarrow> 'm store \<Rightarrow> 'm store" where
  "upd_pubsub i f s = s\<lparr>st_pubsubs := (st_pubsubs s)[i := f (st_pubsubs s ! i)]\<rparr>"

definition subscribe1 :: "nat \<Rightarrow> 'm store \<Rightarrow> string \<Rightarrow> 'm store" where
  "subscribe1 i s ch =
     (upd_pubsub i (\<lambda>p. p\<lparr>ps_channels := set_add ch (ps_channels p)\<rparr>) s)
        \<lparr>st_subscribers := (st_subscribers s)(ch := set_add i (st_subscribers s ch))\<rparr>"

definition subscribe :: "nat \<Rightarrow> string list \<Rightarrow> 'm store \<Rightarrow> 'm store" where
  "subscribe i chs s = foldl (subscribe1 i) s chs"

definition unsubscribe1 :: "nat \<Rightarrow> 'm store \<Rightarrow> string \<Rightarrow> 'm store" where
  "unsubscribe1 i s ch =
     (upd_pubsub i (\<lambda>p. p\<lparr>ps_channels := removeAll ch (ps_channels p)\<rparr>) s)
        \<lparr>st_subscribers := (st_subscribers s)(ch := removeAll i (st_subscribers s ch))\<rparr>"

definition unsubscribe :: "nat \<Rightarrow> string list \<Rightarrow> 'm store \<Rightarrow> 'm store" where
  "unsubscribe i chs s =
     foldl (unsubscribe1 i) s (if chs = [] then ps_channels (st_pubsubs s ! i) else chs)"

definition pubsub_close :: "nat \<Rightarrow> 'm store \<Rightarrow> 'm store" where
  "pubsub_close i s = unsubscribe i [] s"

definition publish :: "string \<Rightarrow> 'm \<Rightarrow> 'm store \<Rightarrow> nat \<times> 'm store" where
  "publish ch m s =
     (let subs = st_subscribers s ch
      in (length subs,
          foldl (\<lambda>s i. upd_pubsub i (\<lambda>p. p\<lparr>ps_queue := ps_queue p @ [(ch, m)]\<rparr>) s) s subs))"

text \<open>\<^verbatim>\<open>listen\<close>: the next queued message; \<open>None\<close> means the generator is waiting.\<close>

definition listen1 :: "nat \<Rightarrow> 'm store \<Rightarrow> (string \<times> 'm) option \<times> 'm store" where
  "listen1 i s =
     (case ps_queue (st_pubsubs s ! i) of [] \<Rightarrow> (None, s)
      | m # ms \<Rightarrow> (Some m, upd_pubsub i (\<lambda>p. p\<lparr>ps_queue := ms\<rparr>) s))"

section \<open>Pipelines\<close>

datatype 'm op = OpSet string kv_val "int option" | OpHset string fields | OpHgetall string
  | OpExpire string int | OpXadd string fields | OpPublish string 'm

datatype reply = RBool bool | RNat nat | RFields fields | RId msg_id

definition run_op :: "secs \<Rightarrow> 'm op \<Rightarrow> 'm store \<Rightarrow> reply \<times> 'm store" where
  "run_op now oper s = (case oper of
     OpSet k v ex \<Rightarrow> (RBool True, kv_set now k v ex s)
   | OpHset k items \<Rightarrow> map_prod RNat id (hset k items s)
   | OpHgetall k \<Rightarrow> map_prod RFields id (hgetall now k s)
   | OpExpire k ttl \<Rightarrow> map_prod RBool id (expire now k ttl s)
   | OpXadd k fs \<Rightarrow> map_prod RId id (xadd now k fs s)
   | OpPublish ch m \<Rightarrow> map_prod RNat id (publish ch m s))"

fun run_pipe :: "(secs \<times> 'm op) list \<Rightarrow> 'm store \<Rightarrow> reply list \<times> 'm store" where
  "run_pipe [] s = ([], s)"
| "run_pipe ((now, oper) # ops) s =
     (case run_op now oper s of (r, s1) \<Rightarrow> (case run_pipe ops s1 of (rs, s2) \<Rightarrow> (r # rs, s2)))"

section \<open>Hash laws\<close>

lemma update_fields_Nil [simp]: "update_fields h [] = h"
  by (simp add: update_fields_def)

lemma update_fields_Cons [simp]: "update_fields h ((k, v) # items) = update_fields (dput k v h) items"
  by (simp add: update_fields_def)

lemma map_of_update_fields: "map_of (update_fields h items) = map_of h ++ map_of (rev items)"
proof (induction items arbitrary: h)
  case (Cons e items)
  obtain k v where e: "e = (k, v)" by fastforce
  show ?case by (rule ext) (simp add: e Cons map_add_def split: option.split)
qed simp

lemma map_of_update_other: "k \<notin> fst ` set items \<Longrightarrow> map_of (update_fields h items) k = map_of h k"
  by (induction items arbitrary: h) auto

lemma map_of_update_distinct:
  "distinct (map fst items) \<Longrightarrow> map_of (update_fields h items) = map_of h ++ map_of items"
  by (simp add: map_of_update_fields map_of_rev_distinct)

lemma keys_update_fields: "fst ` set (update_fields h items) = fst ` set h \<union> fst ` set items"
proof (induction items arbitrary: h)
  case (Cons e items)
  obtain k v where e: "e = (k, v)" by fastforce
  show ?case by (simp add: e Cons)
qed simp

lemma update_fields_eq_Nil [simp]: "update_fields h items = [] \<longleftrightarrow> h = [] \<and> items = []"
  using keys_update_fields[of h items] by (cases items) auto

lemma expired_store: "expired now k s = (False, s') \<Longrightarrow> s' = s"
  by (auto simp: expired_def split: option.splits if_splits)

lemma hgetall_live:
  "(\<And>e. st_expiry s k = Some e \<Longrightarrow> now < e) \<Longrightarrow> hgetall now k s = (raw_hash k s, s)"
  by (auto simp: hgetall_def expired_def split: option.split)

lemma hgetall_expired: "st_expiry s k = Some e \<Longrightarrow> e \<le> now \<Longrightarrow>
    fst (hgetall now k s) = [] \<and> raw_hash k (snd (hgetall now k s)) = []"
  by (simp add: hgetall_def expired_def raw_hash_def)

lemma raw_hset [simp]: "raw_hash k (snd (hset k items s)) = update_fields (raw_hash k s) items"
  by (simp add: hset_def raw_hash_def)

lemma hset_present: "st_hashes (snd (hset k items s)) k \<noteq> None"
  by (simp add: hset_def)

lemma expire_after_hset [simp]:
  "st_expiry (snd (expire t k ttl (snd (hset k items s)))) k = Some (t + of_int ttl)"
  "raw_hash k (snd (expire t k ttl (snd (hset k items s)))) = update_fields (raw_hash k s) items"
  by (simp_all add: expire_def hset_def raw_hash_def)

lemma expire_frame: "k' \<noteq> k \<Longrightarrow> st_expiry (snd (expire t k ttl s)) k' = st_expiry s k'"
  "st_hashes (snd (expire t k ttl s)) = st_hashes s" "st_kv (snd (expire t k ttl s)) = st_kv s"
  by (simp_all add: expire_def)

lemma hset_frame: "k' \<noteq> k \<Longrightarrow> st_hashes (snd (hset k items s)) k' = st_hashes s k'"
  "st_expiry (snd (hset k items s)) = st_expiry s" "st_kv (snd (hset k items s)) = st_kv s"
  by (simp_all add: hset_def)

lemma hgetall_fst_cong:
  assumes "st_expiry s' k = st_expiry s k" "st_hashes s' k = st_hashes s k"
  shows "fst (hgetall now k s') = fst (hgetall now k s)"
  using assms by (simp add: hgetall_def expired_def raw_hash_def split: option.split)

text \<open>
  The contract the ticker cache relies on. \<open>put\<close> writes fields, \<open>arm\<close> starts the time to
  live, \<open>fetch\<close> reads at an instant, \<open>raw\<close> is what is physically stored.
\<close>

locale hash_cache =
  fixes put :: "string \<Rightarrow> fields \<Rightarrow> 's \<Rightarrow> 's"
    and arm :: "secs \<Rightarrow> string \<Rightarrow> int \<Rightarrow> 's \<Rightarrow> 's"
    and fetch :: "secs \<Rightarrow> string \<Rightarrow> 's \<Rightarrow> fields"
    and raw :: "string \<Rightarrow> 's \<Rightarrow> fields"
  assumes fetch_live: "t' < t + of_int ttl \<Longrightarrow> fetch t' k (arm t k ttl (put k items s)) = update_fields (raw k s) items"
    and fetch_dead: "t + of_int ttl \<le> t' \<Longrightarrow> fetch t' k (arm t k ttl (put k items s)) = []"
    and raw_arm_put: "raw k (arm t k ttl (put k items s)) = update_fields (raw k s) items"
    and fetch_frame: "k' \<noteq> k \<Longrightarrow> fetch t' k' (arm t k ttl (put k items s)) = fetch t' k' s"
begin

definition cput :: "secs \<Rightarrow> string \<Rightarrow> int \<Rightarrow> fields \<Rightarrow> 's \<Rightarrow> 's" where
  "cput t k ttl items s = arm t k ttl (put k items s)"

lemma read_written:
  assumes "t' < t + of_int ttl" "distinct (map fst items)" "(f, v) \<in> set items"
  shows "map_of (fetch t' k (cput t k ttl items s)) f = Some v"
  using assms by (simp add: cput_def fetch_live map_of_update_distinct map_add_def)

text \<open>A field that a later cput does not mention comes back with it.\<close>

lemma read_stale:
  assumes "t' < t + of_int ttl" "f \<notin> fst ` set items" "map_of (raw k s) f = Some v"
  shows "map_of (fetch t' k (cput t k ttl items s)) f = Some v"
  using assms by (simp add: cput_def fetch_live map_of_update_other)

lemma stale_after_expiry:
  assumes "distinct (map fst items)" "(f, v) \<in> set items" "t' < t + of_int ttl"
    and "t0 + of_int ttl0 \<le> t" "f \<notin> fst ` set items'"
  shows "fetch t k (cput t0 k ttl0 items s) = [] \<and>
    map_of (fetch t' k (cput t k ttl items' (cput t0 k ttl0 items s))) f = Some v"
  using assms by (auto simp: cput_def fetch_dead fetch_live raw_arm_put map_of_update_other
      map_of_update_distinct map_add_def)

lemma rewrite_exact:
  assumes "t' < t + of_int ttl" "fst ` set (raw k s) \<subseteq> fst ` set items" "distinct (map fst items)"
  shows "map_of (fetch t' k (cput t k ttl items s)) = map_of items"
proof (rule ext)
  fix f
  show "map_of (fetch t' k (cput t k ttl items s)) f = map_of items f"
  proof (cases "map_of items f")
    case None
    then have "f \<notin> fst ` set items" by (simp add: map_of_eq_None_iff)
    with assms(2) have "map_of (raw k s) f = None" by (auto simp: map_of_eq_None_iff)
    with None assms show ?thesis
      by (simp add: cput_def fetch_live map_of_update_distinct map_add_def)
  next
    case (Some v)
    then show ?thesis using assms(1,3)
      by (simp add: cput_def fetch_live map_of_update_distinct map_add_def)
  qed
qed

end

interpretation mem: hash_cache "\<lambda>k items s. snd (hset k items s)" "\<lambda>t k ttl s. snd (expire t k ttl s)"
    "\<lambda>t k s. fst (hgetall t k s)" raw_hash
proof
  fix t t' :: secs and ttl :: int and k k' :: string and items :: fields and s :: "'m store"
  show "t' < t + of_int ttl \<Longrightarrow> fst (hgetall t' k (snd (expire t k ttl (snd (hset k items s))))) =
      update_fields (raw_hash k s) items"
    by (subst hgetall_live) simp_all
  show "t + of_int ttl \<le> t' \<Longrightarrow> fst (hgetall t' k (snd (expire t k ttl (snd (hset k items s))))) = []"
    using hgetall_expired[of "snd (expire t k ttl (snd (hset k items s)))" k "t + of_int ttl" t'] by simp
  show "raw_hash k (snd (expire t k ttl (snd (hset k items s)))) = update_fields (raw_hash k s) items"
    by simp
  show "k' \<noteq> k \<Longrightarrow> fst (hgetall t' k' (snd (expire t k ttl (snd (hset k items s))))) = fst (hgetall t' k' s)"
    by (rule hgetall_fst_cong) (simp_all add: expire_frame hset_frame)
qed

section \<open>Invariant of reachable stores\<close>

definition stream_inv :: "'m store \<Rightarrow> bool" where
  "stream_inv s \<longleftrightarrow> (\<forall>k. length (stream_buf k s) \<le> stream_maxlen \<and>
     (\<forall>g. group_pos k g s \<le> length (stream_buf k s)) \<and>
     sorted_wrt (<) (map (\<lambda>e. snd (fst e)) (stream_buf k s)) \<and>
     (\<forall>e\<in>set (stream_buf k s). snd (fst e) \<le> st_stream_seq s k))"

definition sub_inv :: "'m store \<Rightarrow> bool" where
  "sub_inv s \<longleftrightarrow> (\<forall>ch. distinct (st_subscribers s ch) \<and>
     (\<forall>i. i \<in> set (st_subscribers s ch) \<longleftrightarrow>
        i < length (st_pubsubs s) \<and> ch \<in> set (ps_channels (st_pubsubs s ! i))))"

inductive store_reach :: "'m store \<Rightarrow> bool" where
  init: "store_reach empty_store"
| run: "store_reach s \<Longrightarrow> store_reach (snd (run_op now oper s))"
| get: "store_reach s \<Longrightarrow> store_reach (snd (kv_get now k s))"
| incr: "store_reach s \<Longrightarrow> store_reach (snd (kv_incr now k s))"
| group: "store_reach s \<Longrightarrow> store_reach (snd (xgroup_create k g s))"
| read: "store_reach s \<Longrightarrow> store_reach (snd (xreadgroup g count ks s))"
| opened: "store_reach s \<Longrightarrow> store_reach (snd (pubsub_open s))"
| sub: "store_reach s \<Longrightarrow> i < length (st_pubsubs s) \<Longrightarrow> store_reach (subscribe i chs s)"
| unsub: "store_reach s \<Longrightarrow> i < length (st_pubsubs s) \<Longrightarrow> store_reach (unsubscribe i chs s)"
| listen: "store_reach s \<Longrightarrow> i < length (st_pubsubs s) \<Longrightarrow> store_reach (snd (listen1 i s))"

text \<open>Both halves of the invariant read their own fields only.\<close>

lemma inv_frame:
  "st_streams s' = st_streams s \<Longrightarrow> st_stream_seq s' = st_stream_seq s \<Longrightarrow> st_groups s' = st_groups s \<Longrightarrow>
     stream_inv s' = stream_inv s"
  "st_subscribers s' = st_subscribers s \<Longrightarrow> st_pubsubs s' = st_pubsubs s \<Longrightarrow> sub_inv s' = sub_inv s"
  by (simp_all add: stream_inv_def sub_inv_def stream_buf_def group_pos_def)

lemma expired_frame [frame_simps]:
  "st_streams (snd (expired t k s)) = st_streams s" "st_stream_seq (snd (expired t k s)) = st_stream_seq s"
  "st_groups (snd (expired t k s)) = st_groups s" "st_subscribers (snd (expired t k s)) = st_subscribers s"
  "st_pubsubs (snd (expired t k s)) = st_pubsubs s"
  by (auto simp: expired_def split: option.split)

lemma kv_ops_frame [frame_simps]:
  "st_streams (snd (kv_get t k s)) = st_streams s" "st_stream_seq (snd (kv_get t k s)) = st_stream_seq s"
  "st_groups (snd (kv_get t k s)) = st_groups s" "st_subscribers (snd (kv_get t k s)) = st_subscribers s"
  "st_pubsubs (snd (kv_get t k s)) = st_pubsubs s"
  "st_streams (snd (hgetall t k s)) = st_streams s" "st_stream_seq (snd (hgetall t k s)) = st_stream_seq s"
  "st_groups (snd (hgetall t k s)) = st_groups s" "st_subscribers (snd (hgetall t k s)) = st_subscribers s"
  "st_pubsubs (snd (hgetall t k s)) = st_pubsubs s"
  "st_streams (snd (kv_incr t k s)) = st_streams s" "st_stream_seq (snd (kv_incr t k s)) = st_stream_seq s"
  "st_groups (snd (kv_incr t k s)) = st_groups s" "st_subscribers (snd (kv_incr t k s)) = st_subscribers s"
  "st_pubsubs (snd (kv_incr t k s)) = st_pubsubs s"
  by (auto simp: kv_get_def hgetall_def kv_incr_def expired_def Let_def split: option.split kv_val.split)

lemma inv_cong [simp]:
  "stream_inv (snd (kv_get t k s)) = stream_inv s" "sub_inv (snd (kv_get t k s)) = sub_inv s"
  "stream_inv (snd (kv_incr t k s)) = stream_inv s" "sub_inv (snd (kv_incr t k s)) = sub_inv s"
  "stream_inv (snd (hgetall t k s)) = stream_inv s" "sub_inv (snd (hgetall t k s)) = sub_inv s"
  "stream_inv (snd (hset k h s)) = stream_inv s" "sub_inv (snd (hset k h s)) = sub_inv s"
  "stream_inv (snd (expire t k n s)) = stream_inv s" "sub_inv (snd (expire t k n s)) = sub_inv s"
  "stream_inv (kv_set t k v ex s) = stream_inv s" "sub_inv (kv_set t k v ex s) = sub_inv s"
  by (simp_all add: stream_inv_def sub_inv_def stream_buf_def group_pos_def frame_simps hset_def
      expire_def kv_set_def)

lemma stream_inv_xadd:
  assumes "stream_inv s" shows "stream_inv (snd (xadd t k fs s))" "sub_inv (snd (xadd t k fs s)) = sub_inv s"
proof -
  let ?new = "((py_trunc (t * 1000), st_stream_seq s k + 1), fs)"
  let ?buf = "stream_buf k s @ [?new]"
  obtain n where dq: "deque_append stream_maxlen (stream_buf k s) ?new = drop n ?buf"
    "n = length ?buf - stream_maxlen"
    by (simp add: deque_append_def Let_def)
  have old: "length (stream_buf k s) \<le> stream_maxlen" "\<And>g. group_pos k g s \<le> length (stream_buf k s)"
    "sorted_wrt (<) (map (\<lambda>e. snd (fst e)) (stream_buf k s))"
    "\<forall>e\<in>set (stream_buf k s). snd (fst e) \<le> st_stream_seq s k"
    using assms by (simp_all add: stream_inv_def)
  have "sorted_wrt (<) (map (\<lambda>e. snd (fst e)) ?buf)"
    using old(3,4) by (auto simp: sorted_wrt_append)
  then have srt: "sorted_wrt (<) (map (\<lambda>e. snd (fst e)) (drop n ?buf))"
    by (metis sorted_wrt_drop drop_map)
  have seq: "\<forall>e\<in>set (drop n ?buf). snd (fst e) \<le> st_stream_seq s k + 1"
    using old(4) by (fastforce dest: in_set_dropD)
  have len: "length (drop n ?buf) = min stream_maxlen (length (stream_buf k s) + 1)"
    using length_deque_append[OF old(1), of ?new] dq(1) by simp
  have sm: "0 < stream_maxlen" by (simp add: stream_maxlen_def)
  have pos: "group_pos k g s \<le> length (drop n ?buf)" for g
    unfolding len using old(1) old(2)[of g] by linarith
  have buf: "stream_buf k' (snd (xadd t k fs s)) = (if k' = k then drop n ?buf else stream_buf k' s)" for k'
    by (simp add: xadd_def Let_def stream_buf_def dq(1)[unfolded stream_buf_def])
  have grp: "group_pos k' g (snd (xadd t k fs s)) = group_pos k' g s" for k' g
    by (simp add: xadd_def Let_def group_pos_def)
  have sq: "st_stream_seq (snd (xadd t k fs s)) k' = st_stream_seq s k' + (if k' = k then 1 else 0)" for k'
    by (simp add: xadd_def Let_def)
  have len2: "length (drop n ?buf) \<le> stream_maxlen" unfolding len by simp
  have "length (stream_buf k' (snd (xadd t k fs s))) \<le> stream_maxlen \<and>
     (\<forall>g. group_pos k' g (snd (xadd t k fs s)) \<le> length (stream_buf k' (snd (xadd t k fs s)))) \<and>
     sorted_wrt (<) (map (\<lambda>e. snd (fst e)) (stream_buf k' (snd (xadd t k fs s)))) \<and>
     (\<forall>e\<in>set (stream_buf k' (snd (xadd t k fs s))). snd (fst e) \<le> st_stream_seq (snd (xadd t k fs s)) k')" for k'
  proof (cases "k' = k")
    case True
    with len2 pos srt seq show ?thesis unfolding buf grp sq by simp
  next
    case False
    with assms show ?thesis unfolding buf grp sq by (simp add: stream_inv_def)
  qed
  then show "stream_inv (snd (xadd t k fs s))" unfolding stream_inv_def by blast
  show "sub_inv (snd (xadd t k fs s)) = sub_inv s" by (rule inv_frame(2)) (simp_all add: xadd_def Let_def)
qed

lemma read_stream_inv:
  assumes "stream_inv s"
  shows "stream_inv (snd (read_stream g count k s))" "sub_inv (snd (read_stream g count k s)) = sub_inv s"
proof -
  have "stream_buf k' (snd (read_stream g count k s)) = stream_buf k' s" for k'
    by (simp add: read_stream_def Let_def stream_buf_def)
  moreover have "st_stream_seq (snd (read_stream g count k s)) = st_stream_seq s"
    by (simp add: read_stream_def Let_def)
  moreover have "group_pos k' g' (snd (read_stream g count k s)) \<le> length (stream_buf k' s)" for k' g'
  proof -
    have "group_pos k g s \<le> length (stream_buf k s)" "group_pos k' g' s \<le> length (stream_buf k' s)"
      using assms by (simp_all add: stream_inv_def)
    then show ?thesis by (auto simp: read_stream_def Let_def group_pos_def)
  qed
  ultimately show "stream_inv (snd (read_stream g count k s))"
    using assms by (simp add: stream_inv_def)
  show "sub_inv (snd (read_stream g count k s)) = sub_inv s"
    by (rule inv_frame(2)) (simp_all add: read_stream_def Let_def)
qed

lemma xreadgroup_inv:
  "stream_inv s \<Longrightarrow> stream_inv (snd (xreadgroup g count ks s)) \<and> (sub_inv s \<longrightarrow> sub_inv (snd (xreadgroup g count ks s)))"
proof (induction ks arbitrary: s)
  case (Cons k ks)
  obtain new s1 where r: "read_stream g count k s = (new, s1)" by fastforce
  obtain out s2 where x: "xreadgroup g count ks s1 = (out, s2)" by fastforce
  from read_stream_inv[OF Cons.prems, of g count k] r have "stream_inv s1" "sub_inv s1 = sub_inv s" by simp_all
  with Cons.IH[of s1] show ?case by (simp add: r x)
qed simp

lemma xgroup_inv:
  assumes "stream_inv s" shows "stream_inv (snd (xgroup_create k g s))" "sub_inv (snd (xgroup_create k g s)) = sub_inv s"
proof -
  have "stream_buf k' (snd (xgroup_create k g s)) = stream_buf k' s" for k'
    by (simp add: xgroup_create_def stream_buf_def)
  moreover have "st_stream_seq (snd (xgroup_create k g s)) = st_stream_seq s" by (simp add: xgroup_create_def)
  moreover have "group_pos k' g' (snd (xgroup_create k g s)) \<le> length (stream_buf k' s)" for k' g'
    using assms by (auto simp: xgroup_create_def group_pos_def stream_inv_def)
  ultimately show "stream_inv (snd (xgroup_create k g s))" using assms by (simp add: stream_inv_def)
  show "sub_inv (snd (xgroup_create k g s)) = sub_inv s"
    by (rule inv_frame(2)) (simp_all add: xgroup_create_def)
qed

lemma upd_pubsub_sel [simp]:
  "st_streams (upd_pubsub i f s) = st_streams s" "st_stream_seq (upd_pubsub i f s) = st_stream_seq s"
  "st_groups (upd_pubsub i f s) = st_groups s" "st_subscribers (upd_pubsub i f s) = st_subscribers s"
  "length (st_pubsubs (upd_pubsub i f s)) = length (st_pubsubs s)"
  by (simp_all add: upd_pubsub_def)

lemma upd_pubsub_nth:
  "j < length (st_pubsubs s) \<Longrightarrow>
     st_pubsubs (upd_pubsub i f s) ! j = (if j = i then f (st_pubsubs s ! i) else st_pubsubs s ! j)"
  by (simp add: upd_pubsub_def nth_list_update)

lemma set_add_simps [simp]: "set (set_add x xs) = insert x (set xs)" "distinct xs \<Longrightarrow> distinct (set_add x xs)"
  by (auto simp: set_add_def)

lemma subscribe1_inv:
  assumes "i < length (st_pubsubs s)"
  shows "length (st_pubsubs (subscribe1 i s ch)) = length (st_pubsubs s)"
    "length (st_pubsubs (unsubscribe1 i s ch)) = length (st_pubsubs s)"
    "stream_inv (subscribe1 i s ch) = stream_inv s" "stream_inv (unsubscribe1 i s ch) = stream_inv s"
    "sub_inv s \<Longrightarrow> sub_inv (subscribe1 i s ch)" "sub_inv s \<Longrightarrow> sub_inv (unsubscribe1 i s ch)"
proof -
  show "length (st_pubsubs (subscribe1 i s ch)) = length (st_pubsubs s)"
    "length (st_pubsubs (unsubscribe1 i s ch)) = length (st_pubsubs s)"
    by (simp_all add: subscribe1_def unsubscribe1_def)
  show "stream_inv (subscribe1 i s ch) = stream_inv s" "stream_inv (unsubscribe1 i s ch) = stream_inv s"
    by (rule inv_frame(1); simp add: subscribe1_def unsubscribe1_def)+
  assume inv: "sub_inv s"
  have ch: "ch' \<in> set (ps_channels (st_pubsubs (subscribe1 i s ch) ! j)) \<longleftrightarrow>
      ch' \<in> set (ps_channels (st_pubsubs s ! j)) \<or> (j = i \<and> ch' = ch)"
    "ch' \<in> set (ps_channels (st_pubsubs (unsubscribe1 i s ch) ! j)) \<longleftrightarrow>
      ch' \<in> set (ps_channels (st_pubsubs s ! j)) \<and> \<not> (j = i \<and> ch' = ch)"
    if "j < length (st_pubsubs s)" for j ch'
    using that by (auto simp: subscribe1_def unsubscribe1_def upd_pubsub_nth)
  have len: "length (st_pubsubs (subscribe1 i s ch)) = length (st_pubsubs s)"
    "length (st_pubsubs (unsubscribe1 i s ch)) = length (st_pubsubs s)"
    by (simp_all add: subscribe1_def unsubscribe1_def)
  have subs: "st_subscribers (subscribe1 i s ch) ch' = (if ch' = ch then set_add i (st_subscribers s ch) else st_subscribers s ch')"
    "st_subscribers (unsubscribe1 i s ch) ch' = (if ch' = ch then removeAll i (st_subscribers s ch) else st_subscribers s ch')"
    for ch'
    by (simp_all add: subscribe1_def unsubscribe1_def)
  show "sub_inv (subscribe1 i s ch)"
    using inv assms unfolding sub_inv_def subs len by (auto simp: ch)
  show "sub_inv (unsubscribe1 i s ch)"
    using inv unfolding sub_inv_def subs len by (auto simp: ch distinct_removeAll)
qed

lemma foldl_inv:
  assumes "P s" "\<And>s x. P s \<Longrightarrow> P (f s x)" shows "P (foldl f s xs)"
  using assms by (induction xs arbitrary: s) auto

lemma subscribe_inv:
  assumes "i < length (st_pubsubs s)" "stream_inv s" "sub_inv s"
  shows "stream_inv (subscribe i chs s) \<and> sub_inv (subscribe i chs s)"
    "stream_inv (unsubscribe i chs s) \<and> sub_inv (unsubscribe i chs s)"
proof -
  let ?P = "\<lambda>s'. i < length (st_pubsubs s') \<and> stream_inv s' \<and> sub_inv s'"
  have "?P (foldl (subscribe1 i) s chs)" "?P (foldl (unsubscribe1 i) s chs')" for chs'
    using assms by (auto intro!: foldl_inv[of ?P] simp: subscribe1_inv)
  then show "stream_inv (subscribe i chs s) \<and> sub_inv (subscribe i chs s)"
    "stream_inv (unsubscribe i chs s) \<and> sub_inv (unsubscribe i chs s)"
    by (simp_all add: subscribe_def unsubscribe_def)
qed

lemma foldl_push:
  assumes "distinct subs" "j < length (st_pubsubs s)"
  shows "st_pubsubs (foldl (\<lambda>s i. upd_pubsub i (\<lambda>p. p\<lparr>ps_queue := ps_queue p @ [e]\<rparr>) s) s subs) ! j =
    (if j \<in> set subs then (st_pubsubs s ! j)\<lparr>ps_queue := ps_queue (st_pubsubs s ! j) @ [e]\<rparr> else st_pubsubs s ! j)"
  using assms
proof (induction subs arbitrary: s)
  case (Cons i subs)
  from Cons.IH[of "upd_pubsub i (\<lambda>p. p\<lparr>ps_queue := ps_queue p @ [e]\<rparr>) s"] Cons.prems
  show ?case by (auto simp: upd_pubsub_nth)
qed simp

lemma foldl_push_frame:
  "st_streams (foldl (\<lambda>s i. upd_pubsub i f s) s subs) = st_streams s \<and>
   st_stream_seq (foldl (\<lambda>s i. upd_pubsub i f s) s subs) = st_stream_seq s \<and>
   st_groups (foldl (\<lambda>s i. upd_pubsub i f s) s subs) = st_groups s \<and>
   st_subscribers (foldl (\<lambda>s i. upd_pubsub i f s) s subs) = st_subscribers s \<and>
   length (st_pubsubs (foldl (\<lambda>s i. upd_pubsub i f s) s subs)) = length (st_pubsubs s)"
  by (induction subs arbitrary: s) simp_all

lemma publish_nth:
  assumes "sub_inv s" "j < length (st_pubsubs s)"
  shows "st_pubsubs (snd (publish ch m s)) ! j =
    (if ch \<in> set (ps_channels (st_pubsubs s ! j))
     then (st_pubsubs s ! j)\<lparr>ps_queue := ps_queue (st_pubsubs s ! j) @ [(ch, m)]\<rparr> else st_pubsubs s ! j)"
  using assms foldl_push[of "st_subscribers s ch" j s "(ch, m)"]
  by (simp add: publish_def Let_def sub_inv_def)

lemma publish_inv:
  assumes "stream_inv s" "sub_inv s"
  shows "stream_inv (snd (publish ch m s)) \<and> sub_inv (snd (publish ch m s))"
proof
  note fr = foldl_push_frame[of "\<lambda>p. p\<lparr>ps_queue := ps_queue p @ [(ch, m)]\<rparr>" s "st_subscribers s ch"]
  show "stream_inv (snd (publish ch m s))"
    by (rule iffD2[OF inv_frame(1) assms(1)]) (simp_all add: publish_def Let_def fr)
  have "st_subscribers (snd (publish ch m s)) = st_subscribers s"
    "length (st_pubsubs (snd (publish ch m s))) = length (st_pubsubs s)"
    using fr by (simp_all add: publish_def Let_def)
  moreover have "ps_channels (st_pubsubs (snd (publish ch m s)) ! j) = ps_channels (st_pubsubs s ! j)"
    if "j < length (st_pubsubs s)" for j
    using publish_nth[OF assms(2) that, of ch m] by simp
  ultimately show "sub_inv (snd (publish ch m s))"
    using assms(2) unfolding sub_inv_def by auto
qed

lemma open_inv:
  assumes "stream_inv s" "sub_inv s"
  shows "stream_inv (snd (pubsub_open s)) \<and> sub_inv (snd (pubsub_open s))"
proof
  show "stream_inv (snd (pubsub_open s))"
    by (rule iffD2[OF inv_frame(1) assms(1)]) (simp_all add: pubsub_open_def)
  show "sub_inv (snd (pubsub_open s))"
    using assms(2) unfolding sub_inv_def pubsub_open_def by (auto simp: nth_append)
qed

lemma listen_inv:
  assumes "stream_inv s" "sub_inv s"
  shows "stream_inv (snd (listen1 i s)) \<and> sub_inv (snd (listen1 i s))"
proof -
  have "stream_inv (upd_pubsub i (\<lambda>p. p\<lparr>ps_queue := q\<rparr>) s)" for q
    by (rule iffD2[OF inv_frame(1) assms(1)]) simp_all
  moreover have "sub_inv (upd_pubsub i (\<lambda>p. p\<lparr>ps_queue := q\<rparr>) s)" for q
    using assms(2) by (auto simp: sub_inv_def upd_pubsub_nth split: if_splits)
  ultimately show ?thesis using assms by (simp add: listen1_def split: list.split)
qed

lemma run_op_inv:
  assumes "stream_inv s" "sub_inv s"
  shows "stream_inv (snd (run_op t oper s)) \<and> sub_inv (snd (run_op t oper s))"
  using assms stream_inv_xadd[OF assms(1)] publish_inv[OF assms]
  by (cases oper) (simp_all add: run_op_def)

lemma store_reach_invs: "store_reach s \<Longrightarrow> stream_inv s \<and> sub_inv s"
proof (induction rule: store_reach.induct)
  case init
  then show ?case
    by (simp add: stream_inv_def sub_inv_def empty_store_def stream_buf_def group_pos_def)
qed (simp_all add: run_op_inv xgroup_inv xreadgroup_inv subscribe_inv open_inv listen_inv)

section \<open>Consumers\<close>

fun read_times :: "nat \<Rightarrow> string \<Rightarrow> nat \<Rightarrow> string \<Rightarrow> 'm store \<Rightarrow> (msg_id \<times> fields) list \<times> 'm store" where
  "read_times 0 g count k s = ([], s)"
| "read_times (Suc n) g count k s =
     (case read_stream g count k s of
        (new, s1) \<Rightarrow> (case read_times n g count k s1 of (rest, s2) \<Rightarrow> (new @ rest, s2)))"

fun xadds :: "(secs \<times> fields) list \<Rightarrow> string \<Rightarrow> 'm store \<Rightarrow> 'm store" where
  "xadds [] k s = s"
| "xadds ((t, fs) # es) k s = xadds es k (snd (xadd t k fs s))"

lemma read_stream_pos:
  "read_stream g count k s = (new, s1) \<Longrightarrow>
     new = take count (drop (group_pos k g s) (stream_buf k s)) \<and> stream_buf k s1 = stream_buf k s \<and>
     group_pos k g s1 = group_pos k g s + length new"
  by (auto simp: read_stream_def Let_def stream_buf_def group_pos_def split: if_splits option.splits)

lemma take_drop_step: "take c xs @ take n (drop (length (take c xs)) xs) = take (c + n) xs"
  by (cases "length xs \<le> c") (simp_all add: take_add)

lemma read_times_chunks:
  "fst (read_times n g count k s) = take (n * count) (drop (group_pos k g s) (stream_buf k s))"
proof (induction n arbitrary: s)
  case (Suc n)
  obtain new s1 where r: "read_stream g count k s = (new, s1)" by fastforce
  obtain rest s2 where m: "read_times n g count k s1 = (rest, s2)" by fastforce
  from read_stream_pos[OF r] have new: "new = take count (drop (group_pos k g s) (stream_buf k s))"
    "stream_buf k s1 = stream_buf k s" "group_pos k g s1 = group_pos k g s + length new" by simp_all
  have "rest = take (n * count) (drop (length new) (drop (group_pos k g s) (stream_buf k s)))"
    using Suc[of s1] m new by (simp add: add.commute)
  with take_drop_step[of count "drop (group_pos k g s) (stream_buf k s)" "n * count"] new(1)
  show ?case by (simp add: r m)
qed simp

lemma xadd_full:
  assumes "length (stream_buf k s) = stream_maxlen"
  shows "length (stream_buf k (snd (xadd t k fs s))) = stream_maxlen \<and>
    group_pos k g (snd (xadd t k fs s)) = group_pos k g s"
  using assms length_deque_append[of "stream_buf k s" stream_maxlen]
  by (simp add: xadd_def Let_def group_pos_def stream_buf_def)

lemma xadds_full:
  "length (stream_buf k s) = stream_maxlen \<Longrightarrow>
     length (stream_buf k (xadds es k s)) = stream_maxlen \<and> group_pos k g (xadds es k s) = group_pos k g s"
proof (induction es arbitrary: s)
  case (Cons e es)
  obtain t fs where e: "e = (t, fs)" by fastforce
  show ?case using Cons.IH[of "snd (xadd t k fs s)"] xadd_full[OF Cons.prems, of t fs g] by (simp add: e)
qed simp

section \<open>Properties\<close>

text \<open>C19: In every store the operations can reach, streams hold at most their maximum of strictly
  increasing ids, no consumer group is past the end of its stream, and the subscriber table
  is exactly the inverse of the channels each pub/sub object holds.\<close>
theorem store_reachable_inv:
  assumes "store_reach s"
  shows "stream_inv s \<and> sub_inv s"
  using assms by (rule store_reach_invs)

definition demo_store :: "string store" where
  "demo_store = snd (run_op 2 (OpPublish ''c'' ''hello'')
     (subscribe 0 [''c''] (snd (pubsub_open (snd (run_op 1 (OpXadd ''st'' [(''f'', Txt ''v'')]) empty_store))))))"

theorem store_reachable_inv_witness:
  "sub_inv demo_store \<and> fst (listen1 0 demo_store) = Some (''c'', ''hello'')"
proof -
  have "store_reach demo_store"
    unfolding demo_store_def
    by (rule store_reach.run, rule store_reach.sub, rule store_reach.opened, rule store_reach.run, rule store_reach.init)
      (simp add: pubsub_open_def)
  from store_reachable_inv[OF this] show ?thesis
    by (simp add: demo_store_def listen1_def run_op_def publish_def subscribe_def subscribe1_def
        pubsub_open_def upd_pubsub_def set_add_def xadd_def empty_store_def Let_def)
qed

text \<open>Successive reads by a consumer group deliver the unread part of the stream in order, each
  message once: \<open>n\<close> reads of \<open>count\<close> give its first \<open>n * count\<close> messages.\<close>
theorem stream_reads_partition:
  "fst (read_times n g count k s) = take (n * count) (drop (group_pos k g s) (stream_buf k s))"
  by (rule read_times_chunks)

text \<open>A group that has read a full stream to its end never receives another message: trimming keeps the
  buffer at its maximum while the group's position is an index into it.\<close>
theorem full_stream_stalls_consumer:
  assumes "length (stream_buf k s) = stream_maxlen" "group_pos k g s = stream_maxlen"
  shows "fst (read_stream g count k (xadds es k s)) = []"
  using xadds_full[OF assms(1), of es g] assms(2) by (simp add: read_stream_def Let_def)

theorem full_stream_stalls_consumer_witness:
  "fst (read_stream ''g'' 100 ''st'' (xadds [(1, [(''ltp'', DecTxt 5)])] ''st''
     (empty_store\<lparr>st_streams := [''st'' \<mapsto> replicate stream_maxlen ((0, 0), [])],
        st_groups := (\<lambda>_. [''g'' \<mapsto> stream_maxlen])\<rparr>))) = []"
  by (rule full_stream_stalls_consumer) (simp_all add: stream_buf_def group_pos_def)

text \<open>A published message is appended exactly once to the queue of every object subscribed to its channel
  and to no other queue.\<close>
theorem publish_delivers:
  assumes "store_reach s" "j < length (st_pubsubs s)"
  shows "st_pubsubs (snd (publish ch m s)) ! j =
    (if ch \<in> set (ps_channels (st_pubsubs s ! j))
     then (st_pubsubs s ! j)\<lparr>ps_queue := ps_queue (st_pubsubs s ! j) @ [(ch, m)]\<rparr> else st_pubsubs s ! j)"
  by (rule publish_nth[OF conjunct2[OF store_reach_invs[OF assms(1)]] assms(2)])

theorem publish_delivers_witness:
  "ps_queue (st_pubsubs (snd (publish ''c'' ''again'' (snd (pubsub_open empty_store)))) ! 0) = []"
  using publish_delivers[OF store_reach.opened[OF store_reach.init], of 0 "''c''" "''again''"]
  by (simp add: pubsub_open_def empty_store_def)

text \<open>Writing a hash whose time to live has passed, but that no read has evicted, brings back the fields
  of the earlier write that the new one does not mention.\<close>
theorem hset_resurrects_expired:
  assumes "distinct (map fst items)" "(f, v) \<in> set items" "f \<notin> fst ` set items'"
    and "t0 + of_int ttl0 \<le> t" "t' < t + of_int ttl"
  shows "fst (hgetall t k (snd (expire t0 k ttl0 (snd (hset k items s))))) = [] \<and>
    map_of (fst (hgetall t' k (snd (expire t k ttl (snd (hset k items'
      (snd (expire t0 k ttl0 (snd (hset k items s)))))))))) f = Some v"
  using mem.stale_after_expiry[OF assms(1,2,5,4,3), of k s] unfolding mem.cput_def .

theorem hset_resurrects_expired_witness:
  "map_of (fst (hgetall 101 ''d'' (snd (expire 100 ''d'' 2 (snd (hset ''d'' [(''buy_0'', DecTxt 7)]
     (snd (expire 0 ''d'' 2 (snd (hset ''d'' [(''buy_0'', DecTxt 9), (''buy_1'', DecTxt 8)] (empty_store :: string store)))))))))))
   ''buy_1'' = Some (DecTxt 8)"
  using hset_resurrects_expired[of "[(''buy_0'', DecTxt 9), (''buy_1'', DecTxt 8)]" "''buy_1''" "DecTxt 8"
      "[(''buy_0'', DecTxt 7)]" 0 2 100 101 2 "''d''" "empty_store :: string store"]
  by simp

end
