(* ===== verification/TickerCache.thy ===== *)
theory TickerCache
  imports MemoryStore "HOL-Library.Monad_Syntax"
begin

text \<open>
  \<^verbatim>\<open>src/cache/ticker_cache.py\<close> over the in-memory store, and the response blocks of
  \<^verbatim>\<open>src/models/api_response.py\<close> with the builders of \<^verbatim>\<open>src/api/endpoints/quotes.py\<close> that read
  the cached hashes back. Each buffered call of a pipeline reads the clock for itself: \<open>clk 0\<close>
  is the reading taken while the hash is built, \<open>clk (i + 1)\<close> that of the \<open>i\<close>-th call.
  The two times to live are settings and arguments here.
\<close>

section \<open>Writing\<close>

record tick_msg =
  tm_symbol :: string
  tm_exchange :: string
  tm_ltp :: price
  tm_change :: price
  tm_pct_change :: rat
  tm_volume :: int
  tm_timestamp :: datetime

type_synonym cache = "tick_msg store"

definition tick_key :: "string \<Rightarrow> string \<Rightarrow> string" where
  "tick_key exch sm = ''stock:'' @ exch @ '':'' @ sm @ '':latest''"

definition depth_key :: "string \<Rightarrow> string \<Rightarrow> string" where
  "depth_key exch sm = ''stock:'' @ exch @ '':'' @ sm @ '':depth''"

definition opt_text :: "string option \<Rightarrow> field" where
  "opt_text x = (case x of None \<Rightarrow> Txt [] | Some s \<Rightarrow> Txt s)"

definition opt_dec :: "rat option \<Rightarrow> field" where
  "opt_dec x = (case x of None \<Rightarrow> Txt [] | Some v \<Rightarrow> if v = 0 then Txt [] else DecTxt v)"

definition tick_to_hash :: "secs \<Rightarrow> tick \<Rightarrow> fields" where
  "tick_to_hash now t =
     [(''symbol'', Txt (tk_symbol t)), (''exchange'', Txt (tk_exchange t)),
      (''isin'', opt_text (tk_isin t)), (''series'', opt_text (tk_series t)),
      (''ltp'', DecTxt (tk_ltp t)), (''open'', DecTxt (tk_open t)), (''high'', DecTxt (tk_high t)),
      (''low'', DecTxt (tk_low t)), (''close'', DecTxt (tk_close t)), (''change'', DecTxt (tk_change t)),
      (''pct_change'', DecTxt (tk_pct_change t)), (''volume'', IntTxt (tk_volume t)),
      (''value'', opt_dec (tk_value t)), (''vwap'', opt_dec (tk_vwap t)),
      (''upper_circuit'', opt_dec (tk_upper_circuit t)), (''lower_circuit'', opt_dec (tk_lower_circuit t)),
      (''week_52_high'', opt_dec (tk_week_52_high t)), (''week_52_low'', opt_dec (tk_week_52_low t)),
      (''timestamp'', TimeTxt (tk_timestamp t)), (''source'', Txt (tk_source t)),
      (''source_latency_ms'', FloatTxt (tk_latency_ms t)), (''cached_at'', FloatTxt now)]"

definition stream_data :: "tick \<Rightarrow> fields" where
  "stream_data t = [(''symbol'', Txt (tk_symbol t)), (''ltp'', DecTxt (tk_ltp t)),
     (''volume'', IntTxt (tk_volume t)), (''timestamp'', TimeTxt (tk_timestamp t)), (''source'', Txt (tk_source t))]"

definition tick_message :: "tick \<Rightarrow> tick_msg" where
  "tick_message t = \<lparr>tm_symbol = tk_symbol t, tm_exchange = tk_exchange t, tm_ltp = tk_ltp t,
     tm_change = tk_change t, tm_pct_change = tk_pct_change t, tm_volume = tk_volume t,
     tm_timestamp = tk_timestamp t\<rparr>"

definition at_clock :: "(nat \<Rightarrow> secs) \<Rightarrow> 'm op list \<Rightarrow> (secs \<times> 'm op) list" where
  "at_clock clk ops = zip (map (\<lambda>i. clk (Suc i)) [0..<length ops]) ops"

definition set_tick :: "int \<Rightarrow> (nat \<Rightarrow> secs) \<Rightarrow> tick \<Rightarrow> cache \<Rightarrow> cache" where
  "set_tick ttl clk t s =
     (let key = tick_key (tk_exchange t) (tk_symbol t)
      in snd (run_pipe (at_clock clk
           [OpHset key (tick_to_hash (clk 0) t), OpExpire key ttl,
            OpXadd (''stream:ticks:'' @ tk_exchange t) (stream_data t),
            OpPublish (''ticks:'' @ tk_exchange t) (tick_message t)]) s))"

definition idx_text :: "nat \<Rightarrow> string" where
  "idx_text i = [char_of (48 + i)]"

definition level_fields :: "string \<Rightarrow> nat \<times> depth_level \<Rightarrow> fields" where
  "level_fields side e = (case e of (i, l) \<Rightarrow>
     [(side @ ''_'' @ idx_text i @ ''_price'', DecTxt (lv_price l)),
      (side @ ''_'' @ idx_text i @ ''_qty'', IntTxt (lv_quantity l)),
      (side @ ''_'' @ idx_text i @ ''_orders'', IntTxt (lv_orders l))])"

definition depth_to_hash :: "datetime \<Rightarrow> market_depth \<Rightarrow> fields" where
  "depth_to_hash wall d =
     concat (map (level_fields ''buy'') (enumerate 0 (take 5 (md_buy d)))) @
     concat (map (level_fields ''sell'') (enumerate 0 (take 5 (md_sell d)))) @
     [(''total_buy_qty'', IntTxt (md_total_buy d)), (''total_sell_qty'', IntTxt (md_total_sell d)),
      (''updated_at'', TimeTxt wall)]"

definition set_market_depth :: "int \<Rightarrow> datetime \<Rightarrow> (nat \<Rightarrow> secs) \<Rightarrow> string \<Rightarrow> string \<Rightarrow> market_depth \<Rightarrow> cache \<Rightarrow> cache" where
  "set_market_depth ttl wall clk sm exch d s =
     (let key = depth_key exch sm
      in snd (run_pipe (at_clock clk [OpHset key (depth_to_hash wall d), OpExpire key ttl]) s))"

fun set_bulk_ticks :: "int \<Rightarrow> (nat \<Rightarrow> secs) list \<Rightarrow> tick list \<Rightarrow> cache \<Rightarrow> cache" where
  "set_bulk_ticks ttl (clk # clks) (t # ts) s = set_bulk_ticks ttl clks ts (set_tick ttl clk t s)"
| "set_bulk_ticks ttl _ _ s = s"

section \<open>Reading\<close>

definition nonempty :: "fields \<Rightarrow> fields option" where
  "nonempty d = (if d = [] then None else Some d)"

definition get_tick :: "secs \<Rightarrow> string \<Rightarrow> string \<Rightarrow> cache \<Rightarrow> fields option \<times> cache" where
  "get_tick now sm exch s = map_prod nonempty id (hgetall now (tick_key exch sm) s)"

definition get_market_depth :: "secs \<Rightarrow> string \<Rightarrow> string \<Rightarrow> cache \<Rightarrow> fields option \<times> cache" where
  "get_market_depth now sm exch s = map_prod nonempty id (hgetall now (depth_key exch sm) s)"

fun reply_fields :: "reply \<Rightarrow> fields" where
  "reply_fields (RFields f) = f"
| "reply_fields _ = []"

definition get_bulk_ticks :: "(nat \<Rightarrow> secs) \<Rightarrow> string list \<Rightarrow> string \<Rightarrow> cache \<Rightarrow> (string \<times> fields) list \<times> cache" where
  "get_bulk_ticks clk symbols exch s =
     (let (rs, s') = run_pipe (at_clock clk (map (\<lambda>x. OpHgetall (tick_key exch x)) symbols)) s
      in (foldl (\<lambda>d (x, r). if reply_fields r = [] then d else dput x (reply_fields r) d) [] (zip symbols rs), s'))"

definition num_text :: "field \<Rightarrow> rat option" where
  "num_text f = (case f of Txt s \<Rightarrow> parse_decimal s | DecTxt x \<Rightarrow> Some x | IntTxt n \<Rightarrow> Some (of_int n)
     | FloatTxt x \<Rightarrow> Some x | TimeTxt _ \<Rightarrow> None)"

definition int_text :: "field \<Rightarrow> int option" where
  "int_text f = (case f of Txt s \<Rightarrow> parse_int s | IntTxt n \<Rightarrow> Some n | _ \<Rightarrow> None)"

definition get_tick_age_ms :: "secs \<Rightarrow> secs \<Rightarrow> string \<Rightarrow> string \<Rightarrow> cache \<Rightarrow> (store_error + rat option) \<times> cache" where
  "get_tick_age_ms now now2 sm exch s =
     (case get_tick now sm exch s of
        (None, s') \<Rightarrow> (Inr None, s')
      | (Some d, s') \<Rightarrow>
          (case map_of d ''cached_at'' of
             None \<Rightarrow> (Inr None, s')
           | Some f \<Rightarrow> (case num_text f of None \<Rightarrow> (Inl ValueError, s')
               | Some c \<Rightarrow> (Inr (Some ((now2 - c) * 1000)), s'))))"

definition is_tick_fresh :: "secs \<Rightarrow> secs \<Rightarrow> string \<Rightarrow> string \<Rightarrow> rat \<Rightarrow> cache \<Rightarrow> (store_error + bool) \<times> cache" where
  "is_tick_fresh now now2 sm exch max_age s =
     (case get_tick_age_ms now now2 sm exch s of
        (Inl e, s') \<Rightarrow> (Inl e, s')
      | (Inr None, s') \<Rightarrow> (Inr False, s')
      | (Inr (Some a), s') \<Rightarrow> (Inr (a \<le> max_age), s'))"

section \<open>Status keys\<close>

definition set_market_status :: "secs \<Rightarrow> string \<Rightarrow> cache \<Rightarrow> cache" where
  "set_market_status now status s = kv_set now ''market:status'' (KText status) (Some 30) s"

definition get_market_status :: "secs \<Rightarrow> cache \<Rightarrow> kv_val option \<times> cache" where
  "get_market_status now s = kv_get now ''market:status'' s"

definition set_provider_status :: "(nat \<Rightarrow> secs) \<Rightarrow> string \<Rightarrow> string \<Rightarrow> string \<Rightarrow> cache \<Rightarrow> cache" where
  "set_provider_status clk wall_iso n status s =
     snd (run_pipe (at_clock clk
       [OpSet (''provider:'' @ n @ '':status'') (KText status) (Some 120),
        OpSet (''provider:'' @ n @ '':last_update'') (KText wall_iso) (Some 120)]) s)"

definition error_key :: "string \<Rightarrow> string" where
  "error_key n = ''provider:'' @ n @ '':error_count''"

definition increment_provider_errors :: "secs \<Rightarrow> secs \<Rightarrow> string \<Rightarrow> cache \<Rightarrow> (store_error + int) \<times> cache" where
  "increment_provider_errors t0 t1 n s =
     (case kv_incr t0 (error_key n) s of
        (Inl e, s1) \<Rightarrow> (Inl e, s1)
      | (Inr c, s1) \<Rightarrow> (Inr c, snd (expire t1 (error_key n) 300 s1)))"

definition reset_provider_errors :: "secs \<Rightarrow> string \<Rightarrow> cache \<Rightarrow> cache" where
  "reset_provider_errors now n s = kv_set now (error_key n) (KInt 0) (Some 300) s"

section \<open>Quote blocks and their builders\<close>

record quote_info =
  qi_symbol :: string
  qi_name :: "string option"
  qi_isin :: "string option"
  qi_exchange :: string
  qi_series :: "string option"
  qi_sector :: "string option"
  qi_industry :: "string option"
  qi_face_value :: "price option"
  qi_listing_date :: "string option"

record quote_price =
  qp_ltp :: price
  qp_open :: price
  qp_high :: price
  qp_low :: price
  qp_close :: price
  qp_change :: price
  qp_pct_change :: rat
  qp_vwap :: "price option"
  qp_upper_circuit :: "price option"
  qp_lower_circuit :: "price option"
  qp_week_52_high :: "price option"
  qp_week_52_low :: "price option"

record quote_volume =
  qv_volume :: int
  qv_value :: "price option"
  qv_delivery_quantity :: "int option"
  qv_delivery_percentage :: "rat option"
  qv_market_cap :: "price option"

record quote_depth =
  qd_buy :: "depth_level list"
  qd_sell :: "depth_level list"
  qd_total_buy :: int
  qd_total_sell :: int
  qd_imbalance_ratio :: rat

record full_quote =
  fq_info :: quote_info
  fq_price :: quote_price
  fq_volume :: quote_volume
  fq_depth :: "quote_depth option"

definition info_block :: "string \<Rightarrow> string option \<Rightarrow> string \<Rightarrow> string option \<Rightarrow> quote_info" where
  "info_block sm isin exch series = \<lparr>qi_symbol = sm, qi_name = None, qi_isin = isin, qi_exchange = exch,
     qi_series = series, qi_sector = None, qi_industry = None, qi_face_value = None, qi_listing_date = None\<rparr>"

definition volume_block :: "int \<Rightarrow> price option \<Rightarrow> quote_volume" where
  "volume_block n v = \<lparr>qv_volume = n, qv_value = v, qv_delivery_quantity = None,
     qv_delivery_percentage = None, qv_market_cap = None\<rparr>"

definition build_quote_from_tick :: "tick \<Rightarrow> full_quote" where
  "build_quote_from_tick t =
     \<lparr>fq_info = info_block (tk_symbol t) (tk_isin t) (tk_exchange t) (tk_series t),
      fq_price = \<lparr>qp_ltp = tk_ltp t, qp_open = tk_open t, qp_high = tk_high t, qp_low = tk_low t,
        qp_close = tk_close t, qp_change = tk_change t, qp_pct_change = tk_pct_change t, qp_vwap = tk_vwap t,
        qp_upper_circuit = tk_upper_circuit t, qp_lower_circuit = tk_lower_circuit t,
        qp_week_52_high = tk_week_52_high t, qp_week_52_low = tk_week_52_low t\<rparr>,
      fq_volume = volume_block (tk_volume t) (tk_value t), fq_depth = None\<rparr>"

text \<open>\<^verbatim>\<open>data.get(k, d)\<close>, and the readers of a cached hash; \<open>None\<close> is an exception. The text fields only ever
  hold text, so \<open>str_field\<close> has no other case to raise in.\<close>

definition field_or :: "string \<Rightarrow> field \<Rightarrow> fields \<Rightarrow> field" where
  "field_or k d h = (case map_of h k of None \<Rightarrow> d | Some f \<Rightarrow> f)"

definition str_field :: "string \<Rightarrow> string \<Rightarrow> fields \<Rightarrow> string option" where
  "str_field k d h = (case field_or k (Txt d) h of Txt s \<Rightarrow> Some s | _ \<Rightarrow> None)"

definition text_or_none :: "string \<Rightarrow> fields \<Rightarrow> string option option" where
  "text_or_none k h = map_option (\<lambda>s. if s = [] then None else Some s) (str_field k [] h)"

definition dec_field :: "string \<Rightarrow> fields \<Rightarrow> rat option" where
  "dec_field k h = num_text (field_or k (Txt ''0'') h)"

definition dec_or_none :: "string \<Rightarrow> fields \<Rightarrow> rat option option" where
  "dec_or_none k h = (let f = field_or k (Txt []) h in if f = Txt [] then Some None else map_option Some (num_text f))"

definition build_quote_from_cache :: "fields \<Rightarrow> full_quote option" where
  "build_quote_from_cache h = do {
     sm \<leftarrow> str_field ''symbol'' [] h; isin \<leftarrow> text_or_none ''isin'' h;
     exch \<leftarrow> str_field ''exchange'' ''NSE'' h; series \<leftarrow> text_or_none ''series'' h;
     _ \<leftarrow> (if exch = ''NSE'' \<or> exch = ''BSE'' then Some () else None);
     ltp \<leftarrow> dec_field ''ltp'' h; opn \<leftarrow> dec_field ''open'' h; high \<leftarrow> dec_field ''high'' h;
     low \<leftarrow> dec_field ''low'' h; close \<leftarrow> dec_field ''close'' h; chg \<leftarrow> dec_field ''change'' h;
     pct \<leftarrow> dec_field ''pct_change'' h; vwap \<leftarrow> dec_or_none ''vwap'' h;
     uc \<leftarrow> dec_or_none ''upper_circuit'' h; lc \<leftarrow> dec_or_none ''lower_circuit'' h;
     wh \<leftarrow> dec_or_none ''week_52_high'' h; wl \<leftarrow> dec_or_none ''week_52_low'' h;
     vol \<leftarrow> int_text (field_or ''volume'' (IntTxt 0) h); val \<leftarrow> dec_or_none ''value'' h;
     Some \<lparr>fq_info = info_block sm isin exch series,
       fq_price = \<lparr>qp_ltp = ltp, qp_open = opn, qp_high = high, qp_low = low, qp_close = close,
         qp_change = chg, qp_pct_change = pct, qp_vwap = vwap, qp_upper_circuit = uc,
         qp_lower_circuit = lc, qp_week_52_high = wh, qp_week_52_low = wl\<rparr>,
       fq_volume = volume_block vol val, fq_depth = None\<rparr>
   }"

text \<open>The parse loop of the depth endpoint.\<close>

definition read_level :: "string \<Rightarrow> fields \<Rightarrow> nat \<Rightarrow> depth_level list option" where
  "read_level side h i =
     (let f = field_or (side @ ''_'' @ idx_text i @ ''_price'') (Txt []) h
      in if f = Txt [] then Some []
         else do {
           p \<leftarrow> num_text f;
           q \<leftarrow> int_text (field_or (side @ ''_'' @ idx_text i @ ''_qty'') (IntTxt 0) h);
           r \<leftarrow> int_text (field_or (side @ ''_'' @ idx_text i @ ''_orders'') (IntTxt 0) h);
           Some [\<lparr>lv_price = p, lv_quantity = q, lv_orders = r\<rparr>]
         })"

fun read_levels :: "string \<Rightarrow> fields \<Rightarrow> nat list \<Rightarrow> depth_level list option" where
  "read_levels side h [] = Some []"
| "read_levels side h (i # is) = do { l \<leftarrow> read_level side h i; ls \<leftarrow> read_levels side h is; Some (l @ ls) }"

definition depth_from_hash :: "fields \<Rightarrow> quote_depth option" where
  "depth_from_hash h = do {
     b \<leftarrow> read_levels ''buy'' h [0..<5]; a \<leftarrow> read_levels ''sell'' h [0..<5];
     tb \<leftarrow> int_text (field_or ''total_buy_qty'' (IntTxt 0) h);
     ts \<leftarrow> int_text (field_or ''total_sell_qty'' (IntTxt 0) h);
     Some \<lparr>qd_buy = b, qd_sell = a, qd_total_buy = tb, qd_total_sell = ts, qd_imbalance_ratio = 0\<rparr>
   }"

section \<open>Lemmas\<close>

definition no_zero :: "rat option \<Rightarrow> rat option" where
  "no_zero x = (if x = Some 0 then None else x)"

text \<open>What the hash keeps of a tick's quote: a zero optional amount becomes absent.\<close>

definition cached_view :: "tick \<Rightarrow> tick" where
  "cached_view t = t\<lparr>tk_isin := (if tk_isin t = Some [] then None else tk_isin t),
     tk_series := (if tk_series t = Some [] then None else tk_series t),
     tk_value := no_zero (tk_value t), tk_vwap := no_zero (tk_vwap t),
     tk_upper_circuit := no_zero (tk_upper_circuit t), tk_lower_circuit := no_zero (tk_lower_circuit t),
     tk_week_52_high := no_zero (tk_week_52_high t), tk_week_52_low := no_zero (tk_week_52_low t)\<rparr>"

lemma tick_keys:
  "map fst (tick_to_hash now t) = [''symbol'', ''exchange'', ''isin'', ''series'', ''ltp'', ''open'', ''high'',
     ''low'', ''close'', ''change'', ''pct_change'', ''volume'', ''value'', ''vwap'', ''upper_circuit'',
     ''lower_circuit'', ''week_52_high'', ''week_52_low'', ''timestamp'', ''source'', ''source_latency_ms'', ''cached_at'']"
  by (simp add: tick_to_hash_def)

lemma tick_keys_distinct: "distinct (map fst (tick_to_hash now t))"
  by (simp add: tick_keys)

lemma opt_dec_read: "(if opt_dec x = Txt [] then Some None else map_option Some (num_text (opt_dec x))) = Some (no_zero x)"
  by (cases x) (simp_all add: opt_dec_def no_zero_def num_text_def)

lemma opt_text_read:
  "map_option (\<lambda>s. if s = [] then None else Some s) (case opt_text x of Txt s \<Rightarrow> Some s | _ \<Rightarrow> None) =
     Some (if x = Some [] then None else x)"
  by (cases x) (simp_all add: opt_text_def)

text \<open>The readers see a hash only through its lookup function.\<close>

lemma reader_cong:
  assumes "map_of h = map_of h'"
  shows "build_quote_from_cache h = build_quote_from_cache h'"
  using assms by (simp add: build_quote_from_cache_def str_field_def text_or_none_def dec_field_def
      dec_or_none_def field_or_def)

lemma quote_roundtrip:
  assumes "tk_exchange t = ''NSE'' \<or> tk_exchange t = ''BSE''"
  shows "build_quote_from_cache (tick_to_hash now t) = Some (build_quote_from_tick (cached_view t))"
  using assms
  by (simp add: build_quote_from_cache_def tick_to_hash_def str_field_def text_or_none_def dec_field_def
      dec_or_none_def field_or_def opt_text_read opt_dec_read num_text_def int_text_def Let_def
      build_quote_from_tick_def cached_view_def del: map_option_eq_Some)

lemma foldl_push_hashes [simp]:
  "st_hashes (foldl (\<lambda>s i. upd_pubsub i f s) s subs) = st_hashes s"
  "st_expiry (foldl (\<lambda>s i. upd_pubsub i f s) s subs) = st_expiry s"
  by (induction subs arbitrary: s) (simp_all add: upd_pubsub_def)

lemma stream_publish_hashes [simp]:
  "st_hashes (snd (xadd t k fs s)) = st_hashes s" "st_expiry (snd (xadd t k fs s)) = st_expiry s"
  "st_hashes (snd (publish ch m s)) = st_hashes s" "st_expiry (snd (publish ch m s)) = st_expiry s"
  by (simp_all add: xadd_def publish_def Let_def)

lemma set_tick_eq:
  "set_tick ttl clk t s =
     (let key = tick_key (tk_exchange t) (tk_symbol t);
          s2 = snd (expire (clk 2) key ttl (snd (hset key (tick_to_hash (clk 0) t) s)));
          s3 = snd (xadd (clk 3) (''stream:ticks:'' @ tk_exchange t) (stream_data t) s2)
      in snd (publish (''ticks:'' @ tk_exchange t) (tick_message t) s3))"
  by (simp add: set_tick_def at_clock_def run_op_def Let_def split_beta numeral_eq_Suc)

lemma set_tick_hgetall:
  "fst (hgetall now k (set_tick ttl clk t s)) =
     fst (hgetall now k (snd (expire (clk 2) (tick_key (tk_exchange t) (tk_symbol t)) ttl
       (snd (hset (tick_key (tk_exchange t) (tk_symbol t)) (tick_to_hash (clk 0) t) s)))))"
  unfolding set_tick_eq Let_def by (rule hgetall_fst_cong) simp_all

lemma set_market_depth_eq:
  "set_market_depth ttl wall clk sm exch d s =
     snd (expire (clk 2) (depth_key exch sm) ttl (snd (hset (depth_key exch sm) (depth_to_hash wall d) s)))"
  by (simp add: set_market_depth_def at_clock_def run_op_def Let_def split_beta numeral_eq_Suc)

lemma fst_get_tick: "fst (get_tick now sm exch s) = nonempty (fst (hgetall now (tick_key exch sm) s))"
  by (simp add: get_tick_def)

lemma fst_get_market_depth:
  "fst (get_market_depth now sm exch s) = nonempty (fst (hgetall now (depth_key exch sm) s))"
  by (simp add: get_market_depth_def)

lemma nonempty_map_of: "map_of h k = Some v \<Longrightarrow> nonempty h = Some h"
  by (auto simp: nonempty_def)

section \<open>Depth fields\<close>

definition level_key :: "string \<Rightarrow> nat \<Rightarrow> string \<Rightarrow> string" where
  "level_key side i what = side @ ''_'' @ idx_text i @ what"

lemma idx_text_inj: "i < 5 \<Longrightarrow> j < 5 \<Longrightarrow> idx_text i = idx_text j \<longleftrightarrow> i = j"
proof -
  assume ij: "i < 5" "j < 5"
  have "i = j" if "char_of (48 + i) = (char_of (48 + j) :: char)"
  proof -
    from that have "(of_char (char_of (48 + i)) :: nat) = of_char (char_of (48 + j) :: char)" by simp
    with ij show "i = j" by simp
  qed
  then show ?thesis by (auto simp: idx_text_def)
qed

definition depth_sides :: "string set" where
  "depth_sides = {''buy'', ''sell''}"

definition level_parts :: "string set" where
  "level_parts = {''_price'', ''_qty'', ''_orders''}"

lemma level_key_inj:
  assumes "a \<in> depth_sides" "b \<in> depth_sides" "w \<in> level_parts" "x \<in> level_parts" "i < 5" "j < 5"
  shows "level_key a i w = level_key b j x \<longleftrightarrow> a = b \<and> i = j \<and> w = x"
proof
  assume eq: "level_key a i w = level_key b j x"
  then have "hd (level_key a i w) = hd (level_key b j x)" by simp
  with assms(1,2) have ab: "a = b" by (auto simp: depth_sides_def level_key_def)
  with eq have "idx_text i @ w = idx_text j @ x" by (simp add: level_key_def)
  then have "idx_text i = idx_text j" "w = x" by (simp_all add: idx_text_def)
  with ab idx_text_inj[OF assms(5,6)] show "a = b \<and> i = j \<and> w = x" by simp
qed simp

lemma level_key_total:
  assumes "a \<in> depth_sides" "i < 5"
  shows "level_key a i w \<noteq> ''total_buy_qty'' \<and> level_key a i w \<noteq> ''total_sell_qty'' \<and>
    level_key a i w \<noteq> ''updated_at''"
  using assms by (auto simp: depth_sides_def level_key_def)

lemma level_fields_eq:
  "level_fields side (i, l) = [(level_key side i ''_price'', DecTxt (lv_price l)),
     (level_key side i ''_qty'', IntTxt (lv_quantity l)), (level_key side i ''_orders'', IntTxt (lv_orders l))]"
  by (simp add: level_fields_def level_key_def)

definition side_fields :: "string \<Rightarrow> nat \<Rightarrow> depth_level list \<Rightarrow> fields" where
  "side_fields side n ls = concat (map (level_fields side) (enumerate n ls))"

lemma side_fields_simps [simp]:
  "side_fields side n [] = []"
  "side_fields side n (l # ls) = level_fields side (n, l) @ side_fields side (Suc n) ls"
  by (simp_all add: side_fields_def)

lemma side_fields_keys:
  "fst ` set (side_fields side n ls) = (\<Union>i\<in>{n..<n + length ls}. level_key side i ` level_parts)"
proof (induction ls arbitrary: n)
  case (Cons l ls)
  have "{n..<n + length (l # ls)} = insert n {Suc n..<Suc n + length ls}" by auto
  then show ?case by (simp add: Cons level_fields_eq level_parts_def)
qed simp

lemma side_fields_distinct:
  "side \<in> depth_sides \<Longrightarrow> n + length ls \<le> 5 \<Longrightarrow> distinct (map fst (side_fields side n ls))"
proof (induction ls arbitrary: n)
  case (Cons l ls)
  have part: "x \<in> level_parts \<Longrightarrow> level_key side n x \<notin> fst ` set (side_fields side (Suc n) ls)" for x
    unfolding side_fields_keys using Cons.prems by (auto simp: level_key_inj)
  have "level_key side n w \<noteq> level_key side n x" if "w \<noteq> x" for w x
    using that by (simp add: level_key_def)
  with Cons part[of "''_price''"] part[of "''_qty''"] part[of "''_orders''"] show ?case
    by (simp add: level_fields_eq level_parts_def)
qed simp

lemma side_fields_member:
  "i < length ls \<Longrightarrow> set (level_fields side (n + i, ls ! i)) \<subseteq> set (side_fields side n ls)"
proof (induction ls arbitrary: n i)
  case (Cons l ls)
  show ?case
  proof (cases i)
    case (Suc j)
    with Cons.IH[of j "Suc n"] Cons.prems show ?thesis by auto
  qed auto
qed simp

lemma depth_hash_split:
  "depth_to_hash wall d = side_fields ''buy'' 0 (take 5 (md_buy d)) @ side_fields ''sell'' 0 (take 5 (md_sell d)) @
     [(''total_buy_qty'', IntTxt (md_total_buy d)), (''total_sell_qty'', IntTxt (md_total_sell d)),
      (''updated_at'', TimeTxt wall)]"
  by (simp add: depth_to_hash_def side_fields_def)

lemma depth_hash_keys:
  "k \<in> fst ` set (depth_to_hash wall d) \<longleftrightarrow>
     (\<exists>i < min 5 (length (md_buy d)). \<exists>w\<in>level_parts. k = level_key ''buy'' i w) \<or>
     (\<exists>i < min 5 (length (md_sell d)). \<exists>w\<in>level_parts. k = level_key ''sell'' i w) \<or>
     k \<in> {''total_buy_qty'', ''total_sell_qty'', ''updated_at''}"
  unfolding depth_hash_split set_append image_Un Un_iff side_fields_keys
  by (auto simp: min.commute)

lemma depth_hash_distinct: "distinct (map fst (depth_to_hash wall d))"
proof -
  have sides: "''buy'' \<in> depth_sides" "''sell'' \<in> depth_sides" by (simp_all add: depth_sides_def)
  have len: "length (take 5 (md_buy d)) \<le> 5" "length (take 5 (md_sell d)) \<le> 5" by simp_all
  have "fst ` set (side_fields ''buy'' 0 (take 5 (md_buy d))) \<inter> fst ` set (side_fields ''sell'' 0 (take 5 (md_sell d))) = {}"
    unfolding side_fields_keys using sides len by (auto simp: level_key_inj)
  moreover have "k \<notin> {''total_buy_qty'', ''total_sell_qty'', ''updated_at''}"
    if "k \<in> fst ` set (side_fields ''buy'' 0 (take 5 (md_buy d))) \<union> fst ` set (side_fields ''sell'' 0 (take 5 (md_sell d)))" for k
    using that sides len unfolding side_fields_keys by (auto simp: level_key_total)
  moreover have "distinct (map fst (side_fields ''buy'' 0 (take 5 (md_buy d))))"
    "distinct (map fst (side_fields ''sell'' 0 (take 5 (md_sell d))))"
    using sides len by (auto intro!: side_fields_distinct)
  moreover have "distinct (map fst [(''total_buy_qty'', IntTxt (md_total_buy d)), (''total_sell_qty'', IntTxt (md_total_sell d)),
      (''updated_at'', TimeTxt wall)])"
    "fst ` set [(''total_buy_qty'', IntTxt (md_total_buy d)), (''total_sell_qty'', IntTxt (md_total_sell d)),
      (''updated_at'', TimeTxt wall)] = {''total_buy_qty'', ''total_sell_qty'', ''updated_at''}"
    by simp_all
  ultimately show ?thesis
    unfolding depth_hash_split map_append distinct_append set_append set_map image_Un by blast
qed

lemma depth_hash_level:
  assumes "i < 5"
  shows "i < length (md_buy d) \<Longrightarrow> set (level_fields ''buy'' (i, md_buy d ! i)) \<subseteq> set (depth_to_hash wall d)"
    and "i < length (md_sell d) \<Longrightarrow> set (level_fields ''sell'' (i, md_sell d ! i)) \<subseteq> set (depth_to_hash wall d)"
  using assms side_fields_member[of i "take 5 (md_buy d)" "''buy''" 0]
    side_fields_member[of i "take 5 (md_sell d)" "''sell''" 0]
  unfolding depth_hash_split by auto

lemma read_level_present:
  assumes "map_of h (level_key side i ''_price'') = Some (DecTxt (lv_price l))"
    "map_of h (level_key side i ''_qty'') = Some (IntTxt (lv_quantity l))"
    "map_of h (level_key side i ''_orders'') = Some (IntTxt (lv_orders l))"
  shows "read_level side h i = Some [l]"
  using assms by (simp add: read_level_def field_or_def level_key_def num_text_def int_text_def)

lemma read_level_absent:
  "map_of h (level_key side i ''_price'') = None \<Longrightarrow> read_level side h i = Some []"
  by (simp add: read_level_def field_or_def level_key_def)

lemma read_levels_prefix:
  assumes "\<And>i. i < length ls \<Longrightarrow> i < n \<Longrightarrow> read_level side h i = Some [ls ! i]"
    and "\<And>i. length ls \<le> i \<Longrightarrow> i < n \<Longrightarrow> read_level side h i = Some []"
  shows "read_levels side h [0..<n] = Some (take n ls)"
proof -
  have app: "read_levels side h (xs @ [i]) =
      Option.bind (read_levels side h xs) (\<lambda>l. map_option (\<lambda>m. l @ m) (read_level side h i))" for xs i
  proof (induction xs)
    case Nil
    then show ?case by (cases "read_level side h i") simp_all
  next
    case (Cons x xs)
    then show ?case
      by (cases "read_level side h x"; cases "read_levels side h xs"; cases "read_level side h i") simp_all
  qed
  show ?thesis
    using assms
  proof (induction n)
    case (Suc n)
    have "read_levels side h [0..<n] = Some (take n ls)" using Suc by simp
    then show ?case
      using Suc.prems(1)[of n] Suc.prems(2)[of n]
      by (cases "n < length ls") (simp_all add: app take_Suc_conv_app_nth)
  qed simp
qed

section \<open>Properties\<close>

lemma depth_roundtrip_hash:
  assumes h: "map_of h = map_of (depth_to_hash wall d)"
  shows "depth_from_hash h = Some \<lparr>qd_buy = take 5 (md_buy d), qd_sell = take 5 (md_sell d),
    qd_total_buy = md_total_buy d, qd_total_sell = md_total_sell d, qd_imbalance_ratio = 0\<rparr>"
proof -
  have look: "map_of h k = Some v" if "(k, v) \<in> set (depth_to_hash wall d)" for k v
    unfolding h using that depth_hash_distinct by simp
  have sides: "''buy'' \<in> depth_sides" "''sell'' \<in> depth_sides" "''_price'' \<in> level_parts"
    by (simp_all add: depth_sides_def level_parts_def)
  have absent: "map_of h (level_key ''buy'' i ''_price'') = None" if "length (md_buy d) \<le> i" "i < 5" for i
    unfolding h map_of_eq_None_iff depth_hash_keys
    using that sides level_key_total[of "''buy''" i] by (auto simp: level_key_inj)
  have absent': "map_of h (level_key ''sell'' i ''_price'') = None" if "length (md_sell d) \<le> i" "i < 5" for i
    unfolding h map_of_eq_None_iff depth_hash_keys
    using that sides level_key_total[of "''sell''" i] by (auto simp: level_key_inj)
  have "read_levels ''buy'' h [0..<5] = Some (take 5 (md_buy d))"
    using depth_hash_level(1)[of _ d wall]
    by (intro read_levels_prefix read_level_present read_level_absent absent look) (auto simp: level_fields_eq)
  moreover have "read_levels ''sell'' h [0..<5] = Some (take 5 (md_sell d))"
    using depth_hash_level(2)[of _ d wall]
    by (intro read_levels_prefix read_level_present read_level_absent absent' look) (auto simp: level_fields_eq)
  moreover have "map_of h ''total_buy_qty'' = Some (IntTxt (md_total_buy d))"
    "map_of h ''total_sell_qty'' = Some (IntTxt (md_total_sell d))"
    by (rule look, simp add: depth_hash_split)+
  ultimately show ?thesis by (simp add: depth_from_hash_def field_or_def int_text_def)
qed

text \<open>A tick written to the cache is read back until its time to live has passed: the hash holds exactly its
  fields and the quote built from it is the quote built from the tick itself, except that an
  optional amount of zero is reported as absent; from the expiry on nothing is read.\<close>
theorem cached_tick_roundtrip:
  assumes "tk_exchange t = ''NSE'' \<or> tk_exchange t = ''BSE''"
    and "fst ` set (raw_hash (tick_key (tk_exchange t) (tk_symbol t)) s) \<subseteq> fst ` set (tick_to_hash (clk 0) t)"
  shows "(now < clk 2 + of_int ttl \<longrightarrow>
     (\<exists>h. fst (get_tick now (tk_symbol t) (tk_exchange t) (set_tick ttl clk t s)) = Some h \<and>
        map_of h = map_of (tick_to_hash (clk 0) t) \<and>
        build_quote_from_cache h = Some (build_quote_from_tick (cached_view t)))) \<and>
   (clk 2 + of_int ttl \<le> now \<longrightarrow>
     fst (get_tick now (tk_symbol t) (tk_exchange t) (set_tick ttl clk t s)) = None)"
proof -
  let ?k = "tick_key (tk_exchange t) (tk_symbol t)" and ?items = "tick_to_hash (clk 0) t"
  let ?h = "fst (hgetall now ?k (snd (expire (clk 2) ?k ttl (snd (hset ?k ?items s)))))"
  have "map_of ?h = map_of ?items" if "now < clk 2 + of_int ttl"
    using mem.rewrite_exact[OF that assms(2) tick_keys_distinct] unfolding mem.cput_def .
  moreover have "map_of ?items ''symbol'' = Some (Txt (tk_symbol t))" by (simp add: tick_to_hash_def)
  moreover have "?h = []" if "clk 2 + of_int ttl \<le> now"
    using mem.fetch_dead[OF that] .
  ultimately show ?thesis
    unfolding fst_get_tick set_tick_hgetall
    using reader_cong[of ?h ?items] quote_roundtrip[OF assms(1), of "clk 0"]
    by (metis nonempty_def nonempty_map_of)
qed

definition demo_tick :: tick where
  "demo_tick = \<lparr>tk_symbol = ''TCS'', tk_isin = None, tk_exchange = ''NSE'', tk_series = Some ''EQ'', tk_ltp = 3500,
     tk_open = 3450, tk_high = 3520, tk_low = 3440, tk_close = 3460, tk_change = 40, tk_pct_change = 1, tk_volume = 1000,
     tk_value = Some 0, tk_vwap = Some 3490, tk_upper_circuit = None, tk_lower_circuit = None, tk_total_buy_qty = None,
     tk_total_sell_qty = None, tk_open_interest = None, tk_week_52_high = None, tk_week_52_low = None, tk_depth = None,
     tk_timestamp = ist_at (mk_date 2026 1 27) 0, tk_source = ''groww'', tk_latency_ms = 12\<rparr>"

theorem cached_tick_roundtrip_witness:
  "\<exists>h. fst (get_tick 4 ''TCS'' ''NSE'' (set_tick 5 (\<lambda>_. 0) demo_tick empty_store)) = Some h \<and>
     build_quote_from_cache h = Some (build_quote_from_tick (demo_tick\<lparr>tk_value := None\<rparr>))"
proof -
  have "cached_view demo_tick = demo_tick\<lparr>tk_value := None\<rparr>"
    by (simp add: cached_view_def demo_tick_def no_zero_def)
  then show ?thesis
    using cached_tick_roundtrip[of demo_tick empty_store "\<lambda>_. 0" 4 5]
    by (auto simp: demo_tick_def raw_hash_def empty_store_def)
qed

text \<open>Order-book levels beyond those of the latest snapshot survive from an earlier one: after writing a
  depth of fewer levels the endpoint still finds the earlier snapshot's deeper bid.\<close>
theorem stale_depth_level_served:
  assumes "i < 5" "i < length (md_buy d1)" "length (md_buy d2) \<le> i" "now < clk2 2 + of_int ttl"
  shows "\<exists>h. fst (get_market_depth now sm exch (set_market_depth ttl w2 clk2 sm exch d2
       (set_market_depth ttl w1 clk1 sm exch d1 s))) = Some h \<and> read_level ''buy'' h i = Some [md_buy d1 ! i]"
proof -
  let ?k = "depth_key exch sm" and ?s1 = "set_market_depth ttl w1 clk1 sm exch d1 s"
  let ?h = "fst (hgetall now ?k (set_market_depth ttl w2 clk2 sm exch d2 ?s1))"
  have sides: "''buy'' \<in> depth_sides" "''sell'' \<in> depth_sides" by (simp_all add: depth_sides_def)
  have raw: "raw_hash ?k ?s1 = update_fields (raw_hash ?k s) (depth_to_hash w1 d1)"
    unfolding set_market_depth_eq by (rule mem.raw_arm_put)
  have "map_of ?h (level_key ''buy'' i w) = Some v"
    if w: "w \<in> level_parts" and v: "(level_key ''buy'' i w, v) \<in> set (depth_to_hash w1 d1)" for w v
  proof -
    have "level_key ''buy'' i w \<notin> fst ` set (depth_to_hash w2 d2)"
      unfolding depth_hash_keys using assms(1,3) sides w level_key_total[of "''buy''" i]
      by (auto simp: level_key_inj)
    moreover have "map_of (raw_hash ?k ?s1) (level_key ''buy'' i w) = Some v"
      unfolding raw using v depth_hash_distinct[of w1 d1] by (simp add: map_of_update_distinct map_add_def)
    ultimately show ?thesis
      using mem.read_stale[OF assms(4)] unfolding mem.cput_def set_market_depth_eq[of ttl w2] by blast
  qed
  with depth_hash_level(1)[OF assms(1,2), of w1]
  have fields: "map_of ?h (level_key ''buy'' i ''_price'') = Some (DecTxt (lv_price (md_buy d1 ! i)))"
    "map_of ?h (level_key ''buy'' i ''_qty'') = Some (IntTxt (lv_quantity (md_buy d1 ! i)))"
    "map_of ?h (level_key ''buy'' i ''_orders'') = Some (IntTxt (lv_orders (md_buy d1 ! i)))"
    by (simp_all add: level_fields_eq level_parts_def)
  show ?thesis
    unfolding fst_get_market_depth using read_level_present[OF fields] nonempty_map_of[OF fields(1)] by blast
qed

theorem stale_depth_level_served_witness:
  "\<exists>h. fst (get_market_depth 101 ''TCS'' ''NSE'' (set_market_depth 2 (ist_at (mk_date 2026 1 27) 1) (\<lambda>_. 100) ''TCS'' ''NSE''
        (demo_depth\<lparr>md_buy := []\<rparr>) (set_market_depth 2 (ist_at (mk_date 2026 1 27) 0) (\<lambda>_. 0) ''TCS'' ''NSE'' demo_depth empty_store))) = Some h \<and>
     read_level ''buy'' h 1 = Some [\<lparr>lv_price = 99, lv_quantity = 10, lv_orders = 1\<rparr>]"
  using stale_depth_level_served[of 1 demo_depth "demo_depth\<lparr>md_buy := []\<rparr>" 101 "\<lambda>_. 100" 2 "''TCS''" "''NSE''"
      "ist_at (mk_date 2026 1 27) 1" "ist_at (mk_date 2026 1 27) 0" "\<lambda>_. 0" empty_store]
  by (simp add: demo_depth_def)

end
