(* ===== verification/MarketData.thy ===== *)
theory MarketData
  imports Failover TickerCache SbQuotes
begin

text \<open>
  \<^verbatim>\<open>src/engine/market_data.py\<close>: the shared service over the failover controller, with the symbol
  tables it resolves against (\<^verbatim>\<open>canonical_symbol\<close> of \<^verbatim>\<open>src/config/constants.py\<close>). The providers'
  network calls and the Yahoo client are environments of the operations; the deferred cache write of
  \<^verbatim>\<open>get_quote_through\<close> is the returned job, which \<open>write_cache\<close> runs. Volatility is given by the variance the
  code takes the square root of.
\<close>

section \<open>Symbols\<close>

definition symbol_aliases :: "(string \<times> string) list" where
  "symbol_aliases = [(''TATAMOTORS'', ''TMPV'')]"

definition canonical_symbol :: "string \<Rightarrow> string" where
  "canonical_symbol sm =
     (let s = upper (strip sm) in case map_of symbol_aliases s of None \<Rightarrow> s | Some a \<Rightarrow> a)"

definition index_yf :: "(string \<times> string) list" where
  "index_yf = [(''^NSEI'', ''^NSEI''), (''NSEI'', ''^NSEI''), (''NIFTY'', ''^NSEI''), (''NIFTY50'', ''^NSEI''),
     (''NIFTY 50'', ''^NSEI''), (''^NSEBANK'', ''^NSEBANK''), (''NSEBANK'', ''^NSEBANK''),
     (''BANKNIFTY'', ''^NSEBANK''), (''NIFTYBANK'', ''^NSEBANK''), (''NIFTY BANK'', ''^NSEBANK''),
     (''^CNXIT'', ''^CNXIT''), (''NIFTYIT'', ''^CNXIT''), (''NIFTY IT'', ''^CNXIT''),
     (''^BSESN'', ''^BSESN''), (''SENSEX'', ''^BSESN'')]"

definition yahoo_symbol :: "string \<Rightarrow> string \<Rightarrow> string" where
  "yahoo_symbol sm exch =
     (case map_of index_yf sm of
        Some i \<Rightarrow> i
      | None \<Rightarrow>
          if starts_with sm ''^'' \<or> CHR ''.'' \<in> set sm \<or> CHR ''='' \<in> set sm then sm
          else sm @ (if exch = ''BSE'' then ''.BO'' else ''.NS''))"

definition yf_interval :: "(string \<times> string \<times> string) list" where
  "yf_interval = [(''1m'', ''1m'', ''7d''), (''5m'', ''5m'', ''60d''), (''15m'', ''15m'', ''60d''),
     (''30m'', ''30m'', ''60d''), (''1h'', ''60m'', ''730d''), (''4h'', ''60m'', ''730d''),
     (''1d'', ''1d'', ''5y''), (''1w'', ''1wk'', ''10y'')]"

section \<open>The provider stack\<close>

record source_flags =
  sf_nse :: bool
  sf_bse :: bool
  sf_yahoo :: bool
  sf_proxies :: bool

definition service_providers :: "source_flags \<Rightarrow> provider list" where
  "service_providers f =
     (if sf_nse f then [groww_meta, nse_live_meta] @ (if sf_proxies f then [nse_scraper_meta] else []) @ [nse_archive_meta] else [])
     @ (if sf_bse f then [bse_scraper_meta, bse_live_meta, bse_archive_meta] else [])
     @ (if sf_yahoo f then [yahoo_meta] else [])"

text \<open>\<^verbatim>\<open>_controller\<close>: \<open>res\<close> is what connecting each provider gives.\<close>

definition build_controller :: "cb_settings \<Rightarrow> source_flags \<Rightarrow> (string \<Rightarrow> string option) \<Rightarrow> controller" where
  "build_controller cfg f res =
     connect_all res (foldl (\<lambda>c p. register_provider cfg p c) new_controller (service_providers f))"

definition service_controller :: "cb_settings \<Rightarrow> source_flags \<Rightarrow> (string \<Rightarrow> string option) \<Rightarrow> controller option \<Rightarrow> controller" where
  "service_controller cfg f res st = (case st of Some c \<Rightarrow> c | None \<Rightarrow> build_controller cfg f res)"

section \<open>Quotes\<close>

datatype through_result = Quote "tick option" | Cancelled

text \<open>
  \<open>env\<close> answers the attempts for a symbol. The last component is the cache write that is started in the background.
\<close>

definition get_quote_through :: "(string \<Rightarrow> string \<Rightarrow> tick attempt) \<Rightarrow> string \<Rightarrow> string \<Rightarrow> string option \<Rightarrow> bool \<Rightarrow> bool \<Rightarrow> bool \<Rightarrow>
    controller \<Rightarrow> through_result \<times> controller \<times> tick option" where
  "get_quote_through env sm exch source write_cache exclude_delayed pin c =
     (let s = canonical_symbol sm;
          q = \<lparr>q_source = source, q_exclude_delayed = exclude_delayed, q_exchange = (if pin then Some exch else None)\<rparr>
      in case fetch_quote q (env s) c of
           (Inr t, c') \<Rightarrow> (Quote (Some t), c', if write_cache then Some t else None)
         | (Inl FetchCancelled, c') \<Rightarrow> (Cancelled, c', None)
         | (Inl e, c') \<Rightarrow> (Quote None, c', None))"

definition write_cache :: "int \<Rightarrow> int \<Rightarrow> datetime \<Rightarrow> (nat \<Rightarrow> secs) \<Rightarrow> (nat \<Rightarrow> secs) \<Rightarrow> tick \<Rightarrow> cache \<Rightarrow> cache" where
  "write_cache tick_ttl depth_ttl wall clk clk2 t s =
     (let s1 = set_tick tick_ttl clk t s
      in case tk_depth t of None \<Rightarrow> s1
         | Some d \<Rightarrow> set_market_depth depth_ttl wall clk2 (tk_symbol t) (tk_exchange t) d s1)"

section \<open>Snapshots, depth and details\<close>

definition mark_connected :: "string \<Rightarrow> controller \<Rightarrow> controller" where
  "mark_connected n c = c\<lparr>providers := map (\<lambda>p. if p_name p = n then p\<lparr>p_connected := True\<rparr> else p) (providers c)\<rparr>"

definition snapshot_wants :: "string \<Rightarrow> string list" where
  "snapshot_wants exch =
     (let ex = upper exch
      in if ex = ''ALL'' then [''nse_archive'', ''bse_archive'']
         else if ex = ''NSE'' then [''nse_archive''] else [''bse_archive''])"

text \<open>\<open>snap\<close> gives the rows an archive holds once it is connected.\<close>

definition get_all_snapshot :: "(string \<Rightarrow> 'r list) \<Rightarrow> string \<Rightarrow> controller \<Rightarrow> 'r list \<times> controller" where
  "get_all_snapshot snap exch c =
     (let hits = concat (map (\<lambda>w. filter (\<lambda>p. p_name p = w) (providers c)) (snapshot_wants exch))
      in (concat (map (\<lambda>p. snap (p_name p)) hits), foldl (\<lambda>c p. mark_connected (p_name p) c) c hits))"

text \<open>\<open>Raised\<close> stands for an exception of the connect or the call, which is logged and swallowed.\<close>

definition get_depth :: "bool \<Rightarrow> 'd option option \<Rightarrow> controller \<Rightarrow> 'd option \<times> controller" where
  "get_depth conn_ok fetched c =
     (case filter (\<lambda>p. p_name p = ''bse_scraper'') (providers c) of
        [] \<Rightarrow> (None, c)
      | p # _ \<Rightarrow>
          if \<not> p_connected p \<and> \<not> conn_ok then (None, c)
          else (case fetched of None \<Rightarrow> None | Some d \<Rightarrow> d, mark_connected (p_name p) c))"

definition details_order :: "string \<Rightarrow> string list" where
  "details_order source = (if source = ''bse'' then [''bse'', ''nse''] else [''nse'', ''bse''])"

fun first_details :: "(string \<Rightarrow> bool) \<Rightarrow> (string \<Rightarrow> dict option) \<Rightarrow> provider list \<Rightarrow> controller \<Rightarrow> dict option \<times> controller" where
  "first_details conn_ok det [] c = (None, c)"
| "first_details conn_ok det (p # ps) c =
     (if \<not> p_connected p \<and> \<not> conn_ok (p_name p) then first_details conn_ok det ps c
      else let c' = mark_connected (p_name p) c
           in case det (p_name p) of
                Some (e # d) \<Rightarrow> (Some (e # d), c')
              | _ \<Rightarrow> first_details conn_ok det ps c')"

text \<open>The providers with a \<^verbatim>\<open>fetch_details\<close> method.\<close>

definition details_providers :: "string list" where
  "details_providers = [''bse_scraper'', ''nse_archive'', ''nse_live'']"

definition get_details :: "(string \<Rightarrow> bool) \<Rightarrow> (string \<Rightarrow> string \<Rightarrow> dict option) \<Rightarrow> string \<Rightarrow> string \<Rightarrow> controller \<Rightarrow>
    dict option \<times> controller" where
  "get_details conn_ok det sm source c =
     first_details conn_ok (det (canonical_symbol sm))
       (concat (map (\<lambda>src. filter (\<lambda>p. source_match p src \<and> p_name p \<in> set details_providers \<and> is_enabled (p_name p) c)
          (providers c)) (details_order source))) c"

section \<open>The intraday curve\<close>

type_synonym 'p curve_cache = "string \<rightharpoonup> secs \<times> 'p list"

text \<open>The two attempts at the BSE curve: an exception, or the points and the clock when they came.\<close>

datatype 'p curve_try = CurveRaised | CurveGot "'p list" secs

fun try_curve :: "'p curve_try list \<Rightarrow> ('p list \<times> secs) option" where
  "try_curve [] = None"
| "try_curve (CurveRaised # ts) = try_curve ts"
| "try_curve (CurveGot xs t # ts) = (if xs = [] then try_curve ts else Some (xs, t))"

definition curve_key :: "string \<Rightarrow> string \<Rightarrow> string" where
  "curve_key sm flag = upper (canonical_symbol sm) @ '':'' @ flag"

definition intraday_ttl :: secs where
  "intraday_ttl = 45"

definition get_intraday_series :: "bool \<Rightarrow> 'p curve_try \<Rightarrow> 'p curve_try \<Rightarrow> string \<Rightarrow> string \<Rightarrow> secs \<Rightarrow> 'p curve_cache \<Rightarrow>
    'p list option \<times> 'p curve_cache" where
  "get_intraday_series has_bse try1 try2 sm flag now cache =
     (let key = curve_key sm flag; hit = cache key
      in if (case hit of None \<Rightarrow> False | Some (t, xs) \<Rightarrow> now - t < intraday_ttl \<and> xs \<noteq> [])
         then (map_option snd hit, cache)
         else case (if has_bse then try_curve [try1, try2] else None) of
                Some (xs, t) \<Rightarrow> (Some xs, cache(key \<mapsto> (t, xs)))
              | None \<Rightarrow> (map_option snd hit, cache))"

section \<open>History\<close>

definition history_query :: "string \<Rightarrow> string \<Rightarrow> string \<Rightarrow> string \<times> string \<times> string" where
  "history_query sm exch interval =
     (yahoo_symbol (canonical_symbol sm) exch,
      case map_of yf_interval interval of None \<Rightarrow> (''1d'', ''5y'') | Some q \<Rightarrow> q)"

text \<open>\<open>yahoo\<close> is the client: \<open>None\<close> when it raises. A start date replaces the default period.\<close>

definition get_history :: "(string \<times> string \<times> string \<Rightarrow> (string \<times> string) option \<Rightarrow> hrow list option) \<Rightarrow> string \<Rightarrow> string \<Rightarrow> string \<Rightarrow>
    (string \<times> string) option \<Rightarrow> nat option \<Rightarrow> hrow list" where
  "get_history yahoo sm exch interval window limit =
     (case yahoo (history_query sm exch interval) window of
        None \<Rightarrow> []
      | Some rows \<Rightarrow> (case limit of None \<Rightarrow> rows | Some n \<Rightarrow> last_n n rows))"

text \<open>One row of the Yahoo frame: missing amounts count as zero and prices are rounded to two places (the
  text the code makes of a price is kept as the price).\<close>

record yahoo_row =
  yr_stamp :: string
  yr_open :: "rat option"
  yr_high :: "rat option"
  yr_low :: "rat option"
  yr_close :: "rat option"
  yr_volume :: "rat option"

definition yahoo_cell :: "rat option \<Rightarrow> val" where
  "yahoo_cell x = VNum (py_round 2 (case x of None \<Rightarrow> 0 | Some v \<Rightarrow> v))"

definition yahoo_history_row :: "yahoo_row \<Rightarrow> hrow" where
  "yahoo_history_row r =
     \<lparr>hr_timestamp = None, hr_bucket = Some (yr_stamp r), hr_date = None, hr_open = yahoo_cell (yr_open r),
      hr_high = yahoo_cell (yr_high r), hr_low = yahoo_cell (yr_low r), hr_close = yahoo_cell (yr_close r),
      hr_volume = VInt (py_trunc (case yr_volume r of None \<Rightarrow> 0 | Some v \<Rightarrow> v))\<rparr>"

record analytics =
  an_ltp :: rat
  an_1w :: "rat option"
  an_1m :: "rat option"
  an_ytd :: "rat option"
  an_1y :: "rat option"
  an_3y :: "rat option"
  an_5y :: "rat option"
  an_daily_variance :: rat
  an_week_52_high :: rat
  an_week_52_low :: rat
  an_sessions :: nat

definition nth_back :: "'a list \<Rightarrow> nat \<Rightarrow> 'a" where
  "nth_back xs n = rev xs ! n"

definition period_return :: "rat list \<Rightarrow> nat \<Rightarrow> rat option" where
  "period_return closes n =
     (if n < length closes \<and> 0 < nth_back closes n
      then Some (py_round 2 ((last closes / nth_back closes n - 1) * 100)) else None)"

fun ytd_return :: "string \<Rightarrow> rat \<Rightarrow> (string \<times> rat) list \<Rightarrow> rat option" where
  "ytd_return yr lst [] = None"
| "ytd_return yr lst ((d, c) # ps) =
     (if take 4 d = yr \<and> 0 < c then Some (py_round 2 ((lst / c - 1) * 100)) else ytd_return yr lst ps)"

fun simple_returns :: "rat list \<Rightarrow> rat list" where
  "simple_returns (a # b # xs) = (if 0 < a then (b / a - 1) # simple_returns (b # xs) else simple_returns (b # xs))"
| "simple_returns xs = []"

definition mean :: "rat list \<Rightarrow> rat" where
  "mean xs = sum_list xs / of_nat (length xs)"

definition variance :: "rat list \<Rightarrow> rat" where
  "variance rets = (if rets = [] then 0 else mean (map (\<lambda>r. (r - mean rets) * (r - mean rets)) rets))"

text \<open>\<open>candles\<close> are the bucket text and the close of each history row, \<open>yr\<close> the current year's text.\<close>

definition get_analytics :: "string \<Rightarrow> (string \<times> rat) list \<Rightarrow> analytics option" where
  "get_analytics yr candles =
     (let closes = filter (\<lambda>x. 0 < x) (map snd candles); dates = map fst candles
      in if length closes < 10 then None
         else
           let lst = last closes; year = (if 252 \<le> length closes then last_n 252 closes else closes)
           in Some \<lparr>an_ltp = py_round 2 lst, an_1w = period_return closes 5, an_1m = period_return closes 21,
                an_ytd = ytd_return yr lst (zip dates closes), an_1y = period_return closes 252,
                an_3y = period_return closes 756, an_5y = period_return closes 1260,
                an_daily_variance = variance (simple_returns (last_n 251 closes)),
                an_week_52_high = py_round 2 (Max (set year)), an_week_52_low = py_round 2 (Min (set year)),
                an_sessions = length closes\<rparr>)"

section \<open>Symbols: lemmas\<close>

lemma canonical_canonical [simp]: "canonical_symbol (canonical_symbol s) = canonical_symbol s"
proof (cases "upper (strip s) = ''TATAMOTORS''")
  case True
  then show ?thesis by (simp add: canonical_symbol_def symbol_aliases_def) code_simp
next
  case False
  then show ?thesis by (simp add: canonical_symbol_def symbol_aliases_def strip_upper)
qed

section \<open>The stack stays as configured\<close>

text \<open>What a provider's requests never change.\<close>

definition provider_sig :: "provider \<Rightarrow> string \<times> int \<times> int \<times> bool \<times> string" where
  "provider_sig p = (p_name p, p_tier p, p_priority p, p_delayed p, p_exchange p)"

definition stack_sig :: "controller \<Rightarrow> (string \<times> int \<times> int \<times> bool \<times> string) list" where
  "stack_sig c = map provider_sig (providers c)"

lemma sig_key: "provider_sig p = provider_sig p' \<Longrightarrow> provider_key p = provider_key p'"
  by (simp add: provider_sig_def provider_key_def provider_rank_def)

lemma sig_set_breaker [simp]: "stack_sig (set_breaker n b c) = stack_sig c"
  by (simp add: stack_sig_def)

lemma sig_touch [simp]: "stack_sig (touch_provider n a c) = stack_sig c"
  by (simp add: stack_sig_def touch_provider_def provider_sig_def comp_def if_distrib cong: if_cong)

lemma sig_enabled [simp]: "stack_sig (c\<lparr>enabled := e\<rparr>) = stack_sig c"
  by (simp add: stack_sig_def)

lemma sig_mark [simp]: "stack_sig (mark_connected n c) = stack_sig c"
  by (simp add: stack_sig_def mark_connected_def provider_sig_def comp_def if_distrib cong: if_cong)

lemma sig_marks: "stack_sig (foldl (\<lambda>c p. mark_connected (p_name p) c) c ps) = stack_sig c"
  by (induction ps arbitrary: c) simp_all

lemma sig_connect [simp]: "stack_sig (connect_all res c) = stack_sig c"
  by (simp add: stack_sig_def connect_all_def provider_sig_def comp_def if_distrib cong: if_cong)

lemma ctl_inv_flags:
  "map provider_key (providers c') = map provider_key (providers c) \<Longrightarrow> map p_name (providers c') = map p_name (providers c) \<Longrightarrow>
     breakers c' = breakers c \<Longrightarrow> ctl_inv c \<Longrightarrow> ctl_inv c'"
  by (simp add: ctl_inv_names)

lemma ctl_inv_mark: "ctl_inv c \<Longrightarrow> ctl_inv (mark_connected n c)"
  by (rule ctl_inv_flags[of _ c]) (simp_all add: mark_connected_def map_flag_keys del: map_map)

lemma ctl_inv_marks: "ctl_inv c \<Longrightarrow> ctl_inv (foldl (\<lambda>c p. mark_connected (p_name p) c) c ps)"
  by (induction ps arbitrary: c) (simp_all add: ctl_inv_mark)

lemma sig_visit: "ctl_inv c \<Longrightarrow> stack_sig (snd (visit_provider q a p c)) = stack_sig c"
proof (cases "breakers c (p_name p)")
  case None
  then show ?thesis by (simp add: visit_missing)
next
  case (Some b)
  assume "ctl_inv c"
  with Some have "cb_inv b" by (blast dest: ctl_inv_breaker)
  from visit_snd[OF Some this, of q a] show ?thesis by auto
qed

lemma sig_cascade: "ctl_inv c \<Longrightarrow> stack_sig (snd (cascade q env ps errs c)) = stack_sig c"
proof (induction q env ps errs c rule: cascade.induct)
  case (2 q env p ps errs c)
  obtain v c' where v: "visit_provider q (env (p_name p)) p c = (v, c')" by fastforce
  with visit_inv[OF 2(3), of q "env (p_name p)" p] sig_visit[OF 2(3), of q "env (p_name p)" p]
  have c': "ctl_inv c'" "stack_sig c' = stack_sig c" by simp_all
  show ?case using 2(1,2)[OF v[symmetric]] c' v by (cases v) auto
qed simp

lemma sig_details: "stack_sig (snd (first_details ok det ps c)) = stack_sig c \<and>
    (ctl_inv c \<longrightarrow> ctl_inv (snd (first_details ok det ps c)))"
proof (induction ps arbitrary: c)
  case (Cons p ps)
  from Cons[of "mark_connected (p_name p) c"] Cons[of c] ctl_inv_mark[of c "p_name p"]
  show ?case by (auto simp: Let_def split: option.split list.split)
qed simp

lemma sig_status: "stack_sig (snd (list_status_loop now ps c)) = stack_sig c"
  by (induction ps arbitrary: c) (auto simp: Let_def split: option.split sum.split prod.split, (metis snd_conv sig_set_breaker)+)

lemma sig_test: "stack_sig (snd (test_loop env ps acc c)) = stack_sig c"
  by (induction ps arbitrary: c acc) (auto simp: Let_def split: option.splits)

lemma through_controller:
  "fst (snd (get_quote_through env sm exch src wc ed pin c)) =
     snd (fetch_quote \<lparr>q_source = src, q_exclude_delayed = ed, q_exchange = (if pin then Some exch else None)\<rparr>
            (env (canonical_symbol sm)) c)"
  by (simp add: get_quote_through_def Let_def split: prod.split sum.split fetch_error.split)

text \<open>Every state of the shared controller behind the service.\<close>

inductive svc_reach :: "cb_settings \<Rightarrow> source_flags \<Rightarrow> controller \<Rightarrow> bool" for cfg f where
  built: "svc_reach cfg f (build_controller cfg f res)"
| quoted: "svc_reach cfg f c \<Longrightarrow> svc_reach cfg f (fst (snd (get_quote_through env sm exch src wc ed pin c)))"
| toggled: "svc_reach cfg f c \<Longrightarrow> svc_reach cfg f (snd (set_enabled n v c))"
| listed: "svc_reach cfg f c \<Longrightarrow> svc_reach cfg f (snd (list_status now c))"
| tested: "svc_reach cfg f c \<Longrightarrow> svc_reach cfg f (snd (test_provider n (tenv :: string \<Rightarrow> tick attempt) c))"
| snapped: "svc_reach cfg f c \<Longrightarrow> svc_reach cfg f (snd (get_all_snapshot (snap :: string \<Rightarrow> dict list) exch c))"
| depth: "svc_reach cfg f c \<Longrightarrow> svc_reach cfg f (snd (get_depth ok (d :: dict option option) c))"
| details: "svc_reach cfg f c \<Longrightarrow> svc_reach cfg f (snd (get_details dok det sm src c))"

lemma sig_register:
  "mset (stack_sig (register_provider cfg p c)) = add_mset (provider_sig p) (mset (stack_sig c))"
  by (simp add: stack_sig_def register_provider_def)

lemma registered:
  assumes "cfg_ok cfg" "ctl_inv c"
  shows "ctl_inv (foldl (\<lambda>c p. register_provider cfg p c) c ps) \<and>
    mset (stack_sig (foldl (\<lambda>c p. register_provider cfg p c) c ps)) = mset (stack_sig c) + mset (map provider_sig ps)"
  using assms(2)
proof (induction ps arbitrary: c)
  case (Cons p ps)
  from Cons.IH[OF ctl_inv_register[OF assms(1) Cons.prems]] show ?case by (simp add: sig_register)
qed simp

lemma svc_inv:
  assumes "svc_reach cfg f c" "cfg_ok cfg"
  shows "ctl_inv c \<and> mset (stack_sig c) = mset (map provider_sig (service_providers f))"
  using assms(1)
proof induction
  case (built res)
  have "stack_sig new_controller = []" by (simp add: stack_sig_def new_controller_def)
  with registered[OF assms(2), of new_controller "service_providers f"] show ?case
    by (simp add: build_controller_def connect_all_inv)
next
  case (quoted c env sm exch src wc ed pin)
  then show ?case unfolding through_controller fetch_quote_def by (simp add: sig_cascade cascade_inv)
next
  case (toggled c n v)
  then show ?case by (simp add: set_enabled_def Let_def)
next
  case (listed c now)
  then show ?case by (simp add: list_status_def sig_status list_status_inv)
next
  case (tested c n tenv)
  have "ctl_inv (snd (test_loop tenv ps [] c)) \<and> stack_sig (snd (test_loop tenv ps [] c)) = stack_sig c" for ps
    using tested by (simp add: sig_test test_loop_inv)
  with tested show ?case by (auto simp: test_provider_def Let_def split: option.split prod.split) (metis snd_conv)+
next
  case (snapped c snap exch)
  then show ?case by (simp add: get_all_snapshot_def Let_def sig_marks ctl_inv_marks)
next
  case (depth c ok d)
  then show ?case by (auto simp: get_depth_def ctl_inv_mark split: list.split)
next
  case (details c dok det sm src)
  then show ?case by (simp add: get_details_def sig_details)
qed

definition cascade_order :: "string list" where
  "cascade_order = [''groww'', ''nse_live'', ''nse_scraper'', ''bse_scraper'', ''bse_live'', ''nse_archive'', ''bse_archive'', ''yahoo_finance'']"

lemma svc_keys:
  assumes "svc_reach cfg f c" "cfg_ok cfg"
  shows "map provider_key (providers c) = sort (map provider_key (service_providers f))"
proof -
  define key where "key = (\<lambda>s :: string \<times> int \<times> int \<times> bool \<times> string.
     (if fst (snd (snd s)) = 0 then fst (snd s) * 10 else fst (snd (snd s)), fst s))"
  have key: "provider_key = key \<circ> provider_sig"
    by (rule ext) (simp add: key_def provider_sig_def provider_key_def provider_rank_def)
  from svc_inv[OF assms] have m: "mset (stack_sig c) = mset (map provider_sig (service_providers f))"
    and s: "sorted (map provider_key (providers c))" by (simp_all add: ctl_inv_def)
  from arg_cong[OF m, of "image_mset key"]
  have "mset (map provider_key (providers c)) = mset (map provider_key (service_providers f))"
    by (simp add: stack_sig_def key flip: mset_map)
  with s show ?thesis by (metis properties_for_sort)
qed

lemma service_sort:
  "map snd (sort (map provider_key (service_providers f))) =
     filter (\<lambda>n. n \<in> p_name ` set (service_providers f)) cascade_order"
  by (cases "sf_nse f"; cases "sf_bse f"; cases "sf_yahoo f"; cases "sf_proxies f")
    (simp_all add: service_providers_def provider_key_def provider_rank_def provider_metas new_provider_def
      cascade_order_def less_list_code less_eq_list_code)

text \<open>Whatever the service has done since it was built, the shared controller tries its providers in one fixed
  order: the public Groww feed, the other NSE feeds, the BSE feeds, the archives, and the delayed Yahoo feed last, as far as
  the settings registered them; and each has a circuit breaker in a legal state.\<close>
theorem service_cascade_order:
  assumes "svc_reach cfg f c" "cfg_ok cfg"
  shows "map p_name (providers c) = filter (\<lambda>n. n \<in> p_name ` set (service_providers f)) cascade_order \<and>
    (\<forall>p\<in>set (providers c). \<exists>b. breakers c (p_name p) = Some b \<and> cb_inv b)"
proof -
  have "map p_name (providers c) = map snd (map provider_key (providers c))"
    by (simp add: provider_key_def)
  also have "\<dots> = filter (\<lambda>n. n \<in> p_name ` set (service_providers f)) cascade_order"
    by (simp only: svc_keys[OF assms] service_sort)
  finally show ?thesis using svc_inv[OF assms] unfolding ctl_inv_def by blast
qed

definition all_sources :: source_flags where
  "all_sources = \<lparr>sf_nse = True, sf_bse = True, sf_yahoo = True, sf_proxies = False\<rparr>"

definition demo_service :: controller where
  "demo_service = snd (set_enabled ''yahoo'' False (build_controller default_cb_settings all_sources (\<lambda>_. None)))"

lemma demo_service_reach: "svc_reach default_cb_settings all_sources demo_service"
  unfolding demo_service_def by (intro svc_reach.intros)

lemma default_cfg_ok: "cfg_ok default_cb_settings"
  by (simp add: cfg_ok_def default_cb_settings_def)

theorem service_cascade_order_witness:
  "map p_name (providers demo_service) =
     [''groww'', ''nse_live'', ''bse_scraper'', ''bse_live'', ''nse_archive'', ''bse_archive'', ''yahoo_finance'']"
  using service_cascade_order[OF demo_service_reach default_cfg_ok]
  by (simp add: service_providers_def all_sources_def provider_metas new_provider_def cascade_order_def)

lemma sig_member:
  assumes "mset (stack_sig c) = mset (map provider_sig ps)" "p \<in> set (providers c)"
  shows "\<exists>p'\<in>set ps. provider_sig p = provider_sig p'"
proof -
  have "provider_sig p \<in> set (stack_sig c)" using assms(2) by (simp add: stack_sig_def)
  then have "provider_sig p \<in> set (map provider_sig ps)" using assms(1) by (metis mset_eq_setD)
  then show ?thesis by auto
qed

lemma service_names_distinct:
  assumes "svc_reach cfg f c" "cfg_ok cfg" shows "distinct (map p_name (providers c))"
proof -
  have "map p_name (providers c) = map snd (map provider_key (providers c))"
    by (simp add: provider_key_def)
  also have "\<dots> = filter (\<lambda>n. n \<in> p_name ` set (service_providers f)) cascade_order"
    by (simp only: svc_keys[OF assms] service_sort)
  finally show ?thesis by (simp add: cascade_order_def)
qed

lemma through_Got:
  assumes "get_quote_through env sm exch src wc ed pin c = (Quote (Some t), c', j)"
  shows "fst (fetch_quote \<lparr>q_source = src, q_exclude_delayed = ed, q_exchange = (if pin then Some exch else None)\<rparr>
            (env (canonical_symbol sm)) c) = Inr t \<and> j = (if wc then Some t else None)"
  using assms by (auto simp: get_quote_through_def Let_def split: prod.splits sum.splits fetch_error.splits)

text \<open>A tick the service returns was fetched, for the canonical symbol, by a registered provider that the request admits.\<close>

lemma through_admissible:
  assumes "svc_reach cfg f c" "cfg_ok cfg"
    and "get_quote_through env sm exch src wc ed pin c = (Quote (Some t), c', j)"
  shows "\<exists>p\<in>set (providers c). \<exists>p'\<in>set (service_providers f). provider_sig p = provider_sig p' \<and>
    admissible \<lparr>q_source = src, q_exclude_delayed = ed, q_exchange = (if pin then Some exch else None)\<rparr> c p \<and>
    at_outcome (env (canonical_symbol sm) (p_name p)) = Returned t"
proof -
  let ?q = "\<lparr>q_source = src, q_exclude_delayed = ed, q_exchange = (if pin then Some exch else None)\<rparr>"
  have inv: "ctl_inv c" "mset (stack_sig c) = mset (map provider_sig (service_providers f))"
    using svc_inv[OF assms(1,2)] by auto
  have "cascade_spec ?q (env (canonical_symbol sm)) c (providers c) [] = Inr t"
    using cascade_result[OF inv(1) service_names_distinct[OF assms(1,2)], of ?q "env (canonical_symbol sm)" "[]"] through_Got[OF assms(3)]
    by (simp add: fetch_quote_def)
  from cascade_spec_Got[OF this] obtain xs p ys where split: "providers c = xs @ p # ys"
    and got_p: "verdict ?q (env (canonical_symbol sm)) c p = Got t" by blast
  from verdict_Got[OF got_p] have v: "admissible ?q c p" "at_outcome (env (canonical_symbol sm) (p_name p)) = Returned t" by auto
  from split obtain p' where "p' \<in> set (service_providers f)" "provider_sig p = provider_sig p'"
    using sig_member[OF inv(2), of p] by auto
  with v split show ?thesis by (intro bexI[of _ p] bexI[of _ p']) auto
qed

lemma through_provider:
  assumes "svc_reach cfg f c" "cfg_ok cfg"
    and "get_quote_through env sm exch src wc ed pin c = (Quote (Some t), c', j)"
  shows "\<exists>p\<in>set (service_providers f). at_outcome (env (canonical_symbol sm) (p_name p)) = Returned t \<and>
     (ed \<and> src = None \<longrightarrow> \<not> p_delayed p)"
  using through_admissible[OF assms] by (auto simp: provider_sig_def admissible_def forced_def truthy_def)

text \<open>A pinned live read of the shipped stack stays on its venue and off the delayed feed: a tick it returns was
  fetched, for the canonical symbol, by an enabled registered provider of exactly the requested exchange
  that is not delayed, and the background cache write carries that same tick.\<close>
theorem pinned_quote_real_venue:
  assumes "svc_reach cfg f c" "cfg_ok cfg" "exch \<noteq> []"
    and "get_quote_through env sm exch None wc True True c = (Quote (Some t), c', j)"
  shows "\<exists>p\<in>set (service_providers f). at_outcome (env (canonical_symbol sm) (p_name p)) = Returned t \<and>
     p_exchange p = exch \<and> \<not> p_delayed p \<and> p_name p \<noteq> ''yahoo_finance'' \<and> is_enabled (p_name p) c \<and>
     (j = Some t \<or> \<not> wc)"
proof -
  from through_admissible[OF assms(1,2,4)] obtain p p' where p': "p' \<in> set (service_providers f)" "provider_sig p = provider_sig p'"
    and v: "admissible \<lparr>q_source = None, q_exclude_delayed = True, q_exchange = Some exch\<rparr> c p"
      "at_outcome (env (canonical_symbol sm) (p_name p)) = Returned t" by auto
  have yahoo: "p_name p' = ''yahoo_finance'' \<Longrightarrow> p_delayed p'"
    using p'(1) by (auto simp: service_providers_def provider_metas new_provider_def split: if_splits)
  show ?thesis
    using p' v assms(3) yahoo through_Got[OF assms(4)]
    by (intro bexI[OF _ p'(1)]) (auto simp: provider_sig_def admissible_def forced_def truthy_def)
qed

definition nse_only :: source_flags where
  "nse_only = \<lparr>sf_nse = True, sf_bse = False, sf_yahoo = False, sf_proxies = False\<rparr>"

definition nse_service :: controller where
  "nse_service = build_controller default_cb_settings nse_only (\<lambda>_. None)"

lemma nse_service_reach: "svc_reach default_cb_settings nse_only nse_service"
  unfolding nse_service_def by (rule svc_reach.built)

lemma nse_service_eq:
  "providers nse_service = map (\<lambda>p. p\<lparr>p_connected := True\<rparr>) [groww_meta, nse_live_meta, nse_archive_meta]"
  "breakers nse_service ''groww'' = Some (new_breaker default_cb_settings ''groww'' None None None)"
  "enabled nse_service ''groww'' = Some True"
  by (simp_all add: nse_service_def build_controller_def nse_only_def service_providers_def connect_all_def
      register_provider_def new_controller_def provider_metas new_provider_def provider_key_def provider_rank_def
      less_list_code less_eq_list_code)

lemma nse_demo_quote:
  "fst (get_quote_through (\<lambda>_ _. demo_attempt True (Returned demo_sb_tick)) ''tcs'' ''NSE'' None True True True nse_service) =
     Quote (Some demo_sb_tick)"
  by (simp add: get_quote_through_def fetch_quote_def nse_service_eq demo_fetch_simps)

theorem pinned_quote_real_venue_witness:
  "\<exists>p\<in>set (service_providers nse_only). p_exchange p = ''NSE'' \<and> \<not> p_delayed p \<and> is_enabled (p_name p) nse_service"
proof -
  obtain c' j where "get_quote_through (\<lambda>_ _. demo_attempt True (Returned demo_sb_tick)) ''tcs'' ''NSE'' None True True True
      nse_service = (Quote (Some demo_sb_tick), c', j)"
    using nse_demo_quote by (metis prod.collapse)
  from pinned_quote_real_venue[OF nse_service_reach default_cfg_ok _ this] show ?thesis by auto
qed

text \<open>Without the pin the requested exchange is not consulted: a BSE request is answered by the first NSE feed.\<close>

lemma unpinned_exchange_ignored:
  "get_quote_through env sm exch1 src wc ed False c = get_quote_through env sm exch2 src wc ed False c"
  by (simp add: get_quote_through_def)

lemma bse_request_gets_nse_tick:
  "fst (get_quote_through (\<lambda>_ _. demo_attempt True (Returned demo_sb_tick)) ''tcs'' ''BSE'' None True True False nse_service) =
     Quote (Some demo_sb_tick) \<and> tk_exchange demo_sb_tick = ''NSE''"
  by (simp add: get_quote_through_def fetch_quote_def nse_service_eq demo_fetch_simps demo_sb_tick_def)

section \<open>The shared curve\<close>

definition curve_ok :: "'p curve_cache \<Rightarrow> bool" where
  "curve_ok cache \<longleftrightarrow> (\<forall>k t xs. cache k = Some (t, xs) \<longrightarrow> xs \<noteq> [])"

lemma try_curve_nonempty: "try_curve ts = Some (xs, t) \<Longrightarrow> xs \<noteq> []"
  by (induction ts rule: try_curve.induct) (auto split: if_splits)

lemma curve_key_canonical: "curve_key (canonical_symbol sm) flag = curve_key sm flag"
  by (simp add: curve_key_def)

text \<open>The BSE curve is fetched once for everyone: a call that answers leaves its points in the cache under the
  canonical symbol, every call for that symbol within 45 seconds of their arrival is served from there
  whatever the feed would do, an empty answer is never cached, and once a symbol has points no failure of
  the feed makes a call come back empty-handed.\<close>
theorem intraday_curve_shared:
  assumes "curve_ok cache" "get_intraday_series has_bse t1 t2 sm flag now cache = (r, cache')"
  shows "curve_ok cache' \<and>
    (\<forall>xs. r = Some xs \<longrightarrow> xs \<noteq> [] \<and> (\<exists>t. cache' (curve_key sm flag) = Some (t, xs) \<and>
       (\<forall>later has u1 u2. later - t < intraday_ttl \<longrightarrow>
          get_intraday_series has u1 u2 (canonical_symbol sm) flag later cache' = (Some xs, cache')))) \<and>
    (r = None \<longrightarrow> cache (curve_key sm flag) = None \<and> cache' = cache)"
proof (cases "case cache (curve_key sm flag) of None \<Rightarrow> False | Some (t, xs) \<Rightarrow> now - t < intraday_ttl \<and> xs \<noteq> []")
  case True
  with assms show ?thesis
    by (auto simp: get_intraday_series_def Let_def curve_key_canonical curve_ok_def split: option.splits)
next
  case False
  have fresh: "get_intraday_series has u1 u2 (canonical_symbol sm) flag later cache' = (Some xs, cache')"
    if "cache' (curve_key sm flag) = Some (t, xs)" "xs \<noteq> []" "later - t < intraday_ttl" for has u1 u2 later t xs
    using that by (simp add: get_intraday_series_def Let_def curve_key_canonical)
  show ?thesis
  proof (cases "if has_bse then try_curve [t1, t2] else None")
    case None
    have "get_intraday_series has_bse t1 t2 sm flag now cache = (map_option snd (cache (curve_key sm flag)), cache)"
      unfolding get_intraday_series_def Let_def None using False by (simp only: if_False option.case)
    with assms(2) have "r = map_option snd (cache (curve_key sm flag))" "cache' = cache" by auto
    with assms(1) fresh show ?thesis by (fastforce simp: curve_ok_def)
  next
    case (Some e)
    obtain xs t where e: "e = (xs, t)" by fastforce
    have ne: "xs \<noteq> []" using Some e by (intro try_curve_nonempty[of "[t1, t2]" xs t]) (simp split: if_splits)
    have "get_intraday_series has_bse t1 t2 sm flag now cache = (Some xs, cache(curve_key sm flag \<mapsto> (t, xs)))"
      unfolding get_intraday_series_def Let_def Some e using False by (simp only: if_False option.case prod.case)
    with assms(2) have "r = Some xs" "cache' = cache(curve_key sm flag \<mapsto> (t, xs))" by auto
    with assms(1) ne fresh show ?thesis by (auto simp: curve_ok_def)
  qed
qed

theorem intraday_curve_shared_witness:
  "curve_ok ([''TCS:0'' \<mapsto> (9, [7::nat])])"
proof -
  have key: "curve_key ''TCS'' ''0'' = ''TCS:0''" by code_simp
  have "get_intraday_series True (CurveGot [] 3) (CurveGot [7::nat] 9) ''TCS'' ''0'' 0 Map.empty =
      (Some [7], [''TCS:0'' \<mapsto> (9, [7])])"
    by (simp add: get_intraday_series_def key)
  from intraday_curve_shared[OF _ this] show ?thesis by (simp add: curve_ok_def)
qed

end
