(* ===== verification/Archives.thy ===== *)
theory Archives
  imports Feeds IsoTime "HOL-Library.List_Lexorder"
begin

text \<open>
  The end-of-day files: \<^verbatim>\<open>src/providers/nse_archive.py\<close>, \<^verbatim>\<open>bse_master.py\<close> and \<^verbatim>\<open>bse_archive.py\<close>. A downloaded
  file is the list of its CSV records (header and field texts); the theory Csv reads it from
  the text of the download, here \<open>file n\<close> is the answer for the day \<open>n\<close> days ago, \<open>None\<close> for a failure or a page.
\<close>

section \<open>Rows\<close>

type_synonym row = "(string \<times> string) list"
type_synonym rows = "(string \<times> row) list"

definition row_get :: "row \<Rightarrow> string \<Rightarrow> string" where
  "row_get r k = (case map_of r k of None \<Rightarrow> [] | Some v \<Rightarrow> v)"

definition row_dec :: "row \<Rightarrow> string \<Rightarrow> rat" where
  "row_dec r k = dec_value (VStr (row_get r k))"

definition clean_row :: "row \<Rightarrow> row" where
  "clean_row r = foldl (\<lambda>d (k, v). dput (strip k) (strip v) d) [] r"

definition nse_series :: "string list" where
  "nse_series = [''EQ'', ''BE'', ''BZ'', ''SM'', ''ST'']"

definition keep_series :: "string list" where
  "keep_series = [''A'', ''B'', ''T'', ''X'', ''XT'', ''M'', ''MT'', ''P'', ''Z'', ''ZP'', ''W'']"

text \<open>\<^verbatim>\<open>_download\<close> of the NSE file: the last row of a symbol counts; of the BSE file: the first.\<close>

definition nse_rows :: "row list \<Rightarrow> rows" where
  "nse_rows raw =
     foldl (\<lambda>out x. let r = clean_row x; s = row_get r ''SYMBOL''
                    in if s \<noteq> [] \<and> row_get r ''SERIES'' \<in> set nse_series then dput (upper s) r out else out) [] raw"

definition bse_rows :: "row list \<Rightarrow> rows" where
  "bse_rows raw =
     foldl (\<lambda>out x. let r = clean_row x; s = upper (row_get r ''TckrSymb''); ser = strip (row_get r ''SctySrs'')
                    in if s \<noteq> [] \<and> strip (row_get r ''FinInstrmTp'') = ''STK'' \<and> (ser \<in> set keep_series \<or> ser = []) \<and>
                          s \<notin> fst ` set out
                       then dput s r out else out) [] raw"

section \<open>Loading\<close>

record archive =
  ar_rows :: rows
  ar_date :: "string option"
  ar_loaded :: secs
  ar_attempt :: secs

definition new_archive :: archive where
  "new_archive = \<lparr>ar_rows = [], ar_date = None, ar_loaded = 0, ar_attempt = 0\<rparr>"

text \<open>The walk back over eight days. \<open>date n\<close> is the stamp of the day \<open>n\<close> days ago; the last component counts the downloads.\<close>

fun nse_walk :: "(nat \<Rightarrow> string) \<Rightarrow> (nat \<Rightarrow> row list option) \<Rightarrow> secs \<Rightarrow> nat list \<Rightarrow> archive \<Rightarrow> archive \<times> nat" where
  "nse_walk date file tm [] a = (a, 0)"
| "nse_walk date file tm (n # ns) a =
     (if Some (date n) = ar_date a \<and> ar_rows a \<noteq> [] then (a, 0)
      else (let rows = (case file n of None \<Rightarrow> [] | Some raw \<Rightarrow> nse_rows raw)
            in if rows \<noteq> [] then (a\<lparr>ar_rows := rows, ar_date := Some (date n), ar_loaded := tm\<rparr>, 1)
               else (case nse_walk date file tm ns a of (a', k) \<Rightarrow> (a', k + 1))))"

definition nse_ensure_loaded :: "secs \<Rightarrow> (nat \<Rightarrow> string) \<Rightarrow> (nat \<Rightarrow> row list option) \<Rightarrow> secs \<Rightarrow> archive \<Rightarrow> archive \<times> nat" where
  "nse_ensure_loaded now date file tm a =
     (if ar_rows a \<noteq> [] \<and> now - ar_loaded a < 3600 then (a, 0)
      else if ar_rows a = [] \<and> now - ar_attempt a < 120 then (a, 0)
      else nse_walk date file tm [0..<8] (a\<lparr>ar_attempt := now\<rparr>))"

fun bse_walk :: "(nat \<Rightarrow> string) \<Rightarrow> (nat \<Rightarrow> row list option) \<Rightarrow> secs \<Rightarrow> nat list \<Rightarrow> archive \<Rightarrow> archive \<times> nat" where
  "bse_walk date file tm [] a = (a, 0)"
| "bse_walk date file tm (n # ns) a =
     (let rows = (case file n of None \<Rightarrow> [] | Some raw \<Rightarrow> bse_rows raw)
      in if rows \<noteq> [] then (a\<lparr>ar_rows := rows, ar_date := Some (date n), ar_loaded := tm\<rparr>, 1)
         else (case bse_walk date file tm ns a of (a', k) \<Rightarrow> (a', k + 1)))"

definition bse_ensure_loaded :: "secs \<Rightarrow> (nat \<Rightarrow> string) \<Rightarrow> (nat \<Rightarrow> row list option) \<Rightarrow> secs \<Rightarrow> archive \<Rightarrow> archive \<times> nat" where
  "bse_ensure_loaded now date file tm a =
     (if ar_rows a \<noteq> [] \<and> now - ar_loaded a < 3600 then (a, 0)
      else if ar_rows a = [] \<and> now - ar_attempt a < 120 then (a, 0)
      else bse_walk date file tm [0..<8] (a\<lparr>ar_attempt := now\<rparr>))"

definition row_for :: "archive \<Rightarrow> string \<Rightarrow> row option" where
  "row_for a sm = map_of (ar_rows a) (upper sm)"

definition code_for :: "archive \<Rightarrow> string \<Rightarrow> string option" where
  "code_for a sm = (case row_for a sm of None \<Rightarrow> None | Some [] \<Rightarrow> None | Some r \<Rightarrow> map_of r ''FinInstrmId'')"

definition isin_for :: "archive \<Rightarrow> string \<Rightarrow> string option" where
  "isin_for a sm =
     (let r = (case row_for a sm of None \<Rightarrow> [] | Some r \<Rightarrow> r);
          i = (if row_get r ''ISIN'' \<noteq> [] then row_get r ''ISIN'' else row_get r ''ISINNo'')
      in if i = [] then None else Some i)"

definition universe :: "archive \<Rightarrow> string list" where
  "universe a = sort (map fst (ar_rows a))"

section \<open>Quotes from the files\<close>

definition nse_archive_parse :: "row \<Rightarrow> string \<Rightarrow> datetime \<Rightarrow> call_exn + tick" where
  "nse_archive_parse r sm now =
     (let d = row_dec r; close = d ''CLOSE_PRICE''; last = dec_or (d ''LAST_PRICE'') close; prev = d ''PREV_CLOSE'';
          turnover = d ''TURNOVER_LACS''; change = (if prev > 0 then close - prev else 0);
          pct = (if prev > 0 then py_round 2 (change / prev * 100) else 0); ltp = pos_or close last
      in validated (feed_tick (upper sm) ''NSE'' (Some (if row_get r ''SERIES'' = [] then ''EQ'' else row_get r ''SERIES''))
           ltp (pos_or (d ''OPEN_PRICE'') ltp) (pos_or (d ''HIGH_PRICE'') ltp) (pos_or (d ''LOW_PRICE'') ltp) prev
           (py_trunc (d ''TTL_TRD_QNTY'')) now ''nse_archive'' 0
           \<lparr>tk_pct_change := pct, tk_value := (if turnover > 0 then Some (turnover * 100000) else None),
            tk_vwap := pos_opt (d ''AVG_PRICE'')\<rparr>) change)"

definition bse_archive_parse :: "row \<Rightarrow> string \<Rightarrow> datetime \<Rightarrow> call_exn + tick" where
  "bse_archive_parse r sm now =
     (let d = row_dec r; close = d ''ClsPric''; last = dec_or (d ''LastPric'') close; prev = d ''PrvsClsgPric'';
          ltp = pos_or close last; change = (if prev > 0 then ltp - prev else 0);
          pct = (if prev > 0 then py_round 2 (change / prev * 100) else 0)
      in validated (feed_tick (upper sm) ''BSE'' (Some (if row_get r ''SctySrs'' = [] then ''A'' else row_get r ''SctySrs''))
           ltp (pos_or (d ''OpnPric'') ltp) (pos_or (d ''HghPric'') ltp) (pos_or (d ''LwPric'') ltp) prev
           (py_trunc (d ''TtlTradgVol'')) now ''bse_archive'' 0
           \<lparr>tk_isin := (if row_get r ''ISIN'' = [] then None else Some (row_get r ''ISIN'')), tk_pct_change := pct,
            tk_value := dec_opt (d ''TtlTrfVal'')\<rparr>) change)"

text \<open>\<^verbatim>\<open>fetch_quote\<close> on the loaded file; an exception of \<^verbatim>\<open>_parse\<close> is not caught here.\<close>

definition nse_archive_fetch :: "archive \<Rightarrow> string \<Rightarrow> rat \<Rightarrow> datetime \<Rightarrow> fetched" where
  "nse_archive_fetch a sm lat now =
     (case row_for a sm of None \<Rightarrow> (Inl (ProviderError ''not in NSE bhavcopy''), [None])
      | Some [] \<Rightarrow> (Inl (ProviderError ''not in NSE bhavcopy''), [None])
      | Some r \<Rightarrow> (case nse_archive_parse r sm now of Inr t \<Rightarrow> (Inr t, [Some lat]) | Inl e \<Rightarrow> (Inl e, [])))"

definition bse_archive_fetch :: "archive \<Rightarrow> string \<Rightarrow> datetime \<Rightarrow> fetched" where
  "bse_archive_fetch a sm now =
     (case row_for a sm of None \<Rightarrow> (Inl (ProviderError ''not in BSE bhavcopy''), [None])
      | Some [] \<Rightarrow> (Inl (ProviderError ''not in BSE bhavcopy''), [None])
      | Some r \<Rightarrow> (bse_archive_parse r sm now, [Some 0]))"

text \<open>\<^verbatim>\<open>fetch_bulk\<close>, with the metrics: a symbol without a row is passed over, a row that does not parse is an error.\<close>

definition archive_bulk :: "(row \<Rightarrow> string \<Rightarrow> call_exn + tick) \<Rightarrow> archive \<Rightarrow> string list \<Rightarrow> tick list \<times> rat option list" where
  "archive_bulk parse a syms =
     (let hits = List.map_filter (\<lambda>s. case row_for a s of None \<Rightarrow> None | Some [] \<Rightarrow> None | Some r \<Rightarrow> Some (parse r s)) syms
      in (List.map_filter (\<lambda>x. case x of Inr t \<Rightarrow> Some t | Inl _ \<Rightarrow> None) hits,
          map (\<lambda>x. case x of Inr t \<Rightarrow> Some 0 | Inl _ \<Rightarrow> None) hits))"

definition nse_archive_bulk :: "archive \<Rightarrow> datetime \<Rightarrow> string list \<Rightarrow> tick list \<times> rat option list" where
  "nse_archive_bulk a now syms = archive_bulk (\<lambda>r s. nse_archive_parse r s now) a syms"

definition archive_health :: "archive option \<Rightarrow> bool" where
  "archive_health loaded = (case loaded of None \<Rightarrow> False | Some a \<Rightarrow> ar_rows a \<noteq> [])"

definition nse_snapshot_row :: "string \<times> row \<Rightarrow> dict" where
  "nse_snapshot_row p =
     (let r = snd p; d = row_dec r; close = d ''CLOSE_PRICE''; prev = d ''PREV_CLOSE'';
          chg = (if prev > 0 then close - prev else 0); lacs = d ''TURNOVER_LACS''
      in [(''symbol'', VStr (fst p)), (''exchange'', VStr ''NSE''), (''series'', VStr (row_get r ''SERIES'')), (''ltp'', VNum close),
          (''open'', VNum (d ''OPEN_PRICE'')), (''high'', VNum (d ''HIGH_PRICE'')), (''low'', VNum (d ''LOW_PRICE'')),
          (''prev_close'', VNum prev), (''change'', VNum (py_round 2 chg)),
          (''pct_change'', if prev > 0 then VNum (py_round 2 (chg / prev * 100)) else VInt 0),
          (''volume'', VInt (py_trunc (d ''TTL_TRD_QNTY''))), (''vwap'', VNum (d ''AVG_PRICE'')),
          (''value_cr'', if lacs > 0 then VNum (py_round 2 (lacs / 100)) else VInt 0), (''trades'', VInt (py_trunc (d ''NO_OF_TRADES''))),
          (''delivery_qty'', if d ''DELIV_QTY'' > 0 then VInt (py_trunc (d ''DELIV_QTY'')) else VNone),
          (''delivery_pct'', case map_of r ''DELIV_PER'' of None \<Rightarrow> VNone | Some s \<Rightarrow> VStr s),
          (''live'', VBool False), (''source'', VStr ''nse_archive'')])"

definition nse_snapshot :: "archive \<Rightarrow> dict list" where
  "nse_snapshot a = map nse_snapshot_row (ar_rows a)"

definition opt_text :: "row \<Rightarrow> string \<Rightarrow> val" where
  "opt_text r k = (case map_of r k of None \<Rightarrow> VNone | Some s \<Rightarrow> VStr s)"

definition bse_snapshot_row :: "archive \<Rightarrow> string \<Rightarrow> dict" where
  "bse_snapshot_row a sm =
     (let r = (case row_for a sm of None \<Rightarrow> [] | Some r \<Rightarrow> r); d = row_dec r; close = d ''ClsPric''; prev = d ''PrvsClsgPric'';
          chg = (if prev > 0 then close - prev else 0)
      in [(''symbol'', VStr sm), (''exchange'', VStr ''BSE''), (''scrip_code'', opt_text r ''FinInstrmId''), (''ltp'', VNum close),
          (''open'', VNum (d ''OpnPric'')), (''high'', VNum (d ''HghPric'')), (''low'', VNum (d ''LwPric'')), (''prev_close'', VNum prev),
          (''change'', VNum chg), (''pct_change'', if prev > 0 then VNum (py_round 2 (chg / prev * 100)) else VInt 0),
          (''volume'', VInt (py_trunc (d ''TtlTradgVol''))), (''isin'', opt_text r ''ISIN''), (''source'', VStr ''bse_archive'')])"

text \<open>The details of the NSE file; the two numbers the code prints stand as numbers.\<close>

definition nse_archive_details :: "archive \<Rightarrow> string \<Rightarrow> dict option" where
  "nse_archive_details a sm =
     (case row_for a sm of
        None \<Rightarrow> None
      | Some [] \<Rightarrow> None
      | Some r \<Rightarrow> Some
          [(''symbol'', VStr (upper sm)), (''name'', VStr (upper sm)), (''exchange'', VStr ''NSE''), (''source'', VStr ''nse_archive''),
           (''as_on'', opt_text r ''DATE1''),
           (''price'', VDict [(''ltp'', opt_text r ''CLOSE_PRICE''), (''change'', VNone), (''pct_change'', VNone), (''open'', opt_text r ''OPEN_PRICE''),
              (''high'', opt_text r ''HIGH_PRICE''), (''low'', opt_text r ''LOW_PRICE''), (''prev_close'', opt_text r ''PREV_CLOSE''),
              (''vwap'', opt_text r ''AVG_PRICE'')]),
           (''range'', VDict [(''week_52_high'', VNone), (''week_52_low'', VNone), (''price_band'', VNone), (''circuit_filter'', VNone)]),
           (''traded'', VDict [(''ttq_lakh'', VNum (py_round 2 (of_int (py_trunc (row_dec r ''TTL_TRD_QNTY'')) / 100000))),
              (''turnover_cr'', VNum (py_round 2 (row_dec r ''TURNOVER_LACS'' / 100))), (''no_of_trades'', opt_text r ''NO_OF_TRADES''),
              (''delivery_qty'', opt_text r ''DELIV_QTY''), (''delivery_pct'', opt_text r ''DELIV_PER'')]),
           (''fundamentals'', VDict [(''isin'', VNone), (''series'', opt_text r ''SERIES'')])])"

definition bse_snapshot :: "archive \<Rightarrow> dict list" where
  "bse_snapshot a = map (bse_snapshot_row a) (universe a)"

section \<open>The loaded rows\<close>

text \<open>Every row is filed under its own symbol, once; \<open>key\<close> reads the symbol of a row.\<close>

definition filed :: "(row \<Rightarrow> string) \<Rightarrow> rows \<Rightarrow> bool" where
  "filed key rs \<longleftrightarrow> distinct (map fst rs) \<and> (\<forall>(s, r)\<in>set rs. s = upper (key r) \<and> s \<noteq> [])"

lemma dput_set: "set (dput k v d) \<subseteq> insert (k, v) (set d)"
  by (induction k v d rule: dput.induct) auto

lemma filed_dput: "filed key rs \<Longrightarrow> s = upper (key r) \<Longrightarrow> s \<noteq> [] \<Longrightarrow> filed key (dput s r rs)"
  using dput_set[of s r rs] by (fastforce simp: filed_def intro: distinct_dput)

lemma filed_fold:
  assumes "\<And>out x. filed key out \<Longrightarrow> filed key (step out x)"
  shows "filed key out \<Longrightarrow> filed key (foldl step out raw)"
  by (induction raw arbitrary: out) (auto intro: assms)

lemma upper_Nil [simp]: "upper s = [] \<longleftrightarrow> s = []"
  by (simp add: upper_def)

lemma filed_Nil [simp]: "filed key []"
  by (simp add: filed_def)

lemma nse_rows_filed: "filed (\<lambda>r. row_get r ''SYMBOL'') (nse_rows raw)"
  unfolding nse_rows_def by (rule filed_fold) (simp_all add: Let_def filed_dput)

lemma bse_rows_filed: "filed (\<lambda>r. row_get r ''TckrSymb'') (bse_rows raw)"
  unfolding bse_rows_def by (rule filed_fold) (simp_all add: Let_def filed_dput)

lemma nse_walk_filed:
  "filed (\<lambda>r. row_get r ''SYMBOL'') (ar_rows a) \<Longrightarrow> filed (\<lambda>r. row_get r ''SYMBOL'') (ar_rows (fst (nse_walk date file tm ns a)))"
  by (induction ns arbitrary: a) (simp_all add: Let_def nse_rows_filed split_beta split: option.split)

lemma bse_walk_filed:
  "filed (\<lambda>r. row_get r ''TckrSymb'') (ar_rows a) \<Longrightarrow> filed (\<lambda>r. row_get r ''TckrSymb'') (ar_rows (fst (bse_walk date file tm ns a)))"
  by (induction ns arbitrary: a) (simp_all add: Let_def bse_rows_filed split_beta split: option.split)

text \<open>The archives that a sequence of loads reaches.\<close>

inductive nse_reach :: "archive \<Rightarrow> bool" where
  start: "nse_reach new_archive"
| load: "nse_reach a \<Longrightarrow> nse_reach (fst (nse_ensure_loaded now date file tm a))"

inductive bse_reach :: "archive \<Rightarrow> bool" where
  start: "bse_reach new_archive"
| load: "bse_reach a \<Longrightarrow> bse_reach (fst (bse_ensure_loaded now date file tm a))"

lemma nse_reach_filed: "nse_reach a \<Longrightarrow> filed (\<lambda>r. row_get r ''SYMBOL'') (ar_rows a)"
  by (induction rule: nse_reach.induct) (simp_all add: new_archive_def nse_ensure_loaded_def nse_walk_filed)

lemma bse_reach_filed: "bse_reach a \<Longrightarrow> filed (\<lambda>r. row_get r ''TckrSymb'') (ar_rows a)"
  by (induction rule: bse_reach.induct) (simp_all add: new_archive_def bse_ensure_loaded_def bse_walk_filed)

lemma row_for_filed: "filed key (ar_rows a) \<Longrightarrow> row_for a sm = Some r \<Longrightarrow> (upper sm, r) \<in> set (ar_rows a) \<and> upper (key r) = upper sm"
  by (auto simp: filed_def row_for_def dest!: map_of_SomeD)

lemma nse_archive_parse_ok: "nse_archive_parse r sm now = Inr t \<Longrightarrow> feed_ok ''NSE'' ''nse_archive'' sm t"
  by (auto simp: nse_archive_parse_def Let_def feed_ok_def dest!: validated_ok)

lemma bse_archive_parse_ok: "bse_archive_parse r sm now = Inr t \<Longrightarrow> feed_ok ''BSE'' ''bse_archive'' sm t"
  by (auto simp: bse_archive_parse_def Let_def feed_ok_def dest!: validated_ok)

lemma nse_archive_fetch_ok: "fst (nse_archive_fetch a sm lat now) = Inr t \<Longrightarrow>
    feed_ok ''NSE'' ''nse_archive'' sm t \<and> (\<exists>r. row_for a sm = Some r \<and> nse_archive_parse r sm now = Inr t)"
  by (auto simp: nse_archive_fetch_def split: option.splits list.splits sum.splits dest: nse_archive_parse_ok)

lemma bse_archive_fetch_ok: "fst (bse_archive_fetch a sm now) = Inr t \<Longrightarrow>
    feed_ok ''BSE'' ''bse_archive'' sm t \<and> (\<exists>r. row_for a sm = Some r \<and> bse_archive_parse r sm now = Inr t)"
  by (auto simp: bse_archive_fetch_def split: option.splits list.splits dest: bse_archive_parse_ok)

text \<open>An end-of-day quote is of the symbol asked for: in every archive that loading reaches, a fetched tick is built
  from the row that the exchange's file has for that symbol, is valid, and names the file's exchange and provider.\<close>

theorem archive_quote_own_row:
  assumes "nse_reach a" "bse_reach b"
  shows "(fst (nse_archive_fetch a sm lat now) = Inr t \<longrightarrow> feed_ok ''NSE'' ''nse_archive'' sm t \<and>
      (\<exists>r. (upper sm, r) \<in> set (ar_rows a) \<and> upper (row_get r ''SYMBOL'') = upper sm \<and> nse_archive_parse r sm now = Inr t)) \<and>
    (fst (bse_archive_fetch b sm now) = Inr t \<longrightarrow> feed_ok ''BSE'' ''bse_archive'' sm t \<and>
      (\<exists>r. (upper sm, r) \<in> set (ar_rows b) \<and> upper (row_get r ''TckrSymb'') = upper sm \<and> bse_archive_parse r sm now = Inr t))"
  using nse_archive_fetch_ok[of a sm lat now t] bse_archive_fetch_ok[of b sm now t]
    row_for_filed[OF nse_reach_filed[OF assms(1)], of sm] row_for_filed[OF bse_reach_filed[OF assms(2)], of sm]
  by blast

definition demo_file :: "nat \<Rightarrow> row list option" where
  "demo_file n = (if n = 2 then Some [[(''SYMBOL'', ''TCS''), ('' SERIES'', '' EQ''), ('' CLOSE_PRICE'', ''3,000.5''), ('' PREV_CLOSE'', ''2900'')]] else None)"

definition demo_dates :: "nat \<Rightarrow> string" where
  "demo_dates n = nat_digits n"

definition demo_archive :: archive where
  "demo_archive = fst (nse_ensure_loaded 1000 demo_dates demo_file 1001 new_archive)"

lemma demo_rows: "nse_rows [[(''SYMBOL'', ''TCS''), ('' SERIES'', '' EQ''), ('' CLOSE_PRICE'', ''3,000.5''), ('' PREV_CLOSE'', ''2900'')]] =
    [(''TCS'', [(''SYMBOL'', ''TCS''), (''SERIES'', ''EQ''), (''CLOSE_PRICE'', ''3,000.5''), (''PREV_CLOSE'', ''2900'')])]"
  by code_simp

lemma demo_archive_eq: "demo_archive = \<lparr>ar_rows = [(''TCS'', [(''SYMBOL'', ''TCS''), (''SERIES'', ''EQ''), (''CLOSE_PRICE'', ''3,000.5''),
    (''PREV_CLOSE'', ''2900'')])], ar_date = Some (nat_digits 2), ar_loaded = 1001, ar_attempt = 1000\<rparr>"
proof -
  have "[0..<8] = [0, 1, 2, 3, 4, 5, 6, 7]" by (simp add: upt_rec)
  then show ?thesis
    by (simp add: demo_archive_def nse_ensure_loaded_def new_archive_def demo_file_def demo_dates_def demo_rows)
qed

theorem archive_quote_own_row_witness:
  "\<exists>t. fst (nse_archive_fetch demo_archive ''tcs'' 1 demo_instant) = Inr t \<and> tk_ltp t = 6001 / 2 \<and> feed_ok ''NSE'' ''nse_archive'' ''tcs'' t"
proof -
  have u: "upper ''tcs'' = ''TCS''" "normalize_symbol ''TCS'' = ''TCS''" by code_simp+
  have d: "dec_value (VStr ''3,000.5'') = 6001 / 2" "dec_value (VStr ''2900'') = 2900" "dec_value (VStr []) = 0" by code_simp+
  obtain t where t: "fst (nse_archive_fetch demo_archive ''tcs'' 1 demo_instant) = Inr t" "tk_ltp t = 6001 / 2"
    by (simp add: nse_archive_fetch_def demo_archive_eq row_for_def u nse_archive_parse_def Let_def validated_def make_tick_def
        feed_tick_def tick_ok_def opt_ge0_def compute_change_def pos_or_def pos_opt_def dec_or_def row_dec_def row_get_def d py_trunc_def
        del: dec_value.simps)
  have "nse_reach demo_archive" "bse_reach new_archive"
    unfolding demo_archive_def by (intro nse_reach.intros bse_reach.intros)+
  from archive_quote_own_row[OF this, of "''tcs''" 1 demo_instant t] t show ?thesis by blast
qed

text \<open>Loading on a day whose file is not out yet.\<close>

definition not_out :: "(nat \<Rightarrow> string) \<Rightarrow> (nat \<Rightarrow> row list option) \<Rightarrow> string \<Rightarrow> nat \<Rightarrow> bool" where
  "not_out date file d k \<longleftrightarrow> date k \<noteq> d \<and> (case file k of None \<Rightarrow> True | Some raw \<Rightarrow> nse_rows raw = [])"

lemma nse_walk_known:
  assumes "ar_rows a \<noteq> []" "ar_date a = Some (date j)" "list_all (not_out date file (date j)) ks"
  shows "nse_walk date file tm (ks @ j # ns) a = (a, length ks)"
  using assms by (induction ks) (auto simp: not_out_def Let_def split: option.splits)

text \<open>The loader's comment promises a refresh at most once an hour. While the newest file is still the one loaded, and
  its day is not today, the promise fails: once the file is an hour old, every single call downloads again for each day
  since, because the load time is not renewed when the walk arrives at the loaded day.\<close>

theorem nse_archive_rechecks:
  assumes "ar_rows a \<noteq> []" "ar_date a = Some (date j)" "j < 8" "list_all (not_out date file (date j)) [0..<j]"
    and "3600 \<le> now - ar_loaded a"
  shows "nse_ensure_loaded now date file tm a = (a\<lparr>ar_attempt := now\<rparr>, j) \<and>
    (now \<le> now' \<longrightarrow> snd (nse_ensure_loaded now' date file tm' (fst (nse_ensure_loaded now date file tm a))) = j)"
proof -
  have split: "[0..<8] = [0..<j] @ j # [Suc j..<8]"
    using assms(3) upt_add_eq_append[of 0 j "8 - j"] by (simp add: upt_conv_Cons)
  have walk: "nse_walk date file u [0..<8] (b\<lparr>ar_attempt := v\<rparr>) = (b\<lparr>ar_attempt := v\<rparr>, j)"
    if "ar_rows b \<noteq> []" "ar_date b = Some (date j)" for b u v
    using nse_walk_known[of "b\<lparr>ar_attempt := v\<rparr>" date j "file" "[0..<j]" u "[Suc j..<8]"] that assms(4) by (simp only: split) simp
  have one: "nse_ensure_loaded v date file u b = (b\<lparr>ar_attempt := v\<rparr>, j)"
    if "ar_rows b \<noteq> []" "ar_date b = Some (date j)" "3600 \<le> v - ar_loaded b" for b u v
    using that walk by (simp add: nse_ensure_loaded_def)
  show ?thesis using assms one[of a now tm] one[of "a\<lparr>ar_attempt := now\<rparr>" now' tm'] by auto
qed

theorem nse_archive_rechecks_witness:
  "snd (nse_ensure_loaded 9000 demo_dates demo_file 9001 demo_archive) = 2"
proof -
  have "list_all (not_out demo_dates demo_file (demo_dates 2)) [0..<2]"
    by (simp add: not_out_def demo_dates_def demo_file_def nat_digits.simps upt_rec)
  with nse_archive_rechecks[of demo_archive demo_dates 2 demo_file 9000 9001] show ?thesis
    by (simp add: demo_archive_eq demo_dates_def)
qed

text \<open>A BSE row whose identifier is not of the form \<^verbatim>\<open>INE...\<close> never yields a quote, yet the provider has recorded a success.\<close>

lemma bse_archive_counts_failure:
  assumes "row_for b sm = Some r" "r \<noteq> []" "row_get r ''ISIN'' \<noteq> []" "\<not> isin_ok (row_get r ''ISIN'')"
  shows "\<exists>e. bse_archive_fetch b sm now = (Inl e, [Some 0])"
proof -
  have "\<exists>e. bse_archive_parse r sm now = Inl e"
    using assms(3,4) by (simp add: bse_archive_parse_def Let_def validated_def make_tick_def tick_ok_def feed_tick_def)
  with assms(1,2) show ?thesis by (cases r) (auto simp: bse_archive_fetch_def)
qed

end
