(* ===== verification/Egress.thy ===== *)
theory Egress
  imports Prelude
begin

text \<open>
  Outbound request control: the token bucket of \<^verbatim>\<open>src/engine/rate_limiter.py\<close> and the proxy
  rotation of \<^verbatim>\<open>src/providers/proxy_pool.py\<close>. One turn of the limiter's loop holds its lock,
  so competing coroutines are a sequence of \<open>try_acquire\<close> steps; a single caller's loop is
  \<open>acquire\<close> over the clock readings of its turns. The random choice of a proxy is an index
  supplied by the environment.
\<close>

section \<open>Token bucket\<close>

record bucket =
  tb_rate :: int
  tb_per :: rat
  tb_tokens :: rat
  tb_last_refill :: secs

definition new_bucket :: "int \<Rightarrow> rat \<Rightarrow> secs \<Rightarrow> bucket" where
  "new_bucket rate per now = \<lparr>tb_rate = rate, tb_per = per, tb_tokens = of_int rate, tb_last_refill = now\<rparr>"

definition refill :: "secs \<Rightarrow> bucket \<Rightarrow> bucket" where
  "refill now b =
     (let elapsed = now - tb_last_refill b;
          new_tokens = elapsed * (of_int (tb_rate b) / tb_per b)
      in b\<lparr>tb_tokens := min (of_int (tb_rate b)) (tb_tokens b + new_tokens), tb_last_refill := now\<rparr>)"

definition try_acquire :: "secs \<Rightarrow> bucket \<Rightarrow> bool \<times> bucket" where
  "try_acquire now b =
     (let b' = refill now b
      in if tb_tokens b' \<ge> 1 then (True, b'\<lparr>tb_tokens := tb_tokens b' - 1\<rparr>) else (False, b'))"

text \<open>\<^verbatim>\<open>acquire\<close>: one reading per turn; \<open>None\<close> while it is still waiting when the readings end.\<close>

fun acquire :: "secs list \<Rightarrow> bucket \<Rightarrow> bucket option" where
  "acquire [] b = None"
| "acquire (t # ts) b = (case try_acquire t b of (True, b') \<Rightarrow> Some b' | (False, b') \<Rightarrow> acquire ts b')"

definition available_tokens :: "secs \<Rightarrow> bucket \<Rightarrow> rat \<times> bucket" where
  "available_tokens now b = (let b' = refill now b in (tb_tokens b', b'))"

definition bucket_ok :: "bucket \<Rightarrow> bool" where
  "bucket_ok b \<longleftrightarrow> 1 \<le> tb_rate b \<and> 0 < tb_per b \<and> 0 \<le> tb_tokens b \<and> tb_tokens b \<le> of_int (tb_rate b)"

text \<open>What callers do to a bucket over a run: turns of \<^verbatim>\<open>acquire\<close> and reads of \<^verbatim>\<open>available_tokens\<close>, each with
  the clock it reads. \<open>admitted\<close> lists the times at which a request got through.\<close>

datatype turn = Turn (turn_at: secs) | Look (turn_at: secs)

fun turn_do :: "turn \<Rightarrow> bucket \<Rightarrow> bool \<times> bucket" where
  "turn_do (Turn t) b = try_acquire t b"
| "turn_do (Look t) b = (False, snd (available_tokens t b))"

fun admitted :: "turn list \<Rightarrow> bucket \<Rightarrow> secs list" where
  "admitted [] b = []"
| "admitted (x # xs) b =
     (case turn_do x b of (ok, b') \<Rightarrow> (if ok then [turn_at x] else []) @ admitted xs b')"

text \<open>The requests of a run that are admitted between the times \<open>u\<close> and \<open>v\<close>, both included.\<close>

definition admitted_between :: "secs \<Rightarrow> secs \<Rightarrow> turn list \<Rightarrow> bucket \<Rightarrow> nat" where
  "admitted_between u v xs b = length (filter (\<lambda>t. u \<le> t \<and> t \<le> v) (admitted xs b))"

definition inflow :: "bucket \<Rightarrow> rat" where
  "inflow b = of_int (tb_rate b) / tb_per b"

lemma refill_config [simp]:
  "tb_rate (refill t b) = tb_rate b" "tb_per (refill t b) = tb_per b" "tb_last_refill (refill t b) = t"
  by (simp_all add: refill_def Let_def)

lemma try_acquire_config:
  "try_acquire t b = (ok, b') \<Longrightarrow> tb_rate b' = tb_rate b \<and> tb_per b' = tb_per b \<and> tb_last_refill b' = t"
  by (auto simp: try_acquire_def Let_def split: if_splits)

lemma inflow_pos: "bucket_ok b \<Longrightarrow> 0 < inflow b"
  by (simp add: bucket_ok_def inflow_def)

lemma new_bucket_ok: "1 \<le> rate \<Longrightarrow> 0 < per \<Longrightarrow> bucket_ok (new_bucket rate per now)"
  by (simp add: bucket_ok_def new_bucket_def)

lemma refill_ok: "bucket_ok b \<Longrightarrow> tb_last_refill b \<le> t \<Longrightarrow> bucket_ok (refill t b)"
  by (auto simp: bucket_ok_def refill_def Let_def)

lemma refill_tokens_eq:
  "tb_tokens (refill t b) = min (of_int (tb_rate b)) (tb_tokens b + (t - tb_last_refill b) * inflow b)"
  by (simp add: refill_def Let_def inflow_def)

lemma refill_tokens: "tb_tokens (refill t b) \<le> tb_tokens b + (t - tb_last_refill b) * inflow b"
  by (simp add: refill_def Let_def inflow_def)

lemma try_acquire_ok: "bucket_ok b \<Longrightarrow> tb_last_refill b \<le> t \<Longrightarrow> bucket_ok (snd (try_acquire t b))"
  using refill_ok[of b t] by (auto simp: try_acquire_def Let_def bucket_ok_def)

lemma try_acquire_budget:
  "try_acquire t b = (ok, b') \<Longrightarrow>
     tb_tokens b' + (if ok then 1 else 0) \<le> tb_tokens b + (t - tb_last_refill b) * inflow b"
  using refill_tokens[of t b] by (auto simp: try_acquire_def Let_def split: if_splits)

lemma try_acquire_burst:
  "try_acquire t b = (ok, b') \<Longrightarrow> tb_tokens b' + (if ok then 1 else 0) \<le> of_int (tb_rate b)"
  by (auto simp: try_acquire_def refill_def Let_def split: if_splits)

lemma turn_do_props:
  assumes "bucket_ok b" "tb_last_refill b \<le> turn_at x" "turn_do x b = (ok, b')"
  shows "bucket_ok b' \<and> tb_last_refill b' = turn_at x \<and> tb_rate b' = tb_rate b \<and> inflow b' = inflow b"
    and "tb_tokens b' + (if ok then 1 else 0) \<le> of_int (tb_rate b)"
    and "tb_tokens b' + (if ok then 1 else 0) \<le> tb_tokens b + (turn_at x - tb_last_refill b) * inflow b"
proof (atomize(full), cases x)
  case (Turn t)
  with assms try_acquire_ok[of b t] try_acquire_config[of t b ok b'] try_acquire_budget[of t b ok b']
    try_acquire_burst[of t b ok b']
  show "(bucket_ok b' \<and> tb_last_refill b' = turn_at x \<and> tb_rate b' = tb_rate b \<and> inflow b' = inflow b) \<and>
    tb_tokens b' + (if ok then 1 else 0) \<le> of_int (tb_rate b) \<and>
    tb_tokens b' + (if ok then 1 else 0) \<le> tb_tokens b + (turn_at x - tb_last_refill b) * inflow b"
    by (simp add: inflow_def)
next
  case (Look t)
  with assms refill_ok[of b t] refill_tokens[of t b]
  show "(bucket_ok b' \<and> tb_last_refill b' = turn_at x \<and> tb_rate b' = tb_rate b \<and> inflow b' = inflow b) \<and>
    tb_tokens b' + (if ok then 1 else 0) \<le> of_int (tb_rate b) \<and>
    tb_tokens b' + (if ok then 1 else 0) \<le> tb_tokens b + (turn_at x - tb_last_refill b) * inflow b"
    by (auto simp: available_tokens_def Let_def inflow_def bucket_ok_def)
qed

text \<open>What may still be admitted between \<open>u\<close> and \<open>v\<close> after the last refill of \<open>b\<close>.\<close>

definition allowance :: "secs \<Rightarrow> secs \<Rightarrow> bucket \<Rightarrow> rat" where
  "allowance u v b =
     (if tb_last_refill b < u then of_int (tb_rate b) + (v - u) * inflow b
      else if tb_last_refill b \<le> v then tb_tokens b + (v - tb_last_refill b) * inflow b else 0)"

lemma allowance_nonneg: "bucket_ok b \<Longrightarrow> u \<le> v \<Longrightarrow> 0 \<le> allowance u v b"
  using inflow_pos[of b] by (auto simp: allowance_def bucket_ok_def)

lemma allowance_step:
  assumes "bucket_ok b" "tb_last_refill b \<le> turn_at x" "turn_do x b = (ok, b')" "u \<le> v"
  shows "allowance u v b' + (if ok \<and> u \<le> turn_at x \<and> turn_at x \<le> v then 1 else 0) \<le> allowance u v b"
proof -
  note p = turn_do_props[OF assms(1-3)]
  have f: "0 < inflow b" using assms(1) by (rule inflow_pos)
  let ?t = "turn_at x"
  consider "?t < u" | "u \<le> ?t" "?t \<le> v" | "v < ?t" by linarith
  then show ?thesis
  proof cases
    case 1
    with p(1) assms(2) show ?thesis by (auto simp: allowance_def)
  next
    case 2
    have "(v - ?t) * inflow b \<le> (v - u) * inflow b" using f 2 by (intro mult_right_mono) auto
    with 2 p assms(2) show ?thesis by (auto simp: allowance_def algebra_simps)
  next
    case 3
    with p(1) assms(4) allowance_nonneg[OF assms(1,4)] show ?thesis by (simp add: allowance_def)
  qed
qed

lemma admitted_allowance:
  assumes "bucket_ok b" "sorted (tb_last_refill b # map turn_at xs)" "u \<le> v"
  shows "of_nat (admitted_between u v xs b) \<le> allowance u v b"
  using assms(1,2)
proof (induction xs arbitrary: b)
  case Nil
  then show ?case using allowance_nonneg[OF _ assms(3)] by (simp add: admitted_between_def)
next
  case (Cons x xs)
  obtain ok b' where s: "turn_do x b = (ok, b')" by fastforce
  have le: "tb_last_refill b \<le> turn_at x" using Cons.prems(2) by simp
  note p = turn_do_props(1)[OF Cons.prems(1) le s]
  have "of_nat (admitted_between u v xs b') \<le> allowance u v b'"
    using Cons.IH[of b'] p Cons.prems(2) by simp
  with allowance_step[OF Cons.prems(1) le s assms(3)] show ?case
    by (auto simp: admitted_between_def s split: if_splits)
qed

text \<open>C11: In any window of time the requests admitted number at most the bucket's size plus the rate
  times the window's length, wherever the window lies in a run: after any turns of competing
  callers, any waiting and any idle time since the bucket was made, with \<^verbatim>\<open>available_tokens\<close> read
  in between or not. The clock readings are in order, as \<^verbatim>\<open>time.monotonic\<close> gives them.\<close>
theorem rate_limit_bound:
  assumes "1 \<le> rate" "0 < per" "sorted (now # map turn_at xs)" "u \<le> v"
  shows "of_nat (admitted_between u v xs (new_bucket rate per now)) \<le>
    of_int rate + (v - u) * (of_int rate / per)"
proof -
  let ?b = "new_bucket rate per now"
  have b: "tb_rate ?b = rate" "tb_tokens ?b = of_int rate" "tb_last_refill ?b = now" "inflow ?b = of_int rate / per"
    by (simp_all add: new_bucket_def inflow_def)
  have "(v - now) * (of_int rate / per) \<le> (v - u) * (of_int rate / per)" if "u \<le> now"
    using that assms(1,2) by (intro mult_right_mono) auto
  then have "allowance u v ?b \<le> of_int rate + (v - u) * (of_int rate / per)"
    using assms(1,2,4) by (auto simp: allowance_def b)
  with admitted_allowance[OF new_bucket_ok[OF assms(1,2)], of now xs u v] assms(3,4) show ?thesis
    unfolding b(3) by linarith
qed

text \<open>A burst of four after a long pause, at two a second: two get through at once and one more
  half a second later.\<close>

theorem rate_limit_bound_witness:
  "admitted_between 90 (181 / 2) [Turn 0, Look 1, Turn 90, Turn 90, Turn 90, Turn (181 / 2)] (new_bucket 2 1 0) = 3 \<and>
   of_nat (admitted_between 90 (181 / 2) [Turn 0, Look 1, Turn 90, Turn 90, Turn 90, Turn (181 / 2)] (new_bucket 2 1 0))
     \<le> (2 + (1 / 2) * 2 :: rat)"
  using rate_limit_bound[of 2 1 0 "[Turn 0, Look 1, Turn 90, Turn 90, Turn 90, Turn (181 / 2)]" 90 "181 / 2"]
  by (simp add: new_bucket_def try_acquire_def available_tokens_def refill_def Let_def admitted_between_def)

lemma try_acquire_after_sleep:
  assumes "bucket_ok b" "tb_last_refill b + tb_per b / of_int (tb_rate b) \<le> t"
  shows "fst (try_acquire t b)"
proof -
  from assms(1) have r: "(1::rat) \<le> of_int (tb_rate b)" "0 < tb_per b" "0 \<le> tb_tokens b"
    by (simp_all add: bucket_ok_def)
  have "1 = tb_per b / of_int (tb_rate b) * inflow b"
    using r by (simp add: inflow_def)
  also have "\<dots> \<le> (t - tb_last_refill b) * inflow b"
    using assms(2) inflow_pos[OF assms(1)] by (intro mult_right_mono) simp_all
  finally have "1 \<le> tb_tokens b + (t - tb_last_refill b) * inflow b" using r(3) by linarith
  with r(1) have "1 \<le> tb_tokens (refill t b)"
    unfolding refill_tokens_eq by simp
  then show ?thesis by (simp add: try_acquire_def Let_def)
qed

text \<open>A caller that is not overtaken acquires its token at the latest in the second turn of the
  loop, because the sleep between turns is as long as one token takes to flow in.\<close>
theorem acquire_returns:
  assumes "bucket_ok b" "tb_last_refill b \<le> t1" "t1 + tb_per b / of_int (tb_rate b) \<le> t2"
  shows "\<exists>b'. acquire [t1, t2] b = Some b' \<and> bucket_ok b'"
proof -
  obtain ok b1 where s: "try_acquire t1 b = (ok, b1)" by fastforce
  with try_acquire_ok[OF assms(1,2)] have b1: "bucket_ok b1" by simp
  from try_acquire_config[OF s] have conf: "tb_last_refill b1 = t1" "tb_per b1 = tb_per b" "tb_rate b1 = tb_rate b"
    by simp_all
  obtain ok2 b2 where s2: "try_acquire t2 b1 = (ok2, b2)" by fastforce
  have t2: "t1 \<le> t2"
  proof -
    have "0 < tb_per b / of_int (tb_rate b)" using assms(1) by (intro divide_pos_pos) (simp_all add: bucket_ok_def)
    with assms(3) show ?thesis by linarith
  qed
  have "ok2" using try_acquire_after_sleep[OF b1, of t2] assms(3) conf s2 by simp
  moreover have "bucket_ok b2" using try_acquire_ok[OF b1, of t2] conf t2 s2 by simp
  ultimately show ?thesis using s s2 b1 by (cases ok) simp_all
qed

theorem acquire_returns_witness:
  "\<exists>b'. acquire [1, 2] (new_bucket 5 1 0\<lparr>tb_tokens := 0, tb_last_refill := 1\<rparr>) = Some b' \<and> bucket_ok b'"
  by (rule acquire_returns) (simp_all add: new_bucket_def bucket_ok_def)

section \<open>Proxy pool\<close>

datatype proxy_strategy = ROUND_ROBIN | RANDOM | LEAST_USED

record proxy_pool =
  px_proxies :: "string list"
  px_strategy :: proxy_strategy
  px_idx :: nat
  px_uses :: "string \<rightharpoonup> int"
  px_dead_until :: "string \<rightharpoonup> secs"

definition cooldown_s :: secs where
  "cooldown_s = 120"

definition mask_proxy :: "string option \<Rightarrow> string option" where
  "mask_proxy p = (case p of None \<Rightarrow> None
     | Some s \<Rightarrow> if s = [] then None else Some (last (split_on CHR ''@'' s)))"

definition reload_pool :: "string list \<Rightarrow> proxy_strategy \<Rightarrow> proxy_pool" where
  "reload_pool ps st = \<lparr>px_proxies = ps, px_strategy = st, px_idx = 0,
     px_uses = map_of (map (\<lambda>p. (p, 0)) ps), px_dead_until = Map.empty\<rparr>"

definition dead_until :: "proxy_pool \<Rightarrow> string \<Rightarrow> secs" where
  "dead_until s p = (case px_dead_until s p of None \<Rightarrow> 0 | Some t \<Rightarrow> t)"

definition uses :: "proxy_pool \<Rightarrow> string \<Rightarrow> int" where
  "uses s p = (case px_uses s p of None \<Rightarrow> 0 | Some n \<Rightarrow> n)"

definition alive :: "secs \<Rightarrow> proxy_pool \<Rightarrow> string list" where
  "alive now s = filter (\<lambda>p. dead_until s p \<le> now) (px_proxies s)"

definition candidates :: "secs \<Rightarrow> proxy_pool \<Rightarrow> string list" where
  "candidates now s = (if alive now s = [] then px_proxies s else alive now s)"

text \<open>\<open>k\<close> is the environment's random index.\<close>

definition current_proxy :: "secs \<Rightarrow> nat \<Rightarrow> proxy_pool \<Rightarrow> string option \<times> proxy_pool" where
  "current_proxy now k s =
     (if px_proxies s = [] then (None, s)
      else
        (let pool = candidates now s;
             p = (case px_strategy s of
                    RANDOM \<Rightarrow> pool ! (k mod length pool)
                  | LEAST_USED \<Rightarrow> min_key (uses s) (hd pool) (tl pool)
                  | ROUND_ROBIN \<Rightarrow> pool ! (px_idx s mod length pool))
         in (Some p, s\<lparr>px_uses := (px_uses s)(p \<mapsto> uses s p + 1)\<rparr>)))"

definition rotate_proxy :: "secs \<Rightarrow> secs \<Rightarrow> nat \<Rightarrow> string option \<Rightarrow> proxy_pool \<Rightarrow> string option \<times> proxy_pool" where
  "rotate_proxy now now2 k bad s =
     (if px_proxies s = [] then (None, s)
      else
        (let s1 = (case bad of None \<Rightarrow> s
                   | Some b \<Rightarrow> if b = [] then s
                       else s\<lparr>px_dead_until := (px_dead_until s)(b \<mapsto> now + cooldown_s)\<rparr>)
         in current_proxy now2 k (s1\<lparr>px_idx := (px_idx s1 + 1) mod length (px_proxies s1)\<rparr>)))"

definition as_proxies :: "secs \<Rightarrow> nat \<Rightarrow> string option \<Rightarrow> proxy_pool \<Rightarrow> (string \<times> string) option \<times> proxy_pool" where
  "as_proxies now k given s =
     (let (p, s') = (case given of Some g \<Rightarrow> if g = [] then current_proxy now k s else (given, s)
                     | None \<Rightarrow> current_proxy now k s)
      in (case p of None \<Rightarrow> None | Some x \<Rightarrow> if x = [] then None else Some (x, x), s'))"

record pool_status =
  pst_enabled :: bool
  pst_count :: nat
  pst_strategy :: proxy_strategy
  pst_current :: "string option"
  pst_proxies :: "(string option \<times> int \<times> rat) list"

definition pool_status_of :: "secs \<Rightarrow> secs \<Rightarrow> nat \<Rightarrow> proxy_pool \<Rightarrow> pool_status \<times> proxy_pool" where
  "pool_status_of now now2 k s =
     (let (cur, s') = (if px_proxies s \<noteq> [] then (case current_proxy now2 k s of (p, s') \<Rightarrow> (mask_proxy p, s'))
                       else (None, s))
      in (\<lparr>pst_enabled = px_proxies s \<noteq> [], pst_count = length (px_proxies s), pst_strategy = px_strategy s,
           pst_current = cur,
           pst_proxies = map (\<lambda>p. (mask_proxy (Some p), uses s' p, py_round 1 (max 0 (dead_until s' p - now)))) (px_proxies s)\<rparr>, s'))"

lemma candidates_nonempty: "px_proxies s \<noteq> [] \<Longrightarrow> candidates now s \<noteq> []"
  by (simp add: candidates_def)

lemma candidates_sub: "set (candidates now s) \<subseteq> set (px_proxies s)"
  by (auto simp: candidates_def alive_def)

lemma current_in_candidates:
  assumes "px_proxies s \<noteq> []"
  shows "\<exists>p. fst (current_proxy now k s) = Some p \<and> p \<in> set (candidates now s)"
proof -
  have ne: "candidates now s \<noteq> []" using assms by (rule candidates_nonempty)
  then obtain x xs where pool: "candidates now s = x # xs" by (cases "candidates now s") auto
  have "min_key (uses s) x xs \<in> set (candidates now s)"
    using min_key_in[of "uses s" x xs] pool by simp
  moreover have "candidates now s ! (n mod length (candidates now s)) \<in> set (candidates now s)" for n
    using ne by (intro nth_mem) simp
  ultimately show ?thesis
    using assms pool by (auto simp: current_proxy_def Let_def split: proxy_strategy.splits)
qed

text \<open>After \<^verbatim>\<open>rotate(bad)\<close> the proxy in use is a configured one and is not the one just parked, under
  every rotation strategy, unless every other proxy is parked too.\<close>
theorem rotate_avoids_parked:
  assumes "b \<noteq> []" "q \<in> set (px_proxies s)" "q \<noteq> b" "dead_until s q \<le> now2" "now2 < now + cooldown_s"
  shows "\<exists>p. fst (rotate_proxy now now2 k (Some b) s) = Some p \<and> p \<in> set (px_proxies s) \<and> p \<noteq> b \<and>
    (p = q \<or> dead_until s p \<le> now2)"
proof -
  let ?s = "s\<lparr>px_dead_until := (px_dead_until s)(b \<mapsto> now + cooldown_s),
              px_idx := (px_idx s + 1) mod length (px_proxies s)\<rparr>"
  have ne: "px_proxies s \<noteq> []" using assms(2) by auto
  have "q \<in> set (alive now2 ?s)" using assms(2-4) by (simp add: alive_def dead_until_def)
  then have pool: "candidates now2 ?s = alive now2 ?s" by (auto simp: candidates_def)
  obtain p where p: "fst (current_proxy now2 k ?s) = Some p" "p \<in> set (alive now2 ?s)"
    using current_in_candidates[of ?s now2 k] ne pool by auto
  then have "p \<in> set (px_proxies s)" "p \<noteq> b" "dead_until s p \<le> now2"
    using assms(5) by (auto simp: alive_def dead_until_def split: if_splits)
  with p(1) ne assms(1) show ?thesis by (auto simp: rotate_proxy_def Let_def)
qed

theorem rotate_avoids_parked_witness:
  "\<exists>p. fst (rotate_proxy 100 100 0 (Some ''a'') (reload_pool [''a'', ''b'', ''c''] ROUND_ROBIN)) = Some p \<and> p \<noteq> ''a''"
  using rotate_avoids_parked[of "''a''" "''b''" "reload_pool [''a'', ''b'', ''c''] ROUND_ROBIN" 100 100 0]
  by (auto simp: reload_pool_def dead_until_def cooldown_s_def)

text \<open>The round-robin index is taken modulo the pool of live proxies, so parking one skips its successor.\<close>

lemma round_robin_skips_successor:
  "fst (rotate_proxy 100 100 0 (Some ''a'') (reload_pool [''a'', ''b'', ''c''] ROUND_ROBIN)) = Some ''c''"
  by (simp add: rotate_proxy_def reload_pool_def current_proxy_def candidates_def alive_def dead_until_def
      cooldown_s_def Let_def)

lemma mask_hides_credentials:
  "mask_proxy (Some ''http://user:pw@host:80'') = Some ''host:80''"
  by (simp add: mask_proxy_def)

end
