(* ===== verification/NseSession.thy ===== *)
theory NseSession
  imports Feeds Egress
begin

text \<open>
  The sessions with the NSE site: connecting, cookies and the retries of \<^verbatim>\<open>src/providers/nse_scraper.py\<close>, and the
  cached public endpoints of \<^verbatim>\<open>src/providers/nse_public.py\<close>, both through the pool of proxies. What the site and
  the headless browser answer, and the clock readings, are fields of an environment record; a fetch makes at most
  three requests. The cookies themselves are in the theory Cookies. Concurrent use of one session is not modelled.
\<close>

section \<open>Cookies\<close>

datatype home = HomeOk secs | HomeBlocked "secs option" | HomeOther | HomeFailed

record nse_sess =
  ss_connected :: bool
  ss_refreshed :: secs
  ss_proxy :: "string option"
  ss_pool :: proxy_pool

text \<open>\<open>iv\<close> is \<^verbatim>\<open>session_refresh_interval_seconds\<close>. \<open>HomeBlocked\<close> carries the end of a successful browser fallback. \<open>False\<close> is the
  \<^verbatim>\<open>ProviderError\<close>.\<close>

definition refresh_cookies :: "secs \<Rightarrow> secs \<Rightarrow> home \<Rightarrow> nse_sess \<Rightarrow> bool \<times> nse_sess" where
  "refresh_cookies iv now h s =
     (if now - ss_refreshed s < iv then (True, s)
      else (case h of
          HomeOk t \<Rightarrow> (True, s\<lparr>ss_refreshed := t\<rparr>)
        | HomeBlocked (Some t) \<Rightarrow> (True, s\<lparr>ss_refreshed := t\<rparr>)
        | HomeBlocked None \<Rightarrow> (True, s)
        | HomeOther \<Rightarrow> (True, s)
        | HomeFailed \<Rightarrow> (False, s)))"

record conn_env =
  cv_now :: secs
  cv_pick :: nat
  cv_refresh :: secs
  cv_home :: home

definition nse_connect :: "secs \<Rightarrow> conn_env \<Rightarrow> nse_sess \<Rightarrow> bool \<times> nse_sess" where
  "nse_connect iv c s =
     (if ss_connected s then (True, s)
      else (let (p, pool1) = current_proxy (cv_now c) (cv_pick c) (ss_pool s);
                (_, pool2) = as_proxies (cv_now c) (cv_pick c) p pool1;
                (ok, s1) = refresh_cookies iv (cv_refresh c) (cv_home c) (s\<lparr>ss_proxy := p, ss_pool := pool2\<rparr>)
            in if ok then (True, s1\<lparr>ss_connected := True\<rparr>) else (False, s1)))"

definition nse_disconnect :: "nse_sess \<Rightarrow> nse_sess" where
  "nse_disconnect s = s\<lparr>ss_connected := False\<rparr>"

record fresh_env =
  fv_now :: secs
  fv_refresh :: secs
  fv_home :: home

definition ensure_fresh_cookies :: "secs \<Rightarrow> fresh_env \<Rightarrow> nse_sess \<Rightarrow> bool \<times> nse_sess" where
  "ensure_fresh_cookies iv f s =
     (if fv_now f - ss_refreshed s > iv then refresh_cookies iv (fv_refresh f) (fv_home f) s else (True, s))"

definition rotate_session :: "secs \<Rightarrow> secs \<Rightarrow> secs \<Rightarrow> nat \<Rightarrow> conn_env \<Rightarrow> nse_sess \<Rightarrow> bool \<times> nse_sess" where
  "rotate_session iv t1 t2 k c s =
     (let (_, pool) = rotate_proxy t1 t2 k (ss_proxy s) (ss_pool s)
      in nse_connect iv c (s\<lparr>ss_pool := pool, ss_refreshed := 0, ss_connected := False\<rparr>))"

section \<open>A quote\<close>

record nse_env =
  nv_connect :: conn_env
  nv_fresh :: fresh_env
  nv_reply1 :: http
  nv_retry_at :: secs
  nv_retry_home :: home
  nv_reply2 :: http
  nv_rot1 :: secs
  nv_rot2 :: secs
  nv_pick :: nat
  nv_reconnect :: conn_env
  nv_fresh2 :: fresh_env
  nv_reply3 :: http
  nv_lat :: rat

definition refused :: "http \<Rightarrow> bool" where
  "refused r \<longleftrightarrow> (case r of NoReply \<Rightarrow> False | Http n b \<Rightarrow> n = 403)"

definition nse_answer :: "rat \<Rightarrow> string \<Rightarrow> datetime \<Rightarrow> http \<Rightarrow> fetched" where
  "nse_answer lat sm now r =
     (case r of NoReply \<Rightarrow> settle lat (Inl (OtherError ''failed''))
      | Http status b \<Rightarrow>
          if status \<noteq> 200 then (Inl (ProviderError ''HTTP''), [None])
          else (case b of Json (VDict d) \<Rightarrow> settle lat (nse_parse d sm lat now)
                | Json v \<Rightarrow> settle lat (Inl (ProviderError ''schema''))
                | _ \<Rightarrow> settle lat (Inl (OtherError ''failed''))))"

definition noted :: "rat option list \<Rightarrow> fetched \<Rightarrow> fetched" where
  "noted ms r = (fst r, ms @ snd r)"

definition nse_retry :: "secs \<Rightarrow> nse_env \<Rightarrow> string \<Rightarrow> datetime \<Rightarrow> nse_sess \<Rightarrow> fetched \<times> nse_sess" where
  "nse_retry iv v sm now s =
     (let (ok2, s2) = refresh_cookies iv (nv_retry_at v) (nv_retry_home v) s
      in if \<not> ok2 then ((Inl (ProviderError ''cookies''), [None]), s2)
         else if \<not> refused (nv_reply2 v) then (noted [None] (nse_answer (nv_lat v) sm now (nv_reply2 v)), s2)
         else if length (px_proxies (ss_pool s2)) > 1
         then (let (ok3, s3) = rotate_session iv (nv_rot1 v) (nv_rot2 v) (nv_pick v) (nv_reconnect v) s2
               in if \<not> ok3 then ((Inl (ProviderError ''cookies''), [None]), s3)
                  else (let (ok4, s4) = ensure_fresh_cookies iv (nv_fresh2 v) s3
                        in if \<not> ok4 then ((Inl (ProviderError ''cookies''), [None]), s4)
                           else if refused (nv_reply3 v) then ((Inl (ProviderError ''blocked''), [None]), s4)
                           else (noted [None] (nse_answer (nv_lat v) sm now (nv_reply3 v)), s4)))
         else ((Inl (ProviderError ''blocked''), [None]), s2))"

definition nse_fetch :: "secs \<Rightarrow> nse_env \<Rightarrow> string \<Rightarrow> datetime \<Rightarrow> nse_sess \<Rightarrow> fetched \<times> nse_sess" where
  "nse_fetch iv v sm now s =
     (let (ok0, s0) = nse_connect iv (nv_connect v) s
      in if \<not> ok0 then ((Inl (ProviderError ''cookies''), []), s0)
         else (let (ok1, s1) = ensure_fresh_cookies iv (nv_fresh v) s0
               in if \<not> ok1 then ((Inl (ProviderError ''cookies''), []), s1)
                  else if refused (nv_reply1 v) then nse_retry iv v sm now s1
                  else (nse_answer (nv_lat v) sm now (nv_reply1 v), s1)))"

section \<open>Public endpoints\<close>

record public =
  pb_session :: bool
  pb_proxy :: "string option"
  pb_pool :: proxy_pool
  pb_indices :: "dict list"
  pb_indices_at :: secs

record public_env =
  pe_now :: secs
  pe_pick :: nat
  pe_reply :: http
  pe_rot1 :: secs
  pe_rot2 :: secs
  pe_rot_pick :: nat
  pe_now2 :: secs
  pe_pick2 :: nat

definition ensure_session :: "bool \<Rightarrow> secs \<Rightarrow> nat \<Rightarrow> public \<Rightarrow> public" where
  "ensure_session rebuild now k s =
     (if pb_session s \<and> \<not> rebuild then s
      else (let (p, pool1) = current_proxy now k (pb_pool s); (_, pool2) = as_proxies now k p pool1
            in s\<lparr>pb_session := True, pb_proxy := p, pb_pool := pool2\<rparr>))"

definition public_rotate :: "public_env \<Rightarrow> public \<Rightarrow> public" where
  "public_rotate e s =
     (let (_, pool) = rotate_proxy (pe_rot1 e) (pe_rot2 e) (pe_rot_pick e) (pb_proxy s) (pb_pool s)
      in ensure_session True (pe_now2 e) (pe_pick2 e) (s\<lparr>pb_pool := pool\<rparr>))"

datatype json_result = JNone | JBlocked int | JValue val

text \<open>The attempts of \<^verbatim>\<open>_nse_json\<close>, one environment each.\<close>

fun json_attempts :: "public_env list \<Rightarrow> json_result \<Rightarrow> public \<Rightarrow> json_result \<times> public" where
  "json_attempts [] blocked s = (blocked, s)"
| "json_attempts (e # es) blocked s =
     (let s1 = ensure_session False (pe_now e) (pe_pick e) s
      in case pe_reply e of
           Http status (Json v) \<Rightarrow>
             if status = 200 then (JValue v, s1)
             else if status = 401 \<or> status = 403
             then (if es \<noteq> [] then json_attempts es (JBlocked status) (public_rotate e s1) else (JBlocked status, s1))
             else (JNone, s1)
         | Http status b \<Rightarrow>
             if status = 200 \<and> b = BadJson
             then (if es \<noteq> [] then json_attempts es blocked (public_rotate e s1) else (blocked, s1))
             else if status = 401 \<or> status = 403
             then (if es \<noteq> [] then json_attempts es (JBlocked status) (public_rotate e s1) else (JBlocked status, s1))
             else (JNone, s1)
         | NoReply \<Rightarrow> (if es \<noteq> [] then json_attempts es blocked (public_rotate e s1) else (blocked, s1)))"

definition attempts_of :: "public \<Rightarrow> nat" where
  "attempts_of s = (let n = length (px_proxies (pb_pool s)) in if n > 1 then min n 3 else 1)"

definition nse_json :: "(nat \<Rightarrow> public_env) \<Rightarrow> public \<Rightarrow> json_result \<times> public" where
  "nse_json env s = json_attempts (map env [0..<attempts_of s]) JNone s"

definition proxy_note :: "bool \<Rightarrow> dict" where
  "proxy_note has_proxies = [(''available'', VBool False), (''requires_proxy'', VBool (\<not> has_proxies))]"

text \<open>\<^verbatim>\<open>fetch_quote_full\<close> on the quote and the trade information the site gave; \<open>None\<close> is an exception. The two parts the code
  tests before reading are objects or empty.\<close>

definition trade_part :: "json_result \<Rightarrow> string \<Rightarrow> val option" where
  "trade_part ti k =
     (case ti of
        JValue v \<Rightarrow> if \<not> truthy_val v then Some (VDict [])
          else (case v of VDict d \<Rightarrow> Some (case map_of d k of None \<Rightarrow> VDict [] | Some w \<Rightarrow> w) | _ \<Rightarrow> None)
      | _ \<Rightarrow> Some (VDict []))"

definition range_of :: "dict \<Rightarrow> string \<Rightarrow> (string \<times> string) list \<Rightarrow> dict option" where
  "range_of d k fs = map_option (\<lambda>m. map (\<lambda>(a, b). (a, dget m b)) fs) (need_obj d k)"

definition quote_full_doc :: "string \<Rightarrow> dict \<Rightarrow> json_result \<Rightarrow> dict option" where
  "quote_full_doc sm d ti =
     (case (need_obj d ''info'', need_obj d ''priceInfo'', need_obj d ''metadata'', trade_part ti ''marketDeptOrderBook'', trade_part ti ''securityWiseDP'') of
        (Some info, Some pi1, Some md, Some (VDict tinfo), Some sec) \<Rightarrow>
          (case (range_of pi1 ''intraDayHighLow'' [(''high'', ''max''), (''low'', ''min'')],
                 range_of pi1 ''weekHighLow'' [(''week_52_high'', ''max''), (''week_52_high_date'', ''maxDate''), (''week_52_low'', ''min''), (''week_52_low_date'', ''minDate'')]) of
             (Some hl, Some wk) \<Rightarrow>
               (let g = (\<lambda>m. map (\<lambda>(a, b). (a, dget m b))); si = sub_dict (dget d ''securityInfo'') in
                Some [(''available'', VBool True), (''symbol'', VStr sm), (''name'', dget info ''companyName''), (''exchange'', VStr ''NSE''),
                  (''source'', VStr ''nse_quote_equity''),
                  (''price'', VDict (g pi1 [(''ltp'', ''lastPrice''), (''change'', ''change''), (''pct_change'', ''pChange''), (''open'', ''open'')] @ hl @
                     g pi1 [(''prev_close'', ''previousClose''), (''vwap'', ''vwap''), (''upper_band'', ''upperCP''), (''lower_band'', ''lowerCP''),
                       (''price_band'', ''pPriceBand''), (''tick_size'', ''tickSize'')])),
                  (''range'', VDict wk),
                  (''trade_info'', VDict ((''traded_volume_lakh'', dget tinfo ''tradedVolume'') #
                     g (sub_dict sec) [(''total_market_cap_cr'', ''totalMarketCap''), (''delivery_pct'', ''deliveryToTradedQuantity''), (''delivery_qty'', ''deliveryQuantity'')])),
                  (''securities_info'', VDict
                     [(''status'', dget md ''status''), (''trading_status'', dget si ''tradingStatus''), (''listing_date'', dget md ''listingDate''),
                      (''isin'', dget info ''isin''), (''industry'', val_or (dget info ''industry'') (dget md ''industry'')), (''pe'', dget md ''pdSymbolPe''),
                      (''sector_pe'', dget md ''pdSectorPe''), (''index'', dget md ''pdSectorInd''), (''face_value'', dget si ''faceValue'')])])
           | _ \<Rightarrow> None)
      | _ \<Rightarrow> None)"

definition quote_full :: "bool \<Rightarrow> string \<Rightarrow> json_result \<Rightarrow> json_result \<Rightarrow> dict option" where
  "quote_full has_proxies sm j ti =
     (case j of
        JValue v \<Rightarrow> if \<not> truthy_val v then Some (proxy_note has_proxies)
          else (case v of
              VDict d \<Rightarrow> if truthy_val (dget d ''_blocked'') then Some (proxy_note has_proxies) else quote_full_doc (upper sm) d ti
            | _ \<Rightarrow> None)
      | _ \<Rightarrow> Some (proxy_note has_proxies))"

definition chain_row :: "dict \<Rightarrow> dict option" where
  "chain_row d =
     (case (need_obj d ''CE'', need_obj d ''PE'') of
        (Some ce, Some pe) \<Rightarrow>
          Some [(''strike'', dget d ''strikePrice''), (''expiry'', dget d ''expiryDate''),
            (''ce_ltp'', dget ce ''lastPrice''), (''ce_oi'', dget ce ''openInterest''), (''ce_chng'', dget ce ''change''),
            (''ce_iv'', dget ce ''impliedVolatility''), (''ce_volume'', dget ce ''totalTradedVolume''),
            (''pe_ltp'', dget pe ''lastPrice''), (''pe_oi'', dget pe ''openInterest''), (''pe_chng'', dget pe ''change''),
            (''pe_iv'', dget pe ''impliedVolatility''), (''pe_volume'', dget pe ''totalTradedVolume'')]
      | _ \<Rightarrow> None)"

text \<open>\<^verbatim>\<open>fetch_option_chain\<close> on what the site gave; \<open>None\<close> is an exception. Documents are objects.\<close>

definition option_chain :: "bool \<Rightarrow> string \<Rightarrow> json_result \<Rightarrow> dict option" where
  "option_chain has_proxies sm j =
     (case j of
        JValue (VDict d) \<Rightarrow>
          if \<not> truthy_val (dget d ''records'') then Some (proxy_note has_proxies)
          else (case dget d ''records'' of
              VDict rec \<Rightarrow>
                (case those (map (\<lambda>x. chain_row (sub_dict x)) (list_val (dget rec ''data''))) of
                   None \<Rightarrow> None
                 | Some rows \<Rightarrow>
                     Some [(''available'', VBool True), (''symbol'', VStr (upper sm)), (''exchange'', VStr ''NSE''),
                       (''underlying_value'', dget rec ''underlyingValue''),
                       (''expiry_dates'', case map_of rec ''expiryDates'' of None \<Rightarrow> VList [] | Some v \<Rightarrow> v),
                       (''strikes'', VList (map VDict rows))])
            | _ \<Rightarrow> None)
      | _ \<Rightarrow> Some (proxy_note has_proxies))"

definition index_row :: "dict \<Rightarrow> dict" where
  "index_row x =
     map (\<lambda>(k, src). (k, dget x src))
       [(''index'', ''index''), (''symbol'', ''indexSymbol''), (''last'', ''last''), (''open'', ''open''), (''high'', ''high''),
        (''low'', ''low''), (''prev_close'', ''previousClose''), (''change'', ''variation''), (''pct_change'', ''percentChange''),
        (''year_high'', ''yearHigh''), (''year_low'', ''yearLow''), (''pe'', ''pe''), (''pb'', ''pb''), (''dy'', ''dy''),
        (''advances'', ''advances''), (''declines'', ''declines''), (''unchanged'', ''unchanged''),
        (''pct_change_30d'', ''perChange30d''), (''pct_change_365d'', ''perChange365d'')]"

text \<open>\<^verbatim>\<open>fetch_indices\<close>: \<open>rows\<close> are the rows of a 200 reply, \<open>None\<close> any failure.\<close>

definition fetch_indices :: "secs \<Rightarrow> nat \<Rightarrow> dict list option \<Rightarrow> secs \<Rightarrow> public \<Rightarrow> dict list \<times> public" where
  "fetch_indices now k rows tm s =
     (if pb_indices s \<noteq> [] \<and> now - pb_indices_at s < 10 then (pb_indices s, s)
      else (let s1 = ensure_session False now k s
            in case rows of None \<Rightarrow> (pb_indices s1, s1)
               | Some [] \<Rightarrow> (pb_indices s1, s1)
               | Some xs \<Rightarrow> (let out = map index_row xs in (out, s1\<lparr>pb_indices := out, pb_indices_at := tm\<rparr>))))"

section \<open>Proxies move on\<close>

lemma current_keeps [simp]:
  "px_proxies (snd (current_proxy now k s)) = px_proxies s" "px_dead_until (snd (current_proxy now k s)) = px_dead_until s"
  by (simp_all add: current_proxy_def Let_def)

lemma as_proxies_keeps [simp]:
  "px_proxies (snd (as_proxies now k p s)) = px_proxies s" "px_dead_until (snd (as_proxies now k p s)) = px_dead_until s"
  by (simp_all add: as_proxies_def split_beta split: option.split)

text \<open>While one proxy is usable, the proxy in use is a usable one.\<close>

lemma current_alive:
  assumes "q \<in> set (px_proxies s)" "dead_until s q \<le> now"
  shows "\<exists>p. fst (current_proxy now k s) = Some p \<and> p \<in> set (px_proxies s) \<and> dead_until s p \<le> now"
proof -
  have "q \<in> set (alive now s)" using assms by (simp add: alive_def)
  then have "candidates now s = alive now s" "px_proxies s \<noteq> []" using assms(1) by (auto simp: candidates_def)
  then show ?thesis using current_in_candidates[of s now k] by (auto simp: alive_def)
qed

lemma rotate_pool:
  assumes "b \<noteq> []"
  shows "px_proxies (snd (rotate_proxy t1 t2 k (Some b) s)) = px_proxies s"
    "px_proxies s \<noteq> [] \<Longrightarrow> dead_until (snd (rotate_proxy t1 t2 k (Some b) s)) p = (if p = b then t1 + cooldown_s else dead_until s p)"
  using assms by (auto simp: rotate_proxy_def Let_def dead_until_def)

lemma refresh_cookies_keeps [simp]:
  "ss_pool (snd (refresh_cookies iv now h s)) = ss_pool s" "ss_proxy (snd (refresh_cookies iv now h s)) = ss_proxy s"
  "ss_connected (snd (refresh_cookies iv now h s)) = ss_connected s"
  by (auto simp: refresh_cookies_def split: home.split option.split)

lemma ensure_fresh_keeps [simp]:
  "ss_pool (snd (ensure_fresh_cookies iv f s)) = ss_pool s" "ss_proxy (snd (ensure_fresh_cookies iv f s)) = ss_proxy s"
  "ss_connected (snd (ensure_fresh_cookies iv f s)) = ss_connected s"
  by (simp_all add: ensure_fresh_cookies_def)

lemma nse_connect_proxy:
  "\<not> ss_connected s \<Longrightarrow> ss_proxy (snd (nse_connect iv c s)) = fst (current_proxy (cv_now c) (cv_pick c) (ss_pool s))"
  by (simp add: nse_connect_def Let_def split_beta)

lemma rotate_session_proxy:
  assumes "ss_proxy s = Some b" "b \<noteq> []" "q \<in> set (px_proxies (ss_pool s))" "q \<noteq> b"
    and "dead_until (ss_pool s) q \<le> cv_now c" "cv_now c < t1 + cooldown_s"
  shows "\<exists>p. ss_proxy (snd (rotate_session iv t1 t2 k c s)) = Some p \<and> p \<in> set (px_proxies (ss_pool s)) \<and> p \<noteq> b \<and>
    dead_until (ss_pool s) p \<le> cv_now c"
proof -
  let ?pool = "snd (rotate_proxy t1 t2 k (Some b) (ss_pool s))"
  have ne: "px_proxies (ss_pool s) \<noteq> []" using assms(3) by auto
  have "q \<in> set (px_proxies ?pool)" "dead_until ?pool q \<le> cv_now c"
    using assms rotate_pool[OF assms(2)] ne by simp_all
  from current_alive[OF this, of "cv_pick c"] obtain p where p: "fst (current_proxy (cv_now c) (cv_pick c) ?pool) = Some p"
    "p \<in> set (px_proxies ?pool)" "dead_until ?pool p \<le> cv_now c" by blast
  then have "p \<in> set (px_proxies (ss_pool s))" "p \<noteq> b" "dead_until (ss_pool s) p \<le> cv_now c"
    using assms(6) rotate_pool[OF assms(2)] ne by (auto split: if_splits)
  with p(1) assms(1) show ?thesis by (simp add: rotate_session_def split_beta nse_connect_proxy)
qed

text \<open>A block moves the NSE session on: when a fetch of a connected session ends as blocked and another proxy of the
  pool is usable, the session stands on a different, usable proxy of the pool than the one it was blocked on, and the
  fetch recorded exactly one error.\<close>

theorem nse_block_moves_on:
  assumes "nse_fetch iv v sm now s = ((Inl (ProviderError ''blocked''), ms), s')"
    and "ss_connected s" "ss_proxy s = Some b" "b \<noteq> []" "1 < length (px_proxies (ss_pool s))"
    and "q \<in> set (px_proxies (ss_pool s))" "q \<noteq> b" "dead_until (ss_pool s) q \<le> cv_now (nv_reconnect v)"
    and "cv_now (nv_reconnect v) < nv_rot1 v + cooldown_s"
  shows "ms = [None] \<and> (\<exists>p. ss_proxy s' = Some p \<and> p \<in> set (px_proxies (ss_pool s)) \<and> p \<noteq> b \<and>
    dead_until (ss_pool s) p \<le> cv_now (nv_reconnect v))"
proof -
  let ?s1 = "snd (ensure_fresh_cookies iv (nv_fresh v) s)"
  let ?s2 = "snd (refresh_cookies iv (nv_retry_at v) (nv_retry_home v) ?s1)"
  let ?s3 = "snd (rotate_session iv (nv_rot1 v) (nv_rot2 v) (nv_pick v) (nv_reconnect v) ?s2)"
  have answer: "fst (noted ms' (nse_answer l sm now r)) \<noteq> Inl (ProviderError ''blocked'')"
    "fst (nse_answer l sm now r) \<noteq> Inl (ProviderError ''blocked'')" for ms' l r
    by (auto simp: noted_def nse_answer_def settle_def nse_parse_def schema_error_def
        split: http.split body.split val.split sum.split call_exn.split)
  then have no: "noted ms' (nse_answer l sm now r) \<noteq> (Inl (ProviderError ''blocked''), ms)"
    "nse_answer l sm now r \<noteq> (Inl (ProviderError ''blocked''), ms)" for ms' l r
    by (metis fst_conv)+
  have "ms = [None] \<and> s' = snd (ensure_fresh_cookies iv (nv_fresh2 v) ?s3)"
    using assms(1,2,5) no
    by (auto simp: nse_fetch_def nse_connect_def nse_retry_def Let_def split_beta split: if_splits)
  moreover have "\<exists>p. ss_proxy ?s3 = Some p \<and> p \<in> set (px_proxies (ss_pool s)) \<and> p \<noteq> b \<and>
      dead_until (ss_pool s) p \<le> cv_now (nv_reconnect v)"
    using rotate_session_proxy[of ?s2 b q "nv_reconnect v" "nv_rot1 v" iv "nv_rot2 v" "nv_pick v"] assms(3-9) by simp
  ultimately show ?thesis by simp
qed

definition demo_nse :: nse_sess where
  "demo_nse = \<lparr>ss_connected = True, ss_refreshed = 1000, ss_proxy = Some ''p1'', ss_pool = reload_pool [''p1'', ''p2''] ROUND_ROBIN\<rparr>"

definition demo_nse_env :: nse_env where
  "demo_nse_env =
     (let c = \<lparr>cv_now = 1003, cv_pick = 0, cv_refresh = 1003, cv_home = HomeOk 1004\<rparr>;
          f = \<lparr>fv_now = 1001, fv_refresh = 1001, fv_home = HomeOk 1002\<rparr>
      in \<lparr>nv_connect = c, nv_fresh = f, nv_reply1 = Http 403 NotJson, nv_retry_at = 1001, nv_retry_home = HomeOk 1002,
          nv_reply2 = Http 403 NotJson, nv_rot1 = 1002, nv_rot2 = 1002, nv_pick = 0, nv_reconnect = c, nv_fresh2 = f,
          nv_reply3 = Http 403 NotJson, nv_lat = 1\<rparr>)"

lemmas nse_eval = demo_nse_def demo_nse_env_def nse_fetch_def nse_connect_def nse_retry_def ensure_fresh_cookies_def
  refresh_cookies_def rotate_session_def refused_def reload_pool_def Let_def split_beta

theorem nse_block_moves_on_witness:
  "\<exists>p. ss_proxy (snd (nse_fetch 90 demo_nse_env ''TCS'' demo_instant demo_nse)) = Some p \<and> p \<noteq> ''p1''"
proof -
  obtain s' where r: "nse_fetch 90 demo_nse_env ''TCS'' demo_instant demo_nse = ((Inl (ProviderError ''blocked''), [None]), s')"
    by (simp add: nse_eval)
  have "dead_until (ss_pool demo_nse) ''p2'' \<le> cv_now (nv_reconnect demo_nse_env)"
    "cv_now (nv_reconnect demo_nse_env) < nv_rot1 demo_nse_env + cooldown_s"
    by (simp_all add: demo_nse_def demo_nse_env_def reload_pool_def dead_until_def cooldown_s_def Let_def)
  from nse_block_moves_on[OF r _ _ _ _ _ _ this] r show ?thesis by (auto simp: demo_nse_def reload_pool_def)
qed

text \<open>The first retry after a 403 is meant to run with fresh cookies, but the refresh it calls returns at once while the
  last one is younger than the interval: the home page is not asked, whatever it would answer, and the same cookies go
  out again.\<close>

theorem nse_403_keeps_cookies:
  assumes "ss_connected s" "fv_now (nv_fresh v) - ss_refreshed s \<le> iv" "nv_retry_at v - ss_refreshed s < iv"
  shows "nse_fetch iv (v\<lparr>nv_retry_home := h\<rparr>) sm now s = nse_fetch iv v sm now s \<and>
    (length (px_proxies (ss_pool s)) \<le> 1 \<longrightarrow> snd (nse_fetch iv v sm now s) = s)"
  using assms
  by (simp add: nse_fetch_def nse_connect_def ensure_fresh_cookies_def nse_retry_def refresh_cookies_def Let_def split_beta refused_def)

theorem nse_403_keeps_cookies_witness:
  "nse_fetch 90 (demo_nse_env\<lparr>nv_retry_home := HomeFailed\<rparr>) ''TCS'' demo_instant demo_nse = nse_fetch 90 demo_nse_env ''TCS'' demo_instant demo_nse"
  using nse_403_keeps_cookies[of demo_nse demo_nse_env 90 HomeFailed "''TCS''" demo_instant]
  by (simp add: demo_nse_def demo_nse_env_def Let_def)

section \<open>Accounting\<close>

lemma nse_answer_ok: "fst (nse_answer lat sm now r) = Inr t \<Longrightarrow> feed_ok ''NSE'' ''nse_scraper'' sm t"
  by (auto simp: nse_answer_def settle_Inr split: http.splits body.splits val.splits if_splits dest: nse_parse_ok)

lemma nse_fetch_ok: "fst (fst (nse_fetch iv v sm now s)) = Inr t \<Longrightarrow> feed_ok ''NSE'' ''nse_scraper'' sm t"
  by (auto simp: nse_fetch_def nse_retry_def noted_def Let_def split_beta split: if_splits dest: nse_answer_ok)

lemma public_rotate_session [simp]: "pb_session (public_rotate e s)"
  by (simp add: public_rotate_def ensure_session_def Let_def split_beta)

text \<open>At most three requests are made, and one when there is no second proxy.\<close>

lemma attempts_bound: "1 \<le> attempts_of s \<and> attempts_of s \<le> 3"
  by (simp add: attempts_of_def Let_def)

text \<open>Index values are served for ten seconds, and stale rather than not at all.\<close>

lemma fetch_indices_keeps:
  "pb_indices s \<noteq> [] \<Longrightarrow> fst (fetch_indices now k rows tm s) \<noteq> [] \<and> pb_indices (snd (fetch_indices now k rows tm s)) \<noteq> []"
  by (auto simp: fetch_indices_def ensure_session_def Let_def split_beta split: option.split list.split)

end
