(* ===== verification/LiveStack.thy ===== *)
theory LiveStack
  imports MarketData Archives NseSession
begin

text \<open>
  The serving layer on the modelled feeds: every provider that \<^verbatim>\<open>MarketDataService._controller\<close> registers answers an attempt
  of the failover cascade through its own \<^verbatim>\<open>fetch_quote\<close>. What remains of the environment is what the sites reply.
\<close>

record feeds =
  fd_base :: "string \<Rightarrow> tick attempt"
  fd_lat :: rat
  fd_now :: datetime
  fd_groww :: "string \<Rightarrow> http"
  fd_rows :: "string \<Rightarrow> val list"
  fd_nse_live :: "string \<Rightarrow> http"
  fd_bse_live :: "string \<Rightarrow> http"
  fd_codes :: "string \<Rightarrow> sc_cache"
  fd_bse :: "string \<Rightarrow> http"
  fd_master :: archive
  fd_bhav :: archive
  fd_nse :: nse_env
  fd_session :: nse_sess
  fd_yahoo :: "string \<Rightarrow> dict option"

definition feed_fetch :: "secs \<Rightarrow> feeds \<Rightarrow> string \<Rightarrow> string \<Rightarrow> fetched" where
  "feed_fetch iv fd s n =
     (let lat = fd_lat fd; now = fd_now fd
      in if n = ''groww'' then groww_fetch (fd_groww fd s) s lat now
         else if n = ''nse_live'' then fst (mc_fetch False (fd_rows fd s) (fd_nse_live fd) s lat now (fd_codes fd n))
         else if n = ''bse_live'' then fst (mc_fetch True (fd_rows fd s) (fd_bse_live fd) s lat now (fd_codes fd n))
         else if n = ''bse_scraper'' then fst (bse_fetch (code_for (fd_master fd)) (fd_bse fd) s lat now (fd_codes fd n))
         else if n = ''nse_scraper'' then fst (nse_fetch iv (fd_nse fd) s now (fd_session fd))
         else if n = ''nse_archive'' then nse_archive_fetch (fd_bhav fd) s lat now
         else if n = ''bse_archive'' then bse_archive_fetch (fd_master fd) s now
         else yahoo_fetch (fd_yahoo fd s) s lat now)"

text \<open>The attempt of the failover controller that a fetch amounts to.\<close>

definition attempt_of :: "tick attempt \<Rightarrow> fetched \<Rightarrow> tick attempt" where
  "attempt_of a r = a\<lparr>at_outcome := (case fst r of Inr t \<Rightarrow> Returned t | Inl e \<Rightarrow> Raised e), at_metrics := snd r\<rparr>"

definition shipped_env :: "secs \<Rightarrow> feeds \<Rightarrow> string \<Rightarrow> string \<Rightarrow> tick attempt" where
  "shipped_env iv fd s n = attempt_of (fd_base fd n) (feed_fetch iv fd s n)"

section \<open>The live path\<close>

lemma attempt_of_Returned: "at_outcome (attempt_of a r) = Returned t \<longleftrightarrow> fst r = Inr t"
  by (simp add: attempt_of_def split: sum.split)

lemma canonical_normal: "normalize_symbol (canonical_symbol sm) = canonical_symbol sm"
proof -
  have "normalize_symbol ''TMPV'' = ''TMPV''" by code_simp
  then show ?thesis by (simp add: canonical_symbol_def symbol_aliases_def Let_def normalize_symbol_def strip_upper)
qed

text \<open>Each registered provider returns valid ticks of its own venue, under its own name, for the symbol asked for.\<close>

lemma feed_fetch_ok:
  assumes "p \<in> set (service_providers f)" "fst (feed_fetch iv fd s (p_name p)) = Inr t"
  shows "(\<exists>exch. feed_ok exch (p_name p) s t \<and> (\<not> p_delayed p \<longrightarrow> exch = p_exchange p)) \<and> (p_name p \<in> {''groww'', ''nse_live'', ''bse_live'', ''bse_scraper''} \<longrightarrow> 0 < tk_ltp t)"
proof -
  have names: "mc_name False = ''nse_live''" "mc_name True = ''bse_live''" "mc_exchange False = ''NSE''" "mc_exchange True = ''BSE''"
    by (simp_all add: mc_name_def mc_exchange_def)
  from assms(1) consider "p = yahoo_meta" | "p \<in> {groww_meta, nse_live_meta, nse_scraper_meta, nse_archive_meta, bse_scraper_meta, bse_live_meta, bse_archive_meta}"
    by (auto simp: service_providers_def split: if_splits)
  then show ?thesis
  proof cases
    case 1
    with assms(2) yahoo_fetch_ok show ?thesis
      by (intro conjI exI[of _ "''NSE''"]) (auto simp: provider_metas new_provider_def feed_fetch_def Let_def)
  next
    case 2
    with assms(2) names groww_fetch_ok mc_fetch_ok[of False] mc_fetch_ok[of True] bse_fetch_ok nse_fetch_ok nse_archive_fetch_ok bse_archive_fetch_ok
    show ?thesis by (auto simp: provider_metas new_provider_def feed_fetch_def Let_def)
  qed
qed

text \<open>Any tick the service returns from the shipped stack, pinned or not.\<close>

lemma stack_tick:
  assumes "svc_reach cfg f c" "cfg_ok cfg"
    and "get_quote_through (shipped_env iv fd) sm exch src wc ed pin c = (Quote (Some t), c', j)"
  shows "tick_ok t \<and> tk_symbol t = canonical_symbol sm \<and>
    (\<exists>p\<in>set (service_providers f). tk_source t = p_name p \<and> (\<not> p_delayed p \<longrightarrow> tk_exchange t = p_exchange p) \<and>
      (ed \<and> src = None \<longrightarrow> \<not> p_delayed p))"
proof -
  from through_provider[OF assms] obtain p where p: "p \<in> set (service_providers f)" "ed \<and> src = None \<longrightarrow> \<not> p_delayed p"
    "at_outcome (shipped_env iv fd (canonical_symbol sm) (p_name p)) = Returned t" by blast
  from p(3) have "fst (feed_fetch iv fd (canonical_symbol sm) (p_name p)) = Inr t"
    by (simp add: shipped_env_def attempt_of_Returned)
  from feed_fetch_ok[OF p(1) this] p(1,2) show ?thesis by (auto simp: feed_ok_def canonical_normal)
qed

text \<open>C1: The whole live path, from the sites' replies to the tick: a pinned live read of the shipped stack returns only a valid
  tick, of the requested exchange and the canonical symbol, from an enabled registered provider of that exchange that is
  not the delayed feed, and with a positive price when it comes from one of the four relay feeds.\<close>

theorem pinned_live_tick:
  assumes "svc_reach cfg f c" "cfg_ok cfg" "exch \<noteq> []"
    and "get_quote_through (shipped_env iv fd) sm exch None wc True True c = (Quote (Some t), c', j)"
  shows "tick_ok t \<and> tk_exchange t = exch \<and> tk_symbol t = canonical_symbol sm \<and>
    (\<exists>p\<in>set (service_providers f). tk_source t = p_name p \<and> p_exchange p = exch \<and> \<not> p_delayed p \<and> is_enabled (p_name p) c) \<and>
    (tk_source t \<in> {''groww'', ''nse_live'', ''bse_live'', ''bse_scraper''} \<longrightarrow> 0 < tk_ltp t)"
proof -
  from pinned_quote_real_venue[OF assms] obtain p where p: "p \<in> set (service_providers f)" "p_exchange p = exch" "\<not> p_delayed p"
    "is_enabled (p_name p) c" "at_outcome (shipped_env iv fd (canonical_symbol sm) (p_name p)) = Returned t" by blast
  from p(5) have "fst (feed_fetch iv fd (canonical_symbol sm) (p_name p)) = Inr t"
    by (simp add: shipped_env_def attempt_of_Returned)
  from feed_fetch_ok[OF p(1) this] p show ?thesis by (auto simp: feed_ok_def canonical_normal)
qed

definition demo_feeds :: feeds where
  "demo_feeds = \<lparr>fd_base = (\<lambda>n. demo_attempt True (Raised (ProviderError ''down''))), fd_lat = 5, fd_now = demo_stamp,
     fd_groww = (\<lambda>s. Http 200 (Json (VDict [(''ltp'', VNum (3000 + 1 / 2)), (''close'', VInt 2950)]))), fd_rows = (\<lambda>_. []),
     fd_nse_live = (\<lambda>_. NoReply), fd_bse_live = (\<lambda>_. NoReply), fd_codes = (\<lambda>_. Map.empty), fd_bse = (\<lambda>_. NoReply),
     fd_master = new_archive, fd_bhav = new_archive, fd_nse = demo_nse_env, fd_session = demo_nse, fd_yahoo = (\<lambda>_. None)\<rparr>"

theorem pinned_live_tick_witness:
  "\<exists>t c' j. get_quote_through (shipped_env 90 demo_feeds) ''tcs'' ''NSE'' None True True True nse_service = (Quote (Some t), c', j) \<and>
     tick_ok t \<and> tk_symbol t = ''TCS'' \<and> tk_ltp t = 6001 / 2"
proof -
  have sm: "canonical_symbol ''tcs'' = ''TCS''" "upper ''TCS'' = ''TCS''" "normalize_symbol ''TCS'' = ''TCS''" by code_simp+
  have "\<exists>t. shipped_env 90 demo_feeds ''TCS'' ''groww'' = (demo_attempt True (Returned t))\<lparr>at_metrics := [Some 5]\<rparr> \<and> tk_ltp t = 6001 / 2"
    by (simp add: shipped_env_def attempt_of_def demo_feeds_def feed_fetch_def groww_fetch_def as_obj_def sm groww_parse_def Let_def settle_def
        validated_def make_tick_def feed_tick_def tick_ok_def opt_ge0_def compute_change_def dec_or_def dec_opt_def dec_get_def py_trunc_def
        demo_attempt_def)
  then obtain t where t: "shipped_env 90 demo_feeds ''TCS'' ''groww'' = (demo_attempt True (Returned t))\<lparr>at_metrics := [Some 5]\<rparr>"
    "tk_ltp t = 6001 / 2" by blast
  have "fst (get_quote_through (shipped_env 90 demo_feeds) ''tcs'' ''NSE'' None True True True nse_service) = Quote (Some t)"
    using t(1) by (simp add: get_quote_through_def fetch_quote_def nse_service_eq demo_fetch_simps sm)
  then obtain c' j where r: "get_quote_through (shipped_env 90 demo_feeds) ''tcs'' ''NSE'' None True True True nse_service = (Quote (Some t), c', j)"
    by (metis prod.collapse)
  from pinned_live_tick[OF nse_service_reach default_cfg_ok _ this] r t(2) sm show ?thesis by auto
qed

end
