(* ===== verification/LiveCandles.thy ===== *)
theory LiveCandles
  imports Candles Models
begin

text \<open>
  \<^verbatim>\<open>src/engine/live_candles.py\<close>: the sampling engine. Its dictionaries are the record \<open>engine\<close>
  (keyed by \<^verbatim>\<open>EXCHANGE:SYMBOL\<close>; a missing sample deque reads as empty), its environment settings
  the record \<open>live_cfg\<close>. A price or volume that \<^verbatim>\<open>float\<close> cannot convert is \<open>None\<close>. The
  recorder's loop, which also flushes to the durable store, is in the theory IntradayStore.
\<close>

section \<open>State\<close>

record sample =
  sm_ts :: secs
  sm_price :: price
  sm_cum :: rat
  sm_src :: "string option"

record engine =
  le_samples :: "string \<Rightarrow> sample list"
  le_running :: "string \<Rightarrow> bool"
  le_last_read :: "string \<rightharpoonup> secs"
  le_primary_src :: "string \<rightharpoonup> string"
  le_primary_ts :: "string \<rightharpoonup> secs"

record live_cfg =
  lc_sample_interval :: secs
  lc_maxlen :: nat
  lc_idle_ttl :: secs
  lc_primary_ttl :: secs
  lc_flush_interval :: secs

text \<open>The shipped defaults; \<^verbatim>\<open>SAMPLE_INTERVAL_S\<close> is at least a tenth of a second.\<close>

definition default_live_cfg :: live_cfg where
  "default_live_cfg = \<lparr>lc_sample_interval = max (1 / 10) (1 / 2), lc_maxlen = 46000, lc_idle_ttl = 120,
     lc_primary_ttl = 5, lc_flush_interval = 30\<rparr>"

definition new_engine :: engine where
  "new_engine = \<lparr>le_samples = (\<lambda>_. []), le_running = (\<lambda>_. False), le_last_read = Map.empty,
     le_primary_src = Map.empty, le_primary_ts = Map.empty\<rparr>"

definition live_key :: "string \<Rightarrow> string \<Rightarrow> string" where
  "live_key sm exch = upper exch @ '':'' @ upper sm"

section \<open>Recording\<close>

definition push_sample :: "live_cfg \<Rightarrow> string \<Rightarrow> sample \<Rightarrow> engine \<Rightarrow> engine" where
  "push_sample cfg k x e = e\<lparr>le_samples := (le_samples e)(k := deque_append (lc_maxlen cfg) (le_samples e k) x)\<rparr>"

definition owner_blocks :: "live_cfg \<Rightarrow> string \<Rightarrow> secs \<Rightarrow> string \<Rightarrow> engine \<Rightarrow> bool" where
  "owner_blocks cfg k now src e \<longleftrightarrow>
     (case le_primary_src e k of None \<Rightarrow> False
      | Some owner \<Rightarrow> owner \<noteq> src \<and>
          now - (case le_primary_ts e k of None \<Rightarrow> 0 | Some t \<Rightarrow> t) \<le> lc_primary_ttl cfg)"

definition record_sample :: "live_cfg \<Rightarrow> string \<Rightarrow> string \<Rightarrow> rat option \<Rightarrow> rat option \<Rightarrow> secs \<Rightarrow> string option \<Rightarrow>
    engine \<Rightarrow> engine" where
  "record_sample cfg sm exch price cum now src e =
     (case price of None \<Rightarrow> e
      | Some p \<Rightarrow>
          if p \<le> 0 then e
          else
            (let v = (case cum of None \<Rightarrow> 0 | Some c \<Rightarrow> c); k = live_key sm exch;
                 x = \<lparr>sm_ts = now, sm_price = p, sm_cum = v, sm_src = src\<rparr>
             in case src of
                  None \<Rightarrow> push_sample cfg k x e
                | Some s \<Rightarrow>
                    if owner_blocks cfg k now s e then e
                    else push_sample cfg k x
                      (e\<lparr>le_primary_src := (le_primary_src e)(k \<mapsto> s), le_primary_ts := (le_primary_ts e)(k \<mapsto> now)\<rparr>)))"

definition touch_read :: "string \<Rightarrow> secs \<Rightarrow> engine \<Rightarrow> engine" where
  "touch_read k now e = e\<lparr>le_last_read := (le_last_read e)(k \<mapsto> now)\<rparr>"

definition ensure_recorder :: "string \<Rightarrow> string \<Rightarrow> secs \<Rightarrow> engine \<Rightarrow> engine" where
  "ensure_recorder sm exch now e =
     (let k = live_key sm exch; e' = touch_read k now e
      in if le_running e' k then e' else e'\<lparr>le_running := (le_running e')(k := True)\<rparr>)"

text \<open>\<^verbatim>\<open>sample_once\<close>: \<open>fetched\<close> is what the quote service gave, \<open>None\<close> for an exception or no tick.\<close>

definition record_tick :: "live_cfg \<Rightarrow> string \<Rightarrow> string \<Rightarrow> tick \<Rightarrow> secs \<Rightarrow> engine \<Rightarrow> engine" where
  "record_tick cfg sm exch t now e =
     record_sample cfg sm exch (Some (tk_ltp t)) (Some (of_int (tk_volume t))) now (Some (tk_source t)) e"

definition sample_once :: "live_cfg \<Rightarrow> string \<Rightarrow> string \<Rightarrow> tick option \<Rightarrow> secs \<Rightarrow> engine \<Rightarrow> bool \<times> engine" where
  "sample_once cfg sm exch fetched now e =
     (case fetched of None \<Rightarrow> (False, e) | Some t \<Rightarrow> (True, record_tick cfg sm exch t now e))"

section \<open>Reading\<close>

type_synonym build_state = "(int \<times> cell) list \<times> rat option \<times> string option"

definition build_step :: "rat \<Rightarrow> build_state \<Rightarrow> sample \<Rightarrow> build_state" where
  "build_step seconds st x =
     (case st of (d, prev_cum, prev_src) \<Rightarrow>
        (let idx = \<lfloor>sm_ts x / seconds\<rfloor>;
             dv = (case prev_cum of None \<Rightarrow> 0
                   | Some pc \<Rightarrow> if sm_src x = prev_src \<and> sm_cum x \<ge> pc then sm_cum x - pc else 0)
         in (bucket_add (idx, sm_price x, dv) d, Some (sm_cum x), sm_src x)))"

definition build_cells :: "rat \<Rightarrow> sample list \<Rightarrow> (int \<times> cell) list" where
  "build_cells seconds xs = fst (foldl (build_step seconds) ([], None, None) xs)"

definition build :: "string \<Rightarrow> string \<Rightarrow> rat \<Rightarrow> nat \<Rightarrow> secs \<Rightarrow> engine \<Rightarrow> bar list \<times> engine" where
  "build sm exch seconds limit now e =
     (let k = live_key sm exch; e' = touch_read k now e; xs = le_samples e' k
      in if xs = [] \<or> seconds \<le> 0 then ([], e')
         else (map (cell_bar seconds) (last_n limit (build_cells seconds xs)), e'))"

record latest =
  lt_epoch :: secs
  lt_price :: price
  lt_cum_volume :: int
  lt_source :: "string option"

definition latest_tick :: "string \<Rightarrow> string \<Rightarrow> secs \<Rightarrow> engine \<Rightarrow> latest option \<times> engine" where
  "latest_tick sm exch now e =
     (let k = live_key sm exch; e' = touch_read k now e; xs = le_samples e' k
      in if xs = [] then (None, e')
         else (Some \<lparr>lt_epoch = sm_ts (last xs), lt_price = py_round 2 (sm_price (last xs)),
                     lt_cum_volume = py_trunc (sm_cum (last xs)), lt_source = sm_src (last xs)\<rparr>, e'))"

fun gaps :: "sample list \<Rightarrow> rat list" where
  "gaps (x # y # ys) = (sm_ts y - sm_ts x) # gaps (y # ys)"
| "gaps _ = []"

definition measured_cadence_s :: "string \<Rightarrow> string \<Rightarrow> engine \<Rightarrow> rat option" where
  "measured_cadence_s sm exch e =
     (let xs = le_samples e (live_key sm exch)
      in if length xs < 3 then None
         else (let gs = sort (gaps (last_n 20 xs))
               in if gs = [] then None else Some (py_round 2 (gs ! (length gs div 2)))))"

record live_status =
  lst_recording :: bool
  lst_samples :: nat
  lst_target :: secs
  lst_cadence :: "rat option"
  lst_market_open :: bool

definition live_status_of :: "live_cfg \<Rightarrow> bool \<Rightarrow> string \<Rightarrow> string \<Rightarrow> engine \<Rightarrow> live_status" where
  "live_status_of cfg mopen sm exch e =
     \<lparr>lst_recording = le_running e (live_key sm exch), lst_samples = length (le_samples e (live_key sm exch)),
      lst_target = lc_sample_interval cfg, lst_cadence = measured_cadence_s sm exch e, lst_market_open = mopen\<rparr>"

section \<open>The tape\<close>

text \<open>Samples of one key, as a reachable engine holds them.\<close>

inductive live_reach :: "live_cfg \<Rightarrow> engine \<Rightarrow> bool" for cfg where
  start: "live_reach cfg new_engine"
| sampled: "live_reach cfg e \<Longrightarrow> live_reach cfg (record_sample cfg sm exch p c now src e)"
| ensured: "live_reach cfg e \<Longrightarrow> live_reach cfg (ensure_recorder sm exch now e)"
| built: "live_reach cfg e \<Longrightarrow> live_reach cfg (snd (build sm exch seconds limit now e))"
| tailed: "live_reach cfg e \<Longrightarrow> live_reach cfg (snd (latest_tick sm exch now e))"
| stopped: "live_reach cfg e \<Longrightarrow> live_reach cfg (e\<lparr>le_running := (le_running e)(k := False)\<rparr>)"

text \<open>Neighbouring tagged samples share their source, or the earlier owner had gone quiet.\<close>

fun handover_ok :: "rat \<Rightarrow> sample list \<Rightarrow> bool" where
  "handover_ok ttl (x # y # ys) =
     ((sm_src x = sm_src y \<or> sm_ts y - sm_ts x > ttl) \<and> handover_ok ttl (y # ys))"
| "handover_ok ttl _ = True"

definition tagged :: "sample list \<Rightarrow> sample list" where
  "tagged xs = filter (\<lambda>x. sm_src x \<noteq> None) xs"

definition tape_inv :: "live_cfg \<Rightarrow> engine \<Rightarrow> bool" where
  "tape_inv cfg e \<longleftrightarrow> (\<forall>k. length (le_samples e k) \<le> lc_maxlen cfg \<and>
     (\<forall>x\<in>set (le_samples e k). 0 < sm_price x) \<and> handover_ok (lc_primary_ttl cfg) (tagged (le_samples e k)) \<and>
     (tagged (le_samples e k) \<noteq> [] \<longrightarrow>
        le_primary_src e k = sm_src (last (tagged (le_samples e k))) \<and>
        le_primary_ts e k = Some (sm_ts (last (tagged (le_samples e k))))))"

lemma handover_ok_snoc:
  "handover_ok ttl (xs @ [y]) \<longleftrightarrow> handover_ok ttl xs \<and>
     (xs = [] \<or> sm_src (last xs) = sm_src y \<or> sm_ts y - sm_ts (last xs) > ttl)"
  by (induction ttl xs rule: handover_ok.induct) auto

lemma handover_ok_tl: "handover_ok ttl (x # ys) \<Longrightarrow> handover_ok ttl ys"
  by (cases ys) auto

lemma handover_ok_drop: "handover_ok ttl xs \<Longrightarrow> handover_ok ttl (drop n xs)"
proof (induction n arbitrary: xs)
  case (Suc n)
  then show ?case by (cases xs) (auto dest: handover_ok_tl)
qed simp

lemma filter_drop_suffix: "\<exists>m. filter P (drop n xs) = drop m (filter P xs)"
proof -
  have "filter P xs = filter P (take n xs) @ filter P (drop n xs)"
    by (metis append_take_drop_id filter_append)
  then have "filter P (drop n xs) = drop (length (filter P (take n xs))) (filter P xs)" by simp
  then show ?thesis by blast
qed

lemma tape_inv_frame:
  "le_samples e' = le_samples e \<Longrightarrow> le_primary_src e' = le_primary_src e \<Longrightarrow>
     le_primary_ts e' = le_primary_ts e \<Longrightarrow> tape_inv cfg e \<Longrightarrow> tape_inv cfg e'"
  by (simp add: tape_inv_def)

lemma tagged_suffix:
  assumes "ys = drop n xs" "tagged ys \<noteq> []"
  shows "last (tagged ys) = last (tagged xs) \<and> tagged xs \<noteq> []"
proof -
  obtain m where m: "tagged ys = drop m (tagged xs)"
    using filter_drop_suffix[of "\<lambda>x. sm_src x \<noteq> None" n xs] assms(1) unfolding tagged_def by blast
  with assms(2) show ?thesis by (auto simp: last_drop)
qed

lemma push_tape:
  assumes inv: "tape_inv cfg e" and p: "0 < sm_price x" and m: "0 < lc_maxlen cfg"
    and own: "sm_src x \<noteq> None \<Longrightarrow> \<not> owner_blocks cfg k (sm_ts x) (the (sm_src x)) e"
    and e': "e' = (case sm_src x of None \<Rightarrow> e
      | Some s \<Rightarrow> e\<lparr>le_primary_src := (le_primary_src e)(k \<mapsto> s), le_primary_ts := (le_primary_ts e)(k \<mapsto> sm_ts x)\<rparr>)"
  shows "tape_inv cfg (push_sample cfg k x e')"
proof -
  let ?xs = "le_samples e k"
  have old: "length ?xs \<le> lc_maxlen cfg" "\<forall>x\<in>set ?xs. 0 < sm_price x"
    "handover_ok (lc_primary_ttl cfg) (tagged ?xs)"
    "tagged ?xs \<noteq> [] \<Longrightarrow> le_primary_src e k = sm_src (last (tagged ?xs)) \<and>
       le_primary_ts e k = Some (sm_ts (last (tagged ?xs)))"
    using inv by (simp_all add: tape_inv_def)
  have "deque_append (lc_maxlen cfg) ?xs x = drop (length (?xs @ [x]) - lc_maxlen cfg) (?xs @ [x])"
    by (simp only: deque_append_def Let_def)
  then obtain n where dq: "deque_append (lc_maxlen cfg) ?xs x = drop n (?xs @ [x])" by blast
  have tag: "tagged (?xs @ [x]) = tagged ?xs @ (if sm_src x = None then [] else [x])"
    by (simp add: tagged_def)
  have "tagged ?xs = [] \<or> sm_src (last (tagged ?xs)) = sm_src x \<or>
      sm_ts x - sm_ts (last (tagged ?xs)) > lc_primary_ttl cfg" if "sm_src x \<noteq> None"
  proof (cases "tagged ?xs = []")
    case False
    then have "last (tagged ?xs) \<in> set (tagged ?xs)" by (rule last_in_set)
    then obtain a where "sm_src (last (tagged ?xs)) = Some a" by (auto simp: tagged_def)
    with own[OF that] old(4)[OF False] that show ?thesis by (auto simp: owner_blocks_def)
  qed simp
  then have "handover_ok (lc_primary_ttl cfg) (tagged (?xs @ [x]))"
    using old(3) by (simp add: tag handover_ok_snoc)
  then have hand: "handover_ok (lc_primary_ttl cfg) (tagged (drop n (?xs @ [x])))"
    unfolding tagged_def by (metis filter_drop_suffix handover_ok_drop)
  have samples: "le_samples (push_sample cfg k x e') k' = (if k' = k then drop n (?xs @ [x]) else le_samples e k')" for k'
    using e' dq by (simp add: push_sample_def split: option.splits)
  have prim: "k' \<noteq> k \<Longrightarrow> le_primary_src (push_sample cfg k x e') k' = le_primary_src e k'"
    "k' \<noteq> k \<Longrightarrow> le_primary_ts (push_sample cfg k x e') k' = le_primary_ts e k'" for k'
    using e' by (simp_all add: push_sample_def split: option.splits)
  have "le_primary_src (push_sample cfg k x e') k = sm_src (last (tagged (?xs @ [x]))) \<and>
      le_primary_ts (push_sample cfg k x e') k = Some (sm_ts (last (tagged (?xs @ [x]))))"
    if "tagged (?xs @ [x]) \<noteq> []"
  proof (cases "sm_src x")
    case None
    with that old(4) e' show ?thesis by (simp add: tag push_sample_def)
  next
    case (Some s)
    with e' show ?thesis by (simp add: tag push_sample_def)
  qed
  then have own': "le_primary_src (push_sample cfg k x e') k = sm_src (last (tagged (drop n (?xs @ [x])))) \<and>
      le_primary_ts (push_sample cfg k x e') k = Some (sm_ts (last (tagged (drop n (?xs @ [x])))))"
    if "tagged (drop n (?xs @ [x])) \<noteq> []"
    using tagged_suffix[OF refl that] by simp
  have len: "length (drop n (?xs @ [x])) \<le> lc_maxlen cfg"
    using length_deque_append[OF old(1), of x] dq by simp
  have pos: "\<forall>y\<in>set (drop n (?xs @ [x])). 0 < sm_price y"
    using old(2) p by (auto dest: in_set_dropD)
  have "length (le_samples (push_sample cfg k x e') k') \<le> lc_maxlen cfg \<and>
     (\<forall>x\<in>set (le_samples (push_sample cfg k x e') k'). 0 < sm_price x) \<and>
     handover_ok (lc_primary_ttl cfg) (tagged (le_samples (push_sample cfg k x e') k')) \<and>
     (tagged (le_samples (push_sample cfg k x e') k') \<noteq> [] \<longrightarrow>
        le_primary_src (push_sample cfg k x e') k' = sm_src (last (tagged (le_samples (push_sample cfg k x e') k'))) \<and>
        le_primary_ts (push_sample cfg k x e') k' = Some (sm_ts (last (tagged (le_samples (push_sample cfg k x e') k')))))" for k'
  proof (cases "k' = k")
    case True
    then have "le_samples (push_sample cfg k x e') k' = drop n (?xs @ [x])" unfolding samples by simp
    with True len pos hand own' show ?thesis by simp
  next
    case False
    with inv show ?thesis by (simp add: samples prim tape_inv_def)
  qed
  then show ?thesis unfolding tape_inv_def by blast
qed

lemma record_sample_inv:
  assumes "tape_inv cfg e" "0 < lc_maxlen cfg"
  shows "tape_inv cfg (record_sample cfg sm exch p c now src e)"
proof (cases "p = None \<or> the p \<le> 0 \<or> (\<exists>s. src = Some s \<and> owner_blocks cfg (live_key sm exch) now s e)")
  case True
  with assms(1) show ?thesis by (auto simp: record_sample_def Let_def split: option.splits)
next
  case False
  then obtain q where q: "p = Some q" "0 < q" by auto
  let ?x = "\<lparr>sm_ts = now, sm_price = q, sm_cum = (case c of None \<Rightarrow> 0 | Some c \<Rightarrow> c), sm_src = src\<rparr>"
  have "record_sample cfg sm exch p c now src e = push_sample cfg (live_key sm exch) ?x
     (case src of None \<Rightarrow> e | Some s \<Rightarrow> e\<lparr>le_primary_src := (le_primary_src e)(live_key sm exch \<mapsto> s),
        le_primary_ts := (le_primary_ts e)(live_key sm exch \<mapsto> now)\<rparr>)"
    using False q by (auto simp: record_sample_def Let_def split: option.splits)
  moreover have "tape_inv cfg (push_sample cfg (live_key sm exch) ?x
     (case src of None \<Rightarrow> e | Some s \<Rightarrow> e\<lparr>le_primary_src := (le_primary_src e)(live_key sm exch \<mapsto> s),
        le_primary_ts := (le_primary_ts e)(live_key sm exch \<mapsto> now)\<rparr>))"
    using False q by (intro push_tape[OF assms(1) _ assms(2)]) (auto split: option.splits)
  ultimately show ?thesis by simp
qed

lemma live_reach_tape: "live_reach cfg e \<Longrightarrow> 0 < lc_maxlen cfg \<Longrightarrow> tape_inv cfg e"
proof (induction rule: live_reach.induct)
  case start
  then show ?case by (simp add: tape_inv_def new_engine_def tagged_def)
next
  case (sampled e sm exch p c now src)
  then show ?case by (simp add: record_sample_inv)
next
  case (ensured e sm exch now)
  then show ?case
    by (auto simp: ensure_recorder_def Let_def touch_read_def intro: tape_inv_frame[of _ e])
next
  case (built e sm exch seconds limit now)
  then show ?case by (auto simp: build_def Let_def touch_read_def intro: tape_inv_frame[of _ e])
next
  case (tailed e sm exch now)
  then show ?case by (auto simp: latest_tick_def Let_def touch_read_def intro: tape_inv_frame[of _ e])
next
  case (stopped e k)
  then show ?case by (auto intro: tape_inv_frame[of _ e])
qed

section \<open>The candles\<close>

fun live_points :: "rat \<Rightarrow> rat option \<Rightarrow> string option \<Rightarrow> sample list \<Rightarrow> point list" where
  "live_points seconds pc ps [] = []"
| "live_points seconds pc ps (x # xs) =
     (\<lfloor>sm_ts x / seconds\<rfloor>, sm_price x,
      case pc of None \<Rightarrow> 0 | Some c \<Rightarrow> if sm_src x = ps \<and> sm_cum x \<ge> c then sm_cum x - c else 0)
     # live_points seconds (Some (sm_cum x)) (sm_src x) xs"

lemma build_fold:
  "fst (foldl (build_step seconds) (d, pc, ps) xs) = foldl (\<lambda>d pt. bucket_add pt d) d (live_points seconds pc ps xs)"
  by (induction xs arbitrary: d pc ps) (simp_all add: build_step_def Let_def)

lemma build_cells_points: "build_cells seconds xs = bucket_points (live_points seconds None None xs)"
  by (simp add: build_cells_def bucket_points_def build_fold)

lemma live_points_nonneg: "(i, p, v) \<in> set (live_points seconds pc ps xs) \<Longrightarrow> 0 \<le> v"
  by (induction xs arbitrary: pc ps) (auto split: option.splits if_splits)

lemma live_points_index: "map fst (live_points seconds pc ps xs) = map (\<lambda>x. \<lfloor>sm_ts x / seconds\<rfloor>) xs"
  by (induction xs arbitrary: pc ps) auto

lemma live_points_sorted:
  assumes "sorted (map sm_ts xs)" "0 < seconds"
  shows "sorted (map fst (live_points seconds pc ps xs))"
proof -
  have "sorted_wrt (\<lambda>x y. \<lfloor>sm_ts x / seconds\<rfloor> \<le> \<lfloor>sm_ts y / seconds\<rfloor>) xs"
    using assms(1) unfolding sorted_map
    by (rule sorted_wrt_mono_rel[rotated]) (use assms(2) in \<open>simp add: floor_mono divide_right_mono\<close>)
  then show ?thesis unfolding live_points_index sorted_map .
qed

lemma live_volume_one_source:
  assumes "\<forall>x\<in>set xs. sm_src x = src" "sorted (c # map sm_cum xs)"
  shows "sum_list (map (\<lambda>(i, p, v). v) (live_points seconds (Some c) src xs)) =
    last (c # map sm_cum xs) - c"
  using assms by (induction xs arbitrary: c) auto

lemma last_n_map: "last_n n (map f xs) = map f (last_n n xs)"
  by (simp add: last_n_def drop_map)

text \<open>
  The candles by definition, with no loop: the buckets in the order their first samples came,
  and for each the first, highest, lowest and last price of its samples and the volume they
  gained. A sample gains volume only over its predecessor on the tape, from the same source
  and with a cumulative volume that did not fall.
\<close>

definition bucket_no :: "rat \<Rightarrow> sample \<Rightarrow> int" where
  "bucket_no seconds x = \<lfloor>sm_ts x / seconds\<rfloor>"

definition gain :: "sample list \<Rightarrow> nat \<Rightarrow> rat" where
  "gain xs k =
     (if 0 < k \<and> sm_src (xs ! k) = sm_src (xs ! (k - 1)) \<and> sm_cum (xs ! (k - 1)) \<le> sm_cum (xs ! k)
      then sm_cum (xs ! k) - sm_cum (xs ! (k - 1)) else 0)"

definition bar_of_bucket :: "rat \<Rightarrow> sample list \<Rightarrow> int \<Rightarrow> bar" where
  "bar_of_bucket seconds xs i =
     (let ks = filter (\<lambda>k. bucket_no seconds (xs ! k) = i) [0..<length xs];
          prices = map (\<lambda>k. sm_price (xs ! k)) ks
      in \<lparr>b_time = of_int i * seconds, b_open = py_round 2 (hd prices),
          b_high = py_round 2 (Max (set prices)), b_low = py_round 2 (Min (set prices)),
          b_close = py_round 2 (last prices), b_volume = py_trunc (\<Sum>k\<leftarrow>ks. gain xs k)\<rparr>)"

lemma live_points_nth:
  "k < length xs \<Longrightarrow> live_points seconds pc ps xs ! k =
     (bucket_no seconds (xs ! k), sm_price (xs ! k),
      if k = 0 then (case pc of None \<Rightarrow> 0 | Some c \<Rightarrow> if sm_src (xs ! k) = ps \<and> sm_cum (xs ! k) \<ge> c
                       then sm_cum (xs ! k) - c else 0)
      else gain xs k)"
proof (induction xs arbitrary: pc ps k)
  case (Cons x xs)
  then show ?case by (cases k; cases "k - 1") (auto simp: bucket_no_def gain_def split: option.split)
qed simp

lemma live_points_length: "length (live_points seconds pc ps xs) = length xs"
  by (induction xs arbitrary: pc ps) auto

lemma live_points_eq:
  "live_points seconds None None xs =
     map (\<lambda>k. (bucket_no seconds (xs ! k), sm_price (xs ! k), gain xs k)) [0..<length xs]"
  by (rule nth_equalityI) (auto simp: live_points_length live_points_nth gain_def)

lemma bar_of_bucket_group:
  assumes "group_cell (group_of i (live_points seconds None None xs)) = Some c"
  shows "cell_bar seconds (i, c) = bar_of_bucket seconds xs i"
proof -
  let ?ks = "filter (\<lambda>k. bucket_no seconds (xs ! k) = i) [0..<length xs]"
  have g: "group_of i (live_points seconds None None xs) = map (\<lambda>k. (sm_price (xs ! k), gain xs k)) ?ks"
    by (simp add: group_of_def live_points_eq filter_map comp_def)
  with assms have "?ks \<noteq> []" by (metis group_cell.simps(1) list.simps(8) option.distinct(1))
  with group_cell_eq[OF assms] show ?thesis
    by (simp add: g bar_of_bucket_def cell_bar_def Let_def comp_def hd_map last_map image_image)
qed

section \<open>Properties\<close>

text \<open>C10: The sample tape of every reachable engine is bounded, has positive prices, and is single-source: two
  neighbouring tagged samples come from the same source unless the earlier owner had been
  silent for longer than the takeover time.\<close>
theorem tape_single_source:
  assumes "live_reach cfg e" "0 < lc_maxlen cfg"
  shows "length (le_samples e k) \<le> lc_maxlen cfg \<and> (\<forall>x\<in>set (le_samples e k). 0 < sm_price x) \<and>
    handover_ok (lc_primary_ttl cfg) (tagged (le_samples e k))"
  using live_reach_tape[OF assms] by (simp add: tape_inv_def)

definition demo_engine :: engine where
  "demo_engine = record_sample default_live_cfg ''TCS'' ''NSE'' (Some 101) (Some 15) 12 (Some ''b'')
     (record_sample default_live_cfg ''TCS'' ''NSE'' (Some 99) (Some 70) 2 (Some ''b'')
       (record_sample default_live_cfg ''TCS'' ''NSE'' (Some 100) (Some 10) 1 (Some ''a'') new_engine))"

theorem tape_single_source_witness:
  "handover_ok 5 (tagged (le_samples demo_engine ''NSE:TCS'')) \<and>
   map sm_src (le_samples demo_engine ''NSE:TCS'') = [Some ''a'', Some ''b'']"
proof -
  have r: "live_reach default_live_cfg demo_engine"
    unfolding demo_engine_def by (intro live_reach.intros)
  have k: "live_key ''TCS'' ''NSE'' = ''NSE:TCS''"
    by (simp add: live_key_def upper_def upper_char_def)
  show ?thesis
    using tape_single_source[OF r, of "''NSE:TCS''"]
    by (simp add: default_live_cfg_def demo_engine_def record_sample_def k push_sample_def owner_blocks_def
        new_engine_def deque_append_def Let_def)
qed

text \<open>C8: The bars \<^verbatim>\<open>build\<close> returns are exactly the candles by definition: one bar for each of the last
  \<open>limit\<close> buckets that some sample fell in, in the order the buckets were first hit, none left
  out and none invented, each with the first, highest, lowest and last price of the bucket's
  samples and the volume they gained over their predecessors on the tape. Every bar is well
  formed (low at most open and close, these at most high, volume not negative), and for a
  chronological tape the bars come in strictly increasing time.\<close>
theorem live_build_refines:
  assumes "0 < seconds" "le_samples e (live_key sm exch) = xs" "fst (build sm exch seconds limit now e) = bars"
  shows "bars = map (bar_of_bucket seconds xs) (last_n limit (first_seen (map (bucket_no seconds) xs))) \<and>
    (\<forall>b\<in>set bars. bar_ok b) \<and> (sorted (map sm_ts xs) \<longrightarrow> sorted_wrt (<) (map b_time bars))"
proof -
  let ?pts = "live_points seconds None None xs"
  have bars: "bars = map (cell_bar seconds) (last_n limit (bucket_points ?pts))"
    using assms by (cases "xs = []")
      (auto simp: build_def Let_def touch_read_def build_cells_points bucket_points_def last_n_def)
  have cell: "group_cell (group_of i ?pts) = Some c" if "(i, c) \<in> set (bucket_points ?pts)" for i c
    using that bucket_points_distinct[of ?pts] by (simp add: bucket_points_spec[symmetric])
  have keys: "map fst (bucket_points ?pts) = first_seen (map (bucket_no seconds) xs)"
    by (simp add: bucket_points_order live_points_index bucket_no_def[abs_def])
  have "bars = map (\<lambda>e. bar_of_bucket seconds xs (fst e)) (last_n limit (bucket_points ?pts))"
    unfolding bars
  proof (rule map_cong[OF refl])
    fix p assume "p \<in> set (last_n limit (bucket_points ?pts))"
    then have "(fst p, snd p) \<in> set (bucket_points ?pts)" using set_last_n by fastforce
    from bar_of_bucket_group[OF cell[OF this]] show "cell_bar seconds p = bar_of_bucket seconds xs (fst p)" by simp
  qed
  also have "\<dots> = map (bar_of_bucket seconds xs) (last_n limit (map fst (bucket_points ?pts)))"
    by (simp add: last_n_map comp_def)
  finally have eq: "bars = map (bar_of_bucket seconds xs) (last_n limit (map fst (bucket_points ?pts)))" .
  have "bar_ok b" if "b \<in> set bars" for b
  proof -
    from that obtain i c where b: "b = cell_bar seconds (i, c)" "(i, c) \<in> set (bucket_points ?pts)"
      using set_last_n[of limit "bucket_points ?pts"] by (auto simp: bars)
    then have "cell_ok c" using bucket_cells_ok[of ?pts i c] live_points_nonneg by blast
    then show ?thesis using b(1) by (simp add: cell_bar_ok)
  qed
  moreover have "sorted_wrt (<) (map b_time bars)" if "sorted (map sm_ts xs)"
  proof -
    have "sorted_wrt (<) (last_n limit (map fst (bucket_points ?pts)))"
      using bucket_points_sorted[OF live_points_sorted[OF that assms(1)]] by (rule sorted_wrt_last_n)
    then show ?thesis
      unfolding eq sorted_wrt_map
      by (rule sorted_wrt_mono_rel[rotated]) (use assms(1) in \<open>auto simp: bar_of_bucket_def Let_def\<close>)
  qed
  ultimately show ?thesis using eq keys by simp
qed

text \<open>Bars of ten seconds over three samples of one source.\<close>

definition demo_tape :: engine where
  "demo_tape = new_engine\<lparr>le_samples := (\<lambda>k. if k = ''NSE:TCS'' then
     [\<lparr>sm_ts = 1, sm_price = 100, sm_cum = 10, sm_src = None\<rparr>, \<lparr>sm_ts = 9, sm_price = 98, sm_cum = 14, sm_src = None\<rparr>,
      \<lparr>sm_ts = 12, sm_price = 101, sm_cum = 15, sm_src = None\<rparr>] else [])\<rparr>"

theorem live_build_refines_witness:
  "map (\<lambda>b. (b_time b, b_volume b)) (fst (build ''TCS'' ''NSE'' 10 300 20 demo_tape)) = [(0, 4), (10, 1)]"
proof -
  have k: "live_key ''TCS'' ''NSE'' = ''NSE:TCS''"
    by (simp add: live_key_def upper_def upper_char_def)
  have f: "\<lfloor>(1 / 10 :: rat)\<rfloor> = 0" "\<lfloor>(9 / 10 :: rat)\<rfloor> = 0" "\<lfloor>(6 / 5 :: rat)\<rfloor> = 1"
    by (simp_all add: floor_eq_iff)
  show ?thesis
    unfolding conjunct1[OF live_build_refines[where seconds = 10 and sm = "''TCS''" and exch = "''NSE''" and
          limit = 300 and now = 20 and e = demo_tape, OF _ refl refl, unfolded k, simplified]]
    by (simp add: demo_tape_def new_engine_def first_seen_def last_n_def bucket_no_def bar_of_bucket_def Let_def
        upt_rec gain_def py_trunc_def f)
qed

text \<open>C9: Volume is conserved: for a tape of one source whose cumulative volume does not fall, the volumes of all
  buckets add up to the last cumulative volume minus the first, whatever the bar width.\<close>
theorem live_volume_conserved:
  assumes "xs \<noteq> []" "\<forall>x\<in>set xs. sm_src x = src" "sorted (map sm_cum xs)"
  shows "sum_list (map (\<lambda>e. c_vol (snd e)) (build_cells seconds xs)) = sm_cum (last xs) - sm_cum (hd xs)"
proof (cases xs)
  case (Cons x ys)
  have "sum_list (map (\<lambda>(i, p, v). v) (live_points seconds (Some (sm_cum x)) src ys)) =
      last (sm_cum x # map sm_cum ys) - sm_cum x"
    using live_volume_one_source[of ys src "sm_cum x" seconds] assms(2,3) Cons by simp
  with assms(2) Cons show ?thesis
    by (simp add: build_cells_points bucket_points_volume last_map)
qed (use assms(1) in simp)

theorem live_volume_conserved_witness:
  "sum_list (map (\<lambda>e. c_vol (snd e)) (build_cells 10
     [\<lparr>sm_ts = 1, sm_price = 100, sm_cum = 10, sm_src = None\<rparr>, \<lparr>sm_ts = 12, sm_price = 101, sm_cum = 15, sm_src = None\<rparr>])) = 5"
  using live_volume_conserved[of "[\<lparr>sm_ts = 1, sm_price = 100, sm_cum = 10, sm_src = None\<rparr>,
      \<lparr>sm_ts = 12, sm_price = 101, sm_cum = 15, sm_src = None\<rparr>]" None 10]
  by simp

end
