(* ===== verification/LiveQuote.thy ===== *)
theory LiveQuote
  imports MarketData LiveCandles
begin

text \<open>
  The live-quote path of \<^verbatim>\<open>src/api/endpoints/superbrain.py\<close>: \<^verbatim>\<open>_do_live_fetch\<close>, which composes the market-data
  service with the live-candle engine (\<open>do_live_fetch\<close>), and the single flight of \<^verbatim>\<open>_live_quote\<close>. The latter
  interleaves on the event loop, so it is a labelled step relation (\<open>flight_do\<close>) over the two module
  dictionaries, the tasks and the callers that wait for them. One event is one uninterrupted run of the
  loop: a request, the end of a fetch (also by an exception), its done callback, the wake-up of a waiter, and the cancellation
  of a waiter, which \<^verbatim>\<open>return await task\<close> passes on to the task itself.
\<close>

section \<open>One fetch\<close>

record fetch_result =
  fr_reply :: through_result
  fr_controller :: controller
  fr_engine :: engine
  fr_writes :: "tick list"

definition feed_engine :: "live_cfg \<Rightarrow> string \<Rightarrow> string \<Rightarrow> secs \<Rightarrow> tick \<Rightarrow> engine \<Rightarrow> engine" where
  "feed_engine cfg sm exch now t e =
     (if tk_exchange t = upper exch then record_tick cfg sm exch t now e else e)"

fun job_list :: "'a option \<Rightarrow> 'a list" where
  "job_list None = []"
| "job_list (Some j) = [j]"

text \<open>\<open>env1\<close> and \<open>env2\<close> answer the two reads; \<open>mkt\<close> is the market when the first one came back empty.\<close>

definition do_live_fetch :: "live_cfg \<Rightarrow> (string \<Rightarrow> string \<Rightarrow> tick attempt) \<Rightarrow> (string \<Rightarrow> string \<Rightarrow> tick attempt) \<Rightarrow> bool \<Rightarrow> secs \<Rightarrow>
    string \<Rightarrow> string \<Rightarrow> controller \<Rightarrow> engine \<Rightarrow> fetch_result" where
  "do_live_fetch cfg env1 env2 mkt now sm exch c e =
     (case get_quote_through env1 sm exch None True True False c of
        (Cancelled, c1, j1) \<Rightarrow> \<lparr>fr_reply = Cancelled, fr_controller = c1, fr_engine = e, fr_writes = job_list j1\<rparr>
      | (Quote (Some t), c1, j1) \<Rightarrow>
          \<lparr>fr_reply = Quote (Some t), fr_controller = c1, fr_engine = feed_engine cfg sm exch now t e, fr_writes = job_list j1\<rparr>
      | (Quote None, c1, j1) \<Rightarrow>
          if mkt then \<lparr>fr_reply = Quote None, fr_controller = c1, fr_engine = e, fr_writes = job_list j1\<rparr>
          else (case get_quote_through env2 sm exch None True False False c1 of
                  (Quote (Some t), c2, j2) \<Rightarrow>
                    \<lparr>fr_reply = Quote (Some t), fr_controller = c2, fr_engine = feed_engine cfg sm exch now t e,
                     fr_writes = job_list j1 @ job_list j2\<rparr>
                | (r, c2, j2) \<Rightarrow> \<lparr>fr_reply = r, fr_controller = c2, fr_engine = e, fr_writes = job_list j1 @ job_list j2\<rparr>))"

section \<open>Single flight\<close>

text \<open>How a task ends: with a tick or none, cancelled, or with an exception that escapes from
  \<^verbatim>\<open>_do_live_fetch\<close> and is raised in every caller that waits.\<close>

datatype fetch_end = Gave through_result | Broke string

datatype task = Running string | Done string fetch_end

fun task_key :: "task \<Rightarrow> string" where
  "task_key (Running k) = k"
| "task_key (Done k r) = k"

record flight =
  fl_ttl :: secs
  fl_cache :: "string \<rightharpoonup> secs \<times> tick"
  fl_inflight :: "string \<rightharpoonup> nat"
  fl_tasks :: "task list"
  fl_waiting :: "(nat \<times> string \<times> nat) list"

definition new_flight :: "secs \<Rightarrow> flight" where
  "new_flight ttl = \<lparr>fl_ttl = ttl, fl_cache = Map.empty, fl_inflight = Map.empty, fl_tasks = [], fl_waiting = []\<rparr>"

definition flight_key :: "string \<Rightarrow> string \<Rightarrow> string" where
  "flight_key sm exch = upper exch @ '':'' @ upper sm"

datatype flight_event =
    Ask nat string secs
  | Finish nat fetch_end secs
  | Retire nat
  | Wake nat
  | Drop nat

text \<open>The answers an event gives to callers.\<close>

type_synonym replies = "(nat \<times> fetch_end) list"

definition fresh_hit :: "string \<Rightarrow> secs \<Rightarrow> flight \<Rightarrow> tick option" where
  "fresh_hit k now s =
     (case fl_cache s k of None \<Rightarrow> None | Some (t0, t) \<Rightarrow> if now - t0 < fl_ttl s then Some t else None)"

text \<open>The body of \<^verbatim>\<open>_live_quote\<close> up to its \<^verbatim>\<open>await\<close>, for a caller \<open>who\<close> and the key \<open>k\<close>.\<close>

definition live_quote :: "nat \<Rightarrow> string \<Rightarrow> secs \<Rightarrow> flight \<Rightarrow> flight \<times> replies" where
  "live_quote who k now s =
     (case fresh_hit k now s of
        Some t \<Rightarrow> (s, [(who, Gave (Quote (Some t)))])
      | None \<Rightarrow>
          (case fl_inflight s k of
             Some i \<Rightarrow> (s\<lparr>fl_waiting := fl_waiting s @ [(who, k, i)]\<rparr>, [])
           | None \<Rightarrow>
               (s\<lparr>fl_tasks := fl_tasks s @ [Running k], fl_inflight := (fl_inflight s)(k \<mapsto> length (fl_tasks s)),
                  fl_waiting := fl_waiting s @ [(who, k, length (fl_tasks s))]\<rparr>, [])))"

definition finish_task :: "nat \<Rightarrow> fetch_end \<Rightarrow> secs \<Rightarrow> flight \<Rightarrow> flight" where
  "finish_task i r now s =
     (let k = task_key (fl_tasks s ! i)
      in s\<lparr>fl_tasks := (fl_tasks s)[i := Done k r],
           fl_cache := (case r of Gave (Quote (Some t)) \<Rightarrow> (fl_cache s)(k \<mapsto> (now, t)) | _ \<Rightarrow> fl_cache s)\<rparr>)"

definition leave :: "nat \<Rightarrow> flight \<Rightarrow> flight" where
  "leave who s = s\<lparr>fl_waiting := filter (\<lambda>w. fst w \<noteq> who) (fl_waiting s)\<rparr>"

text \<open>One event; \<open>None\<close> when it cannot happen. The done callback pops the key of its task.\<close>

fun flight_do :: "flight_event \<Rightarrow> flight \<Rightarrow> (flight \<times> replies) option" where
  "flight_do (Ask who k now) s =
     (if who \<in> fst ` set (fl_waiting s) then None else Some (live_quote who k now s))"
| "flight_do (Finish i r now) s =
     (if i < length (fl_tasks s) \<and> fl_tasks s ! i = Running (task_key (fl_tasks s ! i))
      then Some (finish_task i r now s, []) else None)"
| "flight_do (Retire i) s =
     (if i < length (fl_tasks s) \<and> fl_tasks s ! i \<noteq> Running (task_key (fl_tasks s ! i)) \<and>
         fl_inflight s (task_key (fl_tasks s ! i)) = Some i
      then Some (s\<lparr>fl_inflight := (fl_inflight s)(task_key (fl_tasks s ! i) := None)\<rparr>, []) else None)"
| "flight_do (Wake who) s =
     (case map_of (fl_waiting s) who of
        None \<Rightarrow> None
      | Some (k, i) \<Rightarrow> (case fl_tasks s ! i of Running _ \<Rightarrow> None | Done _ r \<Rightarrow> Some (leave who s, [(who, r)])))"
| "flight_do (Drop who) s =
     (case map_of (fl_waiting s) who of
        None \<Rightarrow> None
      | Some (k, i) \<Rightarrow> Some (leave who (case fl_tasks s ! i of
            Running _ \<Rightarrow> s\<lparr>fl_tasks := (fl_tasks s)[i := Done (task_key (fl_tasks s ! i)) (Gave Cancelled)]\<rparr>
          | Done _ _ \<Rightarrow> s), []))"

inductive flight_run :: "flight \<Rightarrow> flight_event list \<Rightarrow> flight \<Rightarrow> replies \<Rightarrow> bool" where
  none: "flight_run s [] s []"
| event: "flight_do e s = Some (s1, rs) \<Longrightarrow> flight_run s1 es s2 rs' \<Longrightarrow> flight_run s (e # es) s2 (rs @ rs')"

inductive_cases flight_run_NilE [elim!]: "flight_run s [] s' rs"
inductive_cases flight_run_ConsE [elim!]: "flight_run s (e # es) s' rs"

lemma flight_run_append:
  "flight_run s es s1 rs \<Longrightarrow> flight_run s1 es' s2 rs' \<Longrightarrow> flight_run s (es @ es') s2 (rs @ rs')"
  by (induction rule: flight_run.induct) (auto simp: intro: flight_run.event)

section \<open>Invariant\<close>

definition is_running :: "flight \<Rightarrow> nat \<Rightarrow> string \<Rightarrow> bool" where
  "is_running s i k \<longleftrightarrow> i < length (fl_tasks s) \<and> fl_tasks s ! i = Running k"

text \<open>An in-flight entry names a task of its key, every running task has the entry of its key, waiters wait
  for a task of the key they asked for and wait once.\<close>

definition flight_inv :: "flight \<Rightarrow> bool" where
  "flight_inv s \<longleftrightarrow>
     (\<forall>k i. fl_inflight s k = Some i \<longrightarrow> i < length (fl_tasks s) \<and> task_key (fl_tasks s ! i) = k) \<and>
     (\<forall>i k. is_running s i k \<longrightarrow> fl_inflight s k = Some i) \<and>
     (\<forall>w k i. (w, k, i) \<in> set (fl_waiting s) \<longrightarrow> i < length (fl_tasks s) \<and> task_key (fl_tasks s ! i) = k) \<and>
     distinct (map fst (fl_waiting s))"

lemma flight_invI:
  assumes "\<And>k i. fl_inflight s k = Some i \<Longrightarrow> i < length (fl_tasks s) \<and> task_key (fl_tasks s ! i) = k"
    and "\<And>i k. is_running s i k \<Longrightarrow> fl_inflight s k = Some i"
    and "\<And>w k i. (w, k, i) \<in> set (fl_waiting s) \<Longrightarrow> i < length (fl_tasks s) \<and> task_key (fl_tasks s ! i) = k"
    and "distinct (map fst (fl_waiting s))"
  shows "flight_inv s"
  using assms unfolding flight_inv_def by blast

lemma inflightD: "flight_inv s \<Longrightarrow> fl_inflight s k = Some i \<Longrightarrow> i < length (fl_tasks s) \<and> task_key (fl_tasks s ! i) = k"
  unfolding flight_inv_def by blast

lemma runningD: "flight_inv s \<Longrightarrow> is_running s i k \<Longrightarrow> fl_inflight s k = Some i"
  unfolding flight_inv_def by blast

lemma running_entry:
  "flight_inv s \<Longrightarrow> i < length (fl_tasks s) \<Longrightarrow> fl_tasks s ! i = Running k \<Longrightarrow> fl_inflight s k = Some i"
  using runningD by (simp add: is_running_def)

lemma waitingD:
  "flight_inv s \<Longrightarrow> (w, k, i) \<in> set (fl_waiting s) \<Longrightarrow> i < length (fl_tasks s) \<and> task_key (fl_tasks s ! i) = k"
  unfolding flight_inv_def by blast

lemma waiting_distinct: "flight_inv s \<Longrightarrow> distinct (map fst (fl_waiting s))"
  unfolding flight_inv_def by blast

lemma flight_inv_new: "flight_inv (new_flight ttl)"
  by (simp add: flight_inv_def new_flight_def is_running_def)

lemma flight_inv_cache [simp]: "flight_inv (s\<lparr>fl_cache := c\<rparr>) = flight_inv s"
  by (simp add: flight_inv_def is_running_def)

lemma flight_inv_leave:
  assumes "flight_inv s" shows "flight_inv (leave who s)"
proof (rule flight_invI)
  show "distinct (map fst (fl_waiting (leave who s)))"
    using waiting_distinct[OF assms] by (simp add: leave_def distinct_map_filter)
qed (auto simp: leave_def is_running_def dest: inflightD[OF assms] waitingD[OF assms] intro: running_entry[OF assms])

text \<open>Ending a task keeps its key.\<close>

definition end_task :: "nat \<Rightarrow> fetch_end \<Rightarrow> flight \<Rightarrow> flight" where
  "end_task i r s = s\<lparr>fl_tasks := (fl_tasks s)[i := Done (task_key (fl_tasks s ! i)) r]\<rparr>"

lemma end_task_sel [simp]:
  "fl_inflight (end_task i r s) = fl_inflight s" "fl_waiting (end_task i r s) = fl_waiting s"
  "length (fl_tasks (end_task i r s)) = length (fl_tasks s)" "fl_cache (end_task i r s) = fl_cache s"
  by (simp_all add: end_task_def)

lemma end_task_nth: "fl_tasks (end_task i r s) ! j =
    (if i = j \<and> i < length (fl_tasks s) then Done (task_key (fl_tasks s ! i)) r else fl_tasks s ! j)"
  by (cases "i < length (fl_tasks s)") (simp_all add: end_task_def nth_list_update list_update_beyond)

lemma end_task_key [simp]: "task_key (fl_tasks (end_task i r s) ! j) = task_key (fl_tasks s ! j)"
  by (simp add: end_task_nth)

lemma end_task_running: "is_running (end_task i r s) j k \<Longrightarrow> is_running s j k"
  by (auto simp: is_running_def end_task_nth split: if_splits)

lemma flight_inv_end: assumes "flight_inv s" shows "flight_inv (end_task i r s)"
proof (rule flight_invI)
  show "distinct (map fst (fl_waiting (end_task i r s)))" using waiting_distinct[OF assms] by simp
qed (auto dest!: end_task_running dest: runningD[OF assms] inflightD[OF assms] waitingD[OF assms])

lemma flight_inv_waiter:
  assumes "flight_inv s" "fl_inflight s k = Some i" "who \<notin> fst ` set (fl_waiting s)"
  shows "flight_inv (s\<lparr>fl_waiting := fl_waiting s @ [(who, k, i)]\<rparr>)"
proof (rule flight_invI)
  show "distinct (map fst (fl_waiting (s\<lparr>fl_waiting := fl_waiting s @ [(who, k, i)]\<rparr>)))"
    using waiting_distinct[OF assms(1)] assms(3) by simp
qed (auto simp: is_running_def inflightD[OF assms(1,2)] dest: inflightD[OF assms(1)] waitingD[OF assms(1)]
      intro: running_entry[OF assms(1)])

definition start_task :: "string \<Rightarrow> flight \<Rightarrow> flight" where
  "start_task k s = s\<lparr>fl_tasks := fl_tasks s @ [Running k], fl_inflight := (fl_inflight s)(k \<mapsto> length (fl_tasks s))\<rparr>"

lemma flight_inv_start:
  assumes "flight_inv s" "fl_inflight s k = None" shows "flight_inv (start_task k s)"
proof (rule flight_invI)
  fix i k' assume run: "is_running (start_task k s) i k'"
  show "fl_inflight (start_task k s) k' = Some i"
  proof (cases "i < length (fl_tasks s)")
    case True
    with run have "is_running s i k'" by (simp add: is_running_def start_task_def nth_append)
    from runningD[OF assms(1) this] assms(2) show ?thesis by (auto simp: start_task_def)
  next
    case False
    with run show ?thesis by (auto simp: is_running_def start_task_def nth_append split: if_splits)
  qed
next
  show "distinct (map fst (fl_waiting (start_task k s)))" using waiting_distinct[OF assms(1)] by (simp add: start_task_def)
next
  fix w k' i assume "(w, k', i) \<in> set (fl_waiting (start_task k s))"
  then have "(w, k', i) \<in> set (fl_waiting s)" by (simp add: start_task_def)
  from waitingD[OF assms(1) this]
  show "i < length (fl_tasks (start_task k s)) \<and> task_key (fl_tasks (start_task k s) ! i) = k'"
    by (simp add: start_task_def nth_append)
next
  fix k' i assume "fl_inflight (start_task k s) k' = Some i"
  then show "i < length (fl_tasks (start_task k s)) \<and> task_key (fl_tasks (start_task k s) ! i) = k'"
    using inflightD[OF assms(1), of k' i] by (auto simp: start_task_def nth_append split: if_splits)
qed

lemma live_quote_eq:
  "live_quote who k now s =
     (case fresh_hit k now s of Some t \<Rightarrow> (s, [(who, Gave (Quote (Some t)))])
      | None \<Rightarrow> (case fl_inflight s k of
            Some i \<Rightarrow> (s\<lparr>fl_waiting := fl_waiting s @ [(who, k, i)]\<rparr>, [])
          | None \<Rightarrow> ((start_task k s)\<lparr>fl_waiting := fl_waiting (start_task k s) @ [(who, k, length (fl_tasks s))]\<rparr>, [])))"
  by (auto simp: live_quote_def start_task_def split: option.split)

lemma live_quote_inv:
  assumes "flight_inv s" "who \<notin> fst ` set (fl_waiting s)" shows "flight_inv (fst (live_quote who k now s))"
proof (cases "fl_inflight s k")
  case None
  have "flight_inv ((start_task k s)\<lparr>fl_waiting := fl_waiting (start_task k s) @ [(who, k, length (fl_tasks s))]\<rparr>)"
    by (rule flight_inv_waiter[OF flight_inv_start[OF assms(1) None]]) (use assms(2) in \<open>auto simp: start_task_def\<close>)
  with assms(1) None show ?thesis by (simp add: live_quote_eq split: option.split)
next
  case (Some i)
  with assms flight_inv_waiter[OF assms(1) Some assms(2)] show ?thesis
    by (simp add: live_quote_eq split: option.split)
qed

lemma flight_inv_retire:
  assumes "flight_inv s" "\<And>k. \<not> is_running s i k" "fl_inflight s k0 = Some i"
  shows "flight_inv (s\<lparr>fl_inflight := (fl_inflight s)(k0 := None)\<rparr>)"
proof (rule flight_invI)
  fix j k assume "is_running (s\<lparr>fl_inflight := (fl_inflight s)(k0 := None)\<rparr>) j k"
  then have run: "is_running s j k" by (simp add: is_running_def)
  with runningD[OF assms(1) run] assms(2,3) have "k \<noteq> k0" by auto
  with runningD[OF assms(1) run] show "fl_inflight (s\<lparr>fl_inflight := (fl_inflight s)(k0 := None)\<rparr>) k = Some j" by simp
next
  show "distinct (map fst (fl_waiting (s\<lparr>fl_inflight := (fl_inflight s)(k0 := None)\<rparr>)))"
    using waiting_distinct[OF assms(1)] by simp
qed (auto dest: inflightD[OF assms(1)] waitingD[OF assms(1)] split: if_splits)

lemma finish_eq: "finish_task i r now s = (end_task i r s)\<lparr>fl_cache :=
    (case r of Gave (Quote (Some t)) \<Rightarrow> (fl_cache s)(task_key (fl_tasks s ! i) \<mapsto> (now, t)) | _ \<Rightarrow> fl_cache s)\<rparr>"
  by (simp add: finish_task_def end_task_def Let_def)

lemma drop_eq: "flight_do (Drop who) s =
     (case map_of (fl_waiting s) who of
        None \<Rightarrow> None
      | Some (k, i) \<Rightarrow> Some (leave who (case fl_tasks s ! i of Running _ \<Rightarrow> end_task i (Gave Cancelled) s | Done _ _ \<Rightarrow> s), []))"
  by (auto simp: end_task_def split: option.split prod.split task.split)

lemma flight_do_inv:
  assumes "flight_inv s" "flight_do e s = Some (s', rs)" shows "flight_inv s'"
proof (cases e)
  case (Ask who k now)
  with assms show ?thesis using live_quote_inv[OF assms(1), of who k now] by (auto split: if_splits)
next
  case (Finish i r now)
  with assms(2) have "s' = finish_task i r now s" by (simp split: if_splits)
  with flight_inv_end[OF assms(1), of i r] show ?thesis by (simp add: finish_eq)
next
  case (Retire i)
  with assms(2) have i: "fl_inflight s (task_key (fl_tasks s ! i)) = Some i" "fl_tasks s ! i \<noteq> Running (task_key (fl_tasks s ! i))"
    "s' = s\<lparr>fl_inflight := (fl_inflight s)(task_key (fl_tasks s ! i) := None)\<rparr>" by (simp_all split: if_splits)
  have "\<not> is_running s i k" for k using i(2) by (auto simp: is_running_def)
  from flight_inv_retire[OF assms(1) this i(1)] show ?thesis by (simp add: i(3))
next
  case (Wake who)
  with assms show ?thesis by (auto simp: flight_inv_leave split: option.splits task.splits)
next
  case (Drop who)
  with assms(2) obtain i where "s' = leave who (end_task i (Gave Cancelled) s) \<or> s' = leave who s"
    unfolding drop_eq by (auto simp only: Drop drop_eq split: option.splits prod.splits task.splits)
  with flight_inv_end[OF assms(1)] assms(1) show ?thesis by (auto intro: flight_inv_leave)
qed

lemma flight_run_inv: "flight_run s es s' rs \<Longrightarrow> flight_inv s \<Longrightarrow> flight_inv s'"
  by (induction rule: flight_run.induct) (auto dest: flight_do_inv)

section \<open>One fetch per key\<close>

lemma running_task: "is_running s i k \<Longrightarrow> \<not> is_running (end_task i r s) i k'"
  by (simp add: is_running_def end_task_nth)

text \<open>A task that has ended stays as it ended.\<close>

lemma flight_do_done:
  assumes "flight_do e s = Some (s', rs)" "i < length (fl_tasks s)" "fl_tasks s ! i = Done k r"
  shows "i < length (fl_tasks s') \<and> fl_tasks s' ! i = Done k r"
proof (cases e)
  case (Ask who k' now)
  with assms show ?thesis
    by (auto simp: live_quote_eq start_task_def nth_append split: if_splits option.splits)
next
  case (Finish j r' now)
  with assms show ?thesis by (auto simp: finish_eq end_task_nth split: if_splits)
next
  case (Retire j)
  with assms show ?thesis by (auto split: if_splits)
next
  case (Wake who)
  with assms show ?thesis by (auto simp: leave_def split: option.splits task.splits)
next
  case (Drop who)
  with assms show ?thesis
    by (auto simp only: Drop drop_eq split: option.splits prod.splits task.splits)
      (auto simp: leave_def end_task_nth split: if_splits)
qed

lemma flight_run_done:
  "flight_run s es s' rs \<Longrightarrow> i < length (fl_tasks s) \<Longrightarrow> fl_tasks s ! i = Done k r \<Longrightarrow>
     i < length (fl_tasks s') \<and> fl_tasks s' ! i = Done k r"
  by (induction rule: flight_run.induct) (auto dest: flight_do_done)

text \<open>An exception of the fetch reaches every caller that still waits, and nothing is cached.\<close>

lemma broken_fetch_spreads:
  assumes "flight_inv s" "flight_do (Finish i (Broke e) now) s = Some (s1, rs1)" "flight_run s1 es s2 rs2"
    and "(b, k, i) \<in> set (fl_waiting s2)" "flight_do (Wake b) s2 = Some (s3, rs3)"
  shows "rs3 = [(b, Broke e)] \<and> fl_cache s1 = fl_cache s"
proof -
  have inv1: "flight_inv s1" using flight_do_inv[OF assms(1,2)] .
  have inv2: "flight_inv s2" using flight_run_inv[OF assms(3) inv1] .
  from assms(2) have s1: "s1 = finish_task i (Broke e) now s" "i < length (fl_tasks s)" by (simp_all split: if_splits)
  then have "i < length (fl_tasks s1)" "fl_tasks s1 ! i = Done (task_key (fl_tasks s ! i)) (Broke e)"
    by (simp_all add: finish_task_def Let_def)
  from flight_run_done[OF assms(3) this] have "fl_tasks s2 ! i = Done (task_key (fl_tasks s ! i)) (Broke e)" by blast
  moreover have "map_of (fl_waiting s2) b = Some (k, i)" using assms(4) waiting_distinct[OF inv2] by simp
  ultimately show ?thesis using assms(5) s1(1) by (simp add: finish_task_def Let_def)
qed

text \<open>C5: Single flight: whatever the interleaving of requests, ends, callbacks, wake-ups and cancellations, no key ever
  has two fetches running, every caller that waits does so on a fetch of the key it asked for, and a request
  for a key whose fetch is running starts no other one.\<close>
theorem single_flight:
  assumes "flight_run (new_flight ttl) es s rs"
  shows "(is_running s i k \<and> is_running s j k \<longrightarrow> i = j) \<and>
    ((w, k, i) \<in> set (fl_waiting s) \<longrightarrow> i < length (fl_tasks s) \<and> task_key (fl_tasks s ! i) = k) \<and>
    (is_running s i k \<longrightarrow> fl_tasks (fst (live_quote who k now s)) = fl_tasks s)"
proof -
  have inv: "flight_inv s" using flight_run_inv[OF assms flight_inv_new] .
  have "fl_tasks (fst (live_quote who k now s)) = fl_tasks s" if "is_running s i k"
    using runningD[OF inv that] by (simp add: live_quote_eq split: option.split)
  moreover have "i = j" if "is_running s i k \<and> is_running s j k"
    using runningD[OF inv, of i k] runningD[OF inv, of j k] that by simp
  ultimately show ?thesis using waitingD[OF inv, of w k i] by blast
qed

definition demo_events :: "flight_event list" where
  "demo_events = [Ask 1 ''NSE:TCS'' 10, Ask 2 ''NSE:TCS'' 11, Drop 1]"

definition demo_flight :: flight where
  "demo_flight = \<lparr>fl_ttl = 1, fl_cache = Map.empty, fl_inflight = [''NSE:TCS'' \<mapsto> 0],
     fl_tasks = [Done ''NSE:TCS'' (Gave Cancelled)], fl_waiting = [(2, ''NSE:TCS'', 0)]\<rparr>"

lemma demo_flight_run: "flight_run (new_flight 1) demo_events demo_flight []"
proof -
  define s1 where "s1 = \<lparr>fl_ttl = 1, fl_cache = Map.empty, fl_inflight = [''NSE:TCS'' \<mapsto> 0],
     fl_tasks = [Running ''NSE:TCS''], fl_waiting = [(1, ''NSE:TCS'', 0)]\<rparr>"
  define s2 where "s2 = s1\<lparr>fl_waiting := [(1, ''NSE:TCS'', 0), (2, ''NSE:TCS'', 0)]\<rparr>"
  have "flight_do (Ask 1 ''NSE:TCS'' 10) (new_flight 1) = Some (s1, [])"
    "flight_do (Ask 2 ''NSE:TCS'' 11) s1 = Some (s2, [])"
    "flight_do (Drop 1) s2 = Some (demo_flight, [])"
    by (simp_all add: s1_def s2_def demo_flight_def new_flight_def live_quote_def fresh_hit_def leave_def)
  from flight_run.event[OF this(1) flight_run.event[OF this(2) flight_run.event[OF this(3) flight_run.none]]]
  show ?thesis by (simp add: demo_events_def)
qed

theorem single_flight_witness: "task_key (fl_tasks demo_flight ! 0) = ''NSE:TCS''"
proof -
  have "(2, ''NSE:TCS'', 0) \<in> set (fl_waiting demo_flight)" by (simp add: demo_flight_def)
  then show ?thesis using single_flight[OF demo_flight_run, of 0 "''NSE:TCS''" 0 2 3 0] by blast
qed

text \<open>C40: The shared fetch is not shielded: when one waiting caller is cancelled while its fetch runs, the fetch itself is
  cancelled, and whatever happens next, every other caller still waiting for it can only be answered with
  the cancellation.\<close>
theorem cancel_spreads:
  assumes "flight_run (new_flight ttl) es s rs" "(a, k, i) \<in> set (fl_waiting s)" "is_running s i k"
    and "flight_do (Drop a) s = Some (s1, rs1)" "flight_run s1 es' s2 rs2"
    and "(b, k, i) \<in> set (fl_waiting s2)" "flight_do (Wake b) s2 = Some (s3, rs3)"
  shows "rs3 = [(b, Gave Cancelled)]"
proof -
  have inv: "flight_inv s" using flight_run_inv[OF assms(1) flight_inv_new] .
  have inv1: "flight_inv s1" using flight_do_inv[OF inv assms(4)] .
  have inv2: "flight_inv s2" using flight_run_inv[OF assms(5) inv1] .
  have "map_of (fl_waiting s) a = Some (k, i)"
    using assms(2) waiting_distinct[OF inv] by simp
  with assms(3,4) have "s1 = leave a (end_task i (Gave Cancelled) s)"
    unfolding drop_eq by (simp add: is_running_def)
  with assms(3) have "i < length (fl_tasks s1)" "fl_tasks s1 ! i = Done k (Gave Cancelled)"
    by (simp_all add: leave_def end_task_nth is_running_def)
  from flight_run_done[OF assms(5) this] have "fl_tasks s2 ! i = Done k (Gave Cancelled)" by blast
  moreover have "map_of (fl_waiting s2) b = Some (k, i)"
    using assms(6) waiting_distinct[OF inv2] by simp
  ultimately show ?thesis using assms(7) by simp
qed

theorem cancel_spreads_witness:
  "flight_do (Wake 2) demo_flight = Some (leave 2 demo_flight, [(2, Gave Cancelled)])"
proof -
  define s1 where "s1 = \<lparr>fl_ttl = 1, fl_cache = Map.empty, fl_inflight = [''NSE:TCS'' \<mapsto> 0],
     fl_tasks = [Running ''NSE:TCS''], fl_waiting = [(1, ''NSE:TCS'', 0)]\<rparr>"
  define s2 where "s2 = s1\<lparr>fl_waiting := [(1, ''NSE:TCS'', 0), (2, ''NSE:TCS'', 0)]\<rparr>"
  have steps: "flight_do (Ask 1 ''NSE:TCS'' 10) (new_flight 1) = Some (s1, [])"
    "flight_do (Ask 2 ''NSE:TCS'' 11) s1 = Some (s2, [])"
    "flight_do (Drop 1) s2 = Some (demo_flight, [])"
    by (simp_all add: s1_def s2_def demo_flight_def new_flight_def live_quote_def fresh_hit_def leave_def)
  have run: "flight_run (new_flight 1) [Ask 1 ''NSE:TCS'' 10, Ask 2 ''NSE:TCS'' 11] s2 ([] @ [] @ [])"
    by (rule flight_run.event[OF steps(1) flight_run.event[OF steps(2) flight_run.none]])
  have wait: "(1, ''NSE:TCS'', 0) \<in> set (fl_waiting s2)" "is_running s2 0 ''NSE:TCS''"
    "(2, ''NSE:TCS'', 0) \<in> set (fl_waiting demo_flight)"
    by (simp_all add: s2_def s1_def is_running_def demo_flight_def)
  have wake: "flight_do (Wake 2) demo_flight = Some (leave 2 demo_flight, [(2, Gave Cancelled)])"
    by (simp add: demo_flight_def)
  from cancel_spreads[OF run wait(1,2) steps(3) flight_run.none wait(3) wake] wake show ?thesis by simp
qed

end
