(* ===== verification/SbService.thy ===== *)
theory SbService
  imports LiveQuote
begin

text \<open>
  The quote endpoints of \<^verbatim>\<open>src/api/endpoints/superbrain.py\<close>: the edge cache header, the warm cache and its
  refresh loop, the batch fetch, the back-fill of the session open, and the handlers \<^verbatim>\<open>/sb/quote\<close> and
  \<^verbatim>\<open>/sb/quotes\<close>. The module dictionaries are the record \<open>sb_state\<close>, what the feeds answer is the record
  \<open>sb_env\<close> (a missing answer stands for a failure too; duplicates of a symbol share one fetch), and an HTTP
  error is \<open>Inl\<close> of its status. The quotes of a request are an insertion-ordered dictionary from symbols.
  A warm quote has its session open whenever the back-fill runs, so the handlers never change a quote
  that is still in the warm cache and the aliasing of the dictionaries is invisible.
\<close>

section \<open>State and environment\<close>

record sb_state =
  sb_meta :: meta_cache
  sb_warm :: "string \<rightharpoonup> secs \<times> dict"
  sb_open :: "string \<rightharpoonup> string \<times> rat"
  sb_refreshes :: nat
  sb_last_refresh :: "secs option"
  sb_last_count :: nat
  sb_last_ms :: "rat option"

record sb_env =
  se_clock :: secs
  se_wall :: datetime
  se_market :: bool
  se_rows :: "string \<Rightarrow> dict option"
  se_live :: "string \<Rightarrow> tick option"
  se_live2 :: "string \<Rightarrow> tick option"
  se_resolved :: "string \<Rightarrow> dict option"
  se_isin :: "string \<Rightarrow> string option"
  se_details :: "string \<Rightarrow> dict option"

record warm_cfg =
  wc_symbols :: "string list"
  wc_interval :: secs
  wc_ttl :: secs
  wc_fast :: bool

type_synonym http_error = int
type_synonym quotes = "(string \<times> dict) list"

text \<open>\<^verbatim>\<open>[s.strip().upper() for s in raw.split(",") if s.strip()]\<close>.\<close>

definition csv_upper :: "string \<Rightarrow> string list" where
  "csv_upper raw = map (\<lambda>s. upper (strip s)) (filter (\<lambda>s. strip s \<noteq> []) (split_on (CHR '','') raw))"

definition warm_config :: "string \<Rightarrow> secs \<Rightarrow> secs option \<Rightarrow> string \<Rightarrow> warm_cfg" where
  "warm_config raw interval ttl fast =
     (let i = max 2 interval
      in \<lparr>wc_symbols = csv_upper raw, wc_interval = i, wc_ttl = max i (case ttl of None \<Rightarrow> i * 2 | Some t \<Rightarrow> t),
          wc_fast = (lower fast \<in> {''1'', ''true'', ''yes''})\<rparr>)"

text \<open>\<^verbatim>\<open>_set_edge_cache\<close>: the \<^verbatim>\<open>max-age\<close> and \<^verbatim>\<open>stale-while-revalidate\<close> of the header.\<close>

definition edge_cache :: "nat \<Rightarrow> nat \<Rightarrow> nat \<Rightarrow> nat \<Rightarrow> bool \<Rightarrow> nat \<times> nat" where
  "edge_cache open_age open_swr closed_age closed_swr market =
     (if market then (open_age, open_swr) else (closed_age, closed_swr))"

definition default_edge_cache :: "bool \<Rightarrow> nat \<times> nat" where
  "default_edge_cache = edge_cache 2 8 30 120"

section \<open>The batch\<close>

definition batch_row :: "sb_env \<Rightarrow> meta_cache \<Rightarrow> quotes \<Rightarrow> string \<Rightarrow> quotes" where
  "batch_row v mc by s =
     (let row = (case se_rows v s of Some (e # d) \<Rightarrow> Some (e # d) | _ \<Rightarrow> se_rows v (upper s))
      in case row of
           Some (e # d) \<Rightarrow>
             (case to_float (dget (e # d) ''price'') of
                Some p \<Rightarrow> if p \<noteq> 0 then dput s (sb_quote_from_tt mc (se_market v) (se_wall v) s (e # d)) by else by
              | None \<Rightarrow> by)
         | _ \<Rightarrow> by)"

definition live_row :: "sb_env \<Rightarrow> meta_cache \<Rightarrow> quotes \<Rightarrow> string \<Rightarrow> quotes" where
  "live_row v mc by s =
     (case se_live v s of None \<Rightarrow> by | Some t \<Rightarrow> dput s (sb_quote mc (se_market v) (se_wall v) t) by)"

definition batch_quotes :: "sb_env \<Rightarrow> meta_cache \<Rightarrow> string list \<Rightarrow> string \<Rightarrow> bool \<Rightarrow> quotes" where
  "batch_quotes v mc syms exch rich =
     (let by = (if exch = ''NSE'' \<and> \<not> rich then foldl (batch_row v mc) [] syms else [])
      in foldl (live_row v mc) by (filter (\<lambda>s. s \<notin> fst ` set by) syms))"

section \<open>The session open\<close>

definition needs_open :: "quotes \<Rightarrow> string list" where
  "needs_open by = map fst (filter (\<lambda>e. dget (snd e) ''open'' = VNone) by)"

definition cached_open :: "string \<Rightarrow> (string \<rightharpoonup> string \<times> rat) \<Rightarrow> string \<Rightarrow> rat option" where
  "cached_open today opens s = (case opens s of None \<Rightarrow> None | Some (d, o1) \<Rightarrow> if d = today then Some o1 else None)"

definition put_field :: "string \<Rightarrow> string \<Rightarrow> val \<Rightarrow> quotes \<Rightarrow> quotes" where
  "put_field s k x by = (case map_of by s of None \<Rightarrow> by | Some q \<Rightarrow> dput s (dput k x q) by)"

definition bonus_fields :: "string list" where
  "bonus_fields = [''upperCircuit'', ''lowerCircuit'', ''week52High'', ''week52Low'', ''vwap'']"

definition fill_bonus :: "string \<Rightarrow> dict \<Rightarrow> quotes \<Rightarrow> string \<Rightarrow> quotes" where
  "fill_bonus s rich by k =
     (case map_of by s of
        None \<Rightarrow> by
      | Some q \<Rightarrow> if dget rich k \<noteq> VNone \<and> dget q k = VNone then put_field s k (dget rich k) by else by)"

definition fill_one :: "sb_env \<Rightarrow> meta_cache \<Rightarrow> string \<Rightarrow> quotes \<times> (string \<rightharpoonup> string \<times> rat) \<Rightarrow> string \<Rightarrow>
    quotes \<times> (string \<rightharpoonup> string \<times> rat)" where
  "fill_one v mc today st s =
     (case se_live2 v s of
        None \<Rightarrow> st
      | Some t \<Rightarrow>
          (foldl (fill_bonus s (sb_quote mc (se_market v) (se_wall v) t)) (put_field s ''open'' (VNum (tk_open t)) (fst st)) bonus_fields,
           (snd st)(s \<mapsto> (today, tk_open t))))"

definition day_text :: "datetime \<Rightarrow> string" where
  "day_text t = date_text (dt_date t)"

definition fill_open :: "sb_env \<Rightarrow> meta_cache \<Rightarrow> (string \<rightharpoonup> string \<times> rat) \<Rightarrow> quotes \<Rightarrow> quotes \<times> (string \<rightharpoonup> string \<times> rat)" where
  "fill_open v mc opens by =
     (let today = day_text (se_wall v); need = needs_open by;
          by1 = foldl (\<lambda>b s. case cached_open today opens s of None \<Rightarrow> b | Some o1 \<Rightarrow> put_field s ''open'' (VNum o1) b) by need;
          fetch = filter (\<lambda>s. cached_open today opens s = None) need
      in foldl (fill_one v mc today) (by1, opens) fetch)"

section \<open>The warm cache\<close>

definition warm_symbols :: "warm_cfg \<Rightarrow> string list \<Rightarrow> string list" where
  "warm_symbols cfg watchlist =
     take 200 (map canonical_symbol (foldl (\<lambda>acc s. if s \<in> set acc then acc else acc @ [s]) (wc_symbols cfg) watchlist))"

definition warm_get :: "warm_cfg \<Rightarrow> secs \<Rightarrow> sb_state \<Rightarrow> string \<Rightarrow> bool \<Rightarrow> bool \<Rightarrow> dict option" where
  "warm_get cfg now st s rich fast =
     (case sb_warm st s of
        None \<Rightarrow> None
      | Some (t, q) \<Rightarrow>
          if wc_ttl cfg \<le> now - t then None
          else if rich then None
          else if \<not> fast \<and> dget q ''open'' = VNone then None
          else Some q)"

text \<open>\<open>t0\<close> is the clock when the refresh starts; the one of the environment is read when the quotes are in.\<close>

definition warm_refresh_once :: "warm_cfg \<Rightarrow> sb_env \<Rightarrow> secs \<Rightarrow> string list \<Rightarrow> sb_state \<Rightarrow> sb_state" where
  "warm_refresh_once cfg v t0 syms st =
     (let by0 = batch_quotes v (sb_meta st) syms ''NSE'' False;
          (by, opens) = (if wc_fast cfg then (by0, sb_open st) else fill_open v (sb_meta st) (sb_open st) by0);
          now = se_clock v
      in st\<lparr>sb_open := opens, sb_warm := foldl (\<lambda>w e. w(fst e \<mapsto> (now, snd e))) (sb_warm st) by,
            sb_refreshes := sb_refreshes st + 1, sb_last_refresh := Some now, sb_last_count := length by,
            sb_last_ms := Some (py_round 1 ((now - t0) * 1000))\<rparr>)"

text \<open>One turn of \<^verbatim>\<open>_warm_loop\<close>: the new state and the seconds to sleep. \<open>ok\<close> is false when the refresh raises.\<close>

definition warm_turn :: "warm_cfg \<Rightarrow> string list \<Rightarrow> sb_env \<Rightarrow> secs \<Rightarrow> bool \<Rightarrow> sb_state \<Rightarrow> sb_state \<times> secs" where
  "warm_turn cfg watchlist v t0 ok st =
     (if \<not> se_market v then (st, 30)
      else let syms = warm_symbols cfg watchlist
           in (if syms \<noteq> [] \<and> ok then warm_refresh_once cfg v t0 syms st else st, wc_interval cfg))"

definition start_warm_cache :: "warm_cfg \<Rightarrow> string list \<Rightarrow> bool \<Rightarrow> bool" where
  "start_warm_cache cfg watchlist started \<longleftrightarrow> started \<or> warm_symbols cfg watchlist \<noteq> []"

section \<open>Handlers\<close>

definition enrich_with :: "sb_env \<Rightarrow> string \<Rightarrow> meta_cache \<Rightarrow> meta_cache" where
  "enrich_with v s mc = enrich_meta s (se_resolved v s) (se_isin v s) (se_details v s) mc"

definition sb_quote_handler :: "sb_env \<Rightarrow> string \<Rightarrow> bool \<Rightarrow> sb_state \<Rightarrow> (http_error + dict) \<times> sb_state" where
  "sb_quote_handler v raw enrich st =
     (let original = upper (strip raw)
      in if reject_index original then (Inl 400, st)
         else
           (let s = canonical_symbol raw;
                st1 = (if enrich then st\<lparr>sb_meta := enrich_with v s (sb_meta st)\<rparr> else st)
            in case se_live v s of
                 None \<Rightarrow> (Inl 404, st1)
               | Some t \<Rightarrow>
                   (let q = sb_quote (sb_meta st1) (se_market v) (se_wall v) t
                    in (Inr (if s \<noteq> original then dput ''aliasedFrom'' (VStr original) q else q), st1))))"

record quotes_reply =
  qr_count :: nat
  qr_failed :: "string list"
  qr_sources :: "(val \<times> nat) list"
  qr_quotes :: "dict list"
  qr_edge :: "nat \<times> nat"

definition count_source :: "(val \<times> nat) list \<Rightarrow> dict \<Rightarrow> (val \<times> nat) list" where
  "count_source srcs q =
     dput (dget q ''source'') (1 + (case map_of srcs (dget q ''source'') of None \<Rightarrow> 0 | Some n \<Rightarrow> n)) srcs"

definition project_fields :: "string \<Rightarrow> dict \<Rightarrow> dict" where
  "project_fields proj q =
     (let keep = insert ''symbol'' (set (map strip (filter (\<lambda>f. strip f \<noteq> []) (split_on (CHR '','') proj))))
      in filter (\<lambda>e. fst e \<in> keep) q)"

definition enrich_quote :: "sb_env \<Rightarrow> quotes \<times> meta_cache \<Rightarrow> string \<Rightarrow> quotes \<times> meta_cache" where
  "enrich_quote v st s =
     (let mc = enrich_with v s (snd st); meta = meta_of mc s;
          by1 = (if truthy_val (dget meta ''name'') then put_field s ''companyName'' (dget meta ''name'') (fst st) else fst st);
          by2 = (if truthy_val (dget meta ''sector'') then put_field s ''sector'' (dget meta ''sector'') by1 else by1)
      in (by2, mc))"

definition requested_symbols :: "string \<Rightarrow> string list" where
  "requested_symbols symbols = take 200 (map canonical_symbol (filter (\<lambda>s. strip s \<noteq> []) (split_on (CHR '','') symbols)))"

definition update_quotes :: "quotes \<Rightarrow> quotes \<Rightarrow> quotes" where
  "update_quotes by new = foldl (\<lambda>b e. dput (fst e) (snd e) b) by new"

definition warm_hits :: "warm_cfg \<Rightarrow> secs \<Rightarrow> sb_state \<Rightarrow> bool \<Rightarrow> bool \<Rightarrow> string list \<Rightarrow> quotes" where
  "warm_hits cfg now st rich fast syms =
     foldl (\<lambda>b s. case warm_get cfg now st s rich fast of None \<Rightarrow> b | Some q \<Rightarrow> dput s q b) [] syms"

text \<open>The quotes of a request before the reply is shaped, with the session opens and the meta cache after it.\<close>

definition gather_quotes :: "warm_cfg \<Rightarrow> sb_env \<Rightarrow> string list \<Rightarrow> string \<Rightarrow> bool \<Rightarrow> bool \<Rightarrow> bool \<Rightarrow> sb_state \<Rightarrow> quotes \<times> sb_state" where
  "gather_quotes cfg v syms exch enrich rich fast st =
     (let by0 = (if \<not> enrich \<and> \<not> rich then warm_hits cfg (se_clock v) st rich fast syms else []);
          fetch = filter (\<lambda>s. s \<notin> fst ` set by0) syms;
          by1 = (if fetch \<noteq> [] then update_quotes by0 (batch_quotes v (sb_meta st) fetch exch rich) else by0);
          (by2, opens) = (if \<not> rich \<and> \<not> fast then fill_open v (sb_meta st) (sb_open st) by1 else (by1, sb_open st));
          (by3, mc) = (if enrich then foldl (enrich_quote v) (by2, sb_meta st) (map fst by2) else (by2, sb_meta st))
      in (by3, st\<lparr>sb_open := opens, sb_meta := mc\<rparr>))"

definition sb_quotes :: "warm_cfg \<Rightarrow> sb_env \<Rightarrow> string \<Rightarrow> string \<Rightarrow> bool \<Rightarrow> bool \<Rightarrow> bool \<Rightarrow> string \<Rightarrow> sb_state \<Rightarrow>
    (http_error + quotes_reply) \<times> sb_state" where
  "sb_quotes cfg v symbols exch enrich rich fast proj st =
     (let syms = requested_symbols symbols
      in if syms = [] then (Inl 400, st)
         else
           (let (by, st') = gather_quotes cfg v syms exch enrich rich fast st;
                out = map (\<lambda>s. the (map_of by s)) (filter (\<lambda>s. map_of by s \<noteq> None) syms)
            in (Inr \<lparr>qr_count = length out, qr_failed = filter (\<lambda>s. map_of by s = None) syms,
                     qr_sources = foldl count_source [] out,
                     qr_quotes = (if proj = [] then out else map (project_fields proj) out),
                     qr_edge = default_edge_cache (se_market v)\<rparr>, st')))"

section \<open>What every quote of a request satisfies\<close>

definition filed_as :: "(string \<Rightarrow> dict \<Rightarrow> bool) \<Rightarrow> quotes \<Rightarrow> bool" where
  "filed_as law by \<longleftrightarrow> (\<forall>s q. map_of by s = Some q \<longrightarrow> law s q)"

definition warm_as :: "(string \<Rightarrow> dict \<Rightarrow> bool) \<Rightarrow> sb_state \<Rightarrow> bool" where
  "warm_as law st \<longleftrightarrow> (\<forall>s t q. sb_warm st s = Some (t, q) \<longrightarrow> law s q)"

text \<open>Both feeds, shaped into quotes, obey the law for the symbol they were asked for.\<close>

definition feeds_as :: "(string \<Rightarrow> dict \<Rightarrow> bool) \<Rightarrow> sb_env \<Rightarrow> bool" where
  "feeds_as law v \<longleftrightarrow>
     (\<forall>s t mc. se_live v s = Some t \<longrightarrow> law s (sb_quote mc (se_market v) (se_wall v) t)) \<and>
     (\<forall>s row mc. law s (sb_quote_from_tt mc (se_market v) (se_wall v) s row))"

lemma filed_as_Nil [simp]: "filed_as law []"
  by (simp add: filed_as_def)

lemma filed_as_dput: "filed_as law by \<Longrightarrow> law s q \<Longrightarrow> filed_as law (dput s q by)"
  by (simp add: filed_as_def)

lemma filed_as_get: "filed_as law by \<Longrightarrow> map_of by s = Some q \<Longrightarrow> law s q"
  by (simp add: filed_as_def)

lemma filed_as_foldl: "(\<And>b x. filed_as law b \<Longrightarrow> filed_as law (f b x)) \<Longrightarrow> filed_as law b \<Longrightarrow> filed_as law (foldl f b xs)"
  by (induction xs arbitrary: b) simp_all

lemma filed_as_batch_row: "feeds_as law v \<Longrightarrow> filed_as law by \<Longrightarrow> filed_as law (batch_row v mc by s)"
  by (auto simp: batch_row_def Let_def feeds_as_def intro: filed_as_dput split: option.split list.split)

lemma filed_as_live_row: "feeds_as law v \<Longrightarrow> filed_as law by \<Longrightarrow> filed_as law (live_row v mc by s)"
  by (auto simp: live_row_def feeds_as_def intro: filed_as_dput split: option.split)

lemma filed_as_batch: "feeds_as law v \<Longrightarrow> filed_as law (batch_quotes v mc syms exch rich)"
  by (auto simp: batch_quotes_def Let_def intro!: filed_as_foldl filed_as_batch_row filed_as_live_row)

lemma filed_as_warm: "warm_as law st \<Longrightarrow> filed_as law (warm_hits cfg now st rich fast syms)"
  unfolding warm_hits_def
  by (rule filed_as_foldl) (auto simp: warm_get_def warm_as_def intro!: filed_as_dput split: option.splits if_splits)

lemma filed_as_mono: "filed_as law by \<Longrightarrow> (\<And>s q. law s q \<Longrightarrow> law' s q) \<Longrightarrow> filed_as law' by"
  by (auto simp: filed_as_def)

lemma keys_put_field [simp]: "map fst (put_field s k x by) = map fst by"
  by (auto simp: put_field_def keys_dput map_of_eq_None_iff dest: map_of_SomeD split: option.split intro: rev_image_eqI)

lemma keys_bonus: "map fst (foldl (fill_bonus s rich) by ks) = map fst by"
  by (induction ks arbitrary: "by") (auto simp: fill_bonus_def split: option.split)

lemma keys_fill_fold: "map fst (fst (foldl (fill_one v mc today) st ss)) = map fst (fst st)"
  by (induction ss arbitrary: st) (auto simp: fill_one_def keys_bonus split: option.split)

lemma keys_foldl: "(\<And>b x. map fst (f b x) = map fst b) \<Longrightarrow> map fst (foldl f b xs) = map fst b"
  by (induction xs arbitrary: b) simp_all

lemma fill_open_keys: "map fst (fst (fill_open v mc opens by)) = map fst by"
  unfolding fill_open_def Let_def by (simp add: keys_fill_fold) (rule keys_foldl, simp split: option.split)

lemma filed_as_update: "filed_as law by \<Longrightarrow> filed_as law new \<Longrightarrow> distinct (map fst new) \<Longrightarrow> filed_as law (update_quotes by new)"
  unfolding update_quotes_def
proof (induction new arbitrary: "by")
  case (Cons e new)
  have "law (fst e) (snd e)" using Cons.prems(2) by (cases e) (simp add: filed_as_def)
  moreover have "filed_as law new"
    unfolding filed_as_def
  proof (intro allI impI)
    fix s q assume m: "map_of new s = Some q"
    then have "s \<in> fst ` set new" by (force dest: map_of_SomeD)
    with Cons.prems(3) have "s \<noteq> fst e" by (metis distinct.simps(2) list.set_map list.simps(9))
    with m have "map_of (e # new) s = Some q" by simp
    with Cons.prems(2) show "law s q" by (rule filed_as_get)
  qed
  ultimately show ?case using Cons by (simp add: filed_as_dput)
qed simp

lemma distinct_foldl_dput:
  "(\<And>b x. distinct (map fst b) \<Longrightarrow> distinct (map fst (f b x))) \<Longrightarrow> distinct (map fst b) \<Longrightarrow> distinct (map fst (foldl f b xs))"
  by (induction xs arbitrary: b) simp_all

lemma distinct_batch: "distinct (map fst (batch_quotes v mc syms exch rich))"
proof -
  have row: "distinct (map fst b) \<Longrightarrow> distinct (map fst (batch_row v mc b x))" for b x
    by (auto simp: batch_row_def Let_def intro: distinct_dput split: option.split list.split)
  have live: "distinct (map fst b) \<Longrightarrow> distinct (map fst (live_row v mc b x))" for b x
    by (auto simp: live_row_def intro: distinct_dput split: option.split)
  show ?thesis unfolding batch_quotes_def Let_def
    by (intro distinct_foldl_dput live) (auto intro: distinct_foldl_dput row)
qed

lemma foldl_warm:
  "foldl (\<lambda>w e. w(fst e \<mapsto> (now, snd e))) w es s = Some (t, q) \<Longrightarrow> w s = Some (t, q) \<or> (s, q) \<in> set es"
proof (induction es arbitrary: w)
  case (Cons e es)
  have "foldl (\<lambda>w e. w(fst e \<mapsto> (now, snd e))) (w(fst e \<mapsto> (now, snd e))) es s = Some (t, q)"
    using Cons.prems unfolding foldl_Cons .
  from Cons.IH[OF this] show ?case by (cases e) (auto split: if_splits)
qed simp

text \<open>The warm cache over the life of the process; a refresh runs only while the market is open.\<close>

inductive warm_reach :: "(string \<Rightarrow> dict \<Rightarrow> bool) \<Rightarrow> warm_cfg \<Rightarrow> sb_state \<Rightarrow> bool" for law cfg where
  boot: "sb_warm st = Map.empty \<Longrightarrow> warm_reach law cfg st"
| turn: "warm_reach law cfg st \<Longrightarrow> (se_market v \<Longrightarrow> feeds_as law v) \<Longrightarrow>
    warm_reach law cfg (fst (warm_turn cfg watchlist v t0 ok st))"
| request: "warm_reach law cfg st \<Longrightarrow> warm_reach law cfg (snd (sb_quotes cfg v symbols exch enrich rich fast proj st))"
| single: "warm_reach law cfg st \<Longrightarrow> warm_reach law cfg (snd (sb_quote_handler v raw enrich st))"

lemma gather_warm: "sb_warm (snd (gather_quotes cfg v syms exch enrich rich fast st)) = sb_warm st"
  by (simp add: gather_quotes_def Let_def split_beta)

text \<open>A law of quotes that rests on their symbol and source alone survives the session open, the extra fields and the names.\<close>

locale quote_law =
  fixes law :: "string \<Rightarrow> dict \<Rightarrow> bool"
  assumes law_put: "law s q \<Longrightarrow> k \<notin> {''symbol'', ''source''} \<Longrightarrow> law s (dput k x q)"
begin

lemma filed_put_field: "filed_as law by \<Longrightarrow> k \<notin> {''symbol'', ''source''} \<Longrightarrow> filed_as law (put_field s k x by)"
  by (auto simp: put_field_def intro!: filed_as_dput law_put dest: filed_as_get split: option.split)

lemma filed_bonus_one: "filed_as law by \<Longrightarrow> k \<notin> {''symbol'', ''source''} \<Longrightarrow> filed_as law (fill_bonus s rich by k)"
  by (simp add: fill_bonus_def filed_put_field split: option.split)

lemma filed_bonus_all:
  "filed_as law by \<Longrightarrow> ''symbol'' \<notin> set ks \<Longrightarrow> ''source'' \<notin> set ks \<Longrightarrow> filed_as law (foldl (fill_bonus s rich) by ks)"
  by (induction ks arbitrary: "by") (auto simp: filed_bonus_one)

lemma filed_bonus: "filed_as law by \<Longrightarrow> filed_as law (foldl (fill_bonus s rich) by bonus_fields)"
  by (rule filed_bonus_all) (simp_all add: bonus_fields_def)

lemma filed_fill_one: "filed_as law (fst st) \<Longrightarrow> filed_as law (fst (fill_one v mc today st s))"
  by (auto simp: fill_one_def intro!: filed_bonus filed_put_field split: option.split)

lemma filed_fill_fold: "filed_as law (fst st) \<Longrightarrow> filed_as law (fst (foldl (fill_one v mc today) st ss))"
  by (induction ss arbitrary: st) (auto simp: filed_fill_one)

lemma filed_fill_open: "filed_as law by \<Longrightarrow> filed_as law (fst (fill_open v mc opens by))"
  unfolding fill_open_def Let_def
  by (intro filed_fill_fold) (auto intro!: filed_as_foldl filed_put_field split: option.split)

lemma filed_enrich: "filed_as law (fst st) \<Longrightarrow> filed_as law (fst (enrich_quote v st s))"
  by (auto simp: enrich_quote_def Let_def intro!: filed_put_field)

lemma filed_enrich_all: "filed_as law (fst st) \<Longrightarrow> filed_as law (fst (foldl (enrich_quote v) st ss))"
  by (induction ss arbitrary: st) (simp_all add: filed_enrich)

lemma filed_gather:
  assumes "feeds_as law v" "warm_as law st"
  shows "filed_as law (fst (gather_quotes cfg v syms exch enrich rich fast st))"
proof -
  have 0: "filed_as law (if \<not> enrich \<and> \<not> rich then warm_hits cfg (se_clock v) st rich fast syms else [])" (is "filed_as law ?by0")
    using filed_as_warm[OF assms(2)] by simp
  have 1: "filed_as law (if fetch \<noteq> [] then update_quotes ?by0 (batch_quotes v (sb_meta st) fetch exch rich) else ?by0)" for fetch
    using filed_as_update[OF 0 filed_as_batch[OF assms(1)] distinct_batch] 0 by simp
  have 2: "filed_as law (fst (if \<not> rich \<and> \<not> fast then fill_open v mc opens by1 else (by1, opens)))"
    if "filed_as law by1" for mc opens by1
    using filed_fill_open[OF that] that by simp
  have 3: "filed_as law (fst (if enrich then foldl (enrich_quote v) (by2, mc) ks else (by2, mc)))"
    if "filed_as law by2" for by2 mc ks
    using that filed_enrich_all[of "(by2, mc)" v ks] by simp
  show ?thesis
    unfolding gather_quotes_def Let_def using 3[OF 2[OF 1]]
    by (simp only: split_beta fst_conv)
qed

lemma warm_refresh_as:
  assumes "feeds_as law v" "warm_as law st" shows "warm_as law (warm_refresh_once cfg v t0 syms st)"
proof -
  define r where "r = (if wc_fast cfg then (batch_quotes v (sb_meta st) syms ''NSE'' False, sb_open st)
     else fill_open v (sb_meta st) (sb_open st) (batch_quotes v (sb_meta st) syms ''NSE'' False))"
  have lab: "filed_as law (fst r)" using filed_as_batch[OF assms(1)] filed_fill_open by (simp add: r_def)
  have "distinct (map fst (fst r))" using distinct_batch by (simp add: r_def fill_open_keys)
  then have entry: "(s, q) \<in> set (fst r) \<Longrightarrow> law s q" for s q
    using lab by (simp add: filed_as_def)
  have "sb_warm (warm_refresh_once cfg v t0 syms st) = foldl (\<lambda>w e. w(fst e \<mapsto> (se_clock v, snd e))) (sb_warm st) (fst r)"
    by (simp add: warm_refresh_once_def Let_def r_def split_beta)
  then show ?thesis
    using foldl_warm[of "se_clock v" "sb_warm st" "fst r"] entry assms(2)
    unfolding warm_as_def by fastforce
qed

lemma warm_reach_as: "warm_reach law cfg st \<Longrightarrow> warm_as law st"
proof (induction rule: warm_reach.induct)
  case (boot st)
  then show ?case by (simp add: warm_as_def)
next
  case (turn st v watchlist t0 ok)
  then show ?case by (simp add: warm_turn_def Let_def warm_refresh_as)
next
  case (request st v symbols exch enrich rich fast proj)
  then show ?case by (simp add: sb_quotes_def Let_def split_beta warm_as_def gather_warm)
next
  case (single st v raw enrich)
  then show ?case by (auto simp: sb_quote_handler_def Let_def warm_as_def split: option.split)
qed

end

text \<open>The law that a quote carries the symbol it was asked for, or the one that name stands for today.\<close>

definition own_symbol :: "string \<Rightarrow> dict \<Rightarrow> bool" where
  "own_symbol s q \<longleftrightarrow> dget q ''symbol'' = VStr s \<or> dget q ''symbol'' = VStr (canonical_symbol s)"

interpretation own: quote_law own_symbol
  by unfold_locales (auto simp: own_symbol_def)

lemma tt_symbol: "dget (sb_quote_from_tt mc mkt now s row) ''symbol'' = VStr s"
  by (simp add: sb_quote_from_tt_def Let_def)

lemma feeds_own: "feeds_as own_symbol v \<longleftrightarrow> (\<forall>s t. se_live v s = Some t \<longrightarrow> tk_symbol t = s \<or> tk_symbol t = canonical_symbol s)"
  by (auto simp: feeds_as_def own_symbol_def sb_quote_symbol tt_symbol)

lemma requested_own: "s \<in> set (requested_symbols symbols) \<Longrightarrow> own_symbol s q \<longleftrightarrow> dget q ''symbol'' = VStr s"
  by (auto simp: requested_symbols_def own_symbol_def dest!: in_set_takeD)

section \<open>The reply\<close>

lemma distinct_count_source: "distinct (map fst srcs) \<Longrightarrow> distinct (map fst (count_source srcs q))"
  by (simp add: count_source_def distinct_dput)

lemma sum_dput_nat:
  "distinct (map fst d) \<Longrightarrow> sum_list (map snd (dput k n d)) + (case map_of d k of None \<Rightarrow> 0 | Some m \<Rightarrow> m) = sum_list (map snd d) + (n::nat)"
proof (induction d)
  case (Cons e d)
  obtain k' m where e: "e = (k', m)" by fastforce
  have "k = k' \<Longrightarrow> map_of d k = None" using Cons.prems e by (simp add: map_of_eq_None_iff)
  with Cons e show ?case by auto
qed simp

lemma count_source_sum:
  assumes "distinct (map fst srcs)" shows "sum_list (map snd (count_source srcs q)) = sum_list (map snd srcs) + 1"
  using sum_dput_nat[OF assms, of "dget q ''source''" "1 + (case map_of srcs (dget q ''source'') of None \<Rightarrow> 0 | Some n \<Rightarrow> n)"]
  unfolding count_source_def by linarith

lemma sources_total:
  "distinct (map fst srcs) \<Longrightarrow> sum_list (map snd (foldl count_source srcs qs)) = sum_list (map snd srcs) + length qs"
  by (induction qs arbitrary: srcs) (simp_all add: count_source_sum distinct_count_source)

lemma project_symbol: "dget (project_fields proj q) ''symbol'' = dget q ''symbol''"
proof -
  have *: "dget (filter (\<lambda>e. fst e \<in> K) q) k = dget q k" if "k \<in> K" for K k
    using that by (induction q) auto
  show ?thesis unfolding project_fields_def Let_def by (rule *) simp
qed

lemma filter_partition_length: "length (filter P xs) + length (filter (\<lambda>x. \<not> P x) xs) = length xs"
  by (induction xs) auto

text \<open>A bulk reply accounts for every requested symbol, in order: the quotes returned carry exactly the requested
  symbols that are not reported as failed, each at its place (also when the reply is projected to a few fields),
  quotes and failures together are as many as the symbols asked for (at most 200), the counts per source add up
  to the number of quotes, and a rejected request is one that names no symbol.\<close>
lemma sb_quotes_account:
  assumes "warm_reach own_symbol cfg st" "feeds_as own_symbol v" "fst (sb_quotes cfg v symbols exch enrich rich fast proj st) = r"
  shows "(r = Inl 400 \<longleftrightarrow> requested_symbols symbols = []) \<and>
    (\<forall>a. r = Inr a \<longrightarrow>
      map (\<lambda>q. dget q ''symbol'') (qr_quotes a) = map VStr (filter (\<lambda>s. s \<notin> set (qr_failed a)) (requested_symbols symbols)) \<and>
      qr_count a = length (qr_quotes a) \<and>
      qr_count a + length (qr_failed a) = length (requested_symbols symbols) \<and>
      length (requested_symbols symbols) \<le> 200 \<and>
      sum_list (map snd (qr_sources a)) = qr_count a)"
proof (cases "requested_symbols symbols = []")
  case True
  with assms(3) show ?thesis by (auto simp: sb_quotes_def)
next
  case False
  define syms where "syms = requested_symbols symbols"
  define b where "b = fst (gather_quotes cfg v syms exch enrich rich fast st)"
  define out where "out = map (\<lambda>s. the (map_of b s)) (filter (\<lambda>s. map_of b s \<noteq> None) syms)"
  have lab: "filed_as own_symbol b" unfolding b_def by (rule own.filed_gather[OF assms(2) own.warm_reach_as[OF assms(1)]])
  have r: "r = Inr \<lparr>qr_count = length out, qr_failed = filter (\<lambda>s. map_of b s = None) syms,
       qr_sources = foldl count_source [] out, qr_quotes = (if proj = [] then out else map (project_fields proj) out),
       qr_edge = default_edge_cache (se_market v)\<rparr>"
    using False assms(3) by (auto simp: sb_quotes_def Let_def split_beta syms_def b_def out_def)
  have "map (\<lambda>q. dget q ''symbol'') out = map VStr (filter (\<lambda>s. map_of b s \<noteq> None) syms)"
    using filed_as_get[OF lab] requested_own[of _ symbols] by (fastforce simp: out_def syms_def)
  moreover have "filter (\<lambda>s. s \<notin> set (filter (\<lambda>s. map_of b s = None) syms)) syms = filter (\<lambda>s. map_of b s \<noteq> None) syms"
    by (rule filter_cong) auto
  moreover have "length out + length (filter (\<lambda>s. map_of b s = None) syms) = length syms"
    using filter_partition_length[of "\<lambda>s. map_of b s \<noteq> None" syms] by (simp add: out_def)
  moreover have "length syms \<le> 200" by (simp add: syms_def requested_symbols_def)
  ultimately show ?thesis
    using False sources_total[of "[]" out] by (simp add: r project_symbol comp_def syms_def)
qed

definition demo_sb_env :: sb_env where
  "demo_sb_env = \<lparr>se_clock = 100, se_wall = demo_stamp, se_market = True,
     se_rows = (\<lambda>_. None), se_live = (\<lambda>s. if s = ''TCS'' then Some demo_sb_tick else None), se_live2 = (\<lambda>_. None),
     se_resolved = (\<lambda>_. None), se_isin = (\<lambda>_. None), se_details = (\<lambda>_. None)\<rparr>"

definition demo_sb_state :: sb_state where
  "demo_sb_state = \<lparr>sb_meta = Map.empty, sb_warm = Map.empty, sb_open = Map.empty, sb_refreshes = 0,
     sb_last_refresh = None, sb_last_count = 0, sb_last_ms = None\<rparr>"

definition demo_warm_cfg :: warm_cfg where
  "demo_warm_cfg = warm_config [] 5 None ''true''"

text \<open>A warm quote is served whatever exchange the request names: the cache is keyed by the symbol alone and is filled from
  the NSE feed only.\<close>

lemma warm_hit_ignores_exchange:
  assumes "warm_get cfg (se_clock v) st s False True = Some q" "requested_symbols symbols = [s]"
  shows "\<exists>a. fst (sb_quotes cfg v symbols ''BSE'' False False True [] st) = Inr a \<and> qr_quotes a = [q]"
  using assms by (simp add: sb_quotes_def gather_quotes_def warm_hits_def Let_def)

end
