(* ===== verification/ReadThrough.thy ===== *)
theory ReadThrough
  imports Prelude
begin

text \<open>
  The read-through caches with a time to live that the engine modules keep for one answer each (the macro table, the
  institutional flows, the fundamentals of a symbol, the mood index): \<^verbatim>\<open>hit and time.time() - hit[0] < TTL\<close> serves the
  stored answer, anything else asks the source and stores what came. The locale is that contract; every module
  interprets it on its own fetch.
\<close>

locale read_through =
  fixes entry :: "'s \<Rightarrow> (secs \<times> 'a) option"
    and fetch :: "secs \<Rightarrow> 'e \<Rightarrow> 's \<Rightarrow> 'r \<times> 's"
    and answer :: "'a \<Rightarrow> 'r"
    and ttl :: secs
  assumes hit: "entry s = Some (t, a) \<Longrightarrow> now - t < ttl \<Longrightarrow> fetch now e s = (answer a, s)"
    and fill: "fetch now e s = (r, s') \<Longrightarrow> s' = s \<or> (\<exists>t a. entry s' = Some (t, a) \<and> r = answer a)"
begin

text \<open>While an entry lives, any number of calls gives its answer and asks nothing.\<close>

fun calls :: "(secs \<times> 'e) list \<Rightarrow> 's \<Rightarrow> 'r list \<times> 's" where
  "calls [] s = ([], s)"
| "calls ((now, e) # cs) s = (let (r, s1) = fetch now e s; (rs, s2) = calls cs s1 in (r # rs, s2))"

lemma calls_hit:
  "entry s = Some (t, a) \<Longrightarrow> list_all (\<lambda>c. fst c - t < ttl) cs \<Longrightarrow> calls cs s = (replicate (length cs) (answer a), s)"
  by (induction cs) (auto simp: hit)

text \<open>A call that changed the cache is repeated by every later call until its entry is too old.\<close>

lemma calls_after_fill:
  assumes "fetch now e s = (r, s')" "s' \<noteq> s"
  shows "\<exists>t. entry s' \<noteq> None \<and> (\<forall>cs. list_all (\<lambda>c. fst c - t < ttl) cs \<longrightarrow> calls cs s' = (replicate (length cs) r, s'))"
  using fill[OF assms(1)] assms(2) calls_hit by fastforce

text \<open>A source that gives nothing worth keeping leaves the cache alone, so an old entry is never lost to a failure.\<close>

lemma kept_entry: "fetch now e s = (r, s') \<Longrightarrow> entry s' = None \<Longrightarrow> s' = s"
  using fill by fastforce

end

end
