(* ===== verification/Tickertape.thy ===== *)
theory Tickertape
  imports SbQuotes ReadThrough
begin

text \<open>
  \<^verbatim>\<open>src/engine/tickertape.py\<close>: the paced \<^verbatim>\<open>/search\<close>, the bulk map of identifiers, \<^verbatim>\<open>resolve\<close>, the intraday
  curve, the batch of quotes and the mood index. The module's globals are the record \<open>tt_state\<close>. The replies of
  the site are arguments: from the search on a JSON object (\<^typ>\<open>dict\<close>, its rows objects) or \<open>None\<close> for a failed call. Calls run
  in the order in which they take the locks; the clock readings of a call are fields of its record.
\<close>

section \<open>State\<close>

record sid_rec =
  sr_sid :: val
  sr_sector :: val
  sr_name :: val

record mmi =
  mi_value :: rat
  mi_zone :: string
  mi_last_day :: "rat option"
  mi_last_week :: "rat option"
  mi_last_month :: "rat option"
  mi_last_year :: "rat option"
  mi_date :: val

record tt_state =
  ts_sids :: "string \<rightharpoonup> sid_rec"
  ts_last_search :: secs
  ts_cooldown :: secs
  ts_all :: "(string \<times> val) list"
  ts_all_at :: secs
  ts_mmi :: "(secs \<times> mmi) option"

definition new_tickertape :: tt_state where
  "new_tickertape = \<lparr>ts_sids = Map.empty, ts_last_search = 0, ts_cooldown = 0, ts_all = [], ts_all_at = 0, ts_mmi = None\<rparr>"

definition sid_seed :: "(string \<times> string) list" where
  "sid_seed = [(''RELIANCE'', ''RELI'')]"

definition search_min_gap :: secs where "search_min_gap = 6 / 10"
definition search_cooldown :: secs where "search_cooldown = 120"
definition sidmap_ttl :: secs where "sidmap_ttl = 86400"

section \<open>A call\<close>

text \<open>The reply of the site is its status, its text and what \<^verbatim>\<open>json()\<close> makes of it (\<open>None\<close> when it raises); no reply is an
  exception. A 200 whose text begins like JSON and does not parse ends as an exception does, without a status.\<close>

type_synonym site_reply = "(int \<times> string \<times> val option) option"

definition tt_get_raw :: "site_reply \<Rightarrow> int option \<times> val option" where
  "tt_get_raw r =
     (case r of
        None \<Rightarrow> (None, None)
      | Some (status, txt, parsed) \<Rightarrow>
          if status = 200 \<and> contains_text ''{['' (take 1 txt)
          then (case parsed of None \<Rightarrow> (None, None) | Some v \<Rightarrow> (Some 200, Some v))
          else (Some status, None))"

definition tt_get :: "site_reply \<Rightarrow> val option" where
  "tt_get r = (let (status, j) = tt_get_raw r in j)"

lemma tt_get_only_200: "tt_get_raw r = (st, Some v) \<Longrightarrow> st = Some 200 \<and> (\<exists>txt. r = Some (200, txt, Some v))"
  by (auto simp: tt_get_raw_def split: option.splits if_splits)

section \<open>The paced search\<close>

record search_call =
  sq_first :: secs
  sq_locked :: secs
  sq_gap :: secs
  sq_done :: secs
  sq_parked :: secs
  sq_status :: "int option"
  sq_reply :: "dict option"

text \<open>The instant at which a call that is let through sends its request: after the sleep that the gap asks for.\<close>

definition search_sent :: "search_call \<Rightarrow> tt_state \<Rightarrow> secs" where
  "search_sent c st =
     (let gap = sq_gap c - ts_last_search st
      in if gap < search_min_gap then sq_gap c + (search_min_gap - gap) else sq_gap c)"

definition search_passes :: "search_call \<Rightarrow> tt_state \<Rightarrow> bool" where
  "search_passes c st \<longleftrightarrow> \<not> sq_first c < ts_cooldown st \<and> \<not> sq_locked c < ts_cooldown st"

definition tt_search :: "search_call \<Rightarrow> tt_state \<Rightarrow> dict option \<times> tt_state" where
  "tt_search c st =
     (if \<not> search_passes c st then (None, st)
      else (let st1 = st\<lparr>ts_last_search := sq_done c\<rparr>
            in if sq_status c = Some 403 then (None, st1\<lparr>ts_cooldown := sq_parked c + search_cooldown\<rparr>)
               else (sq_reply c, st1)))"

text \<open>What a run of calls sends: the instant and the end of each request and whether it was refused.\<close>

fun search_log :: "search_call list \<Rightarrow> tt_state \<Rightarrow> (secs \<times> secs \<times> bool) list" where
  "search_log [] st = []"
| "search_log (c # cs) st =
     (if search_passes c st then [(search_sent c st, sq_done c, sq_status c = Some 403)] else []) @
     search_log cs (snd (tt_search c st))"

text \<open>The clock readings of a call are in the order of its code.\<close>

definition call_ok :: "search_call \<Rightarrow> tt_state \<Rightarrow> bool" where
  "call_ok c st \<longleftrightarrow> sq_locked c \<le> sq_gap c \<and> search_sent c st \<le> sq_done c \<and> sq_done c \<le> sq_parked c"

fun calls_ok :: "secs \<Rightarrow> search_call list \<Rightarrow> tt_state \<Rightarrow> bool" where
  "calls_ok t [] st = True"
| "calls_ok t (c # cs) st = (t \<le> sq_locked c \<and> call_ok c st \<and>
     calls_ok (if search_passes c st then sq_parked c else sq_locked c) cs (snd (tt_search c st)))"

section \<open>Resolving a symbol\<close>

definition sid_rows :: "dict option \<Rightarrow> (string \<times> val) list" where
  "sid_rows j =
     foldl (\<lambda>m x. let d = sub_dict x; t = upper (str_field_of d ''ticker''); sid = dget d ''sid''
                  in if t \<noteq> [] \<and> truthy_val sid then dput t sid m else m)
       [] (list_val (dget (case j of None \<Rightarrow> [] | Some d \<Rightarrow> d) ''data''))"

definition ensure_sid_map :: "secs \<Rightarrow> secs \<Rightarrow> secs \<Rightarrow> dict option \<Rightarrow> tt_state \<Rightarrow> tt_state" where
  "ensure_sid_map now now2 tm j st =
     (if ts_all st \<noteq> [] \<and> now - ts_all_at st < sidmap_ttl then st
      else if ts_all st \<noteq> [] \<and> now2 - ts_all_at st < sidmap_ttl then st
      else (let m = sid_rows j in if m = [] then st else st\<lparr>ts_all := m, ts_all_at := tm\<rparr>))"

record resolve_env =
  rv_now :: secs
  rv_now2 :: secs
  rv_at :: secs
  rv_list :: "dict option"
  rv_search :: search_call

definition plain_rec :: "val \<Rightarrow> sid_rec" where
  "plain_rec sid = \<lparr>sr_sid = sid, sr_sector = VNone, sr_name = VNone\<rparr>"

definition rec_of :: "dict \<Rightarrow> sid_rec" where
  "rec_of d = \<lparr>sr_sid = dget d ''sid'', sr_sector = dget d ''sector'', sr_name = dget d ''name''\<rparr>"

definition search_stocks :: "dict option \<Rightarrow> dict list" where
  "search_stocks j =
     map sub_dict (list_val (dget (sub_dict (dget (case j of None \<Rightarrow> [] | Some d \<Rightarrow> d) ''data'')) ''stocks''))"

text \<open>The exact ticker among the hits, else the first hit.\<close>

definition best_stock :: "string \<Rightarrow> dict list \<Rightarrow> dict" where
  "best_stock s stocks =
     (case find (\<lambda>d. upper (str_field_of d ''ticker'') = s) stocks of
        Some d \<Rightarrow> if d \<noteq> [] then d else (case stocks of [] \<Rightarrow> [] | x # _ \<Rightarrow> x)
      | None \<Rightarrow> (case stocks of [] \<Rightarrow> [] | x # _ \<Rightarrow> x))"

definition put_sid :: "string \<Rightarrow> sid_rec \<Rightarrow> tt_state \<Rightarrow> tt_state" where
  "put_sid s r st = st\<lparr>ts_sids := (ts_sids st)(s \<mapsto> r)\<rparr>"

definition resolve_search :: "resolve_env \<Rightarrow> string \<Rightarrow> tt_state \<Rightarrow> sid_rec option \<times> tt_state" where
  "resolve_search v s st =
     (let (j, st2) = tt_search (rv_search v) st; best = best_stock s (search_stocks j)
      in if best = [] then (None, st2)
         else (let r = rec_of best in (Some r, if truthy_val (sr_sid r) then put_sid s r st2 else st2)))"

definition resolve :: "resolve_env \<Rightarrow> string \<Rightarrow> tt_state \<Rightarrow> sid_rec option \<times> tt_state" where
  "resolve v sm st =
     (let s = upper (strip sm)
      in case ts_sids st s of
           Some r \<Rightarrow> (Some r, st)
         | None \<Rightarrow>
             (case map_of sid_seed s of
                Some sid \<Rightarrow> (Some (plain_rec (VStr sid)), put_sid s (plain_rec (VStr sid)) st)
              | None \<Rightarrow>
                  (let st1 = ensure_sid_map (rv_now v) (rv_now2 v) (rv_at v) (rv_list v) st
                   in case map_of (ts_all st1) s of
                        Some sid \<Rightarrow> if truthy_val sid then (Some (plain_rec sid), put_sid s (plain_rec sid) st1)
                                    else resolve_search v s st1
                      | None \<Rightarrow> resolve_search v s st1)))"

section \<open>The intraday curve\<close>

text \<open>A stamp's instant in microseconds; a naive one is local time of the host (\<open>host\<close> minutes east).\<close>

definition stamp_us :: "int \<Rightarrow> string \<Rightarrow> int option" where
  "stamp_us host ts =
     map_option (\<lambda>t. case timestamp_us t of Some u \<Rightarrow> u
                     | None \<Rightarrow> (toordinal (dt_date t) - epoch_ordinal) * day_us + dt_us t - us_of 0 host)
       (fromisoformat (replace_z ts))"

text \<open>The readable points in arrival order, as (instant, price, cumulative volume); the outer \<open>None\<close> is the
  exception of a price or volume that is no number.\<close>

fun raw_points :: "int \<Rightarrow> dict list \<Rightarrow> (int \<times> rat \<times> rat) list option" where
  "raw_points host [] = Some []"
| "raw_points host (p # ps) =
     (let lp = dget p ''lp''; ts = dget p ''ts''
      in if lp = VNone \<or> \<not> truthy_val ts then raw_points host ps
         else (case ts of
             VStr s \<Rightarrow>
               (case stamp_us host s of
                  None \<Rightarrow> raw_points host ps
                | Some u \<Rightarrow>
                    (case (to_float lp, to_float (val_or (dget p ''v'') (VInt 0))) of
                       (Some x, Some c) \<Rightarrow> map_option ((#) (u, x, c)) (raw_points host ps)
                     | _ \<Rightarrow> None))
           | _ \<Rightarrow> None))"

fun curve_deltas :: "rat option \<Rightarrow> (int \<times> rat \<times> rat) list \<Rightarrow> curve_point list" where
  "curve_deltas prev [] = []"
| "curve_deltas prev ((u, x, c) # ps) =
     (let inc = (case prev of None \<Rightarrow> 0 | Some p \<Rightarrow> if p \<le> c then c - p else 0)
      in \<lparr>cp_ts = isoformat (fromtimestamp_us ist_offset u), cp_price = Some x, cp_volume = Some (of_int (py_trunc inc))\<rparr>
         # curve_deltas (Some c) ps)"

definition chart_points :: "dict option \<Rightarrow> dict list" where
  "chart_points j =
     (case list_val (dget (case j of None \<Rightarrow> [] | Some d \<Rightarrow> d) ''data'') of
        [] \<Rightarrow> [] | x # _ \<Rightarrow> map sub_dict (list_val (dget (sub_dict x) ''points'')))"

text \<open>The outer \<open>None\<close> is an exception, the inner one the function's \<^verbatim>\<open>None\<close>. \<open>chart\<close> answers the request for a sid.\<close>

definition fetch_intraday_points :: "resolve_env \<Rightarrow> int \<Rightarrow> (val \<Rightarrow> dict option) \<Rightarrow> string \<Rightarrow> tt_state \<Rightarrow>
    curve_point list option option \<times> tt_state" where
  "fetch_intraday_points v host chart sm st =
     (let (r, st') = resolve v sm st
      in (case r of None \<Rightarrow> Some None
          | Some rc \<Rightarrow>
              if \<not> truthy_val (sr_sid rc) then Some None
              else (case chart_points (chart (sr_sid rc)) of
                  [] \<Rightarrow> Some None
                | p # ps \<Rightarrow> map_option (\<lambda>raw. Some (curve_deltas None (sort_key fst raw))) (raw_points host (p # ps))), st'))"

section \<open>The batch of quotes\<close>

definition batch_sids :: nat where "batch_sids = 50"

function chunks_of :: "nat \<Rightarrow> 'a list \<Rightarrow> 'a list list" where
  "chunks_of n xs = (if xs = [] \<or> n = 0 then [] else take n xs # chunks_of n (drop n xs))"
  by auto
termination by (relation "measure (\<lambda>(n, xs). length xs)") auto

declare chunks_of.simps [simp del]

fun resolve_all :: "(string \<Rightarrow> resolve_env) \<Rightarrow> string list \<Rightarrow> tt_state \<Rightarrow> (string \<times> sid_rec option) list \<times> tt_state" where
  "resolve_all v [] st = ([], st)"
| "resolve_all v (s # ss) st =
     (let (r, st1) = resolve (v s) s st; (rs, st2) = resolve_all v ss st1 in ((upper s, r) # rs, st2))"

definition add_sid :: "(val \<times> string) list \<Rightarrow> string \<times> sid_rec option \<Rightarrow> (val \<times> string) list" where
  "add_sid m p =
     (case snd p of None \<Rightarrow> m
      | Some rc \<Rightarrow> if truthy_val (sr_sid rc) then dput (sr_sid rc) (fst p) m else m)"

definition sid_map_of :: "(string \<times> sid_rec option) list \<Rightarrow> (val \<times> string) list" where
  "sid_map_of rs = foldl add_sid [] rs"

text \<open>\<^verbatim>\<open>(j or {}).get("data", [])\<close>; \<open>None\<close> when iterating it raises.\<close>

definition reply_rows :: "dict option \<Rightarrow> dict list option" where
  "reply_rows j =
     (case map_of (case j of None \<Rightarrow> [] | Some d \<Rightarrow> d) ''data'' of
        None \<Rightarrow> Some []
      | Some (VList xs) \<Rightarrow> Some (map sub_dict xs)
      | Some _ \<Rightarrow> None)"

definition put_row :: "(val \<times> string) list \<Rightarrow> (string \<times> dict) list \<Rightarrow> dict \<Rightarrow> (string \<times> dict) list" where
  "put_row m out row =
     (case map_of m (dget row ''sid'') of None \<Rightarrow> out | Some s \<Rightarrow> if s = [] then out else dput s row out)"

fun merge_replies :: "(val \<times> string) list \<Rightarrow> dict option list \<Rightarrow> (string \<times> dict) list \<Rightarrow> (string \<times> dict) list option" where
  "merge_replies m [] out = Some out"
| "merge_replies m (j # js) out =
     (case reply_rows j of None \<Rightarrow> None | Some rows \<Rightarrow> merge_replies m js (foldl (put_row m) out rows))"

definition fetch_quotes :: "(string \<Rightarrow> resolve_env) \<Rightarrow> (val list \<Rightarrow> dict option) \<Rightarrow> string list \<Rightarrow> tt_state \<Rightarrow>
    (string \<times> dict) list option \<times> tt_state" where
  "fetch_quotes v batch symbols st =
     (let (rs, st') = resolve_all v symbols st; m = sid_map_of rs
      in (if m = [] then Some [] else merge_replies m (map batch (chunks_of batch_sids (map fst m))) [], st'))"

section \<open>The mood index\<close>

definition mmi_zone :: "rat \<Rightarrow> string" where
  "mmi_zone x = (if x < 30 then ''EXTREME_FEAR'' else if x < 50 then ''FEAR'' else if x < 70 then ''GREED'' else ''EXTREME_GREED'')"

text \<open>The outer \<open>None\<close> is the exception of an indicator that is no number.\<close>

definition mmi_ind :: "val \<Rightarrow> rat option option" where
  "mmi_ind snap = (let x = dget (sub_dict snap) ''indicator''
     in if x = VNone then Some None else map_option (\<lambda>r. Some (py_round 2 r)) (to_float x))"

definition mmi_of :: "dict \<Rightarrow> mmi option" where
  "mmi_of d =
     (case (to_float (dget d ''currentValue''), mmi_ind (dget d ''lastDay''), mmi_ind (dget d ''lastWeek''),
            mmi_ind (dget d ''lastMonth''), mmi_ind (dget d ''lastYear'')) of
        (Some x, Some a, Some b, Some c, Some e) \<Rightarrow>
          Some \<lparr>mi_value = py_round 2 x, mi_zone = mmi_zone (py_round 2 x), mi_last_day = a, mi_last_week = b,
                mi_last_month = c, mi_last_year = e, mi_date = dget d ''date''\<rparr>
      | _ \<Rightarrow> None)"

definition mmi_refresh :: "secs \<Rightarrow> dict option \<Rightarrow> tt_state \<Rightarrow> mmi option option \<times> tt_state" where
  "mmi_refresh tm j st =
     (let d = sub_dict (dget (case j of None \<Rightarrow> [] | Some d \<Rightarrow> d) ''data'')
      in if d = [] \<or> dget d ''currentValue'' = VNone then (Some None, st)
         else (case mmi_of d of None \<Rightarrow> (None, st) | Some x \<Rightarrow> (Some (Some x), st\<lparr>ts_mmi := Some (tm, x)\<rparr>)))"

definition fetch_mmi :: "secs \<Rightarrow> secs \<Rightarrow> dict option \<Rightarrow> tt_state \<Rightarrow> mmi option option \<times> tt_state" where
  "fetch_mmi now tm j st =
     (case ts_mmi st of
        Some (t, x) \<Rightarrow> if now - t < 300 then (Some (Some x), st) else mmi_refresh tm j st
      | None \<Rightarrow> mmi_refresh tm j st)"

interpretation mmi_read: read_through ts_mmi "\<lambda>now (tm, j) st. fetch_mmi now tm j st" "\<lambda>x. Some (Some x)" 300
  by unfold_locales (auto simp: fetch_mmi_def mmi_refresh_def Let_def split: option.splits if_splits prod.splits)

section \<open>Pacing\<close>

lemma search_sent_gap: "ts_last_search st + search_min_gap \<le> search_sent c st" "sq_gap c \<le> search_sent c st"
  by (simp_all add: search_sent_def Let_def)

lemma tt_search_marks:
  "ts_last_search (snd (tt_search c st)) = (if search_passes c st then sq_done c else ts_last_search st)"
  "ts_cooldown (snd (tt_search c st)) =
     (if search_passes c st \<and> sq_status c = Some 403 then sq_parked c + search_cooldown else ts_cooldown st)"
  by (simp_all add: tt_search_def Let_def)

lemma search_log_after:
  assumes "calls_ok t cs st" "e \<in> set (search_log cs st)"
  shows "ts_last_search st + search_min_gap \<le> fst e \<and> ts_cooldown st \<le> fst e"
  using assms
proof (induction cs arbitrary: t st)
  case (Cons c cs)
  let ?st = "snd (tt_search c st)"
  have ok: "call_ok c st" and tail: "calls_ok (if search_passes c st then sq_parked c else sq_locked c) cs ?st"
    using Cons.prems by simp_all
  show ?case
  proof (cases "e \<in> set (search_log cs ?st)")
    case True
    with Cons.IH[OF tail] have "ts_last_search ?st + search_min_gap \<le> fst e" "ts_cooldown ?st \<le> fst e" by blast+
    with ok search_sent_gap(1)[of st c] search_sent_gap(2)[of c st] show ?thesis
      by (auto simp: tt_search_marks call_ok_def search_passes_def search_min_gap_def search_cooldown_def split: if_splits)
  next
    case False
    with Cons.prems have e: "search_passes c st" "fst e = search_sent c st" by (auto split: if_splits)
    with ok search_sent_gap(1)[of st c] search_sent_gap(2)[of c st] show ?thesis by (auto simp: call_ok_def search_passes_def)
  qed
qed simp

text \<open>C33: The requests to the rate-limited \<^verbatim>\<open>/search\<close> are paced: whatever calls arrive, a request starts at the
  earliest 0.6 seconds after the one before it ended, and none starts within 120 seconds of a refusal.\<close>

theorem search_paced:
  assumes "calls_ok t cs st"
  shows "sorted_wrt (\<lambda>(_, stop, refused) (start, _, _).
    stop + 6 / 10 \<le> start \<and> (if refused then stop + 120 \<le> start else True)) (search_log cs st)"
  using assms
proof (induction cs arbitrary: t st)
  case (Cons c cs)
  let ?st = "snd (tt_search c st)"
  have ok: "call_ok c st" and tail: "calls_ok (if search_passes c st then sq_parked c else sq_locked c) cs ?st"
    using Cons.prems by simp_all
  have "sq_done c + 6 / 10 \<le> fst e \<and> (sq_status c = Some 403 \<longrightarrow> sq_done c + 120 \<le> fst e)"
    if "search_passes c st" "e \<in> set (search_log cs ?st)" for e
    using search_log_after[OF tail that(2)] that(1) ok
    by (auto simp: tt_search_marks call_ok_def search_min_gap_def search_cooldown_def split: if_splits)
  with Cons.IH[OF tail] show ?case by (fastforce simp: sorted_wrt_append split: prod.splits)
qed simp

definition demo_calls :: "search_call list" where
  "demo_calls =
     [\<lparr>sq_first = 100, sq_locked = 100, sq_gap = 100, sq_done = 101, sq_parked = 101, sq_status = Some 200, sq_reply = None\<rparr>,
      \<lparr>sq_first = 100, sq_locked = 101, sq_gap = 101, sq_done = 102, sq_parked = 102, sq_status = Some 403, sq_reply = None\<rparr>,
      \<lparr>sq_first = 101, sq_locked = 103, sq_gap = 103, sq_done = 104, sq_parked = 104, sq_status = Some 200, sq_reply = None\<rparr>,
      \<lparr>sq_first = 222, sq_locked = 223, sq_gap = 223, sq_done = 224, sq_parked = 224, sq_status = Some 200, sq_reply = None\<rparr>]"

lemmas search_eval = demo_calls_def search_passes_def call_ok_def search_sent_def tt_search_def new_tickertape_def
  search_min_gap_def search_cooldown_def Let_def

theorem search_paced_witness:
  "length (search_log demo_calls new_tickertape) = 3 \<and> sorted_wrt (\<lambda>(_, stop, refused) (start, _, _).
    stop + 6 / 10 \<le> start \<and> (if refused then stop + 120 \<le> start else True)) (search_log demo_calls new_tickertape)"
proof -
  have "calls_ok 100 demo_calls new_tickertape" by (simp add: search_eval)
  moreover have "length (search_log demo_calls new_tickertape) = 3" by (simp add: search_eval)
  ultimately show ?thesis by (blast intro: search_paced)
qed

section \<open>Resolution\<close>

text \<open>A resolved symbol stays resolved, without another request.\<close>

lemma resolve_cached: "ts_sids st (upper (strip sm)) = Some r \<Longrightarrow> resolve v sm st = (Some r, st)"
  by (simp add: resolve_def)

lemma ensure_sid_map_sids [simp]: "ts_sids (ensure_sid_map now now2 tm j st) = ts_sids st"
  by (simp add: ensure_sid_map_def Let_def)

lemma tt_search_sids [simp]: "ts_sids (snd (tt_search c st)) = ts_sids st"
  by (simp add: tt_search_def Let_def)

lemma tt_search_sidsD: "tt_search c st = (j, st') \<Longrightarrow> ts_sids st' = ts_sids st"
  using tt_search_sids[of c st] by simp

lemma resolve_caches:
  assumes "resolve v sm st = (Some r, st')" "truthy_val (sr_sid r)"
  shows "ts_sids st' (upper (strip sm)) = Some r"
  using assms
  by (auto simp: resolve_def resolve_search_def put_sid_def Let_def split: option.splits prod.splits if_splits)

text \<open>When the site knows other stocks only, the first of them is taken: its identifier then stands for the symbol.\<close>

lemma resolve_takes_first_hit:
  assumes "search_stocks j = d # ds" "d \<noteq> []"
    and "find (\<lambda>d. upper (str_field_of d ''ticker'') = s) (d # ds) = None"
  shows "best_stock s (search_stocks j) = d"
  using assms by (simp add: best_stock_def)

lemma resolve_keeps:
  assumes "resolve v sm st = (q, st')" "ts_sids st k = Some r"
  shows "ts_sids st' k = Some r"
  using assms
  by (auto simp: resolve_def resolve_search_def put_sid_def Let_def dest!: tt_search_sidsD
      split: option.splits prod.splits if_splits)

section \<open>The batch\<close>

lemma concat_chunks_of: "0 < n \<Longrightarrow> concat (chunks_of n xs) = xs"
proof (induction n xs rule: chunks_of.induct)
  case (1 n xs)
  show ?case
  proof (cases "xs = []")
    case False
    with 1 have "concat (chunks_of n (drop n xs)) = drop n xs" by simp
    with False 1 show ?thesis using chunks_of.simps[of n xs] by simp
  qed (simp add: chunks_of.simps)
qed

lemma chunks_of_bound: "c \<in> set (chunks_of n xs) \<Longrightarrow> c \<noteq> [] \<and> length c \<le> n"
proof (induction n xs rule: chunks_of.induct)
  case (1 n xs)
  then show ?case using chunks_of.simps[of n xs] by (cases "xs = [] \<or> n = 0") auto
qed

lemma map_of_add_sid:
  "map_of (add_sid m p) k =
     (case snd p of Some rc \<Rightarrow> if truthy_val (sr_sid rc) \<and> k = sr_sid rc then Some (fst p) else map_of m k
      | None \<Rightarrow> map_of m k)"
  by (simp add: add_sid_def split: option.split)

lemma sid_map_of_sound:
  "map_of (sid_map_of rs) sid = Some s \<Longrightarrow> \<exists>r. (s, Some r) \<in> set rs \<and> sr_sid r = sid \<and> truthy_val sid"
  unfolding sid_map_of_def
proof (induction rs rule: rev_induct)
  case (snoc x xs)
  then show ?case by (cases x) (auto simp: map_of_add_sid split: option.splits if_splits)
qed simp

text \<open>With no other symbol on its identifier, a resolved symbol owns it.\<close>

lemma sid_map_of_complete:
  assumes "(s, Some r) \<in> set rs" "truthy_val (sr_sid r)"
    and "list_all (\<lambda>(s', q). case q of None \<Rightarrow> True | Some r' \<Rightarrow> sr_sid r' = sr_sid r \<longrightarrow> s' = s) rs"
  shows "map_of (sid_map_of rs) (sr_sid r) = Some s"
  using assms(1,3) unfolding sid_map_of_def
proof (induction rs rule: rev_induct)
  case (snoc x xs)
  show ?case
  proof (cases "(s, Some r) \<in> set xs")
    case True
    with snoc have "map_of (foldl add_sid [] xs) (sr_sid r) = Some s" by simp
    with snoc.prems(2) show ?thesis by (cases x) (auto simp: map_of_add_sid split: option.split)
  next
    case False
    with snoc.prems(1) have "x = (s, Some r)" by simp
    with assms(2) show ?thesis by (simp add: map_of_add_sid)
  qed
qed simp

lemma put_rows_sound:
  assumes "map_of (foldl (put_row m) out rows) s = Some row"
  shows "map_of out s = Some row \<or> (row \<in> set rows \<and> map_of m (dget row ''sid'') = Some s)"
  using assms
  by (induction rows arbitrary: row rule: rev_induct) (auto simp: put_row_def split: option.splits if_splits)

lemma put_rows_keys: "fst ` set out \<subseteq> fst ` set (foldl (put_row m) out rows)"
  by (induction rows rule: rev_induct) (auto simp: put_row_def split: option.splits)

lemma put_rows_has:
  assumes "row \<in> set rows" "map_of m (dget row ''sid'') = Some s" "s \<noteq> []"
  shows "s \<in> fst ` set (foldl (put_row m) out rows)"
  using assms by (induction rows rule: rev_induct) (auto simp: put_row_def split: option.splits if_splits)

lemma merge_replies_sound:
  assumes "merge_replies m js out = Some res" "map_of res s = Some row"
  shows "map_of out s = Some row \<or> (\<exists>j rows. j \<in> set js \<and> reply_rows j = Some rows \<and> row \<in> set rows \<and>
    map_of m (dget row ''sid'') = Some s)"
  using assms
proof (induction js arbitrary: out)
  case (Cons j js)
  then obtain rows where rows: "reply_rows j = Some rows" "merge_replies m js (foldl (put_row m) out rows) = Some res"
    by (auto split: option.splits)
  from Cons.IH[OF rows(2) Cons.prems(2)] put_rows_sound[of m out rows s row] rows(1) show ?case by auto
qed auto

lemma merge_replies_keys: "merge_replies m js out = Some res \<Longrightarrow> fst ` set out \<subseteq> fst ` set res"
proof (induction js arbitrary: out)
  case (Cons j js)
  then obtain rows where "merge_replies m js (foldl (put_row m) out rows) = Some res" by (auto split: option.splits)
  from Cons.IH[OF this] put_rows_keys[of out m rows] show ?case by blast
qed auto

lemma merge_replies_has:
  assumes "merge_replies m js out = Some res" "j \<in> set js" "reply_rows j = Some rows" "row \<in> set rows"
    "map_of m (dget row ''sid'') = Some s" "s \<noteq> []"
  shows "s \<in> fst ` set res"
  using assms(1,2)
proof (induction js arbitrary: out)
  case (Cons i js)
  then obtain rs where rs: "reply_rows i = Some rs" "merge_replies m js (foldl (put_row m) out rs) = Some res"
    by (auto split: option.splits)
  show ?case
  proof (cases "i = j")
    case True
    with rs(1) assms(3) have "rs = rows" by simp
    with put_rows_has[OF assms(4-6)] merge_replies_keys[OF rs(2)] show ?thesis by blast
  next
    case False
    with Cons.prems Cons.IH[OF rs(2)] show ?thesis by simp
  qed
qed simp

lemma resolve_all_fst: "map fst (fst (resolve_all v ss st)) = map upper ss"
proof (induction ss arbitrary: st)
  case (Cons a ss)
  obtain r st1 where "resolve (v a) a st = (r, st1)" by fastforce
  with Cons[of st1] show ?case by (simp add: split_beta)
qed simp

lemma fetch_quotes_merge:
  assumes "fetch_quotes v batch symbols st = (Some out, st')"
  shows "merge_replies (sid_map_of (fst (resolve_all v symbols st)))
    (map batch (chunks_of batch_sids (map fst (sid_map_of (fst (resolve_all v symbols st)))))) [] = Some out"
  using assms by (auto simp: fetch_quotes_def Let_def split_beta chunks_of.simps split: if_splits)

lemma resolved_symbol: "(s, q) \<in> set (fst (resolve_all v symbols st)) \<Longrightarrow> s \<in> set (map upper symbols)"
  using resolve_all_fst[of v symbols st] by (metis fst_conv imageI list.set_map)

text \<open>C34: The batch feed gives every symbol its own row: a row is filed under a requested symbol that resolved to the
  row's identifier, comes from a request of at most fifty identifiers, and a requested symbol that shares its
  identifier with no other is filed whenever a reply holds a row for it.\<close>

theorem batch_rows_belong:
  assumes "fetch_quotes v batch symbols st = (Some out, st')"
  shows "(map_of out s = Some row \<longrightarrow>
      s \<in> set (map upper symbols) \<and>
      (\<exists>r chunk rows. (s, Some r) \<in> set (fst (resolve_all v symbols st)) \<and> sr_sid r = dget row ''sid'' \<and>
        chunk \<noteq> [] \<and> length chunk \<le> 50 \<and> reply_rows (batch chunk) = Some rows \<and> row \<in> set rows)) \<and>
    ((s, Some rec) \<in> set (fst (resolve_all v symbols st)) \<and> truthy_val (sr_sid rec) \<and> s \<noteq> [] \<and>
      list_all (\<lambda>(s', q). case q of None \<Rightarrow> True | Some r' \<Rightarrow> sr_sid r' = sr_sid rec \<longrightarrow> s' = s)
        (fst (resolve_all v symbols st)) \<and>
      chunk' \<in> set (chunks_of 50 (map fst (sid_map_of (fst (resolve_all v symbols st))))) \<and>
      reply_rows (batch chunk') = Some rows' \<and> row' \<in> set rows' \<and> dget row' ''sid'' = sr_sid rec \<longrightarrow>
      s \<in> fst ` set out)"
proof (intro conjI impI)
  let ?rs = "fst (resolve_all v symbols st)" and ?m = "sid_map_of (fst (resolve_all v symbols st))"
  note mr = fetch_quotes_merge[OF assms]
  {
    assume "map_of out s = Some row"
    with merge_replies_sound[OF mr, of s row] obtain j rows where j: "j \<in> set (map batch (chunks_of batch_sids (map fst ?m)))"
      "reply_rows j = Some rows" "row \<in> set rows" "map_of ?m (dget row ''sid'') = Some s" by auto
    from sid_map_of_sound[OF j(4)] obtain r where r: "(s, Some r) \<in> set ?rs" "sr_sid r = dget row ''sid''" by blast
    from j(1) obtain chunk where c: "chunk \<in> set (chunks_of batch_sids (map fst ?m))" "j = batch chunk" by auto
    from chunks_of_bound[OF c(1)] have "chunk \<noteq> [] \<and> length chunk \<le> 50" by (simp add: batch_sids_def)
    with r j c resolved_symbol[OF r(1)]
    show "s \<in> set (map upper symbols)"
      "\<exists>r chunk rows. (s, Some r) \<in> set ?rs \<and> sr_sid r = dget row ''sid'' \<and>
        chunk \<noteq> [] \<and> length chunk \<le> 50 \<and> reply_rows (batch chunk) = Some rows \<and> row \<in> set rows" by blast+
  next
    assume "(s, Some rec) \<in> set ?rs \<and> truthy_val (sr_sid rec) \<and> s \<noteq> [] \<and>
      list_all (\<lambda>(s', q). case q of None \<Rightarrow> True | Some r' \<Rightarrow> sr_sid r' = sr_sid rec \<longrightarrow> s' = s) ?rs \<and>
      chunk' \<in> set (chunks_of 50 (map fst ?m)) \<and>
      reply_rows (batch chunk') = Some rows' \<and> row' \<in> set rows' \<and> dget row' ''sid'' = sr_sid rec"
    then show "s \<in> fst ` set out"
      using merge_replies_has[OF mr, of "batch chunk'" rows' row' s] sid_map_of_complete[of s rec ?rs]
      by (simp add: batch_sids_def)
  }
qed

definition demo_resolve :: "string \<Rightarrow> resolve_env" where
  "demo_resolve _ = \<lparr>rv_now = 0, rv_now2 = 0, rv_at = 0, rv_list = None, rv_search = hd demo_calls\<rparr>"

definition demo_batch :: "val list \<Rightarrow> dict option" where
  "demo_batch sids = Some [(''data'', VList (map (\<lambda>x. VDict [(''sid'', x), (''price'', VInt 7)]) sids))]"

lemmas batch_eval = fetch_quotes_def demo_resolve_def demo_batch_def resolve_def sid_seed_def new_tickertape_def Let_def
  put_sid_def plain_rec_def sid_map_of_def add_sid_def chunks_of.simps batch_sids_def reply_rows_def put_row_def

lemma demo_texts: "upper (strip ''Reliance'') = ''RELIANCE''" "upper ''Reliance'' = ''RELIANCE''" "upper (strip ''RELIANCE'') = ''RELIANCE''"
  by code_simp+

theorem batch_rows_belong_witness:
  "\<exists>out st'. fetch_quotes demo_resolve demo_batch [''Reliance''] new_tickertape = (Some out, st') \<and>
     map_of out ''RELIANCE'' = Some [(''sid'', VStr ''RELI''), (''price'', VInt 7)] \<and> ''RELIANCE'' \<in> set (map upper [''Reliance''])"
proof -
  let ?row = "[(''sid'', VStr ''RELI''), (''price'', VInt 7)]"
  obtain st' where f: "fetch_quotes demo_resolve demo_batch [''Reliance''] new_tickertape = (Some [(''RELIANCE'', ?row)], st')"
    by (simp add: batch_eval demo_texts)
  have "''RELIANCE'' \<in> set (map upper [''Reliance''])"
    using batch_rows_belong[OF f, of "''RELIANCE''" ?row] by simp
  with f show ?thesis by (intro exI[of _ "[(''RELIANCE'', ?row)]"] exI[of _ st']) simp
qed

section \<open>The curve\<close>

lemma curve_deltas_shape:
  "map cp_ts (curve_deltas prev ps) = map (\<lambda>(u, _). isoformat (fromtimestamp_us ist_offset u)) ps"
  "map cp_price (curve_deltas prev ps) = map (\<lambda>(_, x, _). Some x) ps"
  by (induction prev ps rule: curve_deltas.induct) (auto simp: Let_def)

lemma curve_deltas_nonneg:
  "list_all (\<lambda>p. case cp_volume p of None \<Rightarrow> False | Some w \<Rightarrow> 0 \<le> w) (curve_deltas prev ps)"
  by (induction prev ps rule: curve_deltas.induct) (auto simp: Let_def py_trunc_nonneg split: option.split)

definition curve_volume :: "curve_point list \<Rightarrow> rat" where
  "curve_volume ps = sum_list (map (\<lambda>p. case cp_volume p of None \<Rightarrow> 0 | Some w \<Rightarrow> w) ps)"

lemma curve_deltas_sum:
  assumes "sorted (c0 # map (\<lambda>(_, _, c). c) ps)" "list_all (\<lambda>(_, _, c). c \<in> \<int>) ps" "c0 \<in> \<int>"
  shows "curve_volume (curve_deltas (Some c0) ps) = last (c0 # map (\<lambda>(_, _, c). c) ps) - c0"
  using assms
proof (induction ps arbitrary: c0)
  case (Cons p ps)
  obtain u x c where p: "p = (u, x, c)" by (cases p)
  have "curve_volume (curve_deltas (Some c) ps) = last (c # map (\<lambda>(_, _, c). c) ps) - c"
    using Cons.prems p by (intro Cons.IH) auto
  moreover have "of_int (py_trunc (c - c0)) = c - c0"
    using Cons.prems p by (auto simp: py_trunc_def elim!: Ints_cases)
  ultimately show ?case using Cons.prems p by (simp add: curve_volume_def Let_def)
qed (simp add: curve_volume_def)

text \<open>The curve is in time order, with the fetched prices and no negative volume, and when the upstream's cumulative
  volume (of whole shares) never falls, the volumes of the points add up to what the day gained.\<close>

theorem curve_volume_conserved:
  assumes "fetch_intraday_points v host chart sm st = (Some (Some pts), st')"
  shows "\<exists>raw. sorted (map fst raw) \<and>
    map cp_ts pts = map (\<lambda>(u, _). isoformat (fromtimestamp_us ist_offset u)) raw \<and>
    map cp_price pts = map (\<lambda>(_, x, _). Some x) raw \<and>
    list_all (\<lambda>p. case cp_volume p of None \<Rightarrow> False | Some w \<Rightarrow> 0 \<le> w) pts \<and>
    (raw \<noteq> [] \<and> sorted (map (\<lambda>(_, _, c). c) raw) \<and> list_all (\<lambda>(_, _, c). c \<in> \<int>) raw \<longrightarrow>
      curve_volume pts = last (map (\<lambda>(_, _, c). c) raw) - hd (map (\<lambda>(_, _, c). c) raw))"
proof -
  from assms obtain raw where pts: "pts = curve_deltas None (sort_key fst raw)"
    by (auto simp: fetch_intraday_points_def split_beta split: option.splits if_splits list.splits)
  let ?raw = "sort_key fst raw"
  have "curve_volume pts = last (map (\<lambda>(_, _, c). c) ?raw) - hd (map (\<lambda>(_, _, c). c) ?raw)"
    if h: "?raw \<noteq> []" "sorted (map (\<lambda>(_, _, c). c) ?raw)" "list_all (\<lambda>(_, _, c). c \<in> \<int>) ?raw"
  proof -
    obtain u x c ps where r: "?raw = (u, x, c) # ps" using h(1) by (metis prod_cases3 list.exhaust)
    have "curve_volume (curve_deltas (Some c) ps) = last (c # map (\<lambda>(_, _, c). c) ps) - c"
      using h r by (intro curve_deltas_sum) auto
    then show ?thesis unfolding pts r by (simp add: curve_volume_def py_trunc_def)
  qed
  then show ?thesis
    unfolding pts by (intro exI[of _ ?raw]) (simp add: curve_deltas_shape curve_deltas_nonneg)
qed

definition demo_chart :: "val \<Rightarrow> dict option" where
  "demo_chart _ = Some [(''data'', VList [VDict [(''points'', VList
     [VDict [(''ts'', VStr ''2026-01-05T03:46:00Z''), (''lp'', VInt 12), (''v'', VInt 30)],
      VDict [(''ts'', VStr ''2026-01-05T03:45:00Z''), (''lp'', VInt 10), (''v'', VInt 10)]])]])]"

theorem curve_volume_conserved_witness:
  "\<exists>pts st'. fetch_intraday_points (demo_resolve []) 330 demo_chart ''RELIANCE'' new_tickertape = (Some (Some pts), st') \<and>
     list_all (\<lambda>p. case cp_volume p of None \<Rightarrow> False | Some w \<Rightarrow> 0 \<le> w) pts \<and> length pts = 2"
proof -
  have "\<exists>pts st'. fetch_intraday_points (demo_resolve []) 330 demo_chart ''RELIANCE'' new_tickertape = (Some (Some pts), st') \<and> length pts = 2"
    by (simp add: demo_texts fetch_intraday_points_def demo_chart_def chart_points_def stamp_us_def replace_z_def fromisoformat_def
        parse_date_def parse_clock_def parse_offset_def parse_fraction_def in_clock_def is_digit_def digits_val.simps mk_date_def valid_date_def month_len_def
        leap_def timestamp_us_def toordinal_def days_before_year_def days_before_month_def epoch_ordinal_def us_of_def day_us_def
        val_or_def batch_eval)
  then obtain pts st' where f: "fetch_intraday_points (demo_resolve []) 330 demo_chart ''RELIANCE'' new_tickertape = (Some (Some pts), st')"
    "length pts = 2" by blast
  with curve_volume_conserved[OF f(1)] show ?thesis by blast
qed

text \<open>The gauge's zones cut the scale at 30, 50 and 70, and a cached value is served for five minutes.\<close>

lemma mmi_cached: "ts_mmi st = Some (t, x) \<Longrightarrow> now - t < 300 \<Longrightarrow> fetch_mmi now tm j st = (Some (Some x), st)"
  by (simp add: fetch_mmi_def)

lemma mmi_refreshed:
  assumes "mmi_refresh tm j st = (Some (Some x), st')"
  shows "ts_mmi st' = Some (tm, x) \<and> mi_zone x = mmi_zone (mi_value x)"
  using assms by (auto simp: mmi_refresh_def mmi_of_def Let_def split: if_splits option.splits)

end
