(* ===== verification/QuoteStack.thy ===== *)
theory QuoteStack
  imports LiveStack SbService Tickertape
begin

text \<open>
  The bulk quotes of the adapter on the shipped stack: what \<^verbatim>\<open>_batch_quotes\<close>, \<^verbatim>\<open>_fill_open\<close> and the warm loop read is the
  Tickertape batch and one \<^verbatim>\<open>_do_live_fetch\<close> per symbol, which asks the shared service over its registered providers. The
  fetches of a request run concurrently, so each symbol meets a controller of its own, any that the service can reach.
  A request and its fetches see the market in the same state.
\<close>

section \<open>The feeds of a request\<close>

record fetch_round =
  ro_iv :: secs
  ro_live :: live_cfg
  ro_feeds :: feeds
  ro_later :: feeds
  ro_ctl :: "string \<Rightarrow> controller"
  ro_engine :: "string \<Rightarrow> engine"

definition fetched_tick :: "fetch_round \<Rightarrow> bool \<Rightarrow> secs \<Rightarrow> string \<Rightarrow> string \<Rightarrow> tick option" where
  "fetched_tick r mkt now exch s =
     (case fr_reply (do_live_fetch (ro_live r) (shipped_env (ro_iv r) (ro_feeds r)) (shipped_env (ro_iv r) (ro_later r)) mkt now
          s exch (ro_ctl r s) (ro_engine r s)) of
        Quote x \<Rightarrow> x
      | Cancelled \<Rightarrow> None)"

text \<open>\<open>r\<close> and \<open>r2\<close> are the fetches of the batch and of the back-fill, \<open>rows\<close> what the Tickertape batch returned.\<close>

definition stack_env :: "fetch_round \<Rightarrow> fetch_round \<Rightarrow> (string \<times> dict) list option \<Rightarrow> string \<Rightarrow> sb_env \<Rightarrow> sb_env" where
  "stack_env r r2 rows exch v =
     v\<lparr>se_rows := (\<lambda>s. case rows of None \<Rightarrow> None | Some out \<Rightarrow> map_of out s),
       se_live := fetched_tick r (se_market v) (se_clock v) exch,
       se_live2 := fetched_tick r2 (se_market v) (se_clock v) exch\<rparr>"

inductive served :: "cb_settings \<Rightarrow> source_flags \<Rightarrow> sb_env \<Rightarrow> bool" for cb f where
  served: "(\<And>s. svc_reach cb f (ro_ctl r s)) \<Longrightarrow> (\<And>s. svc_reach cb f (ro_ctl r2 s)) \<Longrightarrow>
    served cb f (stack_env r r2 (fst (fetch_quotes rv batch syms tt)) exch v)"

inductive_cases servedE: "served cb f v"

text \<open>The states of the warm cache when every refresh is fed by the stack.\<close>

inductive stack_reach :: "cb_settings \<Rightarrow> source_flags \<Rightarrow> warm_cfg \<Rightarrow> sb_state \<Rightarrow> bool" for cb f cfg where
  boot: "sb_warm st = Map.empty \<Longrightarrow> stack_reach cb f cfg st"
| turn: "stack_reach cb f cfg st \<Longrightarrow> served cb f v \<Longrightarrow> stack_reach cb f cfg (fst (warm_turn cfg watchlist v t0 ok st))"
| request: "stack_reach cb f cfg st \<Longrightarrow> stack_reach cb f cfg (snd (sb_quotes cfg v symbols exch enrich rich fast proj st))"
| single: "stack_reach cb f cfg st \<Longrightarrow> stack_reach cb f cfg (snd (sb_quote_handler v raw enrich st))"

section \<open>The law of the stack\<close>

text \<open>What a quote may name as its source: the Tickertape batch or a registered provider, in an open market not the delayed one.\<close>

definition stack_sources :: "source_flags \<Rightarrow> bool \<Rightarrow> val list" where
  "stack_sources f mkt =
     VStr ''tickertape_realtime_nse'' # map (\<lambda>p. VStr (p_name p)) (filter (\<lambda>p. \<not> (mkt \<and> p_delayed p)) (service_providers f))"

definition stack_law :: "source_flags \<Rightarrow> bool \<Rightarrow> string \<Rightarrow> dict \<Rightarrow> bool" where
  "stack_law f mkt s q \<longleftrightarrow> own_symbol s q \<and> dget q ''source'' \<in> set (stack_sources f mkt)"

interpretation stack: quote_law "stack_law f mkt" for f mkt
  by unfold_locales (auto simp: stack_law_def own.law_put)

lemma stack_law_open: "stack_law f True s q \<Longrightarrow> stack_law f mkt s q"
  by (auto simp: stack_law_def stack_sources_def)

text \<open>One fetch: the first read leaves the delayed feed out, the second is made only when the market is shut.\<close>

lemma fetch_reply:
  assumes "fr_reply (do_live_fetch lc env1 env2 mkt now s exch c e) = Quote (Some t)"
  shows "(\<exists>c1 j1. get_quote_through env1 s exch None True True False c = (Quote (Some t), c1, j1)) \<or>
    \<not> mkt \<and> (\<exists>c1 j1 c2 j2. get_quote_through env1 s exch None True True False c = (Quote None, c1, j1) \<and>
      get_quote_through env2 s exch None True False False c1 = (Quote (Some t), c2, j2))"
  using assms
  by (auto simp: do_live_fetch_def split: prod.splits through_result.splits option.splits if_splits)

lemma fetched_tick_ok:
  assumes "\<And>s. svc_reach cb f (ro_ctl r s)" "cfg_ok cb" "fetched_tick r mkt now exch s = Some t"
  shows "tk_symbol t = canonical_symbol s \<and> VStr (tk_source t) \<in> set (stack_sources f mkt)"
proof -
  have reply: "fr_reply (do_live_fetch (ro_live r) (shipped_env (ro_iv r) (ro_feeds r)) (shipped_env (ro_iv r) (ro_later r)) mkt now
      s exch (ro_ctl r s) (ro_engine r s)) = Quote (Some t)"
    using assms(3) by (auto simp: fetched_tick_def split: through_result.splits)
  from fetch_reply[OF this] show ?thesis
  proof (elim disjE exE conjE)
    fix c1 j1
    assume "get_quote_through (shipped_env (ro_iv r) (ro_feeds r)) s exch None True True False (ro_ctl r s) = (Quote (Some t), c1, j1)"
    from stack_tick[OF assms(1,2) this] show ?thesis by (auto simp: stack_sources_def)
  next
    fix c1 j1 c2 j2
    assume "\<not> mkt" and one: "get_quote_through (shipped_env (ro_iv r) (ro_feeds r)) s exch None True True False (ro_ctl r s) = (Quote None, c1, j1)"
      and two: "get_quote_through (shipped_env (ro_iv r) (ro_later r)) s exch None True False False c1 = (Quote (Some t), c2, j2)"
    have "svc_reach cb f c1"
      using svc_reach.quoted[OF assms(1)[of s], of "shipped_env (ro_iv r) (ro_feeds r)" s exch None True True False] one by simp
    from stack_tick[OF this assms(2) two] \<open>\<not> mkt\<close> show ?thesis by (auto simp: stack_sources_def)
  qed
qed

lemma served_as:
  assumes "served cb f v" "cfg_ok cb" shows "feeds_as (stack_law f (se_market v)) v"
  using assms(1)
proof (rule servedE)
  fix r r2 rv batch syms tt exch base
  assume v: "v = stack_env r r2 (fst (fetch_quotes rv batch syms tt)) exch base" and c: "\<And>s. svc_reach cb f (ro_ctl r s)"
  have "se_live v s = Some t \<Longrightarrow> tk_symbol t = canonical_symbol s \<and> VStr (tk_source t) \<in> set (stack_sources f (se_market v))" for s t
    using fetched_tick_ok[OF c assms(2)] by (simp add: v stack_env_def)
  moreover have "dget (sb_quote_from_tt mc mkt now s row) ''source'' = VStr ''tickertape_realtime_nse''" for mc mkt now s row
    by (simp add: sb_quote_from_tt_def Let_def)
  ultimately show ?thesis
    by (simp add: feeds_as_def stack_law_def own_symbol_def sb_quote_symbol sb_quote_source tt_symbol) (simp add: stack_sources_def)
qed

lemma stack_reach_warm: "stack_reach cb f cfg st \<Longrightarrow> cfg_ok cb \<Longrightarrow> warm_reach (stack_law f True) cfg st"
proof (induction rule: stack_reach.induct)
  case (turn st v watchlist t0 ok)
  have "feeds_as (stack_law f True) v" if "se_market v"
    using served_as[OF turn.hyps(2) turn.prems] that by simp
  with turn show ?case by (blast intro: warm_reach.turn)
qed (auto intro: warm_reach.intros)

lemma warm_reach_mono: "warm_reach law cfg st \<Longrightarrow> (\<And>s q. law s q \<Longrightarrow> law' s q) \<Longrightarrow> warm_reach law' cfg st"
proof (induction rule: warm_reach.induct)
  case (turn st v watchlist t0 ok)
  then show ?case by (intro warm_reach.turn) (auto simp: feeds_as_def)
qed (auto intro: warm_reach.intros)

lemma count_source_keys: "set (map fst (foldl count_source srcs qs)) = set (map fst srcs) \<union> (\<lambda>q. dget q ''source'') ` set qs"
proof (induction qs arbitrary: srcs)
  case (Cons q qs)
  have "set (map fst (count_source srcs q)) = insert (dget q ''source'') (set (map fst srcs))"
    by (auto simp: count_source_def keys_dput)
  with Cons show ?case by simp
qed simp

lemma reply_sources:
  assumes "fst (sb_quotes cfg v symbols exch enrich rich fast proj st) = Inr a"
  shows "set (map fst (qr_sources a)) \<subseteq>
    {dget q ''source'' |q s. map_of (fst (gather_quotes cfg v (requested_symbols symbols) exch enrich rich fast st)) s = Some q}"
proof -
  define b where "b = fst (gather_quotes cfg v (requested_symbols symbols) exch enrich rich fast st)"
  have "qr_sources a = foldl count_source [] (map (\<lambda>s. the (map_of b s)) (filter (\<lambda>s. map_of b s \<noteq> None) (requested_symbols symbols)))"
    using assms by (auto simp: sb_quotes_def Let_def split_beta b_def split: if_splits)
  then have "set (map fst (qr_sources a)) \<subseteq> {dget q ''source'' |q s. map_of b s = Some q}"
    by (auto simp only: count_source_keys) auto
  then show ?thesis by (simp only: b_def)
qed

text \<open>C14: The bulk endpoint on the shipped stack, from the sites' replies to the reply: the quotes returned carry exactly the requested
  symbols that are not reported as failed, each at its place, quotes and failures together are as many as the symbols asked
  for (at most 200), the counts per source add up to the number of quotes, every source is the Tickertape batch or a
  registered provider, and in an open market it is never the delayed one; only a request that names no symbol is rejected.\<close>

theorem stack_quotes_account:
  assumes "cfg_ok cb" "stack_reach cb f cfg st" "served cb f v" "fst (sb_quotes cfg v symbols exch enrich rich fast proj st) = r"
  shows "(r = Inl 400 \<longleftrightarrow> requested_symbols symbols = []) \<and>
    (\<forall>a. r = Inr a \<longrightarrow>
      map (\<lambda>q. dget q ''symbol'') (qr_quotes a) = map VStr (filter (\<lambda>s. s \<notin> set (qr_failed a)) (requested_symbols symbols)) \<and>
      qr_count a = length (qr_quotes a) \<and>
      qr_count a + length (qr_failed a) = length (requested_symbols symbols) \<and>
      length (requested_symbols symbols) \<le> 200 \<and>
      sum_list (map snd (qr_sources a)) = qr_count a \<and>
      set (map fst (qr_sources a)) \<subseteq> set (stack_sources f (se_market v)))"
proof -
  note warm = stack_reach_warm[OF assms(2,1)] and feeds = served_as[OF assms(3,1)]
  have own: "warm_reach own_symbol cfg st" "feeds_as own_symbol v"
    using warm_reach_mono[OF warm, of own_symbol] feeds by (auto simp: stack_law_def feeds_as_def)
  have "warm_as (stack_law f (se_market v)) st"
    using stack.warm_reach_as[OF warm] stack_law_open by (auto simp: warm_as_def)
  from stack.filed_gather[OF feeds this]
  have "set (map fst (qr_sources a)) \<subseteq> set (stack_sources f (se_market v))" if "r = Inr a" for a
    using reply_sources[of cfg v symbols exch enrich rich fast proj st a] assms(4) that
    by (fastforce dest: filed_as_get simp: stack_law_def)
  with sb_quotes_account[OF own assms(4)] show ?thesis by blast
qed

definition demo_round :: fetch_round where
  "demo_round = \<lparr>ro_iv = 90, ro_live = default_live_cfg, ro_feeds = demo_feeds, ro_later = demo_feeds, ro_ctl = (\<lambda>_. nse_service),
     ro_engine = (\<lambda>_. new_engine)\<rparr>"

definition demo_stack_env :: sb_env where
  "demo_stack_env = stack_env demo_round demo_round (fst (fetch_quotes demo_resolve demo_batch [] new_tickertape)) ''NSE'' demo_sb_env"

theorem stack_quotes_account_witness:
  "\<exists>a. fst (sb_quotes demo_warm_cfg demo_stack_env ''tcs,INFY'' ''NSE'' False False True [] demo_sb_state) = Inr a \<and>
     qr_count a + length (qr_failed a) = 2 \<and> VStr ''yahoo_finance'' \<notin> set (map fst (qr_sources a))"
proof -
  have st: "stack_reach default_cb_settings nse_only demo_warm_cfg demo_sb_state" by (rule stack_reach.boot) (simp add: demo_sb_state_def)
  have v: "served default_cb_settings nse_only demo_stack_env"
    unfolding demo_stack_env_def by (rule served.served) (simp_all add: demo_round_def nse_service_reach)
  have syms: "requested_symbols ''tcs,INFY'' = [''TCS'', ''INFY'']" by code_simp
  then obtain a where a: "fst (sb_quotes demo_warm_cfg demo_stack_env ''tcs,INFY'' ''NSE'' False False True [] demo_sb_state) = Inr a"
    by (simp add: sb_quotes_def Let_def split_beta)
  have "VStr ''yahoo_finance'' \<notin> set (stack_sources nse_only m)" for m
    by (simp add: stack_sources_def service_providers_def nse_only_def provider_metas new_provider_def)
  with stack_quotes_account[OF default_cfg_ok st v refl, of "''tcs,INFY''" "''NSE''" False False True "[]"] a show ?thesis
    by (auto simp: syms)
qed

definition yahoo_service :: controller where
  "yahoo_service = build_controller default_cb_settings \<lparr>sf_nse = False, sf_bse = False, sf_yahoo = True, sf_proxies = False\<rparr> (\<lambda>_. None)"

lemma yahoo_service_eq:
  "providers yahoo_service = [yahoo_meta\<lparr>p_connected := True\<rparr>]"
  "breakers yahoo_service ''yahoo_finance'' = Some (new_breaker default_cb_settings ''yahoo_finance'' None None None)"
  "enabled yahoo_service ''yahoo_finance'' = Some True"
  by (simp_all add: yahoo_service_def build_controller_def service_providers_def connect_all_def
      register_provider_def new_controller_def provider_metas new_provider_def provider_key_def provider_rank_def
      less_list_code less_eq_list_code)

text \<open>With the market shut the second read admits the delayed feed, although \<^verbatim>\<open>_batch_quotes\<close> says that it is never used.\<close>

lemma shut_market_reads_delayed:
  "fr_reply (do_live_fetch lc (\<lambda>_ _. demo_attempt True (Returned t)) (\<lambda>_ _. demo_attempt True (Returned t)) mkt now ''TCS'' ''NSE''
      yahoo_service e) = Quote (if mkt then None else Some t)"
  by (simp add: do_live_fetch_def get_quote_through_def fetch_quote_def yahoo_service_eq demo_fetch_simps provider_metas new_provider_def)

end
