(* ===== verification/TTLCache.thy ===== *)
theory TTLCache
  imports PyDict
begin

text \<open>
  The intraday history cache of \<^verbatim>\<open>src/api/endpoints/superbrain.py\<close>: \<^verbatim>\<open>_TTLCache\<close> with its byte budget
  (\<open>cache_get\<close>, \<open>cache_put\<close>, \<open>evict_key\<close>, \<open>shrink\<close> for the eviction loop, \<open>cache_stats\<close>, \<open>cache_clear\<close>)
  and the read-through of \<^verbatim>\<open>_cached_history\<close> and \<^verbatim>\<open>_cached_today_bars\<close> (\<open>cached_read\<close>). The store is
  the insertion-ordered dictionary of the code, from a key to its time stamp, its value and its
  size. \<^verbatim>\<open>time.time()\<close> is an argument.

  Proved: the byte counter is exact and the budget holds after every operation (unless one entry
  alone exceeds it), eviction drops the oldest prefix, and a value just stored is served for the
  whole of its life time.
\<close>

datatype 'c cached_val = Rows "'c list" | Other string

record ('k, 'c) ttl_cache =
  ttl_life :: secs
  ttl_budget :: int
  ttl_store :: "('k \<times> secs \<times> 'c cached_val \<times> int) list"
  ttl_bytes :: int

definition new_ttl_cache :: "secs \<Rightarrow> rat \<Rightarrow> ('k, 'c) ttl_cache" where
  "new_ttl_cache life max_mb =
     \<lparr>ttl_life = life, ttl_budget = py_trunc (max_mb * 1024 * 1024), ttl_store = [], ttl_bytes = 0\<rparr>"

fun size_of_val :: "'c cached_val \<Rightarrow> int" where
  "size_of_val (Rows xs) = int (length xs) * 450 + 64"
| "size_of_val (Other s) = 512"

definition evict_key :: "'k \<Rightarrow> ('k, 'c) ttl_cache \<Rightarrow> ('k, 'c) ttl_cache" where
  "evict_key k c =
     (case map_of (ttl_store c) k of
        None \<Rightarrow> c
      | Some (t, v, b) \<Rightarrow> c\<lparr>ttl_store := ddel k (ttl_store c), ttl_bytes := ttl_bytes c - b\<rparr>)"

definition cache_get :: "'k \<Rightarrow> secs \<Rightarrow> ('k, 'c) ttl_cache \<Rightarrow> 'c cached_val option \<times> ('k, 'c) ttl_cache" where
  "cache_get k now c =
     (case map_of (ttl_store c) k of
        None \<Rightarrow> (None, c)
      | Some (t, v, b) \<Rightarrow> if now - t < ttl_life c then (Some v, c) else (None, evict_key k c))"

text \<open>\<^verbatim>\<open>min(self._store, key=lambda k: self._store[k][0])\<close>; the store is not empty there.\<close>

definition oldest_key :: "('k, 'c) ttl_cache \<Rightarrow> 'k" where
  "oldest_key c = fst (min_key (\<lambda>e. fst (snd e)) (hd (ttl_store c)) (tl (ttl_store c)))"

lemma oldest_key_in: "ttl_store c \<noteq> [] \<Longrightarrow> oldest_key c \<in> fst ` set (ttl_store c)"
  using min_key_in[of "\<lambda>e. fst (snd e)" "hd (ttl_store c)" "tl (ttl_store c)"]
  by (cases "ttl_store c") (auto simp: oldest_key_def)

lemma length_ddel_less: "k \<in> fst ` set d \<Longrightarrow> length (ddel k d) < length d"
  unfolding ddel_def by (auto intro: length_filter_less)

lemma ddel_keys: "k \<notin> fst ` set (ddel k d)"
  by (auto simp: ddel_def)

lemma evict_key_shrinks:
  "k \<in> fst ` set (ttl_store c) \<Longrightarrow> length (ttl_store (evict_key k c)) < length (ttl_store c)"
proof -
  assume k: "k \<in> fst ` set (ttl_store c)"
  then have "map_of (ttl_store c) k \<noteq> None" by (simp add: map_of_eq_None_iff)
  then show ?thesis using length_ddel_less[OF k] by (auto simp: evict_key_def)
qed

function shrink :: "('k, 'c) ttl_cache \<Rightarrow> ('k, 'c) ttl_cache" where
  "shrink c = (if ttl_budget c < ttl_bytes c \<and> 1 < length (ttl_store c)
     then shrink (evict_key (oldest_key c) c) else c)"
  by pat_completeness auto
termination
  by (relation "measure (\<lambda>c. length (ttl_store c))") (auto intro!: evict_key_shrinks oldest_key_in)

declare shrink.simps [simp del]

definition cache_put :: "'k \<Rightarrow> 'c cached_val \<Rightarrow> secs \<Rightarrow> ('k, 'c) ttl_cache \<Rightarrow> ('k, 'c) ttl_cache" where
  "cache_put k v now c =
     (let c1 = (if k \<in> fst ` set (ttl_store c) then evict_key k c else c);
          b = size_of_val v
      in shrink (c1\<lparr>ttl_store := dput k (now, v, b) (ttl_store c1), ttl_bytes := ttl_bytes c1 + b\<rparr>))"

record ttl_stats =
  ts_entries :: nat
  ts_approx_mb :: rat
  ts_budget_mb :: rat
  ts_ttl :: secs

definition cache_stats :: "('k, 'c) ttl_cache \<Rightarrow> ttl_stats" where
  "cache_stats c = \<lparr>ts_entries = length (ttl_store c), ts_approx_mb = py_round 1 (of_int (ttl_bytes c) / 1024 / 1024),
     ts_budget_mb = py_round 1 (of_int (ttl_budget c) / 1024 / 1024), ts_ttl = ttl_life c\<rparr>"

definition cache_clear :: "('k, 'c) ttl_cache \<Rightarrow> nat \<times> ('k, 'c) ttl_cache" where
  "cache_clear c = (length (ttl_store c), c\<lparr>ttl_store := [], ttl_bytes := 0\<rparr>)"

text \<open>
  \<^verbatim>\<open>_cached_history\<close> and \<^verbatim>\<open>_cached_today_bars\<close>: \<open>fetched\<close> is what the upstream call would give; the first
  component says whether it was made. \<open>t0\<close> and \<open>t1\<close> are the clock at the lookup and at the store.
\<close>

definition cached_read :: "'k \<Rightarrow> 'c list \<Rightarrow> secs \<Rightarrow> secs \<Rightarrow> ('k, 'c) ttl_cache \<Rightarrow>
    bool \<times> 'c cached_val \<times> ('k, 'c) ttl_cache" where
  "cached_read k fetched t0 t1 c =
     (case cache_get k t0 c of
        (Some v, c1) \<Rightarrow> (False, v, c1)
      | (None, c1) \<Rightarrow> (True, Rows fetched, cache_put k (Rows fetched) t1 c1))"

type_synonym hist_key = "string \<times> string \<times> string \<times> string \<times> string"

definition cached_history :: "string \<Rightarrow> string \<Rightarrow> string \<Rightarrow> string \<Rightarrow> string \<Rightarrow> 'c list \<Rightarrow> secs \<Rightarrow> secs \<Rightarrow>
    (hist_key, 'c) ttl_cache \<Rightarrow> bool \<times> 'c cached_val \<times> (hist_key, 'c) ttl_cache" where
  "cached_history sm exch code from to fetched t0 t1 c = cached_read (sm, exch, code, from, to) fetched t0 t1 c"

definition cached_today_bars :: "string \<Rightarrow> string \<Rightarrow> int \<Rightarrow> 'c list \<Rightarrow> secs \<Rightarrow> secs \<Rightarrow>
    (string \<times> string \<times> int, 'c) ttl_cache \<Rightarrow> bool \<times> 'c cached_val \<times> (string \<times> string \<times> int, 'c) ttl_cache" where
  "cached_today_bars sm exch bs fetched t0 t1 c = cached_read (sm, exch, bs) fetched t0 t1 c"

definition sb_cache_clear :: "('k, 'c) ttl_cache \<Rightarrow> ('l, 'd) ttl_cache \<Rightarrow> nat \<times> ('k, 'c) ttl_cache \<times> ('l, 'd) ttl_cache" where
  "sb_cache_clear h t = (case (cache_clear h, cache_clear t) of ((n, h'), (m, t')) \<Rightarrow> (n + m, h', t'))"

section \<open>The byte counter\<close>

definition entry_size :: "'k \<times> secs \<times> 'c cached_val \<times> int \<Rightarrow> int" where
  "entry_size e = snd (snd (snd e))"

definition stored_bytes :: "('k \<times> secs \<times> 'c cached_val \<times> int) list \<Rightarrow> int" where
  "stored_bytes d = sum_list (map entry_size d)"

text \<open>The counter is the sum of the sizes kept, each the size of its value, and keys are distinct.\<close>

definition ttl_inv :: "('k, 'c) ttl_cache \<Rightarrow> bool" where
  "ttl_inv c \<longleftrightarrow> distinct (map fst (ttl_store c)) \<and> ttl_bytes c = stored_bytes (ttl_store c) \<and>
     (\<forall>e\<in>set (ttl_store c). entry_size e = size_of_val (fst (snd (snd e))))"

definition within_budget :: "('k, 'c) ttl_cache \<Rightarrow> bool" where
  "within_budget c \<longleftrightarrow> ttl_bytes c \<le> ttl_budget c \<or> length (ttl_store c) \<le> 1"

lemma size_of_val_pos: "0 < size_of_val v"
  by (cases v) simp_all

lemma evict_inv: assumes "ttl_inv c" shows "ttl_inv (evict_key k c)"
proof (cases "map_of (ttl_store c) k")
  case None
  with assms show ?thesis by (simp add: evict_key_def)
next
  case (Some e)
  obtain t v b where e: "e = (t, v, b)" by (cases e) auto
  have "stored_bytes (ddel k (ttl_store c)) = stored_bytes (ttl_store c) - b"
    using sum_list_ddel[of "ttl_store c" k e entry_size] assms Some e
    by (simp add: stored_bytes_def ttl_inv_def entry_size_def)
  with assms Some e show ?thesis
    by (auto simp: ttl_inv_def evict_key_def distinct_ddel) (auto simp: ddel_def)
qed

lemma evict_fields [simp]:
  "ttl_budget (evict_key k c) = ttl_budget c" "ttl_life (evict_key k c) = ttl_life c"
  by (simp_all add: evict_key_def split: option.split prod.split)

lemma evict_store: "ttl_store (evict_key k c) = ddel k (ttl_store c)"
  using ddel_id[of k "ttl_store c"]
  by (auto simp: evict_key_def map_of_eq_None_iff split: option.split prod.split)

lemma shrink_inv: "ttl_inv c \<Longrightarrow> ttl_inv (shrink c)"
  by (induction c rule: shrink.induct) (subst shrink.simps, simp add: evict_inv)

lemma shrink_budget: "within_budget (shrink c)"
  by (induction c rule: shrink.induct) (subst shrink.simps, auto simp: within_budget_def)

lemma shrink_fields [simp]: "ttl_life (shrink c) = ttl_life c" "ttl_budget (shrink c) = ttl_budget c"
  by (induction c rule: shrink.induct; subst shrink.simps; simp)+

lemma store_entry_inv:
  assumes "ttl_inv c" "k \<notin> fst ` set (ttl_store c)"
  shows "ttl_inv (c\<lparr>ttl_store := dput k (now, v, size_of_val v) (ttl_store c), ttl_bytes := ttl_bytes c + size_of_val v\<rparr>)"
  using assms by (auto simp: ttl_inv_def dput_fresh stored_bytes_def entry_size_def)

lemma put_inv: "ttl_inv c \<Longrightarrow> ttl_inv (cache_put k v now c)"
  unfolding cache_put_def Let_def
  by (intro shrink_inv store_entry_inv) (auto simp: evict_inv evict_store ddel_def)

lemma put_budget: "within_budget (cache_put k v now c)"
  by (simp add: cache_put_def Let_def shrink_budget)

lemma evict_bytes_le: assumes "ttl_inv c" shows "ttl_bytes (evict_key k c) \<le> ttl_bytes c"
proof (cases "map_of (ttl_store c) k")
  case (Some e)
  then have "(k, e) \<in> set (ttl_store c)" by (rule map_of_SomeD)
  with assms have "entry_size (k, e) = size_of_val (fst (snd e))" by (auto simp: ttl_inv_def)
  then show ?thesis using Some size_of_val_pos[of "fst (snd e)"]
    by (auto simp: evict_key_def entry_size_def split: prod.split)
qed (simp add: evict_key_def)

lemma evict_budget: assumes "ttl_inv c" "within_budget c" shows "within_budget (evict_key k c)"
proof -
  have "length (ttl_store (evict_key k c)) \<le> length (ttl_store c)" by (simp add: evict_store ddel_def)
  with assms evict_bytes_le[OF assms(1), of k] show ?thesis by (auto simp: within_budget_def)
qed

lemma get_cache: "snd (cache_get k now c) = c \<or> snd (cache_get k now c) = evict_key k c"
  by (simp add: cache_get_def split: option.split prod.split)

inductive ttl_reach :: "('k, 'c) ttl_cache \<Rightarrow> bool" where
  fresh: "ttl_reach (new_ttl_cache life mb)"
| got: "ttl_reach c \<Longrightarrow> ttl_reach (snd (cache_get k now c))"
| stored: "ttl_reach c \<Longrightarrow> ttl_reach (cache_put k v now c)"
| cleared: "ttl_reach c \<Longrightarrow> ttl_reach (snd (cache_clear c))"

lemma ttl_reach_inv: "ttl_reach c \<Longrightarrow> ttl_inv c \<and> within_budget c"
proof (induction rule: ttl_reach.induct)
  case (fresh life mb)
  show ?case by (simp add: new_ttl_cache_def ttl_inv_def within_budget_def stored_bytes_def)
next
  case (got c k now)
  then show ?case using get_cache[of k now c] evict_inv evict_budget by metis
next
  case (stored c k v now)
  then show ?case by (simp add: put_inv put_budget)
next
  case (cleared c)
  then show ?case by (simp add: cache_clear_def ttl_inv_def within_budget_def stored_bytes_def)
qed

text \<open>C12: The history cache is bounded by its byte budget: after any sequence of lookups, stores and clears,
  the byte counter equals the sum of the sizes of the entries held, and it is within the budget
  unless a single entry is left.\<close>
theorem cache_memory_bounded:
  assumes "ttl_reach c"
  shows "ttl_bytes c = sum_list (map (\<lambda>e. size_of_val (fst (snd (snd e)))) (ttl_store c)) \<and>
    distinct (map fst (ttl_store c)) \<and>
    (ttl_bytes c \<le> ttl_budget c \<or> length (ttl_store c) \<le> 1)"
proof -
  from ttl_reach_inv[OF assms] have inv: "ttl_inv c" and b: "within_budget c" by auto
  from inv have "map entry_size (ttl_store c) = map (\<lambda>e. size_of_val (fst (snd (snd e)))) (ttl_store c)"
    by (auto simp: ttl_inv_def)
  with inv b show ?thesis by (simp add: ttl_inv_def within_budget_def stored_bytes_def)
qed

definition demo_cache :: "(string, nat) ttl_cache" where
  "demo_cache = cache_put ''b'' (Rows [1, 2]) 5 (cache_put ''a'' (Rows [1]) 1 (new_ttl_cache 60 (1 / 1024)))"

theorem cache_memory_bounded_witness:
  "ttl_bytes demo_cache \<le> ttl_budget demo_cache \<or> length (ttl_store demo_cache) \<le> 1"
proof -
  have "ttl_reach demo_cache" unfolding demo_cache_def by (intro ttl_reach.intros)
  then show ?thesis using cache_memory_bounded by blast
qed

section \<open>Eviction drops the oldest prefix\<close>

definition stamps :: "('k, 'c) ttl_cache \<Rightarrow> secs list" where
  "stamps c = map (\<lambda>e. fst (snd e)) (ttl_store c)"

lemma min_key_sorted: "(\<And>y. y \<in> set ys \<Longrightarrow> f x \<le> f y) \<Longrightarrow> min_key f x ys = x"
  by (induction ys) force+

lemma oldest_first: "sorted (stamps c) \<Longrightarrow> ttl_store c = e # es \<Longrightarrow> oldest_key c = fst e"
  unfolding oldest_key_def by (simp add: stamps_def min_key_sorted)

lemma evict_oldest_first:
  assumes "distinct (map fst (ttl_store c))" "sorted (stamps c)" "ttl_store c \<noteq> []"
  shows "ttl_store (evict_key (oldest_key c) c) = tl (ttl_store c)"
proof -
  obtain e es where c: "ttl_store c = e # es" using assms(3) by (cases "ttl_store c") auto
  have "fst e \<notin> fst ` set es" using assms(1) c by simp
  then show ?thesis using oldest_first[OF assms(2) c] c ddel_id[of "fst e" es] by (simp add: evict_store ddel_def)
qed

lemma shrink_drops_prefix:
  "distinct (map fst (ttl_store c)) \<Longrightarrow> sorted (stamps c) \<Longrightarrow> ttl_store c \<noteq> [] \<Longrightarrow>
     \<exists>n < length (ttl_store c). ttl_store (shrink c) = drop n (ttl_store c)"
proof (induction c rule: shrink.induct)
  case (1 c)
  show ?case
  proof (cases "ttl_budget c < ttl_bytes c \<and> 1 < length (ttl_store c)")
    case False
    then have "shrink c = c" by (subst shrink.simps) (rule if_not_P)
    with 1(4) show ?thesis by (intro exI[of _ 0]) simp
  next
    case True
    let ?c = "evict_key (oldest_key c) c"
    have st: "ttl_store ?c = tl (ttl_store c)" using 1 by (intro evict_oldest_first) auto
    have "\<exists>n < length (ttl_store ?c). ttl_store (shrink ?c) = drop n (ttl_store ?c)"
      using 1(2-4) True by (intro 1(1)[OF True]) (auto simp: st stamps_def map_tl distinct_tl intro: sorted_tl, cases "ttl_store c", auto)
    then obtain n where "n < length (tl (ttl_store c))" "ttl_store (shrink ?c) = drop (Suc n) (ttl_store c)"
      by (auto simp: st drop_Suc)
    moreover have "shrink c = shrink ?c" using True by (subst shrink.simps) simp
    ultimately show ?thesis by (intro exI[of _ "Suc n"]) auto
  qed
qed

text \<open>A stored value is served for its whole life: when the clock has not run backwards, a lookup
  less than the life time after the store answers the value stored, whatever eviction the store
  caused, and the read-through does not fetch.\<close>
theorem cache_serves_stored:
  assumes "ttl_reach c" "sorted (stamps c)" "\<forall>t\<in>set (stamps c). t \<le> now" "later - now < ttl_life c"
  shows "fst (cache_get k later (cache_put k v now c)) = Some v \<and>
    cached_read k fetched later t1 (cache_put k v now c) = (False, v, cache_put k v now c)"
proof -
  define c1 where "c1 = (if k \<in> fst ` set (ttl_store c) then evict_key k c else c)"
  define c2 where "c2 = c1\<lparr>ttl_store := dput k (now, v, size_of_val v) (ttl_store c1), ttl_bytes := ttl_bytes c1 + size_of_val v\<rparr>"
  have st1: "ttl_store c1 = ddel k (ttl_store c)"
    by (simp add: c1_def evict_store ddel_id)
  have st2: "ttl_store c2 = ddel k (ttl_store c) @ [(k, now, v, size_of_val v)]"
    by (simp add: c2_def st1 dput_fresh ddel_keys)
  have d: "distinct (map fst (ttl_store c2))"
    using ttl_reach_inv[OF assms(1)] by (auto simp: st2 ttl_inv_def distinct_ddel) (auto simp: ddel_def)
  have "sorted (map (\<lambda>e. fst (snd e)) (ddel k (ttl_store c)))"
    using assms(2) unfolding stamps_def ddel_def by (rule sorted_filter)
  then have s: "sorted (stamps c2)"
    using assms(3) by (auto simp: stamps_def st2 sorted_append ddel_def)
  obtain n where n: "n < length (ttl_store c2)" "ttl_store (shrink c2) = drop n (ttl_store c2)"
    using shrink_drops_prefix[OF d s] st2 by auto
  have put: "cache_put k v now c = shrink c2"
    by (simp add: cache_put_def Let_def c2_def c1_def)
  have "(k, now, v, size_of_val v) \<in> set (ttl_store (shrink c2))"
    using n by (simp add: st2)
  moreover have "distinct (map fst (ttl_store (shrink c2)))"
    using d n by (simp flip: drop_map)
  ultimately have "map_of (ttl_store (shrink c2)) k = Some (now, v, size_of_val v)"
    by (simp add: map_of_is_SomeI)
  moreover have "ttl_life (shrink c2) = ttl_life c"
    by (simp add: c2_def c1_def)
  ultimately have "cache_get k later (shrink c2) = (Some v, shrink c2)"
    using assms(4) by (simp add: cache_get_def)
  then show ?thesis by (simp add: put cached_read_def)
qed

theorem cache_serves_stored_witness:
  "fst (cache_get ''x'' 30 (cache_put ''x'' (Rows [7::nat]) 2 (new_ttl_cache 60 1))) = Some (Rows [7])"
  using cache_serves_stored[of "new_ttl_cache 60 1 :: (string, nat) ttl_cache" 2 30 "''x''" "Rows [7]" "[]" 30]
  by (simp add: ttl_reach.fresh) (simp add: new_ttl_cache_def stamps_def)

end
