(* ===== verification/IntradayStore.thy ===== *)
theory IntradayStore
  imports LiveCandles
begin

text \<open>
  \<^verbatim>\<open>src/engine/intraday_builder.py\<close>, the intraday queries of \<^verbatim>\<open>src/db/queries.py\<close>, and
  \<^verbatim>\<open>src/engine/intraday_store.py\<close> with the recorder loop of \<^verbatim>\<open>src/engine/live_candles.py\<close>. The
  table \<^verbatim>\<open>intraday_candles\<close> is a list of rows; the statements are functions on it with the
  meaning their SQL has. Whether a statement succeeds is an argument. Instants are epoch seconds,
  so the comparison of the ISO texts of one offset is the comparison of numbers.
\<close>

section \<open>Points to candles\<close>

record graph_point =
  gp_epoch :: "secs option"
  gp_price :: "price option"
  gp_volume :: "rat option"

definition interval_seconds :: "(string \<times> int) list" where
  "interval_seconds = [(''1minute'', 60), (''1m'', 60), (''2minute'', 120), (''2m'', 120), (''3minute'', 180),
     (''3m'', 180), (''5minute'', 300), (''5m'', 300), (''10minute'', 600), (''10m'', 600), (''15minute'', 900),
     (''15m'', 900), (''30minute'', 1800), (''30m'', 1800), (''60minute'', 3600), (''60m'', 3600), (''1h'', 3600)]"

definition graph_point_of :: "int \<Rightarrow> graph_point \<Rightarrow> point option" where
  "graph_point_of bs p =
     (case (gp_epoch p, gp_price p) of
        (Some e, Some x) \<Rightarrow> if x \<le> 0 then None
          else Some (\<lfloor>e / of_int bs\<rfloor> * bs, x, case gp_volume p of None \<Rightarrow> 0 | Some v \<Rightarrow> v)
      | _ \<Rightarrow> None)"

definition points_to_ohlc :: "graph_point list \<Rightarrow> int \<Rightarrow> nat \<Rightarrow> bar list" where
  "points_to_ohlc points bs limit =
     (if points = [] \<or> bs \<le> 0 then []
      else map (cell_bar 1) (last_n limit (bucket_points (List.map_filter (graph_point_of bs) points))))"

section \<open>The candle table\<close>

record irow =
  ir_time :: secs
  ir_symbol :: string
  ir_exchange :: string
  ir_open :: price
  ir_high :: price
  ir_low :: price
  ir_close :: price
  ir_volume :: int

definition row_key :: "irow \<Rightarrow> string \<times> string \<times> secs" where
  "row_key r = (ir_symbol r, ir_exchange r, ir_time r)"

text \<open>\<^verbatim>\<open>INSERT ... ON CONFLICT (key) DO UPDATE\<close>, and for this table the key is
  \<^verbatim>\<open>(symbol, exchange, time)\<close>.\<close>

definition upsert_by :: "('r \<Rightarrow> 'k) \<Rightarrow> 'r list \<Rightarrow> 'r \<Rightarrow> 'r list" where
  "upsert_by key tbl r =
     (if key r \<in> set (map key tbl) then map (\<lambda>q. if key q = key r then r else q) tbl else tbl @ [r])"

definition upsert_row :: "irow list \<Rightarrow> irow \<Rightarrow> irow list" where
  "upsert_row tbl r = upsert_by row_key tbl r"

definition upsert_intraday_candles :: "irow list \<Rightarrow> irow list \<Rightarrow> irow list" where
  "upsert_intraday_candles rows tbl = (if rows = [] then tbl else foldl upsert_row tbl rows)"

definition in_window :: "string \<Rightarrow> string \<Rightarrow> secs \<Rightarrow> secs \<Rightarrow> irow \<Rightarrow> bool" where
  "in_window sm exch t0 t1 r \<longleftrightarrow> ir_symbol r = sm \<and> ir_exchange r = exch \<and> t0 \<le> ir_time r \<and> ir_time r < t1"

definition count_intraday :: "string \<Rightarrow> string \<Rightarrow> secs \<Rightarrow> secs \<Rightarrow> irow list \<Rightarrow> nat" where
  "count_intraday sm exch t0 t1 tbl = length (filter (in_window sm exch t0 t1) tbl)"

definition rollup_group :: "secs \<Rightarrow> irow list \<Rightarrow> bar" where
  "rollup_group t g =
     \<lparr>b_time = t, b_open = ir_open (hd g), b_high = foldl max (ir_high (hd g)) (map ir_high (tl g)),
      b_low = foldl min (ir_low (hd g)) (map ir_low (tl g)), b_close = ir_close (last g),
      b_volume = sum_list (map ir_volume g)\<rparr>"

definition get_intraday_candles :: "string \<Rightarrow> string \<Rightarrow> rat \<Rightarrow> secs \<Rightarrow> secs \<Rightarrow> irow list \<Rightarrow> bar list" where
  "get_intraday_candles sm exch bs t0 t1 tbl =
     (let rows = sort_key ir_time (filter (in_window sm exch t0 t1) tbl);
          bucket = (\<lambda>r. \<lfloor>ir_time r / bs\<rfloor>)
      in map (\<lambda>j. rollup_group (of_int j * bs) (filter (\<lambda>r. bucket r = j) rows)) (sort (remdups (map bucket rows))))"

section \<open>Flushing and reading back\<close>

record candle_db =
  db_connected :: bool
  db_rows :: "irow list"
  db_last_flush :: "string \<rightharpoonup> secs"

definition bar_row :: "string \<Rightarrow> string \<Rightarrow> bar \<Rightarrow> irow" where
  "bar_row sm exch b = \<lparr>ir_time = b_time b, ir_symbol = upper sm, ir_exchange = upper exch, ir_open = b_open b,
     ir_high = b_high b, ir_low = b_low b, ir_close = b_close b, ir_volume = b_volume b\<rparr>"

definition flush_live_to_store :: "string \<Rightarrow> string \<Rightarrow> secs \<Rightarrow> bool \<Rightarrow> engine \<Rightarrow> candle_db \<Rightarrow> nat \<times> engine \<times> candle_db" where
  "flush_live_to_store sm exch now ok e db =
     (if \<not> db_connected db then (0, e, db)
      else
        (let (bars, e') = build sm exch 1 100000 now e; k = live_key sm exch;
             rows = map (bar_row sm exch)
               (filter (\<lambda>b. case db_last_flush db k of None \<Rightarrow> True | Some since \<Rightarrow> \<not> b_time b < since) bars)
         in if bars = [] \<or> rows = [] then (0, e', db)
            else if ok
            then (length rows, e', db\<lparr>db_rows := upsert_intraday_candles rows (db_rows db),
                                     db_last_flush := (db_last_flush db)(k \<mapsto> b_time (last bars))\<rparr>)
            else (0, e', db)))"

record day_read =
  dr_captured :: bool
  dr_candles :: "bar list"

definition round_bar :: "bar \<Rightarrow> bar" where
  "round_bar b = b\<lparr>b_open := py_round 2 (b_open b), b_high := py_round 2 (b_high b),
     b_low := py_round 2 (b_low b), b_close := py_round 2 (b_close b)\<rparr>"

text \<open>\<open>t0\<close> and \<open>t1\<close> are the instants of \<^verbatim>\<open>_day_window\<close>: midnight of the day and of the next one.\<close>

definition read_past_intraday :: "string \<Rightarrow> string \<Rightarrow> rat \<Rightarrow> secs \<Rightarrow> secs \<Rightarrow> bool \<Rightarrow> candle_db \<Rightarrow> day_read option" where
  "read_past_intraday sm exch bucket t0 t1 ok db =
     (if \<not> db_connected db then None
      else if \<not> ok then None
      else
        (let bs = max 1 (of_int (round_half_even bucket))
         in if count_intraday (upper sm) (upper exch) t0 t1 (db_rows db) = 0
            then Some \<lparr>dr_captured = False, dr_candles = []\<rparr>
            else Some \<lparr>dr_captured = True,
              dr_candles = map round_bar (get_intraday_candles (upper sm) (upper exch) bs t0 t1 (db_rows db))\<rparr>))"

text \<open>Retention; the day counts fall back to the settings when missing or zero.\<close>

datatype prune_result = PruneNoDb | PruneFailed | Pruned int int

definition prune_old :: "int \<Rightarrow> int \<Rightarrow> int option \<Rightarrow> int option \<Rightarrow> secs \<Rightarrow> bool \<Rightarrow> candle_db \<Rightarrow> prune_result \<times> candle_db" where
  "prune_old cfg_i cfg_t idays tdays now ok db =
     (if \<not> db_connected db then (PruneNoDb, db)
      else
        (let i = or_default idays cfg_i; t = or_default tdays cfg_t
         in if ok then (Pruned i t, db\<lparr>db_rows := filter (\<lambda>r. \<not> ir_time r < now - of_int i * 86400) (db_rows db)\<rparr>)
            else (PruneFailed, db)))"

section \<open>The recorder loop\<close>

record turn =
  tn_check :: secs
  tn_fetched :: "tick option"
  tn_recorded :: secs
  tn_flush_check :: secs
  tn_flush_at :: secs
  tn_build_at :: secs
  tn_store_ok :: bool

type_synonym recorder = "engine \<times> candle_db \<times> secs"

text \<open>One turn of \<^verbatim>\<open>_record_loop\<close>; \<open>None\<close> is the idle stop. The last component is \<^verbatim>\<open>last_flush\<close>.\<close>

definition recorder_turn :: "live_cfg \<Rightarrow> string \<Rightarrow> string \<Rightarrow> turn \<Rightarrow> recorder \<Rightarrow> recorder option" where
  "recorder_turn cfg sm exch n st =
     (case st of (e, db, lf) \<Rightarrow>
        (let k = live_key sm exch
         in if tn_check n - (case le_last_read e k of None \<Rightarrow> 0 | Some t \<Rightarrow> t) > lc_idle_ttl cfg then None
            else
              (let e1 = (case tn_fetched n of None \<Rightarrow> e | Some t \<Rightarrow> record_tick cfg sm exch t (tn_recorded n) e)
               in if tn_flush_check n - lf \<ge> lc_flush_interval cfg
                  then (case flush_live_to_store sm exch (tn_build_at n) (tn_store_ok n) e1 db of
                          (_, e2, db2) \<Rightarrow> Some (e2, db2, tn_flush_at n))
                  else Some (e1, db, lf))))"

text \<open>The \<^verbatim>\<open>finally\<close> block after the stop.\<close>

definition recorder_stop :: "string \<Rightarrow> string \<Rightarrow> secs \<Rightarrow> bool \<Rightarrow> engine \<Rightarrow> candle_db \<Rightarrow> engine \<times> candle_db" where
  "recorder_stop sm exch now ok e db =
     (case flush_live_to_store sm exch now ok e db of
        (_, e', db') \<Rightarrow> (e'\<lparr>le_running := (le_running e')(live_key sm exch := False)\<rparr>, db'))"

fun recorder_run :: "live_cfg \<Rightarrow> string \<Rightarrow> string \<Rightarrow> turn list \<Rightarrow> recorder \<Rightarrow> recorder option" where
  "recorder_run cfg sm exch [] st = Some st"
| "recorder_run cfg sm exch (n # ns) st =
     (case recorder_turn cfg sm exch n st of None \<Rightarrow> None | Some st' \<Rightarrow> recorder_run cfg sm exch ns st')"

section \<open>The contract of a keyed table\<close>

locale keyed_table =
  fixes put :: "'t \<Rightarrow> 'r \<Rightarrow> 't" and get :: "'k \<Rightarrow> 't \<Rightarrow> 'r option" and key :: "'r \<Rightarrow> 'k"
  assumes get_put: "get k (put t r) = (if k = key r then Some r else get k t)"
begin

lemma get_puts:
  "get k (foldl put t rs) = (case find (\<lambda>r. key r = k) (rev rs) of None \<Rightarrow> get k t | Some r \<Rightarrow> Some r)"
  by (induction rs rule: rev_induct) (auto simp: get_put)

lemma puts_idem: "get k (foldl put (foldl put t rs) rs) = get k (foldl put t rs)"
  by (simp add: get_puts split: option.split)

lemma puts_frame: "(\<And>r. r \<in> set rs \<Longrightarrow> key r \<noteq> k) \<Longrightarrow> get k (foldl put t rs) = get k t"
  by (induction rs rule: rev_induct) (auto simp: get_put)

lemma puts_last:
  assumes "distinct (map key rs)" "r \<in> set rs" shows "get (key r) (foldl put t rs) = Some r"
  using assms by (induction rs rule: rev_induct) (auto simp: get_put image_iff)

end

definition row_by :: "('r \<Rightarrow> 'k) \<Rightarrow> 'k \<Rightarrow> 'r list \<Rightarrow> 'r option" where
  "row_by key k tbl = find (\<lambda>r. key r = k) tbl"

lemma find_map_key:
  "find (\<lambda>r. key r = k) (map (\<lambda>q. if key q = key r then r else q) tbl) =
     (if k = key r then (if key r \<in> set (map key tbl) then Some r else None) else find (\<lambda>r. key r = k) tbl)"
  by (induction tbl) auto

lemma find_append: "find P (xs @ ys) = (case find P xs of None \<Rightarrow> find P ys | Some x \<Rightarrow> Some x)"
  by (induction xs) auto

lemma row_by_upsert: "row_by key k (upsert_by key tbl r) = (if k = key r then Some r else row_by key k tbl)"
proof (cases "key r \<in> set (map key tbl)")
  case True
  then show ?thesis by (simp add: row_by_def upsert_by_def find_map_key)
next
  case False
  then have "find (\<lambda>q. key q = key r) tbl = None" by (auto simp: find_None_iff image_iff)
  with False show ?thesis by (auto simp: row_by_def upsert_by_def find_append split: option.split)
qed

interpretation candles: keyed_table upsert_row "row_by row_key" row_key
  by unfold_locales (simp add: upsert_row_def row_by_upsert)

lemma upsert_intraday_get:
  "row_by row_key k (upsert_intraday_candles rows tbl) = row_by row_key k (foldl upsert_row tbl rows)"
  by (simp add: upsert_intraday_candles_def)

lemma upsert_distinct_append:
  assumes "distinct (map row_key rows)" "\<And>r. r \<in> set tbl \<Longrightarrow> row_key r \<notin> set (map row_key rows)"
  shows "foldl upsert_row tbl rows = tbl @ rows"
  using assms
proof (induction rows arbitrary: tbl)
  case (Cons r rows)
  have "row_key r \<notin> set (map row_key tbl)"
  proof
    assume "row_key r \<in> set (map row_key tbl)"
    then obtain q where "q \<in> set tbl" "row_key q = row_key r" by auto
    with Cons.prems(2)[of q] show False by simp
  qed
  then have "upsert_row tbl r = tbl @ [r]" by (simp add: upsert_row_def upsert_by_def)
  moreover have "foldl upsert_row (tbl @ [r]) rows = (tbl @ [r]) @ rows"
    using Cons.prems by (intro Cons.IH) auto
  ultimately show ?case by simp
qed simp

section \<open>Roll-up\<close>

lemma py_round_idem [simp]: "py_round n (py_round n x) = py_round n x"
  by (simp add: py_round_def)

lemma floor_div: assumes "0 < n" shows "\<lfloor>x / of_int n\<rfloor> = \<lfloor>x :: rat\<rfloor> div n"
proof (rule floor_unique)
  let ?q = "\<lfloor>x\<rfloor> div n"
  have n: "(0::rat) < of_int n" using assms by simp
  have "?q * n \<le> \<lfloor>x\<rfloor>" using assms by (simp add: pos_mod_sign minus_mod_eq_div_mult[symmetric])
  then have "(of_int (?q * n) :: rat) \<le> x" by linarith
  with n show "of_int ?q \<le> x / of_int n" by (simp add: pos_le_divide_eq)
  have "\<lfloor>x\<rfloor> < (?q + 1) * n"
  proof -
    have "\<lfloor>x\<rfloor> = ?q * n + \<lfloor>x\<rfloor> mod n" by (simp only: div_mult_mod_eq)
    moreover have "\<lfloor>x\<rfloor> mod n < n" using assms by (rule pos_mod_bound)
    ultimately show ?thesis unfolding distrib_right mult_1 by linarith
  qed
  then have "\<lfloor>x\<rfloor> + 1 \<le> (?q + 1) * n" by linarith
  then have "(of_int (\<lfloor>x\<rfloor> + 1) :: rat) \<le> of_int ((?q + 1) * n)" by (rule of_int_le_iff[THEN iffD2])
  then have "x < of_int ((?q + 1) * n)" by linarith
  with n show "x / of_int n < of_int ?q + 1" by (simp add: pos_divide_less_eq)
qed

lemma live_points_coarse:
  "0 < n \<Longrightarrow> live_points (of_int n) pc ps xs = map (\<lambda>(i, p, v). (i div n, p, v)) (live_points 1 pc ps xs)"
  by (induction xs arbitrary: pc ps) (simp_all add: floor_div)

lemma group_of_coarse:
  assumes "sorted (map fst pts)" "sorted_wrt (<) ks" "fst ` set pts \<subseteq> set ks"
  shows "group_of j (map (\<lambda>(i, p, v). (i div n, p, v)) pts) =
    concat (map (\<lambda>i. group_of i pts) (filter (\<lambda>i. i div n = j) ks))"
proof -
  let ?f = "filter (\<lambda>pt. fst pt div n = j) pts"
  have "group_of j (map (\<lambda>(i, p, v). (i div n, p, v)) pts) = map snd ?f"
    by (induction pts) (auto simp: group_of_def)
  also have "\<dots> = concat (map (\<lambda>i. group_of i ?f) (filter (\<lambda>i. i div n = j) ks))"
  proof (rule sorted_groups[symmetric])
    show "sorted (map fst ?f)" using assms(1) by (rule sorted_filter)
    show "sorted_wrt (<) (filter (\<lambda>i. i div n = j) ks)" using assms(2) by (rule sorted_wrt_filter)
    show "fst ` set ?f \<subseteq> set (filter (\<lambda>i. i div n = j) ks)" using assms(3) by auto
  qed
  also have "map (\<lambda>i. group_of i ?f) (filter (\<lambda>i. i div n = j) ks) =
      map (\<lambda>i. group_of i pts) (filter (\<lambda>i. i div n = j) ks)"
    by (auto simp: group_of_def intro!: arg_cong[where f = "map snd"] filter_cong)
  finally show ?thesis .
qed

text \<open>The fields of merged cells, and of a rolled-up group of their rounded rows.\<close>

lemma foldl_merge_fields:
  "foldl merge_cell c cs = \<lparr>c_open = c_open c, c_high = foldl max (c_high c) (map c_high cs),
     c_low = foldl min (c_low c) (map c_low cs), c_close = c_close (last (c # cs)),
     c_vol = sum_list (map c_vol (c # cs))\<rparr>"
  by (induction cs arbitrary: c) (auto simp: merge_cell_def add.assoc)

lemma py_round_max: "max (py_round n a) (py_round n b) = py_round n (max a b)"
  and py_round_min: "min (py_round n a) (py_round n b) = py_round n (min a b)"
  using py_round_mono[of a b n] py_round_mono[of b a n] by (cases "a \<le> b"; auto simp: max_def min_def)+

lemma foldl_max_round:
  "foldl max (py_round n x) (map (\<lambda>y. py_round n (f y)) ys) = py_round n (foldl max x (map f ys))"
  by (induction ys arbitrary: x) (simp_all add: py_round_max)

lemma foldl_min_round:
  "foldl min (py_round n x) (map (\<lambda>y. py_round n (f y)) ys) = py_round n (foldl min x (map f ys))"
  by (induction ys arbitrary: x) (simp_all add: py_round_min)

definition whole :: "rat \<Rightarrow> bool" where
  "whole x \<longleftrightarrow> (\<exists>k. x = of_int k)"

lemma sum_trunc_whole:
  "(\<And>x. x \<in> set xs \<Longrightarrow> whole x) \<Longrightarrow> sum_list (map py_trunc xs) = py_trunc (sum_list xs) \<and> whole (sum_list xs)"
proof (induction xs)
  case (Cons x xs)
  from Cons.prems[of x] obtain k where k: "x = of_int k" by (auto simp: whole_def)
  from Cons obtain m where m: "sum_list xs = of_int m" by (auto simp: whole_def)
  have "x + sum_list xs = of_int (k + m)" by (simp add: k m)
  then have "py_trunc (x + sum_list xs) = k + m" "whole (x + sum_list xs)"
    by (simp_all only: py_trunc_int whole_def) blast
  moreover have "sum_list (map py_trunc xs) = m" using Cons m by simp
  ultimately show ?case by (simp add: k)
qed (auto simp: whole_def py_trunc_def intro: exI[of _ 0])

lemma cell_bar_sel [simp]:
  "b_time (cell_bar s e) = of_int (fst e) * s" "b_open (cell_bar s e) = py_round 2 (c_open (snd e))"
  "b_high (cell_bar s e) = py_round 2 (c_high (snd e))" "b_low (cell_bar s e) = py_round 2 (c_low (snd e))"
  "b_close (cell_bar s e) = py_round 2 (c_close (snd e))" "b_volume (cell_bar s e) = py_trunc (c_vol (snd e))"
  by (simp_all add: cell_bar_def split: prod.split)

lemma rollup_group_cells:
  assumes "cs \<noteq> []" "\<And>e. e \<in> set cs \<Longrightarrow> whole (c_vol (snd e))"
  shows "round_bar (rollup_group t (map (\<lambda>e. bar_row sm exch (cell_bar 1 e)) cs)) =
    (cell_bar 1 (0, the (merge_cells (map snd cs))))\<lparr>b_time := t\<rparr>"
proof -
  obtain e es where cs: "cs = e # es" using assms(1) by (cases cs) auto
  have fields: "ir_open (bar_row sm exch (cell_bar 1 e)) = py_round 2 (c_open (snd e))"
    "ir_high (bar_row sm exch (cell_bar 1 e)) = py_round 2 (c_high (snd e))"
    "ir_low (bar_row sm exch (cell_bar 1 e)) = py_round 2 (c_low (snd e))"
    "ir_close (bar_row sm exch (cell_bar 1 e)) = py_round 2 (c_close (snd e))"
    "ir_volume (bar_row sm exch (cell_bar 1 e)) = py_trunc (c_vol (snd e))" for e
    by (simp_all add: bar_row_def)
  have "sum_list (map (\<lambda>e. py_trunc (c_vol (snd e))) cs) = py_trunc (sum_list (map (\<lambda>e. c_vol (snd e)) cs))"
  proof -
    have "whole x" if "x \<in> set (map (\<lambda>e. c_vol (snd e)) cs)" for x using that assms(2) by auto
    from sum_trunc_whole[of "map (\<lambda>e. c_vol (snd e)) cs", OF this] show ?thesis by (simp add: comp_def)
  qed
  moreover have "c_close (last (map snd cs)) = c_close (snd (last cs))" using cs by (simp add: last_map)
  moreover have "ir_close (last (map (\<lambda>e. bar_row sm exch (cell_bar 1 e)) cs)) = py_round 2 (c_close (snd (last cs)))"
    using cs by (simp add: last_map fields)
  ultimately show ?thesis
    by (intro bar.equality)
      (simp_all add: rollup_group_def round_bar_def cs foldl_merge_fields fields comp_def
        foldl_max_round foldl_min_round)
qed

lemma live_points_whole:
  "(\<And>x. x \<in> set xs \<Longrightarrow> whole (sm_cum x)) \<Longrightarrow> (\<And>c. pc = Some c \<Longrightarrow> whole c) \<Longrightarrow>
     (i, p, v) \<in> set (live_points seconds pc ps xs) \<Longrightarrow> whole v"
proof (induction xs arbitrary: pc ps)
  case (Cons x xs)
  have w: "whole (a - b)" if "whole a" "whole b" for a b
    using that unfolding whole_def by (metis of_int_diff)
  have z: "whole 0" unfolding whole_def by (metis of_int_0)
  from Cons.prems(3) consider
    "v = (case pc of None \<Rightarrow> 0 | Some c \<Rightarrow> if sm_src x = ps \<and> sm_cum x \<ge> c then sm_cum x - c else 0)"
    | "(i, p, v) \<in> set (live_points seconds (Some (sm_cum x)) (sm_src x) xs)"
    by auto
  then show ?case
  proof cases
    case 1
    with Cons.prems(1)[of x] Cons.prems(2) show ?thesis by (auto simp: z w split: option.splits)
  next
    case 2
    with Cons.IH[of "Some (sm_cum x)" "sm_src x"] Cons.prems(1) show ?thesis by simp
  qed
qed simp

lemma bucket_cells_whole:
  assumes "\<And>i p v. (i, p, v) \<in> set pts \<Longrightarrow> whole v" "e \<in> set (bucket_points pts)"
  shows "whole (c_vol (snd e))"
proof -
  obtain i c where e: "e = (i, c)" by fastforce
  have "group_cell (group_of i pts) = Some c"
    using assms(2) bucket_points_distinct[of pts] by (simp add: e bucket_points_spec[symmetric])
  then have "c_vol c = sum_list (map snd (group_of i pts))" by (rule group_cell_vol)
  moreover have "whole x" if "x \<in> set (map snd (group_of i pts))" for x
    using that assms(1) by (auto simp: group_of_def)
  ultimately show ?thesis using sum_trunc_whole[of "map snd (group_of i pts)"] by (simp add: e)
qed

lemma assoc_map_eq: "distinct (map fst d) \<Longrightarrow> map (\<lambda>j. f j (the (map_of d j))) (map fst d) = map (\<lambda>(j, c). f j c) d"
  by auto

text \<open>Merging the cells of one coarse bucket.\<close>

lemma coarse_cell:
  assumes "sorted (map fst pts)"
  shows "merge_cells (map snd (filter (\<lambda>e. fst e div n = j) (bucket_points pts))) =
    group_cell (group_of j (map (\<lambda>(i, p, v). (i div n, p, v)) pts))"
proof -
  let ?cells = "bucket_points pts" and ?ks = "map fst (bucket_points pts)"
  let ?fs = "filter (\<lambda>e. fst e div n = j) ?cells"
  have cell: "group_cell (group_of i pts) = Some c" if "(i, c) \<in> set ?cells" for i c
    using that bucket_points_distinct[of pts] by (simp add: bucket_points_spec[symmetric])
  have "map snd ?fs = map (\<lambda>g. the (group_cell g)) (map (\<lambda>e. group_of (fst e) pts) ?fs)"
    using cell by auto
  moreover have "\<forall>g\<in>set (map (\<lambda>e. group_of (fst e) pts) ?fs). g \<noteq> []"
    using cell by force
  ultimately have "merge_cells (map snd ?fs) = group_cell (concat (map (\<lambda>e. group_of (fst e) pts) ?fs))"
    by (simp only: merge_cells_concat)
  also have "map (\<lambda>e. group_of (fst e) pts) ?fs = map (\<lambda>i. group_of i pts) (filter (\<lambda>i. i div n = j) ?ks)"
    by (simp add: filter_map comp_def)
  also have "concat (map (\<lambda>i. group_of i pts) (filter (\<lambda>i. i div n = j) ?ks)) =
      group_of j (map (\<lambda>(i, p, v). (i div n, p, v)) pts)"
    using bucket_points_keys[of pts]
    by (intro group_of_coarse[symmetric] assms bucket_points_sorted) simp_all
  finally show ?thesis .
qed

lemma strict_sorted_unique:
  "sorted_wrt (<) (xs :: int list) \<Longrightarrow> sorted_wrt (<) ys \<Longrightarrow> set xs = set ys \<Longrightarrow> xs = ys"
  by (rule strict_sorted_equal)

lemma rollup_rows:
  fixes n :: int
  assumes srt: "sorted (map fst pts)" and n: "0 < n"
    and w: "\<And>i p v. (i, p, v) \<in> set pts \<Longrightarrow> whole v"
    and rows: "filter (in_window sm exch t0 t1) tbl = map (\<lambda>e. bar_row a b (cell_bar 1 e)) (bucket_points pts)"
  shows "map round_bar (get_intraday_candles sm exch (of_int n) t0 t1 tbl) =
    map (cell_bar (of_int n)) (bucket_points (map (\<lambda>(i, p, v). (i div n, p, v)) pts))"
proof -
  let ?cells = "bucket_points pts" and ?ptsN = "map (\<lambda>(i, p, v). (i div n, p, v)) pts"
  let ?row = "\<lambda>e. bar_row a b (cell_bar 1 e)" and ?bucket = "\<lambda>r. \<lfloor>ir_time r / of_int n\<rfloor>"
  have time: "ir_time (?row e) = of_int (fst e)" for e by (simp add: bar_row_def)
  have bkt: "?bucket (?row e) = fst e div n" for e using floor_div[OF n, of "of_int (fst e)"] by (simp add: time)
  have ks: "sorted_wrt (<) (map fst ?cells)" by (rule bucket_points_sorted[OF srt])
  have "sorted (map ir_time (map ?row ?cells))"
    using ks unfolding sorted_map sorted_wrt_map by (rule sorted_wrt_mono_rel[rotated]) (simp add: time)
  then have sk: "sort_key ir_time (map ?row ?cells) = map ?row ?cells" by (rule sort_key_id_if_sorted)
  have srtN: "sorted (map fst ?ptsN)"
  proof -
    have "sorted_wrt (\<lambda>x y. fst x div n \<le> fst y div n) pts"
      using srt unfolding sorted_map by (rule sorted_wrt_mono_rel[rotated]) (use n in \<open>simp add: zdiv_mono1\<close>)
    then show ?thesis unfolding sorted_map sorted_wrt_map by (simp add: case_prod_beta)
  qed
  have keys: "sort (remdups (map ?bucket (map ?row ?cells))) = map fst (bucket_points ?ptsN)"
  proof (rule strict_sorted_unique)
    show "sorted_wrt (<) (sort (remdups (map ?bucket (map ?row ?cells))))"
      by (simp add: strict_sorted_iff)
    show "sorted_wrt (<) (map fst (bucket_points ?ptsN))" by (rule bucket_points_sorted[OF srtN])
    have "set (map ?bucket (map ?row ?cells)) = (\<lambda>i. i div n) ` fst ` set ?cells"
      by (auto simp: bkt)
    moreover have "set (map fst (bucket_points ?ptsN)) = (\<lambda>i. i div n) ` fst ` set pts"
      using bucket_points_keys[of ?ptsN] by force
    ultimately show "set (sort (remdups (map ?bucket (map ?row ?cells)))) = set (map fst (bucket_points ?ptsN))"
      by (simp add: bucket_points_keys)
  qed
  have one: "round_bar (rollup_group (of_int j * of_int n) (filter (\<lambda>r. ?bucket r = j) (map ?row ?cells))) =
      cell_bar (of_int n) (j, the (map_of (bucket_points ?ptsN) j))"
    if "j \<in> set (map fst (bucket_points ?ptsN))" for j
  proof -
    let ?fs = "filter (\<lambda>e. fst e div n = j) ?cells"
    have fs: "filter (\<lambda>r. ?bucket r = j) (map ?row ?cells) = map ?row ?fs"
      by (simp add: filter_map comp_def bkt)
    have mc: "merge_cells (map snd ?fs) = map_of (bucket_points ?ptsN) j"
      by (simp add: coarse_cell[OF srt] bucket_points_spec)
    obtain c where c: "map_of (bucket_points ?ptsN) j = Some c"
      using \<open>j \<in> set (map fst (bucket_points ?ptsN))\<close> by (auto simp: map_of_eq_None_iff image_iff dest: weak_map_of_SomeI)
    then have ne: "?fs \<noteq> []" using mc by auto
    have "round_bar (rollup_group (of_int j * of_int n) (map ?row ?fs)) =
        (cell_bar 1 (0, c))\<lparr>b_time := of_int j * of_int n\<rparr>"
      using rollup_group_cells[OF ne, of "of_int j * of_int n" a b] bucket_cells_whole[OF w, of pts] mc c by auto
    moreover have "(cell_bar 1 (0, c))\<lparr>b_time := of_int j * of_int n\<rparr> = cell_bar (of_int n) (j, c)"
      by (simp add: cell_bar_def)
    ultimately show ?thesis by (simp only: fs c option.sel)
  qed
  have "map round_bar (get_intraday_candles sm exch (of_int n) t0 t1 tbl) =
      map (\<lambda>j. round_bar (rollup_group (of_int j * of_int n) (filter (\<lambda>r. ?bucket r = j) (map ?row ?cells))))
        (map fst (bucket_points ?ptsN))"
    unfolding get_intraday_candles_def rows Let_def sk keys by (simp only: map_map comp_def)
  also have "\<dots> = map (\<lambda>j. cell_bar (of_int n) (j, the (map_of (bucket_points ?ptsN) j))) (map fst (bucket_points ?ptsN))"
    by (rule map_cong[OF refl one])
  also have "\<dots> = map (cell_bar (of_int n)) (bucket_points ?ptsN)"
    using assoc_map_eq[OF bucket_points_distinct, of "\<lambda>j c. cell_bar (of_int n) (j, c)" ?ptsN] by simp
  finally show ?thesis .
qed

section \<open>Properties\<close>

lemma bucket_count: "length (bucket_points pts) \<le> length pts"
proof -
  have "length (bucket_points pts) = card (fst ` set (bucket_points pts))"
    using distinct_card[OF bucket_points_distinct[of pts]] by simp
  also have "\<dots> \<le> card (set pts)" unfolding bucket_points_keys by (rule card_image_le) simp
  also have "\<dots> \<le> length pts" by (rule card_length)
  finally show ?thesis .
qed

lemma length_live_points: "length (live_points s pc ps xs) = length xs"
  by (induction xs arbitrary: pc ps) auto

lemma build_all:
  assumes "le_samples e (live_key sm exch) = xs" "xs \<noteq> []" "0 < seconds" "length xs \<le> limit"
  shows "build sm exch seconds limit now e =
    (map (cell_bar seconds) (bucket_points (live_points seconds None None xs)), touch_read (live_key sm exch) now e)"
proof -
  have "length (bucket_points (live_points seconds None None xs)) \<le> limit"
    using bucket_count[of "live_points seconds None None xs"] assms(4) by (simp add: length_live_points)
  then show ?thesis using assms by (simp add: build_def Let_def touch_read_def build_cells_points last_n_all)
qed

lemma flush_first:
  assumes xs: "le_samples e (live_key sm exch) = xs" "xs \<noteq> []" "length xs \<le> 100000" "sorted (map sm_ts xs)"
    and db: "db_connected db" "db_last_flush db (live_key sm exch) = None"
    and fresh: "\<And>r. r \<in> set (db_rows db) \<Longrightarrow> \<not> (ir_symbol r = upper sm \<and> ir_exchange r = upper exch)"
    and flush: "flush_live_to_store sm exch now True e db = (k, e', db')"
  shows "db_connected db' \<and> db_rows db' =
    db_rows db @ map (\<lambda>c. bar_row sm exch (cell_bar 1 c)) (bucket_points (live_points 1 None None xs))"
proof -
  let ?cells = "bucket_points (live_points 1 None None xs)"
  let ?rows = "map (\<lambda>c. bar_row sm exch (cell_bar 1 c)) ?cells"
  have b: "build sm exch 1 100000 now e = (map (cell_bar 1) ?cells, touch_read (live_key sm exch) now e)"
    using xs by (intro build_all) simp_all
  have "live_points 1 None None xs \<noteq> []" using xs(2) by (cases xs) auto
  then have "fst ` set ?cells \<noteq> {}" unfolding bucket_points_keys by simp
  then have ne: "?cells \<noteq> []" by auto
  have "distinct (map fst ?cells)" by (rule bucket_points_distinct)
  then have "distinct (map row_key ?rows)"
    by (auto simp: distinct_map inj_on_def row_key_def bar_row_def)
  moreover have "row_key r \<notin> set (map row_key ?rows)" if "r \<in> set (db_rows db)" for r
    using fresh[OF that] by (auto simp: row_key_def bar_row_def)
  moreover have "upsert_intraday_candles ?rows (db_rows db) = foldl upsert_row (db_rows db) ?rows"
    using ne by (simp add: upsert_intraday_candles_def)
  moreover have "db' = db\<lparr>db_rows := upsert_intraday_candles ?rows (db_rows db),
      db_last_flush := (db_last_flush db)(live_key sm exch \<mapsto> b_time (last (map (cell_bar 1) ?cells)))\<rparr>"
    using flush db ne unfolding flush_live_to_store_def b by (simp add: Let_def comp_def)
  ultimately show ?thesis
    using db(1) upsert_distinct_append[of ?rows "db_rows db"] by (simp only: candle_db.simps) simp
qed

text \<open>C7: A day recorded on a chronological tape with whole volumes, flushed to an empty slot of the candle
  table as one-second rows and read back at any whole bar width gives exactly the candles the
  live engine shows at that width: same instants, prices rounded alike, same volumes.\<close>
theorem flushed_day_reads_as_live:
  assumes "le_samples e (live_key sm exch) = xs" "xs \<noteq> []" "length xs \<le> 100000" "length xs \<le> limit"
    and "sorted (map sm_ts xs)" "\<And>x. x \<in> set xs \<Longrightarrow> whole (sm_cum x)"
    and "\<And>x. x \<in> set xs \<Longrightarrow> t0 \<le> of_int \<lfloor>sm_ts x\<rfloor> \<and> sm_ts x < t1"
    and "db_connected db" "db_last_flush db (live_key sm exch) = None"
    and "\<And>r. r \<in> set (db_rows db) \<Longrightarrow> \<not> (ir_symbol r = upper sm \<and> ir_exchange r = upper exch)"
    and "flush_live_to_store sm exch now True e db = (k, e', db')" "0 < n"
  shows "read_past_intraday sm exch (of_int n) t0 t1 True db' =
    Some \<lparr>dr_captured = True, dr_candles = fst (build sm exch (of_int n) limit now e)\<rparr>"
proof -
  let ?pts = "live_points 1 None None xs"
  let ?rows = "map (\<lambda>c. bar_row sm exch (cell_bar 1 c)) (bucket_points ?pts)"
  have srt: "sorted (map fst ?pts)" by (rule live_points_sorted[OF assms(5)]) simp
  have db': "db_connected db'" "db_rows db' = db_rows db @ ?rows"
    using flush_first[OF assms(1-3,5,8-11)] by blast+
  have "in_window (upper sm) (upper exch) t0 t1 r" if r: "r \<in> set ?rows" for r
  proof -
    from r obtain i c where c: "(i, c) \<in> set (bucket_points ?pts)" "r = bar_row sm exch (cell_bar 1 (i, c))" by auto
    then have "i \<in> fst ` set ?pts" by (metis bucket_points_keys fst_conv image_eqI)
    then have "i \<in> set (map fst ?pts)" by simp
    then obtain x where x: "x \<in> set xs" "i = \<lfloor>sm_ts x\<rfloor>" unfolding live_points_index by auto
    have "(of_int i :: rat) < t1" using assms(7)[OF x(1)] x(2) by linarith
    with assms(7)[OF x(1)] x(2) c(2) show ?thesis by (simp add: in_window_def bar_row_def)
  qed
  moreover have "\<not> in_window (upper sm) (upper exch) t0 t1 r" if "r \<in> set (db_rows db)" for r
    using assms(10)[OF that] unfolding in_window_def by blast
  ultimately have rows: "filter (in_window (upper sm) (upper exch) t0 t1) (db_rows db') = ?rows"
    unfolding db'(2) by (simp add: filter_empty_conv filter_id_conv)
  have w: "whole v" if "(i, p, v) \<in> set ?pts" for i p v
    using live_points_whole[OF assms(6) _ that] by simp
  have "?pts \<noteq> []" using assms(2) by (cases xs) auto
  then have "fst ` set (bucket_points ?pts) \<noteq> {}" unfolding bucket_points_keys by simp
  then have "count_intraday (upper sm) (upper exch) t0 t1 (db_rows db') \<noteq> 0"
    by (simp add: count_intraday_def rows)
  moreover have "max 1 (of_int (round_half_even (of_int n))) = (of_int n :: rat)"
    using assms(12) by (simp add: max_def)
  moreover have "map round_bar (get_intraday_candles (upper sm) (upper exch) (of_int n) t0 t1 (db_rows db')) =
      map (cell_bar (of_int n)) (bucket_points (live_points (of_int n) None None xs))"
    unfolding live_points_coarse[OF assms(12)] by (rule rollup_rows[OF srt assms(12) w rows])
  moreover have "build sm exch (of_int n) limit now e = (map (cell_bar (of_int n))
      (bucket_points (live_points (of_int n) None None xs)), touch_read (live_key sm exch) now e)"
    using assms(12) by (intro build_all assms(1,2,4)) simp
  ultimately show ?thesis using db'(1) by (simp add: read_past_intraday_def Let_def)
qed

definition demo_db :: candle_db where
  "demo_db = \<lparr>db_connected = True, db_rows = [], db_last_flush = Map.empty\<rparr>"

definition demo_live :: engine where
  "demo_live = new_engine\<lparr>le_samples := (\<lambda>_. [\<lparr>sm_ts = 1, sm_price = 100, sm_cum = 10, sm_src = None\<rparr>,
     \<lparr>sm_ts = 5 / 2, sm_price = 102, sm_cum = 15, sm_src = None\<rparr>,
     \<lparr>sm_ts = 12, sm_price = 101, sm_cum = 18, sm_src = None\<rparr>])\<rparr>"

theorem flushed_day_reads_as_live_witness:
  "read_past_intraday ''TCS'' ''NSE'' 10 0 100 True (snd (snd (flush_live_to_store ''TCS'' ''NSE'' 20 True demo_live demo_db))) =
     Some \<lparr>dr_captured = True, dr_candles = fst (build ''TCS'' ''NSE'' 10 300 20 demo_live)\<rparr>"
proof -
  obtain k e' db' where f: "flush_live_to_store ''TCS'' ''NSE'' 20 True demo_live demo_db = (k, e', db')"
    by (metis prod_cases3)
  have w: "whole 10" "whole 15" "whole 18"
    unfolding whole_def by (metis of_int_numeral)+
  have fl: "\<lfloor>5 / 2 :: rat\<rfloor> = 2" by (simp add: floor_unique)
  have "read_past_intraday ''TCS'' ''NSE'' (of_int 10) 0 100 True db' =
      Some \<lparr>dr_captured = True, dr_candles = fst (build ''TCS'' ''NSE'' (of_int 10) 300 20 demo_live)\<rparr>"
    by (rule flushed_day_reads_as_live[OF refl _ _ _ _ _ _ _ _ _ f])
      (auto simp: demo_live_def demo_db_def w fl)
  then show ?thesis by (simp add: f)
qed

lemma flush_touches_reader:
  "db_connected db \<Longrightarrow> flush_live_to_store sm exch now ok e db = (k, e', db') \<Longrightarrow>
     le_last_read e' (live_key sm exch) = Some now \<and> db_connected db'"
  by (auto simp: flush_live_to_store_def build_def Let_def touch_read_def split: if_splits prod.splits)

lemma record_keeps_read: "le_last_read (record_tick cfg sm exch t now e) = le_last_read e"
  by (simp add: record_tick_def record_sample_def push_sample_def Let_def split: option.split)

text \<open>Turns whose clock readings are in order, at most \<open>d\<close> apart, starting from the last flush.\<close>

fun turns_ok :: "secs \<Rightarrow> secs \<Rightarrow> turn list \<Rightarrow> bool" where
  "turns_ok d prev [] = True"
| "turns_ok d prev (n # ns) = (prev \<le> tn_check n \<and> tn_check n - prev \<le> d \<and> tn_check n \<le> tn_flush_check n \<and>
     tn_flush_check n \<le> tn_flush_at n \<and> tn_flush_at n \<le> tn_build_at n \<and> turns_ok d (tn_flush_check n) ns)"

lemma recorder_never_idle_aux:
  assumes "turns_ok d prev ns" "db_connected db" "prev - lf < lc_flush_interval cfg \<or> prev \<le> lf"
    and "le_last_read e (live_key sm exch) = Some r" "lf \<le> r" "0 \<le> lc_flush_interval cfg"
    and "lc_flush_interval cfg + d \<le> lc_idle_ttl cfg"
  shows "\<exists>st. recorder_run cfg sm exch ns (e, db, lf) = Some st"
  using assms
proof (induction ns arbitrary: prev e db lf r)
  case (Cons n ns)
  let ?k = "live_key sm exch"
  define e1 where "e1 = (case tn_fetched n of None \<Rightarrow> e | Some t \<Rightarrow> record_tick cfg sm exch t (tn_recorded n) e)"
  have r1: "le_last_read e1 ?k = Some r"
    using Cons.prems(4) by (simp add: e1_def record_keeps_read split: option.split)
  have t: "tn_check n - prev \<le> d" "turns_ok d (tn_flush_check n) ns" "tn_check n \<le> tn_flush_check n"
    "tn_flush_check n \<le> tn_flush_at n" "tn_flush_at n \<le> tn_build_at n"
    using Cons.prems(1) by simp_all
  have "tn_check n - r \<le> lc_idle_ttl cfg" using t(1) Cons.prems(3,5,6,7) by linarith
  then have alive: "\<not> tn_check n - (case le_last_read e ?k of None \<Rightarrow> 0 | Some t \<Rightarrow> t) > lc_idle_ttl cfg"
    using Cons.prems(4) by simp
  show ?case
  proof (cases "tn_flush_check n - lf \<ge> lc_flush_interval cfg")
    case True
    obtain k e2 db2 where f: "flush_live_to_store sm exch (tn_build_at n) (tn_store_ok n) e1 db = (k, e2, db2)"
      by (metis prod_cases3)
    have step: "recorder_turn cfg sm exch n (e, db, lf) = Some (e2, db2, tn_flush_at n)"
      using True alive f unfolding recorder_turn_def e1_def by (simp add: Let_def)
    from flush_touches_reader[OF Cons.prems(2) f] have
      "le_last_read e2 ?k = Some (tn_build_at n)" "db_connected db2" by simp_all
    with Cons.IH[OF t(2), of db2 "tn_flush_at n" e2 "tn_build_at n"] t(4,5) Cons.prems(6,7)
    show ?thesis by (simp add: step)
  next
    case False
    then have step: "recorder_turn cfg sm exch n (e, db, lf) = Some (e1, db, lf)"
      using alive unfolding recorder_turn_def e1_def by (simp add: Let_def)
    have "tn_flush_check n - lf < lc_flush_interval cfg \<or> tn_flush_check n \<le> lf" using False by linarith
    with Cons.IH[OF t(2) Cons.prems(2) _ r1 Cons.prems(5-7)] show ?thesis by (simp add: step)
  qed
qed simp

text \<open>With a connected database the background recorder never takes its idle stop, however long nobody reads the
  symbol: its own periodic flush reads the engine through \<^verbatim>\<open>build\<close>, which refreshes the reading
  time that the idle check looks at.\<close>
theorem recorder_never_idle:
  assumes "turns_ok d lf ns" "db_connected db" "le_last_read e (live_key sm exch) = Some r" "lf \<le> r"
    and "0 \<le> lc_flush_interval cfg" "lc_flush_interval cfg + d \<le> lc_idle_ttl cfg"
  shows "\<exists>st. recorder_run cfg sm exch ns (e, db, lf) = Some st"
  using recorder_never_idle_aux[OF assms(1,2) _ assms(3-6)] by simp

definition demo_turn :: "rat \<Rightarrow> turn" where
  "demo_turn t = \<lparr>tn_check = t, tn_fetched = None, tn_recorded = t, tn_flush_check = t, tn_flush_at = t, tn_build_at = t, tn_store_ok = True\<rparr>"

theorem recorder_never_idle_witness:
  "\<exists>st. recorder_run default_live_cfg ''TCS'' ''NSE'' (map demo_turn [60, 120, 180, 240, 300])
     (touch_read (live_key ''TCS'' ''NSE'') 0 demo_live, demo_db, 0) = Some st"
  by (rule recorder_never_idle[of 60 _ _ _ _ _ _ 0])
    (simp_all add: demo_turn_def demo_db_def touch_read_def default_live_cfg_def)

text \<open>Upserting candle rows is idempotent and leaves every other row alone: what a key reads after writing the
  rows once is what it reads after writing them twice, and keys not written read as before.\<close>
theorem upsert_idempotent:
  "row_by row_key k (upsert_intraday_candles rows (upsert_intraday_candles rows tbl)) =
     row_by row_key k (upsert_intraday_candles rows tbl) \<and>
   (k \<notin> set (map row_key rows) \<longrightarrow>
     row_by row_key k (upsert_intraday_candles rows tbl) = row_by row_key k tbl)"
  using candles.puts_idem[of k tbl rows] candles.puts_frame[of rows k tbl]
  by (auto simp: upsert_intraday_candles_def)

theorem upsert_idempotent_witness:
  "row_by row_key (''A'', ''NSE'', 1) (upsert_intraday_candles
     [\<lparr>ir_time = 2, ir_symbol = ''A'', ir_exchange = ''NSE'', ir_open = 1, ir_high = 1, ir_low = 1, ir_close = 1, ir_volume = 0\<rparr>] []) = None"
  using upsert_idempotent[of "(''A'', ''NSE'', 1)"
      "[\<lparr>ir_time = 2, ir_symbol = ''A'', ir_exchange = ''NSE'', ir_open = 1, ir_high = 1, ir_low = 1, ir_close = 1, ir_volume = 0\<rparr>]" "[]"]
  by (simp add: row_key_def row_by_def)

lemma points_to_ohlc_ok:
  assumes "\<And>p. p \<in> set points \<Longrightarrow> gp_volume p = None \<or> 0 \<le> the (gp_volume p)" "b \<in> set (points_to_ohlc points bs limit)"
  shows "bar_ok b"
proof -
  let ?pts = "List.map_filter (graph_point_of bs) points"
  have nn: "0 \<le> v" if "(i, p, v) \<in> set ?pts" for i p v
    using that assms(1) by (fastforce simp: map_filter_def graph_point_of_def split: option.splits if_splits)
  from assms(2) obtain i c where "b = cell_bar 1 (i, c)" "(i, c) \<in> set (bucket_points ?pts)"
    using set_last_n[of limit "bucket_points ?pts"] by (auto simp: points_to_ohlc_def split: if_splits)
  with bucket_cells_ok[of ?pts i c] nn show ?thesis by (auto intro: cell_bar_ok)
qed

end
