(* ===== verification/SbHistory.thy ===== *)
theory SbHistory
  imports SbService TTLCache IntradayStore
begin

text \<open>
  The candle endpoints of \<^verbatim>\<open>src/api/endpoints/superbrain.py\<close>: \<^verbatim>\<open>_today_bar_from_quote\<close>, \<^verbatim>\<open>/sb/candles\<close>,
  \<^verbatim>\<open>/sb/intraday\<close>, \<^verbatim>\<open>_today_session_bars\<close> and \<^verbatim>\<open>/sb/history\<close>. They compose the history client, the curves
  of the exchanges, the candle builder, the split adjustment, the live-candle engine, the durable store and
  the two history caches. Candles are \<^typ>\<open>scandle\<close>, with ISO text for the instant; a curve point carries ISO text
  too. Naive stamps, whose instant depends on the host's zone, count as unreadable.
\<close>

section \<open>Days and points\<close>

text \<open>\<^verbatim>\<open>datetime.strptime(d, "%Y-%m-%d")\<close>; \<open>None\<close> is the \<^verbatim>\<open>ValueError\<close>.\<close>

definition digits :: "string \<Rightarrow> nat \<Rightarrow> nat \<Rightarrow> int option" where
  "digits s lo hi = (if lo \<le> length s \<and> length s \<le> hi then digits_val 0 s else None)"

definition strptime_day :: "string \<Rightarrow> date option" where
  "strptime_day s =
     (case split_on (CHR ''-'') s of
        [y, m, d] \<Rightarrow>
          (case (digits y 4 4, digits m 1 2, digits d 1 2) of
             (Some a, Some b, Some c) \<Rightarrow> if valid_date (mk_date a b c) then Some (mk_date a b c) else None
           | _ \<Rightarrow> None)
      | _ \<Rightarrow> None)"

text \<open>The instant of midnight IST.\<close>

definition ist_midnight :: "date \<Rightarrow> secs" where
  "ist_midnight d = of_int ((toordinal d - epoch_ordinal) * 86400 - 19800)"

definition point_epoch :: "string \<Rightarrow> secs option" where
  "point_epoch ts =
     (case fromisoformat ts of None \<Rightarrow> None
      | Some t \<Rightarrow> map_option (\<lambda>u. of_int u / 1000000) (timestamp_us t))"

definition curve_graph_point :: "curve_point \<Rightarrow> graph_point" where
  "curve_graph_point p = \<lparr>gp_epoch = point_epoch (cp_ts p), gp_price = cp_price p, gp_volume = cp_volume p\<rparr>"

text \<open>The offset of the first point of a bucket, in which the bar's stamp is written.\<close>

definition bucket_offset :: "curve_point list \<Rightarrow> int \<Rightarrow> secs \<Rightarrow> int" where
  "bucket_offset pts bs b =
     (case filter (\<lambda>p. case graph_point_of bs (curve_graph_point p) of Some (i, _) \<Rightarrow> of_int i = b | None \<Rightarrow> False) pts of
        [] \<Rightarrow> ist_offset
      | p # _ \<Rightarrow> (case fromisoformat (cp_ts p) of
            Some t \<Rightarrow> (case dt_tz t of Some k \<Rightarrow> k | None \<Rightarrow> ist_offset) | None \<Rightarrow> ist_offset))"

definition bar_candle :: "int \<Rightarrow> bar \<Rightarrow> scandle" where
  "bar_candle off b =
     \<lparr>sc_ts = isoformat (fromtimestamp_us off (\<lfloor>b_time b\<rfloor> * 1000000)), sc_open = Some (b_open b), sc_high = Some (b_high b),
      sc_low = Some (b_low b), sc_close = Some (b_close b), sc_vwap = None, sc_volume = Some (of_int (b_volume b)), sc_oi = Some 0\<rparr>"

text \<open>\<^verbatim>\<open>points_to_ohlc\<close> on the text points.\<close>

definition curve_candles :: "curve_point list \<Rightarrow> int \<Rightarrow> nat \<Rightarrow> scandle list" where
  "curve_candles pts bs limit =
     map (\<lambda>b. bar_candle (bucket_offset pts bs (b_time b)) b) (points_to_ohlc (map curve_graph_point pts) bs limit)"

section \<open>Daily candles\<close>

definition today_bar :: "datetime \<Rightarrow> tick option \<Rightarrow> scandle option" where
  "today_bar now tk =
     (case tk of None \<Rightarrow> None
      | Some t \<Rightarrow>
          let c = tk_ltp t; pick = (\<lambda>x. if x \<noteq> 0 then x else c)
          in Some \<lparr>sc_ts = day_text now @ ''T00:00:00+05:30'', sc_open = Some (pick (tk_open t)), sc_high = Some (pick (tk_high t)),
               sc_low = Some (pick (tk_low t)), sc_close = Some c, sc_vwap = None, sc_volume = Some (of_int (tk_volume t)), sc_oi = None\<rparr>)"

definition overlay_today :: "string \<Rightarrow> scandle \<Rightarrow> scandle list \<Rightarrow> scandle list" where
  "overlay_today today tb cs =
     (if cs \<noteq> [] \<and> take 10 (sc_ts (last cs)) = today then butlast cs @ [tb] else cs @ [tb])"

record candles_reply =
  cr_symbol :: string
  cr_interval :: string
  cr_count :: nat
  cr_adjusted :: bool
  cr_events :: "split_event list"
  cr_live_last :: bool
  cr_candles :: "scandle list"

text \<open>\<open>hist\<close> answers \<^verbatim>\<open>get_history\<close> for a symbol, interval code and limit.\<close>

definition sb_candles :: "(string \<Rightarrow> string \<Rightarrow> nat \<Rightarrow> hrow list) \<Rightarrow> (string \<Rightarrow> tick option) \<Rightarrow> bool \<Rightarrow> datetime \<Rightarrow>
    string \<Rightarrow> string \<Rightarrow> string \<Rightarrow> bool \<Rightarrow> bool \<Rightarrow> http_error + candles_reply" where
  "sb_candles hist live market now sm rng interval adjust live_last =
     (if reject_index sm then Inl 400
      else
        (let s = canonical_symbol sm;
             code = (case map_of interval_map interval of None \<Rightarrow> ''1d'' | Some c \<Rightarrow> c);
             limit = (case map_of range_limit rng of None \<Rightarrow> 130 | Some n \<Rightarrow> n);
             cs0 = norm_candles (hist s code limit);
             (cs, events) = (if adjust \<and> code \<in> {''1d'', ''1w''} then adjust_for_splits cs0 else (cs0, []));
             tb = (if live_last \<and> code = ''1d'' \<and> market then today_bar now (live s) else None);
             out = (case tb of None \<Rightarrow> cs | Some b \<Rightarrow> overlay_today (day_text now) b cs)
         in Inr \<lparr>cr_symbol = s, cr_interval = code, cr_count = length out, cr_adjusted = (events \<noteq> []), cr_events = events,
                 cr_live_last = (tb \<noteq> None), cr_candles = out\<rparr>))"

section \<open>Intraday candles\<close>

record intraday_env =
  ie_now :: datetime
  ie_market :: bool
  ie_clock :: secs
  ie_build_clock :: secs
  ie_store_ok :: bool
  ie_tick :: "tick option"
  ie_tt :: "curve_point list option"
  ie_bse :: "curve_point list option"
  ie_yahoo :: "string \<Rightarrow> nat option \<Rightarrow> hrow list"

datatype intraday_reply =
    Durable string bool "bar list"
  | LiveBars string bool bool nat "bar list"
  | Session string string string "scandle list"
  | Delayed "string option" bool "scandle list"

definition limited :: "nat option \<Rightarrow> 'a list \<Rightarrow> 'a list" where
  "limited limit xs = (case limit of None \<Rightarrow> xs | Some n \<Rightarrow> if n = 0 then xs else last_n n xs)"

definition curve_limit :: "nat option \<Rightarrow> nat" where
  "curve_limit limit = (case limit of None \<Rightarrow> 10 ^ 9 | Some n \<Rightarrow> if n = 0 then 10 ^ 9 else n + 200)"

definition session_candles :: "int \<Rightarrow> nat option \<Rightarrow> curve_point list option \<Rightarrow> scandle list" where
  "session_candles seconds limit pts =
     (case pts of None \<Rightarrow> []
      | Some ps \<Rightarrow> limited limit (latest_session_only sc_ts (curve_candles ps seconds (curve_limit limit))))"

definition delayed_candles :: "string \<Rightarrow> nat option \<Rightarrow> hrow list \<Rightarrow> bool \<times> scandle list" where
  "delayed_candles today limit rows =
     (let cs = norm_candles rows; td = filter (\<lambda>c. take 10 (sc_ts c) = today) cs;
          served = (if td \<noteq> [] then td else limited limit cs)
      in (td \<noteq> [], map (\<lambda>c. c\<lparr>sc_oi := Some 0\<rparr>) served))"

text \<open>The sub-minute branch: a past day from the store, the current one from the engine.\<close>

definition sub_minute :: "live_cfg \<Rightarrow> intraday_env \<Rightarrow> string \<Rightarrow> string \<Rightarrow> rat \<Rightarrow> nat option \<Rightarrow> string option \<Rightarrow>
    candle_db \<Rightarrow> engine \<Rightarrow> (http_error + intraday_reply) \<times> engine" where
  "sub_minute cfg v s exch seconds limit dt db e =
     (let today = day_text (ie_now v);
          live = (let e1 = ensure_recorder s exch (ie_clock v) e;
                      (ok, e2) = sample_once cfg s exch (ie_tick v) (ie_clock v) e1;
                      (bars, e3) = build s exch seconds (case limit of None \<Rightarrow> 10 ^ 9 | Some n \<Rightarrow> if n = 0 then 10 ^ 9 else n) (ie_build_clock v) e2
                  in (Inr (LiveBars s (length bars < 3) (le_running e3 (live_key s exch)) (length (le_samples e3 (live_key s exch))) bars), e3))
      in case dt of
           Some (c # d) \<Rightarrow>
             (case strptime_day (c # d) of
                None \<Rightarrow> (Inl 400, e)
              | Some dd \<Rightarrow>
                  if c # d < today
                  then (case read_past_intraday s exch seconds (ist_midnight dd) (ist_midnight dd + 86400) (ie_store_ok v) db of
                          None \<Rightarrow> (Inl 503, e)
                        | Some r \<Rightarrow> (Inr (Durable s (dr_captured r) (limited limit (dr_candles r))), e))
                  else live)
         | _ \<Rightarrow> live)"

definition sb_intraday :: "live_cfg \<Rightarrow> intraday_env \<Rightarrow> string \<Rightarrow> string \<Rightarrow> string \<Rightarrow> nat option \<Rightarrow> string option \<Rightarrow>
    candle_db \<Rightarrow> engine \<Rightarrow> (http_error + intraday_reply) \<times> engine" where
  "sb_intraday cfg v sm exch interval limit dt db e =
     (if reject_index sm then (Inl 400, e)
      else
        (let s = canonical_symbol sm
         in case map_of seconds_intervals interval of
              Some seconds \<Rightarrow> sub_minute cfg v s exch seconds limit dt db e
            | None \<Rightarrow>
                (case map_of interval_seconds interval of
                   None \<Rightarrow> (Inl 400, e)
                 | Some seconds \<Rightarrow>
                     (let tt = session_candles seconds limit (ie_tt v); bse = session_candles seconds limit (ie_bse v)
                      in if tt \<noteq> [] then (Inr (Session s ''NSE'' ''tickertape_realtime_nse'' tt), e)
                         else if bse \<noteq> [] then (Inr (Session s ''BSE'' ''bse_stockreach_realtime'' bse), e)
                         else (let code = map_of interval_map interval;
                                   rows = (case code of None \<Rightarrow> [] | Some c \<Rightarrow> ie_yahoo v c limit);
                                   (td, served) = delayed_candles (day_text (ie_now v)) limit rows
                               in (Inr (Delayed code td served), e))))))"

section \<open>History\<close>

definition today_session_bars :: "datetime \<Rightarrow> curve_point list option \<Rightarrow> curve_point list option \<Rightarrow> int \<Rightarrow> nat \<Rightarrow> scandle list" where
  "today_session_bars now tt bse bs limit =
     (let pick = (\<lambda>x. case x of None \<Rightarrow> [] | Some ps \<Rightarrow> latest_session_only cp_ts ps);
          pts = (if pick tt \<noteq> [] then pick tt else pick bse);
          today = filter (\<lambda>p. take 10 (cp_ts p) = day_text now) pts
      in if today = [] then [] else curve_candles today bs limit)"

record hist_env =
  he_now :: datetime
  he_clock :: secs
  he_clock2 :: secs
  he_tt :: "curve_point list option"
  he_bse :: "curve_point list option"
  he_rows :: "string \<Rightarrow> string \<Rightarrow> string \<Rightarrow> hrow list"

record history_reply =
  ht_symbol :: string
  ht_interval :: string
  ht_from :: string
  ht_to :: string
  ht_adjusted :: bool
  ht_events :: "split_event list"
  ht_today_source :: "string option"
  ht_candles :: "scandle list"

type_synonym hist_caches = "(hist_key, hrow) ttl_cache \<times> (string \<times> string \<times> int, scandle) ttl_cache"

text \<open>A naive \<^verbatim>\<open>datetime\<close> is its day ordinal and the microseconds of the day.\<close>

type_synonym naive = "int \<times> int"

definition parse_naive :: "string \<Rightarrow> http_error + naive" where
  "parse_naive s = (case strptime_day s of None \<Rightarrow> Inl 400 | Some d \<Rightarrow> Inr (toordinal d, 0))"

definition before_naive :: "naive \<Rightarrow> naive \<Rightarrow> bool" where
  "before_naive a b \<longleftrightarrow> fst a < fst b \<or> (fst a = fst b \<and> snd a < snd b)"

definition naive_day :: "naive \<Rightarrow> string" where
  "naive_day a = date_text (fromordinal (fst a))"

text \<open>\<^verbatim>\<open>dt - timedelta(days=n)\<close>; before the year 1 it raises, which ends the request with a 500.\<close>

definition minus_days :: "naive \<Rightarrow> int \<Rightarrow> http_error + naive" where
  "minus_days a n = (if fst a - n < 1 then Inl 500 else Inr (fst a - n, snd a))"

text \<open>The requested window, clamped to the depth the upstream feed has.\<close>

definition history_window :: "datetime \<Rightarrow> string \<Rightarrow> string option \<Rightarrow> string option \<Rightarrow> http_error + (naive \<times> naive)" where
  "history_window now code from to =
     (let max_days = (case map_of interval_max_days code of None \<Rightarrow> 365 * 10 | Some n \<Rightarrow> n)
      in case (case to of Some (c # cs) \<Rightarrow> parse_naive (c # cs) | _ \<Rightarrow> Inr (toordinal (dt_date now), dt_us now)) of
           Inl e \<Rightarrow> Inl e
         | Inr end \<Rightarrow>
             (case (case from of Some (c # cs) \<Rightarrow> parse_naive (c # cs) | _ \<Rightarrow> minus_days end (min max_days 365)) of
                Inl e \<Rightarrow> Inl e
              | Inr start \<Rightarrow>
                  (case minus_days end max_days of
                     Inl e \<Rightarrow> Inl e
                   | Inr floor_dt \<Rightarrow> Inr (if before_naive start floor_dt then floor_dt else start, end))))"

fun rows_of :: "'c cached_val \<Rightarrow> 'c list" where
  "rows_of (Rows xs) = xs"
| "rows_of (Other s) = []"

definition default_oi :: "scandle \<Rightarrow> scandle" where
  "default_oi c = (if sc_oi c = None then c\<lparr>sc_oi := Some 0\<rparr> else c)"

definition sb_history :: "hist_env \<Rightarrow> string \<Rightarrow> string \<Rightarrow> string \<Rightarrow> string option \<Rightarrow> string option \<Rightarrow> bool \<Rightarrow> hist_caches \<Rightarrow>
    (http_error + history_reply) \<times> hist_caches" where
  "sb_history v sm exch interval from to adjust caches =
     (let s = canonical_symbol sm
      in case map_of interval_map interval of
           None \<Rightarrow> (Inl 400, caches)
         | Some code \<Rightarrow>
             (case history_window (he_now v) code from to of
                Inl e \<Rightarrow> (Inl e, caches)
              | Inr (start, end) \<Rightarrow>
                  (let (made, rows, hc) = cached_history s exch code (naive_day start) (naive_day end)
                         (he_rows v code (naive_day start) (naive_day end)) (he_clock v) (he_clock2 v) (fst caches);
                       cs = norm_candles (rows_of rows); today = day_text (he_now v)
                   in case map_of interval_seconds code of
                        None \<Rightarrow>
                          (let (out, events) = (if adjust \<and> code \<in> {''1d'', ''1w''} then adjust_for_splits cs else (cs, []))
                           in (Inr \<lparr>ht_symbol = s, ht_interval = code, ht_from = naive_day start, ht_to = naive_day end,
                                 ht_adjusted = (events \<noteq> []), ht_events = events, ht_today_source = None,
                                 ht_candles = map default_oi out\<rparr>, (hc, snd caches)))
                      | Some bs \<Rightarrow>
                          (let past = filter (\<lambda>c. take 10 (sc_ts c) < today) cs;
                               (tbars, tc) = (if naive_day start \<le> today \<and> today \<le> naive_day end
                                  then (case cached_today_bars s exch bs (today_session_bars (he_now v) (he_tt v) (he_bse v) bs 500)
                                          (he_clock v) (he_clock2 v) (snd caches) of (_, b, tc) \<Rightarrow> (rows_of b, tc))
                                  else ([], snd caches))
                           in (Inr \<lparr>ht_symbol = s, ht_interval = code, ht_from = naive_day start, ht_to = naive_day end,
                                 ht_adjusted = False, ht_events = [],
                                 ht_today_source = (if tbars \<noteq> [] then Some ''scraper_live'' else None),
                                 ht_candles = map default_oi (past @ tbars)\<rparr>, (hc, tc))))))"

section \<open>Lemmas\<close>

lemma minus_days_Inr: "minus_days a n = Inr b \<Longrightarrow> b = (fst a - n, snd a)"
  by (simp add: minus_days_def split: if_splits)

lemma default_oi_ts [simp]: "sc_ts (default_oi c) = sc_ts c"
  by (simp add: default_oi_def)

lemma norm_candles_sorted: "sorted (map sc_ts (norm_candles rows))"
  by (simp add: norm_candles_def)

lemma sorted_filter_ts: "sorted (map sc_ts xs) \<Longrightarrow> sorted (map sc_ts (filter P xs))"
  by (rule sorted_filter)

text \<open>The live bar of the day is laid over the series once: it replaces the last bar when that is of today and is appended
  otherwise, and the other bars stay.\<close>

lemma overlay_today_last:
  "last (overlay_today today tb cs) = tb \<and> (\<exists>n. butlast (overlay_today today tb cs) = take n cs \<and> n \<le> length cs \<and> length cs \<le> n + 1)"
  by (cases "cs \<noteq> [] \<and> take 10 (sc_ts (last cs)) = today")
    (auto simp: overlay_today_def butlast_conv_take intro: exI[of _ "length cs - 1"] exI[of _ "length cs"])

end
