(* ===== verification/Database.thy ===== *)
theory Database
  imports SbHistory
begin

text \<open>
  \<^verbatim>\<open>src/db/queries.py\<close> beyond the intraday candles, with the endpoints that read it: \<^verbatim>\<open>src/api/endpoints/historical.py\<close>
  and \<^verbatim>\<open>src/api/endpoints/search.py\<close>. A table is a list of rows and a statement a function on it with the meaning of its
  SQL. A \<^verbatim>\<open>DATE\<close> column holds the ISO text, whose order is the order of the days. Whether the database is connected and a
  statement succeeds is an argument; a failing read falls through to the next source as in the code.
\<close>

section \<open>Ticks\<close>

record tick_row =
  tr_time :: secs
  tr_symbol :: string
  tr_exchange :: string
  tr_ltp :: price
  tr_open :: price
  tr_high :: price
  tr_low :: price
  tr_close :: price
  tr_volume :: int
  tr_value :: "price option"
  tr_vwap :: "price option"
  tr_total_buy_qty :: "int option"
  tr_total_sell_qty :: "int option"
  tr_source :: string
  tr_latency :: rat

definition insert_tick :: "tick_row \<Rightarrow> tick_row list \<Rightarrow> tick_row list" where
  "insert_tick r tbl = tbl @ [r]"

definition insert_ticks_bulk :: "tick_row list \<Rightarrow> tick_row list \<Rightarrow> tick_row list" where
  "insert_ticks_bulk rows tbl = (if rows = [] then tbl else foldl (\<lambda>t r. insert_tick r t) tbl rows)"

record ohlcv_row =
  oh_bucket :: secs
  oh_symbol :: string
  oh_exchange :: string
  oh_open :: price
  oh_high :: price
  oh_low :: price
  oh_close :: price
  oh_volume :: int
  oh_value :: "price option"
  oh_vwap :: "price option"

text \<open>\<^verbatim>\<open>sum(value)\<close> passes over nulls and is null when there is nothing else.\<close>

definition sum_present :: "rat option list \<Rightarrow> rat option" where
  "sum_present xs = (if list_all (\<lambda>x. x = None) xs then None else Some (sum_list (map (\<lambda>x. case x of None \<Rightarrow> 0 | Some v \<Rightarrow> v) xs)))"

text \<open>One group of the candle query; \<open>g\<close> is its rows in the order of time.\<close>

definition ohlcv_group :: "string \<Rightarrow> string \<Rightarrow> secs \<Rightarrow> tick_row list \<Rightarrow> ohlcv_row" where
  "ohlcv_group sm exch t g =
     \<lparr>oh_bucket = t, oh_symbol = sm, oh_exchange = exch, oh_open = tr_ltp (hd g), oh_high = foldl max (tr_ltp (hd g)) (map tr_ltp (tl g)),
      oh_low = foldl min (tr_ltp (hd g)) (map tr_ltp (tl g)), oh_close = tr_ltp (last g), oh_volume = sum_list (map tr_volume g),
      oh_value = sum_present (map tr_value g), oh_vwap = tr_vwap (last g)\<rparr>"

text \<open>\<open>w\<close> is the interval in seconds, a divisor of the day, so that buckets start at multiples of it.\<close>

definition get_ohlcv_candles :: "string \<Rightarrow> string \<Rightarrow> rat \<Rightarrow> secs \<Rightarrow> secs \<Rightarrow> tick_row list \<Rightarrow> ohlcv_row list" where
  "get_ohlcv_candles sm exch w t0 t1 tbl =
     (let rows = sort_key tr_time (filter (\<lambda>r. tr_symbol r = sm \<and> tr_exchange r = exch \<and> t0 \<le> tr_time r \<and> tr_time r \<le> t1) tbl);
          b = (\<lambda>r. \<lfloor>tr_time r / w\<rfloor>)
      in map (\<lambda>j. ohlcv_group sm exch (of_int j * w) (filter (\<lambda>r. b r = j) rows)) (sort (remdups (map b rows))))"

section \<open>End-of-day rows\<close>

definition eod_key :: "eod_data \<Rightarrow> string \<times> string \<times> string" where
  "eod_key e = (eod_date e, eod_symbol e, eod_exchange e)"

definition upsert_eod :: "eod_data list \<Rightarrow> eod_data \<Rightarrow> eod_data list" where
  "upsert_eod tbl e = upsert_by eod_key tbl e"

definition eod_of :: "string \<Rightarrow> string \<Rightarrow> eod_data \<Rightarrow> bool" where
  "eod_of sm exch e \<longleftrightarrow> eod_symbol e = sm \<and> eod_exchange e = exch"

definition get_eod_range :: "string \<Rightarrow> string \<Rightarrow> string \<Rightarrow> string \<Rightarrow> eod_data list \<Rightarrow> eod_data list" where
  "get_eod_range sm exch d0 d1 tbl = sort_key eod_date (filter (\<lambda>e. eod_of sm exch e \<and> d0 \<le> eod_date e \<and> eod_date e \<le> d1) tbl)"

definition get_latest_eod :: "string \<Rightarrow> string \<Rightarrow> eod_data list \<Rightarrow> eod_data option" where
  "get_latest_eod sm exch tbl =
     (case rev (sort_key eod_date (filter (eod_of sm exch) tbl)) of [] \<Rightarrow> None | e # _ \<Rightarrow> Some e)"

section \<open>Instruments\<close>

record instrument =
  in_symbol :: string
  in_isin :: "string option"
  in_name :: string
  in_exchange :: string
  in_series :: "string option"
  in_sector :: "string option"
  in_industry :: "string option"
  in_lot_size :: int
  in_face_value :: "price option"
  in_listing :: "string option"
  in_active :: bool
  in_updated :: secs

text \<open>The conflict clause leaves the listing date of the stored row.\<close>

definition upsert_instrument :: "secs \<Rightarrow> instrument list \<Rightarrow> instrument \<Rightarrow> instrument list" where
  "upsert_instrument now tbl i =
     (let r = i\<lparr>in_updated := now\<rparr>
      in case row_by in_symbol (in_symbol i) tbl of
           None \<Rightarrow> upsert_by in_symbol tbl r
         | Some old \<Rightarrow> upsert_by in_symbol tbl (r\<lparr>in_listing := in_listing old\<rparr>))"

text \<open>\<^verbatim>\<open>LIKE\<close>: \<^verbatim>\<open>%\<close> is any text, \<^verbatim>\<open>_\<close> any character, a backslash quotes the next one; \<^verbatim>\<open>ILIKE\<close> ignores the case of
  the ASCII letters.\<close>

fun like :: "string \<Rightarrow> string \<Rightarrow> bool" where
  "like [] s = (s = [])"
| "like (p # ps) s =
     (if p = CHR ''%'' then like ps s \<or> (case s of [] \<Rightarrow> False | c # cs \<Rightarrow> like (p # ps) cs)
      else if p = CHR 92 then
        (case (ps, s) of (q # qs, c # cs) \<Rightarrow> q = c \<and> like qs cs | _ \<Rightarrow> False)
      else (case s of [] \<Rightarrow> False | c # cs \<Rightarrow> (p = CHR ''_'' \<or> p = c) \<and> like ps cs))"

definition ilike :: "string \<Rightarrow> string \<Rightarrow> bool" where
  "ilike p s = like (lower p) (lower s)"

definition search_instruments :: "string \<Rightarrow> nat \<Rightarrow> instrument list \<Rightarrow> instrument list" where
  "search_instruments q limit tbl =
     take limit (sort_key in_symbol (filter (\<lambda>i. (ilike (''%'' @ q @ ''%'') (in_symbol i) \<or> ilike (''%'' @ q @ ''%'') (in_name i)) \<and> in_active i) tbl))"

section \<open>Dates of a request\<close>

text \<open>\<^verbatim>\<open>strptime\<close> with the formats that carry a time. Letters match in either case; an offset with seconds is not modelled.\<close>

definition strptime_zone :: "string \<Rightarrow> int option option" where
  "strptime_zone z =
     (case z of
        [] \<Rightarrow> Some None
      | c # r \<Rightarrow>
          if z = ''Z'' then Some (Some 0)
          else (let ds = filter (\<lambda>x. x \<noteq> CHR '':'') r
                in if (c = CHR ''+'' \<or> c = CHR ''-'') \<and> length ds = 4 \<and> (r = ds \<or> r = take 2 ds @ '':'' @ drop 2 ds)
                   then (case (digits_val 0 (take 2 ds), digits_val 0 (drop 2 ds)) of
                           (Some h, Some m) \<Rightarrow> if h < 24 \<and> m < 60
                              then Some (Some ((if c = CHR ''-'' then - 1 else 1) * (h * 60 + m))) else None
                         | _ \<Rightarrow> None)
                   else None))"

definition strptime_clock :: "string \<Rightarrow> int option" where
  "strptime_clock s =
     (case split_on (CHR '':'') s of
        [h, m, sec] \<Rightarrow>
          (case (digits h 1 2, digits m 1 2, digits sec 1 2) of
             (Some a, Some b, Some c) \<Rightarrow>
               if a < 24 \<and> b < 60 \<and> c < 60 then Some (us_of a b + c * 1000000) else None
           | _ \<Rightarrow> None)
      | _ \<Rightarrow> None)"

definition strptime_stamp :: "string \<Rightarrow> datetime option" where
  "strptime_stamp s =
     (case split_on (CHR ''T'') (map (\<lambda>c. if c = CHR ''t'' then CHR ''T'' else c) s) of
        [d, t] \<Rightarrow>
          (let hms = takeWhile (\<lambda>c. c \<notin> set ''+-Z'') t
           in case (strptime_day d, strptime_clock hms, strptime_zone (drop (length hms) t)) of
                (Some d1, Some u, Some z) \<Rightarrow> Some \<lparr>dt_date = d1, dt_us = u, dt_tz = z\<rparr>
              | _ \<Rightarrow> None)
      | _ \<Rightarrow> None)"

definition parse_datetime :: "string \<Rightarrow> http_error + datetime" where
  "parse_datetime s =
     (case strptime_day s of
        Some d \<Rightarrow> Inr \<lparr>dt_date = d, dt_us = 0, dt_tz = None\<rparr>
      | None \<Rightarrow> (case strptime_stamp s of
           Some t \<Rightarrow> Inr t
         | None \<Rightarrow> (case fromisoformat s of Some t \<Rightarrow> Inr t | None \<Rightarrow> Inl 400)))"

definition default_days :: "(string \<times> int) list" where
  "default_days = [(''1m'', 1), (''5m'', 5), (''15m'', 10), (''30m'', 15), (''1h'', 30), (''4h'', 60), (''1d'', 365), (''1w'', 365 * 3)]"

definition default_start :: "string \<Rightarrow> datetime \<Rightarrow> http_error + datetime" where
  "default_start interval t =
     (case add_days (- (case map_of default_days interval of None \<Rightarrow> 365 | Some n \<Rightarrow> n)) (dt_date t) of
        None \<Rightarrow> Inl 500 | Some d \<Rightarrow> Inr (t\<lparr>dt_date := d\<rparr>))"

section \<open>The historical endpoint\<close>

datatype stamp = At secs | Text string

record hist_candle =
  hq_stamp :: stamp
  hq_open :: val
  hq_high :: val
  hq_low :: val
  hq_close :: val
  hq_volume :: val
  hq_value :: "rat option"
  hq_vwap :: "rat option"

record hist_reply =
  hy_symbol :: string
  hy_exchange :: string
  hy_interval :: string
  hy_source :: string
  hy_count :: nat
  hy_data :: "hist_candle list"

definition nonzero :: "rat option \<Rightarrow> rat option" where
  "nonzero x = (if x = Some 0 then None else x)"

definition candle_of_eod :: "eod_data \<Rightarrow> hist_candle" where
  "candle_of_eod e = \<lparr>hq_stamp = Text (eod_date e), hq_open = VNum (eod_open e), hq_high = VNum (eod_high e), hq_low = VNum (eod_low e),
     hq_close = VNum (eod_close e), hq_volume = VInt (eod_volume e), hq_value = nonzero (eod_value e), hq_vwap = nonzero (eod_vwap e)\<rparr>"

definition candle_of_ohlcv :: "ohlcv_row \<Rightarrow> hist_candle" where
  "candle_of_ohlcv o1 = \<lparr>hq_stamp = At (oh_bucket o1), hq_open = VNum (oh_open o1), hq_high = VNum (oh_high o1), hq_low = VNum (oh_low o1),
     hq_close = VNum (oh_close o1), hq_volume = VInt (oh_volume o1), hq_value = nonzero (oh_value o1), hq_vwap = nonzero (oh_vwap o1)\<rparr>"

definition candle_of_hrow :: "hrow \<Rightarrow> hist_candle" where
  "candle_of_hrow r = \<lparr>hq_stamp = Text (case hr_bucket r of Some b \<Rightarrow> b | None \<Rightarrow> (case hr_date r of Some d \<Rightarrow> d | None \<Rightarrow> [])),
     hq_open = hr_open r, hq_high = hr_high r, hq_low = hr_low r, hq_close = hr_close r, hq_volume = hr_volume r,
     hq_value = None, hq_vwap = None\<rparr>"

definition bucket_width :: "(string \<times> rat) list" where
  "bucket_width = [(''1m'', 60), (''5m'', 300), (''15m'', 900), (''30m'', 1800), (''1h'', 3600), (''4h'', 14400)]"

record hist_db =
  hb_connected :: bool
  hb_ok :: bool
  hb_ticks :: "tick_row list"
  hb_eod :: "eod_data list"

text \<open>The stored candles; a naive bound makes the driver refuse the tick query, and a refused query reads as nothing.\<close>

definition stored_candles :: "hist_db \<Rightarrow> string \<Rightarrow> string \<Rightarrow> string \<Rightarrow> datetime \<Rightarrow> datetime \<Rightarrow> hist_candle list" where
  "stored_candles db sm exch interval t0 t1 =
     (if \<not> hb_connected db \<or> \<not> hb_ok db then []
      else case map_of bucket_width interval of
        None \<Rightarrow> map candle_of_eod (get_eod_range sm exch (date_text (dt_date t0)) (date_text (dt_date t1)) (hb_eod db))
      | Some w \<Rightarrow>
          (case (timestamp_us t0, timestamp_us t1) of
             (Some a, Some b) \<Rightarrow> map candle_of_ohlcv (get_ohlcv_candles sm exch w (of_int a / 1000000) (of_int b / 1000000) (hb_ticks db))
           | _ \<Rightarrow> []))"

definition request_window :: "datetime \<Rightarrow> string \<Rightarrow> string option \<Rightarrow> string option \<Rightarrow> http_error + datetime \<times> datetime" where
  "request_window now interval from till =
     (case (case till of Some (c # cs) \<Rightarrow> parse_datetime (c # cs) | _ \<Rightarrow> Inr now) of
        Inl e \<Rightarrow> Inl e
      | Inr t1 \<Rightarrow> (case (case from of Some (c # cs) \<Rightarrow> parse_datetime (c # cs) | _ \<Rightarrow> default_start interval t1) of
           Inl e \<Rightarrow> Inl e | Inr t0 \<Rightarrow> Inr (t0, t1)))"

definition get_historical :: "(string \<times> string \<times> string \<Rightarrow> (string \<times> string) option \<Rightarrow> hrow list option) \<Rightarrow> hist_db \<Rightarrow> datetime \<Rightarrow>
    string \<Rightarrow> string \<Rightarrow> string \<Rightarrow> string option \<Rightarrow> string option \<Rightarrow> nat \<Rightarrow> http_error + hist_reply" where
  "get_historical yahoo db now sm exch interval from till limit =
     (let s = upper (strip sm)
      in case request_window now interval from till of
           Inl e \<Rightarrow> Inl e
         | Inr (t0, t1) \<Rightarrow>
             (let stored = stored_candles db s exch interval t0 t1;
                  (cs, src) = (if stored \<noteq> [] then (stored, ''timescaledb'')
                    else (map candle_of_hrow (get_history yahoo s exch interval (Some (isoformat t0, isoformat t1)) (Some limit)), ''yahoo_finance''));
                  out = take limit cs
              in Inr \<lparr>hy_symbol = s, hy_exchange = exch, hy_interval = interval, hy_source = src, hy_count = length out, hy_data = out\<rparr>))"

datatype eod_reply = StoredEod eod_data | YahooEod string string hrow

definition get_eod :: "(string \<times> string \<times> string \<Rightarrow> (string \<times> string) option \<Rightarrow> hrow list option) \<Rightarrow> hist_db \<Rightarrow>
    string \<Rightarrow> string \<Rightarrow> http_error + eod_reply" where
  "get_eod yahoo db sm exch =
     (let s = upper (strip sm)
      in case (if hb_connected db \<and> hb_ok db then get_latest_eod s exch (hb_eod db) else None) of
           Some e \<Rightarrow> Inr (StoredEod e)
         | None \<Rightarrow> (case get_history yahoo s exch ''1d'' None (Some 1) of
              [] \<Rightarrow> Inl 404 | r # rs \<Rightarrow> Inr (YahooEod s exch (last (r # rs)))))"

section \<open>The search endpoint\<close>

definition nifty_50_symbols :: "string list" where
  "nifty_50_symbols =
     [''ADANIENTERP'', ''ADANIPORTS'', ''APOLLOHOSP'', ''ASIANPAINT'', ''AXISBANK'', ''BAJAJ-AUTO'', ''BAJFINANCE'', ''BAJAJFINSV'', ''BEL'', ''BPCL'',
      ''BHARTIARTL'', ''BRITANNIA'', ''CIPLA'', ''COALINDIA'', ''DRREDDY'', ''EICHERMOT'', ''ETERNAL'', ''GRASIM'', ''HCLTECH'', ''HDFCBANK'',
      ''HDFCLIFE'', ''HEROMOTOCO'', ''HINDALCO'', ''HINDUNILVR'', ''ICICIBANK'', ''ITC'', ''INDUSINDBK'', ''INFY'', ''JSWSTEEL'', ''KOTAKBANK'',
      ''LT'', ''M&M'', ''MARUTI'', ''NTPC'', ''NESTLEIND'', ''ONGC'', ''POWERGRID'', ''RELIANCE'', ''SBILIFE'', ''SBIN'',
      ''SUNPHARMA'', ''TCS'', ''TATACONSUM'', ''TATAMOTORS'', ''TATASTEEL'', ''TECHM'', ''TITAN'', ''TRENT'', ''ULTRACEMCO'', ''WIPRO'']"

definition nifty_100_additional :: "string list" where
  "nifty_100_additional =
     [''ABB'', ''ABBOTINDIA'', ''ADANIGREEN'', ''ADANIPOWER'', ''AMBUJACEM'', ''ATGL'', ''AUROPHARMA'', ''BAJAJHLDNG'', ''BANKBARODA'', ''BERGEPAINT'',
      ''BOSCHLTD'', ''CANBK'', ''CHOLAFIN'', ''COLPAL'', ''DLF'', ''DABUR'', ''DIVISLAB'', ''GAIL'', ''GODREJCP'', ''HAVELLS'',
      ''HDFC'', ''ICICIGI'', ''ICICIPRULI'', ''IDFC'', ''IDFCFIRSTB'', ''INDIGO'', ''IOC'', ''IRCTC'', ''JIOFIN'', ''JINDALSTEL'',
      ''LICI'', ''LUPIN'', ''MAXHEALTH'', ''MOTHERSON'', ''NAUKRI'', ''PEL'', ''PIDILITIND'', ''PNB'', ''POLYCAB'', ''RECLTD'',
      ''SAIL'', ''SRF'', ''SHREECEM'', ''SHRIRAMFIN'', ''SIEMENS'', ''TORNTPHARM'', ''TVSMOTOR'', ''UNITDSPR'', ''VEDL'', ''ZYDUSLIFE'']"

definition builtin_universe :: "string list" where
  "builtin_universe = sort (remdups (nifty_50_symbols @ nifty_100_additional))"

datatype search_hit = Stored instrument | Builtin string

text \<open>\<open>stored\<close> is the instrument table of a connected database whose query succeeds.\<close>

definition search_endpoint :: "instrument list option \<Rightarrow> string \<Rightarrow> nat \<Rightarrow> search_hit list" where
  "search_endpoint stored q limit =
     (case (case stored of None \<Rightarrow> [] | Some tbl \<Rightarrow> search_instruments q limit tbl) of
        [] \<Rightarrow> map Builtin (take limit (filter (\<lambda>s. contains_text s (upper (strip q))) builtin_universe))
      | hits \<Rightarrow> map Stored hits)"

section \<open>End-of-day reads\<close>

interpretation eods: keyed_table upsert_eod "row_by eod_key" eod_key
  by unfold_locales (simp add: upsert_eod_def row_by_upsert)

definition eod_table :: "eod_data list \<Rightarrow> eod_data list" where
  "eod_table es = foldl upsert_eod [] es"

lemma upsert_by_keys: "map key (upsert_by key tbl r) = (if key r \<in> set (map key tbl) then map key tbl else map key tbl @ [key r])"
  by (auto simp: upsert_by_def)

lemma eod_table_keys: "distinct (map eod_key (eod_table es))"
  unfolding eod_table_def by (induction es rule: rev_induct) (simp_all add: upsert_eod_def upsert_by_keys del: map_map)

lemma row_by_distinct: "distinct (map key tbl) \<Longrightarrow> row_by key (key r) tbl = Some r \<longleftrightarrow> r \<in> set tbl"
  by (induction tbl) (auto simp: row_by_def image_iff)

text \<open>A row is in the table when it is the latest one written under its key.\<close>

definition latest_write :: "eod_data list \<Rightarrow> eod_data \<Rightarrow> bool" where
  "latest_write es e \<longleftrightarrow> find (\<lambda>r. eod_key r = eod_key e) (rev es) = Some e"

lemma eod_table_mem: "e \<in> set (eod_table es) \<longleftrightarrow> latest_write es e"
  using row_by_distinct[OF eod_table_keys, of e es] eods.get_puts[of "eod_key e" "[]" es]
  by (auto simp: eod_table_def latest_write_def row_by_def[of _ _ "[]"] split: option.splits)

lemma sorted_dates: "sorted (map eod_date (sort_key eod_date es))"
  by simp

lemma strict_dates:
  assumes "distinct (map eod_key es)" "\<And>e. e \<in> set es \<Longrightarrow> eod_of sm exch e"
  shows "sorted_wrt (<) (map eod_date (sort_key eod_date es))"
proof -
  have inj: "inj_on eod_date (set es)"
  proof (rule inj_onI)
    fix a b assume ab: "a \<in> set es" "b \<in> set es" "eod_date a = eod_date b"
    then have "eod_key a = eod_key b" using assms(2)[of a] assms(2)[of b] by (simp add: eod_key_def eod_of_def)
    then show "a = b" using assms(1) ab(1,2) by (auto simp: distinct_map inj_on_def)
  qed
  then have "distinct (map eod_date (sort_key eod_date es))"
    using assms(1) by (simp add: distinct_map)
  then show ?thesis using sorted_dates[of es] by (simp add: strict_sorted_iff)
qed

lemma latest_eod_iff:
  assumes "distinct (map eod_key tbl)"
  shows "get_latest_eod sm exch tbl = Some e \<longleftrightarrow> e \<in> set tbl \<and> eod_of sm exch e \<and>
    list_all (\<lambda>x. eod_date x \<le> eod_date e) (filter (eod_of sm exch) tbl)"
proof -
  let ?f = "filter (eod_of sm exch) tbl"
  let ?s = "sort_key eod_date ?f"
  have strict: "sorted_wrt (<) (map eod_date ?s)"
    using assms by (intro strict_dates[of _ sm exch]) (simp_all add: distinct_map inj_on_def)
  show ?thesis
  proof (cases "?s" rule: rev_cases)
    case Nil
    then have "?f = []" by (metis length_0_conv length_sort)
    then show ?thesis using Nil by (auto simp: get_latest_eod_def filter_empty_conv)
  next
    case (snoc xs a)
    have set: "set ?f = insert a (set xs)" using snoc by (metis list.set(1) list.simps(15) set_append set_sort Un_insert_right sup_bot.right_neutral)
    have less: "eod_date x < eod_date a" if "x \<in> set xs" for x
      using strict that by (simp add: snoc sorted_wrt_append)
    have "get_latest_eod sm exch tbl = Some a" by (simp add: get_latest_eod_def snoc)
    moreover have "e \<in> set tbl \<and> eod_of sm exch e \<longleftrightarrow> e \<in> set ?f" by auto
    moreover have "list_all (\<lambda>x. eod_date x \<le> eod_date e) ?f \<longleftrightarrow> e = a" if "e \<in> set ?f"
      using that less unfolding list_all_iff set by fastforce
    moreover have "a \<in> set ?f" unfolding set by simp
    ultimately show ?thesis by (metis option.inject)
  qed
qed

lemma eod_days_strict: "sorted_wrt (<) (map eod_date (get_eod_range sm exch d0 d1 (eod_table es)))"
  unfolding get_eod_range_def using eod_table_keys[of es]
  by (intro strict_dates[of _ sm exch]) (simp_all add: distinct_map inj_on_def)

text \<open>C16: Reading end-of-day data gives the latest writes: a range holds exactly the rows of the symbol, venue and days whose
  write was the last under its key, one row per day in ascending order, and the latest row is the one of the greatest
  day, whatever was written before in whatever order.\<close>

theorem eod_reads_latest_writes:
  "(e \<in> set (get_eod_range sm exch d0 d1 (eod_table es)) \<longleftrightarrow>
      eod_of sm exch e \<and> d0 \<le> eod_date e \<and> eod_date e \<le> d1 \<and> latest_write es e) \<and>
   sorted_wrt (<) (map eod_date (get_eod_range sm exch d0 d1 (eod_table es))) \<and>
   (get_latest_eod sm exch (eod_table es) = Some e \<longleftrightarrow>
      latest_write es e \<and> eod_of sm exch e \<and> list_all (\<lambda>x. eod_date x \<le> eod_date e) (filter (eod_of sm exch) (eod_table es)))"
  using latest_eod_iff[OF eod_table_keys] eod_days_strict by (auto simp: get_eod_range_def eod_table_mem)

section \<open>Searching\<close>

text \<open>A query without \<^verbatim>\<open>%\<close>, \<^verbatim>\<open>_\<close> and backslash.\<close>

definition plain_char :: "char \<Rightarrow> bool" where
  "plain_char c \<longleftrightarrow> c \<noteq> CHR ''%'' \<and> c \<noteq> CHR ''_'' \<and> c \<noteq> CHR 92"

lemma like_any [simp]: "like [CHR ''%''] s"
  by (induction s) simp_all

lemma like_prefix: "list_all plain_char q \<Longrightarrow> like (q @ ''%'') s = starts_with s q"
proof (induction q arbitrary: s)
  case Nil
  then show ?case by (simp del: like.simps)
next
  case (Cons c q)
  then have "c \<noteq> CHR ''%''" "c \<noteq> CHR ''_''" "c \<noteq> CHR 92" by (simp_all add: plain_char_def)
  then have "like ((c # q) @ ''%'') s = (case s of [] \<Rightarrow> False | d # ds \<Rightarrow> c = d \<and> like (q @ ''%'') ds)" by (cases s) simp_all
  then show ?case using Cons by (cases s) auto
qed

lemma like_contains: "list_all plain_char q \<Longrightarrow> like (''%'' @ q @ ''%'') s = contains_text s q"
proof (induction s)
  case Nil
  have "like (''%'' @ q @ ''%'') [] = like (q @ ''%'') []" by simp
  also have "\<dots> = (q = [])" using like_prefix[OF Nil, of "[]"] by (cases q) simp_all
  finally show ?case by simp
next
  case (Cons c s)
  have "like (''%'' @ q @ ''%'') (c # s) = (like (q @ ''%'') (c # s) \<or> like (''%'' @ q @ ''%'') s)" by simp
  then show ?case using Cons by (simp add: like_prefix del: like.simps)
qed

lemma lower_char_plain: "plain_char (lower_char c) = plain_char c"
proof (cases "CHR ''A'' \<le> c \<and> c \<le> CHR ''Z''")
  case True
  then have n: "65 \<le> (of_char c :: nat)" "(of_char c :: nat) \<le> 90" by (simp_all add: less_eq_char_def)
  then have "(of_char (lower_char c) :: nat) = of_char c + 32" using True by (simp add: lower_char_def)
  with n have "plain_char (lower_char c)" "plain_char c" by (auto simp: plain_char_def)
  then show ?thesis by simp
next
  case False
  then have "lower_char c = c" unfolding lower_char_def by (rule if_not_P)
  then show ?thesis by simp
qed

lemma ilike_contains: "list_all plain_char q \<Longrightarrow> ilike (''%'' @ q @ ''%'') s = contains_text (lower s) (lower q)"
  using like_contains[of "lower q" "lower s"]
  by (simp add: ilike_def lower_def lower_char_plain list_all_iff lower_char_def[of "CHR ''%''"] del: like.simps)

text \<open>A search for a text without pattern characters finds exactly the active instruments whose symbol or name contains
  it, ignoring case, in symbol order and cut at the limit.\<close>

theorem search_is_substring:
  assumes "list_all plain_char q"
  shows "search_instruments q limit tbl =
    take limit (sort_key in_symbol (filter (\<lambda>i. in_active i \<and>
      (contains_text (lower (in_symbol i)) (lower q) \<or> contains_text (lower (in_name i)) (lower q))) tbl))"
  unfolding search_instruments_def ilike_contains[OF assms] by (simp add: conj_commute)

theorem search_is_substring_witness:
  "search_instruments ''tat'' 5 [\<lparr>in_symbol = ''TATASTEEL'', in_isin = None, in_name = ''Tata Steel'', in_exchange = ''NSE'', in_series = None,
     in_sector = None, in_industry = None, in_lot_size = 1, in_face_value = None, in_listing = None, in_active = False, in_updated = 0\<rparr>] = []"
proof -
  have "list_all plain_char ''tat''" by (simp add: plain_char_def)
  from search_is_substring[OF this] show ?thesis by simp
qed

text \<open>The pattern characters of a query are not quoted: a percent sign, or an underscore, matches every instrument.\<close>

lemma like_skip: "like ps s \<Longrightarrow> like (CHR ''%'' # ps) s"
  by (cases s) simp_all

lemma search_percent: "ilike (''%'' @ ''%'' @ ''%'') s"
proof -
  have l: "lower (''%'' @ ''%'' @ ''%'') = ''%%%''" by (simp add: lower_def lower_char_def)
  have "like ''%%%'' (lower s)" by (intro like_skip like_any)
  then show ?thesis unfolding ilike_def l .
qed

section \<open>Limits\<close>

text \<open>Over stored end-of-day data the endpoint's limit keeps the oldest candles of the window and drops the newest, while
  the backfill path keeps the newest.\<close>

theorem historical_limit_keeps_oldest:
  assumes "get_historical yahoo db now sm exch interval from till limit = Inr r" "hb_connected db" "hb_ok db"
    and "interval = ''1d'' \<or> interval = ''1w''" "hb_eod db = eod_table es"
    and "request_window now interval from till = Inr (t0, t1)"
    and "rows = get_eod_range (upper (strip sm)) exch (date_text (dt_date t0)) (date_text (dt_date t1)) (hb_eod db)" "rows \<noteq> []"
  shows "hy_data r = map candle_of_eod (take limit rows) \<and> hy_source r = ''timescaledb'' \<and>
    (a \<in> set (take limit rows) \<and> b \<in> set (drop limit rows) \<longrightarrow> eod_date a < eod_date b)"
proof -
  have "map_of bucket_width interval = None" using assms(4) by (auto simp: bucket_width_def)
  then have s: "stored_candles db (upper (strip sm)) exch interval t0 t1 = map candle_of_eod rows"
    using assms(2,3,7) by (simp add: stored_candles_def)
  then have "hy_data r = map candle_of_eod (take limit rows)" "hy_source r = ''timescaledb''"
    using assms(1,6,8) by (auto simp: get_historical_def Let_def take_map)
  moreover have "eod_date a < eod_date b" if "a \<in> set (take limit rows)" "b \<in> set (drop limit rows)"
  proof -
    have "sorted_wrt (<) (map eod_date (take limit rows @ drop limit rows))"
      using eod_days_strict[of "upper (strip sm)" exch _ _ es] assms(5,7) by simp
    with that show ?thesis unfolding map_append sorted_wrt_append by simp
  qed
  ultimately show ?thesis by blast
qed

definition demo_eod :: "string \<Rightarrow> eod_data" where
  "demo_eod d = \<lparr>eod_date = d, eod_symbol = ''TCS'', eod_exchange = ''NSE'', eod_open = 10, eod_high = 12, eod_low = 9, eod_close = 11, eod_vwap = None,
     eod_volume = 100, eod_value = None, eod_delivery_qty = None, eod_delivery_pct = None, eod_trades = None\<rparr>"

definition demo_hist_db :: hist_db where
  "demo_hist_db = \<lparr>hb_connected = True, hb_ok = True, hb_ticks = [], hb_eod = eod_table [demo_eod ''2026-01-06'', demo_eod ''2026-01-05'']\<rparr>"

theorem historical_limit_keeps_oldest_witness:
  "\<exists>r. get_historical (\<lambda>_ _. None) demo_hist_db demo_stamp ''tcs'' ''NSE'' ''1d'' (Some ''2026-01-01'') (Some ''2026-01-31'') 1 = Inr r \<and>
     hy_data r = [candle_of_eod (demo_eod ''2026-01-05'')]"
proof -
  have w: "request_window demo_stamp ''1d'' (Some ''2026-01-01'') (Some ''2026-01-31'') =
      Inr (\<lparr>dt_date = mk_date 2026 1 1, dt_us = 0, dt_tz = None\<rparr>, \<lparr>dt_date = mk_date 2026 1 31, dt_us = 0, dt_tz = None\<rparr>)"
    by code_simp
  obtain r where r: "get_historical (\<lambda>_ _. None) demo_hist_db demo_stamp ''tcs'' ''NSE'' ''1d'' (Some ''2026-01-01'') (Some ''2026-01-31'') 1 = Inr r"
    by (simp add: get_historical_def w Let_def split_beta)
  have rows: "get_eod_range (upper (strip ''tcs'')) ''NSE'' (date_text (mk_date 2026 1 1)) (date_text (mk_date 2026 1 31)) (hb_eod demo_hist_db) =
      [demo_eod ''2026-01-05'', demo_eod ''2026-01-06'']"
    by code_simp
  from historical_limit_keeps_oldest[OF r _ _ _ _ w, of "[demo_eod ''2026-01-06'', demo_eod ''2026-01-05'']" "[demo_eod ''2026-01-05'', demo_eod ''2026-01-06'']"] rows r
  show ?thesis by (simp add: demo_hist_db_def)
qed

end
