(* ===== verification/QuoteApi.thy ===== *)
theory QuoteApi
  imports Database "HOL-Library.Sublist"
begin

text \<open>
  The public quote and market endpoints: \<^verbatim>\<open>src/api/endpoints/quotes.py\<close> and \<^verbatim>\<open>src/api/endpoints/market.py\<close>. They compose
  the tick cache, the shared provider stack and the end-of-day table. The state is the provider controller, the cache and
  the ticks whose background write to the cache was started; the clock of every read, the state of the market and what
  the providers answer are arguments. A status code stands for the \<^verbatim>\<open>HTTPException\<close>, 500 for an exception that is not
  caught, and \<open>Dropped\<close> for a request that was cancelled.
\<close>

record api_state =
  ap_ctl :: controller
  ap_cache :: cache
  ap_writes :: "tick list"

datatype 'a reply_of = Reply 'a | Fail http_error | Dropped

record meta =
  mt_source :: string
  mt_latency :: rat
  mt_age :: rat
  mt_quality :: string
  mt_refresh :: "datetime option"
  mt_tier :: nat

record quote_reply =
  rp_quote :: full_quote
  rp_meta :: meta

definition realtime_quality :: string where "realtime_quality = ''REAL_TIME''"
definition eod_quality :: string where "eod_quality = ''END_OF_DAY''"
definition stale_quality :: string where "stale_quality = ''STALE''"

type_synonym api_env = "string \<Rightarrow> string \<Rightarrow> tick attempt"

text \<open>\<^verbatim>\<open>market_data_service.get_quote_through\<close> as the endpoints call it: never pinned to an exchange.\<close>

definition ask_live :: "api_env \<Rightarrow> string \<Rightarrow> string \<Rightarrow> string option \<Rightarrow> bool \<Rightarrow> bool \<Rightarrow> api_state \<Rightarrow> through_result \<times> api_state" where
  "ask_live env sm exch source wc excl st =
     (case get_quote_through env sm exch source wc excl False (ap_ctl st) of
        (r, c, w) \<Rightarrow> (r, st\<lparr>ap_ctl := c, ap_writes := ap_writes st @ (case w of None \<Rightarrow> [] | Some t \<Rightarrow> [t])\<rparr>))"

definition tick_meta :: "string \<Rightarrow> rat \<Rightarrow> datetime option \<Rightarrow> tick \<Rightarrow> meta" where
  "tick_meta quality lat refresh t =
     \<lparr>mt_source = tk_source t, mt_latency = lat, mt_age = 0, mt_quality = quality, mt_refresh = refresh, mt_tier = 1\<rparr>"

text \<open>The metadata of a cached hash; \<open>None\<close> is an exception or a value the response model refuses.\<close>

definition hash_refresh :: "fields \<Rightarrow> datetime option option" where
  "hash_refresh h =
     (case map_of h ''timestamp'' of
        None \<Rightarrow> Some None
      | Some (TimeTxt t) \<Rightarrow> Some (Some t)
      | Some (Txt s) \<Rightarrow> map_option Some (fromisoformat s)
      | Some _ \<Rightarrow> None)"

definition hash_meta :: "rat \<Rightarrow> fields \<Rightarrow> meta option" where
  "hash_meta age h =
     (case (str_field ''source'' ''unknown'' h, num_text (field_or ''source_latency_ms'' (IntTxt 0) h), hash_refresh h) of
        (Some src, Some lat, Some ref) \<Rightarrow>
          if lat < 0 \<or> age < 0 then None
          else Some \<lparr>mt_source = src, mt_latency = lat, mt_age = age,
            mt_quality = (if age < 5000 then realtime_quality else stale_quality), mt_refresh = ref, mt_tier = 1\<rparr>
      | _ \<Rightarrow> None)"

definition realtime_quote :: "api_env \<Rightarrow> (nat \<Rightarrow> secs) \<Rightarrow> string \<Rightarrow> string \<Rightarrow> api_state \<Rightarrow> quote_reply reply_of \<times> api_state" where
  "realtime_quote env clk sm exch st =
     (case get_tick (clk 0) sm exch (ap_cache st) of
        (Some h, s1) \<Rightarrow>
          (case get_tick_age_ms (clk 1) (clk 2) sm exch s1 of
             (Inl e, s2) \<Rightarrow> (Fail 500, st\<lparr>ap_cache := s2\<rparr>)
           | (Inr age, s2) \<Rightarrow>
               (case (build_quote_from_cache h, hash_meta (case age of None \<Rightarrow> 0 | Some x \<Rightarrow> x) h) of
                  (Some q, Some m) \<Rightarrow> Reply \<lparr>rp_quote = q, rp_meta = m\<rparr>
                | _ \<Rightarrow> Fail 500, st\<lparr>ap_cache := s2\<rparr>))
      | (None, s1) \<Rightarrow>
          (case ask_live env sm exch None True True (st\<lparr>ap_cache := s1\<rparr>) of
             (Quote (Some t), st') \<Rightarrow> (Reply \<lparr>rp_quote = build_quote_from_tick t,
                rp_meta = tick_meta realtime_quality (tk_latency_ms t) (Some (tk_timestamp t)) t\<rparr>, st')
           | (Quote None, st') \<Rightarrow> (Fail 404, st')
           | (Cancelled, st') \<Rightarrow> (Dropped, st')))"

definition eod_quote_data :: "string \<Rightarrow> string \<Rightarrow> eod_data \<Rightarrow> full_quote" where
  "eod_quote_data sm exch e =
     \<lparr>fq_info = info_block sm None exch None,
      fq_price = \<lparr>qp_ltp = eod_close e, qp_open = eod_open e, qp_high = eod_high e, qp_low = eod_low e, qp_close = eod_close e,
        qp_change = 0, qp_pct_change = 0, qp_vwap = eod_vwap e, qp_upper_circuit = None, qp_lower_circuit = None,
        qp_week_52_high = None, qp_week_52_low = None\<rparr>,
      fq_volume = \<lparr>qv_volume = eod_volume e, qv_value = eod_value e, qv_delivery_quantity = eod_delivery_qty e,
        qv_delivery_percentage = eod_delivery_pct e, qv_market_cap = None\<rparr>, fq_depth = None\<rparr>"

definition plain_meta :: "string \<Rightarrow> nat \<Rightarrow> meta" where
  "plain_meta src tier = \<lparr>mt_source = src, mt_latency = 0, mt_age = 0, mt_quality = eod_quality, mt_refresh = None, mt_tier = tier\<rparr>"

definition eod_quote :: "api_env \<Rightarrow> secs \<Rightarrow> hist_db \<Rightarrow> string \<Rightarrow> string \<Rightarrow> api_state \<Rightarrow> quote_reply reply_of \<times> api_state" where
  "eod_quote env now db sm exch st =
     (case get_tick now sm exch (ap_cache st) of
        (Some h, s1) \<Rightarrow>
          (case (build_quote_from_cache h, str_field ''source'' ''cache'' h) of
             (Some q, Some src) \<Rightarrow> Reply \<lparr>rp_quote = q, rp_meta = plain_meta src 1\<rparr>
           | _ \<Rightarrow> Fail 500, st\<lparr>ap_cache := s1\<rparr>)
      | (None, s1) \<Rightarrow>
          (case (if hb_connected db \<and> hb_ok db then get_latest_eod sm exch (hb_eod db) else None) of
             Some e \<Rightarrow> (Reply \<lparr>rp_quote = eod_quote_data sm exch e, rp_meta = plain_meta ''timescaledb'' 0\<rparr>, st\<lparr>ap_cache := s1\<rparr>)
           | None \<Rightarrow>
               (case ask_live env sm exch None True True (st\<lparr>ap_cache := s1\<rparr>) of
                  (Quote (Some t), st') \<Rightarrow> (Reply \<lparr>rp_quote = build_quote_from_tick t, rp_meta = tick_meta eod_quality 0 None t\<rparr>, st')
                | (Quote None, st') \<Rightarrow> (Fail 404, st')
                | (Cancelled, st') \<Rightarrow> (Dropped, st'))))"

text \<open>\<open>opens\<close> are the answers of the two calls of \<^verbatim>\<open>is_market_open\<close>, only one of which runs.\<close>

definition get_quote :: "api_env \<Rightarrow> (nat \<Rightarrow> secs) \<Rightarrow> hist_db \<Rightarrow> bool \<Rightarrow> string \<Rightarrow> string \<Rightarrow> string \<Rightarrow> api_state \<Rightarrow> quote_reply reply_of \<times> api_state" where
  "get_quote env clk db market sm exch source st =
     (let s = upper (strip sm)
      in if source \<noteq> [] \<and> source \<noteq> ''auto''
         then (case ask_live env s exch (Some source) False False st of
             (Quote (Some t), st') \<Rightarrow> (Reply \<lparr>rp_quote = build_quote_from_tick t,
                rp_meta = tick_meta (if market then realtime_quality else eod_quality) (tk_latency_ms t) None t\<rparr>, st')
           | (Quote None, st') \<Rightarrow> (Fail 404, st')
           | (Cancelled, st') \<Rightarrow> (Dropped, st'))
         else if market then realtime_quote env clk s exch st
         else eod_quote env (clk 0) db s exch st)"

text \<open>The depth endpoint: the cached book, else the live one of the BSE with something on it.\<close>

datatype depth_reply = CachedDepth string quote_depth "field option" | LiveDepth dict

definition depth_endpoint :: "secs \<Rightarrow> bool \<Rightarrow> dict option option \<Rightarrow> string \<Rightarrow> string \<Rightarrow> api_state \<Rightarrow> depth_reply reply_of \<times> api_state" where
  "depth_endpoint now conn_ok fetched sm exch st =
     (case get_market_depth now (upper (strip sm)) exch (ap_cache st) of
        (Some h, s1) \<Rightarrow>
          (case depth_from_hash h of None \<Rightarrow> Fail 500 | Some d \<Rightarrow> Reply (CachedDepth exch d (map_of h ''updated_at'')), st\<lparr>ap_cache := s1\<rparr>)
      | (None, s1) \<Rightarrow>
          (let (r, c) = get_depth conn_ok fetched (ap_ctl st)
           in (case r of
                 Some d \<Rightarrow> if truthy_val (dget d ''buy'') \<or> truthy_val (dget d ''sell'') then Reply (LiveDepth d) else Fail 404
               | None \<Rightarrow> Fail 404, st\<lparr>ap_cache := s1, ap_ctl := c\<rparr>)))"

section \<open>Bulk quotes\<close>

record bulk_reply =
  bk_status :: string
  bk_data :: "full_quote list"
  bk_failed :: "string list"
  bk_meta :: meta

definition bulk_symbols :: "string \<Rightarrow> string list" where
  "bulk_symbols raw = take 50 (map (\<lambda>s. upper (strip s)) (filter (\<lambda>s. strip s \<noteq> []) (split_on (CHR '','') raw)))"

definition cached_quote :: "(string \<times> fields) list \<Rightarrow> string \<Rightarrow> full_quote option" where
  "cached_quote ticks s = (case map_of ticks s of None \<Rightarrow> None | Some h \<Rightarrow> build_quote_from_cache h)"

text \<open>The misses, one after the other; \<open>None\<close> when the request is cancelled.\<close>

fun fetch_misses :: "api_env \<Rightarrow> string \<Rightarrow> string list \<Rightarrow> api_state \<Rightarrow> (full_quote list \<times> string list) option \<times> api_state" where
  "fetch_misses env exch [] st = (Some ([], []), st)"
| "fetch_misses env exch (s # ss) st =
     (case ask_live env s exch None True True st of
        (Cancelled, st1) \<Rightarrow> (None, st1)
      | (Quote q, st1) \<Rightarrow>
          (case fetch_misses env exch ss st1 of
             (None, st2) \<Rightarrow> (None, st2)
           | (Some (qs, fs), st2) \<Rightarrow>
               (Some (case q of Some t \<Rightarrow> (build_quote_from_tick t # qs, fs) | None \<Rightarrow> (qs, s # fs)), st2)))"

definition bulk_quotes :: "api_env \<Rightarrow> (nat \<Rightarrow> secs) \<Rightarrow> bool \<Rightarrow> string \<Rightarrow> string \<Rightarrow> api_state \<Rightarrow> bulk_reply reply_of \<times> api_state" where
  "bulk_quotes env clk market raw exch st =
     (let syms = bulk_symbols raw
      in if syms = [] then (Fail 400, st)
         else (let (ticks, s1) = get_bulk_ticks clk syms exch (ap_cache st)
               in (case fetch_misses env exch (filter (\<lambda>s. cached_quote ticks s = None) syms) (st\<lparr>ap_cache := s1\<rparr>) of
                     (None, st2) \<Rightarrow> (Dropped, st2)
                   | (Some (qs, fs), st2) \<Rightarrow>
                       (Reply \<lparr>bk_status = (if fs = [] then ''success'' else ''partial''),
                          bk_data = List.map_filter (cached_quote ticks) syms @ qs, bk_failed = fs,
                          bk_meta = \<lparr>mt_source = ''redis_cache'', mt_latency = 0, mt_age = 0,
                            mt_quality = (if market then realtime_quality else eod_quality), mt_refresh = None, mt_tier = 1\<rparr>\<rparr>, st2))))"

section \<open>Market endpoints\<close>

text \<open>A slice \<^verbatim>\<open>xs[a:b]\<close>; negative bounds count from the end.\<close>

definition slice_bound :: "nat \<Rightarrow> int \<Rightarrow> nat" where
  "slice_bound n i = (if i < 0 then nat (max 0 (int n + i)) else min n (nat i))"

definition py_slice :: "int \<Rightarrow> int \<Rightarrow> 'a list \<Rightarrow> 'a list" where
  "py_slice a b xs = drop (slice_bound (length xs) a) (take (slice_bound (length xs) b) xs)"

record 'r page =
  pg_exchange :: string
  pg_total :: nat
  pg_count :: nat
  pg_rows :: "'r list"

definition all_stocks :: "(string \<Rightarrow> 'r list) \<Rightarrow> string \<Rightarrow> int \<Rightarrow> int \<Rightarrow> controller \<Rightarrow> 'r page \<times> controller" where
  "all_stocks snap exch limit offset c =
     (let (rows, c') = get_all_snapshot snap (upper (strip exch)) c; out = py_slice offset (offset + limit) rows
      in (\<lparr>pg_exchange = upper exch, pg_total = length rows, pg_count = length out, pg_rows = out\<rparr>, c'))"

text \<open>The index rows are those of \<^verbatim>\<open>NSEPublic.fetch_indices\<close>, whose names are text or null.\<close>

definition get_indices :: "string option \<Rightarrow> dict list \<Rightarrow> dict list" where
  "get_indices q rows =
     (case q of
        Some (c # cs) \<Rightarrow> filter (\<lambda>d. contains_text (upper (case str_val (dget d ''index'') of None \<Rightarrow> [] | Some s \<Rightarrow> s)) (upper (strip (c # cs)))) rows
      | _ \<Rightarrow> rows)"

definition toggle_source :: "string \<Rightarrow> string \<Rightarrow> controller \<Rightarrow> (http_error + bool) \<times> controller" where
  "toggle_source n action c =
     (if action \<notin> {''enable'', ''disable'', ''connect'', ''disconnect''} then (Inl 400, c)
      else (let v = (action = ''enable'' \<or> action = ''connect''); (ok, c') = set_enabled n v c
            in (if ok then Inr v else Inl 404, c')))"

section \<open>Reads after a write\<close>

lemma hgetall_keeps: "fst (hgetall now k s) \<noteq> [] \<Longrightarrow> snd (hgetall now k s) = s"
  by (auto simp: hgetall_def expired_def split: option.splits if_splits)

lemma get_tick_keeps: "fst (get_tick now sm exch s) = Some h \<Longrightarrow> get_tick now sm exch s = (Some h, s)"
  using hgetall_keeps[of now "tick_key exch sm" s]
  by (cases "hgetall now (tick_key exch sm) s") (auto simp: get_tick_def nonempty_def split: if_splits)

definition written_keys :: "tick \<Rightarrow> cache \<Rightarrow> bool" where
  "written_keys t s \<longleftrightarrow> fst ` set (raw_hash (tick_key (tk_exchange t) (tk_symbol t)) s) \<subseteq> fst ` set (tick_to_hash 0 t)"

lemma tick_to_hash_keys: "fst ` set (tick_to_hash a t) = fst ` set (tick_to_hash b t)"
  by (simp add: tick_to_hash_def)

lemma tick_hash_meta:
  assumes "map_of h = map_of (tick_to_hash c t)"
  shows "str_field ''source'' d h = Some (tk_source t)" "num_text (field_or ''source_latency_ms'' e h) = Some (tk_latency_ms t)"
    "hash_refresh h = Some (Some (tk_timestamp t))" "map_of h ''cached_at'' = Some (FloatTxt c)"
  using assms by (simp_all add: tick_to_hash_def str_field_def field_or_def num_text_def hash_refresh_def)

text \<open>C6: A quote written to the cache is served from the cache: within its time to live a realtime request for the tick's
  symbol and exchange asks no provider, returns the quote of the tick itself (an optional amount of zero reads as absent)
  with its source and latency, and is labelled real time exactly while it is less than five seconds old.\<close>

theorem quote_served_from_cache:
  assumes "tk_exchange t = ''NSE'' \<or> tk_exchange t = ''BSE''" "written_keys t s" "0 \<le> tk_latency_ms t"
    and "clk 0 < wclk 2 + of_int ttl" "clk 1 < wclk 2 + of_int ttl" "wclk 0 \<le> clk 2"
    and "ap_cache st = set_tick ttl wclk t s"
  shows "realtime_quote env clk (tk_symbol t) (tk_exchange t) st =
    (Reply \<lparr>rp_quote = build_quote_from_tick (cached_view t),
       rp_meta = \<lparr>mt_source = tk_source t, mt_latency = tk_latency_ms t, mt_age = (clk 2 - wclk 0) * 1000,
         mt_quality = (if clk 2 - wclk 0 < 5 then ''REAL_TIME'' else ''STALE''), mt_refresh = Some (tk_timestamp t), mt_tier = 1\<rparr>\<rparr>, st)"
proof -
  let ?s = "set_tick ttl wclk t s"
  have keys: "fst ` set (raw_hash (tick_key (tk_exchange t) (tk_symbol t)) s) \<subseteq> fst ` set (tick_to_hash (wclk 0) t)"
    using assms(2) tick_to_hash_keys[of 0 t "wclk 0"] by (simp add: written_keys_def)
  obtain h where h: "fst (get_tick (clk 0) (tk_symbol t) (tk_exchange t) ?s) = Some h" "map_of h = map_of (tick_to_hash (wclk 0) t)"
    "build_quote_from_cache h = Some (build_quote_from_tick (cached_view t))"
    using cached_tick_roundtrip[of t s wclk "clk 0" ttl] assms(1) keys assms(4) by blast
  obtain h' where h': "fst (get_tick (clk 1) (tk_symbol t) (tk_exchange t) ?s) = Some h'" "map_of h' = map_of (tick_to_hash (wclk 0) t)"
    using cached_tick_roundtrip[of t s wclk "clk 1" ttl] assms(1) keys assms(5) by blast
  have age: "get_tick_age_ms (clk 1) (clk 2) (tk_symbol t) (tk_exchange t) ?s = (Inr (Some ((clk 2 - wclk 0) * 1000)), ?s)"
    by (simp add: get_tick_age_ms_def get_tick_keeps[OF h'(1)] tick_hash_meta(4)[OF h'(2)] num_text_def del: One_nat_def)
  have "hash_meta ((clk 2 - wclk 0) * 1000) h = Some \<lparr>mt_source = tk_source t, mt_latency = tk_latency_ms t, mt_age = (clk 2 - wclk 0) * 1000,
         mt_quality = (if clk 2 - wclk 0 < 5 then ''REAL_TIME'' else ''STALE''), mt_refresh = Some (tk_timestamp t), mt_tier = 1\<rparr>"
    using assms(3,6) by (simp add: hash_meta_def tick_hash_meta[OF h(2)] realtime_quality_def stale_quality_def)
  then show ?thesis
    using assms(7) by (simp add: realtime_quote_def get_tick_keeps[OF h(1)] age h(3) del: One_nat_def)
qed


theorem quote_served_from_cache_witness:
  "\<exists>r. fst (realtime_quote (\<lambda>_ _. demo_attempt True (Raised (ProviderError ''down''))) (\<lambda>_. 2) ''TCS'' ''NSE''
      \<lparr>ap_ctl = nse_service, ap_cache = set_tick 5 (\<lambda>_. 0) demo_tick empty_store, ap_writes = []\<rparr>) = Reply r \<and>
     mt_quality (rp_meta r) = ''REAL_TIME'' \<and> mt_age (rp_meta r) = 2000"
proof -
  have "written_keys demo_tick empty_store" by (simp add: written_keys_def raw_hash_def empty_store_def)
  then show ?thesis
    using quote_served_from_cache[of demo_tick empty_store "\<lambda>_. 2" "\<lambda>_. 0" 5
        "\<lparr>ap_ctl = nse_service, ap_cache = set_tick 5 (\<lambda>_. 0) demo_tick empty_store, ap_writes = []\<rparr>"
        "\<lambda>_ _. demo_attempt True (Raised (ProviderError ''down''))"]
    by (simp add: demo_tick_def)
qed

section \<open>Labels\<close>

lemma nse_service_tables:
  "breakers nse_service n = (if n \<in> {''groww'', ''nse_live'', ''nse_archive''} then Some (new_breaker default_cb_settings n None None None) else None)"
  "enabled nse_service n = (if n \<in> {''groww'', ''nse_live'', ''nse_archive''} then Some True else None)"
  by (simp_all add: nse_service_def build_controller_def nse_only_def service_providers_def connect_all_def
      register_provider_def new_controller_def provider_metas new_provider_def)

lemmas live_down_simps = get_quote_through_def fetch_quote_def nse_service_eq(1) nse_service_tables record_failure_def set_breaker_def
  touch_provider_def record_metric_def

text \<open>The quality label of a realtime quote does not look at who answered: with nothing cached and every live feed down, the
  cascade falls through to the end-of-day archive, which does not count as delayed, and its last close goes out as a real-time
  quote of age zero.\<close>

theorem archive_served_as_realtime:
  assumes "fst (get_tick (clk 0) sm exch (ap_cache st)) = None" "ap_ctl st = nse_service" "tk_source t = ''nse_archive''"
    and "env = (\<lambda>_ n. if n = ''nse_archive'' then demo_attempt True (Returned t) else demo_attempt True (Raised (ProviderError ''down'')))"
  shows "\<exists>r. fst (realtime_quote env clk sm exch st) = Reply r \<and> rp_quote r = build_quote_from_tick t \<and>
    mt_source (rp_meta r) = ''nse_archive'' \<and> mt_quality (rp_meta r) = ''REAL_TIME'' \<and> mt_age (rp_meta r) = 0"
proof -
  obtain s1 where s1: "get_tick (clk 0) sm exch (ap_cache st) = (None, s1)"
    using assms(1) by (metis prod.collapse)
  have "fst (ask_live env sm exch None True True (st\<lparr>ap_cache := s1\<rparr>)) = Quote (Some t)"
    by (simp add: ask_live_def assms(2,4) live_down_simps demo_fetch_simps split_beta)
  then show ?thesis
    using assms(3) by (cases "ask_live env sm exch None True True (st\<lparr>ap_cache := s1\<rparr>)")
      (simp add: realtime_quote_def s1 tick_meta_def realtime_quality_def)
qed

theorem archive_served_as_realtime_witness:
  "\<exists>r. fst (realtime_quote (\<lambda>_ n. if n = ''nse_archive'' then demo_attempt True (Returned (demo_tick\<lparr>tk_source := ''nse_archive''\<rparr>))
        else demo_attempt True (Raised (ProviderError ''down''))) (\<lambda>_. 0) ''TCS'' ''NSE''
      \<lparr>ap_ctl = nse_service, ap_cache = empty_store, ap_writes = []\<rparr>) = Reply r \<and> mt_quality (rp_meta r) = ''REAL_TIME''"
proof -
  have "fst (get_tick 0 ''TCS'' ''NSE'' empty_store) = None"
    by (simp add: get_tick_def hgetall_def expired_def raw_hash_def empty_store_def nonempty_def)
  then show ?thesis
    using archive_served_as_realtime[of "\<lambda>_. 0" "''TCS''" "''NSE''" "\<lparr>ap_ctl = nse_service, ap_cache = empty_store, ap_writes = []\<rparr>"
        "demo_tick\<lparr>tk_source := ''nse_archive''\<rparr>", OF _ _ _ refl] by simp blast
qed

section \<open>Every requested symbol is answered\<close>

lemma length_map_filter: "length (List.map_filter f xs) + length (filter (\<lambda>x. f x = None) xs) = length xs"
  by (induction xs) (auto simp: List.map_filter_def)

lemma ask_live_writes: "ask_live env s exch src True excl st = (Quote q, st') \<Longrightarrow>
    ap_writes st' = ap_writes st @ (case q of None \<Rightarrow> [] | Some t \<Rightarrow> [t])"
  by (auto simp: ask_live_def get_quote_through_def Let_def split: prod.splits sum.splits fetch_error.splits)

lemma fetch_misses_account:
  assumes "fetch_misses env exch ss st = (Some (qs, fs), st')"
  shows "length qs + length fs = length ss \<and> subseq fs ss \<and>
    (\<exists>ts. qs = map build_quote_from_tick ts \<and> ap_writes st' = ap_writes st @ ts)"
  using assms
proof (induction ss arbitrary: st qs fs st')
  case (Cons s ss)
  obtain q st1 where a: "ask_live env s exch None True True st = (Quote q, st1)"
    using Cons.prems by (auto split: prod.splits through_result.splits)
  obtain qs1 fs1 st2 where b: "fetch_misses env exch ss st1 = (Some (qs1, fs1), st2)"
    using Cons.prems by (auto simp: a split: prod.splits option.splits)
  obtain ts where "qs1 = map build_quote_from_tick ts" "ap_writes st2 = ap_writes st1 @ ts"
    using Cons.IH[OF b] by blast
  moreover have "length qs1 + length fs1 = length ss" "subseq fs1 ss" using Cons.IH[OF b] by simp_all
  ultimately show ?case
    using Cons.prems ask_live_writes[OF a] by (cases q) (auto simp: a b intro: exI[of _ "_ # ts"] exI[of _ ts])
qed simp

text \<open>A bulk request answers each of its first fifty symbols exactly once: the quotes are the readable cached ones in request
  order followed by the ones fetched through, every fetched tick is handed to the cache, the failed symbols are named in request
  order, and the status is partial exactly when there is one.\<close>

theorem bulk_quotes_account:
  assumes "bulk_quotes env clk market raw exch st = (Reply r, st')"
  shows "length (bk_data r) + length (bk_failed r) = length (bulk_symbols raw) \<and> 0 < length (bulk_symbols raw) \<and>
    length (bulk_symbols raw) \<le> 50 \<and> subseq (bk_failed r) (bulk_symbols raw) \<and>
    (\<exists>ts. bk_data r = List.map_filter (cached_quote (fst (get_bulk_ticks clk (bulk_symbols raw) exch (ap_cache st)))) (bulk_symbols raw) @
       map build_quote_from_tick ts \<and> ap_writes st' = ap_writes st @ ts) \<and>
    (bk_status r = ''partial'' \<longleftrightarrow> bk_failed r \<noteq> [])"
proof -
  let ?syms = "bulk_symbols raw"
  let ?f = "cached_quote (fst (get_bulk_ticks clk ?syms exch (ap_cache st)))"
  let ?miss = "filter (\<lambda>s. ?f s = None) ?syms"
  have ne: "?syms \<noteq> []" using assms by (auto simp: bulk_quotes_def)
  obtain qs fs where m: "fetch_misses env exch ?miss (st\<lparr>ap_cache := snd (get_bulk_ticks clk ?syms exch (ap_cache st))\<rparr>) = (Some (qs, fs), st')"
    and r: "bk_data r = List.map_filter ?f ?syms @ qs" "bk_failed r = fs" "bk_status r = (if fs = [] then ''success'' else ''partial'')"
    using assms ne by (cases "get_bulk_ticks clk ?syms exch (ap_cache st)")
      (auto simp: bulk_quotes_def Let_def split: prod.splits option.splits)
  have "length (List.map_filter ?f ?syms) + length ?miss = length ?syms" by (rule length_map_filter)
  moreover have "subseq ?miss ?syms" by (rule subseq_filter_left)
  ultimately show ?thesis
    using fetch_misses_account[OF m] ne r by (auto simp: bulk_symbols_def intro: subseq_order.trans)
qed


definition demo_api :: api_state where
  "demo_api = \<lparr>ap_ctl = nse_service, ap_cache = empty_store, ap_writes = []\<rparr>"

theorem bulk_quotes_account_witness:
  "\<exists>r. fst (bulk_quotes (\<lambda>_ _. demo_attempt True (Returned demo_tick)) (\<lambda>_. 0) True ''tcs'' ''NSE'' demo_api) = Reply r \<and>
     length (bk_data r) + length (bk_failed r) = 1 \<and> bk_failed r = []"
proof -
  have syms: "bulk_symbols ''tcs'' = [''TCS'']" by code_simp
  obtain s1 where t: "get_bulk_ticks (\<lambda>_. 0) [''TCS''] ''NSE'' empty_store = ([], s1)"
    by (simp add: get_bulk_ticks_def at_clock_def run_op_def hgetall_def expired_def raw_hash_def empty_store_def)
  obtain c w where q: "get_quote_through (\<lambda>_ _. demo_attempt True (Returned demo_tick)) ''TCS'' ''NSE'' None True True False nse_service =
      (Quote (Some demo_tick), c, w)"
    by (simp add: live_down_simps demo_fetch_simps)
  obtain r st' where r: "bulk_quotes (\<lambda>_ _. demo_attempt True (Returned demo_tick)) (\<lambda>_. 0) True ''tcs'' ''NSE'' demo_api = (Reply r, st')"
    "bk_failed r = []"
    by (simp add: bulk_quotes_def syms demo_api_def t ask_live_def q cached_quote_def)
  from bulk_quotes_account[OF r(1)] r show ?thesis by (simp add: syms)
qed

section \<open>Pages\<close>

lemma slice_bound_nat: "0 \<le> i \<Longrightarrow> slice_bound n i = min n (nat i)"
  by (simp add: slice_bound_def)

lemma py_slice_page: "py_slice (int (i * k)) (int (i * k) + int k) xs = take k (drop (i * k) xs)"
proof -
  have "int (i * k) + int k = int (i * k + k)" by simp
  then show ?thesis unfolding py_slice_def by (simp only: slice_bound_nat of_nat_0_le_iff nat_int)
      (simp add: drop_take min_def)
qed

lemma pages_cover: "concat (map (\<lambda>i. take k (drop (i * k) xs)) [0..<n]) = take (n * k) xs"
  by (induction n) (simp_all add: take_add[symmetric] add.commute)

text \<open>Paging through the whole-market snapshot loses and repeats nothing: the pages of \<open>k\<close> rows, asked for one after the
  other, put together are the snapshot of the exchange, and every page reports its total.\<close>

theorem snapshot_pages_cover:
  assumes "0 < k"
  shows "concat (map (\<lambda>i. pg_rows (fst (all_stocks snap exch (int k) (int (i * k)) c)))
      [0..<Suc (pg_total (fst (all_stocks snap exch 0 0 c)) div k)]) = fst (get_all_snapshot snap (upper (strip exch)) c) \<and>
    pg_total (fst (all_stocks snap exch limit offset c)) = length (fst (get_all_snapshot snap (upper (strip exch)) c))"
proof -
  let ?rows = "fst (get_all_snapshot snap (upper (strip exch)) c)"
  have pages: "pg_rows (fst (all_stocks snap exch (int k) (int (i * k)) c)) = take k (drop (i * k) ?rows)" for i
    by (simp add: all_stocks_def Let_def split_beta py_slice_page del: of_nat_mult)
  have total: "pg_total (fst (all_stocks snap exch l o1 c)) = length ?rows" for l o1
    by (simp add: all_stocks_def Let_def split_beta)
  have "length ?rows \<le> Suc (length ?rows div k) * k"
    using assms by (metis div_mod_decomp less_imp_le mod_less_divisor add_le_cancel_left mult_Suc add.commute)
  then show ?thesis unfolding pages total pages_cover by simp
qed

theorem snapshot_pages_cover_witness:
  "concat (map (\<lambda>i. pg_rows (fst (all_stocks (\<lambda>_. [1::nat, 2, 3]) ''NSE'' (int 2) (int (i * 2)) nse_service)))
      [0..<Suc (pg_total (fst (all_stocks (\<lambda>_. [1::nat, 2, 3]) ''NSE'' 0 0 nse_service)) div 2)]) =
    fst (get_all_snapshot (\<lambda>_. [1::nat, 2, 3]) (upper (strip ''NSE'')) nse_service)"
  by (rule conjunct1[OF snapshot_pages_cover]) simp

end
