(* ===== verification/Macro.thy ===== *)
theory Macro
  imports Tickertape NseSession BseSite ReadThrough
begin

text \<open>
  \<^verbatim>\<open>src/engine/macro.py\<close> and the context endpoint of \<^verbatim>\<open>src/api/endpoints/superbrain.py\<close>: currencies, commodities and the
  Sensex from Investing.com with Yahoo behind it, the flows of institutional investors, and the regime computed from them
  and the indices. The module's two cache entries are the state. An outer \<open>None\<close> is an exception that leaves the function;
  the answers of the sites are arguments.
\<close>

record macro_row =
  ma_price :: rat
  ma_change :: "rat option"
  ma_source :: string

record flows =
  fw_date :: val
  fw_fii :: rat
  fw_dii :: rat
  fw_mood :: string

record macro_cache =
  mx_macro :: "(secs \<times> (string \<times> macro_row) list) option"
  mx_flows :: "(secs \<times> flows) option"

definition new_macro_cache :: macro_cache where
  "new_macro_cache = \<lparr>mx_macro = None, mx_flows = None\<rparr>"

definition macro_ttl :: secs where "macro_ttl = 60"

definition instruments :: "(string \<times> string) list" where
  "instruments = [(''SENSEX'', ''^BSESN''), (''USDINR'', ''INR=X''), (''BRENT'', ''BZ=F''), (''GOLD'', ''GC=F'')]"

definition investing :: "(string \<times> int \<times> int \<times> int) list" where
  "investing = [(''USDINR'', 2124, 50, 200), (''BRENT'', 8833, 20, 250), (''GOLD'', 8830, 500, 12000), (''SENSEX'', 17936, 20000, 200000)]"

section \<open>Investing.com\<close>

text \<open>The fifth cells that are not empty. A row of another shape is measured and indexed as Python does: a text gives its fifth
  character, a long object has no key 4, a number has no length.\<close>

fun closes :: "val list \<Rightarrow> val list option" where
  "closes [] = Some []"
| "closes (VList row # rows) =
     map_option (\<lambda>cs. if 4 < length row \<and> truthy_val (row ! 4) then row ! 4 # cs else cs) (closes rows)"
| "closes (VStr t # rows) = map_option (\<lambda>cs. if 4 < length t then VStr [t ! 4] # cs else cs) (closes rows)"
| "closes (VDict d # rows) = (if 4 < length d then None else closes rows)"
| "closes (_ # rows) = None"

text \<open>What iterating over the answer's array gives, when it is something else.\<close>

fun iterate :: "val \<Rightarrow> val list option" where
  "iterate (VList xs) = Some xs"
| "iterate (VDict d) = Some (map (\<lambda>e. VStr (fst e)) d)"
| "iterate (VStr t) = Some (map (\<lambda>c. VStr [c]) t)"
| "iterate _ = None"

definition investing_rows :: "http \<Rightarrow> val option" where
  "investing_rows r =
     (case json_reply r of None \<Rightarrow> None
      | Some v \<Rightarrow> (case as_obj v of None \<Rightarrow> None | Some d \<Rightarrow> Some (val_or (dget d ''data'') (VList []))))"

definition investing_quote :: "http \<Rightarrow> int \<Rightarrow> int \<Rightarrow> macro_row option option" where
  "investing_quote r lo hi =
     (case investing_rows r of
        None \<Rightarrow> Some None
      | Some v \<Rightarrow>
          (case Option.bind (iterate v) closes of
             None \<Rightarrow> None
           | Some cs \<Rightarrow>
               if length cs < 2 then Some None
               else (case (to_float (last cs), to_float (last (butlast cs))) of
                       (Some price, Some prev) \<Rightarrow>
                         if \<not> (of_int lo \<le> price \<and> price \<le> of_int hi) \<or> prev \<le> 0 then Some None
                         else Some (Some \<lparr>ma_price = py_round 2 price, ma_change = Some (py_round 2 ((price - prev) / prev * 100)),
                                ma_source = ''investing.com''\<rparr>)
                     | _ \<Rightarrow> None)))"

section \<open>Yahoo\<close>

text \<open>The price and the previous close of the two views of a ticker; \<open>None\<close> is an exception of the view.\<close>

type_synonym view = "(rat option \<times> rat option) option"

definition change_of :: "rat option \<times> rat option \<Rightarrow> rat option" where
  "change_of v = (case v of (Some p, Some q) \<Rightarrow> if p \<noteq> 0 \<and> q \<noteq> 0 then Some ((p - q) / q * 100) else None | _ \<Rightarrow> None)"

definition yahoo_quote :: "view \<Rightarrow> view \<Rightarrow> macro_row option" where
  "yahoo_quote fast info =
     (let row = (\<lambda>v. case fst v of None \<Rightarrow> None
                   | Some p \<Rightarrow> Some \<lparr>ma_price = py_round 2 p, ma_change = map_option (py_round 2) (change_of v), ma_source = ''yahoo_delayed''\<rparr>)
      in case fast of
           Some (Some p, q) \<Rightarrow> row (Some p, q)
         | _ \<Rightarrow> (case info of None \<Rightarrow> None | Some v \<Rightarrow> row v))"

section \<open>The macro table\<close>

record macro_env =
  me_investing :: "int \<Rightarrow> http"
  me_yahoo :: "string \<Rightarrow> (view \<times> view) option"

definition macro_one :: "macro_env \<Rightarrow> string \<times> string \<Rightarrow> macro_row option option" where
  "macro_one v p =
     (let yahoo = (case me_yahoo v (snd p) of None \<Rightarrow> None | Some (fast, info) \<Rightarrow> yahoo_quote fast info)
      in case map_of investing (fst p) of
           None \<Rightarrow> Some yahoo
         | Some (pair, lo, hi) \<Rightarrow>
             (case investing_quote (me_investing v pair) lo hi of
                None \<Rightarrow> None | Some (Some r) \<Rightarrow> Some (Some r) | Some None \<Rightarrow> Some yahoo))"

fun macro_rows :: "macro_env \<Rightarrow> (string \<times> string) list \<Rightarrow> (string \<times> macro_row) list option" where
  "macro_rows v [] = Some []"
| "macro_rows v (p # ps) =
     (case (macro_one v p, macro_rows v ps) of
        (Some r, Some rs) \<Rightarrow> Some (case r of None \<Rightarrow> rs | Some x \<Rightarrow> (fst p, x) # rs)
      | _ \<Rightarrow> None)"

definition fetch_macro :: "secs \<Rightarrow> secs \<Rightarrow> macro_env \<Rightarrow> macro_cache \<Rightarrow> (string \<times> macro_row) list option \<times> macro_cache" where
  "fetch_macro now tm v c =
     (let load = (case macro_rows v instruments of None \<Rightarrow> (None, c) | Some rs \<Rightarrow> (Some rs, c\<lparr>mx_macro := Some (tm, rs)\<rparr>))
      in case mx_macro c of
           Some (t, rs) \<Rightarrow> if now - t < macro_ttl then (Some rs, c) else load
         | None \<Rightarrow> load)"

section \<open>Institutional flows\<close>

definition comma_float :: "val \<Rightarrow> rat option" where
  "comma_float v = (case v of VNum x \<Rightarrow> Some x | _ \<Rightarrow> parse_decimal (strip (filter (\<lambda>c. c \<noteq> CHR '','') (str_of v))))"

fun flow_rows :: "val list \<Rightarrow> rat option \<times> rat option \<times> val \<Rightarrow> (rat option \<times> rat option \<times> val) option" where
  "flow_rows [] st = Some st"
| "flow_rows (VDict d # rows) (fii, dii, date) =
     (let cat = upper (str_field_of d ''category''); nv = val_or (dget d ''netValue'') (dget d ''net'');
          net = (if nv = VNone then None else comma_float nv); date' = val_or (dget d ''date'') date
      in if contains_text cat ''FII'' \<or> contains_text cat ''FPI'' then flow_rows rows (net, dii, date')
         else if contains_text cat ''DII'' then flow_rows rows (fii, net, date')
         else flow_rows rows (fii, dii, date'))"
| "flow_rows (_ # rows) st = None"

text \<open>The rows of an answer: its array, or the array under \<^verbatim>\<open>data\<close>; the inner \<open>None\<close> is no answer.\<close>

definition flow_source :: "json_result \<Rightarrow> val list option option" where
  "flow_source j =
     (case j of
        JValue v \<Rightarrow>
          if \<not> truthy_val v then Some None
          else (case v of
              VList xs \<Rightarrow> Some (Some xs)
            | VDict d \<Rightarrow> if truthy_val (dget d ''_blocked'') then Some None
                else (case map_of d ''data'' of None \<Rightarrow> Some (Some []) | Some (VList xs) \<Rightarrow> Some (Some xs) | Some _ \<Rightarrow> None)
            | _ \<Rightarrow> Some (Some []))
      | _ \<Rightarrow> Some None)"

definition flows_of :: "rat option \<times> rat option \<times> val \<Rightarrow> flows option" where
  "flows_of st =
     (case st of (fii, dii, date) \<Rightarrow>
        if fii = None \<and> dii = None then None
        else (let f = (case fii of None \<Rightarrow> 0 | Some x \<Rightarrow> x); d = (case dii of None \<Rightarrow> 0 | Some x \<Rightarrow> x)
              in Some \<lparr>fw_date = date, fw_fii = f, fw_dii = d, fw_mood = (if 0 \<le> f then ''BULLISH'' else ''BEARISH'')\<rparr>))"

definition fetch_flows :: "secs \<Rightarrow> secs \<Rightarrow> json_result \<Rightarrow> macro_cache \<Rightarrow> flows option option \<times> macro_cache" where
  "fetch_flows now tm j c =
     (let load = (case flow_source j of
             None \<Rightarrow> (None, c)
           | Some None \<Rightarrow> (Some None, c)
           | Some (Some rows) \<Rightarrow>
               (case flow_rows rows (None, None, VNone) of
                  None \<Rightarrow> (None, c)
                | Some st \<Rightarrow> (case flows_of st of None \<Rightarrow> (Some None, c) | Some f \<Rightarrow> (Some (Some f), c\<lparr>mx_flows := Some (tm, f)\<rparr>))))
      in case mx_flows c of
           Some (t, f) \<Rightarrow> if now - t < 1800 then (Some (Some f), c) else load
         | None \<Rightarrow> load)"

section \<open>The market context\<close>

record idx_row =
  ix_last :: "rat option"
  ix_change_pct :: "rat option"
  ix_change :: "rat option"
  ix_advances :: val
  ix_declines :: val

definition index_name :: "dict \<Rightarrow> string" where
  "index_name d = upper (case str_val (dget d ''index'') of None \<Rightarrow> [] | Some s \<Rightarrow> s)"

definition idx :: "dict list \<Rightarrow> string \<Rightarrow> idx_row option" where
  "idx rows n =
     (case find (\<lambda>d. index_name d = upper n) (rev rows) of
        None \<Rightarrow> None
      | Some [] \<Rightarrow> None
      | Some d \<Rightarrow> Some \<lparr>ix_last = to_float (dget d ''last''), ix_change_pct = to_float (dget d ''pct_change''),
           ix_change = to_float (dget d ''change''), ix_advances = dget d ''advances'', ix_declines = dget d ''declines''\<rparr>)"

definition context_names :: "string list" where
  "context_names = [''NIFTY 50'', ''NIFTY BANK'', ''NIFTY NEXT 50'', ''NIFTY IT'', ''NIFTY MIDCAP 100'']"

definition risk_score :: "rat \<Rightarrow> rat \<Rightarrow> rat \<Rightarrow> rat" where
  "risk_score nifty usdinr brent = nifty - max 0 (usdinr * (8 / 10)) - max 0 (brent * (1 / 2))"

definition regime_of :: "rat \<Rightarrow> string" where
  "regime_of x = (if 8 / 10 \<le> x then ''RISK_ON'' else if x \<le> - (8 / 10) then ''RISK_OFF'' else ''BALANCED'')"

record context_reply =
  cx_regime :: string
  cx_score :: rat
  cx_indices :: "(string \<times> idx_row) list"
  cx_vix :: "rat option"
  cx_macro :: "(string \<times> macro_row) list"
  cx_flows :: "flows option"
  cx_mood :: "mmi option"

definition pct_of :: "rat option option \<Rightarrow> rat" where
  "pct_of x = (case x of Some (Some p) \<Rightarrow> p | _ \<Rightarrow> 0)"

text \<open>\<open>None\<close> is an exception; one of the mood index is swallowed.\<close>

definition sb_context :: "dict list \<Rightarrow> (string \<times> macro_row) list option \<Rightarrow> flows option option \<Rightarrow> mmi option option \<Rightarrow> context_reply option" where
  "sb_context rows macro flows mood =
     (case (macro, flows) of
        (Some ms, Some fl) \<Rightarrow>
          (let inds = List.map_filter (\<lambda>n. map_option (Pair n) (idx rows n)) context_names;
               score = risk_score (pct_of (map_option ix_change_pct (map_of inds ''NIFTY 50'')))
                 (pct_of (map_option ma_change (map_of ms ''USDINR''))) (pct_of (map_option ma_change (map_of ms ''BRENT'')))
           in Some \<lparr>cx_regime = regime_of score, cx_score = py_round 2 score, cx_indices = inds,
                cx_vix = (case idx rows ''INDIA VIX'' of None \<Rightarrow> None | Some i \<Rightarrow> ix_last i), cx_macro = ms, cx_flows = fl,
                cx_mood = (case mood of None \<Rightarrow> None | Some m \<Rightarrow> m)\<rparr>)
      | _ \<Rightarrow> None)"

interpretation macro_read: read_through mx_macro "\<lambda>now (tm, v) c. fetch_macro now tm v c" Some macro_ttl
  by unfold_locales (auto simp: fetch_macro_def Let_def split: option.splits if_splits prod.splits)

interpretation flows_read: read_through mx_flows "\<lambda>now (tm, j) c. fetch_flows now tm j c" "\<lambda>f. Some (Some f)" 1800
  by unfold_locales (auto simp: fetch_flows_def Let_def split: option.splits if_splits prod.splits)

section \<open>Sane rows\<close>

lemma py_round_of_int: "py_round n (of_int k) = of_int k"
  using round_half_even_int[of "k * 10 ^ n"] by (simp add: py_round_def)

lemma py_round_within: "of_int a \<le> x \<Longrightarrow> x \<le> of_int b \<Longrightarrow> of_int a \<le> py_round n x \<and> py_round n x \<le> of_int b"
  using py_round_mono[of "of_int a" x n] py_round_mono[of x "of_int b" n] by (simp add: py_round_of_int)

definition sane_row :: "string \<Rightarrow> macro_row \<Rightarrow> bool" where
  "sane_row l r \<longleftrightarrow>
     (case map_of investing l of
        None \<Rightarrow> ma_source r = ''yahoo_delayed''
      | Some (pair, lo, hi) \<Rightarrow> ma_source r = ''yahoo_delayed'' \<or>
          ma_source r = ''investing.com'' \<and> of_int lo \<le> ma_price r \<and> ma_price r \<le> of_int hi \<and> ma_change r \<noteq> None)"

definition sane_rows :: "(string \<times> macro_row) list \<Rightarrow> bool" where
  "sane_rows rs \<longleftrightarrow> distinct (map fst rs) \<and> set (map fst rs) \<subseteq> set (map fst instruments) \<and> (\<forall>(l, r) \<in> set rs. sane_row l r)"

lemma investing_quote_sane:
  assumes "investing_quote r a b = Some (Some q)"
  shows "ma_source q = ''investing.com'' \<and> of_int a \<le> ma_price q \<and> ma_price q \<le> of_int b \<and> ma_change q \<noteq> None"
proof -
  obtain x y where q: "q = \<lparr>ma_price = py_round 2 x, ma_change = Some y, ma_source = ''investing.com''\<rparr>"
    and x: "of_int a \<le> x" "x \<le> of_int b"
    using assms unfolding investing_quote_def by (simp split: option.splits if_splits) blast
  show ?thesis using py_round_within[OF x, of 2] by (simp add: q)
qed

lemma yahoo_quote_source: "yahoo_quote fast info = Some q \<Longrightarrow> ma_source q = ''yahoo_delayed''"
  by (auto simp: yahoo_quote_def Let_def split: option.splits prod.splits)

lemma macro_one_cases:
  assumes "macro_one v p = Some (Some q)"
  shows "(\<exists>pair lo hi. map_of investing (fst p) = Some (pair, lo, hi) \<and> investing_quote (me_investing v pair) lo hi = Some (Some q)) \<or>
    (\<exists>fast info. yahoo_quote fast info = Some q)"
  using assms unfolding macro_one_def Let_def by (simp split: option.splits prod.splits) (blast | metis)+

lemma macro_one_sane: "macro_one v p = Some (Some q) \<Longrightarrow> sane_row (fst p) q"
  by (auto simp: sane_row_def dest!: macro_one_cases dest: investing_quote_sane yahoo_quote_source split: option.splits)

lemma macro_rows_sane:
  assumes "macro_rows v ps = Some rs" "distinct (map fst ps)"
  shows "distinct (map fst rs) \<and> fst ` set rs \<subseteq> fst ` set ps \<and> (\<forall>(l, r) \<in> set rs. sane_row l r)"
  using assms
proof (induction ps arbitrary: rs)
  case Nil
  then show ?case by simp
next
  case (Cons p ps)
  obtain q rs' where q: "macro_one v p = Some q" "macro_rows v ps = Some rs'"
    "rs = (case q of None \<Rightarrow> rs' | Some x \<Rightarrow> (fst p, x) # rs')"
    using Cons.prems(1) by (auto split: option.splits)
  note ih = Cons.IH[OF q(2)]
  from ih Cons.prems(2) have "fst p \<notin> fst ` set rs'" by auto
  with ih Cons.prems(2) q macro_one_sane[of v p] show ?case by (cases q) auto
qed

definition cache_sane :: "macro_cache \<Rightarrow> bool" where
  "cache_sane c \<longleftrightarrow> (case mx_macro c of None \<Rightarrow> True | Some (t, rs) \<Rightarrow> sane_rows rs)"

text \<open>The two entries change by calls of the two functions, in any order, at any time, whatever the sites answer.\<close>

inductive macro_reach :: "macro_cache \<Rightarrow> bool" where
  fresh: "macro_reach new_macro_cache"
| macro: "macro_reach c \<Longrightarrow> macro_reach (snd (fetch_macro now tm v c))"
| flows: "macro_reach c \<Longrightarrow> macro_reach (snd (fetch_flows now tm j c))"

lemma macro_rows_instruments: "macro_rows v instruments = Some rs \<Longrightarrow> sane_rows rs"
  using macro_rows_sane[of v instruments rs] by (simp add: sane_rows_def instruments_def)

lemma fetch_flows_macro [simp]: "mx_macro (snd (fetch_flows now tm j c)) = mx_macro c"
  by (auto simp: fetch_flows_def Let_def split: option.splits prod.splits)

lemma fetch_macro_cases:
  assumes "fetch_macro now tm v c = (r, c')"
  shows "(\<exists>t rs. mx_macro c = Some (t, rs) \<and> r = Some rs \<and> c' = c) \<or> r = None \<and> c' = c \<or>
    (\<exists>rs. macro_rows v instruments = Some rs \<and> r = Some rs \<and> c' = c\<lparr>mx_macro := Some (tm, rs)\<rparr>)"
  using assms unfolding fetch_macro_def Let_def by (cases "macro_rows v instruments") (auto split: option.splits prod.splits if_splits)

lemma fetch_macro_sane:
  assumes "cache_sane c" "fetch_macro now tm v c = (r, c')"
  shows "cache_sane c' \<and> (case r of None \<Rightarrow> True | Some rs \<Rightarrow> sane_rows rs)"
  using fetch_macro_cases[OF assms(2)] assms(1) by (auto simp: cache_sane_def dest: macro_rows_instruments)

lemma macro_reach_sane: "macro_reach c \<Longrightarrow> cache_sane c"
proof (induction rule: macro_reach.induct)
  case fresh
  then show ?case by (simp add: cache_sane_def new_macro_cache_def)
next
  case (macro c now tm v)
  then show ?case using fetch_macro_sane[of c now tm v] by (metis prod.collapse)
next
  case (flows c now tm j)
  then show ?case by (simp add: cache_sane_def)
qed

text \<open>C26: 
  Whatever the sites answer, a macro table has only the four labels, each once, and a row marked as real-time carries a
  price inside the bounds of its label and a change; every other row is marked as delayed. This holds of fresh and of
  cached tables, after any history of calls.
\<close>

theorem macro_table_sane:
  assumes "macro_reach c" "fetch_macro now tm v c = (Some rs, c')" "map_of rs l = Some r"
  shows "l \<in> {''SENSEX'', ''USDINR'', ''BRENT'', ''GOLD''} \<and> distinct (map fst rs) \<and>
    (ma_source r = ''yahoo_delayed'' \<or>
     ma_source r = ''investing.com'' \<and> ma_change r \<noteq> None \<and>
       (\<exists>pair lo hi. map_of investing l = Some (pair, lo, hi) \<and> of_int lo \<le> ma_price r \<and> ma_price r \<le> of_int hi))"
proof -
  have "sane_rows rs" using fetch_macro_sane[OF macro_reach_sane[OF assms(1)] assms(2)] by simp
  moreover have lr: "(l, r) \<in> set rs" using assms(3) by (rule map_of_SomeD)
  ultimately have "sane_row l r" "distinct (map fst rs)" "l \<in> set (map fst instruments)"
    by (force simp: sane_rows_def)+
  then show ?thesis
    unfolding sane_row_def by (auto simp: instruments_def split: option.splits prod.splits)
qed


definition demo_sites :: macro_env where
  "demo_sites = \<lparr>me_investing = (\<lambda>pair. if pair = 2124 then Http 200 (Json (VDict [(''data'', VList
       [VList [VInt 0, VInt 0, VInt 0, VInt 0, VNum 83], VList [VInt 0, VInt 0, VInt 0, VInt 0, VNum (83415 / 1000)]])]))
       else if pair = 8830 then Http 200 (Json (VDict [(''data'', VList
       [VList [VInt 0, VInt 0, VInt 0, VInt 0, VNum 9], VList [VInt 0, VInt 0, VInt 0, VInt 0, VNum 9]])])) else NoReply),
     me_yahoo = (\<lambda>s. if s = ''GC=F'' then Some (Some (Some 2400, Some 2000), None) else None)\<rparr>"

lemma demo_table: "fst (fetch_macro 0 0 demo_sites new_macro_cache) =
    Some [(''USDINR'', \<lparr>ma_price = 8342 / 100, ma_change = Some (1 / 2), ma_source = ''investing.com''\<rparr>),
          (''GOLD'', \<lparr>ma_price = 2400, ma_change = Some 20, ma_source = ''yahoo_delayed''\<rparr>)]"
  by code_simp

theorem macro_table_sane_witness:
  "\<exists>rs c r. fetch_macro 0 0 demo_sites new_macro_cache = (Some rs, c) \<and> map_of rs ''USDINR'' = Some r \<and>
     ma_source r = ''investing.com'' \<and> 50 \<le> ma_price r \<and> ma_price r \<le> 200"
proof -
  obtain rs c where rc: "fetch_macro 0 0 demo_sites new_macro_cache = (Some rs, c)"
    using demo_table by (metis prod.collapse)
  with demo_table obtain r where r: "map_of rs ''USDINR'' = Some r" "ma_source r = ''investing.com''" by auto
  from macro_table_sane[OF macro_reach.fresh rc r(1)] r show ?thesis
    using rc by (auto simp: investing_def)
qed

text \<open>A table that was just loaded is what every caller of the next minute gets, whatever the sites say by then.\<close>

lemma macro_table_repeats:
  assumes "fetch_macro now tm v c = (Some rs, c')" "c' \<noteq> c"
  shows "\<exists>t. \<forall>now' tm' v'. now' - t < macro_ttl \<longrightarrow> fetch_macro now' tm' v' c' = (Some rs, c')"
proof -
  obtain t where "mx_macro c' = Some (t, rs)" using macro_read.fill[of now "(tm, v)" c "Some rs" c'] assms by auto
  then show ?thesis using macro_read.hit[of c' t rs _ "(_, _)"] by auto
qed

section \<open>The regime\<close>

text \<open>
  The regime of the market context is never risk-on without a row of the Nifty 50 that rose by at least 0.8 percent, and
  never risk-off unless that row fell by as much or the rupee or Brent table entry rose. Missing data are balanced.
\<close>

lemma pct_of_cases: "pct_of x = 0 \<or> x = Some (Some (pct_of x))"
  by (auto simp: pct_of_def split: option.splits)

theorem regime_justified:
  assumes "sb_context rows (Some ms) fl mood = Some r"
  shows "(cx_regime r = ''RISK_ON'' \<longrightarrow> (\<exists>i p. idx rows ''NIFTY 50'' = Some i \<and> ix_change_pct i = Some p \<and> 8 / 10 \<le> p)) \<and>
    (cx_regime r = ''RISK_OFF'' \<longrightarrow>
       (\<exists>i p. idx rows ''NIFTY 50'' = Some i \<and> ix_change_pct i = Some p \<and> p < 0) \<or>
       (\<exists>l m p. l \<in> {''USDINR'', ''BRENT''} \<and> map_of ms l = Some m \<and> ma_change m = Some p \<and> 0 < p))"
proof -
  define inds where "inds = List.map_filter (\<lambda>n. map_option (Pair n) (idx rows n)) context_names"
  define a where "a = map_option ix_change_pct (map_of inds ''NIFTY 50'')"
  define b where "b = map_option ma_change (map_of ms ''USDINR'')"
  define c where "c = map_option ma_change (map_of ms ''BRENT'')"
  have nifty: "map_of inds ''NIFTY 50'' = idx rows ''NIFTY 50''"
    by (auto simp: inds_def context_names_def map_filter_simps split: option.splits)
  have reg: "cx_regime r = regime_of (risk_score (pct_of a) (pct_of b) (pct_of c))"
    using assms by (auto simp: sb_context_def Let_def a_def b_def c_def inds_def split: option.splits)
  have on: "8 / 10 \<le> pct_of a" if "cx_regime r = ''RISK_ON''"
    using that by (auto simp: reg regime_of_def risk_score_def split: if_splits)
  have off: "pct_of a < 0 \<or> 0 < pct_of b \<or> 0 < pct_of c" if "cx_regime r = ''RISK_OFF''"
    using that by (auto simp: reg regime_of_def risk_score_def split: if_splits)
  have an: "\<exists>i. idx rows ''NIFTY 50'' = Some i \<and> ix_change_pct i = Some (pct_of a)" if "pct_of a \<noteq> 0"
    using that pct_of_cases[of a] by (auto simp: a_def nifty)
  have bn: "\<exists>m. map_of ms ''USDINR'' = Some m \<and> ma_change m = Some (pct_of b)" if "pct_of b \<noteq> 0"
    using that pct_of_cases[of b] by (auto simp: b_def)
  have cn: "\<exists>m. map_of ms ''BRENT'' = Some m \<and> ma_change m = Some (pct_of c)" if "pct_of c \<noteq> 0"
    using that pct_of_cases[of c] by (auto simp: c_def)
  show ?thesis
  proof (intro conjI impI)
    assume "cx_regime r = ''RISK_ON''"
    with on an show "\<exists>i p. idx rows ''NIFTY 50'' = Some i \<and> ix_change_pct i = Some p \<and> 8 / 10 \<le> p" by force
  next
    assume "cx_regime r = ''RISK_OFF''"
    with off consider "pct_of a < 0" | "0 < pct_of b" | "0 < pct_of c" by blast
    then show "(\<exists>i p. idx rows ''NIFTY 50'' = Some i \<and> ix_change_pct i = Some p \<and> p < 0) \<or>
       (\<exists>l m p. l \<in> {''USDINR'', ''BRENT''} \<and> map_of ms l = Some m \<and> ma_change m = Some p \<and> 0 < p)"
      using an bn cn by cases (force, fastforce, fastforce)
  qed
qed

definition demo_indices :: "dict list" where
  "demo_indices = [[(''index'', VStr ''NIFTY 50''), (''last'', VNum 25000), (''pct_change'', VNum 1)]]"

theorem regime_justified_witness:
  "\<exists>r i p. sb_context demo_indices (Some []) (Some None) None = Some r \<and> cx_regime r = ''RISK_ON'' \<and>
     idx demo_indices ''NIFTY 50'' = Some i \<and> ix_change_pct i = Some p \<and> 8 / 10 \<le> p"
proof -
  have "map_option cx_regime (sb_context demo_indices (Some []) (Some None) None) = Some ''RISK_ON''" by code_simp
  then obtain r where r: "sb_context demo_indices (Some []) (Some None) None = Some r" "cx_regime r = ''RISK_ON''" by auto
  from regime_justified[OF r(1)] r show ?thesis by blast
qed

text \<open>Flows with no figure for foreign institutions still count as a bullish mood.\<close>

lemma bullish_without_fii:
  "fst (fetch_flows 0 0 (JValue (VList [VDict [(''category'', VStr ''DII''), (''netValue'', VStr ''-1,200.5'')]])) new_macro_cache) =
     Some (Some \<lparr>fw_date = VNone, fw_fii = 0, fw_dii = - 12005 / 10, fw_mood = ''BULLISH''\<rparr>)"
  by code_simp

end
