(* ===== verification/Fundamentals.thy ===== *)
theory Fundamentals
  imports Macro SbService
begin

text \<open>
  \<^verbatim>\<open>src/engine/fundamentals.py\<close>: the ratio set of a company, scraped from screener.in page by page, with the exchange-side
  details filling the gaps, behind a cache of six hours. What the regular expressions find in a page is a
  \<open>screener_page\<close>, which the theory Scrape computes from the text; everything computed from the finds is here.
\<close>

section \<open>A page\<close>

record screener_page =
  sp_status :: int
  sp_length :: nat
  sp_ratios :: "(string \<times> string) list"
  sp_promoter :: "string option"
  sp_sales3 :: "string option"
  sp_sales5 :: "string option"
  sp_profit3 :: "string option"
  sp_opm :: "string option"
  sp_pl :: "(string \<times> string list) list"
  sp_bs :: "(string \<times> string list) list"

text \<open>\<^verbatim>\<open>_num\<close>.\<close>

definition screen_num :: "string \<Rightarrow> rat option" where
  "screen_num s = comma_float (VStr s)"

text \<open>The last number of the first row that carries the label and a number: \<^verbatim>\<open>_last_row_value\<close>.\<close>

fun last_row_value :: "(string \<times> string list) list \<Rightarrow> string \<Rightarrow> rat option" where
  "last_row_value [] label = None"
| "last_row_value ((txt, tds) # rows) label =
     (if contains_text (lower txt) (lower label) \<and> tds \<noteq> [] then screen_num (last tds) else last_row_value rows label)"

fun collapse :: "string \<Rightarrow> string" where
  "collapse [] = []"
| "collapse [c] = (if is_space c then '' '' else [c])"
| "collapse (c # d # cs) =
     (if is_space c then (if is_space d then collapse (d # cs) else CHR '' '' # collapse (d # cs)) else c # collapse (d # cs))"

definition ratio_key :: "string \<Rightarrow> string" where
  "ratio_key n = lower (strip (collapse n))"

definition ratio_map :: "(string \<times> string) list \<Rightarrow> (string \<times> rat) list" where
  "ratio_map finds = foldl (\<lambda>m (n, x). case screen_num x of
      None \<Rightarrow> m | Some v \<Rightarrow> if ratio_key n = [] then m else dput (ratio_key n) v m) [] finds"

text \<open>The first entry whose key contains the first of the words that any key contains: \<^verbatim>\<open>gv\<close>.\<close>

fun gv :: "(string \<times> rat) list \<Rightarrow> string list \<Rightarrow> rat option" where
  "gv m [] = None"
| "gv m (k # ks) = (case find (\<lambda>e. contains_text (fst e) (lower k)) m of Some e \<Rightarrow> Some (snd e) | None \<Rightarrow> gv m ks)"

text \<open>\<^verbatim>\<open>a or b\<close> on numbers that may be missing.\<close>

definition or_num :: "rat option \<Rightarrow> rat option \<Rightarrow> rat option" where
  "or_num a b = (if a = None \<or> a = Some 0 then b else a)"

definition ratio_of :: "rat option \<Rightarrow> rat option \<Rightarrow> (rat \<Rightarrow> rat \<Rightarrow> rat) \<Rightarrow> rat option" where
  "ratio_of a b f = (case (a, b) of (Some x, Some y) \<Rightarrow> if x \<noteq> 0 \<and> 0 < y then Some (f x y) else None | _ \<Rightarrow> None)"

definition net_margin :: "(string \<times> string list) list \<Rightarrow> rat option" where
  "net_margin pl =
     (let sales = or_num (or_num (or_num (last_row_value pl ''Sales'') (last_row_value pl ''Revenue'')) (last_row_value pl ''Net Revenue''))
            (last_row_value pl ''Total Income'');
          np = or_num (or_num (last_row_value pl ''Net Profit'') (last_row_value pl ''Profit after tax'')) (last_row_value pl ''PAT'')
      in ratio_of np sales (\<lambda>n s. py_round 1 (n / s * 100)))"

definition debt_to_equity :: "(string \<times> string list) list \<Rightarrow> rat option" where
  "debt_to_equity bs =
     (case (last_row_value bs ''Borrowings'', last_row_value bs ''Equity Capital'', last_row_value bs ''Reserves'') of
        (Some b, Some e, Some r) \<Rightarrow> if e + r \<noteq> 0 then Some (py_round 2 (b / (e + r))) else None
      | _ \<Rightarrow> None)"

definition num_find :: "string option \<Rightarrow> val" where
  "num_find x = vnum (Option.bind x screen_num)"

definition screener_data :: "string \<Rightarrow> screener_page \<Rightarrow> dict" where
  "screener_data s p =
     (let m = ratio_map (sp_ratios p); price = gv m [''current price'']; bv = gv m [''book value''];
          pe = gv m [''stock p/e'', ''p/e'']
      in [(''symbol'', VStr s), (''pe'', vnum pe), (''pb'', vnum (ratio_of price bv (\<lambda>x y. py_round 2 (x / y)))),
          (''roe'', vnum (gv m [''roe''])), (''roce'', vnum (gv m [''roce''])), (''debtToEquity'', vnum (debt_to_equity (sp_bs p))),
          (''promoterHolding'', num_find (sp_promoter p)), (''salesGrowth3yr'', num_find (sp_sales3 p)),
          (''salesGrowth5yr'', num_find (sp_sales5 p)), (''profitGrowth3yr'', num_find (sp_profit3 p)),
          (''epsGrowth'', num_find (sp_profit3 p)), (''dividendYield'', vnum (gv m [''dividend yield''])),
          (''operatingMargin'', num_find (sp_opm p)), (''netMargin'', vnum (net_margin (sp_pl p))),
          (''marketCap'', vnum (gv m [''market cap''])),
          (''eps'', vnum (or_num (gv m [''eps'']) (ratio_of price pe (\<lambda>x y. py_round 2 (x / y))))),
          (''bookValue'', vnum bv), (''faceValue'', vnum (gv m [''face value''])), (''source'', VStr ''screener.in'')])"

text \<open>\<^verbatim>\<open>any(v is not None for k, v in d.items() if k not in ("symbol", "source"))\<close>.\<close>

definition has_data :: "dict \<Rightarrow> bool" where
  "has_data d \<longleftrightarrow> list_ex (\<lambda>(k, v). k \<noteq> ''symbol'' \<and> k \<noteq> ''source'' \<and> v \<noteq> VNone) d"

definition variants :: "string \<Rightarrow> string list" where
  "variants s = (let u = upper (strip s) in [u @ ''/consolidated'', u])"

text \<open>The first variant of the page that loads, is long enough and yields a figure. \<open>None\<close> of the site is a failed request.\<close>

fun scrape_variants :: "(string \<Rightarrow> screener_page option) \<Rightarrow> string \<Rightarrow> string list \<Rightarrow> dict option" where
  "scrape_variants site s [] = None"
| "scrape_variants site s (v # vs) =
     (case site v of
        None \<Rightarrow> scrape_variants site s vs
      | Some p \<Rightarrow>
          if sp_status p \<noteq> 200 \<or> sp_length p < 5000 then scrape_variants site s vs
          else if has_data (screener_data s p) then Some (screener_data s p) else scrape_variants site s vs)"

definition scrape_screener :: "(string \<Rightarrow> screener_page option) \<Rightarrow> string \<Rightarrow> dict option" where
  "scrape_screener site symbol = (let s = upper (strip symbol) in scrape_variants site s (variants s))"

section \<open>The details of the exchange\<close>

definition from_details :: "string \<Rightarrow> dict option \<Rightarrow> dict option" where
  "from_details symbol details =
     (case details of
        None \<Rightarrow> None
      | Some [] \<Rightarrow> None
      | Some d \<Rightarrow>
          (let f = sub_dict (dget d ''fundamentals''); price = comma_float (dget (sub_dict (dget d ''price'')) ''ltp'');
               bv = comma_float (dget f ''book_value'')
           in Some [(''symbol'', VStr symbol), (''pe'', vnum (comma_float (dget f ''pe''))),
                (''pb'', vnum (ratio_of price bv (\<lambda>x y. py_round 2 (x / y)))), (''eps'', vnum (comma_float (dget f ''eps_ttm''))),
                (''bookValue'', vnum bv), (''faceValue'', vnum (comma_float (dget f ''face_value''))),
                (''dividendYield'', vnum (comma_float (dget f ''div_yield''))),
                (''marketCap'', vnum (comma_float (dget (sub_dict (dget d ''traded'')) ''mcap_cr''))), (''sector'', dget f ''sector''),
                (''industryPe'', vnum (comma_float (dget f ''industry_pe'')))]))"

section \<open>The fetch\<close>

definition core_keys :: "string list" where
  "core_keys = [''roe'', ''roce'', ''debtToEquity'', ''promoterHolding'', ''salesGrowth3yr'', ''profitGrowth3yr'', ''operatingMargin'', ''netMargin'']"

definition missing_core :: "dict option \<Rightarrow> bool" where
  "missing_core d =
     (case d of None \<Rightarrow> True | Some [] \<Rightarrow> True | Some m \<Rightarrow> length (filter (\<lambda>k. dget m k \<noteq> VNone) core_keys) < 3)"

definition fill_gap :: "dict \<Rightarrow> string \<times> val \<Rightarrow> dict" where
  "fill_gap base e = (if dget base (fst e) = VNone \<and> snd e \<noteq> VNone then dput (fst e) (snd e) base else base)"

definition merged :: "string \<Rightarrow> dict option \<Rightarrow> dict option \<Rightarrow> dict" where
  "merged symbol screener details =
     (let base = (case screener of Some d \<Rightarrow> if d = [] then [(''symbol'', VStr symbol)] else d | None \<Rightarrow> [(''symbol'', VStr symbol)])
      in if missing_core screener then
           (case from_details symbol details of
              None \<Rightarrow> base
            | Some det \<Rightarrow> dput ''source'' (VStr (if screener = None then ''moneycontrol'' else ''screener.in+moneycontrol''))
                (foldl fill_gap base det))
         else base)"

type_synonym fund_cache = "(string \<times> secs \<times> dict) list"

definition fund_ttl :: secs where "fund_ttl = 21600"

definition fetch_fundamentals :: "secs \<Rightarrow> secs \<Rightarrow> (string \<Rightarrow> screener_page option) \<Rightarrow> (string \<Rightarrow> dict option) \<Rightarrow> string \<Rightarrow> fund_cache \<Rightarrow>
    dict option \<times> fund_cache" where
  "fetch_fundamentals now tm site details symbol0 c =
     (let symbol = upper (strip symbol0);
          load = (let base = merged symbol (scrape_screener site symbol) (details symbol)
                  in if has_data base then (Some base, dput symbol (tm, base) c) else (None, c))
      in case map_of c symbol of
           Some (t, d) \<Rightarrow> if now - t < fund_ttl then (Some d, c) else load
         | None \<Rightarrow> load)"

definition sb_fundamentals :: "secs \<Rightarrow> secs \<Rightarrow> (string \<Rightarrow> screener_page option) \<Rightarrow> (string \<Rightarrow> dict option) \<Rightarrow> string \<Rightarrow> fund_cache \<Rightarrow>
    (http_error + dict) \<times> fund_cache" where
  "sb_fundamentals now tm site details symbol c =
     (case fetch_fundamentals now tm site details (canonical_symbol symbol) c of
        (None, c') \<Rightarrow> (Inl 404, c') | (Some d, c') \<Rightarrow> (if d = [] then (Inl 404, c') else (Inr d, c')))"

section \<open>Gaps are filled, figures are kept\<close>

lemma dget_fill: 
  "distinct (map fst det) \<Longrightarrow> dget (foldl fill_gap base det) k = (if dget base k \<noteq> VNone then dget base k else dget det k)"
proof (induction det arbitrary: base)
  case Nil
  then show ?case by simp
next
  case (Cons e det)
  obtain k' v where e: "e = (k', v)" by (cases e)
  have fresh: "dget det k' = VNone"
    using Cons.prems by (auto simp: e dget_def map_of_eq_None_iff[symmetric] split: option.split)
  show ?case using Cons.IH[of "fill_gap base e"] Cons.prems fresh by (auto simp: e fill_gap_def)
qed

lemma distinct_fill: "distinct (map fst base) \<Longrightarrow> distinct (map fst (foldl fill_gap base det))"
  by (induction det arbitrary: base) (auto simp: fill_gap_def intro: distinct_dput)

lemma dget_some_key: "dget d k \<noteq> VNone \<Longrightarrow> (k, dget d k) \<in> set d"
  by (auto simp: dget_def dest: map_of_SomeD split: option.splits)

lemma dget_of_mem: "distinct (map fst d) \<Longrightarrow> (k, v) \<in> set d \<Longrightarrow> dget d k = v"
  by (simp add: dget_def)

lemma has_data_iff:
  assumes "distinct (map fst d)"
  shows "has_data d \<longleftrightarrow> (\<exists>k. k \<noteq> ''symbol'' \<and> k \<noteq> ''source'' \<and> dget d k \<noteq> VNone)"
  using dget_of_mem[OF assms] dget_some_key[of d] by (fastforce simp: has_data_def list_ex_iff)

definition clean_dict :: "string \<Rightarrow> dict \<Rightarrow> bool" where
  "clean_dict s d \<longleftrightarrow> d \<noteq> [] \<and> distinct (map fst d) \<and> dget d ''symbol'' = VStr s"

lemma screener_data_clean: "clean_dict s (screener_data s p)"
  by (simp add: clean_dict_def screener_data_def Let_def)

lemma scrape_variants_clean: "scrape_variants site s vs = Some d \<Longrightarrow> clean_dict s d"
  by (induction vs) (auto simp: screener_data_clean split: option.splits if_splits)

lemma from_details_clean: "from_details s d = Some det \<Longrightarrow> clean_dict s det"
  by (auto simp: from_details_def clean_dict_def Let_def split: option.splits list.splits)

definition field_of :: "string \<Rightarrow> dict option \<Rightarrow> string \<Rightarrow> val" where
  "field_of s d k = (case d of None \<Rightarrow> if k = ''symbol'' then VStr s else VNone | Some m \<Rightarrow> dget m k)"

definition filled :: "string \<Rightarrow> dict option \<Rightarrow> dict option \<Rightarrow> string \<Rightarrow> val" where
  "filled s screener det k =
     (let a = field_of s screener k in if a \<noteq> VNone then a else if missing_core screener then field_of s det k else VNone)"

lemma field_of_none: "field_of s None k = (if k = ''symbol'' then VStr s else VNone)"
  by (simp add: field_of_def)

lemma field_of_some: "field_of s (Some m) k = dget m k"
  by (simp add: field_of_def)

lemma field_symbol: "(\<And>d. x = Some d \<Longrightarrow> clean_dict s d) \<Longrightarrow> field_of s x ''symbol'' = VStr s"
  by (cases x) (simp_all add: field_of_def clean_dict_def)

lemma merged_fields:
  assumes sc: "\<And>d. screener = Some d \<Longrightarrow> clean_dict s d"
  shows "distinct (map fst (merged s screener details)) \<and>
    (k \<noteq> ''source'' \<longrightarrow> dget (merged s screener details) k = filled s screener (from_details s details) k)"
proof -
  define base where "base = (case screener of Some d \<Rightarrow> if d = [] then [(''symbol'', VStr s)] else d | None \<Rightarrow> [(''symbol'', VStr s)])"
  have base: "distinct (map fst base)" "dget base k = field_of s screener k" for k
    using sc by (auto simp: base_def clean_dict_def field_of_def split: option.split)
  have sym: "field_of s screener ''symbol'' = VStr s" using field_symbol sc by blast
  note defs = merged_def base_def[symmetric] Let_def filled_def
  show ?thesis
  proof (cases "from_details s details")
    case None
    with base sym show ?thesis by (auto simp: defs field_of_none)
  next
    case (Some det)
    then have det: "distinct (map fst det)" using from_details_clean by (auto simp: clean_dict_def)
    show ?thesis using Some base det dget_fill[OF det, of base] distinct_fill[OF base(1), of det]
      by (auto simp: defs field_of_some intro: distinct_dput)
  qed
qed

text \<open>C20: 
  On a cache miss the answer is, field by field, the figure scraped from the first usable page; where the page has none, and
  fewer than three of the core ratios were found, the figure of the exchange details. No scraped figure is ever overwritten.
  The answer is cached when it has a figure; without one there is no answer and the cache is unchanged.
\<close>

theorem fundamentals_fill:
  assumes "map_of c (upper (strip symbol)) = None"
    and "fetch_fundamentals now tm site details symbol c = (r, c')"
    and "scraped = scrape_screener site (upper (strip symbol))"
    and "det = from_details (upper (strip symbol)) (details (upper (strip symbol)))"
  shows "case r of
      None \<Rightarrow> c' = c \<and> (\<forall>k. k = ''symbol'' \<or> k = ''source'' \<or> filled (upper (strip symbol)) scraped det k = VNone)
    | Some d \<Rightarrow> map_of c' (upper (strip symbol)) = Some (tm, d) \<and>
        (\<exists>k. k \<noteq> ''symbol'' \<and> k \<noteq> ''source'' \<and> dget d k \<noteq> VNone) \<and>
        (\<forall>k. k = ''source'' \<or> dget d k = filled (upper (strip symbol)) scraped det k)"
proof -
  define s where "s = upper (strip symbol)"
  have "\<And>d. scraped = Some d \<Longrightarrow> clean_dict (upper (strip s)) d"
    using scrape_variants_clean by (auto simp: assms(3) scrape_screener_def Let_def s_def)
  moreover have "upper (strip s) = s" by (simp add: s_def strip_upper)
  ultimately have sc: "\<And>d. scraped = Some d \<Longrightarrow> clean_dict s d" by simp
  define base where "base = merged s scraped (details s)"
  have base: "distinct (map fst base)" "k \<noteq> ''source'' \<Longrightarrow> dget base k = filled s scraped det k" for k
    using merged_fields[OF sc] by (auto simp: base_def assms(4) s_def)
  have res: "(if has_data base then (Some base, dput s (tm, base) c) else (None, c)) = (r, c')"
    using assms(1,2) by (auto simp: fetch_fundamentals_def Let_def s_def base_def assms(3) split: if_splits)
  show ?thesis
  proof (cases "has_data base")
    case True
    then have some: "r = Some base" "c' = dput s (tm, base) c" using res by simp_all
    have "\<exists>k. k \<noteq> ''symbol'' \<and> k \<noteq> ''source'' \<and> dget base k \<noteq> VNone" using True has_data_iff[OF base(1)] by blast
    moreover have "\<forall>k. k = ''source'' \<or> dget base k = filled s scraped det k" using base(2) by blast
    ultimately show ?thesis unfolding s_def[symmetric] some by simp
  next
    case False
    then have none: "r = None" "c' = c" using res by simp_all
    have "filled s scraped det k = VNone" if "k \<noteq> ''symbol''" "k \<noteq> ''source''" for k
      using False has_data_iff[OF base(1)] base(2)[OF that(2)] that by metis
    then show ?thesis unfolding s_def[symmetric] none by (simp only: option.case) blast
  qed
qed

text \<open>A cached answer is returned unchanged for six hours, whatever the sources say.\<close>

interpretation fund_read: read_through "\<lambda>c. map_of c (upper (strip symbol))"
  "\<lambda>now (tm, site, details) c. fetch_fundamentals now tm site details symbol c" Some fund_ttl for symbol
  by unfold_locales (auto simp: fetch_fundamentals_def Let_def split: option.splits if_splits prod.splits)

definition demo_page :: screener_page where
  "demo_page = \<lparr>sp_status = 200, sp_length = 60000, sp_ratios = [(''ROE  '', ''1,2.5'')],
     sp_promoter = Some ''51.2'', sp_sales3 = None, sp_sales5 = None, sp_profit3 = None, sp_opm = None,
     sp_pl = [], sp_bs = []\<rparr>"

definition demo_details :: dict where
  "demo_details = [(''fundamentals'', VDict [(''pe'', VNum 30), (''book_value'', VStr ''50'')]), (''price'', VDict [(''ltp'', VNum 110)])]"

lemma demo_ratios: "ratio_map (sp_ratios demo_page) = [(''roe'', 125 / 10)]"
proof -
  have "ratio_key ''ROE  '' = ''roe''"
    unfolding ratio_key_def by (simp add: strip_def is_space_def) code_simp
  moreover have "screen_num ''1,2.5'' = Some (125 / 10)" by code_simp
  ultimately show ?thesis by (simp add: ratio_map_def demo_page_def)
qed

lemma demo_words:
  "lower ''current price'' = ''current price''" "lower ''book value'' = ''book value''" "lower ''stock p/e'' = ''stock p/e''"
  "lower ''p/e'' = ''p/e''" "lower ''roe'' = ''roe''" "lower ''roce'' = ''roce''" "lower ''dividend yield'' = ''dividend yield''"
  "lower ''market cap'' = ''market cap''" "lower ''eps'' = ''eps''" "lower ''face value'' = ''face value''"
  by (simp_all add: lower_def lower_char_def less_eq_char_def)

lemma demo_nums: "screen_num ''51.2'' = Some (512 / 10)" "comma_float (VStr ''50'') = Some 50" "py_round 2 (11 / 5) = 11 / 5"
  "comma_float VNone = None" "upper (strip ''TCS'') = ''TCS''" "upper (strip ''tcs'') = ''TCS''"
  by code_simp+

lemma demo_data: "screener_data ''TCS'' demo_page =
    [(''symbol'', VStr ''TCS''), (''pe'', VNone), (''pb'', VNone), (''roe'', VNum (125 / 10)), (''roce'', VNone), (''debtToEquity'', VNone),
     (''promoterHolding'', VNum (512 / 10)), (''salesGrowth3yr'', VNone), (''salesGrowth5yr'', VNone), (''profitGrowth3yr'', VNone),
     (''epsGrowth'', VNone), (''dividendYield'', VNone), (''operatingMargin'', VNone), (''netMargin'', VNone), (''marketCap'', VNone),
     (''eps'', VNone), (''bookValue'', VNone), (''faceValue'', VNone), (''source'', VStr ''screener.in'')]"
  unfolding screener_data_def demo_ratios Let_def
  by (simp add: demo_words demo_nums demo_page_def num_find_def ratio_of_def or_num_def debt_to_equity_def net_margin_def)

lemma demo_scrape: "scrape_screener (\<lambda>v. Some demo_page) ''TCS'' = Some (screener_data ''TCS'' demo_page)"
proof -
  have "sp_status demo_page = 200" "\<not> sp_length demo_page < 5000" by (simp_all add: demo_page_def)
  moreover have "has_data (screener_data ''TCS'' demo_page)" by (simp add: demo_data has_data_def)
  ultimately show ?thesis by (simp add: scrape_screener_def variants_def Let_def demo_nums)
qed

lemma demo_from_details: "from_details ''TCS'' (Some demo_details) =
    Some [(''symbol'', VStr ''TCS''), (''pe'', VNum 30), (''pb'', VNum (11 / 5)), (''eps'', VNone), (''bookValue'', VNum 50), (''faceValue'', VNone),
      (''dividendYield'', VNone), (''marketCap'', VNone), (''sector'', VNone), (''industryPe'', VNone)]"
  by (simp add: from_details_def demo_details_def Let_def demo_nums ratio_of_def comma_float_def[of "VNum _"])

text \<open>Two core ratios on the page are too few, so the details fill its gaps.\<close>

lemma demo_fundamentals:
  "\<exists>d. fst (fetch_fundamentals 0 0 (\<lambda>v. Some demo_page) (\<lambda>s. Some demo_details) ''tcs'' []) = Some d \<and>
     dget d ''roe'' = VNum (125 / 10) \<and> dget d ''pe'' = VNum 30 \<and> dget d ''source'' = VStr ''screener.in+moneycontrol''"
  by (simp add: fetch_fundamentals_def merged_def Let_def demo_nums demo_scrape demo_from_details demo_data missing_core_def
      core_keys_def fill_gap_def has_data_def)

theorem fundamentals_fill_witness:
  "\<exists>d c'. fetch_fundamentals 0 0 (\<lambda>v. Some demo_page) (\<lambda>s. Some demo_details) ''tcs'' [] = (Some d, c') \<and>
     dget d ''pe'' = filled ''TCS'' (scrape_screener (\<lambda>v. Some demo_page) ''TCS'') (from_details ''TCS'' (Some demo_details)) ''pe'' \<and>
     dget d ''pe'' = VNum 30"
proof -
  obtain d c' where d: "fetch_fundamentals 0 0 (\<lambda>v. Some demo_page) (\<lambda>s. Some demo_details) ''tcs'' [] = (Some d, c')" "dget d ''pe'' = VNum 30"
    using demo_fundamentals by (metis prod.collapse)
  have "map_of ([] :: fund_cache) (upper (strip ''tcs'')) = None" by simp
  from fundamentals_fill[OF this d(1) refl refl]
  have "\<forall>k. k = ''source'' \<or> dget d k =
      filled ''TCS'' (scrape_screener (\<lambda>v. Some demo_page) ''TCS'') (from_details ''TCS'' (Some demo_details)) k"
    unfolding demo_nums option.case by (elim conjE)
  then have "''pe'' = ''source'' \<or> dget d ''pe'' =
      filled ''TCS'' (scrape_screener (\<lambda>v. Some demo_page) ''TCS'') (from_details ''TCS'' (Some demo_details)) ''pe''"
    by (rule spec)
  with d show ?thesis by simp
qed

section \<open>Where the details come from\<close>

lemma comma_float_none [simp]: "comma_float VNone = None"
  by code_simp

text \<open>What the gap filler makes of a details document, by the parts it reads.\<close>

lemma from_details_reads:
  assumes "from_details s (Some det) = Some f"
    and "sub_dict (dget det ''fundamentals'') = fn" and "sub_dict (dget det ''traded'') = tr"
  shows "dget f ''pe'' = vnum (comma_float (dget fn ''pe''))" and "dget f ''eps'' = vnum (comma_float (dget fn ''eps_ttm''))"
    and "dget f ''bookValue'' = vnum (comma_float (dget fn ''book_value''))"
    and "dget f ''faceValue'' = vnum (comma_float (dget fn ''face_value''))"
    and "dget f ''dividendYield'' = vnum (comma_float (dget fn ''div_yield''))"
    and "dget f ''marketCap'' = vnum (comma_float (dget tr ''mcap_cr''))" and "dget f ''sector'' = dget fn ''sector''"
    and "comma_float (dget fn ''book_value'') = None \<Longrightarrow> dget f ''pb'' = VNone"
proof -
  obtain x xs where "det = x # xs" using assms(1) by (cases det) (auto simp: from_details_def)
  then have f: "f = the (from_details s (Some (x # xs)))" and "dget f ''symbol'' = VStr s"
    using assms(1) by (auto simp: from_details_def Let_def)
  note f' = f[unfolded from_details_def Let_def, simplified]
  show "dget f ''pe'' = vnum (comma_float (dget fn ''pe''))" "dget f ''eps'' = vnum (comma_float (dget fn ''eps_ttm''))"
    "dget f ''bookValue'' = vnum (comma_float (dget fn ''book_value''))"
    "dget f ''faceValue'' = vnum (comma_float (dget fn ''face_value''))"
    "dget f ''dividendYield'' = vnum (comma_float (dget fn ''div_yield''))"
    "dget f ''marketCap'' = vnum (comma_float (dget tr ''mcap_cr''))" "dget f ''sector'' = dget fn ''sector''"
    using f' assms(2, 3) \<open>det = x # xs\<close> by simp_all
  show "dget f ''pb'' = VNone" if "comma_float (dget fn ''book_value'') = None"
    using f' assms(2) that \<open>det = x # xs\<close> by (simp add: ratio_of_def split: option.splits)
qed

lemma mc_details_parts:
  assumes "mc_details bse s0 d = Some det"
  shows "dget (sub_dict (dget det ''fundamentals'')) ''pe'' = dget d ''sc_mapindex''"
    and "dget (sub_dict (dget det ''fundamentals'')) ''eps_ttm'' = dget d ''sc_ttm_cons''"
    and "dget (sub_dict (dget det ''fundamentals'')) ''book_value'' = dget d ''BV''"
    and "dget (sub_dict (dget det ''fundamentals'')) ''face_value'' = dget d ''FV''"
    and "dget (sub_dict (dget det ''fundamentals'')) ''div_yield'' = dget d ''DY''"
    and "dget (sub_dict (dget det ''fundamentals'')) ''sector'' = dget d ''main_sector''"
    and "dget (sub_dict (dget det ''traded'')) ''mcap_cr'' = dget d ''MKTCAP''"
  using assms by (simp_all add: mc_details_def pick_fields_def split: if_splits) (hypsubst, simp)+

text \<open>The gap filler reads the details under the names the Moneycontrol panel writes them.\<close>

lemma moneycontrol_fills:
  assumes "mc_details bse s0 d = Some det" "from_details s (Some det) = Some f"
  shows "dget f ''pe'' = vnum (comma_float (dget d ''sc_mapindex'')) \<and> dget f ''eps'' = vnum (comma_float (dget d ''sc_ttm_cons'')) \<and>
    dget f ''bookValue'' = vnum (comma_float (dget d ''BV'')) \<and> dget f ''faceValue'' = vnum (comma_float (dget d ''FV'')) \<and>
    dget f ''dividendYield'' = vnum (comma_float (dget d ''DY'')) \<and> dget f ''marketCap'' = vnum (comma_float (dget d ''MKTCAP'')) \<and>
    dget f ''sector'' = dget d ''main_sector''"
  by (simp only: from_details_reads[OF assms(2) refl refl] mc_details_parts[OF assms(1)])

lemma bse_details_parts:
  assumes "bse_details s0 code hdr com hl trd book = Some det"
  shows "dget (sub_dict (dget det ''fundamentals'')) ''pe'' = dget com ''PE''"
    and "dget (sub_dict (dget det ''fundamentals'')) ''eps_ttm'' = VNone"
    and "dget (sub_dict (dget det ''fundamentals'')) ''book_value'' = VNone"
    and "dget (sub_dict (dget det ''traded'')) ''mcap_cr'' = VNone"
  using assms by (simp_all add: bse_details_def pick_fields_def Let_def split: if_splits) (hypsubst, simp)+

text \<open>Of the panel of the BSE site, which has earnings per share, price to book and the full market capitalisation under names
  of its own, it finds none of the three.\<close>

lemma bse_details_lost:
  assumes "bse_details s0 code hdr com hl trd book = Some det" "from_details s (Some det) = Some f"
  shows "dget f ''eps'' = VNone \<and> dget f ''pb'' = VNone \<and> dget f ''marketCap'' = VNone \<and> dget f ''bookValue'' = VNone \<and>
    dget f ''pe'' = vnum (comma_float (dget com ''PE''))"
  using from_details_reads[OF assms(2) refl refl] bse_details_parts[OF assms(1)] by simp

end
