(* ===== verification/SbLookup.thy ===== *)
theory SbLookup
  imports QuoteApi Fundamentals Archives
begin

text \<open>
  The remaining endpoints of \<^verbatim>\<open>src/api/endpoints/superbrain.py\<close>: the instrument universe and the symbol resolver over a
  snapshot, the event stream of live ticks over the sampler, the mood index, the warm-cache report and the diagnostics
  verdict.
\<close>

section \<open>Resolver and universe\<close>

definition sym_text :: "dict \<Rightarrow> string" where
  "sym_text r = (if truthy_val (dget r ''symbol'') then str_of (dget r ''symbol'') else [])"

fun resolve_loop :: "string \<Rightarrow> dict list \<Rightarrow> dict list \<Rightarrow> dict list" where
  "resolve_loop q [] ms = ms"
| "resolve_loop q (r # rs) ms =
     (let s = upper (sym_text r);
          ms' = (if q = s then r # ms else if contains_text s q then ms @ [r] else ms)
      in if 20 \<le> length ms' then ms' else resolve_loop q rs ms')"

definition field_or :: "dict \<Rightarrow> string \<Rightarrow> val \<Rightarrow> val" where
  "field_or d k v = (case map_of d k of None \<Rightarrow> v | Some w \<Rightarrow> w)"

definition item_isin :: "archive \<Rightarrow> dict \<Rightarrow> val" where
  "item_isin a r = val_or (dget r ''isin'') (vstr (isin_for a (sym_text r)))"

definition match_item :: "archive \<Rightarrow> string \<Rightarrow> dict \<Rightarrow> dict" where
  "match_item a exch r =
     [(''symbol'', dget r ''symbol''), (''name'', val_or (dget r ''name'') (dget r ''symbol'')),
      (''exchange'', field_or r ''exchange'' (VStr (upper exch))), (''isin'', item_isin a r), (''series'', dget r ''series'')]"

definition sb_resolve :: "(string \<Rightarrow> dict list) \<Rightarrow> archive \<Rightarrow> string \<Rightarrow> string \<Rightarrow> http_error + dict list" where
  "sb_resolve snap a q exch =
     (let ms = resolve_loop (upper (strip q)) (snap (upper (strip exch))) []
      in if ms = [] then Inl 404 else Inr (map (match_item a exch) (take 20 ms)))"

definition universe_item :: "archive \<Rightarrow> string \<Rightarrow> dict \<Rightarrow> dict" where
  "universe_item a exch r =
     [(''symbol'', dget r ''symbol''), (''name'', val_or (dget r ''name'') (dget r ''symbol'')), (''sector'', dget r ''sector''),
      (''exchange'', field_or r ''exchange'' (VStr (upper exch))), (''series'', dget r ''series''), (''isin'', item_isin a r)]"

definition sb_universe :: "(string \<Rightarrow> dict list) \<Rightarrow> archive \<Rightarrow> string \<Rightarrow> nat \<Rightarrow> nat \<Rightarrow> nat \<times> dict list" where
  "sb_universe snap a exch limit offset =
     (let rows = snap (upper (strip exch)) in (length rows, map (universe_item a exch) (take limit (drop offset rows))))"

section \<open>The event stream\<close>

datatype sse = Opened | TickFrame latest | KeepAlive | Closed

text \<open>A poll is the clock and the sampler as it is then. The list of polls ends when the client goes away.\<close>

fun stream_loop :: "string \<Rightarrow> string \<Rightarrow> secs \<Rightarrow> secs \<Rightarrow> secs option \<Rightarrow> (secs \<times> engine) list \<Rightarrow> sse list" where
  "stream_loop s exch max_s start prev [] = []"
| "stream_loop s exch max_s start prev ((now, e) # ps) =
     (if now - start < max_s then
        (case fst (latest_tick s exch now e) of
           Some t \<Rightarrow> if Some (lt_epoch t) \<noteq> prev then TickFrame t # stream_loop s exch max_s start (Some (lt_epoch t)) ps
                     else KeepAlive # stream_loop s exch max_s start prev ps
         | None \<Rightarrow> KeepAlive # stream_loop s exch max_s start prev ps)
      else [Closed])"

definition sb_stream :: "string \<Rightarrow> string \<Rightarrow> secs \<Rightarrow> secs \<Rightarrow> (secs \<times> engine) list \<Rightarrow> http_error + sse list" where
  "sb_stream symbol exch max_s start polls =
     (if reject_index symbol then Inl 400 else Inr (Opened # stream_loop (canonical_symbol symbol) exch max_s start None polls))"

section \<open>Mood, warm cache, diagnostics\<close>

definition sb_mmi :: "secs \<Rightarrow> secs \<Rightarrow> dict option \<Rightarrow> tt_state \<Rightarrow> (http_error + mmi) option \<times> tt_state" where
  "sb_mmi now tm reply st =
     (case fetch_mmi now tm reply st of
        (None, st') \<Rightarrow> (None, st') | (Some None, st') \<Rightarrow> (Some (Inl 503), st') | (Some (Some m), st') \<Rightarrow> (Some (Inr m), st'))"

record warm_report =
  wp_enabled :: bool
  wp_symbols :: "string list"
  wp_count :: nat
  wp_refreshes :: nat
  wp_last_count :: nat
  wp_last_ms :: "rat option"
  wp_age :: "rat option"

definition sb_warm_status :: "warm_cfg \<Rightarrow> string list \<Rightarrow> secs \<Rightarrow> sb_state \<Rightarrow> warm_report" where
  "sb_warm_status cfg watchlist now st =
     (let syms = warm_symbols cfg watchlist
      in \<lparr>wp_enabled = (syms \<noteq> []), wp_symbols = syms, wp_count = length syms, wp_refreshes = sb_refreshes st,
          wp_last_count = sb_last_count st, wp_last_ms = sb_last_ms st,
          wp_age = (case sb_last_refresh st of None \<Rightarrow> None | Some t \<Rightarrow> if t = 0 then None else Some (py_round 1 (now - t)))\<rparr>)"

text \<open>A probe: the exception, or what the source gave.\<close>

type_synonym 'a probe = "'a option"

record verdict =
  vd_live :: string
  vd_intraday :: string
  vd_daily :: string
  vd_fundamentals :: string

definition null_fields :: "dict \<Rightarrow> string list" where
  "null_fields d = map fst (filter (\<lambda>e. snd e = VNone) d)"

definition present_fields :: "dict \<Rightarrow> string list" where
  "present_fields d = map fst (filter (\<lambda>e. snd e \<noteq> VNone \<and> fst e \<noteq> ''symbol'' \<and> fst e \<noteq> ''source'') d)"

definition probe_count :: "'a list option probe \<Rightarrow> nat" where
  "probe_count p = (case p of Some (Some xs) \<Rightarrow> length xs | _ \<Rightarrow> 0)"

definition diagnostics_verdict :: "tick option probe \<Rightarrow> 'p list option probe \<Rightarrow> 'q list option probe \<Rightarrow> 'h list option probe \<Rightarrow>
    dict option probe \<Rightarrow> verdict" where
  "diagnostics_verdict live tt bse daily fund =
     \<lparr>vd_live = (case live of Some (Some t) \<Rightarrow> ''REAL'' | _ \<Rightarrow> ''UNAVAILABLE''),
      vd_intraday = (if 0 < probe_count tt then ''REAL_NSE_TICKERTAPE'' else if 0 < probe_count bse then ''REAL_BSE'' else ''YAHOO_FALLBACK_OR_NONE''),
      vd_daily = (if 0 < probe_count daily then ''OK'' else ''UNAVAILABLE''),
      vd_fundamentals = (case fund of Some (Some (x # xs)) \<Rightarrow> ''OK'' | _ \<Rightarrow> ''UNAVAILABLE'')\<rparr>"

text \<open>The entry of a probed source: \<open>ms\<close> is how long it took, \<open>err\<close> the text of its exception, \<open>full\<close> the truth of its value.\<close>

definition probe_entry :: "(string \<Rightarrow> rat) \<Rightarrow> (string \<Rightarrow> string) \<Rightarrow> string \<Rightarrow> ('a \<Rightarrow> bool) \<Rightarrow> 'a option probe \<Rightarrow> dict" where
  "probe_entry ms err n full p =
     [(''ok'', VBool (case p of Some (Some x) \<Rightarrow> full x | _ \<Rightarrow> False)), (''latencyMs'', VNum (py_round 1 (ms n)))]
       @ (case p of None \<Rightarrow> [(''error'', VStr (take 140 (err n)))] | Some _ \<Rightarrow> [])"

record ('p, 'q) diagnostics =
  dg_symbol :: string
  dg_exchange :: string
  dg_market :: bool
  dg_live :: dict
  dg_tickertape :: "dict \<times> 'p option"
  dg_bse :: "dict \<times> 'q option"
  dg_daily :: dict
  dg_fundamentals :: dict
  dg_verdict :: verdict

definition last_point :: "'a list option probe \<Rightarrow> 'a option" where
  "last_point p = (case p of Some (Some (x # xs)) \<Rightarrow> Some (last (x # xs)) | _ \<Rightarrow> None)"

definition live_entry :: "meta_cache \<Rightarrow> bool \<Rightarrow> datetime \<Rightarrow> tick option probe \<Rightarrow> dict" where
  "live_entry mc mkt wall live =
     (case live of
        Some (Some t) \<Rightarrow>
          (let q = sb_quote mc mkt wall t
           in [(''source'', dget q ''source''), (''dataQuality'', dget q ''dataQuality''), (''nullFields'', VList (map VStr (null_fields q))),
               (''ltp'', dget q ''price'')])
      | _ \<Rightarrow> [])"

definition fund_entry :: "dict option probe \<Rightarrow> dict" where
  "fund_entry fund =
     (case fund of
        Some (Some (e # d)) \<Rightarrow>
          [(''source'', dget (e # d) ''source''), (''presentFields'', VList (map VStr (present_fields (e # d)))),
           (''nullFields'', VList (map VStr (null_fields (e # d))))]
      | _ \<Rightarrow> [])"

text \<open>The daily candles are objects.\<close>

definition sb_diagnostics :: "meta_cache \<Rightarrow> bool \<Rightarrow> datetime \<Rightarrow> (string \<Rightarrow> rat) \<Rightarrow> (string \<Rightarrow> string) \<Rightarrow> string \<Rightarrow> string \<Rightarrow>
    tick option probe \<Rightarrow> 'p list option probe \<Rightarrow> 'q list option probe \<Rightarrow> dict list option probe \<Rightarrow> dict option probe \<Rightarrow> ('p, 'q) diagnostics" where
  "sb_diagnostics mc mkt wall ms err sm exch live tt bse daily fund =
     (let e = probe_entry ms err; points = (\<lambda>n. (''points'', VInt (int n)))
      in \<lparr>dg_symbol = canonical_symbol sm, dg_exchange = exch, dg_market = mkt,
          dg_live = e ''live_quote'' (\<lambda>_. True) live @ live_entry mc mkt wall live,
          dg_tickertape = (probe_entry ms err ''tickertape_intraday'' (\<lambda>xs. xs \<noteq> []) tt @ [points (probe_count tt)], last_point tt),
          dg_bse = (probe_entry ms err ''bse_intraday'' (\<lambda>xs. xs \<noteq> []) bse @ [points (probe_count bse)], last_point bse),
          dg_daily = probe_entry ms err ''daily_history'' (\<lambda>xs. xs \<noteq> []) daily @ [(''candles'', VInt (int (probe_count daily))),
            (''lastClose'', case last_point daily of None \<Rightarrow> VNone | Some d \<Rightarrow> vnum (to_float (dget d ''close'')))],
          dg_fundamentals = probe_entry ms err ''fundamentals'' (\<lambda>d. d \<noteq> []) fund @ fund_entry fund,
          dg_verdict = diagnostics_verdict live tt bse daily fund\<rparr>)"

text \<open>Within five minutes of a stored reading the endpoint gives that reading, whatever Tickertape would say.\<close>

lemma sb_mmi_repeats: "ts_mmi st = Some (t, m) \<Longrightarrow> now - t < 300 \<Longrightarrow> sb_mmi now tm reply st = (Some (Inr m), st)"
  using mmi_read.hit[of st t m now "(tm, reply)"] by (simp add: sb_mmi_def)

section \<open>What the resolver finds\<close>

abbreviation hits :: "string \<Rightarrow> dict list \<Rightarrow> dict list" where
  "hits q rows \<equiv> filter (\<lambda>r. contains_text (upper (sym_text r)) q) rows"

definition exact_first :: "string \<Rightarrow> dict list \<Rightarrow> dict list" where
  "exact_first q rs = rev (filter (\<lambda>r. upper (sym_text r) = q) rs) @ filter (\<lambda>r. upper (sym_text r) \<noteq> q) rs"

lemma starts_with_refl [simp]: "starts_with s s"
  by (induction s) simp_all

lemma contains_refl [simp]: "contains_text s s"
  by (cases s) simp_all

lemma length_exact_first [simp]: "length (exact_first q rs) = length rs"
  by (induction rs) (simp_all add: exact_first_def)

lemma exact_first_snoc: "exact_first q (rs @ [r]) = (if upper (sym_text r) = q then r # exact_first q rs else exact_first q rs @ [r])"
  by (simp add: exact_first_def)

lemma resolve_loop_spec:
  "length seen < 20 \<Longrightarrow> resolve_loop q rows (exact_first q seen) = exact_first q (take 20 (seen @ hits q rows))"
proof (induction rows arbitrary: seen)
  case (Cons r rows)
  show ?case
  proof (cases "contains_text (upper (sym_text r)) q")
    case True
    have ms: "(if q = upper (sym_text r) then r # exact_first q seen
        else if contains_text (upper (sym_text r)) q then exact_first q seen @ [r] else exact_first q seen) = exact_first q (seen @ [r])"
      using True by (simp add: exact_first_snoc)
    show ?thesis
    proof (cases "length seen = 19")
      case True': True
      with True ms show ?thesis by (simp add: Let_def)
    next
      case False
      with Cons.prems have "length (seen @ [r]) < 20" by simp
      from Cons.IH[OF this] True ms this show ?thesis by (simp add: Let_def)
    qed
  next
    case False
    then have "q \<noteq> upper (sym_text r)" by auto
    with False Cons show ?thesis by (simp add: Let_def)
  qed
qed simp

lemma sb_resolve_search:
  "sb_resolve snap a q exch =
     (let hs = hits (upper (strip q)) (snap (upper (strip exch)))
      in if hs = [] then Inl 404 else Inr (map (match_item a exch) (exact_first (upper (strip q)) (take 20 hs))))"
proof -
  have "exact_first q' rs = [] \<longleftrightarrow> rs = []" for q' rs
    using length_exact_first[of q' rs] by (metis length_0_conv)
  moreover have "take 20 (exact_first q' (take 20 rs)) = exact_first q' (take 20 rs)" for q' rs
    by (rule take_all) simp
  ultimately show ?thesis
    using resolve_loop_spec[of "[]" "upper (strip q)" "snap (upper (strip exch))"]
    by (simp add: sb_resolve_def Let_def exact_first_def[of _ "[]"])
qed

text \<open>The endpoint is announced as resolving company names and aliases as well. It never looks at a name: a query that no symbol
  contains is refused, whatever the rows are called.\<close>

lemma company_name_not_resolved:
  assumes "\<forall>r\<in>set (snap (upper (strip exch))). \<not> contains_text (upper (sym_text r)) (upper (strip q))"
  shows "sb_resolve snap a q exch = Inl 404"
  using assms by (simp add: sb_resolve_search Let_def filter_empty_conv)

lemma tata_consultancy_not_resolved:
  "sb_resolve (\<lambda>_. [[(''symbol'', VStr ''TCS''), (''name'', VStr ''Tata Consultancy'')]]) a ''Tata Consultancy'' ''NSE'' = Inl 404"
proof (rule company_name_not_resolved)
  have "\<not> contains_text (upper ''TCS'') (upper (strip ''Tata Consultancy''))" by code_simp
  then show "\<forall>r\<in>set [[(''symbol'', VStr ''TCS''), (''name'', VStr ''Tata Consultancy'')]].
      \<not> contains_text (upper (sym_text r)) (upper (strip ''Tata Consultancy''))"
    by (simp add: sym_text_def)
qed

text \<open>C30: What the resolver does, which is less than what its summary and the integration document promise (company names and
  aliases): it is a search in the symbols alone. It returns the first twenty rows of the exchange's snapshot whose symbol
  contains the query, exact matches first, and refuses with 404 exactly when no symbol contains it, so that a company's name is
  refused unless it happens to be part of a symbol.\<close>

theorem resolve_is_search:
  "sb_resolve snap a q exch =
     (let hs = filter (\<lambda>r. contains_text (upper (sym_text r)) (upper (strip q))) (snap (upper (strip exch)))
      in if hs = [] then Inl 404 else Inr (map (match_item a exch) (exact_first (upper (strip q)) (take 20 hs))))"
  by (rule sb_resolve_search)

text \<open>The search stops at twenty hits before it has seen the row that matches exactly.\<close>

lemma exact_match_cut:
  defines "rows \<equiv> replicate 20 [(''symbol'', VStr ''ATCS'')] @ [[(''symbol'', VStr ''TCS'')]]"
  shows "\<exists>ms. sb_resolve (\<lambda>_. rows) new_archive ''TCS'' ''NSE'' = Inr ms \<and> list_all (\<lambda>m. dget m ''symbol'' = VStr ''ATCS'') ms"
proof -
  have u: "upper ''ATCS'' = ''ATCS''" "upper (strip ''TCS'') = ''TCS''" by code_simp+
  have "hits ''TCS'' rows = rows" by (simp add: rows_def sym_text_def u filter_id_conv) (simp add: upper_def upper_char_def less_eq_char_def)
  then show ?thesis
    unfolding sb_resolve_search Let_def u
    by (simp add: rows_def exact_first_def match_item_def list_all_iff sym_text_def u)
qed

section \<open>What the stream sends\<close>


definition polled :: "string \<Rightarrow> string \<Rightarrow> (secs \<times> engine) list \<Rightarrow> secs list" where
  "polled s exch polls = map lt_epoch (List.map_filter (\<lambda>(now, e). fst (latest_tick s exch now e)) polls)"

lemma polled_simps [simp]: "polled s exch [] = []"
  "polled s exch ((now, e) # ps) = (case fst (latest_tick s exch now e) of None \<Rightarrow> [] | Some t \<Rightarrow> [lt_epoch t]) @ polled s exch ps"
  by (simp_all add: polled_def map_filter_simps split: option.split)



lemma stream_loop_closed: "Closed \<in> set (stream_loop s exch m start prev ps) \<longleftrightarrow> list_ex (\<lambda>p. m \<le> fst p - start) ps"
proof (induction ps arbitrary: prev)
  case (Cons p ps)
  obtain now e where p: "p = (now, e)" by (cases p)
  show ?case
  proof (cases "now - start < m")
    case True
    with Cons.IH p show ?thesis by (simp split: option.split)
  next
    case False
    with p show ?thesis by simp
  qed
qed simp

lemma stream_loop_length: "length (stream_loop s exch m start prev ps) \<le> Suc (length (takeWhile (\<lambda>p. fst p - start < m) ps))"
  by (induction ps arbitrary: prev) (auto split: option.split)


definition demo_sampler :: "secs \<Rightarrow> engine" where
  "demo_sampler t = record_sample default_live_cfg ''TCS'' ''NSE'' (Some 3500) (Some 10) t (Some ''groww'') new_engine"

definition demo_polls :: "(secs \<times> engine) list" where
  "demo_polls = [(100, demo_sampler 99), (101, demo_sampler 99), (102, demo_sampler 101), (106, demo_sampler 101)]"



text \<open>
  With polls at least a fifth of a second apart the stream ends: it sends at most five frames a second and three more, and
  after five times its seconds, and one poll more, it has closed.
\<close>

theorem stream_closes:
  assumes "sb_stream symbol exch max_s start polls = Inr frames" "0 \<le> max_s"
    and "\<And>i. i < length polls \<Longrightarrow> start + of_nat i / 5 \<le> fst (polls ! i)"
  shows "of_nat (length frames) \<le> 5 * max_s + 3 \<and> (5 * max_s + 1 \<le> of_nat (length polls) \<longrightarrow> Closed \<in> set frames)"
proof -
  define tw where "tw = takeWhile (\<lambda>p. fst p - start < max_s) polls"
  have frames: "length frames \<le> length tw + 2" "Closed \<in> set frames \<longleftrightarrow> list_ex (\<lambda>p. max_s \<le> fst p - start) polls"
    using assms(1) stream_loop_length stream_loop_closed by (auto simp: sb_stream_def tw_def split: if_splits)
  have tw: "of_nat (length tw) \<le> 5 * max_s + 1"
  proof (cases "length tw")
    case 0
    with assms(2) show ?thesis by simp
  next
    case (Suc k)
    then have "k < length tw" by simp
    moreover from this have "tw ! k = polls ! k" "k < length polls"
      unfolding tw_def using takeWhile_nth length_takeWhile_le by (blast, metis order_less_le_trans)
    ultimately have "fst (polls ! k) - start < max_s" "start + of_nat k / 5 \<le> fst (polls ! k)"
      using assms(3) nth_mem[of k tw] set_takeWhileD[of "tw ! k"] unfolding tw_def by auto
    with Suc show ?thesis by (simp add: field_simps)
  qed
  have "Closed \<in> set frames" if len: "5 * max_s + 1 \<le> of_nat (length polls)"
  proof -
    have "polls \<noteq> []" using len assms(2) by auto
    then have k: "length polls - 1 < length polls" by simp
    have "of_nat (length polls - 1) = (of_nat (length polls) :: rat) - 1" using \<open>polls \<noteq> []\<close> by (simp add: of_nat_diff Suc_leI)
    with len assms(3)[OF k] have "max_s \<le> fst (polls ! (length polls - 1)) - start" by (simp add: field_simps)
    with k frames(2) show ?thesis unfolding list_ex_iff by (metis nth_mem)
  qed
  moreover have "of_nat (length frames) \<le> (of_nat (length tw + 2) :: rat)" using frames(1) of_nat_le_iff by blast
  ultimately show ?thesis using tw by simp
qed


theorem stream_closes_witness:
  "\<exists>frames. sb_stream ''tcs'' ''NSE'' (3 / 5) 100 demo_polls = Inr frames \<and> length frames \<le> 6 \<and> Closed \<in> set frames"
proof -
  have "\<not> reject_index ''tcs''" by code_simp
  then obtain frames where f: "sb_stream ''tcs'' ''NSE'' (3 / 5) 100 demo_polls = Inr frames" by (simp add: sb_stream_def)
  have "(100 :: rat) + of_nat i / 5 \<le> fst (demo_polls ! i)" if "i < length demo_polls" for i
    using that by (auto simp: demo_polls_def nth_Cons split: nat.splits)
  from stream_closes[OF f _ this] have "of_nat (length frames) \<le> (6 :: rat)" "Closed \<in> set frames"
    by (simp_all add: demo_polls_def)
  then show ?thesis using f by (metis of_nat_le_iff of_nat_numeral)
qed

section \<open>The diagnostics\<close>

text \<open>The verdict says what the entries say.\<close>

lemma verdict_matches:
  fixes mc mkt wall ms err sm exch live tt bse daily fund
  defines "r \<equiv> sb_diagnostics mc mkt wall ms err sm exch live tt bse daily fund"
  shows "vd_live (dg_verdict r) = ''REAL'' \<longleftrightarrow> dget (dg_live r) ''ok'' = VBool True"
    and "vd_fundamentals (dg_verdict r) = ''OK'' \<longleftrightarrow> dget (dg_fundamentals r) ''ok'' = VBool True"
    and "vd_daily (dg_verdict r) = ''OK'' \<longleftrightarrow> dget (dg_daily r) ''ok'' = VBool True"
    and "vd_intraday (dg_verdict r) = ''REAL_NSE_TICKERTAPE'' \<longleftrightarrow> dget (fst (dg_tickertape r)) ''ok'' = VBool True"
  by (auto simp: r_def sb_diagnostics_def diagnostics_verdict_def probe_entry_def probe_count_def Let_def split: option.splits list.splits)

lemma val_or_text: "val_or v (VStr s) \<noteq> VNone"
  by (cases v) (simp_all add: val_or_def)

lemma freshness_full: "list_all (\<lambda>e. snd e \<noteq> VNone) (freshness now asof)"
  by (simp add: freshness_def split: option.split list.split)

lemma raw_null_optional: "list_all (\<lambda>e. snd e = VNone \<longrightarrow> fst e \<in> set optional_quote_fields) (raw_quote mc mkt now t)"
proof -
  have "list_all (\<lambda>e. snd e = VNone \<longrightarrow> fst e \<in> set optional_quote_fields) (freshness now asof)" for asof
    using freshness_full[of now asof] by (auto simp: list_all_iff)
  then show ?thesis by (simp add: raw_quote_def Let_def optional_quote_fields_def val_or_text)
qed

lemma null_only_optional:
  "e \<in> set (raw_quote mc mkt now t) \<Longrightarrow> snd e = VNone \<Longrightarrow> fst e \<in> set optional_quote_fields"
  using raw_null_optional[of mc mkt now t] by (auto simp: list_all_iff)

lemma clamp_puts:
  "clamp_low q = q \<or> (\<exists>x. clamp_low q = dput ''week52Low'' (VNum x) q)" "clamp_high q = q \<or> (\<exists>x. clamp_high q = dput ''week52High'' (VNum x) q)"
  by (auto simp: clamp_low_def clamp_high_def split: option.split)

text \<open>The list of null fields of the live quote is always empty: the shaping has dropped the nulls it is to report.\<close>

lemma live_null_fields_empty: "null_fields (sb_quote mc mkt now t) = []"
proof -
  let ?raw = "raw_quote mc mkt now t" and ?base = "clamp_high (clamp_low (raw_quote mc mkt now t))"
  have keys: "distinct (map fst ?raw)"
    by (simp add: raw_quote_def freshness_def Let_def split: option.split list.split)
  have put: "e \<in> set (dput k (VNum x) q) \<Longrightarrow> snd e = VNone \<Longrightarrow> e \<in> set q" for e k x q
    by (induction q) (auto split: if_splits)
  have low: "e \<in> set (clamp_low q) \<Longrightarrow> snd e = VNone \<Longrightarrow> e \<in> set q" for e q
    using put clamp_puts(1)[of q] by metis
  have high: "e \<in> set (clamp_high q) \<Longrightarrow> snd e = VNone \<Longrightarrow> e \<in> set q" for e q
    using put clamp_puts(2)[of q] by metis
  have base: "distinct (map fst ?base)"
    using keys by (auto simp: clamp_high_def clamp_low_def intro!: distinct_dput split: option.split)
  have sub: "set (foldl drop_blank q ks) \<subseteq> set q" for q ks
  proof (induction ks arbitrary: q)
    case (Cons k ks)
    have "set (drop_blank q k) \<subseteq> set q" by (auto simp: drop_blank_def ddel_def)
    with Cons[of "drop_blank q k"] show ?case by simp
  qed simp
  have False if e: "e \<in> set (sb_quote mc mkt now t)" "snd e = VNone" for e
  proof -
    from e sub have b: "e \<in> set ?base" by (auto simp: sb_quote_def)
    then have "dget ?base (fst e) = snd e" using map_of_is_SomeI[OF base, of "fst e" "snd e"] by (simp add: dget_def)
    moreover have "fst e \<in> set optional_quote_fields" using null_only_optional low high b e(2) by blast
    ultimately have "fst e \<notin> fst ` set (sb_quote mc mkt now t)" unfolding sb_quote_def using e(2) by (intro dropped_key) simp_all
    with e(1) show False by blast
  qed
  then show ?thesis by (force simp: null_fields_def filter_empty_conv)
qed

end
