(* ===== verification/Regex.thy ===== *)
theory Regex
  imports Prelude
begin

text \<open>
  What the scrapers use of Python's \<^verbatim>\<open>re\<close> module. Their patterns are sequences of single characters, of greedy or lazy
  repetitions of a character class, and of groups that are not nested and not repeated; the matcher tries the alternatives in
  the order of \<^verbatim>\<open>re\<close>, with backtracking, and yields the first that succeeds.
\<close>

section \<open>Patterns and the matcher\<close>

type_synonym char_class = "char \<Rightarrow> bool"

datatype item = One char_class | Rep bool nat "nat option" char_class | Open_Group | Close_Group

type_synonym pattern = "item list"

text \<open>What was matched: the whole text, the open group if any, the groups closed so far.\<close>

record found =
  fd_text :: string
  fd_open :: "string option"
  fd_groups :: "string list"

definition nothing_found :: found where
  "nothing_found = \<lparr>fd_text = [], fd_open = None, fd_groups = []\<rparr>"

definition eat :: "char \<Rightarrow> found \<Rightarrow> found" where
  "eat c k = k\<lparr>fd_text := fd_text k @ [c], fd_open := map_option (\<lambda>g. g @ [c]) (fd_open k)\<rparr>"

definition open_group :: "found \<Rightarrow> found" where
  "open_group k = k\<lparr>fd_open := Some []\<rparr>"

definition close_group :: "found \<Rightarrow> found" where
  "close_group k = (case fd_open k of None \<Rightarrow> k | Some g \<Rightarrow> k\<lparr>fd_open := None, fd_groups := fd_groups k @ [g]\<rparr>)"

definition room :: "nat option \<Rightarrow> bool" where
  "room hi \<longleftrightarrow> hi \<noteq> Some 0"

definition one_less :: "nat option \<Rightarrow> nat option" where
  "one_less hi = map_option (\<lambda>n. n - 1) hi"

definition first_of :: "'a option \<Rightarrow> 'a option \<Rightarrow> 'a option" where
  "first_of a b = (case a of None \<Rightarrow> b | Some x \<Rightarrow> Some x)"

function rx_match :: "pattern \<Rightarrow> found \<Rightarrow> string \<Rightarrow> (found \<times> string) option" where
  "rx_match [] k s = Some (k, s)"
| "rx_match (Open_Group # p) k s = rx_match p (open_group k) s"
| "rx_match (Close_Group # p) k s = rx_match p (close_group k) s"
| "rx_match (One P # p) k s = (case s of [] \<Rightarrow> None | c # cs \<Rightarrow> if P c then rx_match p (eat c k) cs else None)"
| "rx_match (Rep lazy lo hi P # p) k s =
     (let again = (case s of [] \<Rightarrow> None | c # cs \<Rightarrow>
            if P c \<and> room hi then rx_match (Rep lazy (lo - 1) (one_less hi) P # p) (eat c k) cs else None);
          on = (if lo = 0 then rx_match p k s else None)
      in if lazy then first_of on again else first_of again on)"
  by pat_completeness auto
termination by (relation "measures [\<lambda>(p, k, s). length s, \<lambda>(p, k, s). length p]") auto

declare rx_match.simps(5) [simp del]

lemma rep_Nil [simp]: "rx_match (Rep lazy lo hi P # p) k [] = (if lo = 0 then rx_match p k [] else None)"
  by (simp add: rx_match.simps(5) first_of_def Let_def split: option.split)

lemma rep_Cons [simp]:
  "rx_match (Rep lazy lo hi P # p) k (c # cs) =
     (let again = (if P c \<and> room hi then rx_match (Rep lazy (lo - 1) (one_less hi) P # p) (eat c k) cs else None);
          on = (if lo = 0 then rx_match p k (c # cs) else None)
      in if lazy then first_of on again else first_of again on)"
  by (simp add: rx_match.simps(5))

text \<open>\<^verbatim>\<open>re.search\<close>: the leftmost match, with the text behind it.\<close>

fun rx_search :: "pattern \<Rightarrow> string \<Rightarrow> (found \<times> string) option" where
  "rx_search p [] = rx_match p nothing_found []"
| "rx_search p (c # cs) = (case rx_match p nothing_found (c # cs) of Some m \<Rightarrow> Some m | None \<Rightarrow> rx_search p cs)"

text \<open>\<^verbatim>\<open>re.findall\<close> for a pattern without empty matches: one search after the other.\<close>

function rx_findall :: "pattern \<Rightarrow> string \<Rightarrow> found list" where
  "rx_findall p s =
     (case rx_search p s of
        None \<Rightarrow> []
      | Some (k, rest) \<Rightarrow> k # (if length rest < length s then rx_findall p rest else []))"
  by pat_completeness auto
termination by (relation "measure (\<lambda>(p, s). length s)") auto

declare rx_findall.simps [simp del]

text \<open>\<^verbatim>\<open>m.group(1)\<close> of a search.\<close>

definition first_group :: "pattern \<Rightarrow> string \<Rightarrow> string option" where
  "first_group p s = (case rx_search p s of None \<Rightarrow> None | Some (k, rest) \<Rightarrow> Some (hd (fd_groups k)))"

section \<open>Writing patterns\<close>

definition ignoring_case :: "char \<Rightarrow> char_class" where
  "ignoring_case c x \<longleftrightarrow> lower_char x = lower_char c"

definition lit :: "string \<Rightarrow> pattern" where
  "lit w = map (\<lambda>c. One (\<lambda>x. x = c)) w"

definition ilit :: "string \<Rightarrow> pattern" where
  "ilit w = map (\<lambda>c. One (ignoring_case c)) w"

definition any_char :: char_class where "any_char c \<longleftrightarrow> True"

definition not_char :: "char \<Rightarrow> char_class" where "not_char d c \<longleftrightarrow> c \<noteq> d"

definition star :: "char_class \<Rightarrow> item" where "star P = Rep False 0 None P"

definition many1 :: "char_class \<Rightarrow> item" where "many1 P = Rep False 1 None P"

definition maybe :: "char_class \<Rightarrow> item" where "maybe P = Rep False 0 (Some 1) P"

definition lazy_any :: "nat option \<Rightarrow> item" where "lazy_any hi = Rep True 0 hi any_char"

section \<open>Runs\<close>

text \<open>Having matched a text.\<close>

definition eats :: "string \<Rightarrow> found \<Rightarrow> found" where
  "eats w k = k\<lparr>fd_text := fd_text k @ w, fd_open := map_option (\<lambda>g. g @ w) (fd_open k)\<rparr>"

lemma eats_Nil [simp]: "eats [] k = k"
  by (simp add: eats_def option.map_ident)

lemma eats_eats [simp]: "eats v (eats w k) = eats (w @ v) k"
  by (simp add: eats_def option.map_comp comp_def)

lemma eat_eats [simp]: "eat c k = eats [c] k"
  by (simp add: eat_def eats_def)

text \<open>A literal.\<close>

definition lit_at :: "string \<Rightarrow> string \<Rightarrow> bool" where
  "lit_at w s \<longleftrightarrow> length w \<le> length s \<and> lower (take (length w) s) = lower w"

lemma lit_at_Nil [simp]: "lit_at [] s"
  by (simp add: lit_at_def lower_def)

lemma lit_at_Cons: "lit_at (d # w) s \<longleftrightarrow> (case s of [] \<Rightarrow> False | c # cs \<Rightarrow> ignoring_case d c \<and> lit_at w cs)"
  by (auto simp: lit_at_def lower_def ignoring_case_def split: list.split)

lemma ilit_match:
  "rx_match (ilit w @ p) k s = (if lit_at w s then rx_match p (eats (take (length w) s) k) (drop (length w) s) else None)"
proof (induction w arbitrary: k s)
  case (Cons d w)
  then show ?case by (cases s) (simp_all add: ilit_def lit_at_Cons)
qed (simp add: ilit_def)

lemma lit_at_append: "lit_at w (w @ s)"
  by (simp add: lit_at_def)

text \<open>A greedy run that what follows delimits.\<close>

lemma star_match:
  assumes "list_all P w" "\<And>k c cs. P c \<Longrightarrow> rx_match p k (c # cs) = None" "case s of [] \<Rightarrow> True | c # cs \<Rightarrow> \<not> P c"
  shows "rx_match (star P # p) k (w @ s) = rx_match p (eats w k) s"
  using assms(1)
proof (induction w arbitrary: k)
  case Nil
  with assms(3) show ?case by (cases s) (simp_all add: star_def first_of_def)
next
  case (Cons c w)
  then have "rx_match (star P # p) (eats [c] k) (w @ s) = rx_match p (eats (c # w) k) s" by simp
  then show ?case using Cons.prems assms(2)[of c k "w @ s"]
    by (simp add: star_def room_def one_less_def first_of_def split: option.split)
qed

lemma tag_end_match:
  assumes "CHR ''>'' \<notin> set a"
  shows "rx_match (star (not_char CHR ''>'') # lit ''>'' @ p) k (a @ CHR ''>'' # s) = rx_match p (eats (a @ ''>'') k) s"
  using assms star_match[of "not_char CHR ''>''" a "lit ''>'' @ p" "CHR ''>'' # s" k]
  by (auto simp: not_char_def lit_def list_all_iff)

text \<open>A lazy run up to the first place where the rest matches.\<close>

lemma lazy_match:
  assumes "\<And>i k. i < length w \<Longrightarrow> rx_match p k (drop i w @ s) = None"
  shows "rx_match (lazy_any None # p) k (w @ s) = rx_match (lazy_any None # p) (eats w k) s"
  using assms
proof (induction w arbitrary: k)
  case (Cons c w)
  have "rx_match p k (c # w @ s) = None" for k using Cons.prems[of 0] by simp
  moreover have "rx_match (lazy_any None # p) (eats [c] k) (w @ s) = rx_match (lazy_any None # p) (eats (c # w) k) s"
    using Cons.IH[of "eats [c] k"] Cons.prems[of "Suc _"] by simp
  ultimately show ?case
    by (simp add: lazy_any_def any_char_def room_def one_less_def first_of_def)
qed simp

lemma lazy_stop: "rx_match p k s = Some m \<Longrightarrow> rx_match (lazy_any hi # p) k s = Some m"
  by (simp add: lazy_any_def first_of_def rx_match.simps(5)[of True 0 hi any_char p k s])

text \<open>A search passes over what cannot start a match.\<close>

lemma search_skip:
  assumes "\<And>i. i < length g \<Longrightarrow> rx_match p nothing_found (drop i g @ s) = None"
  shows "rx_search p (g @ s) = rx_search p s"
  using assms
proof (induction g)
  case (Cons c g)
  have "rx_match p nothing_found (c # g @ s) = None" using Cons.prems[of 0] by simp
  moreover have "rx_search p (g @ s) = rx_search p s" using Cons.IH Cons.prems[of "Suc _"] by simp
  ultimately show ?case by simp
qed simp

lemma search_here: "rx_match p nothing_found s = Some m \<Longrightarrow> rx_search p s = Some m"
  by (cases s) simp_all

lemma search_nowhere:
  assumes "\<And>i. i \<le> length s \<Longrightarrow> rx_match p nothing_found (drop i s) = None"
  shows "rx_search p s = None"
proof -
  have "rx_search p (s @ []) = rx_search p []" using assms by (intro search_skip) simp
  then show ?thesis using assms[of "length s"] by simp
qed

lemma findall_hit:
  "rx_search p s = Some (k, rest) \<Longrightarrow> length rest < length s \<Longrightarrow> rx_findall p s = k # rx_findall p rest"
  by (subst rx_findall.simps) simp

lemma findall_none: "rx_search p s = None \<Longrightarrow> rx_findall p s = []"
  by (subst rx_findall.simps) simp

text \<open>A pattern with a character in it consumes something, so that its searches in a row are \<^verbatim>\<open>findall\<close>.\<close>

definition consuming :: "pattern \<Rightarrow> bool" where
  "consuming p \<longleftrightarrow> list_ex (\<lambda>i. case i of One P \<Rightarrow> True | _ \<Rightarrow> False) p"

lemma first_of_Some: "first_of a b = Some x \<Longrightarrow> a = Some x \<or> b = Some x"
  by (auto simp: first_of_def split: option.splits)

text \<open>Every match accounts for its text: what it ate is what lies between its start and its end.\<close>

lemma rx_match_text:
  "rx_match p k s = Some (k', rest) \<Longrightarrow>
   \<exists>w. s = w @ rest \<and> fd_text k' = fd_text k @ w \<and> (consuming p \<longrightarrow> w \<noteq> [])"
proof (induction p k s arbitrary: k' rest rule: rx_match.induct)
  case (2 p k s)
  then show ?case by (simp add: open_group_def consuming_def)
next
  case (3 p k s)
  then show ?case by (simp add: close_group_def consuming_def split: option.splits)
next
  case (4 P p k s)
  then obtain c cs where c: "s = c # cs" "P c" "rx_match p (eat c k) cs = Some (k', rest)"
    by (auto split: list.splits if_splits)
  from 4(1)[OF c] show ?case by (auto simp: c eats_def)
next
  case (5 lazy lo hi P p k s)
  from 5(3)[unfolded rx_match.simps(5)[of lazy lo hi P p k s]]
  consider c cs where "s = c # cs" "P c \<and> room hi" "rx_match (Rep lazy (lo - 1) (one_less hi) P # p) (eat c k) cs = Some (k', rest)"
    | "lo = 0" "rx_match p k s = Some (k', rest)"
    by (auto simp: Let_def split: if_splits list.splits dest!: first_of_Some)
  then show ?case
  proof cases
    case 1
    from 5(1)[OF 1] show ?thesis by (auto simp: 1 eats_def consuming_def)
  next
    case 2
    from 5(2)[OF refl 2] show ?thesis by (simp add: consuming_def)
  qed
qed (simp add: consuming_def)

lemma rx_search_text:
  "rx_search p s = Some (k, rest) \<Longrightarrow> \<exists>skipped. s = skipped @ fd_text k @ rest \<and> (consuming p \<longrightarrow> fd_text k \<noteq> [])"
proof (induction p s rule: rx_search.induct)
  case (1 p)
  then show ?case using rx_match_text[of p nothing_found "[]" k rest] by (auto simp: nothing_found_def)
next
  case (2 p c cs)
  show ?case
  proof (cases "rx_match p nothing_found (c # cs)")
    case None
    with 2 obtain skipped where "cs = skipped @ fd_text k @ rest" "consuming p \<longrightarrow> fd_text k \<noteq> []" by auto
    then show ?thesis by (intro exI[of _ "c # skipped"]) simp
  next
    case (Some m)
    with 2(2) rx_match_text[of p nothing_found "c # cs" k rest] show ?thesis by (auto simp: nothing_found_def)
  qed
qed

lemma findall_step:
  "consuming p \<Longrightarrow> rx_findall p s = (case rx_search p s of None \<Rightarrow> [] | Some (k, rest) \<Rightarrow> k # rx_findall p rest)"
  using rx_search_text[of p s] by (subst rx_findall.simps) (auto split: option.split)

section \<open>What a pattern describes\<close>

text \<open>\<open>describes p k w k'\<close>: the pattern can consume \<open>w\<close>, taking the finds from \<open>k\<close> to \<open>k'\<close>; which of several ways is taken is the
  matcher's choice. The matcher finds a way exactly when there is one.\<close>

definition at_most :: "nat option \<Rightarrow> nat \<Rightarrow> bool" where
  "at_most hi n \<longleftrightarrow> (case hi of None \<Rightarrow> True | Some h \<Rightarrow> n \<le> h)"

inductive describes :: "pattern \<Rightarrow> found \<Rightarrow> string \<Rightarrow> found \<Rightarrow> bool" where
  exhausted: "describes [] k [] k"
| group_opens: "describes p (open_group k) w k' \<Longrightarrow> describes (Open_Group # p) k w k'"
| group_closes: "describes p (close_group k) w k' \<Longrightarrow> describes (Close_Group # p) k w k'"
| single: "P c \<Longrightarrow> describes p (eats [c] k) w k' \<Longrightarrow> describes (One P # p) k (c # w) k'"
| repeated: "list_all P v \<Longrightarrow> lo \<le> length v \<Longrightarrow> at_most hi (length v) \<Longrightarrow> describes p (eats v k) w k' \<Longrightarrow>
    describes (Rep lazy lo hi P # p) k (v @ w) k'"

inductive_simps describes_done: "describes [] k w k'"
inductive_simps describes_opening: "describes (Open_Group # p) k w k'"
inductive_simps describes_closing: "describes (Close_Group # p) k w k'"
inductive_simps describes_single: "describes (One P # p) k w k'"
inductive_simps describes_repeated: "describes (Rep lazy lo hi P # p) k w k'"

lemmas describes_items = describes_done describes_opening describes_closing describes_single describes_repeated

lemma matcher_sound:
  "rx_match p k s = Some (k', rest) \<Longrightarrow> \<exists>w. s = w @ rest \<and> describes p k w k'"
proof (induction p k s arbitrary: k' rest rule: rx_match.induct)
  case (4 P p k s)
  then obtain c cs where c: "s = c # cs" "P c" "rx_match p (eat c k) cs = Some (k', rest)"
    by (auto split: list.splits if_splits)
  from 4(1)[OF c] obtain w where "cs = w @ rest" "describes p (eats [c] k) w k'" by auto
  with c show ?case by (intro exI[of _ "c # w"]) (simp add: describes.single)
next
  case (5 lazy lo hi P p k s)
  from 5(3)[unfolded rx_match.simps(5)[of lazy lo hi P p k s]]
  consider c cs where "s = c # cs" "P c \<and> room hi" "rx_match (Rep lazy (lo - 1) (one_less hi) P # p) (eat c k) cs = Some (k', rest)"
    | "lo = 0" "rx_match p k s = Some (k', rest)"
    by (auto simp: Let_def split: if_splits list.splits dest!: first_of_Some)
  then show ?case
  proof cases
    case 1
    from 5(1)[OF 1] obtain v w where v: "cs = v @ w @ rest" "list_all P v" "lo - 1 \<le> length v" "at_most (one_less hi) (length v)"
      "describes p (eats v (eats [c] k)) w k'" by (auto simp: describes_repeated)
    with 1(2) have "describes (Rep lazy lo hi P # p) k ((c # v) @ w) k'"
      by (intro repeated) (auto simp: at_most_def one_less_def room_def split: option.splits)
    with 1 v show ?thesis by (intro exI[of _ "c # v @ w"]) simp
  next
    case 2
    from 5(2)[OF refl 2] obtain w where "s = w @ rest" "describes p k w k'" by auto
    with 2 repeated[of P "[]" lo hi p k w k' lazy] show ?thesis by (auto simp: at_most_def split: option.splits)
  qed
qed (auto intro: describes.intros)

lemma first_of_None [simp]: "first_of a b = None \<longleftrightarrow> a = None \<and> b = None"
  by (auto simp: first_of_def split: option.splits)

lemma matcher_complete: "describes p k w k' \<Longrightarrow> rx_match p k (w @ rest) \<noteq> None"
proof (induction rule: describes.induct)
  case (repeated P v lo hi p k w k' lazy)
  have "rx_match (Rep lazy lo hi P # p) k (v @ w @ rest) \<noteq> None"
    if "rx_match p (eats v k) (w @ rest) \<noteq> None" "list_all P v" "lo \<le> length v" "at_most hi (length v)" for v k
    using that
  proof (induction v arbitrary: lo hi k)
    case Nil
    then show ?case by (simp add: rx_match.simps(5)[of lazy 0 hi P p k "w @ rest"] Let_def del: not_None_eq)
  next
    case (Cons c v)
    have "at_most (one_less hi) (length v)" "room hi"
      using Cons.prems(4) by (auto simp: at_most_def one_less_def room_def split: option.splits)
    then have "rx_match (Rep lazy (lo - 1) (one_less hi) P # p) (eats [c] k) (v @ w @ rest) \<noteq> None"
      using Cons.prems by (intro Cons.IH) auto
    with Cons.prems \<open>room hi\<close> show ?case by (cases "lo = 0"; cases lazy) (simp_all add: Let_def del: not_None_eq)
  qed
  with repeated show ?case by simp
qed simp_all

theorem matcher_finds:
  "rx_match p nothing_found s \<noteq> None \<longleftrightarrow> (\<exists>w rest k. s = w @ rest \<and> describes p nothing_found w k)"
  using matcher_sound matcher_complete by (metis option.exhaust prod.exhaust)

end
