(* ===== verification/Screener.thy ===== *)
theory Screener
  imports SbService Feeds
begin

text \<open>
  \<^verbatim>\<open>src/engine/chartink.py\<close> and the scan endpoints of \<^verbatim>\<open>src/api/endpoints/superbrain.py\<close>: Chartink decides which symbols
  match, the adapter puts fresh numbers over the delayed ones. The token in Chartink's page (read off
  its text in Scrape) and the reply to the scan are arguments; an outer \<open>None\<close> of a scan is an exception that leaves \<^verbatim>\<open>run_scan\<close>.
\<close>

section \<open>Scans\<close>

definition prebuilt_scans :: "(string \<times> string) list" where
  "prebuilt_scans =
    [(''gainers'', ''( {cash} ( latest close > 1 day ago close * 1.02 and latest volume > 100000 ) )''),
     (''losers'', ''( {cash} ( latest close < 1 day ago close * 0.98 and latest volume > 100000 ) )''),
     (''volume_shockers'', ''( {cash} ( latest volume > 3 * sma( latest volume , 20 ) and latest close > latest open and latest volume > 200000 ) )''),
     (''breakout_20d_high'', ''( {cash} ( latest close > max( 20 , 1 day ago high ) and latest volume > 100000 ) )''),
     (''near_52w_high'', ''( {cash} ( latest close > max( 250 , latest high ) * 0.95 and latest volume > 100000 ) )''),
     (''near_52w_low'', ''( {cash} ( latest close < min( 250 , latest low ) * 1.05 and latest volume > 100000 ) )''),
     (''above_sma_50_200'', ''( {cash} ( latest close > sma( latest close , 50 ) and latest close > sma( latest close , 200 ) ) )''),
     (''rsi_oversold'', ''( {cash} ( latest rsi( 14 ) < 30 and latest volume > 100000 ) )''),
     (''rsi_overbought'', ''( {cash} ( latest rsi( 14 ) > 70 and latest volume > 100000 ) )'')]"

definition sb_scans :: "string list" where
  "sb_scans = sort (map fst prebuilt_scans)"

record scan =
  sn_total :: val
  sn_count :: nat
  sn_stocks :: "dict list"

definition stock_of :: "dict \<Rightarrow> dict" where
  "stock_of row = [(''symbol'', dget row ''nsecode''), (''name'', dget row ''name''), (''bseCode'', dget row ''bsecode''),
     (''close'', dget row ''close''), (''changePct'', dget row ''per_chg''), (''volume'', dget row ''volume'')]"

fun dict_rows :: "val list \<Rightarrow> dict list option" where
  "dict_rows [] = Some []"
| "dict_rows (VDict d # vs) = map_option (Cons d) (dict_rows vs)"
| "dict_rows (v # vs) = None"

definition shape_scan :: "val \<Rightarrow> nat \<Rightarrow> scan option" where
  "shape_scan j limit =
     (case j of
        VDict d \<Rightarrow>
          (case val_or (dget d ''data'') (VList []) of
             VList rows \<Rightarrow>
               (case dict_rows (take limit rows) of
                  None \<Rightarrow> None
                | Some rs \<Rightarrow>
                    Some \<lparr>sn_total = (case map_of d ''recordsTotal'' of None \<Rightarrow> VInt (int (length rows)) | Some t \<Rightarrow> t),
                      sn_count = length rs, sn_stocks = map stock_of rs\<rparr>)
           | _ \<Rightarrow> None)
      | _ \<Rightarrow> None)"

text \<open>The first argument is the token found in the page (\<open>None\<close> when it is not there or the page does not load).\<close>

definition run_scan :: "string option \<Rightarrow> (string \<Rightarrow> http) \<Rightarrow> string \<Rightarrow> nat \<Rightarrow> scan option option" where
  "run_scan token post clause limit =
     (case token of
        None \<Rightarrow> Some None
      | Some t \<Rightarrow>
          (case post clause of
             Http status (Json j) \<Rightarrow> if status \<noteq> 200 then Some None else map_option Some (shape_scan j limit)
           | _ \<Rightarrow> Some None))"

section \<open>Fresh numbers\<close>

record screen_reply =
  sr_clause :: string
  sr_scan :: scan
  sr_sources :: "(val \<times> nat) list"
  sr_quality :: string

text \<open>The symbols Chartink sends are texts or null.\<close>

definition row_symbol :: "dict \<Rightarrow> string" where
  "row_symbol r = canonical_symbol (case str_val (dget r ''symbol'') of None \<Rightarrow> [] | Some s \<Rightarrow> s)"

definition overlay_row :: "quotes \<Rightarrow> dict \<Rightarrow> dict" where
  "overlay_row live r =
     (case map_of live (row_symbol r) of
        None \<Rightarrow> r
      | Some [] \<Rightarrow> r
      | Some q \<Rightarrow>
          (let r1 = (if dget r ''close'' \<noteq> VNone then dput ''chartinkClose'' (dget r ''close'') r else r);
               r2 = dput ''price'' (dget q ''price'') (dput ''close'' (dget q ''price'') r1);
               r3 = (if dget q ''changePct'' \<noteq> VNone then dput ''changePct'' (dget q ''changePct'') r2 else r2);
               r4 = (if dget q ''volume'' \<noteq> VNone then dput ''volume'' (dget q ''volume'') r3 else r3)
           in dput ''priceSource'' (dget q ''source'') r4))"

definition overlaid :: "quotes \<Rightarrow> dict \<Rightarrow> bool" where
  "overlaid live r \<longleftrightarrow> (case map_of live (row_symbol r) of None \<Rightarrow> False | Some q \<Rightarrow> q \<noteq> [])"

definition overlay_sources :: "quotes \<Rightarrow> dict list \<Rightarrow> (val \<times> nat) list" where
  "overlay_sources live rows = foldl count_source [] (map (\<lambda>r. the (map_of live (row_symbol r))) (filter (overlaid live) rows))"

text \<open>The symbols to price: those of the first rows, each once. (The code goes through a set; the batch service sees them in
  some order.)\<close>

definition screen_symbols :: "nat \<Rightarrow> dict list \<Rightarrow> string list" where
  "screen_symbols k rows = remdups (map row_symbol (filter (\<lambda>r. truthy_val (dget r ''symbol'')) (take k rows)))"

text \<open>The environment is \<open>None\<close> when the batch service raises.\<close>

definition screen_live :: "bool \<Rightarrow> nat \<Rightarrow> sb_env option \<Rightarrow> meta_cache \<Rightarrow> dict list \<Rightarrow> quotes" where
  "screen_live live k env mc rows =
     (if live \<and> rows \<noteq> [] then (case env of None \<Rightarrow> [] | Some v \<Rightarrow> batch_quotes v mc (screen_symbols k rows) ''NSE'' False) else [])"

definition screen_clause :: "string option \<Rightarrow> string option \<Rightarrow> string option" where
  "screen_clause scan_name clause =
     (case clause of Some (x # xs) \<Rightarrow> Some (x # xs) | _ \<Rightarrow> Option.bind scan_name (map_of prebuilt_scans))"

definition sb_screen :: "string option \<Rightarrow> string option \<Rightarrow> bool \<Rightarrow> nat \<Rightarrow> (string \<Rightarrow> scan option option) \<Rightarrow> sb_env option \<Rightarrow> meta_cache \<Rightarrow>
    bool \<Rightarrow> (http_error + screen_reply) option" where
  "sb_screen scan_name clause live k scan_of env mc mkt =
     (case screen_clause scan_name clause of
        None \<Rightarrow> Some (Inl 400)
      | Some c \<Rightarrow>
          (case scan_of c of
             None \<Rightarrow> None
           | Some None \<Rightarrow> Some (Inl 503)
           | Some (Some res) \<Rightarrow>
               (let quotes = screen_live live k env mc (sn_stocks res);
                    srcs = overlay_sources quotes (sn_stocks res)
                in Some (Inr \<lparr>sr_clause = c, sr_scan = res\<lparr>sn_stocks := map (overlay_row quotes) (sn_stocks res)\<rparr>,
                     sr_sources = srcs,
                     sr_quality = (if srcs = [] then ''DELAYED'' else if mkt then ''REAL_TIME'' else ''LAST_CLOSE'')\<rparr>))))"

section \<open>The matches stay, the numbers are fresh\<close>

lemma overlay_keeps:
  "k \<notin> {''chartinkClose'', ''close'', ''price'', ''changePct'', ''volume'', ''priceSource''} \<Longrightarrow> dget (overlay_row live r) k = dget r k"
  by (auto simp: overlay_row_def Let_def split: option.split list.split)

text \<open>What a priced row shows, key by key: the quote's price under both names, its change and its volume when it has them,
  where the price is from, and Chartink's own close kept aside when there was one. Every other key is Chartink's.\<close>

definition live_field :: "dict \<Rightarrow> dict \<Rightarrow> string \<Rightarrow> val" where
  "live_field q a k =
     (if k = ''close'' \<or> k = ''price'' then dget q ''price''
      else if k = ''priceSource'' then dget q ''source''
      else if k \<in> {''changePct'', ''volume''} \<and> dget q k \<noteq> VNone then dget q k
      else if k = ''chartinkClose'' \<and> dget a ''close'' \<noteq> VNone then dget a ''close''
      else dget a k)"

lemma overlay_fields:
  assumes "map_of live (row_symbol r) = Some q" "q \<noteq> []"
  shows "dget (overlay_row live r) k = live_field q r k"
  using assms by (cases q) (auto simp: overlay_row_def Let_def live_field_def)

lemma overlay_other: "\<not> overlaid live r \<Longrightarrow> overlay_row live r = r"
  by (auto simp: overlaid_def overlay_row_def split: option.splits list.splits)

lemma sources_sum: "sum_list (map snd (overlay_sources live rows)) = length (filter (overlaid live) rows)"
  using sources_total[of "[]"] by (simp add: overlay_sources_def)

lemma sources_empty: "overlay_sources live rows = [] \<longleftrightarrow> filter (overlaid live) rows = []"
proof -
  have "foldl count_source s qs \<noteq> []" if "s \<noteq> []" for s qs
    using that
  proof (induction qs arbitrary: s)
    case (Cons q qs)
    have "count_source s q \<noteq> []" by (cases s) (auto simp: count_source_def)
    with Cons.IH show ?case by simp
  qed simp
  moreover have "count_source [] q \<noteq> []" for q by (simp add: count_source_def)
  ultimately show ?thesis by (cases "filter (overlaid live) rows") (simp_all add: overlay_sources_def)
qed

lemma screen_live_labelled:
  "(\<And>v. env = Some v \<Longrightarrow> feeds_as own_symbol v) \<Longrightarrow> filed_as own_symbol (screen_live live k env mc rows)"
  using filed_as_batch by (cases env) (simp_all add: screen_live_def)

lemma own_nonempty: "filed_as own_symbol live \<Longrightarrow> map_of live s = Some q \<Longrightarrow> q \<noteq> [] \<and> own_symbol s q"
  by (force simp: filed_as_def own_symbol_def)

text \<open>C21: A screen reply has exactly Chartink's matches, in Chartink's order, each with its symbol, name and code. The live quotes are
  those the bulk service gives for the symbols of the first rows, none when it fails or live prices are not wanted. A row with a
  quote agrees on every key with what a priced row shows of the quote that is filed under the row's own symbol: price and
  close, change, volume and source are the quote's (change and volume Chartink's where the quote has none), Chartink's close is
  kept aside, and nothing else is touched; the quote carries the row's symbol or the one it was renamed to. Every other row is
  Chartink's, unchanged. The source counts add up to the priced rows, and the reply calls itself delayed just when no row was
  priced, and real-time just when one was and the market is open.\<close>

theorem screen_keeps_matches:
  assumes "sb_screen scan_name clause live k scan_of env mc mkt = Some (Inr r)"
    and "scan_of (sr_clause r) = Some (Some res)"
    and "\<And>v. env = Some v \<Longrightarrow> feeds_as own_symbol v"
    and "symbols = remdups (map row_symbol (filter (\<lambda>a. truthy_val (dget a ''symbol'')) (take k (sn_stocks res))))"
    and "quotes = (case env of Some v \<Rightarrow> if live then batch_quotes v mc symbols ''NSE'' False else [] | None \<Rightarrow> [])"
  shows "map (\<lambda>x. (dget x ''symbol'', dget x ''name'', dget x ''bseCode'')) (sn_stocks (sr_scan r)) =
        map (\<lambda>x. (dget x ''symbol'', dget x ''name'', dget x ''bseCode'')) (sn_stocks res) \<and>
    list_all2 (\<lambda>a b. case map_of quotes (row_symbol a) of
        None \<Rightarrow> b = a
      | Some q \<Rightarrow> own_symbol (row_symbol a) q \<and> (\<forall>key. dget b key = live_field q a key)) (sn_stocks res) (sn_stocks (sr_scan r)) \<and>
    sum_list (map snd (sr_sources r)) = length (filter (\<lambda>a. map_of quotes (row_symbol a) \<noteq> None) (sn_stocks res)) \<and>
    sr_quality r = (if list_all (\<lambda>a. map_of quotes (row_symbol a) = None) (sn_stocks res) then ''DELAYED''
      else if mkt then ''REAL_TIME'' else ''LAST_CLOSE'')"
proof -
  have sl: "screen_live live k env mc (sn_stocks res) = (if sn_stocks res = [] then [] else quotes)"
    by (simp add: screen_live_def screen_symbols_def assms(4,5) split: option.split)
  have lab: "filed_as own_symbol quotes"
    using screen_live_labelled[of env live k mc "sn_stocks res"] assms(3,5) filed_as_batch by (auto split: option.splits)
  have over: "overlaid quotes a \<longleftrightarrow> map_of quotes (row_symbol a) \<noteq> None" for a
    using own_nonempty[OF lab] by (auto simp: overlaid_def split: option.split)
  then have over': "overlaid quotes = (\<lambda>a. map_of quotes (row_symbol a) \<noteq> None)" by (simp add: fun_eq_iff)
  have r: "sn_stocks (sr_scan r) = map (overlay_row quotes) (sn_stocks res)" "sr_sources r = overlay_sources quotes (sn_stocks res)"
    "sr_quality r = (if overlay_sources quotes (sn_stocks res) = [] then ''DELAYED'' else if mkt then ''REAL_TIME'' else ''LAST_CLOSE'')"
    using assms(1,2) by (auto simp: sb_screen_def Let_def sl overlay_sources_def split: option.splits if_splits)
  have row: "case map_of quotes (row_symbol a) of None \<Rightarrow> overlay_row quotes a = a
      | Some q \<Rightarrow> own_symbol (row_symbol a) q \<and> (\<forall>key. dget (overlay_row quotes a) key = live_field q a key)" for a
    using own_nonempty[OF lab] overlay_fields[of quotes a] overlay_other[of quotes a] over[of a]
    by (auto split: option.split)
  show ?thesis
    using row by (simp add: r overlay_keeps comp_def list_all2_map2 list_all2_same sources_sum sources_empty over' filter_empty_conv list_all_iff)
qed

definition demo_stocks :: "dict list" where
  "demo_stocks = [[(''nsecode'', VStr ''TCS''), (''close'', VNum 3400)], [(''nsecode'', VStr ''XYZ''), (''close'', VNum 10)]]"

definition demo_scan :: "string \<Rightarrow> scan option option" where
  "demo_scan c = run_scan (Some ''token'') (\<lambda>c. Http 200 (Json (VDict [(''data'', VList (map VDict demo_stocks))]))) c 500"

lemma demo_scan_result:
  "demo_scan c = Some (Some \<lparr>sn_total = VInt 2, sn_count = 2, sn_stocks = map stock_of demo_stocks\<rparr>)"
  by (simp add: demo_scan_def run_scan_def shape_scan_def val_or_def demo_stocks_def)

theorem screen_keeps_matches_witness:
  "\<exists>r. sb_screen None (Some ''( {cash} )'') True 200 demo_scan (Some demo_sb_env) Map.empty True = Some (Inr r) \<and>
     map (\<lambda>x. dget x ''symbol'') (sn_stocks (sr_scan r)) = [VStr ''TCS'', VStr ''XYZ'']"
proof -
  obtain r where r: "sb_screen None (Some ''( {cash} )'') True 200 demo_scan (Some demo_sb_env) Map.empty True = Some (Inr r)"
    by (simp add: sb_screen_def screen_clause_def demo_scan_result Let_def)
  have f: "\<And>v. Some demo_sb_env = Some v \<Longrightarrow> feeds_as own_symbol v" by (simp add: feeds_own demo_sb_env_def demo_sb_tick_def)
  from screen_keeps_matches[OF r demo_scan_result f refl refl]
  have "map (\<lambda>x. (dget x ''symbol'', dget x ''name'', dget x ''bseCode'')) (sn_stocks (sr_scan r)) =
      [(VStr ''TCS'', VNone, VNone), (VStr ''XYZ'', VNone, VNone)]"
    by (simp add: demo_stocks_def stock_of_def)
  then have "map fst (map (\<lambda>x. (dget x ''symbol'', dget x ''name'', dget x ''bseCode'')) (sn_stocks (sr_scan r))) =
      [VStr ''TCS'', VStr ''XYZ'']"
    by simp
  with r show ?thesis by (simp add: comp_def)
qed

end
