(* ===== verification/Host.thy ===== *)
theory Host
  imports Prelude
begin

text \<open>
  The process around the service: the validators of \<^verbatim>\<open>src/config/settings.py\<close>, the CORS decision and the health report of
  \<^verbatim>\<open>src/main.py\<close>, the two connection managers (\<^verbatim>\<open>src/cache/redis_client.py\<close>, \<^verbatim>\<open>src/db/connection.py\<close>), the rotators of
  \<^verbatim>\<open>src/utils/fingerprint.py\<close> and \<^verbatim>\<open>user_agents.py\<close>, and the watchdog thread of \<^verbatim>\<open>src/utils/watchdog.py\<close>.
\<close>

section \<open>Settings\<close>

datatype env_list = EnvText string | EnvList "string list"

definition csv_items :: "string \<Rightarrow> string list" where
  "csv_items v = map strip (filter (\<lambda>o1. strip o1 \<noteq> []) (split_on CHR '','' v))"

fun parse_env_list :: "env_list \<Rightarrow> string list" where
  "parse_env_list (EnvText v) = csv_items v"
| "parse_env_list (EnvList xs) = xs"

fun parse_custom_symbols :: "env_list \<Rightarrow> string list" where
  "parse_custom_symbols (EnvText v) = map upper (csv_items v)"
| "parse_custom_symbols (EnvList xs) = xs"

definition env_bool :: "string option \<Rightarrow> bool \<Rightarrow> bool" where
  "env_bool v d = (case v of None \<Rightarrow> d | Some t \<Rightarrow> lower (strip t) \<in> {''1'', ''true'', ''yes'', ''on''})"

section \<open>Cross-origin requests\<close>

text \<open>The origins and whether credentials are allowed.\<close>

definition resolve_cors :: "string list \<Rightarrow> bool \<Rightarrow> string list \<times> bool" where
  "resolve_cors origins debug =
     (let os = (if origins \<noteq> [] then origins else if debug then [''*''] else [''http://localhost:3000'', ''http://localhost:8080''])
      in (os, os \<noteq> [''*'']))"

section \<open>The database URL\<close>

record db_url =
  du_driver :: string
  du_query :: "(string \<times> string) list"

datatype tls = Plain | Encrypted | Verified

text \<open>Kinds of connection, by how much they protect.\<close>

fun tls_rank :: "tls \<Rightarrow> nat" where
  "tls_rank Plain = 0"
| "tls_rank Encrypted = 1"
| "tls_rank Verified = 2"

instantiation tls :: linorder
begin

definition less_eq_tls :: "tls \<Rightarrow> tls \<Rightarrow> bool" where
  "less_eq_tls a b \<longleftrightarrow> tls_rank a \<le> tls_rank b"

definition less_tls :: "tls \<Rightarrow> tls \<Rightarrow> bool" where
  "less_tls a b \<longleftrightarrow> tls_rank a < tls_rank b"

instance
proof
  fix a b :: tls
  show "a \<le> b \<Longrightarrow> b \<le> a \<Longrightarrow> a = b"
    by (cases a; cases b) (simp_all add: less_eq_tls_def)
qed (auto simp: less_eq_tls_def less_tls_def)

end

definition ssl_keys :: "string list" where
  "ssl_keys = [''sslmode'', ''channel_binding'', ''sslrootcert'', ''sslcert'', ''sslkey'']"

definition query_text :: "(string \<times> string) list \<Rightarrow> string \<Rightarrow> string" where
  "query_text q k = (case map_of q k of None \<Rightarrow> [] | Some v \<Rightarrow> v)"

definition ssl_mode :: "(string \<times> string) list \<Rightarrow> string" where
  "ssl_mode q = lower (if query_text q ''sslmode'' \<noteq> [] then query_text q ''sslmode'' else query_text q ''ssl'')"

definition normalize_db_url :: "db_url \<Rightarrow> db_url \<times> tls" where
  "normalize_db_url u =
     (let driver = (if du_driver u \<in> {''postgresql'', ''postgres'', ''postgresql+psycopg2'', ''postgresql+psycopg''}
                    then ''postgresql+asyncpg'' else du_driver u);
          mode = ssl_mode (du_query u)
      in (\<lparr>du_driver = driver, du_query = filter (\<lambda>e. fst e \<notin> set (ssl_keys @ [''ssl''])) (du_query u)\<rparr>,
          if mode \<in> {''verify-ca'', ''verify-full''} then Verified
          else if mode \<in> {''require'', ''prefer'', ''allow'', ''true'', ''1''} then Encrypted else Plain))"

section \<open>Connections\<close>

datatype backend = Real | Memory

record redis_mgr =
  rm_pool :: bool
  rm_client :: "backend option"
  rm_real :: bool

definition new_redis_mgr :: redis_mgr where
  "new_redis_mgr = \<lparr>rm_pool = False, rm_client = None, rm_real = False\<rparr>"

text \<open>Whether building the pool works and whether the server answers the ping.\<close>

definition redis_connect :: "bool \<Rightarrow> bool \<Rightarrow> redis_mgr \<Rightarrow> redis_mgr" where
  "redis_connect pool_ok ping_ok m =
     (if rm_client m \<noteq> None then m
      else if pool_ok \<and> ping_ok then \<lparr>rm_pool = True, rm_client = Some Real, rm_real = True\<rparr>
      else \<lparr>rm_pool = False, rm_client = Some Memory, rm_real = False\<rparr>)"

definition redis_disconnect :: "redis_mgr \<Rightarrow> redis_mgr" where
  "redis_disconnect m = m\<lparr>rm_client := None, rm_pool := False\<rparr>"

definition redis_health :: "bool \<Rightarrow> redis_mgr \<Rightarrow> bool" where
  "redis_health ping_ok m = (case rm_client m of None \<Rightarrow> False | Some Memory \<Rightarrow> True | Some Real \<Rightarrow> ping_ok)"

text \<open>The database manager: whether an engine and a session factory are there. \<open>create_ok\<close> and \<open>select_ok\<close> tell whether
  building the engine and the first query work; the result is false when \<^verbatim>\<open>connect\<close> raises.\<close>

record db_mgr =
  dm_engine :: bool
  dm_factory :: bool

definition new_db_mgr :: db_mgr where
  "new_db_mgr = \<lparr>dm_engine = False, dm_factory = False\<rparr>"

definition db_connect :: "bool \<Rightarrow> bool \<Rightarrow> db_mgr \<Rightarrow> bool \<times> db_mgr" where
  "db_connect create_ok select_ok m =
     (if dm_engine m then (True, m)
      else if \<not> create_ok then (False, m)
      else if select_ok then (True, \<lparr>dm_engine = True, dm_factory = True\<rparr>)
      else (False, \<lparr>dm_engine = False, dm_factory = False\<rparr>))"

definition db_disconnect :: "db_mgr \<Rightarrow> db_mgr" where
  "db_disconnect m = (if dm_engine m then \<lparr>dm_engine = False, dm_factory = False\<rparr> else m)"

definition db_health :: "bool \<Rightarrow> db_mgr \<Rightarrow> bool" where
  "db_health select_ok m \<longleftrightarrow> dm_engine m \<and> select_ok"

definition health_status :: "bool \<Rightarrow> bool \<Rightarrow> string" where
  "health_status redis_ok db_ok = (if redis_ok \<and> db_ok then ''healthy'' else ''degraded'')"

section \<open>Rotators\<close>

record 'a rotator =
  ro_items :: "'a list"
  ro_index :: nat

definition new_rotator :: "'a list \<Rightarrow> 'a list \<Rightarrow> 'a rotator" where
  "new_rotator given defaults = \<lparr>ro_items = (if given \<noteq> [] then given else defaults), ro_index = 0\<rparr>"

definition get_next :: "'a rotator \<Rightarrow> 'a \<times> 'a rotator" where
  "get_next r = (ro_items r ! (ro_index r mod length (ro_items r)), r\<lparr>ro_index := ro_index r + 1\<rparr>)"

definition dquoted :: "string \<Rightarrow> string" where
  "dquoted s = CHR 0x22 # s @ [CHR 0x22]"

text \<open>The headers of a request; \<open>agent\<close> is the user agent drawn.\<close>

definition browser_headers :: "string \<Rightarrow> string option \<Rightarrow> (string \<times> string) list" where
  "browser_headers agent referer =
     [(''User-Agent'', agent), (''Accept'', ''application/json, text/plain, */*''), (''Accept-Language'', ''en-US,en;q=0.9''),
      (''Accept-Encoding'', ''gzip, deflate, br''), (''Connection'', ''keep-alive''), (''Cache-Control'', ''no-cache''), (''Pragma'', ''no-cache''),
      (''Sec-Ch-Ua'', dquoted ''Chromium'' @ '';v='' @ dquoted ''131'' @ '', '' @ dquoted ''Not_A Brand'' @ '';v='' @ dquoted ''24''), (''Sec-Ch-Ua-Mobile'', ''?0''), (''Sec-Ch-Ua-Platform'', dquoted ''Windows''),
      (''Sec-Fetch-Dest'', ''empty''), (''Sec-Fetch-Mode'', ''cors''), (''Sec-Fetch-Site'', ''same-origin'')]
       @ (case referer of Some (c # cs) \<Rightarrow> [(''Referer'', c # cs)] | _ \<Rightarrow> [])"

fun next_n :: "nat \<Rightarrow> 'a rotator \<Rightarrow> 'a list" where
  "next_n 0 r = []"
| "next_n (Suc n) r = (case get_next r of (x, r') \<Rightarrow> x # next_n n r')"

section \<open>The watchdog\<close>

datatype wd_status = Watching | Exited secs | Stopped

record watchdog =
  wd_last :: secs
  wd_pending :: nat
  wd_status :: wd_status

definition watchdog_config :: "rat option \<Rightarrow> rat option \<Rightarrow> secs \<times> secs" where
  "watchdog_config interval wedge =
     (max 2 (case interval of None \<Rightarrow> 10 | Some x \<Rightarrow> x), max 20 (case wedge of None \<Rightarrow> 60 | Some x \<Rightarrow> x))"

definition watchdog_start :: "secs \<Rightarrow> watchdog" where
  "watchdog_start t = \<lparr>wd_last = t, wd_pending = 1, wd_status = Watching\<rparr>"

text \<open>The loop runs one scheduled callback at a time.\<close>

definition wd_beat :: "watchdog \<Rightarrow> secs \<Rightarrow> watchdog" where
  "wd_beat w t = (if 0 < wd_pending w then w\<lparr>wd_last := t, wd_pending := wd_pending w - 1\<rparr> else w)"

text \<open>The thread wakes; \<open>open\<close> is false when the loop no longer takes callbacks.\<close>

definition wd_wake :: "secs \<Rightarrow> secs \<Rightarrow> bool \<Rightarrow> watchdog \<Rightarrow> watchdog" where
  "wd_wake wedge now alive w =
     (if wd_status w \<noteq> Watching then w
      else if now - wd_last w > wedge then w\<lparr>wd_status := Exited now\<rparr>
      else if alive then w\<lparr>wd_pending := wd_pending w + 1\<rparr> else w\<lparr>wd_status := Stopped\<rparr>)"

text \<open>A cycle: the callbacks the loop ran while the thread slept, then the wake-up.\<close>

type_synonym cycle = "secs list \<times> secs \<times> bool"

definition wd_cycle :: "secs \<Rightarrow> watchdog \<Rightarrow> cycle \<Rightarrow> watchdog" where
  "wd_cycle wedge w c = (case c of (beats, now, alive) \<Rightarrow> wd_wake wedge now alive (foldl wd_beat w beats))"

definition wd_run :: "secs \<Rightarrow> cycle list \<Rightarrow> watchdog \<Rightarrow> watchdog" where
  "wd_run wedge cs w = foldl (wd_cycle wedge) w cs"

section \<open>Properties\<close>

text \<open>The origins a deployer names are used as given, without blanks; an empty or blank setting counts as unset.\<close>

lemma csv_items_clean: "list_all (\<lambda>x. x \<noteq> [] \<and> strip x = x) (csv_items v)"
  by (simp add: csv_items_def list_all_iff)

text \<open>A star beside other origins is not recognised: all origins are allowed together with credentials.\<close>

lemma cors_star_in_list:
  "\<exists>os. resolve_cors (parse_env_list (EnvText ''*, https://a.in'')) False = (os, True) \<and> ''*'' \<in> set os"
  by (simp add: resolve_cors_def csv_items_def strip_def is_space_def)

text \<open>
  A normalised database URL carries none of the parameters the driver refuses and all others in their order, names the
  asynchronous driver whenever it named a Postgres one, and the connection verifies certificates exactly when the URL
  asked for it, whatever the case of the mode. Normalising twice changes nothing more.
\<close>

theorem db_url_normalized:
  assumes "normalize_db_url u = (u', t)"
  shows "list_all (\<lambda>e. fst e \<notin> {''sslmode'', ''channel_binding'', ''sslrootcert'', ''sslcert'', ''sslkey'', ''ssl''}) (du_query u') \<and>
    du_query u' = filter (\<lambda>e. fst e \<notin> {''sslmode'', ''channel_binding'', ''sslrootcert'', ''sslcert'', ''sslkey'', ''ssl''}) (du_query u) \<and>
    (t = Verified \<longleftrightarrow> ssl_mode (du_query u) \<in> {''verify-ca'', ''verify-full''}) \<and>
    (t = Plain \<longleftrightarrow> ssl_mode (du_query u) \<notin> {''verify-ca'', ''verify-full'', ''require'', ''prefer'', ''allow'', ''true'', ''1''}) \<and>
    normalize_db_url u' = (u', Plain)"
proof -
  define K where "K = {''sslmode'', ''channel_binding'', ''sslrootcert'', ''sslcert'', ''sslkey'', ''ssl''}"
  have keys: "set (ssl_keys @ [''ssl'']) = K" by (auto simp: ssl_keys_def K_def)
  have q: "du_query u' = filter (\<lambda>e. fst e \<notin> K) (du_query u)"
    and t: "t = (if ssl_mode (du_query u) \<in> {''verify-ca'', ''verify-full''} then Verified
        else if ssl_mode (du_query u) \<in> {''require'', ''prefer'', ''allow'', ''true'', ''1''} then Encrypted else Plain)"
    and d: "du_driver u' \<notin> {''postgresql'', ''postgres'', ''postgresql+psycopg2'', ''postgresql+psycopg''}"
    using assms unfolding normalize_db_url_def keys by (auto simp: Let_def split: if_splits)
  have none: "query_text (filter (\<lambda>e. fst e \<notin> K) q) k = []" if "k \<in> K" for q k
    using that by (auto simp: query_text_def dest!: map_of_SomeD split: option.split)
  have mode: "ssl_mode (du_query u') = []"
    using none[of "''sslmode''"] none[of "''ssl''"] by (simp add: q ssl_mode_def lower_def) (simp add: K_def)
  have "normalize_db_url u' = (u', Plain)"
    unfolding normalize_db_url_def keys Let_def mode using d by (simp add: q)
  then show ?thesis using q t unfolding K_def[symmetric] by (simp add: list_all_iff)
qed

theorem db_url_normalized_witness:
  "snd (normalize_db_url \<lparr>du_driver = ''postgres'', du_query = [(''sslmode'', ''verify-full''), (''app'', ''x'')]\<rparr>) = Verified"
proof -
  obtain u t where u: "normalize_db_url \<lparr>du_driver = ''postgres'', du_query = [(''sslmode'', ''verify-full''), (''app'', ''x'')]\<rparr> = (u, t)"
    by (rule prod.exhaust)
  have "ssl_mode [(''sslmode'', ''verify-full''), (''app'', ''x'')] = ''verify-full''"
    by (simp add: ssl_mode_def query_text_def) code_simp
  with db_url_normalized[OF u] have "t = Verified" by simp
  with u show ?thesis by simp
qed

text \<open>A URL is never connected with less protection than it asks for.\<close>

lemma tls_at_least:
  "ssl_mode (du_query u) \<in> {''require'', ''prefer'', ''allow''} \<Longrightarrow> Encrypted \<le> snd (normalize_db_url u)"
  "ssl_mode (du_query u) \<in> {''verify-ca'', ''verify-full''} \<Longrightarrow> Verified \<le> snd (normalize_db_url u)"
  by (auto simp: normalize_db_url_def Let_def less_eq_tls_def)

text \<open>The manager of the cache in every state it can be in: connected means one of the two stores, the pool is held only for the
  real one, and a second connect changes nothing.\<close>

inductive redis_reach :: "redis_mgr \<Rightarrow> bool" where
  fresh: "redis_reach new_redis_mgr"
| connect: "redis_reach m \<Longrightarrow> redis_reach (redis_connect a b m)"
| disconnect: "redis_reach m \<Longrightarrow> redis_reach (redis_disconnect m)"

lemma redis_reach_inv:
  "redis_reach m \<Longrightarrow> (rm_pool m \<longleftrightarrow> rm_client m = Some Real) \<and> (rm_client m = Some Memory \<longrightarrow> \<not> rm_real m)"
  by (induction rule: redis_reach.induct) (auto simp: new_redis_mgr_def redis_connect_def redis_disconnect_def)

text \<open>After a disconnect the manager still calls itself real.\<close>

lemma real_after_disconnect: "rm_real (redis_disconnect (redis_connect True True new_redis_mgr))"
  by (simp add: redis_disconnect_def redis_connect_def new_redis_mgr_def)

inductive db_reach :: "db_mgr \<Rightarrow> bool" where
  fresh: "db_reach new_db_mgr"
| connect: "db_reach m \<Longrightarrow> db_reach (snd (db_connect a b m))"
| disconnect: "db_reach m \<Longrightarrow> db_reach (db_disconnect m)"

lemma db_reach_inv: "db_reach m \<Longrightarrow> dm_engine m = dm_factory m"
  by (induction rule: db_reach.induct) (auto simp: new_db_mgr_def db_connect_def db_disconnect_def)

text \<open>A full turn of a rotator hands out every item once, in order.\<close>

lemma next_n_nth: "j < n \<Longrightarrow> next_n n r ! j = ro_items r ! ((ro_index r + j) mod length (ro_items r))"
  by (induction n arbitrary: r j) (auto simp: get_next_def nth_Cons split: nat.split)

lemma length_next_n [simp]: "length (next_n n r) = n"
  by (induction n arbitrary: r) (simp_all add: get_next_def)

lemma rotation_full: "next_n (length xs) \<lparr>ro_items = xs, ro_index = 0\<rparr> = xs"
  by (rule nth_equalityI) (simp_all add: next_n_nth)

section \<open>The watchdog spares the living and stops the wedged\<close>

lemma beats_last:
  "bs \<noteq> [] \<Longrightarrow> 0 < wd_pending w \<Longrightarrow> \<exists>t \<in> set bs. wd_last (foldl wd_beat w bs) = t"
proof (induction bs rule: rev_induct)
  case (snoc b bs)
  then show ?case
  proof (cases "bs = []")
    case True
    with snoc.prems show ?thesis by (simp add: wd_beat_def)
  next
    case False
    with snoc obtain t where "t \<in> set bs" "wd_last (foldl wd_beat w bs) = t" by auto
    then show ?thesis by (cases "0 < wd_pending (foldl wd_beat w bs)") (simp_all add: wd_beat_def[of "foldl wd_beat w bs"])
  qed
qed simp

lemma beats_status [simp]: "wd_status (foldl wd_beat w bs) = wd_status w"
  by (induction bs arbitrary: w) (simp_all add: wd_beat_def)

lemma beats_none: "wd_pending w = 0 \<or> bs = [] \<Longrightarrow> foldl wd_beat w bs = w"
  by (induction bs) (auto simp: wd_beat_def)

text \<open>A history in which the loop runs something in every cycle, at a time after the previous wake-up, and no two wake-ups are
  further apart than the wedge time.\<close>

fun lively :: "secs \<Rightarrow> secs \<Rightarrow> cycle list \<Rightarrow> bool" where
  "lively wedge prev [] \<longleftrightarrow> True"
| "lively wedge prev ((beats, now, alive) # cs) \<longleftrightarrow>
     beats \<noteq> [] \<and> list_all (\<lambda>t. prev \<le> t) beats \<and> now - prev \<le> wedge \<and> lively wedge now cs"

lemma lively_run:
  assumes "lively wedge prev cs" "wd_status w = Watching" "0 < wd_pending w"
  shows "wd_status (wd_run wedge cs w) = (if list_all (\<lambda>c. snd (snd c)) cs then Watching else Stopped)"
  using assms
proof (induction cs arbitrary: prev w)
  case Nil
  then show ?case by (simp add: wd_run_def)
next
  case (Cons c cs)
  obtain beats now alive where c: "c = (beats, now, alive)" by (cases c) auto
  let ?v = "foldl wd_beat w beats"
  from Cons.prems c have "beats \<noteq> []" "list_all (\<lambda>t. prev \<le> t) beats" "now - prev \<le> wedge" by simp_all
  with beats_last[of beats w] Cons.prems(3) have "\<not> wedge < now - wd_last ?v" by (force simp: list_all_iff)
  then have v: "wd_wake wedge now alive ?v = (if alive then ?v\<lparr>wd_pending := wd_pending ?v + 1\<rparr> else ?v\<lparr>wd_status := Stopped\<rparr>)"
    using Cons.prems(2) by (simp add: wd_wake_def)
  have stay: "wd_status (wd_run wedge cs x) = Stopped" if "wd_status x = Stopped" for x
    using that by (induction cs arbitrary: x) (simp_all add: wd_run_def wd_cycle_def wd_wake_def split_beta)
  have run: "wd_run wedge (c # cs) w = wd_run wedge cs (wd_wake wedge now alive ?v)" by (simp add: wd_run_def wd_cycle_def c)
  show ?case
  proof (cases alive)
    case True
    with Cons.IH[of now "?v\<lparr>wd_pending := wd_pending ?v + 1\<rparr>"] Cons.prems c v run show ?thesis by simp
  next
    case False
    with v run stay c show ?thesis by simp
  qed
qed

text \<open>C28: 
  The watchdog never ends a process whose loop runs at least one callback between any two wake-ups of the thread, as long as
  the wake-ups are no further apart than the wedge time; it stops watching only when the loop has closed.
\<close>

theorem watchdog_spares:
  assumes "lively wedge t0 cs"
  shows "wd_status (wd_run wedge cs (watchdog_start t0)) = (if list_all (\<lambda>c. snd (snd c)) cs then Watching else Stopped)"
  by (rule lively_run[OF assms]) (simp_all add: watchdog_start_def)

theorem watchdog_spares_witness: "wd_status (wd_run 60 [([1], 10, True), ([11, 12], 20, True)] (watchdog_start 0)) = Watching"
proof -
  have "lively 60 0 [([1], 10, True), ([11, 12], 20, True)]" by simp
  from watchdog_spares[OF this] show ?thesis by simp
qed

text \<open>Wake-ups after which the loop has run nothing more, at most \<open>G\<close> apart.\<close>

fun wakes_ok :: "secs \<Rightarrow> secs \<Rightarrow> secs list \<Rightarrow> bool" where
  "wakes_ok G prev [] \<longleftrightarrow> True"
| "wakes_ok G prev (t # ts) \<longleftrightarrow> prev \<le> t \<and> t \<le> prev + G \<and> wakes_ok G t ts"

definition wedged :: "secs list \<Rightarrow> cycle list" where
  "wedged ts = map (\<lambda>t. ([], t, True)) ts"

text \<open>C29: 
  A loop that runs nothing any more is ended, at the first wake-up more than the wedge time after its last callback: when the
  thread wakes at least every \<open>G\<close> seconds and goes on long enough, the process exits no later than wedge time plus \<open>G\<close> after
  the last sign of life.
\<close>

theorem watchdog_fires:
  assumes "wd_status w = Watching" "wakes_ok G prev ts" "prev \<le> wd_last w + wedge" "ts \<noteq> []" "wd_last w + wedge < last ts"
  shows "\<exists>t. wd_status (wd_run wedge (wedged ts) w) = Exited t \<and> wd_last w + wedge < t \<and> t \<le> wd_last w + wedge + G"
  using assms
proof (induction ts arbitrary: prev w)
  case (Cons t ts)
  have stay: "wd_status (wd_run wedge cs x) = Exited e" if "wd_status x = Exited e" for x e cs
    using that by (induction cs arbitrary: x) (simp_all add: wd_run_def wd_cycle_def wd_wake_def split_beta)
  have run: "wd_run wedge (wedged (t # ts)) w = wd_run wedge (wedged ts) (wd_wake wedge t True w)"
    by (simp add: wd_run_def wedged_def wd_cycle_def)
  show ?case
  proof (cases "wd_last w + wedge < t")
    case True
    then have "wd_status (wd_wake wedge t True w) = Exited t" using Cons.prems(1) by (simp add: wd_wake_def)
    with stay run True Cons.prems(2,3) show ?thesis by auto
  next
    case False
    then have w: "wd_wake wedge t True w = w\<lparr>wd_pending := wd_pending w + 1\<rparr>" using Cons.prems(1) by (simp add: wd_wake_def)
    from False Cons.prems(5) have "ts \<noteq> []" by auto
    with Cons.IH[of "w\<lparr>wd_pending := wd_pending w + 1\<rparr>" t] Cons.prems False w run show ?thesis by auto
  qed
qed simp

theorem watchdog_fires_witness:
  "\<exists>t. wd_status (wd_run 60 (wedged [10, 20, 30, 40, 50, 60, 70, 80]) (watchdog_start 0)) = Exited t \<and> 60 < t \<and> t \<le> 70"
proof -
  have "wd_status (watchdog_start 0) = Watching" "wakes_ok 10 0 [10, 20, 30, 40, 50, 60, 70, 80]" "wd_last (watchdog_start 0) = 0"
    by (simp_all add: watchdog_start_def)
  with watchdog_fires[of "watchdog_start 0" 10 0 "[10, 20, 30, 40, 50, 60, 70, 80]" 60] show ?thesis by simp
qed

end
