(* ===== verification/Scrape.thy ===== *)
theory Scrape
  imports Regex Fundamentals Screener Host
begin

text \<open>
  From the text of a page to the finds that \<^verbatim>\<open>src/engine/fundamentals.py\<close> and \<^verbatim>\<open>chartink.py\<close> compute with: their patterns,
  the slices of screener.in's page between two section marks, the rows and cells of its tables, and the token of Chartink's page.
\<close>

section \<open>The patterns\<close>

definition comma_digit :: char_class where "comma_digit c \<longleftrightarrow> is_digit c \<or> c = CHR '',''"

definition ratio_char :: char_class where "ratio_char c \<longleftrightarrow> comma_digit c \<or> c = CHR ''.'' \<or> c = CHR ''-''"

definition chr_is :: "char \<Rightarrow> char_class" where "chr_is d c \<longleftrightarrow> c = d"

text \<open>The rest of an opening tag: \<^verbatim>\<open>[^>]*>\<close>.\<close>

definition tag_end :: pattern where "tag_end = [star (not_char CHR ''>''), One (chr_is CHR ''>'')]"

definition ratio_re :: pattern where
  "ratio_re = ilit ''<li'' @ tag_end @ [lazy_any None] @
     ilit ''<span'' @ [star (not_char CHR ''>'')] @ ilit (''class='' @ dquoted ''name'') @ tag_end @
     [star is_space, Open_Group, lazy_any None, Close_Group, star is_space] @ ilit ''</span>'' @ [lazy_any None] @
     ilit ''<span'' @ [star (not_char CHR ''>'')] @ ilit (''class='' @ dquoted ''number'') @ tag_end @
     [star is_space, Open_Group, many1 ratio_char, Close_Group, star is_space] @ ilit ''</span>''"

definition row_re :: pattern where
  "row_re = ilit ''<tr'' @ tag_end @ [lazy_any None] @ ilit ''</tr>''"

definition cell_re :: pattern where
  "cell_re = ilit ''<td'' @ tag_end @
     [star is_space, Open_Group, maybe (chr_is CHR ''-''), many1 comma_digit, maybe (chr_is CHR ''.''), star is_digit, Close_Group, star is_space] @
     ilit ''</td>''"

definition promoter_re :: pattern where
  "promoter_re = lit ''Promoters'' @ [lazy_any (Some 400)] @ lit ''<td'' @ tag_end @
     [star is_space, Open_Group, Rep False 1 (Some 2) is_digit, One (chr_is CHR ''.''), Rep False 1 (Some 2) is_digit, Close_Group] @ lit ''%''"

text \<open>\<^verbatim>\<open>(-?\d+\.?\d*)\s*\<close>.\<close>

definition percent_number :: pattern where
  "percent_number = [star is_space, Open_Group, maybe (chr_is CHR ''-''), many1 is_digit, maybe (chr_is CHR ''.''), star is_digit, Close_Group, star is_space]"

definition growth_re :: "string \<Rightarrow> string \<Rightarrow> pattern" where
  "growth_re what years = ilit ''Compounded'' @ [many1 is_space] @ ilit what @ [many1 is_space] @ ilit ''Growth'' @ [lazy_any (Some 600)] @
     ilit years @ [many1 is_space] @ ilit ''Years'' @ [lazy_any (Some 200)] @ ilit ''<td'' @ tag_end @ percent_number @ ilit ''%''"

definition opm_re :: pattern where
  "opm_re = ilit ''OPM'' @ [star is_space] @ ilit ''%'' @ [lazy_any (Some 100)] @ ilit ''<td'' @ tag_end @ percent_number @
     [maybe (chr_is CHR ''%''), star is_space] @ ilit ''</td>''"

definition token_re :: pattern where
  "token_re = lit (''name='' @ dquoted ''csrf-token'') @ [many1 is_space] @ lit ''content='' @ [One (chr_is CHR 0x22), Open_Group, many1 (not_char CHR 0x22), Close_Group, One (chr_is CHR 0x22)]"

section \<open>The page of a company\<close>

text \<open>\<^verbatim>\<open>html.find(w)\<close>.\<close>

fun text_find :: "string \<Rightarrow> string \<Rightarrow> nat option" where
  "text_find [] w = (if w = [] then Some 0 else None)"
| "text_find (c # cs) w = (if starts_with (c # cs) w then Some 0 else map_option Suc (text_find cs w))"

text \<open>The slice from one mark to the other, or so many characters when the other is missing.\<close>

definition section_of :: "string \<Rightarrow> string \<Rightarrow> string \<Rightarrow> nat \<Rightarrow> string" where
  "section_of html from_mark to_mark width =
     (case text_find html from_mark of
        None \<Rightarrow> []
      | Some i \<Rightarrow> take ((case text_find html to_mark of Some j \<Rightarrow> j | None \<Rightarrow> i + width) - i) (drop i html))"

text \<open>The rows of a section, each with its text and the numbers of its cells.\<close>

definition cell_numbers :: "string \<Rightarrow> string list" where
  "cell_numbers row = map (\<lambda>k. hd (fd_groups k)) (rx_findall cell_re row)"

definition table_rows :: "string \<Rightarrow> (string \<times> string list) list" where
  "table_rows html = map (\<lambda>k. (fd_text k, cell_numbers (fd_text k))) (rx_findall row_re html)"

definition pl_mark :: string where "pl_mark = ''id='' @ dquoted ''profit-loss''"
definition bs_mark :: string where "bs_mark = ''id='' @ dquoted ''balance-sheet''"
definition cf_mark :: string where "cf_mark = ''id='' @ dquoted ''cash-flow''"

definition page_of_html :: "int \<Rightarrow> string \<Rightarrow> screener_page" where
  "page_of_html status html =
     \<lparr>sp_status = status, sp_length = length html,
      sp_ratios = map (\<lambda>k. (hd (fd_groups k), hd (tl (fd_groups k)))) (rx_findall ratio_re html),
      sp_promoter = first_group promoter_re html,
      sp_sales3 = first_group (growth_re ''Sales'' ''3'') html, sp_sales5 = first_group (growth_re ''Sales'' ''5'') html,
      sp_profit3 = first_group (growth_re ''Profit'' ''3'') html, sp_opm = first_group opm_re html,
      sp_pl = table_rows (section_of html pl_mark bs_mark 35000), sp_bs = table_rows (section_of html bs_mark cf_mark 25000)\<rparr>"

definition html_site :: "(string \<Rightarrow> (int \<times> string) option) \<Rightarrow> string \<Rightarrow> screener_page option" where
  "html_site site v = map_option (\<lambda>(status, html). page_of_html status html) (site v)"

definition scrape_html :: "(string \<Rightarrow> (int \<times> string) option) \<Rightarrow> string \<Rightarrow> dict option" where
  "scrape_html site symbol = scrape_screener (html_site site) symbol"

text \<open>The scan with the token read off Chartink's page; \<open>None\<close> is a page that does not load.\<close>

definition csrf_token :: "string option \<Rightarrow> string option" where
  "csrf_token page = Option.bind page (first_group token_re)"

definition scan_page :: "string option \<Rightarrow> (string \<Rightarrow> string \<Rightarrow> http) \<Rightarrow> string \<Rightarrow> nat \<Rightarrow> scan option option" where
  "scan_page page post clause limit =
     (let token = csrf_token page in run_scan token (case token of None \<Rightarrow> \<lambda>c. NoReply | Some t \<Rightarrow> post t) clause limit)"

section \<open>What cannot start a match\<close>

text \<open>A text is clear of a literal when no suffix of it contains the literal at its start or is a beginning of it.\<close>

fun compatible :: "string \<Rightarrow> string \<Rightarrow> bool" where
  "compatible [] v = True"
| "compatible (d # w) [] = True"
| "compatible (d # w) (c # v) = (lower_char c = lower_char d \<and> compatible w v)"

fun clear_of :: "string \<Rightarrow> string \<Rightarrow> bool" where
  "clear_of w [] = True"
| "clear_of w (c # g) = (\<not> compatible w (c # g) \<and> clear_of w g)"

lemma compatible_append: "compatible w (v @ s) \<Longrightarrow> compatible w v"
  by (induction w v rule: compatible.induct) auto

lemma lit_compatible: "lit_at w s \<Longrightarrow> compatible w s"
  by (induction w s rule: compatible.induct) (auto simp: lit_at_Cons ignoring_case_def)

lemma clear_append: "clear_of w g \<Longrightarrow> clear_of w h \<Longrightarrow> clear_of w (g @ h)"
  by (induction g) (auto dest: compatible_append[of w "_ # _", simplified])

lemma clear_tail: "clear_of w (g @ h) \<Longrightarrow> clear_of w h"
  by (induction g) auto

lemma lower_char_lt: "lower_char c = CHR ''<'' \<longleftrightarrow> c = CHR ''<''"
proof -
  have code: "(of_char (lower_char c) :: nat) = (if 65 \<le> (of_char c :: nat) \<and> (of_char c :: nat) \<le> 90 then of_char c + 32 else of_char c)"
    by (simp add: lower_char_def less_eq_char_def)
  show ?thesis
  proof
    assume "lower_char c = CHR ''<''"
    then have "(of_char (lower_char c) :: nat) = 60" by simp
    with code have "(of_char c :: nat) = 60" by (auto split: if_splits)
    then have "(of_char c :: nat) = of_char CHR ''<''" by simp
    then show "c = CHR ''<''" by (simp only: of_char_eq_iff)
  qed (simp add: lower_char_def less_eq_char_def)
qed

lemma lower_lt [simp]: "lower_char CHR ''<'' = CHR ''<''"
  using lower_char_lt by blast

lemma clear_no_lt: "CHR ''<'' \<notin> set g \<Longrightarrow> clear_of (CHR ''<'' # w) g"
  by (induction g) (auto simp: lower_char_lt)

lemma search_clear: "clear_of w g \<Longrightarrow> rx_search (ilit w @ p) (g @ s) = rx_search (ilit w @ p) s"
proof (induction g)
  case (Cons c g)
  have "\<not> lit_at w ((c # g) @ s)" using Cons.prems lit_compatible compatible_append by (metis clear_of.simps(2))
  then have "rx_match (ilit w @ p) nothing_found (c # g @ s) = None" using ilit_match[of w p nothing_found "c # g @ s"] by simp
  with Cons show ?case by simp
qed simp

lemma search_clear_end: "clear_of w g \<Longrightarrow> w \<noteq> [] \<Longrightarrow> rx_search (ilit w @ p) g = None"
  using search_clear[of w g p "[]"] ilit_match[of w p nothing_found "[]"] by (simp add: lit_at_def)

lemma consuming_ilit: "w \<noteq> [] \<Longrightarrow> consuming (ilit w @ p)"
  by (cases w) (simp_all add: consuming_def ilit_def)

lemma findall_clear:
  assumes "clear_of w g" "w \<noteq> []"
  shows "rx_findall (ilit w @ p) (g @ s) = rx_findall (ilit w @ p) s"
  using findall_step[OF consuming_ilit[OF assms(2), of p]] search_clear[OF assms(1)] by metis

lemma findall_clear_end: "clear_of w g \<Longrightarrow> w \<noteq> [] \<Longrightarrow> rx_findall (ilit w @ p) g = []"
  by (intro findall_none search_clear_end)

lemma ilit_here: "rx_match (ilit w @ p) k (w @ s) = rx_match p (eats w k) s"
  by (simp add: ilit_match lit_at_append)

lemma tag_end_here:
  assumes "CHR ''>'' \<notin> set a"
  shows "rx_match (tag_end @ p) k (a @ CHR ''>'' # s) = rx_match p (eats (a @ ''>'') k) s"
  using assms star_match[of "not_char CHR ''>''" a "One (chr_is CHR ''>'') # p" "CHR ''>'' # s" k]
  by (auto simp: tag_end_def not_char_def chr_is_def list_all_iff)

section \<open>Numbers in cells\<close>

definition num_shape :: "string \<Rightarrow> bool" where
  "num_shape n \<longleftrightarrow>
     (let m = (case n of c # cs \<Rightarrow> if c = CHR ''-'' then cs else n | [] \<Rightarrow> []); r = dropWhile comma_digit m
      in takeWhile comma_digit m \<noteq> [] \<and> (case r of [] \<Rightarrow> True | c # f \<Rightarrow> c = CHR ''.'' \<and> list_all is_digit f))"

definition number_parts :: "string \<Rightarrow> string \<Rightarrow> string \<Rightarrow> string \<Rightarrow> bool" where
  "number_parts sg nm pt fr \<longleftrightarrow>
     (sg = [] \<or> sg = ''-'') \<and> nm \<noteq> [] \<and> list_all comma_digit nm \<and> (pt = [] \<or> pt = ''.'') \<and> list_all is_digit fr"

lemma digit_not_minus [simp]: "\<not> comma_digit CHR ''-''" "\<not> comma_digit CHR ''.''"
  by (simp_all add: comma_digit_def is_digit_def less_eq_char_def)

lemma num_shape_parts: "num_shape n \<longleftrightarrow> (\<exists>sg nm pt fr. n = sg @ nm @ pt @ fr \<and> number_parts sg nm pt fr)"
proof
  assume n: "num_shape n"
  define sg where "sg = (case n of c # cs \<Rightarrow> if c = CHR ''-'' then ''-'' else [] | [] \<Rightarrow> [])"
  define m where "m = (case n of c # cs \<Rightarrow> if c = CHR ''-'' then cs else n | [] \<Rightarrow> [])"
  have "n = sg @ m" "sg = [] \<or> sg = ''-''" by (auto simp: sg_def m_def split: list.split)
  moreover have "m = takeWhile comma_digit m @ dropWhile comma_digit m" by simp
  moreover have "takeWhile comma_digit m \<noteq> []" "case dropWhile comma_digit m of [] \<Rightarrow> True | c # f \<Rightarrow> c = CHR ''.'' \<and> list_all is_digit f"
    using n by (simp_all add: num_shape_def Let_def m_def)
  moreover have "list_all comma_digit (takeWhile comma_digit m)" by (auto simp: list_all_iff dest: set_takeWhileD)
  ultimately show "\<exists>sg nm pt fr. n = sg @ nm @ pt @ fr \<and> number_parts sg nm pt fr"
    by (cases "dropWhile comma_digit m")
      (rule exI[of _ sg], rule exI[of _ "takeWhile comma_digit m"], rule exI[of _ "[]"], rule exI[of _ "[]"], force simp: number_parts_def,
       rule exI[of _ sg], rule exI[of _ "takeWhile comma_digit m"], rule exI[of _ "''.''"], rule exI[of _ "tl (dropWhile comma_digit m)"],
       force simp: number_parts_def)
next
  assume "\<exists>sg nm pt fr. n = sg @ nm @ pt @ fr \<and> number_parts sg nm pt fr"
  then obtain sg nm pt fr where n: "n = sg @ nm @ pt @ fr" "number_parts sg nm pt fr" by blast
  then obtain d ds where nm: "nm = d # ds" "comma_digit d" "list_all comma_digit ds" by (cases nm) (auto simp: number_parts_def)
  have m: "(case n of c # cs \<Rightarrow> if c = CHR ''-'' then cs else n | [] \<Rightarrow> []) = nm @ pt @ fr"
    using n nm by (auto simp: number_parts_def)
  have "list_all comma_digit fr" using n(2) by (auto simp: number_parts_def comma_digit_def list_all_iff)
  then have fr: "takeWhile comma_digit fr = fr" "dropWhile comma_digit fr = []" by (simp_all add: list_all_iff takeWhile_eq_all_conv)
  have "takeWhile comma_digit (nm @ pt @ fr) \<noteq> []" using nm by simp
  moreover have "dropWhile comma_digit (nm @ pt @ fr) = (if pt = [] then [] else ''.'' @ fr)"
    using n(2) fr by (auto simp: number_parts_def list_all_iff dropWhile_append2)
  ultimately show "num_shape n" unfolding num_shape_def m Let_def using n(2) by (auto simp: number_parts_def)
qed

lemma number_char_no_space: "comma_digit c \<or> c = CHR ''.'' \<or> c = CHR ''-'' \<Longrightarrow> \<not> is_space c \<and> c \<noteq> CHR ''<''"
  by (auto simp: comma_digit_def is_digit_def is_space_def Let_def less_eq_char_def)

lemma number_no_space: "num_shape n \<Longrightarrow> n \<noteq> [] \<and> list_all (\<lambda>c. \<not> is_space c \<and> c \<noteq> CHR ''<'') n"
  using number_char_no_space by (fastforce simp: num_shape_parts number_parts_def list_all_iff comma_digit_def)

lemma strip_padded:
  assumes "list_all is_space a" "list_all is_space b" "n \<noteq> []" "list_all (\<lambda>c. \<not> is_space c) n"
  shows "strip (a @ n @ b) = n"
proof -
  have h: "dropWhile is_space (a @ n @ b) = n @ b"
    using assms by (cases n) (auto simp: dropWhile_append list_all_iff)
  have "dropWhile is_space (rev b @ rev n) = rev n"
    using assms by (cases n rule: rev_cases) (auto simp: dropWhile_append list_all_iff)
  with h show ?thesis by (simp add: strip_def)
qed

lemma strip_split: "\<exists>a b. t = a @ strip t @ b \<and> list_all is_space a \<and> list_all is_space b"
proof -
  define m where "m = dropWhile is_space t"
  have "t = takeWhile is_space t @ m" "rev m = takeWhile is_space (rev m) @ dropWhile is_space (rev m)" by (simp_all add: m_def)
  then have "t = takeWhile is_space t @ strip t @ rev (takeWhile is_space (rev m))"
    unfolding strip_def m_def[symmetric] by (metis rev_append rev_rev_ident)
  moreover have "list_all is_space (takeWhile is_space t)" "list_all is_space (rev (takeWhile is_space (rev m)))"
    by (auto simp: list_all_iff dest: set_takeWhileD)
  ultimately show ?thesis by blast
qed

section \<open>A cell\<close>

text \<open>
  A cell as a table prints it: the attributes of its tag, its text up to the next tag, and that tag with what follows up to the
  next cell. Its number is its text without blanks, when that has the shape of one and the cell ends behind it.
\<close>

type_synonym cell_html = "string \<times> string \<times> string"

definition cell_text_of :: "cell_html \<Rightarrow> string" where
  "cell_text_of x = (case x of (a, t, u) \<Rightarrow> ''<td'' @ a @ ''>'' @ t @ u)"

definition cell_fine :: "cell_html \<Rightarrow> bool" where
  "cell_fine x \<longleftrightarrow> (case x of (a, t, u) \<Rightarrow> CHR ''>'' \<notin> set a \<and> CHR ''<'' \<notin> set a \<and> CHR ''<'' \<notin> set t \<and>
     starts_with u ''<'' \<and> 5 \<le> length u \<and> clear_of ''<td'' u \<and> clear_of ''</tr>'' u)"

definition cell_number :: "cell_html \<Rightarrow> string option" where
  "cell_number x = (case x of (a, t, u) \<Rightarrow> if num_shape (strip t) \<and> lit_at ''</td>'' u then Some (strip t) else None)"

definition number_re :: pattern where
  "number_re = [star is_space, Open_Group, maybe (chr_is CHR ''-''), many1 comma_digit, maybe (chr_is CHR ''.''), star is_digit, Close_Group, star is_space] @
     ilit ''</td>''"

lemma describes_ilit:
  "describes (ilit l @ p) k w k' \<longleftrightarrow> (\<exists>v w'. w = v @ w' \<and> length v = length l \<and> lower v = lower l \<and> describes p (eats v k) w' k')"
proof (induction l arbitrary: k w)
  case (Cons d l)
  have "describes (ilit (d # l) @ p) k w k' \<longleftrightarrow> (\<exists>c v w'. w = c # v @ w' \<and> length v = length l \<and> ignoring_case d c \<and> lower v = lower l \<and>
      describes p (eats (c # v) k) w' k')"
    using Cons.IH by (auto simp: ilit_def describes_single)
  also have "\<dots> \<longleftrightarrow> (\<exists>v w'. w = v @ w' \<and> length v = length (d # l) \<and> lower v = lower (d # l) \<and> describes p (eats v k) w' k')"
    by (auto simp: length_Suc_conv lower_def ignoring_case_def) (metis append_Cons length_Cons list.simps(9))+
  finally show ?case .
qed (simp add: ilit_def lower_def)

lemma at_most_any [simp]: "at_most None n"
  by (simp add: at_most_def)

lemma describes_star: "describes (star P # p) k w k' \<longleftrightarrow> (\<exists>v w'. w = v @ w' \<and> list_all P v \<and> describes p (eats v k) w' k')"
  by (auto simp: star_def describes_repeated)

lemma describes_many1: "describes (many1 P # p) k w k' \<longleftrightarrow> (\<exists>v w'. w = v @ w' \<and> v \<noteq> [] \<and> list_all P v \<and> describes p (eats v k) w' k')"
  by (auto simp: many1_def describes_repeated Suc_le_eq)

lemma describes_maybe:
  "describes (maybe (chr_is d) # p) k w k' \<longleftrightarrow> (\<exists>v w'. w = v @ w' \<and> (v = [] \<or> v = [d]) \<and> describes p (eats v k) w' k')"
proof -
  have "list_all (chr_is d) v \<and> at_most (Some 1) (length v) \<longleftrightarrow> v = [] \<or> v = [d]" for v
    by (cases v rule: remdups_adj.cases) (auto simp: at_most_def chr_is_def)
  then show ?thesis unfolding maybe_def describes_repeated by (metis zero_le)
qed

lemmas describes_parts = describes_star describes_many1 describes_maybe describes_opening describes_closing

lemma number_described:
  assumes "describes number_re k w k'"
  obtains sp sg nm pt fr sp' cl where "w = sp @ (sg @ nm @ pt @ fr) @ sp' @ cl" "list_all is_space sp" "number_parts sg nm pt fr"
    "list_all is_space sp'" "length cl = 5" "lower cl = lower ''</td>''"
    "k' = eats (sp' @ cl) (close_group (eats (sg @ nm @ pt @ fr) (open_group (eats sp k))))"
proof -
  from assms obtain sp w1 where 1: "w = sp @ w1" "list_all is_space sp" 
    "describes ([maybe (chr_is CHR ''-''), many1 comma_digit, maybe (chr_is CHR ''.''), star is_digit, Close_Group, star is_space] @
      ilit ''</td>'') (open_group (eats sp k)) w1 k'"
    unfolding number_re_def append_Cons append_Nil describes_star describes_opening by blast
  from 1(3) obtain sg w2 where 2: "w1 = sg @ w2" "sg = [] \<or> sg = ''-''"
    "describes ([many1 comma_digit, maybe (chr_is CHR ''.''), star is_digit, Close_Group, star is_space] @
      ilit ''</td>'') (eats sg (open_group (eats sp k))) w2 k'"
    unfolding append_Cons append_Nil describes_maybe by blast
  from 2(3) obtain nm w3 where 3: "w2 = nm @ w3" "nm \<noteq> []" "list_all comma_digit nm"
    "describes ([maybe (chr_is CHR ''.''), star is_digit, Close_Group, star is_space] @
      ilit ''</td>'') (eats (sg @ nm) (open_group (eats sp k))) w3 k'"
    unfolding append_Cons append_Nil describes_many1 eats_eats by blast
  from 3(4) obtain pt w4 where 4: "w3 = pt @ w4" "pt = [] \<or> pt = ''.''"
    "describes ([star is_digit, Close_Group, star is_space] @ ilit ''</td>'') (eats (sg @ nm @ pt) (open_group (eats sp k))) w4 k'"
    unfolding append_Cons append_Nil describes_maybe eats_eats append_assoc by blast
  from 4(3) obtain fr w5 where 5: "w4 = fr @ w5" "list_all is_digit fr"
    "describes ([star is_space] @ ilit ''</td>'') (close_group (eats (sg @ nm @ pt @ fr) (open_group (eats sp k)))) w5 k'"
    unfolding append_Cons append_Nil describes_star describes_closing eats_eats append_assoc by blast
  from 5(3) obtain sp' cl where 6: "w5 = sp' @ cl" "list_all is_space sp'" "length cl = 5" "lower cl = lower ''</td>''"
    "k' = eats cl (eats sp' (close_group (eats (sg @ nm @ pt @ fr) (open_group (eats sp k)))))"
    using describes_ilit[of "''</td>''" "[]"] unfolding append_Cons append_Nil describes_star by (auto simp: describes_done)
  show ?thesis
    using that[of sp sg nm pt fr sp' cl] 1 2 3 4 5 6 by (simp add: number_parts_def)
qed

lemma number_describes:
  assumes "list_all is_space sp" "number_parts sg nm pt fr" "list_all is_space sp'" "length cl = 5" "lower cl = lower ''</td>''"
  shows "\<exists>k'. describes number_re k (sp @ sg @ nm @ pt @ fr @ sp' @ cl) k'"
proof -
  have "describes (ilit ''</td>'') k0 cl (eats cl k0)" for k0
    using describes_ilit[of "''</td>''" "[]" k0 cl] assms(4,5) by (auto simp: describes_done)
  then show ?thesis
    using assms unfolding number_re_def append_Cons append_Nil describes_parts number_parts_def by metis
qed

lemma split_at_char: "x @ d # y = x' @ d # y' \<Longrightarrow> d \<notin> set x \<Longrightarrow> d \<notin> set x' \<Longrightarrow> x = x' \<and> y = y'"
  by (induction x arbitrary: x') (auto simp: Cons_eq_append_conv)

lemma no_lt: "list_all P w \<Longrightarrow> (\<And>c. P c \<Longrightarrow> c \<noteq> CHR ''<'') \<Longrightarrow> CHR ''<'' \<notin> set w"
  by (auto simp: list_all_iff)

lemma space_no_lt: "is_space c \<Longrightarrow> c \<noteq> CHR ''<''"
  by (auto simp: is_space_def Let_def)

lemma cell_begins: 
  assumes "CHR ''>'' \<notin> set a"
  shows "rx_match cell_re k (''<td'' @ a @ CHR ''>'' # s) = rx_match number_re (eats (''<td'' @ a @ ''>'') k) s"
  using ilit_here[of "''<td''" "tag_end @ number_re" k "a @ CHR ''>'' # s"] tag_end_here[OF assms, of number_re _ s]
  by (simp add: cell_re_def number_re_def)

lemma groups_after_number:
  "fd_groups (eats y (close_group (eats n (open_group (eats x k))))) = fd_groups k @ [n]"
  by (simp add: eats_def close_group_def open_group_def)

text \<open>At a cell the pattern matches exactly when the cell has a number, and finds that number.\<close>

lemma cell_match:
  assumes "CHR ''<'' \<notin> set t" "starts_with u ''<''"
  shows "case rx_match number_re (eats x nothing_found) (t @ u @ s) of
      None \<Rightarrow> \<not> (num_shape (strip t) \<and> lit_at ''</td>'' u)
    | Some (k, rest) \<Rightarrow> num_shape (strip t) \<and> lit_at ''</td>'' (u @ s) \<and> rest = drop 5 (u @ s) \<and> fd_groups k = [strip t]"
proof (cases "rx_match number_re (eats x nothing_found) (t @ u @ s)")
  case None
  have False if shape: "num_shape (strip t)" and closed: "lit_at ''</td>'' u"
  proof -
    obtain a b where t: "t = a @ strip t @ b" "list_all is_space a" "list_all is_space b" using strip_split by blast
    obtain sg nm pt fr where n: "strip t = sg @ nm @ pt @ fr" "number_parts sg nm pt fr" using shape num_shape_parts by blast
    have five: "length ''</td>'' = 5" by simp
    have cl: "length (take 5 u) = 5" "lower (take 5 u) = lower ''</td>''" using closed unfolding lit_at_def five by simp_all
    from number_describes[OF t(2) n(2) t(3) cl] obtain k' where
      "describes number_re (eats x nothing_found) (a @ sg @ nm @ pt @ fr @ b @ take 5 u) k'" by blast
    moreover have "t = a @ sg @ nm @ pt @ fr @ b" using t(1) unfolding n(1) by simp
    moreover have "take 5 u @ drop 5 u @ s = u @ s" by (metis append_assoc append_take_drop_id)
    ultimately have "rx_match number_re (eats x nothing_found) (t @ u @ s) \<noteq> None"
      using matcher_complete[of number_re _ _ _ "drop 5 u @ s"] by (metis append_assoc)
    with None show False by simp
  qed
  with None show ?thesis by auto
next
  case (Some m)
  then obtain k rest where m: "rx_match number_re (eats x nothing_found) (t @ u @ s) = Some (k, rest)" by (cases m) auto
  from matcher_sound[OF m] obtain w where w: "t @ u @ s = w @ rest" "describes number_re (eats x nothing_found) w k" by blast
  from number_described[OF w(2)] obtain sp sg nm pt fr sp' cl where p: "w = sp @ (sg @ nm @ pt @ fr) @ sp' @ cl" "list_all is_space sp"
    "number_parts sg nm pt fr" "list_all is_space sp'" "length cl = 5" "lower cl = lower ''</td>''"
    "k = eats (sp' @ cl) (close_group (eats (sg @ nm @ pt @ fr) (open_group (eats sp (eats x nothing_found)))))" by metis
  define n where "n = sg @ nm @ pt @ fr"
  have n: "num_shape n" using p(3) num_shape_parts by (auto simp: n_def)
  obtain u' where u: "u = CHR ''<'' # u'" using assms(2) by (cases u) auto
  obtain cl' where cl: "cl = CHR ''<'' # cl'" using p(5,6) lower_char_lt by (cases cl) (auto simp: lower_def)
  have "CHR ''<'' \<notin> set (sp @ n @ sp')"
    using no_lt[OF p(2) space_no_lt] no_lt[OF p(4) space_no_lt] number_no_space[OF n] by (auto simp: list_all_iff)
  moreover have "t @ CHR ''<'' # (u' @ s) = (sp @ n @ sp') @ CHR ''<'' # (cl' @ rest)" using w(1) p(1) by (simp add: u cl n_def)
  ultimately have tu: "t = sp @ n @ sp'" "u' @ s = cl' @ rest" using split_at_char assms(1) by metis+
  have "strip t = n" unfolding tu(1) using number_no_space[OF n] p(2,4) by (intro strip_padded) (auto simp: list_all_iff)
  moreover have us: "u @ s = cl @ rest" using tu(2) by (simp add: u cl)
  then have "lit_at ''</td>'' (u @ s)" "rest = drop 5 (u @ s)" using p(5,6) by (simp_all add: lit_at_def)
  moreover have "fd_groups k = [n]" using p(7) groups_after_number[of "sp' @ cl" n sp "eats x nothing_found"]
    by (simp add: n_def eats_def nothing_found_def)
  ultimately show ?thesis using n m by simp
qed

lemma cell_re_td: "cell_re = ilit ''<td'' @ tag_end @ number_re"
  by (simp add: cell_re_def number_re_def)

lemma lt_free_clear: "CHR ''<'' \<notin> set a \<Longrightarrow> clear_of ''<td'' a \<and> clear_of ''</tr>'' a \<and> clear_of ''<tr'' a"
  using clear_no_lt[of a] by blast

lemma cells_read:
  assumes "clear_of ''<td'' z"
  shows "list_all cell_fine cells \<Longrightarrow> cell_numbers (concat (map cell_text_of cells) @ z) = List.map_filter cell_number cells"
proof (induction cells)
  case Nil
  then show ?case using findall_clear_end[OF assms, of "tag_end @ number_re"] by (simp add: cell_numbers_def cell_re_td map_filter_simps)
next
  case (Cons x cells)
  obtain a t u where x: "x = (a, t, u)" by (cases x)
  define S where "S = concat (map cell_text_of cells) @ z"
  from Cons.prems have f: "CHR ''>'' \<notin> set a" "CHR ''<'' \<notin> set a" "CHR ''<'' \<notin> set t" "starts_with u ''<''" "clear_of ''<td'' u" "5 \<le> length u"
    by (simp_all add: x cell_fine_def)
  have u: "lit_at ''</td>'' (u @ S) = lit_at ''</td>'' u" "drop 5 (u @ S) = drop 5 u @ S" using f(6) by (simp_all add: lit_at_def)
  define s where "s = ''<td'' @ a @ CHR ''>'' # (t @ u @ S)"
  have s: "concat (map cell_text_of (x # cells)) @ z = s" by (simp add: s_def S_def x cell_text_of_def)
  have rest: "map (\<lambda>k. hd (fd_groups k)) (rx_findall cell_re S) = List.map_filter cell_number cells"
    using Cons by (simp add: S_def cell_numbers_def)
  have skip: "rx_findall cell_re (g @ S) = rx_findall cell_re S" if "clear_of ''<td'' g" for g
    unfolding cell_re_td using that by (intro findall_clear) simp_all
  note begins = cell_begins[OF f(1), of nothing_found "t @ u @ S"] and found = cell_match[OF f(3,4), where x = "''<td'' @ a @ ''>''" and s = S]
  show ?case
  proof (cases "rx_match cell_re nothing_found s")
    case None
    then have "rx_search cell_re s = rx_search cell_re ((''td'' @ a @ CHR ''>'' # t @ u) @ S)" by (simp add: s_def)
    then have "rx_findall cell_re s = rx_findall cell_re ((''td'' @ a @ CHR ''>'' # t @ u) @ S)"
      using findall_step[of cell_re] consuming_ilit[of "''<td''"] by (metis cell_re_td list.distinct(1))
    moreover have "clear_of ''<td'' (''td'' @ a @ CHR ''>'' # t)"
      using f(2,3) lt_free_clear[of "''td'' @ a @ CHR ''>'' # t"] by simp
    from clear_append[OF this f(5)] have "clear_of ''<td'' ((''td'' @ a @ CHR ''>'' # t) @ u)" .
    ultimately have "rx_findall cell_re s = rx_findall cell_re S" using skip by (metis append.assoc append_Cons)
    moreover have "cell_number x = None" using None begins found by (simp add: s_def x cell_number_def)
    ultimately show ?thesis unfolding s using rest by (simp add: cell_numbers_def map_filter_simps)
  next
    case (Some m)
    then obtain k r where m: "rx_match cell_re nothing_found s = Some (k, r)" by (cases m) auto
    then have "rx_match number_re (eats (''<td'' @ a @ ''>'') nothing_found) (t @ u @ S) = Some (k, r)" using begins by (simp add: s_def)
    with found have k: "num_shape (strip t)" "lit_at ''</td>'' u" "r = drop 5 u @ S" "fd_groups k = [strip t]"
      unfolding u by auto
    have "clear_of ''<td'' (drop 5 u)" using f(5) clear_tail[of _ "take 5 u" "drop 5 u"] by simp
    moreover have "rx_findall cell_re s = k # rx_findall cell_re r"
      using findall_step[of cell_re s] search_here[OF m] consuming_ilit[of "''<td''" "tag_end @ number_re"] by (simp add: cell_re_td)
    ultimately have "rx_findall cell_re s = k # rx_findall cell_re S" using skip k(3) by simp
    moreover have num: "cell_number x = Some (strip t)" using k by (simp add: x cell_number_def)
    ultimately show ?thesis unfolding s using rest k num by (simp add: cell_numbers_def map_filter_simps)
  qed
qed

section \<open>Rows and tables\<close>

text \<open>A row: the attributes of its tag, what stands before the first cell, and the cells.\<close>

type_synonym row_html = "string \<times> string \<times> cell_html list"

definition row_text_of :: "row_html \<Rightarrow> string" where
  "row_text_of r = (case r of (a, g, cells) \<Rightarrow> ''<tr'' @ a @ ''>'' @ g @ concat (map cell_text_of cells) @ ''</tr>'')"

definition row_fine :: "row_html \<Rightarrow> bool" where
  "row_fine r \<longleftrightarrow> (case r of (a, g, cells) \<Rightarrow> CHR ''>'' \<notin> set a \<and> CHR ''<'' \<notin> set a \<and> clear_of ''<td'' g \<and> clear_of ''</tr>'' g \<and>
     list_all cell_fine cells)"

definition row_numbers :: "row_html \<Rightarrow> string list" where
  "row_numbers r = (case r of (a, g, cells) \<Rightarrow> List.map_filter cell_number cells)"

definition table_text :: "(string \<times> row_html) list \<Rightarrow> string \<Rightarrow> string" where
  "table_text rows z = concat (map (\<lambda>(g, r). g @ row_text_of r) rows) @ z"

definition table_fine :: "(string \<times> row_html) list \<Rightarrow> string \<Rightarrow> bool" where
  "table_fine rows z \<longleftrightarrow> list_all (\<lambda>(g, r). clear_of ''<tr'' g \<and> row_fine r) rows \<and> clear_of ''<tr'' z"

lemma row_cells_read:
  assumes "row_fine r"
  shows "cell_numbers (row_text_of r) = row_numbers r"
proof -
  obtain a g cells where r: "r = (a, g, cells)" by (cases r)
  have f: "CHR ''<'' \<notin> set a" "clear_of ''<td'' g" "list_all cell_fine cells" using assms by (simp_all add: r row_fine_def)
  have "clear_of ''<td'' ''<tr''" "clear_of ''<td'' ''</tr>''" by code_simp+
  moreover have "clear_of ''<td'' (a @ ''>'')" using f(1) lt_free_clear by simp
  ultimately have "clear_of ''<td'' (''<tr'' @ (a @ ''>'') @ g)" using f(2) clear_append by metis
  then have "rx_findall cell_re (row_text_of r) = rx_findall cell_re (concat (map cell_text_of cells) @ ''</tr>'')"
    using findall_clear[of "''<td''" "''<tr'' @ (a @ ''>'') @ g" "tag_end @ number_re" "concat (map cell_text_of cells) @ ''</tr>''"]
    by (simp add: r row_text_of_def cell_re_td)
  with cells_read[OF \<open>clear_of ''<td'' ''</tr>''\<close> f(3)] show ?thesis by (simp add: cell_numbers_def r row_numbers_def)
qed

lemma cells_clear_tr: "list_all cell_fine cells \<Longrightarrow> clear_of ''</tr>'' (concat (map cell_text_of cells))"
proof (induction cells)
  case (Cons x cells)
  obtain a t u where x: "x = (a, t, u)" by (cases x)
  have "clear_of ''</tr>'' ''<td''" by code_simp
  moreover have "clear_of ''</tr>'' (a @ CHR ''>'' # t)" "clear_of ''</tr>'' u"
    using Cons.prems lt_free_clear[of "a @ CHR ''>'' # t"] by (auto simp: x cell_fine_def)
  ultimately have "clear_of ''</tr>'' (''<td'' @ (a @ CHR ''>'' # t) @ u)" using clear_append by metis
  moreover have "cell_text_of x = ''<td'' @ (a @ CHR ''>'' # t) @ u" by (simp add: x cell_text_of_def)
  ultimately have "clear_of ''</tr>'' (cell_text_of x)" by (simp only:)
  with Cons show ?case by (simp add: clear_append)
qed simp

lemma row_match:
  assumes "row_fine r"
  shows "\<exists>k. rx_match row_re nothing_found (row_text_of r @ s) = Some (k, s) \<and> fd_text k = row_text_of r"
proof -
  obtain a g cells where r: "r = (a, g, cells)" by (cases r)
  define body where "body = g @ concat (map cell_text_of cells)"
  have f: "CHR ''>'' \<notin> set a" "clear_of ''</tr>'' body"
    using assms cells_clear_tr[of cells] by (simp_all add: r row_fine_def body_def clear_append)
  define p where "p = lazy_any None # ilit ''</tr>''"
  have tx: "row_text_of r = ''<tr'' @ a @ CHR ''>'' # body @ ''</tr>''" by (simp add: r row_text_of_def body_def)
  have "rx_match row_re nothing_found (row_text_of r @ s) =
      rx_match p (eats (''<tr'' @ a @ ''>'') nothing_found) (body @ ''</tr>'' @ s)"
    using ilit_here[of "''<tr''" "tag_end @ p" nothing_found "a @ CHR ''>'' # body @ ''</tr>'' @ s"]
      tag_end_here[OF f(1), of p _ "body @ ''</tr>'' @ s"] by (simp add: row_re_def p_def tx)
  also have "\<dots> = rx_match p (eats (''<tr'' @ a @ ''>'' @ body) nothing_found) (''</tr>'' @ s)"
  proof -
    have "rx_match (ilit ''</tr>'') k (drop i body @ ''</tr>'' @ s) = None" if lt: "i < length body" for i k
    proof -
      have "clear_of ''</tr>'' (drop i body)" using f(2) clear_tail[of _ "take i body" "drop i body"] by simp
      moreover obtain c cs where "drop i body = c # cs" using lt by (cases "drop i body") auto
      ultimately have "\<not> compatible ''</tr>'' (drop i body)" by simp
      then have "\<not> lit_at ''</tr>'' (drop i body @ ''</tr>'' @ s)" using lit_compatible compatible_append by blast
      then show ?thesis using ilit_match[of "''</tr>''" "[]" k] by simp
    qed
    from lazy_match[of body "ilit ''</tr>''" "''</tr>'' @ s", OF this] show ?thesis by (simp add: p_def)
  qed
  also have "\<dots> = Some (eats ''</tr>'' (eats (''<tr'' @ a @ ''>'' @ body) nothing_found), s)"
    unfolding p_def using ilit_here[of "''</tr>''" "[]" _ s] by (intro lazy_stop) simp
  finally show ?thesis by (simp add: tx) (simp add: eats_def nothing_found_def)
qed

lemma table_read:
  assumes "table_fine rows z"
  shows "table_rows (table_text rows z) = map (\<lambda>(g, r). (row_text_of r, row_numbers r)) rows"
  using assms
proof (induction rows)
  case Nil
  then show ?case using findall_clear_end[of "''<tr''" z "tag_end @ lazy_any None # ilit ''</tr>''"]
    by (simp add: table_rows_def table_text_def table_fine_def row_re_def)
next
  case (Cons x rows)
  obtain g r where x: "x = (g, r)" by (cases x)
  define S where "S = table_text rows z"
  have f: "clear_of ''<tr'' g" "row_fine r" "table_fine rows z" using Cons.prems by (simp_all add: x table_fine_def)
  obtain k where k: "rx_match row_re nothing_found (row_text_of r @ S) = Some (k, S)" "fd_text k = row_text_of r"
    using row_match[OF f(2)] by blast
  have "rx_findall row_re (table_text (x # rows) z) = rx_findall row_re (row_text_of r @ S)"
    using findall_clear[OF f(1), of "tag_end @ lazy_any None # ilit ''</tr>''"] by (simp add: table_text_def S_def x row_re_def)
  also have "\<dots> = k # rx_findall row_re S"
    using findall_step[of row_re "row_text_of r @ S"] search_here[OF k(1)] consuming_ilit[of "''<tr''" "tag_end @ lazy_any None # ilit ''</tr>''"]
    by (simp add: row_re_def)
  finally show ?case using Cons.IH[OF f(3)] row_cells_read[OF f(2)] by (simp add: table_rows_def S_def x k(2))
qed

section \<open>A section of the page\<close>

text \<open>The last number of the first row that carries the label and has a number.\<close>

definition table_figure :: "(string \<times> row_html) list \<Rightarrow> string \<Rightarrow> rat option" where
  "table_figure rows label =
     (case find (\<lambda>(g, r). contains_text (lower (row_text_of r)) (lower label) \<and> row_numbers r \<noteq> []) rows of
        None \<Rightarrow> None
      | Some (g, r) \<Rightarrow> screen_num (last (row_numbers r)))"

lemma figure_read:
  "last_row_value (map (\<lambda>(g, r). (row_text_of r, row_numbers r)) rows) label = table_figure rows label"
  by (induction rows) (simp_all add: table_figure_def split_beta)

lemma section_between:
  assumes "text_find (pre @ sect @ post) a = Some (length pre)" "text_find (pre @ sect @ post) b = Some (length pre + length sect)"
  shows "section_of (pre @ sect @ post) a b width = sect"
  using assms by (simp add: section_of_def)

text \<open>C24: From the page's text to the ratio: on a page whose balance sheet lies between its own mark and that of the cash flow, the
  debt-to-equity ratio is borrowings over equity capital plus reserves, each the last number of the first row of that section
  that carries the label and has a number, whatever the tags' attributes, blanks and the texts between rows and cells.
\<close>

theorem page_debt_to_equity:
  assumes "table_fine rows z" "html = pre @ table_text rows z @ post"
    and "text_find html bs_mark = Some (length pre)" "text_find html cf_mark = Some (length pre + length (table_text rows z))"
  shows "dget (screener_data s (page_of_html status html)) ''debtToEquity'' =
    (case (table_figure rows ''Borrowings'', table_figure rows ''Equity Capital'', table_figure rows ''Reserves'') of
       (Some b, Some e, Some r) \<Rightarrow> if e + r = 0 then VNone else VNum (py_round 2 (b / (e + r)))
     | _ \<Rightarrow> VNone)"
proof -
  have "section_of html bs_mark cf_mark 25000 = table_text rows z"
    using section_between assms(2-4) by blast
  then have "sp_bs (page_of_html status html) = map (\<lambda>(g, r). (row_text_of r, row_numbers r)) rows"
    using table_read[OF assms(1)] by (simp add: page_of_html_def)
  then show ?thesis
    by (simp add: screener_data_def Let_def dget_def debt_to_equity_def figure_read split: option.split)
qed

text \<open>A small page: a row of labels without numbers, a row whose last cell is no number, upper case tags.\<close>

definition demo_rows :: "(string \<times> row_html) list" where
  "demo_rows =
    [(bs_mark @ ''><table>'', ([], '' '', [('' a'', ''Borrowings'', ''</td> ''), ([], ''Mar'', ''</td>'')])),
     ('' '', ('' class=x'', [], [([], ''Equity Capital'', ''</td>''), ([], '' 5'', ''</td>''), ([], ''10 '', ''</TD>'')])),
     ([], ([], [], [([], ''Reserves'', ''<b>+</b></td>''), ([], ''1,190.00'', ''</td>''), ([], ''7%'', ''</td>'')])),
     ([], ([], [], [([], ''Borrowings'', ''</td>''), ([], ''250'', ''</td>''), ([], ''300'', ''</td>'')]))]"

definition demo_html_page :: string where
  "demo_html_page = ''<html><div '' @ table_text demo_rows ''</table><div '' @ (cf_mark @ ''></html>'')"

lemma demo_figures: "table_figure demo_rows ''Borrowings'' = Some 300" "table_figure demo_rows ''Equity Capital'' = Some 10"
  "table_figure demo_rows ''Reserves'' = Some 1190"
  by code_simp+

lemma demo_table_fine: "table_fine demo_rows ''</table><div ''"
  by code_simp

lemma demo_marks: "text_find demo_html_page bs_mark = Some (length ''<html><div '')"
  "text_find demo_html_page cf_mark = Some (length ''<html><div '' + length (table_text demo_rows ''</table><div ''))"
  by code_simp+

theorem page_debt_to_equity_witness:
  "dget (screener_data ''TCS'' (page_of_html 200 demo_html_page)) ''debtToEquity'' = VNum (1 / 4)"
proof -
  have "py_round 2 (300 / 1200) = 1 / 4" by code_simp
  then show ?thesis
    using page_debt_to_equity[OF demo_table_fine demo_html_page_def demo_marks, of "''TCS''" 200] by (simp add: demo_figures)
qed

end
