(* ===== verification/Streaming.thy ===== *)
theory Streaming
  imports TickerCache
begin

text \<open>
  \<^verbatim>\<open>src/api/endpoints/websocket.py\<close> over the tick cache and the channels of the in-memory store: the table of connections, the two
  endpoints, and the listener that forwards published ticks. The hub changes by events: a client connects, a tick is written
  to the cache (and so published), a listener takes the next message, a client sends a text or goes away. A flag tells
  whether a send succeeds.
\<close>

section \<open>The hub\<close>

datatype frame = Data tick_msg | Pong

record client =
  wc_pub :: nat
  wc_filter :: "string option"
  wc_listening :: bool
  wc_open :: bool
  wc_sent :: "frame list"

type_synonym connections = "(string \<times> nat list) list"

record hub =
  hb_cache :: cache
  hb_conns :: connections
  hb_clients :: "client list"

definition new_hub :: hub where
  "new_hub = \<lparr>hb_cache = empty_store, hb_conns = [], hb_clients = []\<rparr>"

definition channel_members :: "string \<Rightarrow> connections \<Rightarrow> nat list" where
  "channel_members ch conns = (case map_of conns ch of None \<Rightarrow> [] | Some ws \<Rightarrow> ws)"

definition manager_connect :: "string \<Rightarrow> nat \<Rightarrow> connections \<Rightarrow> connections" where
  "manager_connect ch w conns = dput ch (channel_members ch conns @ [w]) conns"

definition manager_disconnect :: "string \<Rightarrow> nat \<Rightarrow> connections \<Rightarrow> connections" where
  "manager_disconnect ch w conns =
     (case map_of conns ch of None \<Rightarrow> conns | Some ws \<Rightarrow> dput ch (filter (\<lambda>x. x \<noteq> w) ws) conns)"

definition total_connections :: "connections \<Rightarrow> nat" where
  "total_connections conns = sum_list (map (length \<circ> snd) conns)"

definition tick_channels :: "string list" where
  "tick_channels = [''ticks:NSE'', ''ticks:BSE'']"

definition ws_channel :: "string option \<Rightarrow> string" where
  "ws_channel f = (case f of None \<Rightarrow> ''all'' | Some s \<Rightarrow> ''symbol:'' @ s)"

text \<open>A filter that is the empty text filters nothing.\<close>

definition wanted :: "string option \<Rightarrow> tick_msg \<Rightarrow> bool" where
  "wanted f m \<longleftrightarrow> (case f of None \<Rightarrow> True | Some s \<Rightarrow> s = [] \<or> tm_symbol m = s)"

section \<open>Events\<close>

definition ws_connect :: "string option \<Rightarrow> hub \<Rightarrow> hub" where
  "ws_connect flt h =
     (let f = map_option (\<lambda>s. upper (strip s)) flt; (p, c) = pubsub_open (hb_cache h)
      in h\<lparr>hb_conns := manager_connect (ws_channel f) (length (hb_clients h)) (hb_conns h),
           hb_cache := subscribe p tick_channels c,
           hb_clients := hb_clients h @ [\<lparr>wc_pub = p, wc_filter = f, wc_listening = True, wc_open = True, wc_sent = []\<rparr>]\<rparr>)"

text \<open>One message of \<^verbatim>\<open>_pubsub_listener\<close>.\<close>

definition forward :: "tick_msg \<Rightarrow> bool \<Rightarrow> client \<Rightarrow> client" where
  "forward m ok k =
     (if \<not> wanted (wc_filter k) m then k
      else if ok then k\<lparr>wc_sent := wc_sent k @ [Data m]\<rparr> else k\<lparr>wc_listening := False\<rparr>)"

definition deliver :: "nat \<Rightarrow> bool \<Rightarrow> hub \<Rightarrow> hub" where
  "deliver i ok h =
     (if i < length (hb_clients h) \<and> wc_listening (hb_clients h ! i) then
        (let k = hb_clients h ! i
         in case listen1 (wc_pub k) (hb_cache h) of
              (None, c) \<Rightarrow> h
            | (Some (ch, m), c) \<Rightarrow> h\<lparr>hb_cache := c, hb_clients := (hb_clients h)[i := forward m ok k]\<rparr>)
      else h)"

definition ws_hangup :: "nat \<Rightarrow> hub \<Rightarrow> hub" where
  "ws_hangup i h =
     (if i < length (hb_clients h) \<and> wc_open (hb_clients h ! i) then
        (let k = hb_clients h ! i
         in h\<lparr>hb_cache := pubsub_close (wc_pub k) (unsubscribe (wc_pub k) (if wc_filter k = None then tick_channels else []) (hb_cache h)),
              hb_conns := manager_disconnect (ws_channel (wc_filter k)) i (hb_conns h),
              hb_clients := (hb_clients h)[i := k\<lparr>wc_open := False, wc_listening := False\<rparr>]\<rparr>)
      else h)"

definition ws_text :: "nat \<Rightarrow> string \<Rightarrow> bool \<Rightarrow> hub \<Rightarrow> hub" where
  "ws_text i d ok h =
     (if i < length (hb_clients h) \<and> wc_open (hb_clients h ! i) \<and> d = ''ping'' then
        (let k = hb_clients h ! i
         in if ok then h\<lparr>hb_clients := (hb_clients h)[i := k\<lparr>wc_sent := wc_sent k @ [Pong]\<rparr>]\<rparr>
            else (let h' = ws_hangup i h
                  in h'\<lparr>hb_conns := manager_disconnect (ws_channel (wc_filter k)) i (hb_conns h')\<rparr>))
      else h)"

datatype ws_event = Connect "string option" | TickWritten "nat \<Rightarrow> secs" tick | Deliver nat bool | Text nat string bool | Hangup nat

fun ws_step :: "int \<Rightarrow> hub \<Rightarrow> ws_event \<Rightarrow> hub" where
  "ws_step ttl h (Connect f) = ws_connect f h"
| "ws_step ttl h (TickWritten clk t) = h\<lparr>hb_cache := set_tick ttl clk t (hb_cache h)\<rparr>"
| "ws_step ttl h (Deliver i ok) = deliver i ok h"
| "ws_step ttl h (Text i d ok) = ws_text i d ok h"
| "ws_step ttl h (Hangup i) = ws_hangup i h"

definition ws_run :: "int \<Rightarrow> ws_event list \<Rightarrow> hub \<Rightarrow> hub" where
  "ws_run ttl evs h = foldl (ws_step ttl) h evs"

section \<open>The channels under the operations\<close>

abbreviation pub_at :: "'m store \<Rightarrow> nat \<Rightarrow> 'm pubsub" where
  "pub_at s j \<equiv> st_pubsubs s ! j"

lemma hset_pubs: "st_pubsubs (snd (hset k items s)) = st_pubsubs s" "st_subscribers (snd (hset k items s)) = st_subscribers s"
  by (simp_all add: hset_def Let_def)

lemma expire_pubs: "st_pubsubs (snd (expire t k ttl s)) = st_pubsubs s" "st_subscribers (snd (expire t k ttl s)) = st_subscribers s"
  by (simp_all add: expire_def Let_def)

lemma xadd_pubs: "st_pubsubs (snd (xadd t k fs s)) = st_pubsubs s" "st_subscribers (snd (xadd t k fs s)) = st_subscribers s"
  by (simp_all add: xadd_def Let_def)

lemma publish_length: "length (st_pubsubs (snd (publish ch m s))) = length (st_pubsubs s)"
  by (simp add: publish_def Let_def foldl_push_frame[THEN conjunct2, THEN conjunct2, THEN conjunct2, THEN conjunct2])

lemma snd_run_pipe: "snd (run_pipe (o1 # ops) s) = snd (run_pipe ops (snd (run_op (fst o1) (snd o1) s)))"
  by (cases o1) (simp add: split_beta)

lemma run_pipe_reach: "store_reach s \<Longrightarrow> store_reach (snd (run_pipe ops s))"
proof (induction ops arbitrary: s)
  case (Cons o1 ops)
  then show ?case by (simp only: snd_run_pipe store_reach.run)
qed simp

lemma set_tick_reach: "store_reach s \<Longrightarrow> store_reach (set_tick ttl clk t s)"
  unfolding set_tick_def Let_def by (rule run_pipe_reach)

lemma at_clock4: "at_clock clk [a, b, c, d] = [(clk 1, a), (clk 2, b), (clk 3, c), (clk 4, d)]"
  by (simp add: at_clock_def upt_conv_Cons eval_nat_numeral)

lemma set_tick_publishes:
  "\<exists>s'. set_tick ttl clk t s = snd (publish (''ticks:'' @ tk_exchange t) (tick_message t) s') \<and>
     st_pubsubs s' = st_pubsubs s \<and> st_subscribers s' = st_subscribers s"
  unfolding set_tick_def Let_def at_clock4 snd_run_pipe fst_conv snd_conv
  by (intro exI[where x = "snd (xadd (clk 3) (''stream:ticks:'' @ tk_exchange t) (stream_data t)
        (snd (expire (clk 2) (tick_key (tk_exchange t) (tk_symbol t)) ttl
          (snd (hset (tick_key (tk_exchange t) (tk_symbol t)) (tick_to_hash (clk 0) t) s)))))"])
    (simp add: run_op_def hset_pubs expire_pubs xadd_pubs)

lemma set_tick_pubs:
  assumes "store_reach s"
  shows "length (st_pubsubs (set_tick ttl clk t s)) = length (st_pubsubs s)"
    "j < length (st_pubsubs s) \<Longrightarrow> pub_at (set_tick ttl clk t s) j =
       (if ''ticks:'' @ tk_exchange t \<in> set (ps_channels (pub_at s j))
        then (pub_at s j)\<lparr>ps_queue := ps_queue (pub_at s j) @ [(''ticks:'' @ tk_exchange t, tick_message t)]\<rparr> else pub_at s j)"
proof -
  obtain s' where s': "set_tick ttl clk t s = snd (publish (''ticks:'' @ tk_exchange t) (tick_message t) s')"
    "st_pubsubs s' = st_pubsubs s" "st_subscribers s' = st_subscribers s"
    using set_tick_publishes by blast
  have inv: "sub_inv s'" using store_reach_invs[OF assms] inv_frame(2)[OF s'(3,2)] by simp
  show "length (st_pubsubs (set_tick ttl clk t s)) = length (st_pubsubs s)" by (simp only: s' publish_length)
  assume "j < length (st_pubsubs s)"
  then show "pub_at (set_tick ttl clk t s) j =
       (if ''ticks:'' @ tk_exchange t \<in> set (ps_channels (pub_at s j))
        then (pub_at s j)\<lparr>ps_queue := ps_queue (pub_at s j) @ [(''ticks:'' @ tk_exchange t, tick_message t)]\<rparr> else pub_at s j)"
    using publish_nth[OF inv, of j] unfolding s' by simp
qed

lemma unsub1_at:
  "j < length (st_pubsubs s) \<Longrightarrow> pub_at (unsubscribe1 i s ch) j =
     (if j = i then (pub_at s i)\<lparr>ps_channels := removeAll ch (ps_channels (pub_at s i))\<rparr> else pub_at s j)"
  by (simp add: unsubscribe1_def upd_pubsub_nth)

lemma unsubs_at:
  "j < length (st_pubsubs s) \<Longrightarrow> pub_at (foldl (unsubscribe1 i) s chs) j =
     (if j = i then (pub_at s i)\<lparr>ps_channels := filter (\<lambda>c. c \<notin> set chs) (ps_channels (pub_at s i))\<rparr> else pub_at s j) \<and>
   length (st_pubsubs (foldl (unsubscribe1 i) s chs)) = length (st_pubsubs s)"
proof (induction chs arbitrary: s)
  case (Cons ch chs)
  have len: "length (st_pubsubs (unsubscribe1 i s ch)) = length (st_pubsubs s)" by (simp add: unsubscribe1_def)
  have "filter (\<lambda>c. c \<notin> set chs) (removeAll ch xs) = filter (\<lambda>c. c \<noteq> ch \<and> c \<notin> set chs) xs" for xs
    by (induction xs) auto
  with Cons len unsub1_at[of j s i ch] unsub1_at[of i s i ch] show ?case by (auto simp: conj_commute)
qed simp

lemma close_at:
  assumes "i < length (st_pubsubs s)" "j < length (st_pubsubs s)"
  shows "pub_at (pubsub_close i (unsubscribe i chs s)) j =
     (if j = i then (pub_at s i)\<lparr>ps_channels := []\<rparr> else pub_at s j) \<and>
   length (st_pubsubs (pubsub_close i (unsubscribe i chs s))) = length (st_pubsubs s)"
  using assms by (simp add: pubsub_close_def unsubscribe_def unsubs_at)

lemma close_reach: "store_reach s \<Longrightarrow> i < length (st_pubsubs s) \<Longrightarrow> store_reach (pubsub_close i (unsubscribe i chs s))"
  unfolding pubsub_close_def by (intro store_reach.unsub) (simp_all add: unsubscribe_def unsubs_at)

lemma sub_at:
  assumes "j < length (st_pubsubs s)"
  shows "pub_at (subscribe (length (st_pubsubs s)) tick_channels (snd (pubsub_open s))) j = pub_at s j"
  using assms by (simp add: subscribe_def subscribe1_def tick_channels_def upd_pubsub_nth pubsub_open_def nth_append)

lemma sub_new:
  "pub_at (subscribe (length (st_pubsubs s)) tick_channels (snd (pubsub_open s))) (length (st_pubsubs s)) =
     \<lparr>ps_channels = tick_channels, ps_queue = []\<rparr>"
  "length (st_pubsubs (subscribe (length (st_pubsubs s)) tick_channels (snd (pubsub_open s)))) = Suc (length (st_pubsubs s))"
  by (simp_all add: subscribe_def subscribe1_def tick_channels_def upd_pubsub_nth pubsub_open_def set_add_def)

lemma open_reach: "store_reach s \<Longrightarrow> store_reach (subscribe (length (st_pubsubs s)) tick_channels (snd (pubsub_open s)))"
  by (intro store_reach.sub store_reach.opened) (simp_all add: pubsub_open_def)

lemma listen_at:
  assumes "listen1 p s = (Some e, s')" "p < length (st_pubsubs s)"
  shows "ps_queue (pub_at s p) = e # ps_queue (pub_at s' p) \<and> ps_channels (pub_at s' p) = ps_channels (pub_at s p) \<and>
    length (st_pubsubs s') = length (st_pubsubs s) \<and> (\<forall>j < length (st_pubsubs s). j \<noteq> p \<longrightarrow> pub_at s' j = pub_at s j)"
  using assms by (auto simp: listen1_def upd_pubsub_nth split: list.splits)

lemma listen_reach: "listen1 p s = (r, s') \<Longrightarrow> p < length (st_pubsubs s) \<Longrightarrow> store_reach s \<Longrightarrow> store_reach s'"
  using store_reach.listen[of s p] by (metis snd_conv)

section \<open>The hub stays in order\<close>

definition clients_ok :: "cache \<Rightarrow> client list \<Rightarrow> bool" where
  "clients_ok c ks \<longleftrightarrow> store_reach c \<and> (\<forall>i < length ks. \<forall>j < length ks. wc_pub (ks ! i) = wc_pub (ks ! j) \<longrightarrow> i = j) \<and>
     (\<forall>i < length ks. wc_pub (ks ! i) < length (st_pubsubs c) \<and>
        ps_channels (pub_at c (wc_pub (ks ! i))) = (if wc_open (ks ! i) then tick_channels else []) \<and>
        (wc_listening (ks ! i) \<longrightarrow> wc_open (ks ! i)))"

definition members :: "client list \<Rightarrow> string \<Rightarrow> nat list" where
  "members ks ch = filter (\<lambda>w. wc_open (ks ! w) \<and> ws_channel (wc_filter (ks ! w)) = ch) [0..<length ks]"

definition table_ok :: "connections \<Rightarrow> client list \<Rightarrow> bool" where
  "table_ok conns ks \<longleftrightarrow> (\<forall>ch. channel_members ch conns = members ks ch)"

definition hub_ok :: "hub \<Rightarrow> bool" where
  "hub_ok h \<longleftrightarrow> clients_ok (hb_cache h) (hb_clients h) \<and> table_ok (hb_conns h) (hb_clients h)"

inductive ws_reach :: "int \<Rightarrow> hub \<Rightarrow> bool" for ttl where
  fresh: "ws_reach ttl new_hub"
| step: "ws_reach ttl h \<Longrightarrow> ws_reach ttl (ws_step ttl h e)"

lemma members_disconnect: "channel_members ch (manager_disconnect c w conns) =
    (if ch = c then filter (\<lambda>x. x \<noteq> w) (channel_members c conns) else channel_members ch conns)"
  by (simp add: channel_members_def manager_disconnect_def split: option.split)

lemma members_connect: "channel_members ch (manager_connect c w conns) =
    (if ch = c then channel_members c conns @ [w] else channel_members ch conns)"
  by (simp add: channel_members_def manager_connect_def)

lemma nth_upd: "x < length xs \<Longrightarrow> xs[i := y] ! x = (if x = i then y else xs ! x)"
  by (simp add: nth_list_update)

text \<open>One client changes, its pub/sub object stays its own.\<close>

lemma clients_ok_upd:
  assumes "clients_ok c ks" "i < length ks" "wc_pub k = wc_pub (ks ! i)" "wc_listening k \<Longrightarrow> wc_open k"
    and "store_reach c'" "length (st_pubsubs c') = length (st_pubsubs c)"
    and "\<And>j. j < length (st_pubsubs c) \<Longrightarrow> j \<noteq> wc_pub k \<Longrightarrow> ps_channels (pub_at c' j) = ps_channels (pub_at c j)"
    and "ps_channels (pub_at c' (wc_pub k)) = (if wc_open k then tick_channels else [])"
  shows "clients_ok c' (ks[i := k])"
proof -
  have row: "wc_pub (ks[i := k] ! j) < length (st_pubsubs c') \<and>
      ps_channels (pub_at c' (wc_pub (ks[i := k] ! j))) = (if wc_open (ks[i := k] ! j) then tick_channels else []) \<and>
      (wc_listening (ks[i := k] ! j) \<longrightarrow> wc_open (ks[i := k] ! j))" if j: "j < length ks" for j
  proof (cases "j = i")
    case True
    then show ?thesis using assms j by (simp add: clients_ok_def nth_upd)
  next
    case False
    then have "wc_pub (ks ! j) \<noteq> wc_pub k" using assms(1,2,3) j by (auto simp: clients_ok_def)
    then show ?thesis using assms j False by (simp add: clients_ok_def nth_upd)
  qed
  moreover have "wc_pub (ks[i := k] ! j) = wc_pub (ks ! j)" if "j < length ks" for j using that assms(3) by (simp add: nth_upd)
  ultimately show ?thesis using assms(1,5) by (simp add: clients_ok_def)
qed

lemma members_upd:
  assumes "wc_open k = wc_open (ks ! i)" "wc_filter k = wc_filter (ks ! i)"
  shows "members (ks[i := k]) ch = members ks ch"
  unfolding members_def using assms by (auto simp: nth_upd intro!: filter_cong split: if_splits)

lemma members_closed:
  assumes "i < length ks" "\<not> wc_open k"
  shows "members (ks[i := k]) ch = filter (\<lambda>x. x \<noteq> i) (members ks ch)"
  unfolding members_def using assms by (auto simp: nth_upd intro!: filter_cong split: if_splits)

lemma members_other: "ch \<noteq> ws_channel (wc_filter (ks ! i)) \<Longrightarrow> i \<notin> set (members ks ch)"
  by (simp add: members_def)

lemma ws_connect_eq:
  "ws_connect flt h = h\<lparr>hb_conns := manager_connect (ws_channel (map_option (\<lambda>s. upper (strip s)) flt)) (length (hb_clients h)) (hb_conns h),
     hb_cache := subscribe (length (st_pubsubs (hb_cache h))) tick_channels (snd (pubsub_open (hb_cache h))),
     hb_clients := hb_clients h @ [\<lparr>wc_pub = length (st_pubsubs (hb_cache h)), wc_filter = map_option (\<lambda>s. upper (strip s)) flt,
       wc_listening = True, wc_open = True, wc_sent = []\<rparr>]\<rparr>"
  by (simp add: ws_connect_def Let_def pubsub_open_def)

lemma connect_ok: "hub_ok h \<Longrightarrow> hub_ok (ws_connect flt h)"
proof -
  assume ok: "hub_ok h"
  have "members (hb_clients h @ [k]) ch = members (hb_clients h) ch @
      (if wc_open k \<and> ws_channel (wc_filter k) = ch then [length (hb_clients h)] else [])" for k ch
    by (auto simp: members_def nth_append intro!: filter_cong)
  then have "table_ok (hb_conns (ws_connect flt h)) (hb_clients (ws_connect flt h))"
    using ok by (simp add: hub_ok_def table_ok_def members_connect ws_connect_eq)
  moreover have "clients_ok (hb_cache (ws_connect flt h)) (hb_clients (ws_connect flt h))"
    using ok by (auto simp: hub_ok_def clients_ok_def ws_connect_eq nth_append sub_at sub_new open_reach less_Suc_eq)
  ultimately show "hub_ok (ws_connect flt h)" by (simp add: hub_ok_def)
qed

lemma tick_hub: "hub_ok h \<Longrightarrow> hub_ok (h\<lparr>hb_cache := set_tick ttl clk t (hb_cache h)\<rparr>)"
  by (auto simp: hub_ok_def clients_ok_def set_tick_reach set_tick_pubs)

lemma deliver_cases:
  obtains "deliver i ok h = h"
  | ch m c where "i < length (hb_clients h)" "wc_listening (hb_clients h ! i)" "listen1 (wc_pub (hb_clients h ! i)) (hb_cache h) = (Some (ch, m), c)"
      "deliver i ok h = h\<lparr>hb_cache := c, hb_clients := (hb_clients h)[i := forward m ok (hb_clients h ! i)]\<rparr>"
  by (cases "i < length (hb_clients h) \<and> wc_listening (hb_clients h ! i)";
      cases "listen1 (wc_pub (hb_clients h ! i)) (hb_cache h)"; cases "fst (listen1 (wc_pub (hb_clients h ! i)) (hb_cache h))")
    (auto simp: deliver_def)

lemma forward_sel [simp]: "wc_pub (forward m ok k) = wc_pub k" "wc_filter (forward m ok k) = wc_filter k"
  "wc_open (forward m ok k) = wc_open k"
  by (simp_all add: forward_def)

lemma forward_listening: "wc_listening (forward m ok k) \<Longrightarrow> wc_listening k"
  by (simp add: forward_def split: if_splits)

lemma client_facts:
  assumes "clients_ok c ks" "i < length ks"
  shows "wc_pub (ks ! i) < length (st_pubsubs c)" "store_reach c"
    "ps_channels (pub_at c (wc_pub (ks ! i))) = (if wc_open (ks ! i) then tick_channels else [])" "wc_listening (ks ! i) \<Longrightarrow> wc_open (ks ! i)"
  using assms by (simp_all add: clients_ok_def)

lemma deliver_hub:
  assumes "hub_ok h" shows "hub_ok (deliver i ok h)"
proof (cases rule: deliver_cases[of i ok h])
  case (2 ch m c)
  from assms have ok: "clients_ok (hb_cache h) (hb_clients h)" by (simp add: hub_ok_def)
  note f = client_facts[OF ok 2(1)]
  have "clients_ok c ((hb_clients h)[i := forward m ok (hb_clients h ! i)])"
    using listen_at[OF 2(3) f(1)] f forward_listening 2(2)
    by (intro clients_ok_upd[OF ok 2(1)] listen_reach[OF 2(3) f(1,2)]) auto
  with assms show ?thesis by (simp add: hub_ok_def 2(4) table_ok_def members_upd)
qed (use assms in simp)

lemma hangup_hub:
  assumes "hub_ok h" shows "hub_ok (ws_hangup i h)"
proof (cases "i < length (hb_clients h) \<and> wc_open (hb_clients h ! i)")
  case True
  from assms have ok: "clients_ok (hb_cache h) (hb_clients h)" "table_ok (hb_conns h) (hb_clients h)" by (simp_all add: hub_ok_def)
  note i = conjunct1[OF True]
  note f = client_facts[OF ok(1) i]
  define k where "k = (hb_clients h ! i)\<lparr>wc_open := False, wc_listening := False\<rparr>"
  have "clients_ok (pubsub_close (wc_pub (hb_clients h ! i)) (unsubscribe (wc_pub (hb_clients h ! i)) chs (hb_cache h))) ((hb_clients h)[i := k])" for chs
    using close_at[OF f(1)] f by (intro clients_ok_upd[OF ok(1) i] close_reach) (auto simp: k_def)
  moreover have "table_ok (manager_disconnect (ws_channel (wc_filter (hb_clients h ! i))) i (hb_conns h)) ((hb_clients h)[i := k])"
    unfolding table_ok_def
  proof
    fix ch
    have "members ((hb_clients h)[i := k]) ch = filter (\<lambda>x. x \<noteq> i) (members (hb_clients h) ch)"
      using members_closed[OF i, of k] by (simp add: k_def)
    moreover have "ch \<noteq> ws_channel (wc_filter (hb_clients h ! i)) \<Longrightarrow>
        filter (\<lambda>x. x \<noteq> i) (members (hb_clients h) ch) = members (hb_clients h) ch"
      using members_other[of ch "hb_clients h" i] by (intro filter_True) blast
    ultimately show "channel_members ch (manager_disconnect (ws_channel (wc_filter (hb_clients h ! i))) i (hb_conns h)) =
        members ((hb_clients h)[i := k]) ch"
      using ok(2) by (simp add: members_disconnect table_ok_def)
  qed
  ultimately show ?thesis using True by (simp add: hub_ok_def ws_hangup_def Let_def k_def)
qed (use assms in \<open>auto simp: ws_hangup_def\<close>)

lemma text_hub: assumes "hub_ok h" shows "hub_ok (ws_text i d ok h)"
proof (cases "i < length (hb_clients h) \<and> wc_open (hb_clients h ! i) \<and> d = ''ping''")
  case True
  from assms have ok: "clients_ok (hb_cache h) (hb_clients h)" by (simp add: hub_ok_def)
  note i = conjunct1[OF True]
  note f = client_facts[OF ok i]
  have "clients_ok (hb_cache h) ((hb_clients h)[i := (hb_clients h ! i)\<lparr>wc_sent := x\<rparr>])" for x
    using f by (intro clients_ok_upd[OF ok i]) auto
  moreover have again: "manager_disconnect c i (hb_conns (ws_hangup i h)) = x \<Longrightarrow> channel_members ch x = channel_members ch (hb_conns (ws_hangup i h))"
    if "c = ws_channel (wc_filter (hb_clients h ! i))" for c x ch
    using that True by (auto simp: ws_hangup_def Let_def members_disconnect)
  ultimately show ?thesis
    using assms hangup_hub[OF assms, of i] True by (simp add: ws_text_def Let_def hub_ok_def table_ok_def members_upd)
qed (use assms in \<open>auto simp: ws_text_def\<close>)

lemma ws_reach_ok: "ws_reach ttl h \<Longrightarrow> hub_ok h"
proof (induction rule: ws_reach.induct)
  case fresh
  then show ?case
    by (simp add: new_hub_def hub_ok_def clients_ok_def table_ok_def members_def channel_members_def store_reach.init)
next
  case (step h e)
  then show ?case by (cases e) (simp_all add: connect_ok tick_hub deliver_hub hangup_hub text_hub)
qed

section \<open>What a client receives\<close>

fun data_of :: "frame list \<Rightarrow> tick_msg list" where
  "data_of [] = []"
| "data_of (Data m # fs) = m # data_of fs"
| "data_of (Pong # fs) = data_of fs"

fun published_by :: "ws_event \<Rightarrow> tick_msg list" where
  "published_by (TickWritten clk t) = (if ''ticks:'' @ tk_exchange t \<in> set tick_channels then [tick_message t] else [])"
| "published_by _ = []"

definition published :: "ws_event list \<Rightarrow> tick_msg list" where
  "published evs = concat (map published_by evs)"

lemma data_of_append [simp]: "data_of (xs @ ys) = data_of xs @ data_of ys"
  by (induction xs rule: data_of.induct) simp_all

definition kept :: "nat \<Rightarrow> string option \<Rightarrow> tick_msg list \<Rightarrow> hub \<Rightarrow> bool" where
  "kept i f P h \<longleftrightarrow> i < length (hb_clients h) \<and> wc_filter (hb_clients h ! i) = f \<and>
     (\<exists>rest. data_of (wc_sent (hb_clients h ! i)) @ rest = filter (wanted f) P \<and>
        (wc_listening (hb_clients h ! i) \<longrightarrow>
           rest = filter (wanted f) (map snd (ps_queue (pub_at (hb_cache h) (wc_pub (hb_clients h ! i)))))))"

lemma kept_same:
  assumes "kept i f P h" "length (hb_clients h) \<le> length (hb_clients h')" "hb_clients h' ! i = hb_clients h ! i"
    and "ps_queue (pub_at (hb_cache h') (wc_pub (hb_clients h ! i))) = ps_queue (pub_at (hb_cache h) (wc_pub (hb_clients h ! i)))"
  shows "kept i f P h'"
  using assms by (simp add: kept_def)

lemma kept_closed:
  assumes "kept i f P h" "length (hb_clients h) = length (hb_clients h')" "wc_filter (hb_clients h' ! i) = wc_filter (hb_clients h ! i)"
    and "wc_sent (hb_clients h' ! i) = wc_sent (hb_clients h ! i)" "\<not> wc_listening (hb_clients h' ! i)"
  shows "kept i f P h'"
  using assms by (auto simp: kept_def)

lemma kept_connect: assumes "hub_ok h" "kept i f P h" shows "kept i f P (ws_connect flt h)"
proof (rule kept_same[OF assms(2)])
  have i: "i < length (hb_clients h)" using assms(2) by (simp add: kept_def)
  with client_facts(1)[of "hb_cache h" "hb_clients h" i] assms(1)
  show "ps_queue (pub_at (hb_cache (ws_connect flt h)) (wc_pub (hb_clients h ! i))) = ps_queue (pub_at (hb_cache h) (wc_pub (hb_clients h ! i)))"
    by (simp add: ws_connect_eq hub_ok_def sub_at)
  from i show "hb_clients (ws_connect flt h) ! i = hb_clients h ! i" by (simp add: ws_connect_eq nth_append)
qed (simp add: ws_connect_eq)

lemma kept_tick:
  assumes "hub_ok h" "kept i f P h"
  shows "kept i f (P @ published_by (TickWritten clk t)) (h\<lparr>hb_cache := set_tick ttl clk t (hb_cache h)\<rparr>)"
proof -
  have i: "i < length (hb_clients h)" using assms(2) by (simp add: kept_def)
  have ok: "clients_ok (hb_cache h) (hb_clients h)" using assms(1) by (simp add: hub_ok_def)
  note cf = client_facts[OF ok i]
  from assms(2) obtain rest where rest: "data_of (wc_sent (hb_clients h ! i)) @ rest = filter (wanted f) P" by (auto simp: kept_def)
  show ?thesis
  proof (cases "wc_listening (hb_clients h ! i)")
    case True
    with assms(2) set_tick_pubs(2)[OF cf(2) cf(1), of ttl clk t] cf(3,4) show ?thesis by (auto simp: kept_def)
  next
    case False
    with assms(2) rest show ?thesis
      by (auto simp: kept_def intro!: exI[of _ "rest @ filter (wanted f) (published_by (TickWritten clk t))"])
  qed
qed

lemma kept_deliver:
  assumes "hub_ok h" "kept i f P h"
  shows "kept i f P (deliver j ok h)"
proof (cases rule: deliver_cases[of j ok h])
  case (2 ch m c)
  from assms have i: "i < length (hb_clients h)" and cok: "clients_ok (hb_cache h) (hb_clients h)" by (simp_all add: kept_def hub_ok_def)
  note cf = client_facts[OF cok 2(1)]
  note lis = listen_at[OF 2(3) cf(1)]
  show ?thesis
  proof (cases "i = j")
    case True
    with assms(2) 2(1,2) lis show ?thesis by (auto simp: kept_def 2(4) nth_upd forward_def)
  next
    case False
    then have "wc_pub (hb_clients h ! i) \<noteq> wc_pub (hb_clients h ! j)" "wc_pub (hb_clients h ! i) < length (st_pubsubs (hb_cache h))"
      using cok i 2(1) by (auto simp: clients_ok_def)
    then show ?thesis using lis False i by (intro kept_same[OF assms(2)]) (simp_all add: 2(4) nth_upd)
  qed
qed (use assms in simp)

lemma kept_hangup:
  assumes "hub_ok h" "kept i f P h"
  shows "kept i f P (ws_hangup j h)"
proof (cases "j < length (hb_clients h) \<and> wc_open (hb_clients h ! j)")
  case True
  from assms have i: "i < length (hb_clients h)" and cok: "clients_ok (hb_cache h) (hb_clients h)" by (simp_all add: kept_def hub_ok_def)
  show ?thesis
  proof (cases "i = j")
    case True': True
    with True show ?thesis by (intro kept_closed[OF assms(2)]) (simp_all add: ws_hangup_def Let_def)
  next
    case False
    have p: "wc_pub (hb_clients h ! i) \<noteq> wc_pub (hb_clients h ! j)" "wc_pub (hb_clients h ! i) < length (st_pubsubs (hb_cache h))"
      "wc_pub (hb_clients h ! j) < length (st_pubsubs (hb_cache h))"
      using cok i True False by (auto simp: clients_ok_def)
    with True False close_at[OF p(3) p(2)] show ?thesis
      by (intro kept_same[OF assms(2)]) (simp_all add: ws_hangup_def Let_def)
  qed
qed (use assms in \<open>auto simp: ws_hangup_def\<close>)

lemma kept_text:
  assumes "hub_ok h" "kept i f P h"
  shows "kept i f P (ws_text j d ok h)"
proof (cases "j < length (hb_clients h) \<and> wc_open (hb_clients h ! j) \<and> d = ''ping''")
  case True
  have "kept i f P (h'\<lparr>hb_conns := x\<rparr>) = kept i f P h'" for h' x by (simp add: kept_def)
  moreover have "kept i f P (h\<lparr>hb_clients := (hb_clients h)[j := (hb_clients h ! j)\<lparr>wc_sent := wc_sent (hb_clients h ! j) @ [Pong]\<rparr>]\<rparr>)"
    using assms(2) by (cases "i = j") (auto simp: kept_def nth_upd)
  ultimately show ?thesis using True kept_hangup[OF assms, of j] by (simp add: ws_text_def Let_def)
qed (use assms in \<open>auto simp: ws_text_def\<close>)

lemma kept_step: "hub_ok h \<Longrightarrow> kept i f P h \<Longrightarrow> kept i f (P @ published_by e) (ws_step ttl h e)"
  using kept_tick by (cases e) (simp_all add: kept_connect kept_deliver kept_text kept_hangup)

lemma ws_run_reach: "ws_reach ttl h \<Longrightarrow> ws_reach ttl (ws_run ttl evs h)"
  by (induction evs arbitrary: h) (simp_all add: ws_run_def ws_reach.step)

lemma kept_run:
  assumes "ws_reach ttl h" "kept i f [] h"
  shows "kept i f (published evs) (ws_run ttl evs h)"
proof (induction evs rule: rev_induct)
  case Nil
  then show ?case using assms(2) by (simp add: ws_run_def published_def)
next
  case (snoc e evs)
  from kept_step[OF ws_reach_ok[OF ws_run_reach[OF assms(1), of evs]] snoc, of e ttl]
  show ?case by (simp add: ws_run_def published_def)
qed

text \<open>C17: 
  A client that connects is sent the ticks written to the cache from then on, those of its symbol if it named one, in the order
  they were written, each once and no other: what was sent, followed by what still waits in its queue, is exactly that
  sequence while its listener lives, and a prefix of it after the client went away or a send failed. This holds however
  other clients, writers and listeners interleave.
\<close>

theorem ws_forwards:
  assumes "ws_reach ttl h0" "h = ws_run ttl evs (ws_connect flt h0)" "i = length (hb_clients h0)"
    and "f = map_option (\<lambda>s. upper (strip s)) flt"
  shows "\<exists>rest. data_of (wc_sent (hb_clients h ! i)) @ rest = filter (wanted f) (published evs) \<and>
    (wc_listening (hb_clients h ! i) \<longrightarrow>
       rest = filter (wanted f) (map snd (ps_queue (pub_at (hb_cache h) (wc_pub (hb_clients h ! i))))))"
proof -
  have r: "ws_reach ttl (ws_connect flt h0)" using ws_reach.step[OF assms(1), of "Connect flt"] by simp
  have "kept i f [] (ws_connect flt h0)" by (simp add: kept_def ws_connect_eq assms(3,4) sub_new)
  from kept_run[OF r this, of evs] show ?thesis by (simp add: kept_def assms(2))
qed

text \<open>C18: 
  In every reachable hub the connection table lists, under each channel, exactly the open clients of that channel in order of
  arrival, and exactly the pub/sub objects of open clients are subscribed to the tick channels: a client that went away leaves
  nothing behind.
\<close>

theorem ws_table_exact:
  assumes "ws_reach ttl h"
  shows "channel_members ch (hb_conns h) =
        filter (\<lambda>w. wc_open (hb_clients h ! w) \<and> ws_channel (wc_filter (hb_clients h ! w)) = ch) [0..<length (hb_clients h)] \<and>
    list_all (\<lambda>k. ps_channels (pub_at (hb_cache h) (wc_pub k)) = (if wc_open k then tick_channels else [])) (hb_clients h)"
  using ws_reach_ok[OF assms] by (auto simp: hub_ok_def table_ok_def members_def clients_ok_def list_all_length)

definition demo_hub :: hub where
  "demo_hub = ws_run 5 [TickWritten (\<lambda>_. 0) demo_tick, TickWritten (\<lambda>_. 0) (demo_tick\<lparr>tk_symbol := ''INFY''\<rparr>), Deliver 0 True, Text 0 ''ping'' True]
     (ws_connect (Some ''tcs'') new_hub)"

lemma demo_hub_reach: "ws_reach 5 demo_hub"
  using ws_run_reach[OF ws_reach.step[OF ws_reach.fresh, of 5 "Connect (Some ''tcs'')"]] by (simp add: demo_hub_def)

theorem ws_forwards_witness:
  "\<exists>rest. data_of (wc_sent (hb_clients demo_hub ! 0)) @ rest = [tick_message demo_tick]"
proof -
  have "map_option (\<lambda>s. upper (strip s)) (Some ''tcs'') = Some ''TCS''" by code_simp
  moreover have "tk_symbol demo_tick = ''TCS''" "tk_exchange demo_tick = ''NSE''" by (simp_all add: demo_tick_def)
  ultimately show ?thesis
    using ws_forwards[OF ws_reach.fresh demo_hub_def refl refl]
    by (auto simp: new_hub_def published_def tick_channels_def wanted_def tick_message_def)
qed

theorem ws_table_exact_witness: "channel_members ''symbol:TCS'' (hb_conns (ws_hangup 0 demo_hub)) = []"
proof -
  have "ws_reach 5 (ws_hangup 0 demo_hub)" using ws_reach.step[OF demo_hub_reach, of "Hangup 0"] by simp
  from ws_table_exact[OF this, of "''symbol:TCS''"] show ?thesis
    by (auto simp: demo_hub_def ws_run_def ws_hangup_def Let_def ws_connect_eq new_hub_def deliver_def ws_text_def split: option.splits prod.splits)
qed

end
