(* ===== verification/Bulk.thy ===== *)
theory Bulk
  imports NseSession
begin

text \<open>
  \<^verbatim>\<open>fetch_bulk\<close> of \<^verbatim>\<open>src/providers/nse_scraper.py\<close> and \<^verbatim>\<open>bse_scraper.py\<close>: the symbols go out in batches of five, each batch is
  gathered before the next, and a semaphore bounds the fetches under way. The tasks of a batch begin and end in any order, so
  the run is a step relation over the events of the loop. \<open>fetch\<close> is the provider's \<^verbatim>\<open>fetch_quote\<close> with its session as the
  state; its effect on the session takes place when it ends. A failed symbol is only logged.
\<close>

section \<open>The run\<close>

text \<open>The loop over \<^verbatim>\<open>enumerate(symbols)\<close> with its list of tasks: a batch is gathered at every fifth symbol and at the end.\<close>

fun bulk_groups :: "nat \<Rightarrow> string list \<Rightarrow> string list \<Rightarrow> string list list" where
  "bulk_groups i tasks [] = (if tasks = [] then [] else [tasks])"
| "bulk_groups i tasks (s # ss) =
     (if (i + 1) mod 5 = 0 then (tasks @ [s]) # bulk_groups (i + 1) [] ss else bulk_groups (i + 1) (tasks @ [s]) ss)"

record 's bulk =
  bk_todo :: "string list list"
  bk_ready :: "string list"
  bk_running :: "string list"
  bk_results :: "tick list"
  bk_errors :: "string list"
  bk_state :: 's

definition bulk_start :: "string list \<Rightarrow> 's \<Rightarrow> 's bulk" where
  "bulk_start syms st =
     \<lparr>bk_todo = bulk_groups 0 [] syms, bk_ready = [], bk_running = [], bk_results = [], bk_errors = [], bk_state = st\<rparr>"

datatype bulk_event = Gather | Begin string | Finish string

type_synonym 's fetcher = "string \<Rightarrow> 's \<Rightarrow> (call_exn + tick) \<times> 's"

text \<open>One event; \<open>None\<close> when it cannot happen.\<close>

fun bulk_do :: "'s fetcher \<Rightarrow> nat \<Rightarrow> bulk_event \<Rightarrow> 's bulk \<Rightarrow> 's bulk option" where
  "bulk_do fetch limit Gather b =
     (case bk_todo b of
        [] \<Rightarrow> None
      | g # gs \<Rightarrow> if bk_ready b = [] \<and> bk_running b = [] then Some (b\<lparr>bk_todo := gs, bk_ready := g\<rparr>) else None)"
| "bulk_do fetch limit (Begin s) b =
     (if s \<in> set (bk_ready b) \<and> length (bk_running b) < limit
      then Some (b\<lparr>bk_ready := remove1 s (bk_ready b), bk_running := s # bk_running b\<rparr>) else None)"
| "bulk_do fetch limit (Finish s) b =
     (if s \<in> set (bk_running b)
      then (case fetch s (bk_state b) of
              (Inr t, st) \<Rightarrow> Some (b\<lparr>bk_running := remove1 s (bk_running b), bk_results := bk_results b @ [t], bk_state := st\<rparr>)
            | (Inl e, st) \<Rightarrow> Some (b\<lparr>bk_running := remove1 s (bk_running b), bk_errors := bk_errors b @ [s], bk_state := st\<rparr>))
      else None)"

inductive bulk_run :: "'s fetcher \<Rightarrow> nat \<Rightarrow> 's bulk \<Rightarrow> bulk_event list \<Rightarrow> 's bulk \<Rightarrow> bool" for fetch limit where
  nothing: "bulk_run fetch limit b [] b"
| event: "bulk_do fetch limit e b = Some b1 \<Longrightarrow> bulk_run fetch limit b1 es b2 \<Longrightarrow> bulk_run fetch limit b (e # es) b2"

definition bulk_over :: "'s fetcher \<Rightarrow> nat \<Rightarrow> 's bulk \<Rightarrow> bool" where
  "bulk_over fetch limit b \<longleftrightarrow> (\<forall>e. bulk_do fetch limit e b = None)"

text \<open>The fetches of the two providers; \<open>env\<close> and \<open>now\<close> are what each symbol meets.\<close>

definition nse_bulk_fetch :: "secs \<Rightarrow> (string \<Rightarrow> nse_env) \<Rightarrow> (string \<Rightarrow> datetime) \<Rightarrow> nse_sess fetcher" where
  "nse_bulk_fetch iv env now s st = (let (r, st') = nse_fetch iv (env s) s (now s) st in (fst r, st'))"

definition bse_bulk_fetch :: "(string \<Rightarrow> string option) \<Rightarrow> (string \<Rightarrow> http) \<Rightarrow> (string \<Rightarrow> rat) \<Rightarrow> (string \<Rightarrow> datetime) \<Rightarrow> sc_cache fetcher" where
  "bse_bulk_fetch master reply lat now s st = (let (r, st') = bse_fetch master reply s (lat s) (now s) st in (fst r, st'))"

text \<open>The bounds of the two semaphores on \<^verbatim>\<open>scrape_concurrency\<close>.\<close>

definition nse_bulk_limit :: "nat \<Rightarrow> nat" where
  "nse_bulk_limit concurrency = concurrency"

definition bse_bulk_limit :: "nat \<Rightarrow> nat" where
  "bse_bulk_limit concurrency = min concurrency 6"

section \<open>Batches\<close>

lemma bulk_groups_concat: "concat (bulk_groups i tasks ss) = tasks @ ss"
  by (induction ss arbitrary: i tasks) auto

lemma bulk_groups_bound:
  "length tasks = i mod 5 \<Longrightarrow> g \<in> set (bulk_groups i tasks ss) \<Longrightarrow> g \<noteq> [] \<and> length g \<le> 5"
proof (induction ss arbitrary: i tasks)
  case (Cons s ss)
  have small: "length tasks < 5" using Cons.prems(1) by simp
  show ?case
  proof (cases "(i + 1) mod 5 = 0")
    case True
    then have "g \<in> set (bulk_groups (Suc i) [] ss) \<Longrightarrow> g \<noteq> [] \<and> length g \<le> 5" using Cons.IH[of "[]" "Suc i"] by simp
    with Cons.prems(2) True small show ?thesis by (auto split: if_splits)
  next
    case False
    then have "length (tasks @ [s]) = (i + 1) mod 5" using Cons.prems(1) by (simp add: mod_Suc split: if_splits)
    from Cons.IH[OF this] Cons.prems(2) False show ?thesis by simp
  qed
qed (auto split: if_splits)

lemma bulk_groups_count: "length (bulk_groups 0 [] ss) \<le> length ss"
proof -
  have "length gs \<le> length (concat gs)" if "\<forall>g\<in>set gs. g \<noteq> []" for gs :: "string list list"
    using that
  proof (induction gs)
    case (Cons g gs)
    then have "1 \<le> length g" by (cases g) auto
    with Cons show ?case by simp
  qed simp
  moreover have "\<forall>g\<in>set (bulk_groups 0 [] ss). g \<noteq> []" using bulk_groups_bound[of "[]" 0 _ ss] by auto
  ultimately show ?thesis using bulk_groups_concat[of 0 "[]" ss] by (metis append_Nil)
qed

section \<open>Every run\<close>

definition bulk_pending :: "'s bulk \<Rightarrow> string list" where
  "bulk_pending b = bk_ready b @ bk_running b @ concat (bk_todo b)"

definition bulk_cost :: "'s bulk \<Rightarrow> nat" where
  "bulk_cost b = length (bk_todo b) + 2 * length (concat (bk_todo b)) + 2 * length (bk_ready b) + length (bk_running b)"

text \<open>\<open>m\<close> bounds the size of a batch.\<close>

definition bulk_inv :: "nat \<Rightarrow> nat \<Rightarrow> string list \<Rightarrow> 's bulk \<Rightarrow> bool" where
  "bulk_inv m limit syms b \<longleftrightarrow>
     length (bk_ready b) + length (bk_running b) \<le> m \<and> length (bk_running b) \<le> limit \<and> (\<forall>g\<in>set (bk_todo b). g \<noteq> [] \<and> length g \<le> m) \<and>
     length (bk_results b) + length (bk_errors b) + length (bulk_pending b) = length syms \<and>
     (\<forall>s. s \<in> set (bulk_pending b) \<or> s \<in> set (bk_errors b) \<longrightarrow> s \<in> set syms)"

lemma remove1_length: "s \<in> set xs \<Longrightarrow> Suc (length (remove1 s xs)) = length xs"
  by (induction xs) auto

lemma bulk_do_cost: "bulk_do fetch limit e b = Some b' \<Longrightarrow> Suc (bulk_cost b') = bulk_cost b"
  by (cases e) (auto simp: bulk_cost_def remove1_length[symmetric] split: list.splits if_splits prod.splits sum.splits)

lemma bulk_do_inv:
  assumes "bulk_do fetch limit e b = Some b'" "bulk_inv m limit syms b" shows "bulk_inv m limit syms b'"
proof (cases e)
  case Gather
  with assms(1) obtain g gs where b: "bk_todo b = g # gs" "bk_ready b = []" "bk_running b = []" "b' = b\<lparr>bk_todo := gs, bk_ready := g\<rparr>"
    by (auto split: list.splits if_splits)
  then have "set (bulk_pending b') = set (bulk_pending b)" "length (bulk_pending b') = length (bulk_pending b)"
    by (auto simp: bulk_pending_def)
  with assms(2) b show ?thesis by (simp add: bulk_inv_def)
next
  case (Begin s)
  with assms(1) have s: "s \<in> set (bk_ready b)" "length (bk_running b) < limit"
    and b': "b' = b\<lparr>bk_ready := remove1 s (bk_ready b), bk_running := s # bk_running b\<rparr>" by (auto split: if_splits)
  have "set (bulk_pending b') \<subseteq> set (bulk_pending b)" using s(1) by (auto simp: b' bulk_pending_def dest: notin_set_remove1)
  moreover have "length (bulk_pending b') = length (bulk_pending b)"
    using remove1_length[OF s(1)] by (simp add: b' bulk_pending_def)
  ultimately show ?thesis using assms(2) s(2) remove1_length[OF s(1)] by (auto simp: bulk_inv_def b')
next
  case (Finish s)
  with assms(1) obtain t st where s: "s \<in> set (bk_running b)" and b':
    "b' = b\<lparr>bk_running := remove1 s (bk_running b), bk_results := bk_results b @ [t], bk_state := st\<rparr> \<or>
     b' = b\<lparr>bk_running := remove1 s (bk_running b), bk_errors := bk_errors b @ [s], bk_state := st\<rparr>"
    by (auto split: if_splits prod.splits sum.splits)
  have pending: "set (bulk_pending b') \<subseteq> set (bulk_pending b)" "s \<in> set (bulk_pending b)"
    using b' s by (auto simp: bulk_pending_def dest: notin_set_remove1)
  have size: "length (bk_results b') + length (bk_errors b') + length (bulk_pending b') =
      length (bk_results b) + length (bk_errors b) + length (bulk_pending b)"
    using b' remove1_length[OF s] by (auto simp: bulk_pending_def)
  have rest: "bk_ready b' = bk_ready b" "bk_todo b' = bk_todo b" "Suc (length (bk_running b')) = length (bk_running b)"
    "set (bk_errors b') \<subseteq> insert s (set (bk_errors b))"
    using b' remove1_length[OF s] by auto
  from assms(2) pending size rest show ?thesis unfolding bulk_inv_def by (auto simp: subset_iff)
qed

lemma bulk_run_keeps:
  "bulk_run fetch limit b es b' \<Longrightarrow> bulk_inv m limit syms b \<Longrightarrow> bulk_inv m limit syms b' \<and> length es + bulk_cost b' = bulk_cost b"
proof (induction rule: bulk_run.induct)
  case (event e b b1 es b2)
  with bulk_do_inv[OF event.hyps(1) event.prems] bulk_do_cost[OF event.hyps(1)] show ?case by simp
qed simp

lemma bulk_start_inv: "bulk_inv 5 limit syms (bulk_start syms st)"
  using bulk_groups_bound[of "[]" 0 _ syms] by (auto simp: bulk_inv_def bulk_start_def bulk_pending_def bulk_groups_concat)

lemma bulk_start_cost: "bulk_cost (bulk_start syms st) \<le> 3 * length syms"
  using bulk_groups_count[of syms] by (simp add: bulk_cost_def bulk_start_def bulk_groups_concat)

text \<open>Nothing waits for ever: while a symbol is pending, some event can happen.\<close>

lemma bulk_progress:
  assumes "1 \<le> limit" "bulk_pending b \<noteq> [] \<or> bk_todo b \<noteq> []" shows "\<exists>e b'. bulk_do fetch limit e b = Some b'"
proof (cases "bk_running b")
  case (Cons s ss)
  then show ?thesis by (intro exI[of _ "Finish s"]) (auto split: prod.split sum.split)
next
  case Nil
  show ?thesis
  proof (cases "bk_ready b")
    case (Cons s ss)
    with Nil assms(1) show ?thesis by (intro exI[of _ "Begin s"]) simp
  next
    case ready: Nil
    with Nil assms(2) obtain g gs where "bk_todo b = g # gs" by (cases "bk_todo b") (auto simp: bulk_pending_def)
    with Nil ready show ?thesis by (intro exI[of _ Gather]) simp
  qed
qed

text \<open>A provider whose ticks satisfy \<open>good\<close> for the symbol they were fetched for.\<close>

locale bulk_source =
  fixes fetch :: "'s fetcher" and good :: "string \<Rightarrow> tick \<Rightarrow> bool"
  assumes fetch_good: "fst (fetch s st) = Inr t \<Longrightarrow> good s t"
begin

lemma do_good:
  assumes "bulk_do fetch limit e b = Some b'" "bulk_inv m limit syms b" "\<forall>t\<in>set (bk_results b). \<exists>s\<in>set syms. good s t"
  shows "\<forall>t\<in>set (bk_results b'). \<exists>s\<in>set syms. good s t"
proof (cases e)
  case (Finish s)
  then have s: "s \<in> set syms" using assms(1,2) by (auto simp: bulk_inv_def bulk_pending_def split: if_splits)
  show ?thesis
  proof (cases "fetch s (bk_state b)")
    case (Pair r st)
    with Finish assms(1,3) s fetch_good[of s "bk_state b"] show ?thesis by (cases r) (auto split: if_splits)
  qed
qed (use assms in \<open>auto split: list.splits if_splits\<close>)

lemma run_good:
  "bulk_run fetch limit b es b' \<Longrightarrow> bulk_inv m limit syms b \<Longrightarrow> \<forall>t\<in>set (bk_results b). \<exists>s\<in>set syms. good s t \<Longrightarrow>
    \<forall>t\<in>set (bk_results b'). \<exists>s\<in>set syms. good s t"
proof (induction rule: bulk_run.induct)
  case (event e b b1 es b2)
  with do_good[OF event.hyps(1) event.prems] bulk_do_inv[OF event.hyps(1) event.prems(1)] show ?case by blast
qed

text \<open>The contract of a bulk fetch, from any start whose batches hold the requested symbols.\<close>

lemma run_accounts:
  assumes run: "bulk_run fetch limit b0 es b" and start: "bulk_inv m limit syms b0" "bk_results b0 = []" and room: "1 \<le> limit"
  shows "length (bk_running b) \<le> min limit m" and "length es \<le> bulk_cost b0"
    and "\<forall>t\<in>set (bk_results b). \<exists>s\<in>set syms. good s t" and "set (bk_errors b) \<subseteq> set syms"
    and "bulk_over fetch limit b \<longleftrightarrow> length (bk_results b) + length (bk_errors b) = length syms"
proof -
  have inv: "bulk_inv m limit syms b" "length es + bulk_cost b = bulk_cost b0"
    using bulk_run_keeps[OF run start(1)] by auto
  then show "length (bk_running b) \<le> min limit m" "length es \<le> bulk_cost b0" "set (bk_errors b) \<subseteq> set syms"
    by (auto simp: bulk_inv_def)
  show "\<forall>t\<in>set (bk_results b). \<exists>s\<in>set syms. good s t"
    using run_good[OF run start(1)] start(2) by simp
  have count: "length (bk_results b) + length (bk_errors b) = length syms \<longleftrightarrow> bulk_pending b = []"
    using inv(1) by (auto simp: bulk_inv_def)
  have "bulk_pending b = [] \<Longrightarrow> bk_todo b = []"
    using inv(1) by (cases "bk_todo b") (auto simp: bulk_inv_def bulk_pending_def)
  moreover have "bulk_do fetch limit e b = None" if "bulk_pending b = []" "bk_todo b = []" for e
    using that by (cases e) (simp_all add: bulk_pending_def)
  ultimately show "bulk_over fetch limit b \<longleftrightarrow> length (bk_results b) + length (bk_errors b) = length syms"
    using bulk_progress[OF room, of b fetch] count unfolding bulk_over_def by (metis option.distinct(1))
qed

end

interpretation nse_bulk: bulk_source "nse_bulk_fetch iv env now" "feed_ok ''NSE'' ''nse_scraper''" for iv env now
  by unfold_locales (auto simp: nse_bulk_fetch_def split_beta dest: nse_fetch_ok)

interpretation bse_bulk: bulk_source "bse_bulk_fetch master reply lat now" "\<lambda>s t. feed_ok ''BSE'' ''bse_scraper'' s t \<and> 0 < tk_ltp t"
    for master reply lat now
  by unfold_locales (auto simp: bse_bulk_fetch_def split_beta dest: bse_fetch_ok)

text \<open>C35: Fetching many symbols from the BSE site, in any order in which the tasks begin and end: never more than five requests
  are under way, whatever the configured concurrency (so its own bound of six never binds); every result is a valid
  priced tick of a requested symbol; the run is over exactly when every symbol has ended in a result or an error, and it
  gets there in at most three events per symbol.\<close>

theorem bse_bulk_accounts:
  assumes "bulk_run (bse_bulk_fetch master reply lat now) (bse_bulk_limit c) (bulk_start syms st) es b" "1 \<le> c"
  shows "length (bk_running b) \<le> min c 5 \<and> length es \<le> 3 * length syms \<and> set (bk_errors b) \<subseteq> set syms \<and>
    (\<forall>t\<in>set (bk_results b). \<exists>s\<in>set syms. feed_ok ''BSE'' ''bse_scraper'' s t \<and> 0 < tk_ltp t) \<and>
    (bulk_over (bse_bulk_fetch master reply lat now) (bse_bulk_limit c) b \<longleftrightarrow>
       length (bk_results b) + length (bk_errors b) = length syms)"
proof -
  have "1 \<le> bse_bulk_limit c" using assms(2) by (simp add: bse_bulk_limit_def)
  from bse_bulk.run_accounts[OF assms(1) bulk_start_inv _ this] bulk_start_cost[of syms st] show ?thesis
    by (auto simp: bse_bulk_limit_def bulk_start_def)
qed

theorem bse_bulk_accounts_witness:
  "\<exists>es b. bulk_run (bse_bulk_fetch (\<lambda>_. None) (\<lambda>_. NoReply) (\<lambda>_. 1) (\<lambda>_. demo_instant)) (bse_bulk_limit 10) (bulk_start [''NOPE''] Map.empty) es b \<and>
     bk_errors b = [''NOPE''] \<and> length es \<le> 3"
proof -
  let ?f = "bse_bulk_fetch (\<lambda>_. None) (\<lambda>_. NoReply) (\<lambda>_. 1) (\<lambda>_. demo_instant)"
  have "fst (?f ''NOPE'' Map.empty) = Inl (ProviderError ''no BSE scrip code'')"
    by (simp add: bse_bulk_fetch_def bse_fetch_def bse_resolve_def Let_def split_beta)
  then obtain st where "?f ''NOPE'' Map.empty = (Inl (ProviderError ''no BSE scrip code''), st)" by (metis prod.collapse)
  note fetch = this
  have "\<exists>b. bulk_run ?f (bse_bulk_limit 10) (bulk_start [''NOPE''] Map.empty) [Gather, Begin ''NOPE'', Finish ''NOPE''] b \<and>
      bk_errors b = [''NOPE'']"
    by (intro exI conjI, (rule bulk_run.event, simp add: bulk_start_def bse_bulk_limit_def fetch)+, rule bulk_run.nothing, simp)
  then obtain b where r: "bulk_run ?f (bse_bulk_limit 10) (bulk_start [''NOPE''] Map.empty) [Gather, Begin ''NOPE'', Finish ''NOPE''] b"
    and b: "bk_errors b = [''NOPE'']" by blast
  from bse_bulk_accounts[OF r] b show ?thesis by (intro exI[of _ "[Gather, Begin ''NOPE'', Finish ''NOPE'']"] exI[of _ b]) (simp add: r)
qed

end
