(* ===== verification/Csv.thy ===== *)
theory Csv
  imports Archives
begin

text \<open>
  What the two end-of-day loaders use of Python's \<^verbatim>\<open>csv\<close> module, and their \<^verbatim>\<open>_download\<close> on top of it
  (\<^verbatim>\<open>src/providers/nse_archive.py\<close>, \<^verbatim>\<open>bse_master.py\<close>): the reader of the \<^verbatim>\<open>excel\<close> dialect as the character machine it is,
  \<^verbatim>\<open>io.StringIO\<close>'s lines, and \<^verbatim>\<open>DictReader\<close>. The reply of the site is an argument: \<open>None\<close> for a failed request,
  otherwise its status and text.
\<close>

section \<open>The reader\<close>

abbreviation nl :: char where "nl \<equiv> CHR 0x0A"
abbreviation cr :: char where "cr \<equiv> CHR 0x0D"
abbreviation dq :: char where "dq \<equiv> CHR 0x22"

datatype csv_state = START_RECORD | START_FIELD | IN_FIELD | IN_QUOTED_FIELD | QUOTE_IN_QUOTED_FIELD | EAT_CRNL

record csv_reader =
  rd_state :: csv_state
  rd_field :: string
  rd_fields :: "string list"

definition csv_start :: csv_reader where
  "csv_start = \<lparr>rd_state = START_RECORD, rd_field = [], rd_fields = []\<rparr>"

text \<open>\<^verbatim>\<open>csv.field_size_limit()\<close>.\<close>

definition field_limit :: nat where "field_limit = 131072"

definition add_char :: "csv_state \<Rightarrow> char \<Rightarrow> csv_reader \<Rightarrow> csv_reader option" where
  "add_char st c r = (if length (rd_field r) < field_limit then Some (r\<lparr>rd_state := st, rd_field := rd_field r @ [c]\<rparr>) else None)"

definition save_field :: "csv_state \<Rightarrow> csv_reader \<Rightarrow> csv_reader" where
  "save_field st r = r\<lparr>rd_state := st, rd_field := [], rd_fields := rd_fields r @ [rd_field r]\<rparr>"

definition line_end :: "char option \<Rightarrow> bool" where
  "line_end c \<longleftrightarrow> c = None \<or> c = Some nl \<or> c = Some cr"

definition after_line :: "char option \<Rightarrow> csv_state" where
  "after_line c = (if c = None then START_RECORD else EAT_CRNL)"

definition at_field_start :: "char option \<Rightarrow> csv_reader \<Rightarrow> csv_reader option" where
  "at_field_start c r =
     (if line_end c then Some (save_field (after_line c) r)
      else if c = Some dq then Some (r\<lparr>rd_state := IN_QUOTED_FIELD\<rparr>)
      else if c = Some CHR '','' then Some (save_field START_FIELD r)
      else add_char IN_FIELD (the c) r)"

text \<open>One character of a line, and \<open>None\<close> for its end; the result \<open>None\<close> is \<^verbatim>\<open>csv.Error\<close>.\<close>

definition csv_char :: "char option \<Rightarrow> csv_reader \<Rightarrow> csv_reader option" where
  "csv_char c r =
     (case rd_state r of
        START_RECORD \<Rightarrow>
          if c = None then Some r
          else if line_end c then Some (r\<lparr>rd_state := EAT_CRNL\<rparr>)
          else at_field_start c r
      | START_FIELD \<Rightarrow> at_field_start c r
      | IN_FIELD \<Rightarrow>
          if line_end c then Some (save_field (after_line c) r)
          else if c = Some CHR '','' then Some (save_field START_FIELD r)
          else add_char IN_FIELD (the c) r
      | IN_QUOTED_FIELD \<Rightarrow>
          if c = None then Some r
          else if c = Some dq then Some (r\<lparr>rd_state := QUOTE_IN_QUOTED_FIELD\<rparr>)
          else add_char IN_QUOTED_FIELD (the c) r
      | QUOTE_IN_QUOTED_FIELD \<Rightarrow>
          if c = Some dq then add_char IN_QUOTED_FIELD dq r
          else if c = Some CHR '','' then Some (save_field START_FIELD r)
          else if line_end c then Some (save_field (after_line c) r)
          else add_char IN_FIELD (the c) r
      | EAT_CRNL \<Rightarrow>
          if c = None then Some (r\<lparr>rd_state := START_RECORD\<rparr>)
          else if line_end c then Some r
          else None)"

fun csv_line :: "string \<Rightarrow> csv_reader \<Rightarrow> csv_reader option" where
  "csv_line [] r = csv_char None r"
| "csv_line (c # cs) r = Option.bind (csv_char (Some c) r) (csv_line cs)"

text \<open>The lines of \<^verbatim>\<open>io.StringIO(text)\<close>: they end behind a newline, and nowhere else.\<close>

fun text_lines :: "string \<Rightarrow> string list" where
  "text_lines [] = []"
| "text_lines (c # cs) =
     (if c = nl then [c] # text_lines cs else (case text_lines cs of [] \<Rightarrow> [[c]] | l # ls \<Rightarrow> (c # l) # ls))"

text \<open>All records. At the end of the text a field that is still open is closed.\<close>

fun csv_records :: "csv_reader \<Rightarrow> string list \<Rightarrow> string list list option" where
  "csv_records r [] =
     Some (if rd_field r \<noteq> [] \<or> rd_state r = IN_QUOTED_FIELD then [rd_fields r @ [rd_field r]] else [])"
| "csv_records r (l # ls) =
     (case csv_line l r of
        None \<Rightarrow> None
      | Some r' \<Rightarrow>
          if rd_state r' = START_RECORD then map_option ((#) (rd_fields r')) (csv_records csv_start ls)
          else csv_records r' ls)"

definition csv_rows :: "string \<Rightarrow> string list list option" where
  "csv_rows text = csv_records csv_start (text_lines text)"

section \<open>Rows as dictionaries\<close>

datatype csv_cell = Text string | Missing | Surplus "string list"

text \<open>A row of \<^verbatim>\<open>DictReader\<close>: short rows are padded, and what a long row has too much stands under the key \<^verbatim>\<open>None\<close>.\<close>

definition dict_row :: "string list \<Rightarrow> string list \<Rightarrow> (string option \<times> csv_cell) list" where
  "dict_row names row =
     (let d = foldl (\<lambda>d (k, v). dput (Some k) (Text v) d) [] (zip names row)
      in if length names < length row then dput None (Surplus (drop (length names) row)) d
         else foldl (\<lambda>d k. dput (Some k) Missing d) d (drop (length row) names))"

definition dict_reader :: "string list list \<Rightarrow> (string option \<times> csv_cell) list list" where
  "dict_reader recs = (case recs of [] \<Rightarrow> [] | names # rows \<Rightarrow> map (dict_row names) (filter (\<lambda>r. r \<noteq> []) rows))"

text \<open>\<^verbatim>\<open>(v or "").strip()\<close> fails on a list, and with it the whole download.\<close>

fun cell_text :: "csv_cell \<Rightarrow> string option" where
  "cell_text (Text v) = Some v"
| "cell_text Missing = Some []"
| "cell_text (Surplus xs) = None"

fun row_texts :: "(string option \<times> csv_cell) list \<Rightarrow> row option" where
  "row_texts [] = Some []"
| "row_texts ((k, c) # d) =
     (case (cell_text c, row_texts d) of
        (Some v, Some r) \<Rightarrow> Some ((case k of None \<Rightarrow> [] | Some n \<Rightarrow> n, v) # r)
      | _ \<Rightarrow> None)"

fun all_texts :: "(string option \<times> csv_cell) list list \<Rightarrow> row list option" where
  "all_texts [] = Some []"
| "all_texts (d # ds) = (case (row_texts d, all_texts ds) of (Some r, Some rs) \<Rightarrow> Some (r # rs) | _ \<Rightarrow> None)"

definition file_rows :: "string \<Rightarrow> row list option" where
  "file_rows text = Option.bind (csv_rows text) (\<lambda>recs. all_texts (dict_reader recs))"

section \<open>The downloads\<close>

definition html_page :: "string \<Rightarrow> bool" where
  "html_page text \<longleftrightarrow> contains_text (lower (take 200 text)) ''<html''"

definition nse_file :: "(int \<times> string) option \<Rightarrow> row list option" where
  "nse_file reply =
     (case reply of
        None \<Rightarrow> None
      | Some (status, text) \<Rightarrow> if status \<noteq> 200 \<or> text = [] \<or> html_page text then None else file_rows text)"

definition bse_file :: "(int \<times> string) option \<Rightarrow> row list option" where
  "bse_file reply =
     (case reply of
        None \<Rightarrow> None
      | Some (status, text) \<Rightarrow> if status \<noteq> 200 \<or> html_page text then None else file_rows text)"

definition or_none :: "rows \<Rightarrow> rows option" where
  "or_none out = (if out = [] then None else Some out)"

definition nse_download :: "(int \<times> string) option \<Rightarrow> rows option" where
  "nse_download reply = Option.bind (nse_file reply) (\<lambda>raw. or_none (nse_rows raw))"

definition bse_download :: "(int \<times> string) option \<Rightarrow> rows option" where
  "bse_download reply = Option.bind (bse_file reply) (\<lambda>raw. or_none (bse_rows raw))"

section \<open>A file as an exchange prints it\<close>

text \<open>
  The writer's side: fields are quoted when they have to be (a separator, a quote or a line end in them) and otherwise at
  will (\<open>q\<close>), quotes inside are doubled, and every record ends with \<open>eol\<close>. A record of one empty field has to be quoted, since
  an empty line is no record.
\<close>

definition special :: "string \<Rightarrow> bool" where
  "special f \<longleftrightarrow> list_ex (\<lambda>c. c = CHR '','' \<or> c = dq \<or> c = nl \<or> c = cr) f"

fun double_quotes :: "string \<Rightarrow> string" where
  "double_quotes [] = []"
| "double_quotes (c # cs) = (if c = dq then dq # dq # double_quotes cs else c # double_quotes cs)"

definition csv_print_field :: "(string \<Rightarrow> bool) \<Rightarrow> string \<Rightarrow> string" where
  "csv_print_field q f = (if q f \<or> special f then dq # double_quotes f @ [dq] else f)"

fun csv_print_fields :: "(string \<Rightarrow> bool) \<Rightarrow> string list \<Rightarrow> string" where
  "csv_print_fields q [] = []"
| "csv_print_fields q [f] = csv_print_field q f"
| "csv_print_fields q (f # fs) = csv_print_field q f @ CHR '','' # csv_print_fields q fs"

definition csv_print_record :: "(string \<Rightarrow> bool) \<Rightarrow> string \<Rightarrow> string list \<Rightarrow> string" where
  "csv_print_record q eol row = csv_print_fields (if row = [[]] then \<lambda>f. True else q) row @ eol"

definition csv_print :: "(string \<Rightarrow> bool) \<Rightarrow> string \<Rightarrow> string list list \<Rightarrow> string" where
  "csv_print q eol rows = concat (map (csv_print_record q eol) rows)"

definition eols :: "string list" where
  "eols = [[nl], [cr, nl]]"

section \<open>Reading back\<close>

text \<open>The reader over the rest of the text, from inside a line.\<close>

definition line_done :: "csv_reader \<Rightarrow> string \<Rightarrow> string list list option" where
  "line_done r cs =
     (case csv_char None r of
        None \<Rightarrow> None
      | Some r' \<Rightarrow>
          if rd_state r' = START_RECORD then map_option ((#) (rd_fields r')) (csv_records csv_start (text_lines cs))
          else csv_records r' (text_lines cs))"

fun csv_mid :: "csv_reader \<Rightarrow> string \<Rightarrow> string list list option" where
  "csv_mid r [] = line_done r []"
| "csv_mid r (c # cs) =
     (case csv_char (Some c) r of None \<Rightarrow> None | Some r' \<Rightarrow> if c = nl then line_done r' cs else csv_mid r' cs)"

lemma text_lines_Nil [simp]: "text_lines t = [] \<longleftrightarrow> t = []"
  by (cases t) (auto split: list.splits)

lemma csv_records_mid: "t \<noteq> [] \<Longrightarrow> csv_records r (text_lines t) = csv_mid r t"
proof (induction t arbitrary: r)
  case Nil
  then show ?case by simp
next
  case (Cons c cs)
  show ?case
  proof (cases "c = nl \<or> cs = []")
    case True
    then show ?thesis by (auto simp: line_done_def split: option.split)
  next
    case False
    then obtain l ls where ls: "text_lines cs = l # ls" by (meson neq_Nil_conv text_lines_Nil)
    show ?thesis
    proof (cases "csv_char (Some c) r")
      case None
      with False ls show ?thesis by simp
    next
      case (Some r1)
      with False ls Cons.IH[of r1] show ?thesis by simp
    qed
  qed
qed


abbreviation rd :: "csv_state \<Rightarrow> string \<Rightarrow> string list \<Rightarrow> csv_reader" where
  "rd st f fs \<equiv> \<lparr>rd_state = st, rd_field = f, rd_fields = fs\<rparr>"

definition field_fits :: "string \<Rightarrow> bool" where
  "field_fits f \<longleftrightarrow> length f \<le> field_limit"

definition row_prints :: "string list \<Rightarrow> bool" where
  "row_prints row \<longleftrightarrow> row \<noteq> [] \<and> list_all field_fits row"

lemmas machine = csv_char_def at_field_start_def line_end_def after_line_def add_char_def save_field_def

lemma special_Cons: "special (c # w) \<longleftrightarrow> c = CHR '','' \<or> c = dq \<or> c = nl \<or> c = cr \<or> special w"
  by (simp add: special_def)

lemma special_Nil [simp]: "\<not> special []"
  by (simp add: special_def)

lemma bare_run:
  "\<not> special w \<Longrightarrow> length f + length w \<le> field_limit \<Longrightarrow> csv_mid (rd IN_FIELD f fs) (w @ t) = csv_mid (rd IN_FIELD (f @ w) fs) t"
  by (induction w arbitrary: f) (simp_all add: special_Cons machine)

lemma quoted_run:
  "length f + length w \<le> field_limit \<Longrightarrow> t \<noteq> [] \<Longrightarrow>
   csv_mid (rd IN_QUOTED_FIELD f fs) (double_quotes w @ t) = csv_mid (rd IN_QUOTED_FIELD (f @ w) fs) t"
proof (induction w arbitrary: f)
  case (Cons c w)
  from Cons.IH[of "f @ [c]"] Cons.prems show ?case
    by (auto simp: machine line_done_def csv_records_mid)
qed simp

lemma bare_field:
  assumes "st = START_RECORD \<or> st = START_FIELD" "\<not> special (c # w)" "field_fits (c # w)"
  shows "csv_mid (rd st [] fs) ((c # w) @ t) = csv_mid (rd IN_FIELD (c # w) fs) t"
  using assms bare_run[of w "[c]" fs t] by (auto simp: special_Cons machine field_fits_def)

lemma quoted_field:
  assumes "st = START_RECORD \<or> st = START_FIELD" "field_fits f"
  shows "csv_mid (rd st [] fs) (dq # double_quotes f @ dq # t) = csv_mid (rd QUOTE_IN_QUOTED_FIELD f fs) t"
  using assms quoted_run[of "[]" f "dq # t" fs] by (auto simp: machine field_fits_def)

text \<open>A printed field leaves the machine behind its last character.\<close>

lemma field_read:
  assumes "st = START_RECORD \<or> st = START_FIELD" "field_fits f" "csv_print_field q f \<noteq> []"
  obtains st' where "st' = IN_FIELD \<or> st' = QUOTE_IN_QUOTED_FIELD"
    and "\<And>t. csv_mid (rd st [] fs) (csv_print_field q f @ t) = csv_mid (rd st' f fs) t"
proof (cases "q f \<or> special f")
  case True
  with quoted_field[OF assms(1,2)] that[of QUOTE_IN_QUOTED_FIELD] show ?thesis by (simp add: csv_print_field_def)
next
  case False
  with assms(3) obtain c w where "f = c # w" by (cases f) (auto simp: csv_print_field_def)
  with False bare_field[OF assms(1), of c w] assms(2) that[of IN_FIELD] show ?thesis by (simp add: csv_print_field_def)
qed

lemma field_then_comma:
  assumes "st = START_RECORD \<or> st = START_FIELD" "field_fits f"
  shows "csv_mid (rd st [] fs) (csv_print_field q f @ CHR '','' # t) = csv_mid (rd START_FIELD [] (fs @ [f])) t"
proof (cases "csv_print_field q f = []")
  case True
  moreover from True have "f = []" by (auto simp: csv_print_field_def split: if_splits)
  ultimately show ?thesis using assms(1) by (auto simp: machine)
next
  case False
  from field_read[OF assms False, of fs] obtain st' where "st' = IN_FIELD \<or> st' = QUOTE_IN_QUOTED_FIELD"
    and "csv_mid (rd st [] fs) (csv_print_field q f @ CHR '','' # t) = csv_mid (rd st' f fs) (CHR '','' # t)" by metis
  then show ?thesis by (auto simp: machine)
qed

lemma end_of_record:
  assumes "st = START_FIELD \<or> st = IN_FIELD \<or> st = QUOTE_IN_QUOTED_FIELD" "eol \<in> set eols"
  shows "csv_mid (rd st f fs) (eol @ t) = map_option ((#) (fs @ [f])) (csv_records csv_start (text_lines t))"
  using assms by (auto simp: eols_def machine line_done_def)

lemma field_then_eol:
  assumes "st = START_RECORD \<or> st = START_FIELD" "field_fits f" "eol \<in> set eols" "st = START_FIELD \<or> csv_print_field q f \<noteq> []"
  shows "csv_mid (rd st [] fs) (csv_print_field q f @ eol @ t) = map_option ((#) (fs @ [f])) (csv_records csv_start (text_lines t))"
proof (cases "csv_print_field q f = []")
  case True
  moreover from True have "f = []" by (auto simp: csv_print_field_def split: if_splits)
  ultimately show ?thesis using assms(3,4) by (simp add: end_of_record)
next
  case False
  from field_read[OF assms(1,2) False, of fs] obtain st' where "st' = IN_FIELD \<or> st' = QUOTE_IN_QUOTED_FIELD"
    and "csv_mid (rd st [] fs) (csv_print_field q f @ eol @ t) = csv_mid (rd st' f fs) (eol @ t)" by metis
  with end_of_record[of st' eol f fs t] assms(3) show ?thesis by auto
qed

lemma fields_then_eol:
  assumes "eol \<in> set eols"
  shows "row_prints row \<Longrightarrow> st = START_FIELD \<or> st = START_RECORD \<and> (row = [[]] \<longrightarrow> q []) \<Longrightarrow>
    csv_mid (rd st [] fs) (csv_print_fields q row @ eol @ t) = map_option ((#) (fs @ row)) (csv_records csv_start (text_lines t))"
proof (induction q row arbitrary: st fs rule: csv_print_fields.induct)
  case (2 q f)
  have "st = START_FIELD \<or> csv_print_field q f \<noteq> []" using 2(2) by (auto simp: csv_print_field_def)
  with 2 field_then_eol[of st f eol q fs t] assms show ?case by (auto simp: row_prints_def)
next
  case (3 q f f' fs')
  from 3(2) have "field_fits f" "row_prints (f' # fs')" by (simp_all add: row_prints_def)
  with 3(1)[of START_FIELD "fs @ [f]"] 3(3) field_then_comma[of st f fs q] show ?case by auto
qed (simp add: row_prints_def)

lemma csv_print_parses:
  assumes "eol \<in> set eols" "list_all row_prints rows"
  shows "csv_rows (csv_print q eol rows) = Some rows"
  using assms(2)
proof (induction rows)
  case Nil
  then show ?case by (simp add: csv_rows_def csv_print_def csv_start_def)
next
  case (Cons row rows)
  define q' where "q' = (if row = [[]] then \<lambda>f. True else q)"
  define t where "t = csv_print q eol rows"
  have tx: "csv_print q eol (row # rows) = csv_print_fields q' row @ eol @ t"
    by (simp add: csv_print_def csv_print_record_def q'_def t_def)
  have "eol \<noteq> []" using assms(1) by (auto simp: eols_def)
  then have "csv_rows (csv_print_fields q' row @ eol @ t) = csv_mid (rd START_RECORD [] []) (csv_print_fields q' row @ eol @ t)"
    unfolding csv_rows_def csv_start_def by (intro csv_records_mid) simp
  also have "\<dots> = map_option ((#) row) (csv_records csv_start (text_lines t))"
    using fields_then_eol[OF assms(1), of row START_RECORD q' "[]" t] Cons.prems by (auto simp: q'_def)
  also have "\<dots> = Some (row # rows)" using Cons by (simp add: t_def csv_rows_def)
  finally show ?case by (simp add: tx)
qed


section \<open>Printed files as rows\<close>

lemma dict_of_zip:
  "distinct names \<Longrightarrow> \<forall>n\<in>set names. Some n \<notin> fst ` set d \<Longrightarrow>
   foldl (\<lambda>d (k, v). dput (Some k) (Text v) d) d (zip names row) = d @ map (\<lambda>(k, v). (Some k, Text v)) (zip names row)"
proof (induction names arbitrary: d row)
  case (Cons n names)
  show ?case
  proof (cases row)
    case (Cons v row')
    with Cons.prems Cons.IH[of "d @ [(Some n, Text v)]" row'] show ?thesis by (auto simp: dput_fresh)
  qed simp
qed simp

lemma dict_row_even:
  "distinct names \<Longrightarrow> length row = length names \<Longrightarrow> dict_row names row = map (\<lambda>(k, v). (Some k, Text v)) (zip names row)"
  by (simp add: dict_row_def dict_of_zip)

lemma row_texts_even: "row_texts (map (\<lambda>(k, v). (Some k, Text v)) kvs) = Some kvs"
  by (induction kvs) auto

lemma all_texts_even:
  "distinct names \<Longrightarrow> list_all (\<lambda>r. length r = length names) rows \<Longrightarrow>
   all_texts (map (dict_row names) rows) = Some (map (zip names) rows)"
  by (induction rows) (simp_all add: dict_row_even row_texts_even)

text \<open>A header and rows of its length, that the reader takes.\<close>

definition printable :: "string list \<Rightarrow> string list list \<Rightarrow> bool" where
  "printable names rows \<longleftrightarrow>
     distinct names \<and> row_prints names \<and> list_all (\<lambda>r. row_prints r \<and> length r = length names) rows"

lemma printed_rows:
  assumes "eol \<in> set eols" "printable names rows"
  shows "file_rows (csv_print q eol (names # rows)) = Some (map (zip names) rows)"
proof -
  from assms(2) have "csv_rows (csv_print q eol (names # rows)) = Some (names # rows)"
    by (intro csv_print_parses assms(1)) (auto simp: printable_def list_all_iff)
  moreover have "filter (\<lambda>r. r \<noteq> []) rows = rows" using assms(2) by (auto simp: printable_def list_all_iff row_prints_def)
  moreover have "all_texts (map (dict_row names) rows) = Some (map (zip names) rows)"
    using assms(2) by (intro all_texts_even) (auto simp: printable_def list_all_iff)
  ultimately show ?thesis by (simp add: file_rows_def dict_reader_def)
qed

text \<open>The NSE file counts the last equity row of a symbol, the BSE file the first.\<close>

definition nse_equity :: "row \<Rightarrow> bool" where
  "nse_equity r \<longleftrightarrow> row_get r ''SYMBOL'' \<noteq> [] \<and> row_get r ''SERIES'' \<in> set nse_series"

definition bse_equity :: "row \<Rightarrow> bool" where
  "bse_equity r \<longleftrightarrow> row_get r ''TckrSymb'' \<noteq> [] \<and> strip (row_get r ''FinInstrmTp'') = ''STK'' \<and>
     (strip (row_get r ''SctySrs'') \<in> set keep_series \<or> strip (row_get r ''SctySrs'') = [])"

lemma keep_last:
  assumes "\<And>out x. step out x = (if P (f x) then dput (key (f x)) (f x) out else out)"
  shows "map_of (foldl step out raw) s = (case find (\<lambda>r. P r \<and> key r = s) (rev (map f raw)) of None \<Rightarrow> map_of out s | Some r \<Rightarrow> Some r)"
  by (induction raw rule: rev_induct) (auto simp: assms)

lemma keep_first:
  assumes "\<And>out x. step out x = (if P (f x) \<and> key (f x) \<notin> fst ` set out then dput (key (f x)) (f x) out else out)"
  shows "map_of (foldl step out raw) s = (case map_of out s of None \<Rightarrow> find (\<lambda>r. P r \<and> key r = s) (map f raw) | Some r \<Rightarrow> Some r)"
proof (induction raw arbitrary: out)
  case Nil
  then show ?case by (simp split: option.split)
next
  case (Cons x raw)
  have mem: "key (f x) \<notin> fst ` set out \<longleftrightarrow> map_of out (key (f x)) = None" by (simp add: map_of_eq_None_iff)
  show ?case using Cons.IH[of "step out x"] unfolding assms[of out x] mem foldl.simps by (auto split: option.split)
qed

lemma nse_rows_lookup:
  "map_of (nse_rows raw) s = find (\<lambda>r. nse_equity r \<and> upper (row_get r ''SYMBOL'') = s) (rev (map clean_row raw))"
  unfolding nse_rows_def
  by (subst keep_last[where P = nse_equity and f = clean_row]) (auto simp: nse_equity_def Let_def split: option.split)

lemma bse_rows_lookup:
  "map_of (bse_rows raw) s = find (\<lambda>r. bse_equity r \<and> upper (row_get r ''TckrSymb'') = s) (map clean_row raw)"
  unfolding bse_rows_def
  by (subst keep_first[where P = bse_equity and f = clean_row and key = "\<lambda>r. upper (row_get r ''TckrSymb'')"])
    (auto simp: bse_equity_def Let_def)

section \<open>Loading a posted file\<close>

text \<open>The file is out since \<open>j\<close> days; every later day has no file, a page, or a broken one.\<close>

definition posted :: "((int \<times> string) option \<Rightarrow> rows option) \<Rightarrow> (nat \<Rightarrow> (int \<times> string) option) \<Rightarrow> nat \<Rightarrow> string \<Rightarrow> bool" where
  "posted download reply j content \<longleftrightarrow>
     j < 8 \<and> list_all (\<lambda>i. download (reply i) = None) [0..<j] \<and> reply j = Some (200, content) \<and> \<not> html_page content"

lemma or_none_None [simp]: "or_none out = None \<longleftrightarrow> out = []"
  by (simp add: or_none_def)

lemma week_split: "j < 8 \<Longrightarrow> [0..<8] = [0..<j] @ j # [Suc j..<8]"
  using upt_add_eq_append[of 0 j "8 - j"] by (simp add: upt_conv_Cons)

lemma found_rows:
  assumes "\<And>s. map_of out s = find (\<lambda>r. P r \<and> key r = s) rs" "r \<in> set rs" "P r"
  shows "out \<noteq> []"
proof -
  have "find (\<lambda>r'. P r' \<and> key r' = key r) rs \<noteq> None" using assms(2,3) by (auto simp: find_None_iff)
  then show ?thesis unfolding assms(1)[symmetric] by auto
qed

text \<open>What an archive relies on: the reader gives the rows of a file that came, the loader walks to the first day that has rows,
  and \<open>rows_of\<close> files for each symbol one of its equity rows, the first in the order of \<open>pick\<close>.\<close>

locale eod_archive =
  fixes getfile :: "(int \<times> string) option \<Rightarrow> row list option"
    and load :: "secs \<Rightarrow> (nat \<Rightarrow> string) \<Rightarrow> (nat \<Rightarrow> row list option) \<Rightarrow> secs \<Rightarrow> archive \<Rightarrow> archive \<times> nat"
    and rows_of :: "row list \<Rightarrow> rows" and equity :: "row \<Rightarrow> bool" and symbol_of :: "row \<Rightarrow> string" and pick :: "row list \<Rightarrow> row list"
  assumes read_file: "text0 \<noteq> [] \<Longrightarrow> \<not> html_page text0 \<Longrightarrow> getfile (Some (200, text0)) = file_rows text0"
    and load_first: "ar_rows a = [] \<Longrightarrow> 120 \<le> now - ar_attempt a \<Longrightarrow> j < 8 \<Longrightarrow>
      list_all (\<lambda>i. case files i of None \<Rightarrow> True | Some raw' \<Rightarrow> rows_of raw' = []) [0..<j] \<Longrightarrow> files j = Some raw \<Longrightarrow> rows_of raw \<noteq> [] \<Longrightarrow>
      fst (load now date files tm a) = a\<lparr>ar_attempt := now, ar_rows := rows_of raw, ar_date := Some (date j), ar_loaded := tm\<rparr>"
    and filed: "map_of (rows_of raw) s = find (\<lambda>r. equity r \<and> upper (symbol_of r) = s) (pick (map clean_row raw))"
    and pick_all: "set (pick xs) = set xs"
begin

definition download :: "(int \<times> string) option \<Rightarrow> rows option" where
  "download reply = Option.bind (getfile reply) (\<lambda>raw. or_none (rows_of raw))"

text \<open>
  When the newest file of the last eight days has an equity row and is the first to load, an archive that is empty and may try
  again holds that day, and finds for every symbol one equity row that the file has for it.
\<close>

lemma posted_rows:
  assumes "eol \<in> set eols" "printable names rows" "\<exists>row\<in>set rows. equity (clean_row (zip names row))"
    and "posted download reply j (csv_print q eol (names # rows))"
    and "ar_rows a = []" "120 \<le> now - ar_attempt a"
    and "a' = fst (load now date (getfile \<circ> reply) tm a)"
  shows "a' = a\<lparr>ar_attempt := now, ar_rows := rows_of (map (zip names) rows), ar_date := Some (date j), ar_loaded := tm\<rparr> \<and>
    rows_of (map (zip names) rows) \<noteq> []"
proof -
  define raw where "raw = map (zip names) rows"
  have "csv_print q eol (names # rows) \<noteq> []" using assms(1) by (auto simp: csv_print_def csv_print_record_def eols_def)
  then have "(getfile \<circ> reply) j = Some raw"
    using assms(4) printed_rows[OF assms(1,2), of q] read_file by (simp add: posted_def raw_def)
  moreover obtain r where "r \<in> set (pick (map clean_row raw))" "equity r" using assms(3) by (auto simp: raw_def pick_all)
  then have ne: "rows_of raw \<noteq> []" by (rule found_rows[OF filed])
  moreover have "j < 8" "list_all (\<lambda>i. case (getfile \<circ> reply) i of None \<Rightarrow> True | Some raw' \<Rightarrow> rows_of raw' = []) [0..<j]"
    using assms(4) by (auto simp: posted_def download_def list_all_iff split: option.splits bind_splits)
  ultimately show ?thesis using load_first assms(5-7) by (simp add: raw_def)
qed

lemma posted_loaded:
  assumes "eol \<in> set eols" "printable names rows" "\<exists>row\<in>set rows. equity (clean_row (zip names row))"
    and "posted download reply j (csv_print q eol (names # rows))"
    and "ar_rows a = []" "120 \<le> now - ar_attempt a"
    and "a' = fst (load now date (getfile \<circ> reply) tm a)"
  shows "ar_date a' = Some (date j) \<and> ar_loaded a' = tm \<and> ar_rows a' \<noteq> [] \<and>
    row_for a' sm = find (\<lambda>r. equity r \<and> upper (symbol_of r) = upper sm) (pick (map (\<lambda>row. clean_row (zip names row)) rows))"
  using posted_rows[OF assms] by (simp add: row_for_def filed comp_def)

end

lemma nse_walk_found:
  "ar_rows a = [] \<Longrightarrow> list_all (\<lambda>i. case files i of None \<Rightarrow> True | Some raw' \<Rightarrow> nse_rows raw' = []) ks \<Longrightarrow> files j = Some raw \<Longrightarrow> nse_rows raw \<noteq> [] \<Longrightarrow>
   fst (nse_walk date files tm (ks @ j # ns) a) = a\<lparr>ar_rows := nse_rows raw, ar_date := Some (date j), ar_loaded := tm\<rparr>"
  by (induction ks) (auto simp: Let_def split: option.splits prod.splits)

lemma bse_walk_found:
  "list_all (\<lambda>i. case files i of None \<Rightarrow> True | Some raw' \<Rightarrow> bse_rows raw' = []) ks \<Longrightarrow> files j = Some raw \<Longrightarrow> bse_rows raw \<noteq> [] \<Longrightarrow>
   fst (bse_walk date files tm (ks @ j # ns) a) = a\<lparr>ar_rows := bse_rows raw, ar_date := Some (date j), ar_loaded := tm\<rparr>"
  by (induction ks) (auto simp: Let_def split: option.splits prod.splits)

interpretation nse_eod: eod_archive nse_file nse_ensure_loaded nse_rows nse_equity "\<lambda>r. row_get r ''SYMBOL''" rev
  by unfold_locales
    (simp_all add: nse_file_def nse_rows_lookup nse_ensure_loaded_def week_split nse_walk_found del: upt_Suc)

interpretation bse_eod: eod_archive bse_file bse_ensure_loaded bse_rows bse_equity "\<lambda>r. row_get r ''TckrSymb''" "\<lambda>rs. rs"
  by unfold_locales
    (simp_all add: bse_file_def bse_rows_lookup bse_ensure_loaded_def week_split bse_walk_found del: upt_Suc)

lemma nse_download_is: "nse_eod.download = nse_download"
  by (simp add: fun_eq_iff nse_eod.download_def nse_download_def)

lemma bse_download_is: "bse_eod.download = bse_download"
  by (simp add: fun_eq_iff bse_eod.download_def bse_download_def)

lemma bse_file_read_back:
  assumes "eol \<in> set eols" "printable names rows" "\<exists>row\<in>set rows. bse_equity (clean_row (zip names row))"
    and "posted bse_download reply j (csv_print q eol (names # rows))"
    and "ar_rows a = []" "120 \<le> now - ar_attempt a"
  shows "row_for (fst (bse_ensure_loaded now date (bse_file \<circ> reply) tm a)) sm =
    find (\<lambda>r. bse_equity r \<and> upper (row_get r ''TckrSymb'') = upper sm) (map (\<lambda>row. clean_row (zip names row)) rows)"
  using bse_eod.posted_loaded[unfolded bse_download_is, OF assms refl] by blast

text \<open>The sample file: a header with the exchange's blanks, a page for today, nothing for yesterday.\<close>

definition demo_names :: "string list" where
  "demo_names = [''SYMBOL'', '' SERIES'', '' CLOSE_PRICE'']"

definition demo_table :: "string list list" where
  "demo_table = [[''TCS'', '' BE'', '' 1''], [''TCS'', '' EQ'', ''3,000.5''], [''TCS'', '' GB'', ''9'']]"

definition demo_reply :: "nat \<Rightarrow> (int \<times> string) option" where
  "demo_reply n =
     (if n = 0 then Some (200, ''<!doctype><HTML>'') else if n = 2 then Some (200, csv_print (\<lambda>f. False) [cr, nl] (demo_names # demo_table)) else None)"

lemma demo_content: "csv_print (\<lambda>f. False) [cr, nl] (demo_names # demo_table) =
    ''SYMBOL, SERIES, CLOSE_PRICE'' @ [cr, nl] @ ''TCS, BE, 1'' @ [cr, nl] @ ''TCS, EQ,'' @ [dq] @ ''3,000.5'' @ [dq, cr, nl] @ ''TCS, GB,9'' @ [cr, nl]"
  by (simp add: demo_names_def demo_table_def csv_print_def csv_print_record_def csv_print_field_def special_def)

lemma demo_printable: "printable demo_names demo_table"
  by (simp add: printable_def demo_names_def demo_table_def row_prints_def field_fits_def field_limit_def)

lemma demo_clean: "map (\<lambda>row. clean_row (zip demo_names row)) demo_table =
    [[(''SYMBOL'', ''TCS''), (''SERIES'', ''BE''), (''CLOSE_PRICE'', ''1'')],
     [(''SYMBOL'', ''TCS''), (''SERIES'', ''EQ''), (''CLOSE_PRICE'', ''3,000.5'')],
     [(''SYMBOL'', ''TCS''), (''SERIES'', ''GB''), (''CLOSE_PRICE'', ''9'')]]"
  unfolding demo_names_def demo_table_def by code_simp

lemma demo_html: "html_page ''<!doctype><HTML>''" "\<not> html_page (csv_print (\<lambda>f. False) [cr, nl] (demo_names # demo_table))"
  unfolding demo_content html_page_def by code_simp+

lemma demo_posted: "posted nse_download demo_reply 2 (csv_print (\<lambda>f. False) [cr, nl] (demo_names # demo_table))"
  using demo_html by (simp add: posted_def demo_reply_def nse_download_def nse_file_def upt_rec)

section \<open>A row that is too long\<close>

lemma surplus_lost: "(None, Surplus xs) \<in> set d \<Longrightarrow> row_texts d = None"
  by (induction d) (auto split: option.split)

lemma all_texts_lost: "d \<in> set ds \<Longrightarrow> row_texts d = None \<Longrightarrow> all_texts ds = None"
  by (induction ds) (auto split: option.split)

lemma dput_mem: "(k, v) \<in> set (dput k v d)"
  by (induction k v d rule: dput.induct) auto

text \<open>One row with a field more than the header loses the whole file, of either exchange: the surplus field makes
  \<^verbatim>\<open>DictReader\<close> put a list into the row, the strip of it raises, and the day counts as not published.
\<close>

theorem overlong_row_loses_file:
  assumes "eol \<in> set eols" "list_all row_prints (names # rows)" "row \<in> set rows" "length names < length row"
  shows "nse_download (Some (200, csv_print q eol (names # rows))) = None \<and>
    bse_download (Some (200, csv_print q eol (names # rows))) = None"
proof -
  have "(None, Surplus (drop (length names) row)) \<in> set (dict_row names row)"
    using assms(4) by (simp add: dict_row_def Let_def dput_mem)
  moreover have "dict_row names row \<in> set (dict_reader (names # rows))"
    using assms(3,4) by (auto simp: dict_reader_def)
  ultimately have "all_texts (dict_reader (names # rows)) = None"
    using all_texts_lost surplus_lost by blast
  then have "file_rows (csv_print q eol (names # rows)) = None"
    using csv_print_parses[OF assms(1,2)] by (simp add: file_rows_def)
  then show ?thesis by (simp add: nse_download_def bse_download_def nse_file_def bse_file_def)
qed

theorem overlong_row_loses_file_witness:
  "nse_download (Some (200, csv_print (\<lambda>f. False) [nl] (demo_names # [''TCS'', ''EQ'', ''1'', []] # demo_table))) = None"
  using overlong_row_loses_file[of "[nl]" demo_names "[''TCS'', ''EQ'', ''1'', []] # demo_table" "[''TCS'', ''EQ'', ''1'', []]" "\<lambda>f. False"]
    demo_printable
  by (simp add: eols_def printable_def row_prints_def field_fits_def field_limit_def demo_names_def demo_table_def)

section \<open>The NSE archive provider\<close>

text \<open>
  Connecting, fetching and the health check around the loader. Without a session every download fails inside its own
  \<^verbatim>\<open>try\<close>. A pair of clock readings belongs to each load: at its start and when the file has come.
\<close>

record archive_feed =
  af_data :: archive
  af_session :: bool
  af_connected :: bool

definition new_archive_feed :: archive_feed where
  "new_archive_feed = \<lparr>af_data = new_archive, af_session = False, af_connected = False\<rparr>"

type_synonym archive_site = "(nat \<Rightarrow> string) \<times> (nat \<Rightarrow> (int \<times> string) option)"

definition af_load :: "secs \<times> secs \<Rightarrow> archive_site \<Rightarrow> archive_feed \<Rightarrow> archive_feed" where
  "af_load t site f =
     f\<lparr>af_data := fst (nse_ensure_loaded (fst t) (fst site) (\<lambda>n. if af_session f then nse_file (snd site n) else None) (snd t) (af_data f))\<rparr>"

definition af_connect :: "secs \<times> secs \<Rightarrow> archive_site \<Rightarrow> archive_feed \<Rightarrow> archive_feed" where
  "af_connect t site f =
     (if af_connected f then f else (af_load t site (f\<lparr>af_session := True\<rparr>))\<lparr>af_connected := True\<rparr>)"

definition af_disconnect :: "archive_feed \<Rightarrow> archive_feed" where
  "af_disconnect f = f\<lparr>af_session := False, af_connected := False\<rparr>"

definition af_health :: "secs \<times> secs \<Rightarrow> archive_site \<Rightarrow> archive_feed \<Rightarrow> bool \<times> archive_feed" where
  "af_health t site f = (let f' = af_load t site f in (ar_rows (af_data f') \<noteq> [], f'))"

definition af_fetch :: "secs \<times> secs \<Rightarrow> secs \<times> secs \<Rightarrow> archive_site \<Rightarrow> string \<Rightarrow> rat \<Rightarrow> datetime \<Rightarrow> archive_feed \<Rightarrow> fetched \<times> archive_feed" where
  "af_fetch t t' site sm lat dt f =
     (let f' = af_load t' site (if af_connected f then f else af_connect t site f)
      in (nse_archive_fetch (af_data f') sm lat dt, f'))"

lemma loaded_is_kept: "ar_rows a \<noteq> [] \<Longrightarrow> now - ar_loaded a < 3600 \<Longrightarrow> nse_ensure_loaded now date getfile tm a = (a, 0)"
  by (simp add: nse_ensure_loaded_def)

text \<open>C23: The end-of-day file is read back as the exchange printed it, from its characters to the quote: whatever the fields contain and
  however they are quoted, when the newest usable file of the last eight days has an equity row, a new provider finds for every
  symbol the last equity row of the file, every field in its column, and its first quote is made of that row; a symbol without
  one is refused.
\<close>

theorem bhavcopy_read_back:
  assumes "eol \<in> set eols" "printable names rows" "\<exists>row\<in>set rows. nse_equity (clean_row (zip names row))"
    and "posted nse_download reply j (csv_print q eol (names # rows))"
    and "120 \<le> fst t" "fst t' - snd t < 3600"
    and "found = find (\<lambda>r. nse_equity r \<and> upper (row_get r ''SYMBOL'') = upper sm) (rev (map (\<lambda>row. clean_row (zip names row)) rows))"
    and "af_fetch t t' (date, reply) sm lat dt new_archive_feed = (answer, f)"
  shows "row_for (af_data f) sm = found \<and>
    fst answer = (case found of None \<Rightarrow> Inl (ProviderError ''not in NSE bhavcopy'') | Some r \<Rightarrow> nse_archive_parse r sm dt)"
proof -
  define a where "a = fst (nse_ensure_loaded (fst t) date (nse_file \<circ> reply) (snd t) new_archive)"
  have a: "ar_loaded a = snd t" "ar_rows a \<noteq> []" "row_for a s = find (\<lambda>r. nse_equity r \<and> upper (row_get r ''SYMBOL'') = upper s)
      (rev (map (\<lambda>row. clean_row (zip names row)) rows))" for s
    using nse_eod.posted_loaded[unfolded nse_download_is, OF assms(1-4), of new_archive "fst t" a date "snd t" s] assms(5)
    by (simp_all add: a_def new_archive_def)
  then have "nse_ensure_loaded (fst t') date (\<lambda>n. nse_file (reply n)) (snd t') a = (a, 0)"
    using a(1,2) assms(6) by (intro loaded_is_kept) simp_all
  then have f: "af_data f = a" "answer = nse_archive_fetch a sm lat dt"
    using assms(8) by (auto simp: af_fetch_def af_connect_def af_load_def new_archive_feed_def Let_def a_def comp_def)
  have "r \<noteq> []" if "found = Some r" for r
    using that assms(7) by (auto simp: find_Some_iff nse_equity_def row_get_def)
  moreover have "row_for a sm = found" using a(3) assms(7) by simp
  ultimately show ?thesis
    unfolding f by (cases found) (auto simp: nse_archive_fetch_def split: list.split sum.split)
qed

theorem bhavcopy_read_back_witness:
  "\<exists>tk. fst (fst (af_fetch (1000, 1001) (1002, 1003) (demo_dates, demo_reply) ''tcs'' 1 demo_instant new_archive_feed)) = Inr tk \<and>
     tk_ltp tk = 6001 / 2 \<and> tk_series tk = Some ''EQ''"
proof -
  define r where "r = [(''SYMBOL'', ''TCS''), (''SERIES'', ''EQ''), (''CLOSE_PRICE'', ''3,000.5'')]"
  have u: "upper ''TCS'' = ''TCS''" "upper ''tcs'' = ''TCS''" "normalize_symbol ''TCS'' = ''TCS''" by code_simp+
  have e: "nse_equity [(''SYMBOL'', ''TCS''), (''SERIES'', ''EQ''), (''CLOSE_PRICE'', x)]"
    "\<not> nse_equity [(''SYMBOL'', ''TCS''), (''SERIES'', ''GB''), (''CLOSE_PRICE'', x)]" for x
    by (simp_all add: nse_equity_def row_get_def nse_series_def)
  have "\<exists>r\<in>set (map (\<lambda>row. clean_row (zip demo_names row)) demo_table). nse_equity r" unfolding demo_clean using e by simp
  then have some: "\<exists>row\<in>set demo_table. nse_equity (clean_row (zip demo_names row))" by auto
  have found: "Some r = find (\<lambda>r. nse_equity r \<and> upper (row_get r ''SYMBOL'') = upper ''tcs'')
      (rev (map (\<lambda>row. clean_row (zip demo_names row)) demo_table))"
    unfolding demo_clean by (simp add: u e row_get_def r_def)
  have d: "dec_value (VStr ''3,000.5'') = 6001 / 2" "dec_value (VStr []) = 0" by code_simp+
  have "\<exists>tk. nse_archive_parse r ''tcs'' demo_instant = Inr tk \<and> tk_ltp tk = 6001 / 2 \<and> tk_series tk = Some ''EQ''"
    by (simp add: r_def u nse_archive_parse_def Let_def validated_def make_tick_def feed_tick_def tick_ok_def opt_ge0_def compute_change_def
        pos_or_def pos_opt_def dec_or_def row_dec_def row_get_def d py_trunc_def del: dec_value.simps)
  moreover obtain answer f where q: "af_fetch (1000, 1001) (1002, 1003) (demo_dates, demo_reply) ''tcs'' 1 demo_instant new_archive_feed = (answer, f)"
    by (cases "af_fetch (1000, 1001) (1002, 1003) (demo_dates, demo_reply) ''tcs'' 1 demo_instant new_archive_feed")
  have "fst answer = nse_archive_parse r ''tcs'' demo_instant"
    using bhavcopy_read_back[OF _ demo_printable some demo_posted _ _ found q] by (simp add: eols_def)
  ultimately show ?thesis unfolding q by simp
qed

text \<open>A health check before the provider is connected spends the attempt: for the next two minutes it connects empty.\<close>

lemma no_files: "ar_rows a = [] \<Longrightarrow> nse_walk date (\<lambda>n. None) tm ns a = (a, length ns)"
  by (induction ns) simp_all

lemma health_spends_attempt:
  assumes "120 \<le> fst t" "fst t' - fst t < 120"
  shows "\<not> fst (af_health t site new_archive_feed) \<and>
    ar_rows (af_data (af_connect t' site (snd (af_health t site new_archive_feed)))) = [] \<and>
    af_connected (af_connect t' site (snd (af_health t site new_archive_feed)))"
proof -
  have "nse_ensure_loaded (fst t) d (\<lambda>n. None) u new_archive = (new_archive\<lparr>ar_attempt := fst t\<rparr>, 8)" for d u
    using assms(1) no_files[of "new_archive\<lparr>ar_attempt := fst t\<rparr>" d u "[0..<8]"] by (simp add: nse_ensure_loaded_def new_archive_def)
  then show ?thesis
    using assms(2) by (simp add: af_health_def af_connect_def af_load_def new_archive_feed_def Let_def nse_ensure_loaded_def new_archive_def)
qed

section \<open>The BSE archive provider\<close>

text \<open>The BSE file belongs to a master the providers share, which makes its own session when it first loads; connecting the
  provider loads nothing.\<close>

record bse_archive_feed =
  bf_master :: archive
  bf_connected :: bool

definition bm_load :: "secs \<times> secs \<Rightarrow> archive_site \<Rightarrow> archive \<Rightarrow> archive" where
  "bm_load t site m = fst (bse_ensure_loaded (fst t) (fst site) (\<lambda>n. bse_file (snd site n)) (snd t) m)"

definition bm_size :: "archive \<Rightarrow> nat" where
  "bm_size m = length (ar_rows m)"

definition ba_connect :: "bse_archive_feed \<Rightarrow> bse_archive_feed" where
  "ba_connect f = f\<lparr>bf_connected := True\<rparr>"

definition ba_disconnect :: "bse_archive_feed \<Rightarrow> bse_archive_feed" where
  "ba_disconnect f = f\<lparr>bf_connected := False\<rparr>"

definition ba_health :: "secs \<times> secs \<Rightarrow> archive_site \<Rightarrow> bse_archive_feed \<Rightarrow> bool \<times> bse_archive_feed" where
  "ba_health t site f = (let m = bm_load t site (bf_master f) in (0 < bm_size m, f\<lparr>bf_master := m\<rparr>))"

definition ba_fetch :: "secs \<times> secs \<Rightarrow> archive_site \<Rightarrow> string \<Rightarrow> datetime \<Rightarrow> bse_archive_feed \<Rightarrow> fetched \<times> bse_archive_feed" where
  "ba_fetch t site sm dt f = (let m = bm_load t site (bf_master f) in (bse_archive_fetch m sm dt, f\<lparr>bf_master := m\<rparr>))"

text \<open>Here a health check before connecting does no harm: with a file posted it is passed, and a fetch soon after it answers
  from the first equity row of the symbol.\<close>

lemma bse_health_then_fetch:
  assumes "eol \<in> set eols" "printable names rows" "\<exists>row\<in>set rows. bse_equity (clean_row (zip names row))"
    and "posted bse_download reply j (csv_print q eol (names # rows))"
    and "ar_rows (bf_master f) = []" "120 \<le> fst t - ar_attempt (bf_master f)" "fst t' - snd t < 3600"
    and "found = find (\<lambda>r. bse_equity r \<and> upper (row_get r ''TckrSymb'') = upper sm) (map (\<lambda>row. clean_row (zip names row)) rows)"
  shows "fst (ba_health t (date, reply) f) \<and>
    fst (ba_fetch t' (date, reply) sm dt (ba_connect (snd (ba_health t (date, reply) f)))) =
      (case found of None \<Rightarrow> (Inl (ProviderError ''not in BSE bhavcopy''), [None]) | Some r \<Rightarrow> (bse_archive_parse r sm dt, [Some 0]))"
proof -
  define a where "a = bm_load t (date, reply) (bf_master f)"
  have a_eq: "a = fst (bse_ensure_loaded (fst t) date (bse_file \<circ> reply) (snd t) (bf_master f))"
    by (simp add: a_def bm_load_def comp_def)
  have a: "ar_loaded a = snd t" "ar_rows a \<noteq> []" "row_for a s = find (\<lambda>r. bse_equity r \<and> upper (row_get r ''TckrSymb'') = upper s)
      (map (\<lambda>row. clean_row (zip names row)) rows)" for s
    using bse_eod.posted_loaded[unfolded bse_download_is, OF assms(1-6) a_eq, of s] by simp_all
  then have "bm_load t' (date, reply) a = a" using assms(7) by (simp add: bm_load_def bse_ensure_loaded_def)
  moreover have "row_for a sm = found" using a(3) assms(8) by simp
  moreover have "r \<noteq> []" if "found = Some r" for r
    using that assms(8) by (auto simp: find_Some_iff bse_equity_def row_get_def)
  ultimately show ?thesis
    using a(2) by (cases found) (auto simp: ba_health_def ba_fetch_def ba_connect_def bm_size_def a_def[symmetric] bse_archive_fetch_def Let_def split: list.split)
qed

end
