(* ===== verification/FeedLife.thy ===== *)
theory FeedLife
  imports Bulk Csv
begin

text \<open>
  The life of the light providers around their fetches (\<^verbatim>\<open>src/providers/groww.py\<close>, \<^verbatim>\<open>nse_live.py\<close>, \<^verbatim>\<open>yahoo_finance.py\<close>,
  \<^verbatim>\<open>bse_archive.py\<close>, the health check of \<^verbatim>\<open>nse_scraper.py\<close>): sessions, health checks, the bulk fetches that gather all
  symbols at once, Yahoo's batch, and the five spellings of the decimal reader.
\<close>

section \<open>Sessions\<close>

record link =
  ln_session :: bool
  ln_connected :: bool

definition new_link :: link where
  "new_link = \<lparr>ln_session = False, ln_connected = False\<rparr>"

definition groww_connect :: "link \<Rightarrow> link" where
  "groww_connect l = (if ln_connected l then l else l\<lparr>ln_session := True, ln_connected := True\<rparr>)"

definition groww_disconnect :: "link \<Rightarrow> link" where
  "groww_disconnect l = l\<lparr>ln_session := False, ln_connected := False\<rparr>"

text \<open>The Moneycontrol providers keep their codes over a reconnect.\<close>

record mc_feed =
  mf_link :: link
  mf_codes :: sc_cache

definition new_mc_feed :: mc_feed where
  "new_mc_feed = \<lparr>mf_link = new_link, mf_codes = map_of sc_seed\<rparr>"

definition mc_connect :: "mc_feed \<Rightarrow> mc_feed" where
  "mc_connect f = (if ln_connected (mf_link f) then f else f\<lparr>mf_link := \<lparr>ln_session = True, ln_connected = True\<rparr>\<rparr>)"

definition mc_disconnect :: "mc_feed \<Rightarrow> mc_feed" where
  "mc_disconnect f = f\<lparr>mf_link := \<lparr>ln_session = False, ln_connected = False\<rparr>\<rparr>"

text \<open>\<^verbatim>\<open>fetch_quote\<close> with the connection it makes.\<close>

definition mc_quote :: "bool \<Rightarrow> val list \<Rightarrow> (string \<Rightarrow> http) \<Rightarrow> string \<Rightarrow> rat \<Rightarrow> datetime \<Rightarrow> mc_feed \<Rightarrow> fetched \<times> mc_feed" where
  "mc_quote bse rows reply sm lat now f =
     (let f1 = mc_connect f; (r, codes) = mc_fetch bse rows reply sm lat now (mf_codes f1) in (r, f1\<lparr>mf_codes := codes\<rparr>))"

section \<open>Health checks\<close>

text \<open>\<^verbatim>\<open>float(r.json()["data"]["pricecurrent"]) > 0\<close>; every exception is a failed check.\<close>

definition mc_health :: "http \<Rightarrow> mc_feed \<Rightarrow> bool \<times> mc_feed" where
  "mc_health reply f =
     (case reply of
        Http status (Json (VDict d)) \<Rightarrow> status = 200 \<and>
          (case map_of d ''data'' of
             Some (VDict p) \<Rightarrow> (case Option.bind (map_of p ''pricecurrent'') to_float of None \<Rightarrow> False | Some x \<Rightarrow> 0 < x)
           | _ \<Rightarrow> False)
      | _ \<Rightarrow> False, mc_connect f)"

text \<open>The price of the ticker's dictionary (\<open>None\<close>: the fetch raises) has to compare with 0.\<close>

definition yahoo_health :: "dict option \<Rightarrow> bool" where
  "yahoo_health info =
     (case info of
        None \<Rightarrow> False
      | Some d \<Rightarrow> (case map_of d ''regularMarketPrice'' of
            Some (VInt n) \<Rightarrow> 0 < n | Some (VNum x) \<Rightarrow> 0 < x | Some (VBool b) \<Rightarrow> b | _ \<Rightarrow> False))"

definition nse_health :: "secs \<Rightarrow> fresh_env \<Rightarrow> http \<Rightarrow> nse_sess \<Rightarrow> bool \<times> nse_sess" where
  "nse_health iv f reply s =
     (if \<not> ss_connected s then (False, s)
      else (let (ok, s') = ensure_fresh_cookies iv f s
            in (ok \<and> (case reply of Http status b \<Rightarrow> status = 200 | NoReply \<Rightarrow> False), s')))"

section \<open>Bulk fetches that gather everything at once\<close>

text \<open>One task per symbol, all gathered together, at most \<open>gather_limit\<close> of them past the semaphore. A failed symbol is passed over.\<close>

definition gather_start :: "string list \<Rightarrow> 's \<Rightarrow> 's bulk" where
  "gather_start syms st =
     \<lparr>bk_todo = [], bk_ready = syms, bk_running = [], bk_results = [], bk_errors = [], bk_state = st\<rparr>"

definition gather_limit :: "nat \<Rightarrow> nat" where
  "gather_limit concurrency = min concurrency 8"

definition groww_bulk_fetch :: "(string \<Rightarrow> http) \<Rightarrow> (string \<Rightarrow> rat) \<Rightarrow> (string \<Rightarrow> datetime) \<Rightarrow> link fetcher" where
  "groww_bulk_fetch reply lat now s l = (fst (groww_fetch (reply s) s (lat s) (now s)), groww_connect l)"

definition mc_bulk_fetch :: "bool \<Rightarrow> (string \<Rightarrow> val list) \<Rightarrow> (string \<Rightarrow> http) \<Rightarrow> (string \<Rightarrow> rat) \<Rightarrow> (string \<Rightarrow> datetime) \<Rightarrow> mc_feed fetcher" where
  "mc_bulk_fetch bse rows reply lat now s f = (let (r, f') = mc_quote bse (rows s) reply s (lat s) (now s) f in (fst r, f'))"

lemma gather_start_inv: "bulk_inv (length syms) limit syms (gather_start syms st)"
  by (simp add: bulk_inv_def gather_start_def bulk_pending_def)

lemma gather_start_cost: "bulk_cost (gather_start syms st) = 2 * length syms"
  by (simp add: bulk_cost_def gather_start_def)

interpretation groww_bulk: bulk_source "groww_bulk_fetch reply lat now" "\<lambda>s t. feed_ok ''NSE'' ''groww'' s t \<and> 0 < tk_ltp t" for reply lat now
  by unfold_locales (auto simp: groww_bulk_fetch_def dest: groww_fetch_ok)

interpretation mc_bulk: bulk_source "mc_bulk_fetch bse rows reply lat now" "\<lambda>s t. feed_ok (mc_exchange bse) (mc_name bse) s t \<and> 0 < tk_ltp t"
    for bse rows reply lat now
  by unfold_locales (auto simp: mc_bulk_fetch_def mc_quote_def Let_def split_beta dest: mc_fetch_ok)

lemma groww_bulk_accounts:
  assumes "bulk_run (groww_bulk_fetch reply lat now) (gather_limit c) (gather_start syms l) es b" "1 \<le> c"
  shows "length (bk_running b) \<le> min c 8 \<and> length es \<le> 2 * length syms \<and>
    (\<forall>t\<in>set (bk_results b). \<exists>s\<in>set syms. feed_ok ''NSE'' ''groww'' s t \<and> 0 < tk_ltp t) \<and>
    (bulk_over (groww_bulk_fetch reply lat now) (gather_limit c) b \<longleftrightarrow> length (bk_results b) + length (bk_errors b) = length syms)"
proof -
  have "1 \<le> gather_limit c" using assms(2) by (simp add: gather_limit_def)
  from groww_bulk.run_accounts[OF assms(1) gather_start_inv _ this] gather_start_cost[of syms l] show ?thesis
    by (auto simp: gather_limit_def gather_start_def)
qed

lemma mc_bulk_accounts:
  assumes "bulk_run (mc_bulk_fetch bse rows reply lat now) (gather_limit c) (gather_start syms f) es b" "1 \<le> c"
  shows "length (bk_running b) \<le> min c 8 \<and> length es \<le> 2 * length syms \<and>
    (\<forall>t\<in>set (bk_results b). \<exists>s\<in>set syms. feed_ok (mc_exchange bse) (mc_name bse) s t \<and> 0 < tk_ltp t) \<and>
    (bulk_over (mc_bulk_fetch bse rows reply lat now) (gather_limit c) b \<longleftrightarrow> length (bk_results b) + length (bk_errors b) = length syms)"
proof -
  have "1 \<le> gather_limit c" using assms(2) by (simp add: gather_limit_def)
  from mc_bulk.run_accounts[OF assms(1) gather_start_inv _ this] gather_start_cost[of syms f] show ?thesis
    by (auto simp: gather_limit_def gather_start_def)
qed

section \<open>Decimals\<close>

text \<open>
  The five \<^verbatim>\<open>_dec\<close> readers differ in the words they take for zero before asking \<^verbatim>\<open>Decimal\<close>, and in whether they convert
  numbers to text first. Since \<^verbatim>\<open>Decimal\<close> refuses each of those words, and a refusal is 0 as well, they all compute the same.
\<close>

definition dec_with :: "string list \<Rightarrow> val \<Rightarrow> rat" where
  "dec_with blanks v =
     (case v of
        VStr s \<Rightarrow> (let t = strip (filter (\<lambda>c. c \<noteq> CHR '','') s)
                   in if t = [] \<or> t \<in> set blanks then 0 else (case parse_decimal t of None \<Rightarrow> 0 | Some x \<Rightarrow> x))
      | VInt n \<Rightarrow> of_int n
      | VNum x \<Rightarrow> x
      | _ \<Rightarrow> 0)"

definition groww_dec :: "val \<Rightarrow> rat" where "groww_dec = dec_with [''-'', ''NA'', ''None'']"
definition mc_dec :: "val \<Rightarrow> rat" where "mc_dec = dec_with [''-'', ''NA'']"
definition nse_dec :: "val \<Rightarrow> rat" where "nse_dec = dec_with [''-'']"
definition bse_dec :: "val \<Rightarrow> rat" where "bse_dec = dec_with [''-'']"
definition bse_archive_dec :: "val \<Rightarrow> rat" where "bse_archive_dec = dec_with [''-'']"

lemma dec_words: "parse_decimal ''-'' = None" "parse_decimal ''NA'' = None" "parse_decimal ''None'' = None" "parse_decimal [] = None"
  by code_simp+

lemma dec_with_same: "(\<forall>w\<in>set blanks. parse_decimal w = None) \<Longrightarrow> dec_with blanks v = dec_value v"
  by (cases v) (auto simp: dec_with_def Let_def dec_words)

lemma dec_readers_agree: "groww_dec = dec_value" "mc_dec = dec_value" "nse_dec = dec_value" "bse_dec = dec_value" "bse_archive_dec = dec_value"
  by (auto simp: groww_dec_def mc_dec_def nse_dec_def bse_dec_def bse_archive_dec_def dec_with_same dec_words)

section \<open>Yahoo's batch\<close>

text \<open>The batch client gives per symbol no ticker, a ticker whose \<^verbatim>\<open>info\<close> raises, or its dictionary; only dictionaries with
  something in them are kept.\<close>

definition yahoo_fetch_bulk_sync :: "(string \<Rightarrow> dict option option) \<Rightarrow> string list \<Rightarrow> (string \<times> dict) list" where
  "yahoo_fetch_bulk_sync tickers syms =
     foldl (\<lambda>out s. case tickers s of Some (Some d) \<Rightarrow> if d = [] then out else dput s d out | _ \<Rightarrow> out) [] syms"

lemma yahoo_batch_lookup:
  "map_of (yahoo_fetch_bulk_sync tickers syms) s =
     (if s \<in> set syms then (case tickers s of Some (Some (e # d)) \<Rightarrow> Some (e # d) | _ \<Rightarrow> None) else None)"
proof -
  define kept where "kept s = (case tickers s of Some (Some d) \<Rightarrow> if d = [] then None else Some d | _ \<Rightarrow> None)" for s
  have step: "foldl (\<lambda>out s. case tickers s of Some (Some d) \<Rightarrow> if d = [] then out else dput s d out | _ \<Rightarrow> out) =
      foldl (\<lambda>out s. case kept s of None \<Rightarrow> out | Some d \<Rightarrow> dput s d out)"
    by (intro arg_cong[where f = foldl] ext) (auto simp: kept_def split: option.split)
  have "map_of (foldl (\<lambda>out s. case kept s of None \<Rightarrow> out | Some d \<Rightarrow> dput s d out) out syms) s =
      (if s \<in> set syms \<and> kept s \<noteq> None then kept s else map_of out s)" for out
    by (induction syms arbitrary: out) (auto split: option.split)
  then have "map_of (yahoo_fetch_bulk_sync tickers syms) s = (if s \<in> set syms then kept s else None)"
    unfolding yahoo_fetch_bulk_sync_def step by simp
  then show ?thesis by (auto simp: kept_def split: option.split list.split)
qed

text \<open>So a bulk fetch gives, in the order asked, a tick for each symbol whose dictionary has something in it and parses.\<close>

lemma yahoo_bulk_composed:
  "yahoo_bulk (Some (map_of (yahoo_fetch_bulk_sync tickers (map yahoo_suffix syms)))) syms lat now =
     List.map_filter (\<lambda>s. case tickers (yahoo_suffix s) of
         Some (Some (e # d)) \<Rightarrow> (case yahoo_parse (e # d) s lat now of Inr t \<Rightarrow> Some t | Inl x \<Rightarrow> None)
       | _ \<Rightarrow> None) syms"
proof -
  have "(case map_of (yahoo_fetch_bulk_sync tickers (map yahoo_suffix syms)) (yahoo_suffix s) of None \<Rightarrow> None | Some [] \<Rightarrow> None
          | Some i \<Rightarrow> (case yahoo_parse i s lat now of Inr t \<Rightarrow> Some t | Inl x \<Rightarrow> None)) =
      (case tickers (yahoo_suffix s) of Some (Some (e # d)) \<Rightarrow> (case yahoo_parse (e # d) s lat now of Inr t \<Rightarrow> Some t | Inl x \<Rightarrow> None)
       | _ \<Rightarrow> None)" if "s \<in> set syms" for s
    using that by (auto simp: yahoo_batch_lookup split: option.split list.split)
  then show ?thesis unfolding yahoo_bulk_def option.case map_filter_def by (intro map_cong filter_cong) auto
qed

end
