(* ===== verification/Retention.thy ===== *)
theory Retention
  imports IntradayStore
begin

text \<open>
  The retention of the one-second store: the prune loop of \<^verbatim>\<open>src/engine/intraday_store.py\<close> with its scheduler, running beside
  the flushes of the recorders, and the prune on demand (\<^verbatim>\<open>/sb/prune\<close>). The loop sleeps a minute after start-up and then the
  prune interval between two prunes; how late a wake-up may come is an argument. A wake-up may fail or find no database.
\<close>

section \<open>The loop\<close>

record prune_cfg =
  pc_intraday_days :: int
  pc_ticks_days :: int
  pc_interval_h :: rat

definition default_prune_cfg :: prune_cfg where
  "default_prune_cfg = \<lparr>pc_intraday_days = 60, pc_ticks_days = 14, pc_interval_h = 24\<rparr>"

datatype prune_task = NoTask | Running secs | Finished

text \<open>A second start leaves a running loop alone. A running task carries the time of its next wake-up.\<close>

definition start_prune_scheduler :: "secs \<Rightarrow> prune_task \<Rightarrow> prune_task" where
  "start_prune_scheduler now t = (case t of Running nx \<Rightarrow> Running nx | _ \<Rightarrow> Running (now + 60))"

text \<open>One wake-up: a prune with the configured days, then the next sleep. \<open>took\<close> is how long the prune takes and \<open>ok\<close> whether
  the database carried it out; a failure and a missing database are answered, not raised, so the loop never ends.\<close>

definition prune_wake :: "prune_cfg \<Rightarrow> secs \<Rightarrow> secs \<Rightarrow> bool \<Rightarrow> candle_db \<Rightarrow> candle_db \<times> prune_task" where
  "prune_wake cfg now took ok db =
     (snd (prune_old (pc_intraday_days cfg) (pc_ticks_days cfg) None None now ok db), Running (now + took + pc_interval_h cfg * 3600))"

text \<open>The day counts of the query are refused below 1 (\<^verbatim>\<open>ge=1\<close>), which the framework answers with 422.\<close>

definition sb_prune :: "prune_cfg \<Rightarrow> int option \<Rightarrow> int option \<Rightarrow> secs \<Rightarrow> bool \<Rightarrow> candle_db \<Rightarrow> (int + prune_result) \<times> candle_db" where
  "sb_prune cfg idays tdays now ok db =
     (if (case idays of None \<Rightarrow> False | Some d \<Rightarrow> d < 1) \<or> (case tdays of None \<Rightarrow> False | Some d \<Rightarrow> d < 1) then (Inl 422, db)
      else (let (r, db') = prune_old (pc_intraday_days cfg) (pc_ticks_days cfg) idays tdays now ok db in (Inr r, db')))"

section \<open>Flushes and prunes in any order\<close>

text \<open>The store with its loop, and for the bookkeeping of the bound: when a scheduled prune last succeeded, how many wake-ups
  in a row have failed or found no database since, and the rows flushed since that were past the window already when they
  were flushed.\<close>

record keeping =
  kp_db :: candle_db
  kp_task :: prune_task
  kp_now :: secs
  kp_pruned :: "secs option"
  kp_failed :: nat
  kp_stale :: "irow set"

definition window :: "prune_cfg \<Rightarrow> secs" where
  "window cfg = of_int (pc_intraday_days cfg) * 86400"

definition old_bars :: "prune_cfg \<Rightarrow> string \<Rightarrow> string \<Rightarrow> secs \<Rightarrow> engine \<Rightarrow> irow set" where
  "old_bars cfg sm exch now e =
     bar_row sm exch ` set (filter (\<lambda>b. b_time b < now - window cfg) (fst (build sm exch 1 100000 now e)))"

text \<open>Nothing happens later than \<open>late\<close> after a wake-up that is due, but that wake-up. A prune takes at most \<open>slow\<close>.\<close>

definition on_time :: "secs \<Rightarrow> secs \<Rightarrow> keeping \<Rightarrow> bool" where
  "on_time late now k \<longleftrightarrow> kp_now k \<le> now \<and> (case kp_task k of Running nx \<Rightarrow> now \<le> nx + late | _ \<Rightarrow> True)"

definition woken :: "prune_cfg \<Rightarrow> secs \<Rightarrow> secs \<Rightarrow> bool \<Rightarrow> keeping \<Rightarrow> keeping" where
  "woken cfg now took ok k =
     (case prune_wake cfg now took ok (kp_db k) of (db', task') \<Rightarrow>
        if ok \<and> db_connected (kp_db k)
        then k\<lparr>kp_db := db', kp_task := task', kp_now := now, kp_pruned := Some now, kp_failed := 0, kp_stale := {}\<rparr>
        else k\<lparr>kp_db := db', kp_task := task', kp_now := now, kp_failed := kp_failed k + 1\<rparr>)"

inductive retained :: "prune_cfg \<Rightarrow> secs \<Rightarrow> secs \<Rightarrow> keeping \<Rightarrow> bool" for cfg late slow where
  boot: "retained cfg late slow \<lparr>kp_db = db, kp_task = start_prune_scheduler t NoTask, kp_now = t, kp_pruned = None,
     kp_failed = 0, kp_stale = {}\<rparr>"
| restart: "retained cfg late slow k \<Longrightarrow> on_time late now k \<Longrightarrow>
    retained cfg late slow (k\<lparr>kp_task := start_prune_scheduler now (kp_task k), kp_now := now\<rparr>)"
| connection: "retained cfg late slow k \<Longrightarrow> on_time late now k \<Longrightarrow>
    retained cfg late slow (k\<lparr>kp_db := (kp_db k)\<lparr>db_connected := up\<rparr>, kp_now := now\<rparr>)"
| wake: "retained cfg late slow k \<Longrightarrow> on_time late now k \<Longrightarrow> kp_task k = Running nx \<Longrightarrow> nx \<le> now \<Longrightarrow>
    0 \<le> took \<Longrightarrow> took \<le> slow \<Longrightarrow> retained cfg late slow (woken cfg now took ok k)"
| flush: "retained cfg late slow k \<Longrightarrow> on_time late now k \<Longrightarrow>
    retained cfg late slow (k\<lparr>kp_db := snd (snd (flush_live_to_store sm exch now ok e (kp_db k))), kp_now := now,
      kp_stale := kp_stale k \<union> old_bars cfg sm exch now e\<rparr>)"
| demand: "retained cfg late slow k \<Longrightarrow> on_time late now k \<Longrightarrow>
    retained cfg late slow (k\<lparr>kp_db := snd (sb_prune cfg idays tdays now ok (kp_db k)), kp_now := now\<rparr>)"

text \<open>After a prune at \<open>t0\<close> and \<open>n\<close> failed wake-ups the next one is due at most \<open>n + 1\<close> rounds of the loop later, and the
  rows that are older than the window counted from \<open>t0\<close> are among the late-comers.\<close>

definition store_young :: "prune_cfg \<Rightarrow> secs \<Rightarrow> secs \<Rightarrow> keeping \<Rightarrow> bool" where
  "store_young cfg late slow k \<longleftrightarrow>
     (\<exists>nx. kp_task k = Running nx \<and>
       (\<forall>t0. kp_pruned k = Some t0 \<longrightarrow>
          nx + late \<le> t0 + (of_nat (kp_failed k) + 1) * (pc_interval_h cfg * 3600 + slow + late) \<and> t0 \<le> kp_now k \<and>
          (\<forall>r\<in>set (db_rows (kp_db k)). r \<in> kp_stale k \<or> t0 - window cfg \<le> ir_time r)))"

lemma upsert_row_mem: "q \<in> set (upsert_row tbl r) \<Longrightarrow> q \<in> set tbl \<or> q = r"
  by (auto simp: upsert_row_def upsert_by_def split: if_splits)

lemma upserts_mem: "q \<in> set (foldl upsert_row tbl rows) \<Longrightarrow> q \<in> set tbl \<union> set rows"
  by (induction rows arbitrary: tbl) (auto dest: upsert_row_mem)

lemma flush_mem:
  assumes "q \<in> set (db_rows (snd (snd (flush_live_to_store sm exch now ok e db))))"
  shows "q \<in> set (db_rows db) \<or> (\<exists>b\<in>set (fst (build sm exch 1 100000 now e)). q = bar_row sm exch b)"
proof (cases "build sm exch 1 100000 now e")
  case (Pair bars e')
  with assms show ?thesis
    by (auto simp: flush_live_to_store_def Let_def upsert_intraday_candles_def split: if_splits dest!: upserts_mem)
qed

lemma prune_mem: "q \<in> set (db_rows (snd (prune_old ci ct i t now ok db))) \<Longrightarrow> q \<in> set (db_rows db)"
  by (auto simp: prune_old_def Let_def split: if_splits)

lemma demand_mem: "q \<in> set (db_rows (snd (sb_prune cfg i t now ok db))) \<Longrightarrow> q \<in> set (db_rows db)"
  using prune_mem by (auto simp: sb_prune_def split_beta split: if_splits)

lemma prune_wake_rows:
  assumes "prune_wake cfg now took ok db = (db', task')"
  shows "task' = Running (now + took + pc_interval_h cfg * 3600)" "set (db_rows db') \<subseteq> set (db_rows db)"
    and "ok \<Longrightarrow> db_connected db \<Longrightarrow> r \<in> set (db_rows db') \<Longrightarrow> now - window cfg \<le> ir_time r"
  using assms by (auto simp: prune_wake_def prune_old_def window_def or_default_def Let_def split: if_splits)

lemma flush_young:
  assumes "t0 \<le> now" "q \<in> set (db_rows (snd (snd (flush_live_to_store sm exch now ok e db))))"
  shows "q \<in> set (db_rows db) \<or> q \<in> old_bars cfg sm exch now e \<or> t0 - window cfg \<le> ir_time q"
  using flush_mem[OF assms(2)] assms(1) by (fastforce simp: old_bars_def bar_row_def)

lemma retained_young: "retained cfg late slow k \<Longrightarrow> store_young cfg late slow k"
proof (induction rule: retained.induct)
  case (boot db t)
  then show ?case by (simp add: store_young_def start_prune_scheduler_def)
next
  case (restart k now)
  then show ?case by (fastforce simp: store_young_def start_prune_scheduler_def on_time_def)
next
  case (connection k now up)
  then show ?case by (fastforce simp: store_young_def on_time_def)
next
  case (wake k now nx took ok)
  obtain db' task' where w: "prune_wake cfg now took ok (kp_db k) = (db', task')" by fastforce
  note p = prune_wake_rows[OF w]
  have now: "now \<le> nx + late" "kp_now k \<le> now" using wake.hyps(2,3) by (simp_all add: on_time_def)
  show ?case
  proof (cases "ok \<and> db_connected (kp_db k)")
    case True
    have "woken cfg now took ok k = k\<lparr>kp_db := db', kp_task := task', kp_now := now, kp_pruned := Some now, kp_failed := 0, kp_stale := {}\<rparr>"
      unfolding woken_def w prod.case if_P[OF True] ..
    with p True wake.hyps(6) show ?thesis by (simp add: store_young_def)
  next
    case False
    have "nx + late \<le> t0 + (of_nat (kp_failed k) + 1) * (pc_interval_h cfg * 3600 + slow + late) \<and> t0 \<le> kp_now k \<and>
        (\<forall>r\<in>set (db_rows (kp_db k)). r \<in> kp_stale k \<or> t0 - window cfg \<le> ir_time r)" if "kp_pruned k = Some t0" for t0
      using wake.IH wake.hyps(3) that by (simp add: store_young_def)
    moreover have "woken cfg now took ok k = k\<lparr>kp_db := db', kp_task := task', kp_now := now, kp_failed := kp_failed k + 1\<rparr>"
      unfolding woken_def w prod.case if_not_P[OF False] ..
    ultimately show ?thesis using p(1,2) now wake.hyps(6)
      by (fastforce simp: store_young_def algebra_simps)
  qed
next
  case (flush k now sm exch e ok)
  have le: "kp_now k \<le> now" using flush.hyps(2) by (simp add: on_time_def)
  from flush.IH obtain nx where nx: "kp_task k = Running nx" and inv: "\<And>t0. kp_pruned k = Some t0 \<Longrightarrow>
      nx + late \<le> t0 + (of_nat (kp_failed k) + 1) * (pc_interval_h cfg * 3600 + slow + late) \<and> t0 \<le> kp_now k \<and>
      (\<forall>r\<in>set (db_rows (kp_db k)). r \<in> kp_stale k \<or> t0 - window cfg \<le> ir_time r)"
    by (auto simp: store_young_def)
  have "q \<in> kp_stale k \<union> old_bars cfg sm exch now e \<or> t0 - window cfg \<le> ir_time q"
    if "kp_pruned k = Some t0" "q \<in> set (db_rows (snd (snd (flush_live_to_store sm exch now ok e (kp_db k)))))" for t0 q
    using flush_young[OF _ that(2), of t0 cfg] inv[OF that(1)] le by auto
  with nx inv le show ?case unfolding store_young_def by fastforce
next
  case (demand k now idays tdays ok)
  then show ?case unfolding store_young_def on_time_def by (fastforce dest!: demand_mem)
qed

text \<open>C25: The one-second store cannot grow old. While wake-ups come at most \<open>late\<close> late and a prune takes at most \<open>slow\<close>, a
  stored bar is never older than the retention window plus one round of the loop for each wake-up in a row that failed or
  found no database, and one more, counted from any successful prune on. In between the scheduler may be started again,
  the connection may come and go, bars of any age may be flushed, with or without success, and prunes be asked for with any
  day counts. Only a bar that was past the window already when it was flushed may be older, until the next prune that
  succeeds.\<close>

theorem retention_bound:
  assumes "retained cfg late slow k" "kp_pruned k \<noteq> None" "on_time late now k" "r \<in> set (db_rows (kp_db k))" "r \<notin> kp_stale k"
  shows "now - ir_time r \<le> of_int (pc_intraday_days cfg) * 86400 +
    (of_nat (kp_failed k) + 1) * (pc_interval_h cfg * 3600 + slow + late)"
proof -
  from retained_young[OF assms(1)] assms(2,4,5) obtain nx t0 where "kp_task k = Running nx"
    "nx + late \<le> t0 + (of_nat (kp_failed k) + 1) * (pc_interval_h cfg * 3600 + slow + late)" "t0 - window cfg \<le> ir_time r"
    by (auto simp: store_young_def)
  with assms(3) show ?thesis by (simp add: on_time_def window_def)
qed

text \<open>A prune that drops the older of two bars, then a wake-up that fails.\<close>

definition demo_bar_row :: "secs \<Rightarrow> irow" where
  "demo_bar_row t = \<lparr>ir_time = t, ir_symbol = ''TCS'', ir_exchange = ''NSE'', ir_open = 1, ir_high = 1, ir_low = 1, ir_close = 1, ir_volume = 1\<rparr>"

definition demo_candle_db :: candle_db where
  "demo_candle_db = \<lparr>db_connected = True, db_rows = [demo_bar_row 0, demo_bar_row 8553600], db_last_flush = Map.empty\<rparr>"

definition demo_kept :: keeping where
  "demo_kept = \<lparr>kp_db = demo_candle_db\<lparr>db_rows := [demo_bar_row 8553600]\<rparr>, kp_task = Running 8812866, kp_now = 8726463,
     kp_pruned = Some 8640060, kp_failed = 1, kp_stale = {}\<rparr>"

theorem retention_bound_witness:
  "retained default_prune_cfg 5 3 demo_kept \<and> db_rows (kp_db demo_kept) = [demo_bar_row 8553600] \<and>
   8812871 - ir_time (demo_bar_row 8553600) \<le> (5356816 :: rat)"
proof -
  let ?boot = "\<lparr>kp_db = demo_candle_db, kp_task = start_prune_scheduler 8640000 NoTask, kp_now = 8640000, kp_pruned = None,
     kp_failed = 0, kp_stale = {}\<rparr>"
  have "retained default_prune_cfg 5 3 ?boot" by (rule boot)
  from wake[OF this, of 8640060 8640060 3 True]
  have one: "retained default_prune_cfg 5 3 (woken default_prune_cfg 8640060 3 True ?boot)"
    by (simp add: on_time_def start_prune_scheduler_def)
  have eq1: "woken default_prune_cfg 8640060 3 True ?boot = demo_kept\<lparr>kp_task := Running 8726463, kp_now := 8640060, kp_failed := 0\<rparr>"
    by (simp add: woken_def start_prune_scheduler_def demo_candle_db_def prune_wake_def prune_old_def default_prune_cfg_def
        or_default_def demo_bar_row_def demo_kept_def Let_def)
  have eq2: "woken default_prune_cfg 8726463 3 False (demo_kept\<lparr>kp_task := Running 8726463, kp_now := 8640060, kp_failed := 0\<rparr>) = demo_kept"
    by (simp add: woken_def prune_wake_def prune_old_def default_prune_cfg_def demo_kept_def demo_candle_db_def Let_def)
  from wake[OF one[unfolded eq1], of 8726463 8726463 3 False] have k: "retained default_prune_cfg 5 3 demo_kept"
    unfolding eq2 by (simp add: on_time_def demo_kept_def)
  have "8812871 - ir_time (demo_bar_row 8553600) \<le> of_int (pc_intraday_days default_prune_cfg) * 86400 +
      (of_nat (kp_failed demo_kept) + 1) * (pc_interval_h default_prune_cfg * 3600 + 3 + 5)"
    by (rule retention_bound[OF k]) (simp_all add: demo_kept_def on_time_def)
  with k show ?thesis by (simp add: demo_kept_def default_prune_cfg_def)
qed

end
