(* ===== verification/Watchlist.thy ===== *)
theory Watchlist
  imports Tickertape IntradayStore
begin

text \<open>
  \<^verbatim>\<open>src/engine/watchlist_recorder.py\<close>: the always-on recorder that samples a fixed list in one batch per
  cadence and flushes it. A turn of \<^verbatim>\<open>_loop\<close> takes the market state, the batch (\<open>None\<close> for an exception), the
  clock and, for every symbol, the clock and outcome of its flush; it returns the seconds to sleep.
\<close>

section \<open>The recorder\<close>

record watch =
  wl_symbols :: "string list"
  wl_interval :: secs
  wl_running :: bool
  wl_task :: bool
  wl_last_flush :: secs
  wl_last_tick :: secs
  wl_ticks :: nat

definition env_watchlist :: "string \<Rightarrow> string list" where
  "env_watchlist raw = map (\<lambda>s. upper (strip s)) (filter (\<lambda>s. strip s \<noteq> []) (split_on (CHR '','') raw))"

definition new_watch :: "string \<Rightarrow> secs \<Rightarrow> watch" where
  "new_watch raw interval = \<lparr>wl_symbols = env_watchlist raw, wl_interval = max (1 / 2) interval, wl_running = False,
     wl_task = False, wl_last_flush = 0, wl_last_tick = 0, wl_ticks = 0\<rparr>"

definition set_watchlist :: "string list \<Rightarrow> watch \<Rightarrow> watch" where
  "set_watchlist syms w = w\<lparr>wl_symbols := map (\<lambda>s. upper (strip s)) (filter (\<lambda>s. strip s \<noteq> []) syms)\<rparr>"

definition watch_start :: "watch \<Rightarrow> watch" where
  "watch_start w = (if wl_running w \<or> wl_symbols w = [] then w else w\<lparr>wl_running := True, wl_task := True\<rparr>)"

definition watch_stop :: "watch \<Rightarrow> watch" where
  "watch_stop w = w\<lparr>wl_running := False, wl_task := False\<rparr>"

definition tape_source :: string where "tape_source = ''tickertape_realtime_nse''"

definition row_volume :: "dict \<Rightarrow> rat" where
  "row_volume row = (case to_float (val_or (dget row ''volume'') (VInt 0)) of None \<Rightarrow> 0 | Some x \<Rightarrow> x)"

definition record_row :: "live_cfg \<Rightarrow> secs \<Rightarrow> engine \<Rightarrow> string \<times> dict \<Rightarrow> engine" where
  "record_row cfg now e p =
     (if truthy_val (dget (snd p) ''price'')
      then record_sample cfg (fst p) ''NSE'' (to_float (dget (snd p) ''price'')) (Some (row_volume (snd p))) now (Some tape_source) e
      else e)"

definition flush_one :: "(string \<Rightarrow> secs \<times> bool) \<Rightarrow> engine \<times> candle_db \<Rightarrow> string \<Rightarrow> engine \<times> candle_db" where
  "flush_one fl st s = snd (flush_live_to_store s ''NSE'' (fst (fl s)) (snd (fl s)) (fst st) (snd st))"

record watch_tick =
  wt_market :: bool
  wt_rows :: "(string \<times> dict) list option"
  wt_now :: secs
  wt_flush :: "string \<Rightarrow> secs \<times> bool"

type_synonym watch_state = "watch \<times> engine \<times> candle_db"

text \<open>One turn of the loop; \<open>None\<close> once the recorder was stopped.\<close>

definition watch_turn :: "live_cfg \<Rightarrow> watch_tick \<Rightarrow> watch_state \<Rightarrow> (watch_state \<times> secs) option" where
  "watch_turn cfg n st =
     (case st of (w, e, db) \<Rightarrow>
        if \<not> wl_running w then None
        else if \<not> wt_market n then Some (st, 60)
        else if wl_symbols w = [] then Some (st, 30)
        else (case wt_rows n of
            None \<Rightarrow> Some (st, wl_interval w)
          | Some rows \<Rightarrow>
              let e1 = foldl (record_row cfg (wt_now n)) e rows;
                  w1 = w\<lparr>wl_ticks := wl_ticks w + 1, wl_last_tick := wt_now n\<rparr>
              in if wt_now n - wl_last_flush w \<ge> lc_flush_interval cfg
                 then (let (e2, db2) = foldl (flush_one (wt_flush n)) (e1, db) (wl_symbols w)
                       in Some ((w1\<lparr>wl_last_flush := wt_now n\<rparr>, e2, db2), wl_interval w))
                 else Some ((w1, e1, db), wl_interval w)))"

record watch_status =
  wst_enabled :: bool
  wst_running :: bool
  wst_symbols :: "string list"
  wst_interval :: secs
  wst_ticks :: nat
  wst_age :: "rat option"
  wst_market :: bool

definition watch_status_of :: "secs \<Rightarrow> bool \<Rightarrow> watch \<Rightarrow> watch_status" where
  "watch_status_of now market w =
     \<lparr>wst_enabled = wl_symbols w \<noteq> [], wst_running = wl_running w, wst_symbols = wl_symbols w, wst_interval = wl_interval w,
      wst_ticks = wl_ticks w, wst_age = (if wl_last_tick w = 0 then None else Some (py_round 1 (now - wl_last_tick w))),
      wst_market = market\<rparr>"

text \<open>\<^verbatim>\<open>POST /sb/recorder\<close>; \<open>None\<close> is the 400.\<close>

definition sb_recorder_set :: "string \<Rightarrow> secs \<Rightarrow> bool \<Rightarrow> watch \<Rightarrow> watch_status option \<times> watch" where
  "sb_recorder_set raw now market w =
     (let syms = env_watchlist raw
      in if syms = [] then (None, w)
         else (let w' = watch_start (set_watchlist syms w) in (Some (watch_status_of now market w'), w')))"

section \<open>What a turn records\<close>

lemma strip_upper_nonempty: "strip s \<noteq> [] \<Longrightarrow> upper (strip s) \<noteq> []"
  by (simp add: upper_def)

lemma env_watchlist_nonempty: "[] \<notin> set (env_watchlist raw)"
  by (auto simp: env_watchlist_def upper_def)

lemma live_key_inj: "live_key a exch = live_key b exch \<longleftrightarrow> upper a = upper b"
  by (simp add: live_key_def)

lemma record_sample_samples:
  assumes "0 < x" "\<not> owner_blocks cfg (live_key sm exch) now src e"
  shows "le_samples (record_sample cfg sm exch (Some x) (Some c) now (Some src) e) k =
     (if k = live_key sm exch
      then deque_append (lc_maxlen cfg) (le_samples e k) \<lparr>sm_ts = now, sm_price = x, sm_cum = c, sm_src = Some src\<rparr>
      else le_samples e k)"
  using assms by (simp add: record_sample_def push_sample_def Let_def)

lemma record_sample_frame:
  assumes "k \<noteq> live_key sm exch"
  shows "le_samples (record_sample cfg sm exch p c now src e) k = le_samples e k"
    "le_primary_src (record_sample cfg sm exch p c now src e) k = le_primary_src e k"
    "le_primary_ts (record_sample cfg sm exch p c now src e) k = le_primary_ts e k"
  using assms by (auto simp: record_sample_def push_sample_def Let_def split: option.split)

lemma record_row_frame:
  assumes "k \<noteq> live_key (fst p) ''NSE''"
  shows "le_samples (record_row cfg now e p) k = le_samples e k"
    "le_primary_src (record_row cfg now e p) k = le_primary_src e k"
    "le_primary_ts (record_row cfg now e p) k = le_primary_ts e k"
  using record_sample_frame[OF assms] by (simp_all add: record_row_def)

lemma record_rows_frame:
  assumes "k \<notin> (\<lambda>p. live_key (fst p) ''NSE'') ` set rows"
  shows "le_samples (foldl (record_row cfg now) e rows) k = le_samples e k \<and>
    le_primary_src (foldl (record_row cfg now) e rows) k = le_primary_src e k \<and>
    le_primary_ts (foldl (record_row cfg now) e rows) k = le_primary_ts e k"
  using assms by (induction rows rule: rev_induct) (auto simp: record_row_frame)

lemma build_samples [simp]: "le_samples (snd (build sm exch s l now e)) = le_samples e"
  by (simp add: build_def touch_read_def Let_def)

lemma flush_samples [simp]: "le_samples (fst (snd (flush_live_to_store sm exch now ok e db))) = le_samples e"
  by (simp add: flush_live_to_store_def Let_def split_beta)

lemma flush_all_samples: "le_samples (fst (foldl (flush_one fl) st ss)) = le_samples (fst st)"
  by (induction ss arbitrary: st) (auto simp: flush_one_def)

lemma flush_reach: "live_reach cfg e \<Longrightarrow> live_reach cfg (fst (snd (flush_live_to_store sm exch now ok e db)))"
  by (auto simp: flush_live_to_store_def Let_def split_beta intro: live_reach.built)

lemma flush_all_reach: "live_reach cfg (fst st) \<Longrightarrow> live_reach cfg (fst (foldl (flush_one fl) st ss))"
  by (induction ss arbitrary: st) (auto simp: flush_one_def flush_reach)

lemma record_rows_reach: "live_reach cfg e \<Longrightarrow> live_reach cfg (foldl (record_row cfg now) e rows)"
  by (induction rows rule: rev_induct) (auto simp: record_row_def intro: live_reach.sampled)

text \<open>A turn that is neither off-session nor empty; the recorder drives the engine through the engine's own operations,
  so the engine's invariants hold in its runs.\<close>

lemma watch_turn_rows:
  assumes "wl_running w" "wt_market n" "wl_symbols w \<noteq> []" "wt_rows n = Some rows"
  shows "\<exists>w' e' db'. watch_turn cfg n (w, e, db) = Some ((w', e', db'), wl_interval w) \<and> wl_ticks w' = wl_ticks w + 1 \<and>
    le_samples e' = le_samples (foldl (record_row cfg (wt_now n)) e rows) \<and> (live_reach cfg e \<longrightarrow> live_reach cfg e')"
proof (cases "wt_now n - wl_last_flush w \<ge> lc_flush_interval cfg")
  case True
  let ?e1 = "foldl (record_row cfg (wt_now n)) e rows"
  obtain e2 db2 where f: "foldl (flush_one (wt_flush n)) (?e1, db) (wl_symbols w) = (e2, db2)" by fastforce
  have "le_samples e2 = le_samples ?e1" using flush_all_samples[of "wt_flush n" "(?e1, db)" "wl_symbols w"] f by simp
  moreover have "live_reach cfg e \<Longrightarrow> live_reach cfg e2"
    using flush_all_reach[of cfg "(?e1, db)" "wt_flush n" "wl_symbols w"] record_rows_reach f by simp
  ultimately show ?thesis using assms True f by (simp add: watch_turn_def)
qed (use assms record_rows_reach in \<open>simp add: watch_turn_def\<close>)

lemma watch_turn_reach:
  assumes "watch_turn cfg n (w, e, db) = Some ((w', e', db'), d)" "live_reach cfg e"
  shows "live_reach cfg e'"
proof (cases "wt_market n \<and> wl_symbols w \<noteq> [] \<and> wt_rows n \<noteq> None")
  case True
  with assms watch_turn_rows[of w n _ cfg e db] show ?thesis
    by (cases "wl_running w") (auto simp: watch_turn_def)
qed (use assms in \<open>auto simp: watch_turn_def split: if_splits option.splits\<close>)

text \<open>A turn of the recorder in an open market adds to the tape of every quoted symbol exactly one sample, with the
  batch's price and cumulative volume and the turn's clock, unless another source owns that tape; the tapes of other
  symbols stay as they are, and the turn counts as one tick.\<close>

theorem watch_turn_records:
  assumes "wl_running w" "wt_market n" "wl_symbols w \<noteq> []" "wt_rows n = Some rows"
    and "distinct (map (\<lambda>p. upper (fst p)) rows)"
  shows "\<exists>w' e' db'. watch_turn cfg n (w, e, db) = Some ((w', e', db'), wl_interval w) \<and> wl_ticks w' = wl_ticks w + 1 \<and>
    (\<forall>k. k \<notin> (\<lambda>p. live_key (fst p) ''NSE'') ` set rows \<longrightarrow> le_samples e' k = le_samples e k) \<and>
    (\<forall>(s, row)\<in>set rows. \<forall>x. to_float (dget row ''price'') = Some x \<and> 0 < x \<and>
        \<not> owner_blocks cfg (live_key s ''NSE'') (wt_now n) tape_source e \<longrightarrow>
      le_samples e' (live_key s ''NSE'') =
        (if truthy_val (dget row ''price'')
         then deque_append (lc_maxlen cfg) (le_samples e (live_key s ''NSE''))
           \<lparr>sm_ts = wt_now n, sm_price = x, sm_cum = row_volume row, sm_src = Some tape_source\<rparr>
         else le_samples e (live_key s ''NSE'')))"
proof -
  let ?f = "record_row cfg (wt_now n)" and ?e1 = "foldl (record_row cfg (wt_now n)) e rows"
  obtain w' e' db' where t: "watch_turn cfg n (w, e, db) = Some ((w', e', db'), wl_interval w)" "wl_ticks w' = wl_ticks w + 1"
    "le_samples e' = le_samples ?e1"
    using watch_turn_rows[OF assms(1-4), of cfg e db] by blast
  have frame: "le_samples ?e1 k = le_samples e k" if "k \<notin> (\<lambda>p. live_key (fst p) ''NSE'') ` set rows" for k
    using record_rows_frame[OF that] by blast
  have hit: "le_samples ?e1 (live_key s ''NSE'') =
        (if truthy_val (dget row ''price'')
         then deque_append (lc_maxlen cfg) (le_samples e (live_key s ''NSE''))
           \<lparr>sm_ts = wt_now n, sm_price = x, sm_cum = row_volume row, sm_src = Some tape_source\<rparr>
         else le_samples e (live_key s ''NSE''))"
    if h: "(s, row) \<in> set rows" "to_float (dget row ''price'') = Some x" "0 < x"
      "\<not> owner_blocks cfg (live_key s ''NSE'') (wt_now n) tape_source e" for s row x
  proof -
    let ?k = "live_key s ''NSE''"
    obtain xs ys where rows: "rows = xs @ (s, row) # ys" using h(1) by (meson split_list)
    with assms(5) have out: "?k \<notin> (\<lambda>p. live_key (fst p) ''NSE'') ` set xs" "?k \<notin> (\<lambda>p. live_key (fst p) ''NSE'') ` set ys"
      by (auto simp: live_key_inj image_iff)
    let ?e0 = "foldl ?f e xs"
    have e0: "le_samples ?e0 ?k = le_samples e ?k" "owner_blocks cfg ?k (wt_now n) tape_source ?e0 = owner_blocks cfg ?k (wt_now n) tape_source e"
      using record_rows_frame[OF out(1), of cfg "wt_now n" e] by (auto simp: owner_blocks_def split: option.split)
    have "le_samples ?e1 ?k = le_samples (?f ?e0 (s, row)) ?k"
      using record_rows_frame[OF out(2), of cfg "wt_now n" "?f ?e0 (s, row)"] rows by simp
    then show ?thesis
      using h e0 record_sample_samples[OF h(3), of cfg s "''NSE''" "wt_now n" tape_source ?e0 "row_volume row" ?k]
      by (simp add: record_row_def)
  qed
  show ?thesis using t frame hit by (intro exI[of _ w'] exI[of _ e'] exI[of _ db']) auto
qed

definition demo_watch :: watch where
  "demo_watch = watch_start (new_watch ''tcs'' 1)"

definition demo_watch_tick :: watch_tick where
  "demo_watch_tick = \<lparr>wt_market = True, wt_rows = Some [(''TCS'', [(''price'', VInt 10), (''volume'', VInt 5)])], wt_now = 100,
     wt_flush = (\<lambda>_. (100, True))\<rparr>"

theorem watch_turn_records_witness:
  "\<exists>w' e' db'. watch_turn default_live_cfg demo_watch_tick (demo_watch, new_engine, demo_db) = Some ((w', e', db'), 1) \<and>
     wl_ticks w' = 1 \<and> map sm_price (le_samples e' ''NSE:TCS'') = [10]"
proof -
  have start: "wl_symbols demo_watch \<noteq> []" "wl_running demo_watch" "wl_interval demo_watch = 1" "wl_ticks demo_watch = 0"
    by (simp_all add: demo_watch_def new_watch_def watch_start_def env_watchlist_def strip_def is_space_def upper_def)
  have key: "live_key ''TCS'' ''NSE'' = ''NSE:TCS''" by code_simp
  from watch_turn_records[of demo_watch demo_watch_tick "[(''TCS'', [(''price'', VInt 10), (''volume'', VInt 5)])]" default_live_cfg
      new_engine demo_db] start
  obtain w' e' db' where r: "watch_turn default_live_cfg demo_watch_tick (demo_watch, new_engine, demo_db) = Some ((w', e', db'), 1)"
    "wl_ticks w' = 1" and
    s: "le_samples e' (live_key ''TCS'' ''NSE'') = deque_append 46000 (le_samples new_engine (live_key ''TCS'' ''NSE''))
      \<lparr>sm_ts = 100, sm_price = 10, sm_cum = row_volume [(''price'', VInt 10), (''volume'', VInt 5)], sm_src = Some tape_source\<rparr>"
    by (auto simp: demo_watch_tick_def owner_blocks_def new_engine_def default_live_cfg_def)
  have "map sm_price (le_samples e' ''NSE:TCS'') = [10]"
    using s by (simp add: key new_engine_def deque_append_room)
  with r show ?thesis by (intro exI conjI)
qed

end
