(* ===== verification/SystemApi.thy ===== *)
theory SystemApi
  imports QuoteApi LiveStack SbHistory Watchlist Host
begin

text \<open>
  The process around the endpoints: the life of the application in \<^verbatim>\<open>src/main.py\<close> (what start-up brings up, what the requests that
  reach the recorder change, what shutdown takes down), the headers of \<^verbatim>\<open>src/api/middleware/market_hours.py\<close>, and the status
  endpoints of \<^verbatim>\<open>src/api/endpoints/market.py\<close>, \<^verbatim>\<open>quotes.py\<close> and \<^verbatim>\<open>superbrain.py\<close>. A reply is the payload under \<^verbatim>\<open>data\<close>; the
  envelope with its time stamp is constant. What connects, answers or raises is an argument.
\<close>

section \<open>The life of the process\<close>

record process =
  ps_redis :: redis_mgr
  ps_db :: db_mgr
  ps_service :: "controller option"
  ps_watchdog :: bool
  ps_watch :: watch
  ps_warm :: bool
  ps_prune :: bool

definition new_process :: "string \<Rightarrow> secs \<Rightarrow> process" where
  "new_process watchlist interval =
     \<lparr>ps_redis = new_redis_mgr, ps_db = new_db_mgr, ps_service = None, ps_watchdog = False, ps_watch = new_watch watchlist interval,
      ps_warm = False, ps_prune = False\<rparr>"

text \<open>What start-up meets: the pool and the ping of Redis, the engine and the first query of the database, the switch of the
  watchdog.\<close>

record boot =
  bo_pool :: bool
  bo_ping :: bool
  bo_engine :: bool
  bo_select :: bool
  bo_watchdog :: "string option"

text \<open>An exception of the database is logged; the service is warmed in the background.\<close>

definition lifespan_start :: "warm_cfg \<Rightarrow> boot \<Rightarrow> process \<Rightarrow> process" where
  "lifespan_start cfg b p =
     (let w = (if wl_symbols (ps_watch p) \<noteq> [] then watch_start (ps_watch p) else ps_watch p)
      in p\<lparr>ps_redis := redis_connect (bo_pool b) (bo_ping b) (ps_redis p),
           ps_db := snd (db_connect (bo_engine b) (bo_select b) (ps_db p)),
           ps_watchdog := env_bool (bo_watchdog b) True,
           ps_watch := w,
           ps_warm := start_warm_cache cfg (wl_symbols w) (ps_warm p),
           ps_prune := True\<rparr>)"

definition lifespan_stop :: "process \<Rightarrow> process" where
  "lifespan_stop p =
     p\<lparr>ps_watch := watch_stop (ps_watch p), ps_redis := redis_disconnect (ps_redis p), ps_db := db_disconnect (ps_db p)\<rparr>"

text \<open>\<^verbatim>\<open>market_data_service.warm\<close>; \<open>ok\<close> is false when building the stack raises.\<close>

definition warm_service :: "cb_settings \<Rightarrow> source_flags \<Rightarrow> (string \<Rightarrow> string option) \<Rightarrow> bool \<Rightarrow> process \<Rightarrow> process" where
  "warm_service cb f res ok p =
     (if ok then p\<lparr>ps_service := Some (service_controller cb f res (ps_service p))\<rparr> else p)"

definition process_recorder :: "string \<Rightarrow> secs \<Rightarrow> bool \<Rightarrow> process \<Rightarrow> watch_status option \<times> process" where
  "process_recorder raw now market p =
     (let (r, w) = sb_recorder_set raw now market (ps_watch p) in (r, p\<lparr>ps_watch := w\<rparr>))"

record health_report =
  hr_status :: string
  hr_redis :: string
  hr_db :: string

definition up_down :: "bool \<Rightarrow> string" where
  "up_down ok = (if ok then ''up'' else ''down'')"

definition health_check :: "bool \<Rightarrow> bool \<Rightarrow> process \<Rightarrow> health_report" where
  "health_check ping select p =
     (let r = redis_health ping (ps_redis p); d = db_health select (ps_db p)
      in \<lparr>hr_status = Host.health_status r d, hr_redis = up_down r, hr_db = up_down d\<rparr>)"

text \<open>A running process, from start-up through requests to the recorder.\<close>

inductive process_run :: "warm_cfg \<Rightarrow> boot \<Rightarrow> process \<Rightarrow> process \<Rightarrow> bool" for cfg b p0 where
  up: "process_run cfg b p0 (lifespan_start cfg b p0)"
| warmed: "process_run cfg b p0 p \<Longrightarrow> process_run cfg b p0 (warm_service cb f res ok p)"
| recorder: "process_run cfg b p0 p \<Longrightarrow> process_run cfg b p0 (snd (process_recorder raw now market p))"

section \<open>Headers\<close>

fun session_text :: "session \<Rightarrow> string" where
  "session_text PRE_OPEN = ''PRE_OPEN''"
| "session_text CONTINUOUS_TRADING = ''CONTINUOUS_TRADING''"
| "session_text POST_CLOSE = ''POST_CLOSE''"
| "session_text AFTER_MARKET_CLOSE = ''AFTER_MARKET_CLOSE''"
| "session_text SESSION_CLOSED = ''CLOSED''"
| "session_text HOLIDAY = ''HOLIDAY''"
| "session_text WEEKEND = ''WEEKEND''"

text \<open>The clock is read once for the session and again for the open flag; the times of the reply stand as values.\<close>

definition market_headers :: "datetime \<Rightarrow> datetime \<Rightarrow> rat \<Rightarrow> datetime \<Rightarrow> (date_error + (string \<times> val) list)" where
  "market_headers t1 t2 elapsed t3 =
     (case get_market_session t1 None of Inl e \<Rightarrow> Inl e
      | Inr s \<Rightarrow> (case is_market_open t2 None of Inl e \<Rightarrow> Inl e
          | Inr m \<Rightarrow> Inr [(''X-Market-Session'', VStr (session_text s)), (''X-Market-Open'', VStr (if m then ''true'' else ''false'')),
              (''X-Response-Time-Ms'', VNum (py_round 1 elapsed)), (''X-Server-Time-IST'', VStr (isoformat t3))]))"

section \<open>Status endpoints\<close>

text \<open>\<open>None\<close> is the exception of a date beyond the calendar, or of a cache that is not connected.\<close>

definition market_status :: "datetime \<Rightarrow> secs \<Rightarrow> cache option \<Rightarrow> ((market_state \<times> kv_val option) \<times> cache) option" where
  "market_status now clk c =
     (case (get_market_state_dict now None, c) of
        (Some (Inr m), Some s) \<Rightarrow> (let (v, s') = get_market_status clk s in Some ((m, v), s'))
      | _ \<Rightarrow> None)"

definition cache_backend :: "redis_mgr \<Rightarrow> string" where
  "cache_backend m = (if rm_real m then ''redis'' else ''in_memory_fallback'')"

definition providers_status :: "redis_mgr \<Rightarrow> (string \<Rightarrow> secs \<times> health) \<Rightarrow> controller \<Rightarrow>
    (string \<times> (string \<times> Failover.health_status) list) \<times> controller" where
  "providers_status m env c =
     (let (r, c') = health_check_all env c in ((cache_backend m, (case r of Inl _ \<Rightarrow> [] | Inr xs \<Rightarrow> xs)), c'))"

definition sources_list :: "secs \<Rightarrow> controller \<Rightarrow> provider_status list \<times> controller" where
  "sources_list now c = (let (r, c') = list_status now c in ((case r of Inl _ \<Rightarrow> [] | Inr xs \<Rightarrow> xs), c'))"

text \<open>\<open>raised\<close> is the exception of building the stack.\<close>

definition source_test :: "string option \<Rightarrow> string \<Rightarrow> string \<Rightarrow> (string \<Rightarrow> string \<Rightarrow> 'q attempt) \<Rightarrow> controller \<Rightarrow>
    (string + 'q test_report) \<times> controller" where
  "source_test raised n sm env c =
     (case raised of Some e \<Rightarrow> (Inl (take 140 e), c)
      | None \<Rightarrow> (let (r, c') = test_provider n (env (upper (strip sm))) c in (Inr r, c')))"

definition details_endpoint :: "(string \<Rightarrow> bool) \<Rightarrow> (string \<Rightarrow> string \<Rightarrow> dict option) \<Rightarrow> string \<Rightarrow> string \<Rightarrow> controller \<Rightarrow>
    (http_error + dict) \<times> controller" where
  "details_endpoint conn det sm source c =
     (case get_details conn det (upper (strip sm)) source c of
        (Some (e # d), c') \<Rightarrow> (Inr (e # d), c')
      | (_, c') \<Rightarrow> (Inl 404, c'))"

definition analytics_endpoint :: "string \<Rightarrow> (string \<times> rat) list \<Rightarrow> http_error + analytics" where
  "analytics_endpoint yr candles = (case get_analytics yr candles of None \<Rightarrow> Inl 404 | Some a \<Rightarrow> Inr a)"

definition nse_full_endpoint :: "bool \<Rightarrow> string \<Rightarrow> json_result \<Rightarrow> json_result \<Rightarrow> dict option" where
  "nse_full_endpoint has_proxies sm j ti = quote_full has_proxies (upper (strip sm)) j ti"

definition options_endpoint :: "bool \<Rightarrow> string \<Rightarrow> json_result \<Rightarrow> dict option" where
  "options_endpoint has_proxies sm j = option_chain has_proxies (upper (strip sm)) j"

text \<open>\<open>master\<close> is the security master once loaded, \<open>None\<close> when loading raised.\<close>

definition get_isin :: "archive option \<Rightarrow> string \<Rightarrow> string option" where
  "get_isin master sm = (case master of None \<Rightarrow> None | Some a \<Rightarrow> isin_for a (canonical_symbol sm))"

record intervals_reply =
  iv_seconds :: "string list"
  iv_finest :: rat
  iv_cadence :: secs
  iv_minutes :: "string list"
  iv_ranges :: "string list"

definition sb_intervals :: "live_cfg \<Rightarrow> string list \<Rightarrow> intervals_reply" where
  "sb_intervals cfg minutes =
     \<lparr>iv_seconds = map fst seconds_intervals, iv_finest = Min (snd ` set seconds_intervals), iv_cadence = lc_sample_interval cfg,
      iv_minutes = sorted_list_of_set (set minutes), iv_ranges = map fst range_limit\<rparr>"

definition sb_cache_stats :: "('k, 'c) ttl_cache \<Rightarrow> ('k, 'c) ttl_cache \<Rightarrow> ttl_stats \<times> ttl_stats" where
  "sb_cache_stats past today = (cache_stats past, cache_stats today)"

section \<open>The proxy test\<close>

datatype 'a tried = Got 'a | Threw string

record egress_probe =
  pr_proxy :: string
  pr_ip :: "string option"
  pr_status :: "int option"
  pr_unlocked :: bool
  pr_error :: "string option"

text \<open>\<^verbatim>\<open>r.text[:1] in "{["\<close>: the empty text is in every text.\<close>

definition json_start :: "string \<Rightarrow> bool" where
  "json_start txt \<longleftrightarrow> contains_text ''{['' (take 1 txt)"

definition nse_unlocked :: "int \<Rightarrow> string \<Rightarrow> bool" where
  "nse_unlocked status txt \<longleftrightarrow> status = 200 \<and> json_start txt"

definition probe_proxy :: "string option \<Rightarrow> unit tried \<Rightarrow> string tried \<Rightarrow> (int \<times> string) tried \<Rightarrow> egress_probe" where
  "probe_proxy proxy session ip nse =
     (let o0 = \<lparr>pr_proxy = (case proxy of None \<Rightarrow> ''DIRECT'' | Some [] \<Rightarrow> ''DIRECT'' | Some (c # s) \<Rightarrow> the (mask_proxy (Some (c # s)))),
                pr_ip = None, pr_status = None, pr_unlocked = False, pr_error = None\<rparr>
      in case session of
           Threw e \<Rightarrow> o0\<lparr>pr_error := Some (''session:'' @ e)\<rparr>
         | Got _ \<Rightarrow>
             (let o1 = (case ip of Got t \<Rightarrow> o0\<lparr>pr_ip := Some (take 60 (strip t))\<rparr> | Threw e \<Rightarrow> o0\<lparr>pr_error := Some (''ip:'' @ e)\<rparr>)
              in case nse of
                   Got (status, txt) \<Rightarrow> o1\<lparr>pr_status := Some status, pr_unlocked := nse_unlocked status txt\<rparr>
                 | Threw e \<Rightarrow>
                     o1\<lparr>pr_error := Some (strip ((case pr_error o1 of None \<Rightarrow> [] | Some t \<Rightarrow> t) @ '' nse:'' @ e))\<rparr>))"

text \<open>\<open>go\<close> gives the outcome of the three steps through a proxy, \<open>None\<close> being the direct connection.\<close>

definition proxy_test :: "(string option \<Rightarrow> unit tried \<times> string tried \<times> (int \<times> string) tried) \<Rightarrow> string list \<Rightarrow> egress_probe \<times> egress_probe list \<times> bool" where
  "proxy_test go proxies =
     (let p = (\<lambda>x. case go x of (s, ip, nse) \<Rightarrow> probe_proxy x s ip nse); direct = p None; rest = map (p \<circ> Some) proxies
      in (direct, rest, list_ex pr_unlocked (direct # rest)))"

section \<open>What start-up guarantees\<close>

lemma watch_start_running: "wl_running w = wl_task w \<Longrightarrow> wl_running (watch_start w) = wl_task (watch_start w)"
  by (simp add: watch_start_def)

lemma recorder_keeps:
  "ps_redis (snd (process_recorder raw now market p)) = ps_redis p" "ps_db (snd (process_recorder raw now market p)) = ps_db p"
  "ps_warm (snd (process_recorder raw now market p)) = ps_warm p" "ps_prune (snd (process_recorder raw now market p)) = ps_prune p"
  by (simp_all add: process_recorder_def split_beta Let_def)

lemma warm_service_keeps:
  "ps_redis (warm_service cb f res ok p) = ps_redis p" "ps_db (warm_service cb f res ok p) = ps_db p"
  "ps_warm (warm_service cb f res ok p) = ps_warm p" "ps_watch (warm_service cb f res ok p) = ps_watch p"
  by (simp_all add: warm_service_def)

lemma recorder_watch:
  assumes "env_watchlist raw \<noteq> []"
  shows "wl_running (ps_watch (snd (process_recorder raw now market p)))"
    "wl_symbols (ps_watch (snd (process_recorder raw now market p))) \<noteq> []"
proof -
  have "map (\<lambda>s. upper (strip s)) (filter (\<lambda>s. strip s \<noteq> []) (env_watchlist raw)) \<noteq> []"
  proof -
    obtain x xs where "env_watchlist raw = x # xs" using assms by (cases "env_watchlist raw") auto
    moreover from this have "x \<in> set (env_watchlist raw)" by simp
    then have "strip x \<noteq> []" by (auto simp: env_watchlist_def strip_upper strip_upper_nonempty)
    ultimately show ?thesis by simp
  qed
  then show "wl_running (ps_watch (snd (process_recorder raw now market p)))"
    "wl_symbols (ps_watch (snd (process_recorder raw now market p))) \<noteq> []"
    using assms by (simp_all add: process_recorder_def sb_recorder_set_def Let_def split_beta set_watchlist_def watch_start_def)
qed

lemma recorder_refused: "env_watchlist raw = [] \<Longrightarrow> snd (process_recorder raw now market p) = p"
  by (simp add: process_recorder_def sb_recorder_set_def Let_def)

text \<open>C36: Start-up never depends on its databases. In every run of a fresh process, whatever Redis and the database do: a store is
  there, Redis itself exactly when it could be reached and the in-process one otherwise; the database manager is connected
  exactly when the first query went through; the report calls the process healthy exactly when the store and the database
  answer; the recorder runs exactly when it has symbols; and after shutdown nothing is connected and the recorder is off.\<close>

theorem process_serves:
  assumes "process_run cfg b (new_process watchlist interval) p"
  shows "rm_client (ps_redis p) = Some (if bo_pool b \<and> bo_ping b then Real else Memory) \<and>
    dm_engine (ps_db p) = (bo_engine b \<and> bo_select b) \<and>
    (hr_status (health_check ping select p) = ''healthy'' \<longleftrightarrow>
      (bo_pool b \<and> bo_ping b \<longrightarrow> ping) \<and> bo_engine b \<and> bo_select b \<and> select) \<and>
    (wl_running (ps_watch p) \<longleftrightarrow> wl_symbols (ps_watch p) \<noteq> []) \<and>
    rm_client (ps_redis (lifespan_stop p)) = None \<and> \<not> dm_engine (ps_db (lifespan_stop p)) \<and> \<not> wl_running (ps_watch (lifespan_stop p))"
proof -
  from assms have "rm_client (ps_redis p) = Some (if bo_pool b \<and> bo_ping b then Real else Memory) \<and>
      dm_engine (ps_db p) = (bo_engine b \<and> bo_select b) \<and> (wl_running (ps_watch p) \<longleftrightarrow> wl_symbols (ps_watch p) \<noteq> [])"
  proof (induction rule: process_run.induct)
    case up
    show ?case by (simp add: lifespan_start_def new_process_def new_redis_mgr_def new_db_mgr_def redis_connect_def db_connect_def
          new_watch_def watch_start_def Let_def)
  next
    case (warmed p cb f res ok)
    then show ?case by (simp add: warm_service_keeps)
  next
    case (recorder p raw now market)
    then show ?case
      using recorder_watch[of raw now market p] recorder_refused[of raw now market p]
      by (cases "env_watchlist raw = []") (simp_all add: recorder_keeps)
  qed
  then show ?thesis
    by (auto simp: health_check_def Host.health_status_def redis_health_def db_health_def lifespan_stop_def redis_disconnect_def
        db_disconnect_def watch_stop_def Let_def)
qed

theorem process_serves_witness:
  "\<exists>p. process_run demo_warm_cfg \<lparr>bo_pool = True, bo_ping = False, bo_engine = True, bo_select = True, bo_watchdog = None\<rparr> (new_process [] 1) p \<and>
     rm_client (ps_redis p) = Some Memory \<and> hr_status (health_check False True p) = ''healthy'' \<and> wl_symbols (ps_watch p) = [''TCS'']"
proof -
  let ?b = "\<lparr>bo_pool = True, bo_ping = False, bo_engine = True, bo_select = True, bo_watchdog = None\<rparr>"
  let ?p = "snd (process_recorder ''tcs'' 0 True (lifespan_start demo_warm_cfg ?b (new_process [] 1)))"
  have r: "process_run demo_warm_cfg ?b (new_process [] 1) ?p" by (intro process_run.recorder process_run.up)
  have e: "env_watchlist ''tcs'' = [''TCS'']" by code_simp
  have "map (\<lambda>s. upper (strip s)) (filter (\<lambda>s. strip s \<noteq> []) [''TCS'']) = [''TCS'']" by code_simp
  then have "wl_symbols (ps_watch ?p) = [''TCS'']"
    by (simp add: process_recorder_def sb_recorder_set_def e Let_def split_beta watch_start_def set_watchlist_def)
  with r process_serves[OF r, of False True] show ?thesis by (intro exI[of _ ?p]) simp
qed

text \<open>The warm loop is started at start-up only: a watchlist posted later is recorded and never warmed, although the warm cache
  documents that it wakes when a watchlist is active.\<close>

theorem late_watchlist_not_warmed:
  assumes "process_run cfg b (new_process [] interval) p" "wc_symbols cfg = []"
  shows "\<not> ps_warm p"
  using assms(1)
proof (induction rule: process_run.induct)
  case up
  have "env_watchlist [] = []" by code_simp
  with assms(2) show ?case by (simp add: lifespan_start_def new_process_def new_watch_def start_warm_cache_def warm_symbols_def Let_def)
qed (simp_all add: warm_service_keeps recorder_keeps)

section \<open>Headers and probes\<close>

text \<open>The two clock readings of the middleware agree whenever they fall into one session.\<close>

lemma headers_agree:
  assumes "session_at (dt_date t1) (dt_us t1) = session_at (dt_date t2) (dt_us t2)"
  shows "\<exists>h. market_headers t1 t2 elapsed t3 = Inr h \<and>
    (map_of h ''X-Market-Open'' = Some (VStr ''true'') \<longleftrightarrow>
      map_of h ''X-Market-Session'' \<in> {Some (VStr ''PRE_OPEN''), Some (VStr ''CONTINUOUS_TRADING''), Some (VStr ''POST_CLOSE'')})"
  using assms
  by (cases "session_at (dt_date t2) (dt_us t2)")
    (simp_all add: market_headers_def get_market_session_def is_market_open_def open_session_def)

lemma json_start_iff: "json_start s \<longleftrightarrow> s = [] \<or> hd s = CHR ''{'' \<or> hd s = CHR ''[''"
proof (cases s)
  case (Cons c cs)
  then show ?thesis by (auto simp: json_start_def)
qed (simp add: json_start_def)

text \<open>A blocked proxy whose site answers 200 with an empty body is reported as unlocked.\<close>

lemma empty_body_unlocks:
  "proxy_test (\<lambda>_. (Got (), Threw ''Timeout'', Got (200, []))) proxies =
     (probe_proxy None (Got ()) (Threw ''Timeout'') (Got (200, [])),
      map (\<lambda>x. probe_proxy (Some x) (Got ()) (Threw ''Timeout'') (Got (200, []))) proxies, True)"
  by (simp add: proxy_test_def probe_proxy_def nse_unlocked_def json_start_iff comp_def)

lemma proxy_test_any:
  "snd (snd (proxy_test go proxies)) \<longleftrightarrow>
     (\<exists>x\<in>insert None (Some ` set proxies). \<exists>ip txt. go x = (Got (), ip, Got (200, txt)) \<and> json_start txt)"
proof -
  have "pr_unlocked (case go x of (s, ip, nse) \<Rightarrow> probe_proxy x s ip nse) \<longleftrightarrow> (\<exists>ip txt. go x = (Got (), ip, Got (200, txt)) \<and> json_start txt)" for x
    by (cases "go x") (auto simp: probe_proxy_def nse_unlocked_def Let_def split: tried.splits prod.splits)
  then show ?thesis by (auto simp: proxy_test_def Let_def list_ex_iff)
qed

end
