(* ===== verification/IsoOrder.thy ===== *)
theory IsoOrder
  imports IsoTime "HOL-Library.List_Lexorder"
begin

text \<open>
  Comparing the ISO texts of two stamps in one zone is comparing their instants. The service relies on it wherever it sorts
  candles by \<^verbatim>\<open>timestamp\<close>, cuts a stamp to its first ten characters for the day, or compares a day of a query with today.
\<close>

section \<open>Texts of equal length\<close>

lemma append_less_append:
  fixes x y u v :: "'a::linorder list"
  assumes "length x = length y"
  shows "x @ u < y @ v \<longleftrightarrow> x < y \<or> (x = y \<and> u < v)"
  using assms by (induction x y rule: list_induct2) auto

text \<open>Two numbers of mixed radix.\<close>

lemma radix_less:
  fixes q r q' r' n :: int
  assumes "0 \<le> r" "r < n" "0 \<le> r'" "r' < n"
  shows "q * n + r < q' * n + r' \<longleftrightarrow> q < q' \<or> (q = q' \<and> r < r')"
proof -
  have up: "q * n + r < q' * n + r'" if "q < q'" "r < n" "0 \<le> r'" for q q' r r'
  proof -
    have "(q + 1) * n \<le> q' * n" using that(1) assms(1,2) by (intro mult_right_mono) auto
    then show ?thesis using that by (simp add: algebra_simps)
  qed
  show ?thesis using up[of q q' r r'] up[of q' q r' r] assms by (cases q q' rule: linorder_cases) auto
qed

lemma radix_eq:
  fixes q r q' r' n :: int
  assumes "0 \<le> r" "r < n" "0 \<le> r'" "r' < n"
  shows "q * n + r = q' * n + r' \<longleftrightarrow> q = q' \<and> r = r'"
  using radix_less[OF assms, of q q'] radix_less[OF assms(3,4,1,2), of q' q] by (cases q q' rule: linorder_cases) auto

lemma digit_less:
  assumes "0 \<le> a" "a < 10" "0 \<le> b" "b < 10"
  shows "char_of (nat (48 + a)) < char_of (nat (48 + b)) \<longleftrightarrow> a < (b :: int)"
proof -
  have "int (of_char (char_of (nat (48 + k)) :: char)) = 48 + k" if "0 \<le> k" "k < 10" for k :: int
    using digit_of_char(2)[OF that] by (metis of_nat_of_char)
  from this[OF assms(1,2)] this[OF assms(3,4)] show ?thesis
    unfolding less_char_def by linarith
qed

lemma pad_inj: "0 \<le> a \<Longrightarrow> a < 10 ^ n \<Longrightarrow> 0 \<le> b \<Longrightarrow> b < 10 ^ n \<Longrightarrow> pad n a = pad n b \<longleftrightarrow> a = b"
  by (metis digits_val_pad mult_zero_left add_0 option.inject)

lemma pad_less:
  "0 \<le> a \<Longrightarrow> a < 10 ^ n \<Longrightarrow> 0 \<le> b \<Longrightarrow> b < 10 ^ n \<Longrightarrow> pad n a < pad n b \<longleftrightarrow> a < b"
proof (induction n arbitrary: a b)
  case (Suc n)
  have d: "a div 10 < 10 ^ n" "b div 10 < 10 ^ n" "0 \<le> a div 10" "0 \<le> b div 10"
    using Suc.prems by (simp_all add: div_less_iff_less_mult mult.commute)
  have "pad (Suc n) a < pad (Suc n) b \<longleftrightarrow> a div 10 < b div 10 \<or> (a div 10 = b div 10 \<and> a mod 10 < b mod 10)"
    unfolding pad.simps(2) using append_less_append[of "pad n (a div 10)" "pad n (b div 10)"] Suc.IH[OF d(3,1,4,2)] pad_inj[OF d(3,1,4,2)]
      digit_less[of "a mod 10" "b mod 10"] by simp
  also have "\<dots> \<longleftrightarrow> a < b" using radix_less[of "a mod 10" 10 "b mod 10" "a div 10" "b div 10"] by simp
  finally show ?case .
qed (simp add: pad.simps)

section \<open>Days\<close>

definition fields_before :: "date \<Rightarrow> date \<Rightarrow> bool" where
  "fields_before d e \<longleftrightarrow> year d < year e \<or> (year d = year e \<and> (month d < month e \<or> (month d = month e \<and> day d < day e)))"

lemma month_step:
  assumes "1 \<le> m" "m < k" "k \<le> 12"
  shows "days_before_month y m + month_len y m \<le> days_before_month y k"
  using assms(2,3)
proof (induction k rule: int_gr_induct)
  case base
  then show ?case using days_before_month_Suc[of m y] assms(1) by simp
next
  case (step i)
  then show ?case using days_before_month_Suc[of i y] assms(1) month_len_pos(1)[of y i] by simp
qed

lemma year_end: "days_before_month y 12 + month_len y 12 = (if leap y then 366 else 365)"
  by (simp add: days_before_month_def month_len_def)

lemma in_year:
  assumes "1 \<le> m" "m \<le> 12" "d \<le> month_len y m"
  shows "days_before_month y m + d \<le> (if leap y then 366 else 365)"
proof (cases "m = 12")
  case False
  then show ?thesis using month_step[of m 12 y] year_end[of y] month_len_pos(1)[of y 12] assms by linarith
next
  case True
  then show ?thesis using assms(3) year_end[of y] by simp
qed

lemma days_before_month_nonneg: "0 \<le> days_before_month y m"
  by (simp add: days_before_month_def)

lemma day_in_year:
  assumes "valid_date d"
  shows "days_before_year (year d) < toordinal d" "toordinal d \<le> days_before_year (year d + 1)"
proof -
  have v: "1 \<le> day d" "day d \<le> month_len (year d) (month d)" "1 \<le> month d" "month d \<le> 12" using assms by (auto simp: valid_date_def)
  then show "days_before_year (year d) < toordinal d"
    using days_before_month_nonneg[of "year d" "month d"] by (simp add: toordinal_def)
  show "toordinal d \<le> days_before_year (year d + 1)"
    using days_before_year_Suc[of "year d"] in_year[OF v(3,4,2)] by (simp only: toordinal_def)
qed

lemma days_before_year_mono: "y \<le> z \<Longrightarrow> days_before_year y \<le> days_before_year z"
proof (induction z rule: int_ge_induct)
  case (step i)
  then show ?case using days_before_year_Suc[of i] by (simp split: if_splits)
qed simp

lemma earlier_fields:
  assumes "valid_date d" "valid_date e" "fields_before d e"
  shows "toordinal d < toordinal e"
proof (cases "year d < year e")
  case True
  then have "days_before_year (year d + 1) \<le> days_before_year (year e)" by (intro days_before_year_mono) simp
  then show ?thesis using day_in_year[OF assms(1)] day_in_year[OF assms(2)] by linarith
next
  case False
  then have y: "year d = year e" and md: "month d < month e \<or> (month d = month e \<and> day d < day e)"
    using assms(3) by (auto simp: fields_before_def)
  have "days_before_month (year d) (month d) + month_len (year d) (month d) \<le> days_before_month (year d) (month e)" if "month d < month e"
    using month_step[of "month d" "month e" "year d"] that assms(1,2) by (auto simp: valid_date_def)
  then show ?thesis using md y assms(1,2) by (auto simp: toordinal_def valid_date_def)
qed

lemma toordinal_less:
  assumes "valid_date d" "valid_date e"
  shows "toordinal d < toordinal e \<longleftrightarrow> fields_before d e"
proof
  assume less: "toordinal d < toordinal e"
  show "fields_before d e"
  proof (rule ccontr)
    assume n: "\<not> fields_before d e"
    then have "fields_before e d \<or> d = e" by (cases d; cases e) (auto simp: fields_before_def)
    then show False using earlier_fields[OF assms(2,1)] less by auto
  qed
qed (rule earlier_fields[OF assms])

lemma date_text_less:
  assumes "valid_date d" "valid_date e"
  shows "date_text d < date_text e \<longleftrightarrow> toordinal d < toordinal e"
proof -
  have v: "0 \<le> year d" "year d < 10 ^ 4" "0 \<le> month d" "month d < 10 ^ 2" "0 \<le> day d" "day d < 10 ^ 2" if "valid_date d" for d
    using that month_len_pos(2)[of "year d" "month d"] by (auto simp: valid_date_def)
  note d = v[OF assms(1)] and e = v[OF assms(2)]
  show ?thesis
    unfolding toordinal_less[OF assms] fields_before_def date_text_def
    by (simp add: append_less_append pad_less[OF d(1,2) e(1,2)] pad_inj[OF d(1,2) e(1,2)]
        pad_less[OF d(3,4) e(3,4)] pad_inj[OF d(3,4) e(3,4)] pad_less[OF d(5,6) e(5,6)])
qed

lemma date_text_eq: "valid_date d \<Longrightarrow> valid_date e \<Longrightarrow> date_text d = date_text e \<longleftrightarrow> toordinal d = toordinal e"
  using date_text_less[of d e] date_text_less[of e d] by force

section \<open>Clock times\<close>

text \<open>The clock time to the second.\<close>

definition clock_hms :: "int \<Rightarrow> string" where
  "clock_hms u =
     (let s = u div 1000000 in pad 2 (s div 3600) @ '':'' @ pad 2 (s div 60 mod 60) @ '':'' @ pad 2 (s mod 60))"

lemma clock_text_hms: "clock_text u = clock_hms u @ (if u mod 1000000 = 0 then [] else ''.'' @ pad 6 (u mod 1000000))"
  by (simp add: clock_text_def clock_hms_def Let_def)

lemma clock_parts:
  assumes "0 \<le> u" "u < day_us"
  obtains h m s where "clock_hms u = pad 2 h @ '':'' @ pad 2 m @ '':'' @ pad 2 s" "u div 1000000 = (h * 60 + m) * 60 + s"
    "0 \<le> h" "h < 24" "0 \<le> m" "m < 60" "0 \<le> s" "s < 60"
proof -
  define t where "t = u div 1000000"
  have t: "0 \<le> t" "t < 86400" using assms by (auto simp: t_def day_us_def us_of_def)
  have "t div 60 div 60 = t div 3600" using t(1) by (simp add: zdiv_zmult2_eq[symmetric])
  then have "u div 1000000 = (t div 3600 * 60 + t div 60 mod 60) * 60 + t mod 60" unfolding t_def[symmetric] by (metis div_mult_mod_eq)
  moreover have "0 \<le> t div 3600" "t div 3600 < 24" using t by auto
  ultimately show thesis by (rule that[rotated]) (simp_all add: clock_hms_def Let_def t_def)
qed

lemma clock_hms_less:
  assumes "0 \<le> u" "u < day_us" "0 \<le> v" "v < day_us"
  shows "clock_hms u @ x < clock_hms v @ y \<longleftrightarrow>
    u div 1000000 < v div 1000000 \<or> (u div 1000000 = v div 1000000 \<and> x < y)"
proof -
  obtain h m s where u: "clock_hms u = pad 2 h @ '':'' @ pad 2 m @ '':'' @ pad 2 s" "u div 1000000 = (h * 60 + m) * 60 + s"
      "0 \<le> h" "h < 24" "0 \<le> m" "m < 60" "0 \<le> s" "s < 60"
    by (rule clock_parts[OF assms(1,2)])
  obtain h' m' s' where v: "clock_hms v = pad 2 h' @ '':'' @ pad 2 m' @ '':'' @ pad 2 s'" "v div 1000000 = (h' * 60 + m') * 60 + s'"
      "0 \<le> h'" "h' < 24" "0 \<le> m'" "m' < 60" "0 \<le> s'" "s' < 60"
    by (rule clock_parts[OF assms(3,4)])
  have two: "pad 2 a < pad 2 b \<longleftrightarrow> a < b" "pad 2 a = pad 2 b \<longleftrightarrow> a = b" if "0 \<le> a" "a < 60" "0 \<le> b" "b < 60" for a b
    using that by (simp_all add: pad_less pad_inj)
  have hh: "h < 60" "h' < 60" using u(4) v(4) by simp_all
  have "clock_hms u @ x < clock_hms v @ y \<longleftrightarrow>
      h < h' \<or> (h = h' \<and> (m < m' \<or> (m = m' \<and> (s < s' \<or> (s = s' \<and> x < y)))))"
    unfolding u(1) v(1) append_assoc
    by (simp only: append_less_append length_pad list.size two[OF u(3) hh(1) v(3) hh(2)] two[OF u(5,6) v(5,6)] two[OF u(7,8) v(7,8)]
        less_irrefl simp_thms)
  also have "\<dots> \<longleftrightarrow> u div 1000000 < v div 1000000 \<or> (u div 1000000 = v div 1000000 \<and> x < y)"
    unfolding u(2) v(2) radix_less[OF u(7,8) v(7,8)] radix_less[OF u(5,6) v(5,6)]
      radix_eq[OF u(7,8) v(7,8)] radix_eq[OF u(5,6) v(5,6)] by blast
  finally show ?thesis .
qed

text \<open>With any text for the fraction that is ordered like it.\<close>

lemma clock_less:
  assumes "0 \<le> u" "u < day_us" "0 \<le> v" "v < day_us" "x < y \<longleftrightarrow> u mod 1000000 < v mod 1000000"
  shows "clock_hms u @ x < clock_hms v @ y \<longleftrightarrow> u < v"
  unfolding clock_hms_less[OF assms(1-4)] assms(5)
  using radix_less[of "u mod 1000000" 1000000 "v mod 1000000" "u div 1000000" "v div 1000000"] by simp

lemma fraction_less:
  assumes "0 \<le> f" "f < 1000000" "0 \<le> g" "g < 1000000" and z: "x = [] \<or> hd x < CHR ''.''"
  shows "(if f = 0 then [] else ''.'' @ pad 6 f) @ x < (if g = 0 then [] else ''.'' @ pad 6 g) @ x \<longleftrightarrow> f < g"
proof (cases "f = 0 \<or> g = 0")
  case True
  then show ?thesis using z assms(1,3) by (cases x) auto
next
  case False
  then show ?thesis using append_less_append[of "pad 6 f" "pad 6 g" x x] pad_less[of f 6 g] assms by simp
qed

lemma clock_text_less:
  assumes "0 \<le> u" "u < day_us" "0 \<le> v" "v < day_us" and z: "x = [] \<or> hd x < CHR ''.''"
  shows "clock_text u @ x < clock_text v @ x \<longleftrightarrow> u < v"
  unfolding clock_text_hms append_assoc
  by (intro clock_less assms fraction_less) simp_all

section \<open>Stamps\<close>

lemma offset_before_dot: "offset_text z = [] \<or> hd (offset_text z) < CHR ''.''"
  by (simp add: offset_text_def less_char_def split: option.split)

lemma stamp_order:
  assumes "valid_date d" "valid_date e" "x < y \<longleftrightarrow> u < (v :: int)"
  shows "date_text d @ ''T'' @ x < date_text e @ ''T'' @ y \<longleftrightarrow>
    before \<lparr>dt_date = d, dt_us = u, dt_tz = z\<rparr> \<lparr>dt_date = e, dt_us = v, dt_tz = z\<rparr>"
  using assms(3) by (simp add: append_less_append date_text_less[OF assms(1,2)] date_text_eq[OF assms(1,2)] before_def)

text \<open>Two stamps of one zone stand in the order of their texts.\<close>

lemma iso_text_order:
  assumes "datetime_ok s" "datetime_ok t" "dt_tz s = dt_tz t"
  shows "isoformat s < isoformat t \<longleftrightarrow> before s t"
proof -
  have "clock_text (dt_us s) @ offset_text (dt_tz t) < clock_text (dt_us t) @ offset_text (dt_tz t) \<longleftrightarrow> dt_us s < dt_us t"
    using assms offset_before_dot by (intro clock_text_less) (auto simp: datetime_ok_def)
  then show ?thesis
    unfolding isoformat_def assms(3) using assms(1,2) by (subst stamp_order) (auto simp: datetime_ok_def before_def)
qed

lemma before_timestamp:
  assumes "datetime_ok s" "datetime_ok t" "dt_tz s = Some k" "dt_tz t = Some k"
  shows "before s t \<longleftrightarrow> the (timestamp_us s) < the (timestamp_us t)"
proof -
  define D where "D = day_us"
  have b: "0 \<le> dt_us s" "dt_us s < D" "0 \<le> dt_us t" "dt_us t < D" using assms by (auto simp: datetime_ok_def D_def)
  have "(toordinal (dt_date s) - epoch_ordinal) * D + dt_us s < (toordinal (dt_date t) - epoch_ordinal) * D + dt_us t \<longleftrightarrow> before s t"
  proof (cases "toordinal (dt_date s) = toordinal (dt_date t)")
    case False
    then consider "toordinal (dt_date s) + 1 \<le> toordinal (dt_date t)" | "toordinal (dt_date t) + 1 \<le> toordinal (dt_date s)" by linarith
    then show ?thesis
    proof cases
      case 1
      then have "(toordinal (dt_date s) + 1 - epoch_ordinal) * D \<le> (toordinal (dt_date t) - epoch_ordinal) * D"
        using b by (intro mult_right_mono) auto
      then show ?thesis using 1 b by (auto simp: before_def algebra_simps)
    next
      case 2
      then have "(toordinal (dt_date t) + 1 - epoch_ordinal) * D \<le> (toordinal (dt_date s) - epoch_ordinal) * D"
        using b by (intro mult_right_mono) auto
      then show ?thesis using 2 b by (auto simp: before_def algebra_simps)
    qed
  qed (simp add: before_def)
  then show ?thesis using assms(3,4) by (simp add: timestamp_us_def D_def)
qed

section \<open>Dates that exist\<close>

lemma find_month_valid:
  "find_month y n k = (m, d) \<Longrightarrow> k \<le> 11 \<Longrightarrow> 0 \<le> n \<Longrightarrow> n < (if k = 11 then 365 else days_before_month y (int k + 2)) \<Longrightarrow>
   1 \<le> m \<and> m \<le> 12 \<and> 1 \<le> d \<and> d \<le> month_len y m"
proof (induction k)
  case 0
  then show ?case by (auto simp: month_len_def days_before_month_def)
next
  case (Suc k)
  show ?case
  proof (cases "days_before_month y (int k + 2) \<le> n")
    case True
    then have md: "m = int k + 2" "d = n - days_before_month y (int k + 2) + 1" using Suc.prems(1) by auto
    have "n < days_before_month y m + month_len y m"
    proof (cases "k = 10")
      case False
      then show ?thesis using Suc.prems(2,4) days_before_month_Suc[of m y] by (simp add: md add.commute)
    qed (use Suc.prems(4) year_end[of y] in \<open>simp add: md split: if_splits\<close>)
    then show ?thesis using md True Suc.prems(2) by auto
  next
    case False
    then show ?thesis using Suc by auto
  qed
qed

lemma fromordinal_fields:
  obtains y m d where "fromordinal n = mk_date y m d" "1 \<le> m" "m \<le> 12" "1 \<le> d" "d \<le> month_len y m"
proof -
  define r1 where "r1 = (n - 1) mod 146097 mod 36524 mod 1461 mod 365"
  have r1: "0 \<le> r1" "r1 < 365" by (simp_all add: r1_def)
  define y where "y = (n - 1) div 146097 * 400 + (n - 1) mod 146097 div 36524 * 100 + (n - 1) mod 146097 mod 36524 div 1461 * 4 +
    (n - 1) mod 146097 mod 36524 mod 1461 div 365 + 1"
  obtain m d where md: "find_month y r1 11 = (m, d)" by fastforce
  have "fromordinal n = mk_date (y - 1) 12 31 \<or> fromordinal n = mk_date y m d"
    using md unfolding fromordinal_def Let_def r1_def[symmetric] y_def[symmetric] by simp
  then show thesis
  proof
    assume "fromordinal n = mk_date (y - 1) 12 31"
    then show thesis by (rule that) (simp_all add: month_len_def)
  next
    assume "fromordinal n = mk_date y m d"
    then show thesis using find_month_valid[OF md] r1 by (intro that) auto
  qed
qed

lemma fromordinal_valid:
  assumes "0 < n" "n \<le> days_before_year 10000"
  shows "valid_date (fromordinal n)"
proof -
  obtain y m d where f: "fromordinal n = mk_date y m d" "1 \<le> m" "m \<le> 12" "1 \<le> d" "d \<le> month_len y m"
    by (rule fromordinal_fields)
  have ord: "n = days_before_year y + days_before_month y m + d"
    using fromordinal_toordinal[of n] f(1) by (simp add: toordinal_def mk_date_def)
  have "n \<le> days_before_year (y + 1)" using ord days_before_year_Suc[of y] in_year[OF f(2,3,5)] by linarith
  moreover have "days_before_year y < n" using ord f(4) days_before_month_nonneg[of y m] by linarith
  ultimately have "1 \<le> y \<and> y \<le> 9999"
    using days_before_year_mono[of "y + 1" 1] days_before_year_mono[of 10000 y] assms
    by (cases "y < 1"; cases "9999 < y") (auto simp: days_before_year_def)
  then show ?thesis using f by (simp add: valid_date_def mk_date_def)
qed

end
