(* ===== verification/Timeframes.thy ===== *)
theory Timeframes
  imports SbHistory IsoOrder
begin

text \<open>
  The candles of \<^verbatim>\<open>/sb/intraday\<close> as texts, and the check of every timeframe that \<^verbatim>\<open>scripts/military_test_v2.py\<close> runs
  against a server: no broken bar, every stamp in IST and later than the one before, sub-second bars with milliseconds, live
  bars on the grid of their width. Here the check is a function and the replies of the model pass it.
\<close>

section \<open>Stamps with a fixed precision\<close>

text \<open>\<^verbatim>\<open>isoformat(timespec="milliseconds")\<close> and \<^verbatim>\<open>isoformat(timespec="seconds")\<close> cut the clock time.\<close>

definition timespec_text :: "bool \<Rightarrow> datetime \<Rightarrow> string" where
  "timespec_text millis t =
     date_text (dt_date t) @ ''T'' @ clock_hms (dt_us t) @ (if millis then ''.'' @ pad 3 (dt_us t mod 1000000 div 1000) else []) @
     offset_text (dt_tz t)"

text \<open>The stamp of a live bar: \<^verbatim>\<open>datetime.fromtimestamp(idx * seconds, tz=IST)\<close>, with milliseconds for bars below a second.\<close>

definition live_stamp :: "rat \<Rightarrow> secs \<Rightarrow> string" where
  "live_stamp seconds t = timespec_text (seconds < 1) (fromtimestamp_us ist_offset (round_half_even (t * 1000000)))"

definition live_candle :: "rat \<Rightarrow> bar \<Rightarrow> scandle" where
  "live_candle seconds b =
     \<lparr>sc_ts = live_stamp seconds (b_time b), sc_open = Some (b_open b), sc_high = Some (b_high b), sc_low = Some (b_low b),
      sc_close = Some (b_close b), sc_vwap = None, sc_volume = Some (of_int (b_volume b)), sc_oi = Some 0\<rparr>"

section \<open>The check\<close>

definition ohlc_bad :: "scandle \<Rightarrow> string option" where
  "ohlc_bad c =
     (case (sc_open c, sc_high c, sc_low c, sc_close c) of
        (Some p, Some h, Some l, Some cl) \<Rightarrow>
          if h < l then Some ''high<low''
          else if \<not> (l \<le> p \<and> p \<le> h) then Some ''open out of range''
          else if \<not> (l \<le> cl \<and> cl \<le> h) then Some ''close out of range''
          else if (case sc_volume c of None \<Rightarrow> 0 | Some v \<Rightarrow> v) < 0 then Some ''neg volume''
          else None
      | _ \<Rightarrow> Some ''null OHLC'')"

text \<open>The counters of the loop and the stamp seen last.\<close>

record frame_check =
  fc_last :: "string option"
  fc_order :: nat
  fc_viol :: nat
  fc_zone :: nat
  fc_millis :: nat
  fc_align :: nat

definition frame_start :: frame_check where
  "frame_start = \<lparr>fc_last = None, fc_order = 0, fc_viol = 0, fc_zone = 0, fc_millis = 0, fc_align = 0\<rparr>"

text \<open>One candle; \<open>secs\<close> is the granularity that only live replies carry, and the result \<open>None\<close> is a stamp the ISO reader refuses.\<close>

definition frame_step :: "rat option \<Rightarrow> scandle \<Rightarrow> frame_check \<Rightarrow> frame_check option" where
  "frame_step secs c k =
     (let ts = sc_ts c; count = (\<lambda>b n. if b then Suc n else n);
          k1 = k\<lparr>fc_viol := count (ohlc_bad c \<noteq> None) (fc_viol k), fc_zone := count (\<not> contains_text ts ''+05:30'') (fc_zone k),
            fc_order := count (case fc_last k of None \<Rightarrow> False | Some l \<Rightarrow> l \<noteq> [] \<and> ts \<le> l) (fc_order k), fc_last := Some ts,
            fc_millis := count ((case secs of None \<Rightarrow> False | Some s \<Rightarrow> s < 1) \<and> CHR ''.'' \<notin> set (hd (split_on CHR ''+'' ts))) (fc_millis k)\<rparr>
      in case secs of None \<Rightarrow> Some k1
         | Some s \<Rightarrow>
             (case point_epoch ts of None \<Rightarrow> None
              | Some e \<Rightarrow> Some (k1\<lparr>fc_align := count (\<bar>e / s - py_round 0 (e / s)\<bar> > 1 / 1000000) (fc_align k1)\<rparr>)))"

fun frame_run :: "rat option \<Rightarrow> scandle list \<Rightarrow> frame_check \<Rightarrow> frame_check option" where
  "frame_run secs [] k = Some k"
| "frame_run secs (c # cs) k = Option.bind (frame_step secs c k) (frame_run secs cs)"

definition frame_passes :: "rat option \<Rightarrow> scandle list \<Rightarrow> bool" where
  "frame_passes secs cs \<longleftrightarrow>
     cs \<noteq> [] \<and>
     (case frame_run secs cs frame_start of
        None \<Rightarrow> False
      | Some k \<Rightarrow> fc_order k = 0 \<and> fc_viol k = 0 \<and> fc_zone k = 0 \<and> fc_millis k = 0 \<and> fc_align k = 0) \<and>
     (case secs of None \<Rightarrow> True | Some s \<Rightarrow> s \<in> {1 / 4, 1 / 2, 1, 5, 15, 30})"

text \<open>The stricter order and the more lenient bars of \<^verbatim>\<open>ohlc_integrity\<close> in \<^verbatim>\<open>scripts/military_test_v3.py\<close>: the number of bad
  bars, and whether the stamps of the bars without a null ascend.\<close>

definition has_null :: "scandle \<Rightarrow> bool" where
  "has_null c \<longleftrightarrow> None \<in> {sc_open c, sc_high c, sc_low c, sc_close c}"

definition integrity_bad :: "scandle \<Rightarrow> bool" where
  "integrity_bad c \<longleftrightarrow> has_null c \<or>
     (let p = the (sc_open c); h = the (sc_high c); l = the (sc_low c); cl = the (sc_close c)
      in \<not> (l \<le> h \<and> max p cl - 1 / 1000000 \<le> h \<and> l \<le> min p cl + 1 / 1000000))"

fun ascending_from :: "string \<Rightarrow> scandle list \<Rightarrow> bool" where
  "ascending_from prev [] = True"
| "ascending_from prev (c # cs) =
     (if has_null c then ascending_from prev cs else \<not> sc_ts c < prev \<and> ascending_from (sc_ts c) cs)"

definition ohlc_integrity :: "scandle list \<Rightarrow> nat \<times> bool" where
  "ohlc_integrity cs = (length (filter integrity_bad cs), ascending_from [] cs)"

section \<open>What the check comes to\<close>

definition candle_fine :: "rat option \<Rightarrow> scandle \<Rightarrow> bool" where
  "candle_fine secs c \<longleftrightarrow> ohlc_bad c = None \<and> contains_text (sc_ts c) ''+05:30'' \<and>
     (case secs of None \<Rightarrow> True
      | Some s \<Rightarrow> (s < 1 \<longrightarrow> CHR ''.'' \<in> set (hd (split_on CHR ''+'' (sc_ts c)))) \<and> (\<exists>i. point_epoch (sc_ts c) = Some (of_int i * s)))"

lemma frame_step_fine:
  assumes "candle_fine secs c" "case secs of None \<Rightarrow> True | Some s \<Rightarrow> 0 < s" "case fc_last k of None \<Rightarrow> True | Some l \<Rightarrow> l < sc_ts c"
  shows "frame_step secs c k = Some (k\<lparr>fc_last := Some (sc_ts c)\<rparr>)"
proof -
  have "\<not> (case fc_last k of None \<Rightarrow> False | Some l \<Rightarrow> l \<noteq> [] \<and> sc_ts c \<le> l)" using assms(3) by (auto split: option.splits)
  then show ?thesis
    using assms(1,2) by (cases secs) (auto simp: frame_step_def candle_fine_def Let_def py_round_def)
qed

lemma frame_run_fine:
  "list_all (candle_fine secs) cs \<Longrightarrow> sorted_wrt (<) (map sc_ts cs) \<Longrightarrow> (case secs of None \<Rightarrow> True | Some s \<Rightarrow> 0 < s) \<Longrightarrow>
   (case fc_last k of None \<Rightarrow> True | Some l \<Rightarrow> \<forall>c\<in>set cs. l < sc_ts c) \<Longrightarrow>
   frame_run secs cs k = Some (if cs = [] then k else k\<lparr>fc_last := Some (sc_ts (last cs))\<rparr>)"
proof (induction cs arbitrary: k)
  case (Cons c cs)
  have "frame_step secs c k = Some (k\<lparr>fc_last := Some (sc_ts c)\<rparr>)"
    using Cons.prems by (intro frame_step_fine) (auto split: option.splits)
  then show ?case using Cons.prems Cons.IH[of "k\<lparr>fc_last := Some (sc_ts c)\<rparr>"] by (simp add: split: if_splits)
qed simp

lemma frame_passes_fine:
  assumes "list_all (candle_fine secs) cs" "sorted_wrt (<) (map sc_ts cs)" "cs \<noteq> []"
    and "case secs of None \<Rightarrow> True | Some s \<Rightarrow> s \<in> {1 / 4, 1 / 2, 1, 5, 15, 30}"
  shows "frame_passes secs cs"
proof -
  have "case secs of None \<Rightarrow> True | Some s \<Rightarrow> 0 < s" using assms(4) by (auto split: option.splits)
  from frame_run_fine[OF assms(1,2) this, of frame_start] assms(3,4) show ?thesis by (simp add: frame_passes_def frame_start_def)
qed

lemma fine_not_bad: "candle_fine secs c \<Longrightarrow> \<not> integrity_bad c"
  by (auto simp: candle_fine_def ohlc_bad_def integrity_bad_def has_null_def split: option.splits if_splits)

lemma ascending_fine: "sorted_wrt (<) (map sc_ts cs) \<Longrightarrow> \<forall>c\<in>set cs. prev \<le> sc_ts c \<Longrightarrow> ascending_from prev cs"
  by (induction cs arbitrary: prev) (auto simp: not_less le_less)

lemma integrity_fine:
  assumes "list_all (candle_fine secs) cs" "sorted_wrt (<) (map sc_ts cs)"
  shows "ohlc_integrity cs = (0, True)"
  using assms ascending_fine[of cs "[]"] fine_not_bad by (auto simp: ohlc_integrity_def list_all_iff filter_empty_conv)

section \<open>Stamps in order\<close>

lemma mod_thousand: "(u mod 1000000) mod 1000 = (u mod 1000 :: int)"
  by (simp add: mod_mod_cancel)

definition whole_for :: "bool \<Rightarrow> datetime \<Rightarrow> bool" where
  "whole_for millis t \<longleftrightarrow> dt_us t mod (if millis then 1000 else 1000000) = 0"

text \<open>Reading a clock time with any fraction.\<close>

lemma timespec_seconds: "whole_for False t \<Longrightarrow> timespec_text False t = isoformat t"
  by (simp add: timespec_text_def isoformat_def whole_for_def clock_text_hms)

lemma millis_fraction:
  assumes "0 \<le> f" "f < 1000000" "f mod 1000 = 0"
  shows "parse_fraction (''.'' @ pad 3 (f div 1000)) = Some f"
proof -
  have k: "0 \<le> f div 1000" "f div 1000 < 10 ^ 3" using assms(1,2) by auto
  have "digits_val 0 (pad 3 (f div 1000) @ ''000'') = Some (f div 1000 * 1000)"
    by (simp only: digits_val_append digits_val_pad[OF k]) (simp add: is_digit_def less_eq_char_def)
  moreover have "f div 1000 * 1000 = f" using assms(3) by auto
  moreover have "list_all is_digit (pad 3 (f div 1000))" using pad_digits by (auto simp: list_all_iff)
  moreover have "pad 3 (f div 1000) \<noteq> []" by (metis length_pad list.size(3) zero_neq_numeral)
  ultimately show ?thesis by (simp add: parse_fraction_def)
qed

lemma parse_hms:
  assumes "0 \<le> u" "u < day_us" "parse_fraction fr = Some (u mod 1000000)"
  shows "parse_clock (clock_hms u @ fr) = Some u"
proof -
  obtain h m s where u: "clock_hms u = pad 2 h @ '':'' @ pad 2 m @ '':'' @ pad 2 s" "u div 1000000 = (h * 60 + m) * 60 + s"
      "0 \<le> h" "h < 24" "0 \<le> m" "m < 60" "0 \<le> s" "s < 60"
    by (rule clock_parts[OF assms(1,2)])
  have "((h * 60 + m) * 60 + s) * 1000000 + u mod 1000000 = u" unfolding u(2)[symmetric] by simp
  then show ?thesis unfolding u(1) append_assoc by (subst parse_clock_parts[OF u(3-8) assms(3)]) (rule arg_cong)
qed

lemma hms_in_clock: "c \<in> set (clock_hms u) \<Longrightarrow> in_clock c"
  using pad_digits by (auto simp: clock_hms_def Let_def in_clock_def)

lemma split_hms:
  assumes "\<forall>c\<in>set fr. in_clock c"
  shows "takeWhile in_clock (clock_hms u @ fr @ offset_text z) = clock_hms u @ fr"
    and "dropWhile in_clock (clock_hms u @ fr @ offset_text z) = offset_text z"
proof -
  have *: "takeWhile in_clock (offset_text z) = []" "dropWhile in_clock (offset_text z) = offset_text z"
    using offset_not_clock[of z] by (cases "offset_text z"; simp)+
  show "takeWhile in_clock (clock_hms u @ fr @ offset_text z) = clock_hms u @ fr"
    using hms_in_clock[of _ u] assms * by (simp add: takeWhile_append2)
  show "dropWhile in_clock (clock_hms u @ fr @ offset_text z) = offset_text z"
    using hms_in_clock[of _ u] assms * by (simp add: dropWhile_append2)
qed

definition fraction_of :: "bool \<Rightarrow> datetime \<Rightarrow> string" where
  "fraction_of millis t = (if millis then ''.'' @ pad 3 (dt_us t mod 1000000 div 1000) else [])"

lemma fraction_of_parse: "whole_for millis t \<Longrightarrow> parse_fraction (fraction_of millis t) = Some (dt_us t mod 1000000)"
  using millis_fraction[of "dt_us t mod 1000000"] by (auto simp: fraction_of_def whole_for_def mod_thousand parse_fraction_def)

lemma fraction_of_clock: "\<forall>c\<in>set (fraction_of millis t). in_clock c"
  using pad_digits by (auto simp: fraction_of_def in_clock_def)

lemma timespec_parts: "timespec_text millis t = date_text (dt_date t) @ ''T'' @ clock_hms (dt_us t) @ fraction_of millis t @ offset_text (dt_tz t)"
  by (simp add: timespec_text_def fraction_of_def)

lemma timespec_parse:
  assumes "datetime_ok t" "whole_for millis t"
  shows "fromisoformat (timespec_text millis t) = Some t"
proof -
  have d: "take 10 (timespec_text millis t) = date_text (dt_date t)"
    "drop 11 (timespec_text millis t) = clock_hms (dt_us t) @ fraction_of millis t @ offset_text (dt_tz t)"
    by (simp_all add: timespec_parts)
  have len: "\<not> length (timespec_text millis t) \<le> 10" by (simp add: timespec_parts)
  show ?thesis
    using assms unfolding fromisoformat_def d split_hms[OF fraction_of_clock] datetime_ok_def
    by (simp add: len parse_date_text parse_hms fraction_of_parse offset_text_offset)
qed

lemma fraction_of_less:
  assumes "whole_for millis s" "whole_for millis t"
  shows "fraction_of millis s @ x < fraction_of millis t @ x \<longleftrightarrow> dt_us s mod 1000000 < dt_us t mod 1000000"
proof (cases millis)
  case True
  define f where "f = dt_us s mod 1000000"
  define g where "g = dt_us t mod 1000000"
  have m: "f mod 1000 = 0" "g mod 1000 = 0" using assms True by (simp_all add: f_def g_def whole_for_def mod_thousand)
  have b: "0 \<le> f div 1000" "f div 1000 < 10 ^ 3" "0 \<le> g div 1000" "g div 1000 < 10 ^ 3" by (simp_all add: f_def g_def)
  have q: "f div 1000 * 1000 = f" "g div 1000 * 1000 = g" using m by (metis add.right_neutral div_mult_mod_eq)+
  have "f < g \<longleftrightarrow> f div 1000 < g div 1000"
    using radix_less[of 0 1000 0 "f div 1000" "g div 1000"] unfolding q by simp
  then show ?thesis
    unfolding f_def[symmetric] g_def[symmetric] fraction_of_def
    using True append_less_append[of "pad 3 (f div 1000)" "pad 3 (g div 1000)" x x] pad_less[OF b] by simp
qed (use assms in \<open>simp add: fraction_of_def whole_for_def\<close>)

lemma timespec_less:
  assumes "datetime_ok s" "datetime_ok t" "dt_tz s = dt_tz t" "whole_for millis s" "whole_for millis t"
  shows "timespec_text millis s < timespec_text millis t \<longleftrightarrow> before s t"
proof -
  have "clock_hms (dt_us s) @ fraction_of millis s @ offset_text (dt_tz t) <
      clock_hms (dt_us t) @ fraction_of millis t @ offset_text (dt_tz t) \<longleftrightarrow> dt_us s < dt_us t"
    using assms by (intro clock_less fraction_of_less) (auto simp: datetime_ok_def)
  then show ?thesis
    unfolding timespec_parts assms(3) using assms(1,2) by (subst stamp_order) (auto simp: datetime_ok_def before_def)
qed

lemma contains_append: "contains_text y p \<Longrightarrow> contains_text (x @ y) p"
  by (induction x) (auto simp: contains_text.simps)

lemma ist_suffix: "offset_text (Some ist_offset) = ''+05:30''"
  by code_simp

lemma ist_contains: "contains_text (x @ offset_text (Some ist_offset)) ''+05:30''"
  unfolding ist_suffix by (rule contains_append) code_simp

lemma hd_split: "d \<notin> set x \<Longrightarrow> hd (split_on d (x @ d # y)) = x"
proof (induction x)
  case (Cons c x)
  then show ?case by (cases "split_on d (x @ d # y)") auto
qed simp

lemma no_plus: "CHR ''+'' \<notin> set (date_text d)" "CHR ''+'' \<notin> set (clock_hms u)" "CHR ''+'' \<notin> set (pad n k)"
  using pad_digits[of "CHR ''+''"] by (auto simp: date_text_def clock_hms_def Let_def is_digit_def less_eq_char_def)

lemma millis_shown: "dt_tz t = Some ist_offset \<Longrightarrow> CHR ''.'' \<in> set (hd (split_on CHR ''+'' (timespec_text True t)))"
proof -
  assume z: "dt_tz t = Some ist_offset"
  define x where "x = date_text (dt_date t) @ ''T'' @ clock_hms (dt_us t) @ fraction_of True t"
  have "timespec_text True t = x @ CHR ''+'' # ''05:30''" by (simp add: timespec_parts z ist_suffix x_def)
  moreover have "CHR ''+'' \<notin> set x" using no_plus by (auto simp: x_def fraction_of_def)
  ultimately show ?thesis by (simp add: hd_split) (simp add: x_def fraction_of_def)
qed

section \<open>Instants with a stamp\<close>

text \<open>From the epoch to the end of the year 9999 in IST, in microseconds.\<close>

definition stamped :: "int \<Rightarrow> bool" where
  "stamped u \<longleftrightarrow> 0 \<le> u \<and> u + us_of 0 ist_offset < (days_before_year 10000 - epoch_ordinal + 1) * day_us"

definition ist_time :: "int \<Rightarrow> datetime" where
  "ist_time u = fromtimestamp_us ist_offset u"

lemma ist_time_zone [simp]: "dt_tz (ist_time u) = Some ist_offset"
  by (simp add: ist_time_def fromtimestamp_us_def Let_def)

lemma ist_time_ok: "stamped u \<Longrightarrow> datetime_ok (ist_time u)"
proof -
  assume u: "stamped u"
  define D where "D = day_us"
  define l where "l = u + us_of 0 ist_offset"
  have D: "0 < D" by (simp add: D_def day_us_def us_of_def)
  have l: "0 \<le> l" "l < (days_before_year 10000 - epoch_ordinal + 1) * D"
    using u by (simp_all add: l_def D_def stamped_def us_of_def ist_offset_def)
  have "l div D * D \<le> l" using D by (simp add: minus_mod_eq_div_mult[symmetric])
  then have "l div D * D < (days_before_year 10000 - epoch_ordinal + 1) * D" using l(2) by linarith
  then have "l div D < days_before_year 10000 - epoch_ordinal + 1" using D by (simp only: mult_less_cancel_right_disj) auto
  moreover have "0 \<le> l div D" using l(1) D by (simp add: pos_imp_zdiv_nonneg_iff)
  ultimately have "valid_date (fromordinal (l div D + epoch_ordinal))" by (intro fromordinal_valid) (simp_all add: epoch_ordinal_def)
  then show ?thesis
    using D by (simp add: ist_time_def fromtimestamp_us_def Let_def datetime_ok_def flip: l_def D_def) (simp add: ist_offset_def)
qed

lemma ist_time_before: "stamped a \<Longrightarrow> stamped b \<Longrightarrow> before (ist_time a) (ist_time b) \<longleftrightarrow> a < b"
  using before_timestamp[OF ist_time_ok ist_time_ok ist_time_zone ist_time_zone, of a b]
  by (simp add: ist_time_def timestamp_fromtimestamp)

lemma ist_time_whole: "u mod (if millis then 1000 else 1000000) = 0 \<Longrightarrow> whole_for millis (ist_time u)"
proof -
  have "(u + us_of 0 ist_offset) mod day_us mod n = u mod n" if "n = 1000 \<or> n = 1000000" for n
  proof -
    have "(u + us_of 0 ist_offset) mod day_us mod n = (u + us_of 0 ist_offset) mod n"
      by (rule mod_mod_cancel) (use that in \<open>auto simp: day_us_def us_of_def\<close>)
    also have "\<dots> = u mod n" using that by (auto simp: us_of_def ist_offset_def mod_add_eq[of u, symmetric])
    finally show ?thesis .
  qed
  then show "u mod (if millis then 1000 else 1000000) = 0 \<Longrightarrow> whole_for millis (ist_time u)"
    by (auto simp: whole_for_def ist_time_def fromtimestamp_us_def Let_def split: if_splits)
qed

lemma point_epoch_stamp: "stamped u \<Longrightarrow> whole_for millis (ist_time u) \<Longrightarrow> point_epoch (timespec_text millis (ist_time u)) = Some (of_int u / 1000000)"
  by (simp add: point_epoch_def timespec_parse ist_time_ok) (simp add: ist_time_def timestamp_fromtimestamp)

section \<open>Live bars\<close>

definition all_timeframes :: "string list" where
  "all_timeframes = [''250ms'', ''500ms'', ''1s'', ''5s'', ''15s'', ''30s'', ''1m'', ''2m'', ''5m'', ''15m'', ''30m'', ''1h'']"

lemma live_width:
  assumes "tf \<in> set all_timeframes" "map_of seconds_intervals tf = Some s"
  obtains w where "0 < w" "of_int w = s * 1000000" "w mod (if s < 1 then 1000 else 1000000) = 0" "s \<in> {1 / 4, 1 / 2, 1, 5, 15, 30}"
proof -
  have "s \<in> {1 / 4, 1 / 2, 1, 5, 15, 30}"
    using assms by (auto simp: all_timeframes_def seconds_intervals_def split: if_splits)
  then show thesis
    using that[of 250000] that[of 500000] that[of 1000000] that[of 5000000] that[of 15000000] that[of 30000000] by auto
qed

definition tape_fine :: "sample list \<Rightarrow> bool" where
  "tape_fine xs \<longleftrightarrow> sorted (map sm_ts xs) \<and> (\<forall>x\<in>set xs. stamped \<lfloor>sm_ts x * 1000000\<rfloor>)"

lemma built_bars:
  assumes "sorted (map sm_ts xs)" "0 < s" and bars: "bars = map (cell_bar s) (last_n limit (build_cells s xs))"
  shows "sorted_wrt (<) (map b_time bars)"
    and "b \<in> set bars \<Longrightarrow> bar_ok b \<and> (\<exists>x\<in>set xs. b_time b = of_int \<lfloor>sm_ts x / s\<rfloor> * s)"
proof -
  let ?pts = "live_points s None None xs"
  have nn: "\<forall>(i, p, v)\<in>set ?pts. 0 \<le> v" using live_points_nonneg by fast
  have "sorted_wrt (<) (map fst (build_cells s xs))"
    unfolding build_cells_points using live_points_sorted[OF assms(1,2)] by (rule bucket_points_sorted)
  then have "sorted_wrt (<) (map fst (last_n limit (build_cells s xs)))" by (metis last_n_map sorted_wrt_last_n)
  then show "sorted_wrt (<) (map b_time bars)"
    using assms(2) unfolding bars by (simp add: sorted_wrt_map cell_bar_def split_beta)
  show "bar_ok b \<and> (\<exists>x\<in>set xs. b_time b = of_int \<lfloor>sm_ts x / s\<rfloor> * s)" if b: "b \<in> set bars"
  proof -
    obtain i c where c: "b = cell_bar s (i, c)" "(i, c) \<in> set (bucket_points ?pts)"
      using b set_last_n[of limit "build_cells s xs"] by (auto simp: bars build_cells_points)
    have "i \<in> fst ` set ?pts" using c(2) bucket_points_keys[of ?pts] by force
    then have "i \<in> (\<lambda>x. \<lfloor>sm_ts x / s\<rfloor>) ` set xs" using live_points_index[of s None None xs] by (metis image_set)
    then show ?thesis using bucket_cells_ok[OF nn c(2)] by (auto simp: c(1) cell_bar_ok)
  qed
qed

lemma grid_stamped:
  assumes "stamped \<lfloor>t * 1000000\<rfloor>" "0 < w" "of_int w = s * 1000000"
  shows "stamped (\<lfloor>t / s\<rfloor> * w)"
proof -
  have s: "0 < s" using assms(2,3) by (metis of_int_0_less_iff zero_less_mult_pos2 zero_less_numeral)
  have "of_int (\<lfloor>t / s\<rfloor> * w) = of_int \<lfloor>t / s\<rfloor> * s * 1000000" by (simp add: assms(3))
  also have "\<dots> \<le> t / s * s * 1000000" using s by (intro mult_right_mono of_int_floor_le) auto
  finally have "of_int (\<lfloor>t / s\<rfloor> * w) \<le> t * 1000000" using s by simp
  then have le: "\<lfloor>t / s\<rfloor> * w \<le> \<lfloor>t * 1000000\<rfloor>" by (simp only: le_floor_iff)
  have "0 \<le> t" using assms(1) by (simp add: stamped_def)
  then have "0 \<le> \<lfloor>t / s\<rfloor>" using s by simp
  then show ?thesis using le assms(1,2) by (simp add: stamped_def)
qed

lemma live_stamp_grid:
  assumes "of_int w = s * 1000000"
  shows "live_stamp s (of_int i * s) = timespec_text (s < 1) (ist_time (i * w))"
proof -
  have "of_int i * s * 1000000 = of_int (i * w)" using assms by simp
  then show ?thesis unfolding live_stamp_def ist_time_def by (simp only: round_half_even_int)
qed

lemma bar_not_bad:
  assumes "bar_ok b" "sc_open c = Some (b_open b)" "sc_high c = Some (b_high b)" "sc_low c = Some (b_low b)" "sc_close c = Some (b_close b)"
    "sc_volume c = Some (of_int (b_volume b))"
  shows "ohlc_bad c = None"
  using assms by (auto simp: ohlc_bad_def bar_ok_def)

lemma live_candles_fine:
  assumes "tf \<in> set all_timeframes" "map_of seconds_intervals tf = Some s" "tape_fine xs"
    and bars: "bars = map (cell_bar s) (last_n limit (build_cells s xs))"
  shows "list_all (candle_fine (Some s)) (map (live_candle s) bars)" "sorted_wrt (<) (map sc_ts (map (live_candle s) bars))"
proof -
  obtain w where w: "0 < w" "of_int w = s * 1000000" "w mod (if s < 1 then 1000 else 1000000) = 0"
    by (rule live_width[OF assms(1,2)])
  have s: "0 < s" using w(1,2) by (metis of_int_0_less_iff zero_less_mult_pos2 zero_less_numeral)
  have xs: "sorted (map sm_ts xs)" using assms(3) by (simp add: tape_fine_def)
  have grid: "\<exists>i. b_time b = of_int i * s \<and> sc_ts (live_candle s b) = timespec_text (s < 1) (ist_time (i * w)) \<and> stamped (i * w) \<and>
      whole_for (s < 1) (ist_time (i * w))" if b: "b \<in> set bars" for b
  proof -
    obtain x where x: "x \<in> set xs" "b_time b = of_int \<lfloor>sm_ts x / s\<rfloor> * s" using built_bars(2)[OF xs s bars b] by blast
    let ?i = "\<lfloor>sm_ts x / s\<rfloor>"
    have "stamped (?i * w)" using grid_stamped[OF _ w(1,2)] x(1) assms(3) by (simp add: tape_fine_def)
    moreover have "?i * w mod (if s < 1 then 1000 else 1000000) = 0" using w(3) by (metis mod_mult_right_eq mult_zero_right mod_0)
    ultimately show ?thesis using x(2) live_stamp_grid[OF w(2), of ?i] ist_time_whole[of "?i * w" "s < 1"]
      by (intro exI[of _ ?i]) (simp add: live_candle_def)
  qed
  have "candle_fine (Some s) (live_candle s b)" if b: "b \<in> set bars" for b
  proof -
    obtain i where i: "b_time b = of_int i * s" "sc_ts (live_candle s b) = timespec_text (s < 1) (ist_time (i * w))" "stamped (i * w)"
        "whole_for (s < 1) (ist_time (i * w))" using grid[OF b] by blast
    have "ohlc_bad (live_candle s b) = None"
      using built_bars(2)[OF xs s bars b] by (intro bar_not_bad[of b]) (simp_all add: live_candle_def)
    moreover have "contains_text (sc_ts (live_candle s b)) ''+05:30''"
      unfolding i(2) timespec_parts ist_time_zone append_assoc[symmetric] by (rule ist_contains)
    moreover have "point_epoch (sc_ts (live_candle s b)) = Some (of_int i * s)"
      using point_epoch_stamp[OF i(3,4)] w(2) by (simp add: i(2))
    moreover have "CHR ''.'' \<in> set (hd (split_on CHR ''+'' (sc_ts (live_candle s b))))" if "s < 1"
      using millis_shown[OF ist_time_zone, of "i * w"] that by (simp add: i(2))
    ultimately show ?thesis by (auto simp: candle_fine_def)
  qed
  then show "list_all (candle_fine (Some s)) (map (live_candle s) bars)" by (simp add: list_all_iff)
  have step: "sc_ts (live_candle s a) < sc_ts (live_candle s b)" if ab: "a \<in> set bars" "b \<in> set bars" "b_time a < b_time b" for a b
  proof -
    obtain i where i: "b_time a = of_int i * s" "sc_ts (live_candle s a) = timespec_text (s < 1) (ist_time (i * w))" "stamped (i * w)"
        "whole_for (s < 1) (ist_time (i * w))" using grid[OF ab(1)] by blast
    obtain j where j: "b_time b = of_int j * s" "sc_ts (live_candle s b) = timespec_text (s < 1) (ist_time (j * w))" "stamped (j * w)"
        "whole_for (s < 1) (ist_time (j * w))" using grid[OF ab(2)] by blast
    have "i * w < j * w" using ab(3) s w(1) by (simp add: i(1) j(1))
    then show ?thesis
      unfolding i(2) j(2) using timespec_less[OF ist_time_ok[OF i(3)] ist_time_ok[OF j(3)] _ i(4) j(4)] ist_time_before[OF i(3) j(3)] by simp
  qed
  have "sorted_wrt (\<lambda>a b. b_time a < b_time b) bars" using built_bars(1)[OF xs s bars] by (simp add: sorted_wrt_map)
  then show "sorted_wrt (<) (map sc_ts (map (live_candle s) bars))"
    unfolding sorted_wrt_map map_map comp_def
    by (rule sorted_wrt_mono_rel[rotated]) (use step in blast)
qed

section \<open>Bars of a curve\<close>

text \<open>What the builder needs of a curve: IST stamps the ISO reader takes, in order, and no negative volume.\<close>

definition curve_fine :: "curve_point list option \<Rightarrow> bool" where
  "curve_fine pts \<longleftrightarrow>
     (case pts of None \<Rightarrow> True
      | Some ps \<Rightarrow> sorted (map cp_ts ps) \<and>
          (\<forall>p\<in>set ps. (\<exists>u. stamped u \<and> cp_ts p = isoformat (ist_time u)) \<and> (case cp_volume p of None \<Rightarrow> True | Some x \<Rightarrow> 0 \<le> x)))"

lemma point_epoch_iso: "stamped u \<Longrightarrow> point_epoch (isoformat (ist_time u)) = Some (of_int u / 1000000)"
  by (simp add: point_epoch_def fromisoformat_isoformat ist_time_ok) (simp add: ist_time_def timestamp_fromtimestamp)

lemma iso_ist_less: "stamped a \<Longrightarrow> stamped b \<Longrightarrow> isoformat (ist_time a) < isoformat (ist_time b) \<longleftrightarrow> a < b"
  by (simp add: iso_text_order ist_time_ok ist_time_before)

lemma curve_epochs:
  assumes "sorted (map cp_ts ps)" "\<forall>p\<in>set ps. \<exists>u. stamped u \<and> cp_ts p = isoformat (ist_time u)"
  shows "sorted (map (\<lambda>p. the (point_epoch (cp_ts p))) ps)"
proof -
  have "the (point_epoch (cp_ts p)) \<le> the (point_epoch (cp_ts q))" if pq: "p \<in> set ps" "q \<in> set ps" "cp_ts p \<le> cp_ts q" for p q
  proof -
    obtain a b where a: "stamped a" "cp_ts p = isoformat (ist_time a)" and b: "stamped b" "cp_ts q = isoformat (ist_time b)"
      using assms(2) pq(1,2) by blast
    have "a \<le> b" using iso_ist_less[OF b(1) a(1)] pq(3) by (simp add: a(2) b(2) not_less[symmetric])
    then show ?thesis by (simp add: a b point_epoch_iso divide_right_mono)
  qed
  then have "sorted_wrt (\<lambda>p q. cp_ts p \<le> cp_ts q) ps \<Longrightarrow> sorted_wrt (\<lambda>p q. the (point_epoch (cp_ts p)) \<le> the (point_epoch (cp_ts q))) ps"
    by (rule sorted_wrt_mono_rel)
  from this[OF assms(1)[unfolded sorted_map]] show ?thesis unfolding sorted_map .
qed

lemma sorted_map_filter:
  assumes "sorted (map f xs)" "\<And>x y a b. x \<in> set xs \<Longrightarrow> y \<in> set xs \<Longrightarrow> f x \<le> f y \<Longrightarrow> g x = Some a \<Longrightarrow> g y = Some b \<Longrightarrow> k a \<le> k b"
  shows "sorted (map k (List.map_filter g xs))"
  using assms
proof (induction xs)
  case (Cons x xs)
  have "sorted (map k (List.map_filter g xs))"
    by (rule Cons.IH) (use Cons.prems in \<open>simp, metis list.set_intros(2)\<close>)
  moreover have "k a \<le> k b" if "g x = Some a" "b \<in> set (List.map_filter g xs)" for a b
  proof -
    obtain y where "y \<in> set xs" "g y = Some b" using \<open>b \<in> _\<close> by (auto simp: map_filter_def)
    then show ?thesis using Cons.prems(1) by (intro Cons.prems(2)[of x y]) (auto simp: that(1))
  qed
  ultimately show ?case by (auto simp: map_filter_simps split: option.split)
qed (simp add: map_filter_simps)

lemma curve_bars:
  assumes "curve_fine (Some ps)" "0 < bs" and bars: "bars = points_to_ohlc (map curve_graph_point ps) bs limit"
  shows "sorted_wrt (<) (map b_time bars)" "\<forall>b\<in>set bars. bar_ok b \<and> (\<exists>i. b_time b = of_int i \<and> stamped (i * 1000000))"
proof -
  let ?pts = "List.map_filter (graph_point_of bs) (map curve_graph_point ps)"
  have fine: "sorted (map cp_ts ps)" "\<forall>p\<in>set ps. \<exists>u. stamped u \<and> cp_ts p = isoformat (ist_time u)"
      "\<forall>p\<in>set ps. case cp_volume p of None \<Rightarrow> True | Some x \<Rightarrow> 0 \<le> x"
    using assms(1) by (auto simp: curve_fine_def)
  have pt: "fst q = \<lfloor>the (point_epoch (cp_ts p)) / of_int bs\<rfloor> * bs \<and> 0 \<le> snd (snd q)"
    if "p \<in> set ps" "graph_point_of bs (curve_graph_point p) = Some q" for p q
    using that fine(3) by (auto simp: graph_point_of_def curve_graph_point_def split: option.splits if_splits dest!: bspec)
  have "sorted (map fst (List.map_filter (graph_point_of bs \<circ> curve_graph_point) ps))"
    by (rule sorted_map_filter[OF curve_epochs[OF fine(1,2)]]) (use pt assms(2) in \<open>auto intro!: mult_right_mono floor_mono divide_right_mono\<close>)
  then have sorted: "sorted_wrt (<) (map fst (bucket_points ?pts))"
    by (intro bucket_points_sorted) (simp add: map_filter_def filter_map comp_def)
  then have "sorted_wrt (<) (map fst (last_n limit (bucket_points ?pts)))" by (metis last_n_map sorted_wrt_last_n)
  then show "sorted_wrt (<) (map b_time bars)"
    using assms(2) by (simp add: bars points_to_ohlc_def sorted_wrt_map cell_bar_def split_beta)
  show "\<forall>b\<in>set bars. bar_ok b \<and> (\<exists>i. b_time b = of_int i \<and> stamped (i * 1000000))"
  proof
    fix b assume b: "b \<in> set bars"
    then obtain i c where c: "b = cell_bar 1 (i, c)" "(i, c) \<in> set (bucket_points ?pts)"
      using set_last_n[of limit "bucket_points ?pts"] by (auto simp: bars points_to_ohlc_def split: if_splits)
    have "i \<in> fst ` set ?pts" using c(2) bucket_points_keys[of ?pts] by force
    then obtain p q where p: "p \<in> set ps" "graph_point_of bs (curve_graph_point p) = Some q" "i = fst q" by (auto simp: map_filter_def)
    obtain u where u: "stamped u" "cp_ts p = isoformat (ist_time u)" using fine(2) p(1) by blast
    have "i = \<lfloor>(of_int u / 1000000) / (of_int bs :: rat)\<rfloor> * bs" using pt[OF p(1,2)] p(3) u by (simp add: point_epoch_iso)
    moreover have "stamped (\<lfloor>(of_int u / 1000000) / (of_int bs :: rat)\<rfloor> * (bs * 1000000))"
      by (rule grid_stamped) (use u(1) assms(2) in simp_all)
    ultimately have "stamped (i * 1000000)" by (simp add: mult.assoc)
    moreover have "gp_volume g = None \<or> 0 \<le> the (gp_volume g)" if "g \<in> set (map curve_graph_point ps)" for g
      using that fine(3) by (cases "gp_volume g") (auto simp: curve_graph_point_def dest!: bspec)
    then have "bar_ok b" by (rule points_to_ohlc_ok[OF _ b[unfolded bars]])
    ultimately show "bar_ok b \<and> (\<exists>i. b_time b = of_int i \<and> stamped (i * 1000000))" by (auto simp: c(1) cell_bar_def)
  qed
qed

lemma offset_is_ist:
  assumes "curve_fine (Some ps)"
  shows "bucket_offset ps bs t = ist_offset"
proof -
  have zone: "\<exists>d. fromisoformat (cp_ts p) = Some d \<and> dt_tz d = Some ist_offset" if "p \<in> set ps" for p
    using that assms by (auto simp: curve_fine_def fromisoformat_isoformat ist_time_ok)
  let ?P = "\<lambda>p. case graph_point_of bs (curve_graph_point p) of Some (i, _) \<Rightarrow> of_int i = t | None \<Rightarrow> False"
  show ?thesis
  proof (cases "filter ?P ps")
    case (Cons p qs)
    then have "p \<in> set ps" by (metis filter_is_subset list.set_intros(1) subsetD)
    then obtain d where "fromisoformat (cp_ts p) = Some d" "dt_tz d = Some ist_offset" using zone by blast
    with Cons show ?thesis by (simp add: bucket_offset_def)
  qed (simp add: bucket_offset_def)
qed

lemma curve_candles_fine:
  assumes "curve_fine (Some ps)" "0 < bs"
  shows "list_all (candle_fine None) (curve_candles ps bs limit)" "sorted_wrt (<) (map sc_ts (curve_candles ps bs limit))"
proof -
  define bars where "bars = points_to_ohlc (map curve_graph_point ps) bs limit"
  note b = curve_bars[OF assms bars_def]
  have stamp: "sc_ts (bar_candle ist_offset a) = isoformat (ist_time (i * 1000000))" if "b_time a = of_int i" for a i
    using that by (simp add: bar_candle_def ist_time_def)
  have cs: "curve_candles ps bs limit = map (bar_candle ist_offset) bars"
    by (simp add: curve_candles_def bars_def offset_is_ist[OF assms(1)])
  have "candle_fine None (bar_candle ist_offset a)" if a: "a \<in> set bars" for a
  proof -
    obtain i where i: "b_time a = of_int i" using b(2) a by blast
    have "ohlc_bad (bar_candle ist_offset a) = None" using b(2) a by (intro bar_not_bad[of a]) (simp_all add: bar_candle_def)
    moreover have "contains_text (sc_ts (bar_candle ist_offset a)) ''+05:30''"
      unfolding stamp[OF i] isoformat_def ist_time_zone append_assoc[symmetric] by (rule ist_contains)
    ultimately show ?thesis by (simp add: candle_fine_def)
  qed
  then show "list_all (candle_fine None) (curve_candles ps bs limit)" by (simp add: cs list_all_iff)
  have "sc_ts (bar_candle ist_offset a) < sc_ts (bar_candle ist_offset c)" if ac: "a \<in> set bars" "c \<in> set bars" "b_time a < b_time c" for a c
  proof -
    obtain i j where i: "b_time a = of_int i" "stamped (i * 1000000)" and j: "b_time c = of_int j" "stamped (j * 1000000)"
      using b(2) ac(1,2) by blast
    show ?thesis using ac(3) iso_ist_less[OF i(2) j(2)] by (simp add: stamp[OF i(1)] stamp[OF j(1)] i(1) j(1))
  qed
  moreover have "sorted_wrt (\<lambda>x y. b_time x < b_time y) bars" using b(1) by (simp add: sorted_wrt_map)
  ultimately have "sorted_wrt (\<lambda>x y. sc_ts (bar_candle ist_offset x) < sc_ts (bar_candle ist_offset y)) bars"
    by (rule sorted_wrt_mono_rel)
  then show "sorted_wrt (<) (map sc_ts (curve_candles ps bs limit))"
    unfolding cs sorted_wrt_map .
qed

section \<open>The endpoint\<close>

text \<open>A reply as the check sees it: its granularity, when it has one, and its candles.\<close>

fun reply_frame :: "string \<Rightarrow> intraday_reply \<Rightarrow> rat option \<times> scandle list" where
  "reply_frame tf (Durable s captured bars) = (let w = the (map_of seconds_intervals tf) in (Some w, map (live_candle w) bars))"
| "reply_frame tf (LiveBars s warming recording n bars) = (let w = the (map_of seconds_intervals tf) in (Some w, map (live_candle w) bars))"
| "reply_frame tf (Session s exch src cs) = (None, cs)"
| "reply_frame tf (Delayed code td cs) = (None, cs)"

definition from_exchange :: "intraday_reply \<Rightarrow> bool" where
  "from_exchange r \<longleftrightarrow> (case r of LiveBars s warming recording n bars \<Rightarrow> True | Session s exch src cs \<Rightarrow> True | _ \<Rightarrow> False)"

lemma latest_session_sorted: "sorted_wrt R (map ts cs) \<Longrightarrow> sorted_wrt R (map ts (latest_session_only ts cs))"
  by (simp add: latest_session_only_def sorted_wrt_map sorted_wrt_filter)

lemma session_fine:
  assumes "curve_fine pts" "0 < bs"
  shows "list_all (candle_fine None) (session_candles bs limit pts)" "sorted_wrt (<) (map sc_ts (session_candles bs limit pts))"
proof (atomize (full), cases pts)
  case (Some ps)
  define cs where "cs = curve_candles ps bs (curve_limit limit)"
  have c: "list_all (candle_fine None) cs" "sorted_wrt (<) (map sc_ts cs)"
    using curve_candles_fine[of ps bs "curve_limit limit"] assms Some by (simp_all add: cs_def)
  define latest where "latest = latest_session_only sc_ts cs"
  have "set latest \<subseteq> set cs" by (auto simp: latest_def latest_session_only_def)
  moreover have "set (limited limit latest) \<subseteq> set latest"
    by (auto simp: limited_def split: option.splits if_splits dest: subsetD[OF set_last_n])
  moreover have "sorted_wrt (<) (map sc_ts (limited limit latest))"
    using latest_session_sorted[OF c(2)] unfolding latest_def[symmetric]
    by (auto simp: limited_def simp flip: last_n_map intro: sorted_wrt_last_n split: option.split)
  moreover have "session_candles bs limit pts = limited limit latest" by (simp add: Some session_candles_def latest_def cs_def)
  ultimately show "list_all (candle_fine None) (session_candles bs limit pts) \<and> sorted_wrt (<) (map sc_ts (session_candles bs limit pts))"
    using c(1) by (auto simp: list_all_iff)
qed (simp add: session_candles_def)

lemma sampled_tape:
  assumes "tape_fine (le_samples e (live_key s exch))" "\<forall>x\<in>set (le_samples e (live_key s exch)). sm_ts x \<le> now" "stamped \<lfloor>now * 1000000\<rfloor>"
  shows "tape_fine (le_samples (snd (sample_once cfg s exch tk now (ensure_recorder s exch now' e))) (live_key s exch))"
proof -
  have drops: "tape_fine (drop n xs)" if "tape_fine xs" for n xs
    using that sorted_wrt_drop[of "(\<le>)" "map sm_ts xs" n] by (auto simp: tape_fine_def drop_map dest: in_set_dropD)
  have "tape_fine (le_samples e (live_key s exch) @ [x])" if "sm_ts x = now" for x
    using assms that by (auto simp: tape_fine_def sorted_append)
  then have "tape_fine (deque_append m (le_samples e (live_key s exch)) x)" if "sm_ts x = now" for m x
    using that drops by (simp add: deque_append_def Let_def del: drop_append)
  then show ?thesis
    using assms(1) by (auto simp: sample_once_def record_tick_def record_sample_def push_sample_def ensure_recorder_def touch_read_def Let_def split: option.split)
qed

text \<open>C22: Every reply of the intraday endpoint that comes from an exchange's curve or from the live tape passes the checks of the two
  military tests, for each of its twelve timeframes: no broken bar, stamps in IST that ascend strictly as texts, milliseconds on
  sub-second bars and live bars on the grid of their width. The curves have to be in order with volumes that are not negative,
  the samples in the order of a clock that does not step back.\<close>

theorem timeframes_pass:
  assumes "tf \<in> set all_timeframes" "sb_intraday cfg v sm exch tf limit None db e = (Inr r, e')"
    and "from_exchange r" "snd (reply_frame tf r) \<noteq> []"
    and "curve_fine (ie_tt v)" "curve_fine (ie_bse v)"
    and "tape_fine (le_samples e (live_key (canonical_symbol sm) exch))"
      "\<forall>x\<in>set (le_samples e (live_key (canonical_symbol sm) exch)). sm_ts x \<le> ie_clock v" "stamped \<lfloor>ie_clock v * 1000000\<rfloor>"
  shows "frame_passes (fst (reply_frame tf r)) (snd (reply_frame tf r)) \<and> ohlc_integrity (snd (reply_frame tf r)) = (0, True)"
proof (cases "map_of seconds_intervals tf")
  case (Some w)
  define e2 where "e2 = snd (sample_once cfg (canonical_symbol sm) exch (ie_tick v) (ie_clock v) (ensure_recorder (canonical_symbol sm) exch (ie_clock v) e))"
  define xs where "xs = le_samples e2 (live_key (canonical_symbol sm) exch)"
  have xs: "tape_fine xs" unfolding xs_def e2_def by (rule sampled_tape[OF assms(7-9)])
  obtain bars n b1 b2 k where r: "r = LiveBars (canonical_symbol sm) b1 b2 k bars"
      "bars = fst (build (canonical_symbol sm) exch w n (ie_build_clock v) e2)"
    using assms(2) Some by (auto simp: sb_intraday_def sub_minute_def e2_def Let_def split_beta split: if_splits)
  have bars: "bars = map (cell_bar w) (last_n n (build_cells w xs))"
    using assms(4) r Some by (auto simp: build_def touch_read_def xs_def Let_def split: if_splits)
  obtain m where "w \<in> {1 / 4, 1 / 2, 1, 5, 15, 30}" by (rule live_width[OF assms(1) Some])
  then show ?thesis
    using live_candles_fine[OF assms(1) Some xs bars] assms(4)
    by (intro conjI frame_passes_fine integrity_fine) (simp_all add: r(1) Some)
next
  case None
  then obtain bs where bs: "map_of interval_seconds tf = Some bs" "0 < bs"
    using assms(1) by (auto simp: all_timeframes_def seconds_intervals_def interval_seconds_def)
  obtain s x src cs where r: "r = Session s x src cs" "cs = session_candles bs limit (ie_tt v) \<or> cs = session_candles bs limit (ie_bse v)"
    using assms(2,3) None bs(1) by (auto simp: sb_intraday_def Let_def from_exchange_def split_beta split: if_splits)
  then show ?thesis
    using session_fine[OF assms(5) bs(2)] session_fine[OF assms(6) bs(2)] assms(4) by (intro conjI frame_passes_fine integrity_fine[of None]) auto
qed

text \<open>A curve with two bars' worth of points and a third that does not count, in five-minute bars.\<close>

definition demo_us :: int where
  "demo_us = (toordinal (mk_date 2026 1 5) - epoch_ordinal) * day_us + us_of 3 45"

definition demo_curve :: "curve_point list" where
  "demo_curve = map (\<lambda>(k, p). \<lparr>cp_ts = isoformat (ist_time (demo_us + k * 60000000)), cp_price = p, cp_volume = Some 7\<rparr>)
     [(0, Some 100), (1, Some 99), (2, None), (6, Some 101)]"

definition demo_env :: intraday_env where
  "demo_env = \<lparr>ie_now = ist_time (demo_us + 600000000), ie_market = True, ie_clock = of_int demo_us / 1000000, ie_build_clock = of_int demo_us / 1000000,
     ie_store_ok = True, ie_tick = None, ie_tt = Some demo_curve, ie_bse = None, ie_yahoo = (\<lambda>c n. [])\<rparr>"

lemma demo_stamped: "stamped demo_us" "stamped (demo_us + 60000000)" "stamped (demo_us + 120000000)" "stamped (demo_us + 360000000)"
  by code_simp+

lemma last_n_Nil [simp]: "last_n n xs = [] \<longleftrightarrow> xs = []"
  by (cases xs) (auto simp: last_n_def)

lemma session_nonempty:
  assumes "p \<in> set ps" "point_epoch (cp_ts p) = Some e" "cp_price p = Some x" "0 < x" "0 < bs"
  shows "session_candles bs None (Some ps) \<noteq> []"
proof -
  let ?pts = "List.map_filter (graph_point_of bs) (map curve_graph_point ps)"
  obtain q where "graph_point_of bs (curve_graph_point p) = Some q" using assms by (simp add: graph_point_of_def curve_graph_point_def)
  then have "q \<in> set ?pts" using assms(1) by (cases q) (auto simp: map_filter_def filter_map image_iff comp_def intro!: exI[of _ p])
  then have "set ?pts \<noteq> {}" by auto
  then have "bucket_points ?pts \<noteq> []" using bucket_points_keys[of ?pts] by force
  then have "curve_candles ps bs n \<noteq> []" for n using assms(1,5) by (auto simp: curve_candles_def points_to_ohlc_def)
  then show ?thesis by (simp add: session_candles_def latest_session_only_def limited_def filter_empty_conv) (use last_in_set in blast)
qed

lemma demo_curve_fine: "curve_fine (Some demo_curve)"
  using demo_stamped iso_ist_less by (auto simp: curve_fine_def demo_curve_def le_less)

theorem timeframes_pass_witness:
  "\<exists>cs. fst (sb_intraday default_live_cfg demo_env ''tcs'' ''NSE'' ''5m'' None None demo_db new_engine) = Inr (Session ''TCS'' ''NSE'' ''tickertape_realtime_nse'' cs) \<and>
     cs \<noteq> [] \<and> frame_passes None cs \<and> ohlc_integrity cs = (0, True)"
proof -
  define cs where "cs = session_candles 300 None (Some demo_curve)"
  have ne: "cs \<noteq> []" unfolding cs_def
    by (rule session_nonempty[of "hd demo_curve" _ "of_int demo_us / 1000000" 100]) (use point_epoch_iso[OF demo_stamped(1)] in \<open>simp_all add: demo_curve_def\<close>)
  have sym: "canonical_symbol ''tcs'' = ''TCS''" "\<not> reject_index ''tcs''" by code_simp+
  have tf: "''5m'' \<in> set all_timeframes" "map_of seconds_intervals ''5m'' = None" "map_of interval_seconds ''5m'' = Some 300" by code_simp+
  have r: "sb_intraday default_live_cfg demo_env ''tcs'' ''NSE'' ''5m'' None None demo_db new_engine =
      (Inr (Session ''TCS'' ''NSE'' ''tickertape_realtime_nse'' cs), new_engine)"
    using ne by (simp add: sb_intraday_def sym tf demo_env_def cs_def Let_def)
  have "frame_passes (fst (reply_frame ''5m'' (Session ''TCS'' ''NSE'' ''tickertape_realtime_nse'' cs)))
      (snd (reply_frame ''5m'' (Session ''TCS'' ''NSE'' ''tickertape_realtime_nse'' cs))) \<and>
      ohlc_integrity (snd (reply_frame ''5m'' (Session ''TCS'' ''NSE'' ''tickertape_realtime_nse'' cs))) = (0, True)"
    by (rule timeframes_pass[OF tf(1) r]) (use ne demo_curve_fine demo_stamped(1) in
        \<open>simp_all add: from_exchange_def demo_env_def curve_fine_def tape_fine_def new_engine_def\<close>)
  then show ?thesis using ne by (simp add: r)
qed

end
