(* ===== verification/HistoryDay.thy ===== *)
theory HistoryDay
  imports Timeframes
begin

text \<open>
  Whose bars \<^verbatim>\<open>/sb/history\<close> serves for the current day. The two caches behind the endpoint are taken in any
  state that the requests of a set can have left them in, whatever way their cache operations interleave
  (\<open>hist_reach\<close>); the bars of a day are defined from the exchanges' curves, with no loop (\<open>exchange_bars\<close>). Proved:
  the stamps and prices of an intraday reply's bars of the day are those of the exchange curve, of the right day; the
  earlier bars are those of the history feed before today; and the period is exactly the one asked for, as far back as
  the feed goes.
\<close>

section \<open>The bars of a day by definition\<close>

definition curve_stamped :: "curve_point list \<Rightarrow> bool" where
  "curve_stamped ps \<longleftrightarrow> (\<forall>p\<in>set ps. \<exists>u. stamped u \<and> cp_ts p = isoformat (ist_time u))"

definition priced :: "curve_point \<Rightarrow> bool" where
  "priced p \<longleftrightarrow> (case cp_price p of Some x \<Rightarrow> 0 < x | None \<Rightarrow> False)"

text \<open>The start of the bar a point falls in, in seconds.\<close>

definition bar_start :: "int \<Rightarrow> curve_point \<Rightarrow> int" where
  "bar_start bs p = \<lfloor>the (point_epoch (cp_ts p)) / of_int bs\<rfloor> * bs"

definition curve_bar :: "int \<Rightarrow> curve_point list \<Rightarrow> int \<Rightarrow> scandle" where
  "curve_bar bs pts i =
     (let ps = filter (\<lambda>p. priced p \<and> bar_start bs p = i) pts; prices = map (\<lambda>p. the (cp_price p)) ps
      in \<lparr>sc_ts = isoformat (ist_time (i * 1000000)), sc_open = Some (py_round 2 (hd prices)),
          sc_high = Some (py_round 2 (Max (set prices))), sc_low = Some (py_round 2 (Min (set prices))),
          sc_close = Some (py_round 2 (last prices)), sc_vwap = None,
          sc_volume = Some (of_int (py_trunc (\<Sum>p\<leftarrow>ps. case cp_volume p of None \<Rightarrow> 0 | Some v \<Rightarrow> v))), sc_oi = Some 0\<rparr>)"

definition bar_starts :: "int \<Rightarrow> curve_point list \<Rightarrow> int list" where
  "bar_starts bs pts = first_seen (map (bar_start bs) (filter priced pts))"

text \<open>The curve the exchanges gave to a request: Tickertape's, and the one of BSE when that has no point. Of it only the
  points of the request's own day count, and only when the curve is of that day, that is when it ends on it.\<close>

definition exchange_curve :: "hist_env \<Rightarrow> curve_point list" where
  "exchange_curve w = (case he_tt w of Some (p # ps) \<Rightarrow> p # ps | _ \<Rightarrow> (case he_bse w of Some ps \<Rightarrow> ps | None \<Rightarrow> []))"

definition todays_points :: "hist_env \<Rightarrow> curve_point list" where
  "todays_points w =
     (let ps = exchange_curve w; d = day_text (he_now w)
      in if ps \<noteq> [] \<and> take 10 (cp_ts (last ps)) = d then filter (\<lambda>p. take 10 (cp_ts p) = d) ps else [])"

definition exchange_bars :: "int \<Rightarrow> hist_env \<Rightarrow> scandle list" where
  "exchange_bars bs w = map (curve_bar bs (todays_points w)) (last_n 500 (bar_starts bs (todays_points w)))"

lemma stamped_offset:
  assumes "curve_stamped ps"
  shows "bucket_offset ps bs t = ist_offset"
proof -
  have zone: "\<exists>d. fromisoformat (cp_ts p) = Some d \<and> dt_tz d = Some ist_offset" if "p \<in> set ps" for p
    using that assms by (auto simp: curve_stamped_def fromisoformat_isoformat ist_time_ok)
  let ?P = "\<lambda>p. case graph_point_of bs (curve_graph_point p) of Some (i, _) \<Rightarrow> of_int i = t | None \<Rightarrow> False"
  show ?thesis
  proof (cases "filter ?P ps")
    case (Cons p qs)
    then have "p \<in> set ps" by (metis filter_is_subset list.set_intros(1) subsetD)
    then obtain d where "fromisoformat (cp_ts p) = Some d" "dt_tz d = Some ist_offset" using zone by blast
    with Cons show ?thesis by (simp add: bucket_offset_def)
  qed (simp add: bucket_offset_def)
qed

lemma curve_points_eq:
  assumes "curve_stamped ps"
  shows "List.map_filter (graph_point_of bs) (map curve_graph_point ps) =
    map (\<lambda>p. (bar_start bs p, the (cp_price p), case cp_volume p of None \<Rightarrow> 0 | Some v \<Rightarrow> v)) (filter priced ps)"
  using assms
proof (induction ps)
  case (Cons p ps)
  then obtain u where "stamped u" "cp_ts p = isoformat (ist_time u)" by (auto simp: curve_stamped_def)
  with Cons show ?case
    by (auto simp: map_filter_simps graph_point_of_def curve_graph_point_def curve_stamped_def priced_def bar_start_def
        point_epoch_iso split: option.splits)
qed (simp add: map_filter_simps)

lemma curve_candles_eq:
  assumes "curve_stamped ps" "0 < bs"
  shows "curve_candles ps bs n = map (curve_bar bs ps) (last_n n (bar_starts bs ps))"
proof -
  let ?pts = "map (\<lambda>p. (bar_start bs p, the (cp_price p), case cp_volume p of None \<Rightarrow> 0 | Some v \<Rightarrow> v)) (filter priced ps)"
  have cell: "bar_candle ist_offset (cell_bar 1 (i, c)) = curve_bar bs ps i" if "(i, c) \<in> set (bucket_points ?pts)" for i c
  proof -
    let ?ks = "filter (\<lambda>p. priced p \<and> bar_start bs p = i) ps"
    have g: "group_of i ?pts = map (\<lambda>p. (the (cp_price p), case cp_volume p of None \<Rightarrow> 0 | Some v \<Rightarrow> v)) ?ks"
      by (simp add: group_of_def filter_map comp_def conj_commute)
    have c: "group_cell (group_of i ?pts) = Some c"
      using that bucket_points_distinct[of ?pts] by (simp add: bucket_points_spec[symmetric])
    then have "?ks \<noteq> []" unfolding g by (metis group_cell.simps(1) list.simps(8) option.distinct(1))
    with group_cell_eq[OF c] show ?thesis
      by (simp add: g curve_bar_def bar_candle_def cell_bar_def Let_def comp_def hd_map last_map image_image ist_time_def)
  qed
  have "curve_candles ps bs n = map (\<lambda>e. bar_candle ist_offset (cell_bar 1 e)) (last_n n (bucket_points ?pts))"
    using assms(2) by (cases "ps = []")
      (simp_all add: curve_candles_def points_to_ohlc_def stamped_offset[OF assms(1)] curve_points_eq[OF assms(1)]
        bucket_points_def last_n_def)
  also have "\<dots> = map (\<lambda>e. curve_bar bs ps (fst e)) (last_n n (bucket_points ?pts))"
  proof (rule map_cong[OF refl])
    fix e assume "e \<in> set (last_n n (bucket_points ?pts))"
    then have "(fst e, snd e) \<in> set (bucket_points ?pts)" using set_last_n by fastforce
    from cell[OF this] show "bar_candle ist_offset (cell_bar 1 e) = curve_bar bs ps (fst e)" by simp
  qed
  also have "\<dots> = map (curve_bar bs ps) (last_n n (map fst (bucket_points ?pts)))"
    by (simp add: last_n_map comp_def)
  also have "map fst (bucket_points ?pts) = bar_starts bs ps"
    by (simp add: bucket_points_order bar_starts_def comp_def)
  finally show ?thesis .
qed

lemma latest_session_Nil [simp]: "latest_session_only ts xs = [] \<longleftrightarrow> xs = []"
  by (auto simp: latest_session_only_def filter_empty_conv intro!: bexI[of _ "last xs"])

lemma latest_session_day:
  "filter (\<lambda>p. take 10 (cp_ts p) = d) (latest_session_only cp_ts ps) =
     (if ps \<noteq> [] \<and> take 10 (cp_ts (last ps)) = d then filter (\<lambda>p. take 10 (cp_ts p) = d) ps else [])"
  by (auto simp: latest_session_only_def filter_empty_conv intro: filter_cong)

lemma session_bars_eq:
  assumes "curve_stamped (exchange_curve w)" "0 < bs"
  shows "today_session_bars (he_now w) (he_tt w) (he_bse w) bs 500 = exchange_bars bs w"
proof -
  have pts: "today_session_bars (he_now w) (he_tt w) (he_bse w) bs 500 =
      (if todays_points w = [] then [] else curve_candles (todays_points w) bs 500)"
    by (cases "he_tt w"; cases "he_bse w")
      (auto simp: today_session_bars_def Let_def todays_points_def exchange_curve_def latest_session_day split: list.split)
  have "curve_stamped (todays_points w)"
    using assms(1) by (auto simp: curve_stamped_def todays_points_def Let_def)
  then show ?thesis
    by (simp add: pts exchange_bars_def curve_candles_eq[OF _ assms(2)] bar_starts_def first_seen_def last_n_def)
qed

section \<open>Bars stay within their day\<close>

text \<open>Half an hour is a whole number of bars of every intraday width of the history endpoint, so a bar starts on the day of
  its points.\<close>

lemma ist_time_date: "dt_date (ist_time u) = fromordinal ((u + us_of 0 ist_offset) div day_us + epoch_ordinal)"
  by (simp add: ist_time_def fromtimestamp_us_def Let_def)

lemma grid_same_day:
  fixes u m j k :: int
  assumes "0 < m" "0 \<le> k"
  shows "(u div m * m + m * j) div (m * k) = (u + m * j) div (m * k)"
proof -
  have "u div m * m + m * j = m * (u div m + j)" by (simp add: algebra_simps)
  then have "(u div m * m + m * j) div (m * k) = (u div m + j) div k" using assms(1) by simp
  also have "\<dots> = (u + m * j) div m div k" using assms(1) by (simp add: add.commute)
  also have "\<dots> = (u + m * j) div (m * k)" using assms(2) by (simp add: zdiv_zmult2_eq)
  finally show ?thesis .
qed

lemma bar_start_eq:
  assumes "stamped u" "cp_ts p = isoformat (ist_time u)" "0 < bs"
  shows "bar_start bs p * 1000000 = u div (bs * 1000000) * (bs * 1000000)"
proof -
  have "(of_int u / 1000000) / of_int bs = (of_int u / of_int (bs * 1000000) :: rat)" by simp
  then have "\<lfloor>(of_int u / 1000000) / of_int bs :: rat\<rfloor> = u div (bs * 1000000)" by (simp only: floor_divide_of_int_eq)
  then show ?thesis by (simp add: bar_start_def assms(2) point_epoch_iso[OF assms(1)])
qed

lemma bar_start_day:
  assumes "stamped u" "cp_ts p = isoformat (ist_time u)" "bs \<in> {60, 300, 900, 1800}"
  shows "dt_date (ist_time (bar_start bs p * 1000000)) = dt_date (ist_time u)"
proof -
  have "0 < bs" using assms(3) by auto
  let ?m = "bs * 1000000"
  obtain j k where jk: "us_of 0 ist_offset = ?m * j" "day_us = ?m * k"
  proof -
    have "?m dvd us_of 0 ist_offset" "?m dvd day_us" using assms(3) by (auto simp: us_of_def ist_offset_def day_us_def)
    then show thesis using that by (auto elim!: dvdE)
  qed
  have m: "0 < ?m" using \<open>0 < bs\<close> by simp
  have "0 < ?m * k" unfolding jk(2)[symmetric] by (simp add: day_us_def us_of_def)
  then have k: "0 \<le> k" using m by (simp add: zero_less_mult_iff)
  show ?thesis
    unfolding ist_time_date bar_start_eq[OF assms(1,2) \<open>0 < bs\<close>] jk grid_same_day[OF m k] ..
qed

lemma day_of_iso: "take 10 (isoformat t) = date_text (dt_date t)"
  by (simp add: isoformat_def)

lemma history_width: "map_of interval_map i = Some code \<Longrightarrow> map_of interval_seconds code = Some bs \<Longrightarrow> bs \<in> {60, 300, 900, 1800}"
  by (auto simp: interval_map_def interval_seconds_def split: if_splits)

lemma exchange_bars_day:
  assumes "curve_stamped (exchange_curve w)" "bs \<in> {60, 300, 900, 1800}" "b \<in> set (exchange_bars bs w)"
  shows "take 10 (sc_ts b) = day_text (he_now w)"
proof -
  from assms(3) obtain i where i: "b = curve_bar bs (todays_points w) i" "i \<in> set (bar_starts bs (todays_points w))"
    using set_last_n by (fastforce simp: exchange_bars_def)
  then obtain p where p: "p \<in> set (todays_points w)" "i = bar_start bs p" by (auto simp: bar_starts_def first_seen_def)
  then have d: "take 10 (cp_ts p) = day_text (he_now w)" "p \<in> set (exchange_curve w)"
    by (auto simp: todays_points_def Let_def split: if_splits)
  obtain u where u: "stamped u" "cp_ts p = isoformat (ist_time u)" using assms(1) d(2) by (auto simp: curve_stamped_def)
  have "take 10 (sc_ts b) = date_text (dt_date (ist_time (bar_start bs p * 1000000)))"
    by (simp add: i(1) p(2) curve_bar_def Let_def day_of_iso)
  also have "\<dots> = take 10 (cp_ts p)" by (simp only: bar_start_day[OF u assms(2)]) (simp add: u(2) day_of_iso)
  finally show ?thesis using d(1) by simp
qed

section \<open>The caches behind the endpoint\<close>

text \<open>The states the two caches can be in after any operations of the requests of a set, each given by its symbol, its exchange
  and its environment: look-ups, the store of what the history feed or the exchanges gave, and the clearing endpoint, in any
  order.\<close>

type_synonym asked = "string \<times> string \<times> hist_env"

inductive hist_reach :: "asked set \<Rightarrow> hist_caches \<Rightarrow> bool" for E where
  fresh: "hist_reach E (new_ttl_cache a b, new_ttl_cache c d)"
| looked_past: "hist_reach E (h, t) \<Longrightarrow> hist_reach E (snd (cache_get k now h), t)"
| looked_today: "hist_reach E (h, t) \<Longrightarrow> hist_reach E (h, snd (cache_get k' now t))"
| stored_past: "hist_reach E (h, t) \<Longrightarrow> (s, x, w) \<in> E \<Longrightarrow>
    hist_reach E (cache_put (s, x, code, from, to) (Rows (he_rows w code from to)) (he_clock2 w) h, t)"
| stored_today: "hist_reach E (h, t) \<Longrightarrow> (s, x, w) \<in> E \<Longrightarrow>
    hist_reach E (h, cache_put (s, x, bs) (Rows (today_session_bars (he_now w) (he_tt w) (he_bse w) bs 500)) (he_clock2 w) t)"
| cleared: "hist_reach E (h, t) \<Longrightarrow> hist_reach E (snd (cache_clear h), snd (cache_clear t))"

text \<open>Every entry of a cache is one that was put, at the time it carries.\<close>

definition entries_ok :: "('k \<Rightarrow> secs \<Rightarrow> 'c cached_val \<Rightarrow> bool) \<Rightarrow> ('k, 'c) ttl_cache \<Rightarrow> bool" where
  "entries_ok P c \<longleftrightarrow> (\<forall>k t v b. map_of (ttl_store c) k = Some (t, v, b) \<longrightarrow> P k t v)"

lemma entries_new: "entries_ok P (new_ttl_cache a b)"
  by (simp add: entries_ok_def new_ttl_cache_def)

lemma entries_evict: "entries_ok P c \<Longrightarrow> entries_ok P (evict_key k c)"
  by (auto simp: entries_ok_def evict_key_def split: option.splits if_splits)

lemma entries_get: "entries_ok P c \<Longrightarrow> entries_ok P (snd (cache_get k now c))"
  by (auto simp: cache_get_def entries_evict split: option.splits)

lemma entries_shrink: "entries_ok P c \<Longrightarrow> entries_ok P (shrink c)"
proof (induction c rule: shrink.induct)
  case (1 c)
  then show ?case by (subst shrink.simps) (simp add: entries_evict)
qed

lemma entries_put:
  assumes "entries_ok P c" "P k now v" shows "entries_ok P (cache_put k v now c)"
  unfolding cache_put_def Let_def
  by (rule entries_shrink) (use assms entries_evict[OF assms(1), of k] in \<open>auto simp: entries_ok_def\<close>)

lemma entries_clear: "entries_ok P (snd (cache_clear c))"
  by (simp add: entries_ok_def cache_clear_def)

fun past_of :: "asked set \<Rightarrow> hist_key \<Rightarrow> secs \<Rightarrow> hrow cached_val \<Rightarrow> bool" where
  "past_of E (s, x, code, from, to) t v \<longleftrightarrow> (\<exists>w. (s, x, w) \<in> E \<and> t = he_clock2 w \<and> v = Rows (he_rows w code from to))"

fun today_of :: "asked set \<Rightarrow> string \<times> string \<times> int \<Rightarrow> secs \<Rightarrow> scandle cached_val \<Rightarrow> bool" where
  "today_of E (s, x, bs) t v \<longleftrightarrow> (\<exists>w. (s, x, w) \<in> E \<and> t = he_clock2 w \<and>
     v = Rows (today_session_bars (he_now w) (he_tt w) (he_bse w) bs 500))"

lemma hist_reach_entries: "hist_reach E c \<Longrightarrow> entries_ok (past_of E) (fst c) \<and> entries_ok (today_of E) (snd c)"
  by (induction rule: hist_reach.induct) (auto intro!: entries_new entries_get entries_put entries_clear)

text \<open>A request of the set leaves the caches in such a state again.\<close>

lemma hist_reach_get_put:
  assumes "hist_reach E (h, t)" "(s, x, w) \<in> E"
  shows "hist_reach E (snd (snd (cached_history s x code from to (he_rows w code from to) t0 (he_clock2 w) h)), t)"
    and "hist_reach E (h, snd (snd (cached_today_bars s x bs (today_session_bars (he_now w) (he_tt w) (he_bse w) bs 500) t0 (he_clock2 w) t)))"
  using looked_past[OF assms(1), of "(s, x, code, from, to)" t0] looked_today[OF assms(1), of "(s, x, bs)" t0] assms(2)
  by (auto simp: cached_history_def cached_today_bars_def cached_read_def intro: stored_past stored_today split: prod.splits option.splits)

lemma sb_history_reach:
  assumes "hist_reach E caches" "(canonical_symbol sm, exch, v) \<in> E"
  shows "hist_reach E (snd (sb_history v sm exch interval from to adjust caches))"
proof -
  obtain h t where c: "caches = (h, t)" by fastforce
  note step = hist_reach_get_put[OF _ assms(2)]
  show ?thesis
    using step(1)[OF assms(1)[unfolded c]] step(2)[OF step(1)[OF assms(1)[unfolded c]]] assms(1)
    by (simp add: sb_history_def c Let_def split_beta split: option.split sum.split)
qed

section \<open>The period\<close>

text \<open>The day a date parameter names; \<open>dflt\<close> when it is missing or empty.\<close>

definition asked_day :: "string option \<Rightarrow> int \<Rightarrow> int option" where
  "asked_day s dflt = (if s \<in> {None, Some []} then Some dflt else map_option toordinal (strptime_day (the s)))"

definition depth :: "string \<Rightarrow> int" where
  "depth code = (case map_of interval_max_days code of None \<Rightarrow> 365 * 10 | Some n \<Rightarrow> n)"

lemma history_period:
  assumes "history_window now code from to = Inr (start, stop)"
  shows "\<exists>first. asked_day to (toordinal (dt_date now)) = Some (fst stop) \<and>
    asked_day from (fst stop - min (depth code) 365) = Some first \<and> fst start = max first (fst stop - depth code)"
  using assms
  by (cases to; cases "from")
    (auto simp: history_window_def Let_def before_naive_def parse_naive_def asked_day_def max_def depth_def
      dest!: minus_days_Inr split: sum.splits if_splits list.splits option.splits)

section \<open>Property\<close>

lemma cached_read_from:
  assumes "cached_read k fetched t0 t1 c = (made, v, c')" "entries_ok P c"
  shows "v = Rows fetched \<or> (\<exists>t. P k t v \<and> t0 - t < ttl_life c)"
  using assms by (fastforce simp: cached_read_def cache_get_def entries_ok_def split: option.splits if_splits)

text \<open>A request whose answer may be served to a request \<open>v\<close> for the same symbol and exchange: \<open>v\<close> itself, or one of the set
  that stored it less than a cache life ago.\<close>

definition serves :: "asked set \<Rightarrow> string \<Rightarrow> string \<Rightarrow> hist_env \<Rightarrow> secs \<Rightarrow> hist_env \<Rightarrow> bool" where
  "serves E s x v life w \<longleftrightarrow> w = v \<or> ((s, x, w) \<in> E \<and> he_clock v - he_clock2 w < life)"

text \<open>C15: The current day of an intraday history is served from the exchanges and never from the delayed feed. Let the caches be
  in any state that earlier requests left them in, and the stamps of the exchange curves be IST texts. Then the reply consists of
  the history feed's bars of earlier days, in time order, followed by bars of the exchange curve of one request, this one or one
  less than a cache life ago: exactly the bars, by definition, of the points of that curve that carry the date the request was
  made on (Tickertape's curve, the one of BSE only when that is empty; at most the last 500 bars), each stamped with that date.
  They are there just when the period contains today. The period ends on the day asked for, or today, and starts on the day asked
  for, or a year earlier, but never further back than the feed has data for.\<close>
theorem history_today_from_exchange:
  assumes "hist_reach E caches"
    and "\<forall>(s, x, w)\<in>insert (canonical_symbol sm, exch, v) E. curve_stamped (exchange_curve w)"
    and "sb_history v sm exch interval from to adjust caches = (Inr r, caches')"
    and "map_of interval_map interval = Some code" "map_of interval_seconds code = Some bs"
  shows "\<exists>past w1 tbars w2 start stop first.
     ht_candles r = map default_oi (past @ tbars) \<and>
     serves E (canonical_symbol sm) exch v (ttl_life (fst caches)) w1 \<and>
     past = filter (\<lambda>c. take 10 (sc_ts c) < day_text (he_now v)) (norm_candles (he_rows w1 code (ht_from r) (ht_to r))) \<and>
     sorted (map sc_ts past) \<and>
     serves E (canonical_symbol sm) exch v (ttl_life (snd caches)) w2 \<and>
     tbars = (if ht_from r \<le> day_text (he_now v) \<and> day_text (he_now v) \<le> ht_to r then exchange_bars bs w2 else []) \<and>
     (\<forall>b\<in>set tbars. take 10 (sc_ts b) = day_text (he_now w2)) \<and>
     ht_today_source r = (if tbars = [] then None else Some ''scraper_live'') \<and>
     asked_day to (toordinal (dt_date (he_now v))) = Some stop \<and> asked_day from (stop - min (depth code) 365) = Some first \<and>
     start = max first (stop - depth code) \<and> ht_from r = date_text (fromordinal start) \<and> ht_to r = date_text (fromordinal stop)"
proof -
  obtain start stop where w: "history_window (he_now v) code from to = Inr (start, stop)"
    using assms(3,4) by (auto simp: sb_history_def Let_def split: sum.splits)
  let ?s = "canonical_symbol sm" and ?today = "day_text (he_now v)" and ?from = "naive_day start" and ?to = "naive_day stop"
  let ?fresh = "today_session_bars (he_now v) (he_tt v) (he_bse v) bs 500"
  obtain made rows hc where h: "cached_history ?s exch code ?from ?to (he_rows v code ?from ?to) (he_clock v) (he_clock2 v) (fst caches) =
      (made, rows, hc)" by (metis prod_cases3)
  obtain m2 b2 tc where t: "cached_today_bars ?s exch bs ?fresh (he_clock v) (he_clock2 v) (snd caches) = (m2, b2, tc)"
    by (metis prod_cases3)
  define past where "past = filter (\<lambda>c. take 10 (sc_ts c) < ?today) (norm_candles (rows_of rows))"
  define tbars where "tbars = (if ?from \<le> ?today \<and> ?today \<le> ?to then rows_of b2 else [])"
  have r: "ht_candles r = map default_oi (past @ tbars) \<and> ht_from r = ?from \<and> ht_to r = ?to \<and>
      ht_today_source r = (if tbars = [] then None else Some ''scraper_live'')"
    using assms(3) unfolding sb_history_def Let_def assms(4,5) w h t
    by (auto simp: past_def tbars_def assms(5) h t w split: if_splits)
  note entries = hist_reach_entries[OF assms(1)]
  have "rows = Rows (he_rows v code ?from ?to) \<or> (\<exists>t. past_of E (?s, exch, code, ?from, ?to) t rows \<and> he_clock v - t < ttl_life (fst caches))"
    using cached_read_from[OF h[unfolded cached_history_def]] entries by blast
  then obtain w1 where w1: "serves E ?s exch v (ttl_life (fst caches)) w1" "rows = Rows (he_rows w1 code ?from ?to)"
    by (auto simp: serves_def)
  have "b2 = Rows ?fresh \<or> (\<exists>t. today_of E (?s, exch, bs) t b2 \<and> he_clock v - t < ttl_life (snd caches))"
    using cached_read_from[OF t[unfolded cached_today_bars_def]] entries by blast
  then obtain w2 where w2: "serves E ?s exch v (ttl_life (snd caches)) w2"
      "b2 = Rows (today_session_bars (he_now w2) (he_tt w2) (he_bse w2) bs 500)"
    by (auto simp: serves_def)
  have bs: "bs \<in> {60, 300, 900, 1800}" by (rule history_width[OF assms(4,5)])
  have st: "curve_stamped (exchange_curve w2)" using w2(1) assms(2) by (auto simp: serves_def)
  have b2: "rows_of b2 = exchange_bars bs w2" using session_bars_eq[OF st] bs by (auto simp: w2(2))
  have day: "\<forall>b\<in>set tbars. take 10 (sc_ts b) = day_text (he_now w2)"
    using exchange_bars_day[OF st bs] by (auto simp: tbars_def b2)
  have past: "sorted (map sc_ts past)" unfolding past_def by (rule sorted_filter_ts) (rule norm_candles_sorted)
  from history_period[OF w] obtain first where "asked_day to (toordinal (dt_date (he_now v))) = Some (fst stop)"
    "asked_day from (fst stop - min (depth code) 365) = Some first" "fst start = max first (fst stop - depth code)" by blast
  moreover have "past = filter (\<lambda>c. take 10 (sc_ts c) < ?today) (norm_candles (he_rows w1 code (ht_from r) (ht_to r)))"
    by (simp add: past_def w1(2) r)
  moreover have "tbars = (if ht_from r \<le> ?today \<and> ?today \<le> ht_to r then exchange_bars bs w2 else [])"
    by (simp add: tbars_def b2 r)
  moreover have "ht_from r = date_text (fromordinal (fst start))" "ht_to r = date_text (fromordinal (fst stop))"
    by (simp_all add: r naive_day_def)
  ultimately show ?thesis using r w1(1) w2(1) day past by blast
qed

definition demo_day_env :: hist_env where
  "demo_day_env = \<lparr>he_now = ist_time (demo_us + 600000000), he_clock = 1, he_clock2 = 2, he_tt = Some demo_curve, he_bse = None,
     he_rows = (\<lambda>c f t. [demo_row ''2026-01-04T15:00:00+05:30'' (VNum 4), demo_row ''2026-01-05T09:30:00+05:30'' (VNum 9)])\<rparr>"

lemma demo_us_eq: "demo_us = 1767584700000000"
  by code_simp

lemma demo_same_day: "dt_date (ist_time (demo_us + k)) = dt_date (ist_time demo_us)" if "k \<in> {60000000, 120000000, 360000000, 600000000}"
proof -
  have "(demo_us + k + us_of 0 ist_offset) div day_us = (demo_us + us_of 0 ist_offset) div day_us"
    using that by (auto simp: demo_us_eq us_of_def ist_offset_def day_us_def)
  then show ?thesis unfolding ist_time_date by simp
qed

lemma demo_todays_points: "todays_points demo_day_env = demo_curve"
  by (simp add: todays_points_def exchange_curve_def demo_day_env_def demo_curve_def day_text_def day_of_iso demo_same_day)

lemma demo_start: "stamped (demo_us + k) \<Longrightarrow> cp_ts p = isoformat (ist_time (demo_us + k)) \<Longrightarrow> bar_start 300 p = (demo_us + k) div 300000000 * 300"
  using bar_start_eq[of "demo_us + k" p 300] by simp

lemma demo_day_bars: "map sc_close (exchange_bars 300 demo_day_env) = [Some 99, Some 101]"
proof -
  have "py_round 2 99 = 99" "py_round 2 101 = 101" by code_simp+
  then show ?thesis
    using demo_stamped demo_start[of 0] demo_start[of 60000000] demo_start[of 360000000]
    by (simp add: exchange_bars_def demo_todays_points demo_curve_def bar_starts_def priced_def first_seen_def last_n_def
        curve_bar_def Let_def demo_us_eq)
qed

text \<open>A five-minute history over the day of the curve: the feed's bar of that day is dropped for the two of the exchange.\<close>

theorem history_today_from_exchange_witness:
  "\<exists>r caches'. sb_history demo_day_env ''tcs'' ''NSE'' ''5minute'' None None True (new_ttl_cache 3600 48, new_ttl_cache 30 16) = (Inr r, caches') \<and>
     (\<exists>past. map sc_close (ht_candles r) = past @ [Some 99, Some 101])"
proof -
  let ?caches = "(new_ttl_cache 3600 48, new_ttl_cache 30 16)"
  have maps: "map_of interval_map ''5minute'' = Some ''5m''" "map_of interval_seconds ''5m'' = Some 300"
    by (simp_all add: interval_map_def interval_seconds_def)
  have reach: "hist_reach {} ?caches" by (rule fresh)
  have st: "\<forall>(s, x, w)\<in>insert (canonical_symbol ''tcs'', ''NSE'', demo_day_env) {}. curve_stamped (exchange_curve w)"
    using demo_curve_fine by (auto simp: curve_stamped_def curve_fine_def exchange_curve_def demo_day_env_def demo_curve_def)
  have "\<exists>a b. history_window (he_now demo_day_env) ''5m'' None None = Inr (a, b)"
    by (simp add: history_window_def minus_days_def interval_max_days_def demo_day_env_def ist_time_date fromordinal_toordinal
        demo_us_eq us_of_def ist_offset_def day_us_def epoch_ordinal_def before_naive_def Let_def)
  then obtain a b where w: "history_window (he_now demo_day_env) ''5m'' None None = Inr (a, b)" by blast
  obtain r caches' where r: "sb_history demo_day_env ''tcs'' ''NSE'' ''5minute'' None None True ?caches = (Inr r, caches')"
    by (simp add: sb_history_def Let_def maps w split_beta)
  from history_today_from_exchange[OF reach st r maps] obtain past tbars w2 start stop first where
    p: "ht_candles r = map default_oi (past @ tbars)" "w2 = demo_day_env"
      "tbars = (if ht_from r \<le> day_text (he_now demo_day_env) \<and> day_text (he_now demo_day_env) \<le> ht_to r then exchange_bars 300 w2 else [])"
      "asked_day None (toordinal (dt_date (he_now demo_day_env))) = Some stop" "asked_day None (stop - min (depth ''5m'') 365) = Some first"
      "start = max first (stop - depth ''5m'')" "ht_from r = date_text (fromordinal start)" "ht_to r = date_text (fromordinal stop)"
    unfolding serves_def by blast
  have now: "toordinal (dt_date (he_now demo_day_env)) = 739621" "he_now demo_day_env = ist_time (demo_us + 600000000)"
    by (simp_all add: demo_day_env_def ist_time_date fromordinal_toordinal demo_us_eq us_of_def ist_offset_def day_us_def epoch_ordinal_def)
  have "dt_date (he_now demo_day_env) = fromordinal 739621"
    by (simp add: now(2) ist_time_date demo_us_eq us_of_def ist_offset_def day_us_def epoch_ordinal_def)
  then have today: "day_text (he_now demo_day_env) = date_text (fromordinal 739621)" by (simp add: day_text_def)
  have "ht_to r = date_text (fromordinal 739621)" "ht_from r = date_text (fromordinal 739562)"
    using p(4-8) by (simp_all add: asked_day_def now(1) depth_def interval_max_days_def)
  moreover have "date_text (fromordinal 739562) \<le> date_text (fromordinal 739621)" by code_simp
  ultimately have "tbars = exchange_bars 300 demo_day_env" using p(2,3) today by simp
  moreover have "sc_close (default_oi c) = sc_close c" for c by (simp add: default_oi_def)
  ultimately have "map sc_close (ht_candles r) = map sc_close past @ [Some 99, Some 101]"
    by (simp add: p(1) comp_def demo_day_bars)
  with r show ?thesis by blast
qed

end
