(* ===== verification/Cookies.thy ===== *)
theory Cookies
  imports NseSession
begin

text \<open>
  The cookies of the NSE scraper (\<^verbatim>\<open>src/providers/nse_scraper.py\<close>), which NseSession leaves out: the home page's, those of the
  headless browser that stands in when the page is refused, and the empty jar after a rotation. What the site and the browser
  library give is an argument.
\<close>

section \<open>The jar\<close>

type_synonym cookies = "(string \<times> string) list"

record cookie_jar =
  cj_cookies :: cookies
  cj_at :: secs

definition new_jar :: cookie_jar where
  "new_jar = \<lparr>cj_cookies = [], cj_at = 0\<rparr>"

definition take_cookies :: "cookies \<Rightarrow> cookie_jar \<Rightarrow> cookie_jar" where
  "take_cookies cs j = j\<lparr>cj_cookies := foldl (\<lambda>d (k, v). dput k v d) (cj_cookies j) cs\<rparr>"

text \<open>The browser: not installed, failed with the cookies it had stored by then, or done, with the clock after closing it.\<close>

datatype browser = NotInstalled | BrowserFailed cookies | Browsed cookies secs

definition playwright_cookie_fallback :: "browser \<Rightarrow> cookie_jar \<Rightarrow> cookie_jar" where
  "playwright_cookie_fallback b j =
     (case b of
        NotInstalled \<Rightarrow> j
      | BrowserFailed cs \<Rightarrow> take_cookies cs j
      | Browsed cs t \<Rightarrow> (take_cookies cs j)\<lparr>cj_at := t\<rparr>)"

text \<open>The home page: status, cookies and the clock after storing them, or an exception.\<close>

datatype home_reply = HomeReply int cookies secs | HomeRaised

definition refresh_jar :: "secs \<Rightarrow> secs \<Rightarrow> home_reply \<Rightarrow> browser \<Rightarrow> cookie_jar \<Rightarrow> bool \<times> cookie_jar" where
  "refresh_jar iv now h b j =
     (if now - cj_at j < iv then (True, j)
      else (case h of
          HomeRaised \<Rightarrow> (False, j)
        | HomeReply status cs t \<Rightarrow>
            if status = 200 then (True, (take_cookies cs j)\<lparr>cj_at := t\<rparr>)
            else if status = 403 then (True, playwright_cookie_fallback b j)
            else (True, j)))"

definition rotate_jar :: "cookie_jar \<Rightarrow> cookie_jar" where
  "rotate_jar j = j\<lparr>cj_cookies := [], cj_at := 0\<rparr>"

section \<open>The session model as its abstraction\<close>

text \<open>The session keeps the stamp of the jar and of the reply what the stamp depends on.\<close>

definition home_of :: "home_reply \<Rightarrow> browser \<Rightarrow> home" where
  "home_of h b =
     (case h of HomeRaised \<Rightarrow> HomeFailed
      | HomeReply status cs t \<Rightarrow>
          if status = 200 then HomeOk t
          else if status = 403 then HomeBlocked (case b of Browsed cs t' \<Rightarrow> Some t' | _ \<Rightarrow> None)
          else HomeOther)"

definition keeps_stamp :: "nse_sess \<Rightarrow> cookie_jar \<Rightarrow> bool" where
  "keeps_stamp s j \<longleftrightarrow> ss_refreshed s = cj_at j"

lemma refresh_simulates:
  assumes "keeps_stamp s j" "refresh_jar iv now h b j = (ok, j')" "refresh_cookies iv now (home_of h b) s = (ok', s')"
  shows "ok' = ok \<and> keeps_stamp s' j'"
  using assms
  by (auto simp: keeps_stamp_def refresh_jar_def refresh_cookies_def home_of_def playwright_cookie_fallback_def take_cookies_def
      split: home_reply.splits browser.splits if_splits)

text \<open>Right after a rotation that finds the home page, only the cookies of the new egress are sent.\<close>

lemma take_into_empty: "cj_cookies (take_cookies cs (rotate_jar j)) = foldl (\<lambda>d (k, v). dput k v d) [] cs"
  by (simp add: take_cookies_def rotate_jar_def)

lemma rotated_jar_fresh:
  assumes "iv \<le> now" "refresh_jar iv now (HomeReply 200 cs t) b (rotate_jar j) = (ok, j')"
  shows "ok \<and> cj_at j' = t \<and> map_of (cj_cookies j') = map_of (rev cs)"
proof -
  have "map_of (foldl (\<lambda>d (k, v). dput k v d) d cs) = map_of d ++ map_of (rev cs)" for d :: cookies
    by (induction cs arbitrary: d) (auto simp: map_add_def fun_eq_iff split: option.split)
  then show ?thesis
    using assms take_into_empty[of cs j] by (auto simp: refresh_jar_def rotate_jar_def take_cookies_def)
qed

text \<open>While the page is refused and no browser is installed, the jar stays empty and the stamp 0: every request tries again.\<close>

lemma refused_without_browser:
  assumes "iv \<le> now"
  shows "refresh_jar iv now (HomeReply 403 cs t) NotInstalled (rotate_jar j) = (True, rotate_jar j)"
  using assms by (simp add: refresh_jar_def playwright_cookie_fallback_def rotate_jar_def)

end
