(* ===== verification/Spec2Isabelle.thy ===== *)
theory Spec2Isabelle
  imports BseSite QuoteStack SbLookup Scrape Streaming FeedLife Retention Settings HistoryDay Cookies
begin

text \<open>
  A verification development for bharat-ticker, a Python service for quotes and candles of the Indian exchanges.

  \<^bold>\<open>The program.\<close> A request enters through one of two sets of endpoints: the public ones (\<^verbatim>\<open>src/api/endpoints/quotes.py\<close>,
  \<^verbatim>\<open>market.py\<close>, \<^verbatim>\<open>historical.py\<close>, \<^verbatim>\<open>search.py\<close>, \<^verbatim>\<open>websocket.py\<close>) and the adapter for a trading front end (\<^verbatim>\<open>superbrain.py\<close>).
  Both read through the shared market-data service (\<^verbatim>\<open>src/engine/market_data.py\<close>), which asks the failover controller
  (\<^verbatim>\<open>failover.py\<close>) for a tick; the controller tries the providers in priority order, each behind a circuit breaker
  (\<^verbatim>\<open>circuit_breaker.py\<close>). A tick fetched is written to the tick cache (\<^verbatim>\<open>src/cache/ticker_cache.py\<close>), which is Redis or the
  in-process store (\<^verbatim>\<open>memory_store.py\<close>), and published to WebSocket clients. The adapter also samples live prices
  (\<^verbatim>\<open>live_candles.py\<close>), builds candles from them, keeps the one-second bars in a table (\<^verbatim>\<open>intraday_store.py\<close>,
  \<^verbatim>\<open>src/db/queries.py\<close>) and serves histories from several sources behind byte-bounded caches.

  \<^bold>\<open>The theories\<close>, from the ground up.

  \<^item> \<open>Prelude\<close>: Python's text, rounding, numerals, insertion-ordered dictionaries; the conventions (floats are rational, the
    clock is an argument). \<open>PyDict\<close>: JSON values and objects. \<open>ReadThrough\<close>: the contract of a cache with a time to live for one
    answer, as a locale, interpreted for the mood index, the macro table, the flows and the fundamentals.
  \<^item> \<open>Calendar\<close>, \<open>Clock\<close>, \<open>IsoTime\<close>, \<open>IsoOrder\<close>: \<^verbatim>\<open>config/holidays.py\<close>, \<^verbatim>\<open>utils/ist_clock.py\<close> and the part of \<^verbatim>\<open>datetime\<close> they
    and the ISO stamps use, with the order of stamps as texts. \<open>Regex\<close>: the part of \<^verbatim>\<open>re\<close> the scrapers use, as a
    backtracking matcher.
  \<^item> \<open>CircuitBreaker\<close>, \<open>Providers\<close>, \<open>Failover\<close>: the breaker with interleaved executions as a step relation (locale
    \<open>call_gate\<close>), the metrics of a provider, the cascade, the bulk fetch, health and test operations.
  \<^item> \<open>Models\<close>: the tick, order book and candle models with their validators (\<^verbatim>\<open>src/models\<close>). \<open>Egress\<close>: the token bucket and the
    proxy pool.
  \<^item> \<open>MemoryStore\<close>, \<open>TickerCache\<close>: the stand-in for Redis with strings, hashes, streams, groups, channels and pipelines (locale
    \<open>hash_cache\<close>), and the tick cache on it.
  \<^item> \<open>Feeds\<close>, \<open>NseSession\<close>, \<open>Cookies\<close>, \<open>BseSite\<close>, \<open>Archives\<close>, \<open>Csv\<close>: the providers: parsing and error handling of every live
    feed, the NSE sessions with cookies, browser fallback and proxies, the documents of the BSE site, and the end-of-day files,
    from the characters of the CSV text (locale \<open>eod_archive\<close>, for both exchanges) to the quote.
  \<^item> \<open>Bulk\<close>, \<open>FeedLife\<close>: the bulk fetches, whose tasks begin and end in any order (locale \<open>bulk_source\<close>, interpreted for four
    feeds), sessions and health checks of the light feeds.
  \<^item> \<open>MarketData\<close>, \<open>LiveStack\<close>: the service, and the service on the modelled feeds, with nothing left open but the sites' replies.
  \<^item> \<open>Candles\<close>, \<open>LiveCandles\<close>, \<open>IntradayStore\<close>, \<open>Retention\<close>, \<open>Watchlist\<close>, \<open>CorpActions\<close>: bucketing, the sampling engine with its
    recorder loops, the candle table (locale \<open>keyed_table\<close>), the prune loop beside the flushes, and the adjustment for splits.
  \<^item> \<open>SbQuotes\<close>, \<open>LiveQuote\<close>, \<open>SbService\<close>, \<open>TTLCache\<close>, \<open>SbHistory\<close>, \<open>Tickertape\<close>, \<open>Macro\<close>, \<open>Fundamentals\<close>, \<open>Screener\<close>, \<open>SbLookup\<close>: the
    adapter: quote shapes, single-flight fetches (callers, tasks and cancellations interleave), warm cache and bulk quotes
    (locale \<open>quote_law\<close>: what holds of every quote of a request), candle endpoints, the Tickertape client, the market context,
    ratios, scans, resolver, event stream and diagnostics. \<open>Scrape\<close> computes from the text of the scraped pages what the
    ratios and scans start from. \<open>QuoteStack\<close> composes the bulk quotes with the shipped stack; \<open>Timeframes\<close> turns the
    intraday candles into texts and runs the checks of \<^verbatim>\<open>scripts/military_test_v2.py\<close> and \<^verbatim>\<open>military_test_v3.py\<close> on them;
    \<open>HistoryDay\<close> says whose bars a history serves for the current day, with the caches in any state requests leave them in.
  \<^item> \<open>Database\<close>, \<open>QuoteApi\<close>, \<open>Streaming\<close>: the remaining tables (another interpretation of \<open>keyed_table\<close>) with the historical and
    search endpoints, the public quote endpoints, and the WebSocket endpoints as events over the tick cache.
  \<^item> \<open>Host\<close>, \<open>Settings\<close>, \<open>SystemApi\<close>: the settings with their validators, CORS, the connection managers and the watchdog thread;
    the life of the process from start-up to shutdown (\<^verbatim>\<open>src/main.py\<close>), the market headers and the status endpoints.

  \<^bold>\<open>Correspondence.\<close> An object or module state is a record with the code's fields, an operation a function from the state and
  its arguments to the result and the new state; the body of a handler is one definition with the code's guards and early
  returns in their order. An exception that leaves an operation is \<open>Inl\<close> of an error or \<open>None\<close>, as the opening text of the theory
  says. What runs concurrently on the event loop (executions of a breaker, requests for one quote, WebSocket clients) is a step
  relation or a fold over events in any order. Replies of sites, of the browser and of the history client, random choices and
  clock readings are arguments.

  \<^bold>\<open>What is shown\<close>, by group of lemmas.

  \<^item> Serving: a pinned live read returns only a legal tick of the exchange and symbol asked, from a source that is not delayed;
    the cascade keeps a contract that names no step of its loop (who may be asked, whose answer settles the call, what every
    breaker records); the provider order and the breakers' legality hold in every reachable state.
  \<^item> Breakers: the invariant of all reachable states, no admission before the time-out, the trials of a half-open breaker; that
    cancelled trials wedge a breaker for good is proved too.
  \<^item> Caches and store: written ticks are served until they expire; the store's invariant; the byte budget of the history caches;
    one fetch in flight per quote; answers of read-through caches repeat.
  \<^item> Candles: the one-pass builder returns exactly the bars of the bucketing by definition, volume is conserved, a tape has one
    source at a time, flushed bars read back as the live ones, no stored bar outlives the retention by more than the rounds of
    the prune loop that failed (and one), adjusted bars are the original ones scaled by later splits, curves are ordered, and the candle replies pass the checks of the military tests.
  \<^item> Files and pages: a CSV file printed under any quoting reads back, from its characters to the quote; the matcher finds
    exactly what a pattern describes; a ratio of a company page is that of the figures its tables show.
  \<^item> Endpoints: bulk replies account for every symbol and name only registered sources, intraday histories take the current day
    from the exchange curve of that day and from nowhere else, tables read their latest writes, scans return what they say, the
    resolver searches symbols (and only symbols), streams and sockets send what was recorded.
  \<^item> Pacing and safety: the token bucket's bound in every window of a run, whatever came before it, the gap between searches,
    bounds on macro figures, a watchdog that spares a living loop and ends a wedged one in bounded time, bulk fetches with at most five requests under
    way, and a process that starts whatever its databases do.

  \<^bold>\<open>Recursion and bounds.\<close> Most loops are recursions over their data. The search for a trading day is a \<open>partial_function\<close>; it is
  proved to return after at most six closed days on every date the tables cover, and to stop at the ends of the calendar. The
  eviction loop and the chunking terminate by measures. The limiter's waiting loop runs over the clock readings of its turns,
  the event stream over its polls; both are proved to end once those advance. A recorder runs over the list of its turns. There
  is no other fuel.

  \<^bold>\<open>Not modelled.\<close> Network, TLS and the browser itself; SQL and JSON as text (statements are functions on tables, parsed values
  the model's data); the parser of the environment file; regular expressions outside the fragment the scrapers use; binary
  floating point; NaN and infinities; logging; the random choice of header strings (a drawn one is an argument); the routers,
  static pages and the application of the schema script; the launcher, the parts of the scripts that generate load, and the tests.
\<close>

end
